(* ===== verification/Prelude.thy ===== *)
theory Prelude
  imports Main "HOL-Library.Word"
begin

text \<open>
  Shared vocabulary of the development: the outcome type of a Rust function, the
  integer types at their width, checked and panicking arithmetic, little- and big-endian
  byte codings, and the list facts that several components use.

  A Rust call has one of four outcomes: it returns (\<open>Ok\<close>, the value of the function or
  of its \<open>Result::Ok\<close>), it returns an error (\<open>Err\<close>), it panics (an index out of
  bounds, an \<open>expect\<close>, an arithmetic overflow with overflow checks on), or it does not
  return. A panic and a divergence are values here, so that "no panic" and "returns" are
  statements that have to be proved. Where no operation of a function can overflow, the
  builds with and without overflow checks agree on it.
\<close>

unbundle bit_operations_syntax

section \<open>Outcomes\<close>

datatype (dead 'e, 'a) res = Ok 'a | Err 'e | Panic | Diverge

named_theorems res_simps \<open>rewriting through outcomes\<close>
named_theorems word_nat \<open>machine words read as natural numbers\<close>

fun rbind :: "('e, 'a) res \<Rightarrow> ('a \<Rightarrow> ('e, 'b) res) \<Rightarrow> ('e, 'b) res" where
  "rbind (Ok x) f = f x"
| "rbind (Err e) f = Err e"
| "rbind Panic f = Panic"
| "rbind Diverge f = Diverge"

text \<open>\<open>r.map_err(g)\<close>.\<close>

fun map_err :: "('e \<Rightarrow> 'f) \<Rightarrow> ('e, 'a) res \<Rightarrow> ('f, 'a) res" where
  "map_err g (Ok x) = Ok x"
| "map_err g (Err e) = Err (g e)"
| "map_err g Panic = Panic"
| "map_err g Diverge = Diverge"

text \<open>\<open>o.ok_or(e)\<close>.\<close>

fun ok_or :: "'e \<Rightarrow> 'a option \<Rightarrow> ('e, 'a) res" where
  "ok_or e (Some x) = Ok x"
| "ok_or e None = Err e"

text \<open>\<open>if !c { return Err(e) }\<close>.\<close>

definition ensure :: "bool \<Rightarrow> 'e \<Rightarrow> ('e, unit) res" where
  "ensure c e = (if c then Ok () else Err e)"

text \<open>Indexing a slice: out of bounds panics.\<close>

definition index_at :: "'a list \<Rightarrow> nat \<Rightarrow> ('e, 'a) res" where
  "index_at xs i = (if i < length xs then Ok (xs ! i) else Panic)"

text \<open>\<open>xs.get(i)\<close>.\<close>

definition get_at :: "'a list \<Rightarrow> nat \<Rightarrow> 'a option" where
  "get_at xs i = (if i < length xs then Some (xs ! i) else None)"

text \<open>\<open>xs.get(a..b)\<close>.\<close>

definition get_range :: "'a list \<Rightarrow> nat \<Rightarrow> nat \<Rightarrow> 'a list option" where
  "get_range xs a b = (if a \<le> b \<and> b \<le> length xs then Some (take (b - a) (drop a xs)) else None)"

text \<open>A loop that maps a fallible body over a list and stops at the first failure.\<close>

fun traverse :: "('a \<Rightarrow> ('e, 'b) res) \<Rightarrow> 'a list \<Rightarrow> ('e, 'b list) res" where
  "traverse f [] = Ok []"
| "traverse f (x # xs) = rbind (f x) (\<lambda>y. rbind (traverse f xs) (\<lambda>ys. Ok (y # ys)))"

text \<open>A loop with an accumulator.\<close>

fun rfold :: "('a \<Rightarrow> 's \<Rightarrow> ('e, 's) res) \<Rightarrow> 'a list \<Rightarrow> 's \<Rightarrow> ('e, 's) res" where
  "rfold f [] s = Ok s"
| "rfold f (x # xs) s = rbind (f x s) (\<lambda>s'. rfold f xs s')"

lemma rbind_Ok_iff [res_simps, simp]: "rbind m f = Ok y \<longleftrightarrow> (\<exists>x. m = Ok x \<and> f x = Ok y)"
  by (cases m) auto

lemma rbind_Err_iff [res_simps]:
  "rbind m f = Err e \<longleftrightarrow> m = Err e \<or> (\<exists>x. m = Ok x \<and> f x = Err e)"
  by (cases m) auto

lemma rbind_Panic_iff [res_simps]:
  "rbind m f = Panic \<longleftrightarrow> m = Panic \<or> (\<exists>x. m = Ok x \<and> f x = Panic)"
  by (cases m) auto

lemma rbind_Diverge_iff [res_simps]:
  "rbind m f = Diverge \<longleftrightarrow> m = Diverge \<or> (\<exists>x. m = Ok x \<and> f x = Diverge)"
  by (cases m) auto

lemma rbind_assoc: "rbind (rbind m f) g = rbind m (\<lambda>x. rbind (f x) g)"
  by (cases m) auto

lemma rbind_Ok_right [simp]: "rbind m Ok = m"
  by (cases m) auto

lemma rbind_cong [fundef_cong]:
  "m = m' \<Longrightarrow> (\<And>x. m' = Ok x \<Longrightarrow> f x = f' x) \<Longrightarrow> rbind m f = rbind m' f'"
  by (cases m') auto

lemma map_err_Ok_iff [res_simps, simp]: "map_err g m = Ok x \<longleftrightarrow> m = Ok x"
  by (cases m) auto

lemma map_err_Err_iff [res_simps]: "map_err g m = Err e \<longleftrightarrow> (\<exists>e'. m = Err e' \<and> e = g e')"
  by (cases m) auto

lemma map_err_stuck_iff [res_simps, simp]:
  "map_err g m = Panic \<longleftrightarrow> m = Panic" "map_err g m = Diverge \<longleftrightarrow> m = Diverge"
  by (cases m; auto)+

lemma ok_or_Ok_iff [res_simps, simp]: "ok_or e m = Ok x \<longleftrightarrow> m = Some x"
  by (cases m) auto

lemma ok_or_other_iff [res_simps, simp]:
  "ok_or e m = Err e' \<longleftrightarrow> m = None \<and> e' = e" "ok_or e m \<noteq> Panic" "ok_or e m \<noteq> Diverge"
  by (cases m; auto)+

lemma ensure_iff [res_simps, simp]:
  "ensure c e = Ok u \<longleftrightarrow> c" "ensure c e = Err e' \<longleftrightarrow> \<not> c \<and> e' = e"
  "ensure c e \<noteq> Panic" "ensure c e \<noteq> Diverge"
  by (auto simp: ensure_def)

lemma index_at_iff [res_simps, simp]:
  "index_at xs i = Ok x \<longleftrightarrow> i < length xs \<and> x = xs ! i"
  "index_at xs i = Panic \<longleftrightarrow> length xs \<le> i"
  "index_at xs i \<noteq> Err e" "index_at xs i \<noteq> Diverge"
  by (auto simp: index_at_def)

lemma get_at_Some_iff [simp]: "get_at xs i = Some x \<longleftrightarrow> i < length xs \<and> x = xs ! i"
  by (auto simp: get_at_def)

lemma get_range_Some_iff [simp]:
  "get_range xs a b = Some ys \<longleftrightarrow> a \<le> b \<and> b \<le> length xs \<and> ys = take (b - a) (drop a xs)"
  by (auto simp: get_range_def)

lemma traverse_Ok_iff: "traverse f xs = Ok ys \<longleftrightarrow> list_all2 (\<lambda>x y. f x = Ok y) xs ys"
  by (induction xs arbitrary: ys) (auto simp: list_all2_Cons1)

lemma traverse_length: "traverse f xs = Ok ys \<Longrightarrow> length ys = length xs"
  by (auto simp: traverse_Ok_iff dest: list_all2_lengthD)

lemma traverse_append:
  "traverse f (xs @ ys) = rbind (traverse f xs) (\<lambda>us. rbind (traverse f ys) (\<lambda>vs. Ok (us @ vs)))"
  by (induction xs) (simp_all add: rbind_assoc)

lemma traverse_no_Panic: "(\<And>x. x \<in> set xs \<Longrightarrow> f x \<noteq> Panic) \<Longrightarrow> traverse f xs \<noteq> Panic"
  by (induction xs) (auto simp: rbind_Panic_iff)

lemma traverse_map_Ok: "(\<And>x. x \<in> set xs \<Longrightarrow> f x = Ok (g x)) \<Longrightarrow> traverse f xs = Ok (map g xs)"
  by (induction xs) auto

lemma rfold_append: "rfold f (xs @ ys) s = rbind (rfold f xs s) (rfold f ys)"
  by (induction xs arbitrary: s) (simp_all add: rbind_assoc cong: rbind_cong)

lemma rfold_invariant:
  assumes "rfold f xs s = Ok s'" and "P s"
    and "\<And>x s s'. x \<in> set xs \<Longrightarrow> P s \<Longrightarrow> f x s = Ok s' \<Longrightarrow> P s'"
  shows "P s'"
  using assms by (induction xs arbitrary: s) auto

section \<open>Slices\<close>

text \<open>\<open>out[at..at + src.len()].copy_from_slice(src)\<close> on an array that is long enough.\<close>

definition put_slice :: "nat \<Rightarrow> 'a list \<Rightarrow> 'a list \<Rightarrow> 'a list" where
  "put_slice at src out = take at out @ src @ drop (at + length src) out"

text \<open>\<open>bytes[a..b]\<close> of a byte string that is known to reach \<open>b\<close>.\<close>

definition slice :: "'a list \<Rightarrow> nat \<Rightarrow> nat \<Rightarrow> 'a list" where
  "slice xs a b = take (b - a) (drop a xs)"

text \<open>The same copy with the bounds check of the code.\<close>

definition copy_into :: "nat \<Rightarrow> 'a list \<Rightarrow> 'a list \<Rightarrow> ('e, 'a list) res" where
  "copy_into at src out = (if at + length src \<le> length out then Ok (put_slice at src out) else Panic)"

lemma length_put_slice [simp]:
  "at + length src \<le> length out \<Longrightarrow> length (put_slice at src out) = length out"
  by (simp add: put_slice_def)

lemma copy_into_iff [res_simps, simp]:
  "copy_into at src out = Ok r \<longleftrightarrow> at + length src \<le> length out \<and> r = put_slice at src out"
  "copy_into at src out = Panic \<longleftrightarrow> length out < at + length src"
  "copy_into at src out \<noteq> Err e" "copy_into at src out \<noteq> Diverge"
  by (auto simp: copy_into_def)

lemma put_slice_front:
  assumes "length pre = at"
  shows "put_slice at src (pre @ replicate n x) = pre @ src @ replicate (n - length src) x"
  using assms by (simp add: put_slice_def)

lemma slice_append: "slice (xs @ ys) a b =
  (if length xs \<le> a then slice ys (a - length xs) (b - length xs)
   else if b \<le> length xs then slice xs a b
   else slice xs a (length xs) @ slice ys 0 (b - length xs))"
  by (auto simp: slice_def)

lemma slice_all: "b = length xs \<Longrightarrow> slice xs 0 b = xs"
  by (simp add: slice_def)

lemma length_slice: "a \<le> b \<Longrightarrow> b \<le> length xs \<Longrightarrow> length (slice xs a b) = b - a"
  by (simp add: slice_def)

lemma slice_join: "a \<le> b \<Longrightarrow> b \<le> c \<Longrightarrow> slice xs a b @ slice xs b c = slice xs a c"
proof -
  assume "a \<le> b" "b \<le> c"
  then have "drop b xs = drop (b - a) (drop a xs)" and "c - a = (b - a) + (c - b)" by simp_all
  then show ?thesis unfolding slice_def by (metis take_add)
qed

section \<open>Machine integers\<close>

type_synonym u8 = "8 word"
type_synonym u16 = "16 word"
type_synonym u32 = "32 word"
type_synonym u64 = "64 word"
type_synonym i8 = "8 word"
type_synonym i16 = "16 word"
type_synonym i32 = "32 word"
type_synonym i64 = "64 word"

text \<open>\<open>usize\<close> is 64 bits wide; lengths and indices are natural numbers, and the code's
  own checks against the width are written out with \<open>usize_max\<close>.\<close>

definition usize_max :: nat where "usize_max = 2 ^ 64 - 1"

definition checked_add_usize :: "nat \<Rightarrow> nat \<Rightarrow> nat option" where
  "checked_add_usize a b = (if a + b \<le> usize_max then Some (a + b) else None)"

definition checked_mul_usize :: "nat \<Rightarrow> nat \<Rightarrow> nat option" where
  "checked_mul_usize a b = (if a * b \<le> usize_max then Some (a * b) else None)"

definition saturating_add_usize :: "nat \<Rightarrow> nat \<Rightarrow> nat" where
  "saturating_add_usize a b = min (a + b) usize_max"

lemma checked_usize_Some_iff [simp]:
  "checked_add_usize a b = Some c \<longleftrightarrow> c = a + b \<and> a + b \<le> usize_max"
  "checked_mul_usize a b = Some c \<longleftrightarrow> c = a * b \<and> a * b \<le> usize_max"
  by (auto simp: checked_add_usize_def checked_mul_usize_def)

text \<open>\<open>a.checked_add(b)\<close>, \<open>a.checked_mul(b)\<close>, \<open>a.checked_sub(b)\<close> on unsigned words.\<close>

definition checked_add :: "'l::len word \<Rightarrow> 'l word \<Rightarrow> 'l word option" where
  "checked_add a b = (if unat a + unat b < 2 ^ LENGTH('l) then Some (a + b) else None)"

definition checked_mul :: "'l::len word \<Rightarrow> 'l word \<Rightarrow> 'l word option" where
  "checked_mul a b = (if unat a * unat b < 2 ^ LENGTH('l) then Some (a * b) else None)"

definition checked_sub :: "'l::len word \<Rightarrow> 'l word \<Rightarrow> 'l word option" where
  "checked_sub a b = (if b \<le> a then Some (a - b) else None)"

text \<open>Plain \<open>+\<close>, \<open>*\<close> of the code on unsigned words: an overflow is a panic.\<close>

definition add_or_panic :: "'l::len word \<Rightarrow> 'l word \<Rightarrow> ('e, 'l word) res" where
  "add_or_panic a b = (case checked_add a b of Some c \<Rightarrow> Ok c | None \<Rightarrow> Panic)"

definition mul_or_panic :: "'l::len word \<Rightarrow> 'l word \<Rightarrow> ('e, 'l word) res" where
  "mul_or_panic a b = (case checked_mul a b of Some c \<Rightarrow> Ok c | None \<Rightarrow> Panic)"

text \<open>Unsigned division: by zero it panics.\<close>

definition div_or_panic :: "'l::len word \<Rightarrow> 'l word \<Rightarrow> ('e, 'l word) res" where
  "div_or_panic a b = (if b = 0 then Panic else Ok (a div b))"

lemma unat_add_small [word_nat]:
  "unat (a :: 'l::len word) + unat b < 2 ^ LENGTH('l) \<Longrightarrow> unat (a + b) = unat a + unat b"
  by (simp add: unat_word_ariths)

lemma unat_mul_small [word_nat]:
  "unat (a :: 'l::len word) * unat b < 2 ^ LENGTH('l) \<Longrightarrow> unat (a * b) = unat a * unat b"
  by (simp add: unat_word_ariths)

lemma unat_sub_small [word_nat]: "b \<le> (a :: 'l::len word) \<Longrightarrow> unat (a - b) = unat a - unat b"
  by (simp add: unat_sub)

lemma unat_less_pow: "unat (a :: 'l::len word) < 2 ^ LENGTH('l)"
  by (rule unsigned_less)

lemma checked_add_Some [simp]:
  "checked_add (a :: 'l::len word) b = Some c \<longleftrightarrow>
     c = a + b \<and> unat a + unat b < 2 ^ LENGTH('l)"
  by (auto simp: checked_add_def)

lemma checked_mul_Some [simp]:
  "checked_mul (a :: 'l::len word) b = Some c \<longleftrightarrow>
     c = a * b \<and> unat a * unat b < 2 ^ LENGTH('l)"
  by (auto simp: checked_mul_def)

lemma checked_None [simp]:
  "checked_add (a :: 'l::len word) b = None \<longleftrightarrow> 2 ^ LENGTH('l) \<le> unat a + unat b"
  "checked_mul a b = None \<longleftrightarrow> 2 ^ LENGTH('l) \<le> unat a * unat b"
  by (auto simp: checked_add_def checked_mul_def not_less)

lemma arith_or_panic_Ok [res_simps, simp]:
  "add_or_panic (a :: 'l::len word) b = Ok c \<longleftrightarrow> c = a + b \<and> unat a + unat b < 2 ^ LENGTH('l)"
  "mul_or_panic a b = Ok c \<longleftrightarrow> c = a * b \<and> unat a * unat b < 2 ^ LENGTH('l)"
  "div_or_panic a b = Ok c \<longleftrightarrow> b \<noteq> 0 \<and> c = a div b"
  by (auto simp: add_or_panic_def mul_or_panic_def div_or_panic_def split: option.splits)

lemma arith_or_panic_Panic [res_simps]:
  "add_or_panic (a :: 'l::len word) b = Panic \<longleftrightarrow> 2 ^ LENGTH('l) \<le> unat a + unat b"
  "mul_or_panic a b = Panic \<longleftrightarrow> 2 ^ LENGTH('l) \<le> unat a * unat b"
  "div_or_panic a b = Panic \<longleftrightarrow> b = 0"
  by (auto simp: add_or_panic_def mul_or_panic_def div_or_panic_def split: option.splits)

lemma arith_or_panic_other [res_simps, simp]:
  "add_or_panic a b \<noteq> Err e" "mul_or_panic a b \<noteq> Err e" "div_or_panic a b \<noteq> Err e"
  "add_or_panic a b \<noteq> Diverge" "mul_or_panic a b \<noteq> Diverge" "div_or_panic a b \<noteq> Diverge"
  by (auto simp: add_or_panic_def mul_or_panic_def div_or_panic_def split: option.splits)

lemma same_div_mod_add:
  assumes "a div t = (a + r) div (t :: nat)"
  shows "a mod t + r = (a + r) mod t"
proof -
  have "a = a div t * t + a mod t" by simp
  moreover have "a + r = a div t * t + (a + r) mod t" using assms by simp
  ultimately show ?thesis by linarith
qed

lemma unat_push_bit_64: "unat (push_bit n (w :: u64)) = (unat w * 2 ^ n) mod 2 ^ 64"
  by (simp only: unsigned_push_bit_eq push_bit_eq_mult [where ?'a = nat] take_bit_eq_mod) simp

lemma unat_drop_bit_word [word_nat]: "unat (drop_bit n (w :: 'l::len word)) = unat w div 2 ^ n"
  by (simp only: unat_drop_bit_eq drop_bit_eq_div [where ?'a = nat])

lemma unat_ucast_u8 [word_nat]: "unat (ucast (w :: 'l::len word) :: u8) = unat w mod 256"
  by (simp add: unsigned_ucast_eq take_bit_eq_mod)

lemma unat_and_mask: "unat (w AND mask n :: 'l::len word) = unat w mod 2 ^ n"
  by (simp only: take_bit_eq_mask [symmetric] unsigned_take_bit_eq) (simp add: take_bit_eq_mod)

section \<open>Byte codings\<close>

text \<open>\<open>le_bytes n v\<close> is the little-endian coding of \<open>v\<close> in \<open>n\<close> bytes
  (\<open>to_le_bytes\<close>), \<open>from_le\<close> reads it back (\<open>from_le_bytes\<close>).\<close>

primrec le_bytes :: "nat \<Rightarrow> nat \<Rightarrow> u8 list" where
  "le_bytes 0 v = []"
| "le_bytes (Suc n) v = word_of_nat v # le_bytes n (v div 256)"

primrec from_le :: "u8 list \<Rightarrow> nat" where
  "from_le [] = 0"
| "from_le (b # bs) = unat b + 256 * from_le bs"

definition be_bytes :: "nat \<Rightarrow> nat \<Rightarrow> u8 list" where
  "be_bytes n v = rev (le_bytes n v)"

definition from_be :: "u8 list \<Rightarrow> nat" where
  "from_be bs = from_le (rev bs)"

lemma length_le_bytes [simp]: "length (le_bytes n v) = n"
  by (induction n arbitrary: v) auto

lemma length_be_bytes [simp]: "length (be_bytes n v) = n"
  by (simp add: be_bytes_def)

lemma unat_of_nat_u8: "unat (word_of_nat v :: u8) = v mod 256"
  by (simp add: unsigned_of_nat take_bit_eq_mod)

lemma from_le_less: "from_le bs < 256 ^ length bs"
proof (induction bs)
  case (Cons b bs)
  have "unat b < 256" using unsigned_less [of b] by simp
  with Cons show ?case by simp
qed simp

lemma from_le_le_bytes: "from_le (le_bytes n v) = v mod 256 ^ n"
proof (induction n arbitrary: v)
  case (Suc n)
  then show ?case by (simp add: unat_of_nat_u8 mod_mult2_eq)
qed simp

lemma le_bytes_from_le: "le_bytes (length bs) (from_le bs) = bs"
proof (induction bs)
  case (Cons b bs)
  have b: "unat b < 256" using unsigned_less [of b] by simp
  then have "(unat b + 256 * from_le bs) div 256 = from_le bs" by simp
  moreover have "word_of_nat (unat b + 256 * from_le bs) = b"
    using b by (intro word_unat_eq_iff [THEN iffD2]) (simp only: unat_of_nat_u8, simp)
  ultimately show ?case using Cons by simp
qed simp

lemma from_le_append: "from_le (xs @ ys) = from_le xs + 256 ^ length xs * from_le ys"
  by (induction xs) (simp_all add: algebra_simps)

lemma from_be_Nil [simp]: "from_be [] = 0"
  by (simp add: from_be_def)

lemma from_be_Cons: "from_be (b # bs) = unat b * 256 ^ length bs + from_be bs"
  by (simp add: from_be_def from_le_append)

lemma from_be_snoc: "from_be (bs @ [b]) = 256 * from_be bs + unat b"
  by (simp add: from_be_def)

lemma from_be_less: "from_be bs < 256 ^ length bs"
  using from_le_less [of "rev bs"] by (simp add: from_be_def)

lemma from_be_be_bytes: "from_be (be_bytes n v) = v mod 256 ^ n"
  by (simp add: from_be_def be_bytes_def from_le_le_bytes)

text \<open>A word is recovered from its little-endian bytes.\<close>

lemma word_from_le_bytes:
  assumes "LENGTH('l::len) = 8 * n"
  shows "word_of_nat (from_le (le_bytes n (unat (w :: 'l word)))) = w"
proof -
  have "(256 :: nat) ^ n = 2 ^ LENGTH('l)"
    by (simp add: assms power_mult)
  moreover have "unat w < 2 ^ LENGTH('l)" by (rule unsigned_less)
  ultimately show ?thesis by (simp add: from_le_le_bytes)
qed

lemma rfold_map: "rfold f (map g xs) s = rfold (\<lambda>x. f (g x)) xs s"
proof (induction xs arbitrary: s)
  case (Cons x xs)
  then have "rfold f (map g xs) = rfold (\<lambda>x. f (g x)) xs" by (intro ext)
  then show ?case by simp
qed simp

section \<open>Outcomes that are values or errors\<close>

text \<open>The computation ends without a panic, and a value it returns satisfies \<open>P\<close>.\<close>

definition yields :: "('a \<Rightarrow> bool) \<Rightarrow> ('e, 'a) res \<Rightarrow> bool" where
  "yields P r = (case r of Ok x \<Rightarrow> P x | Err _ \<Rightarrow> True | _ \<Rightarrow> False)"

lemma yields_simps [simp]:
  "yields P (Ok x) = P x" "yields P (Err e)" "\<not> yields P Panic" "\<not> yields P Diverge"
  by (simp_all add: yields_def)

lemma yieldsE: "yields P r \<Longrightarrow> (\<exists>x. r = Ok x \<and> P x) \<or> (\<exists>e. r = Err e)"
  by (cases r) auto

lemma yields_mono: "yields Q r \<Longrightarrow> (\<And>x. Q x \<Longrightarrow> P x) \<Longrightarrow> yields P r"
  by (cases r) auto

lemma yields_bind: "yields Q m \<Longrightarrow> (\<And>x. Q x \<Longrightarrow> yields P (f x)) \<Longrightarrow> yields P (rbind m f)"
  by (cases m) auto

lemma yields_index: "i < length xs \<Longrightarrow> P (xs ! i) \<Longrightarrow> yields P (index_at xs i)"
  by (simp add: index_at_def)

lemma yields_ensure: "(c \<Longrightarrow> P ()) \<Longrightarrow> yields P (ensure c e)"
  by (simp add: ensure_def)

lemma yields_rfold:
  "P s \<Longrightarrow> (\<And>x s. x \<in> set xs \<Longrightarrow> P s \<Longrightarrow> yields P (f x s)) \<Longrightarrow> yields P (rfold f xs s)"
proof (induction xs arbitrary: s)
  case (Cons x xs)
  show ?case unfolding rfold.simps
  proof (rule yields_bind)
    show "yields P (f x s)" using Cons.prems by simp
    fix s' assume "P s'"
    then show "yields P (rfold f xs s')" using Cons by simp
  qed
qed simp

lemma yields_traverse:
  "(\<And>x. x \<in> set xs \<Longrightarrow> yields P (f x)) \<Longrightarrow>
    yields (\<lambda>ys. length ys = length xs \<and> (\<forall>y \<in> set ys. P y)) (traverse f xs)"
proof (induction xs)
  case (Cons x xs)
  have "yields P (f x)" using Cons.prems by simp
  moreover have "yields (\<lambda>ys. length ys = length xs \<and> (\<forall>y \<in> set ys. P y)) (traverse f xs)"
    using Cons by simp
  ultimately show ?case by (cases "f x"; cases "traverse f xs") auto
qed simp

end
