(* ===== verification/Range_Coder.thy ===== *)
theory Range_Coder
  imports Prelude
begin

text \<open>
  The carry-less 64-bit range coder of \<open>crates/det-coder/src/range.rs\<close>:
  \<open>RangeEncoder\<close>, \<open>RangeDecoder\<close> and their renormalisation loops on 64-bit
  words. The main results are the invariant of the coding interval, the return of both
  loops on it, and the lockstep of decoder and encoder: a decoder that reads the finished
  stream of an encoder lands in the interval of every symbol that was encoded. They are
  exported as the interface \<open>interval_channel\<close>, which the stream and file codecs use.
\<close>

section \<open>The code\<close>

definition TOP :: u64 where "TOP = push_bit 56 1"
definition BOTTOM :: u64 where "BOTTOM = push_bit 48 1"
definition total_limit :: u64 where "total_limit = push_bit 31 1"

datatype range_error = InvalidFrequency | UnexpectedEof

record range_encoder =
  re_low :: u64
  re_range :: u64
  re_out :: "u8 list"

record range_encoder_snapshot =
  rs_low :: u64
  rs_range :: u64
  rs_out :: "u8 list"

definition re_new :: range_encoder where
  "re_new = \<lparr>re_low = 0, re_range = - 1, re_out = []\<rparr>"

definition re_from_snapshot :: "range_encoder_snapshot \<Rightarrow> (range_error, range_encoder) res" where
  "re_from_snapshot s =
     (if rs_range s = 0 then Err InvalidFrequency
      else Ok \<lparr>re_low = rs_low s, re_range = rs_range s, re_out = rs_out s\<rparr>)"

definition re_snapshot :: "range_encoder \<Rightarrow> range_encoder_snapshot" where
  "re_snapshot e = \<lparr>rs_low = re_low e, rs_range = re_range e, rs_out = re_out e\<rparr>"

definition validate :: "u64 \<Rightarrow> u64 \<Rightarrow> u64 \<Rightarrow> (range_error, unit) res" where
  "validate cum freq tot =
     rbind (ok_or InvalidFrequency (checked_add cum freq)) (\<lambda>fin.
       if freq = 0 \<or> tot = 0 \<or> total_limit \<le> tot \<or> tot < fin
       then Err InvalidFrequency else Ok ())"

text \<open>\<open>normalize_step\<close> returns whether another byte has to be shifted out, and the
  updated \<open>range\<close>.\<close>

definition normalize_step :: "u64 \<Rightarrow> u64 \<Rightarrow> bool \<times> u64" where
  "normalize_step low rng =
     (if low XOR (low + rng) < TOP then (True, rng)
      else if rng < BOTTOM then (True, (- low) AND (BOTTOM - 1))
      else (False, rng))"

definition top_byte :: "u64 \<Rightarrow> u8" where
  "top_byte low = ucast (drop_bit 56 low)"

partial_function (option) re_renorm :: "range_encoder \<Rightarrow> range_encoder option" where
  "re_renorm e =
     (case normalize_step (re_low e) (re_range e) of (again, r) \<Rightarrow>
        if again
        then re_renorm (e\<lparr>re_out := re_out e @ [top_byte (re_low e)],
                          re_low := push_bit 8 (re_low e), re_range := push_bit 8 r\<rparr>)
        else Some (e\<lparr>re_range := r\<rparr>))"

definition re_encode :: "range_encoder \<Rightarrow> u64 \<Rightarrow> u64 \<Rightarrow> u64 \<Rightarrow> (range_error, range_encoder) res" where
  "re_encode e cum freq tot =
     rbind (validate cum freq tot) (\<lambda>_.
     rbind (div_or_panic (re_range e) tot) (\<lambda>r.
     let low = re_low e + r * cum in
     rbind (mul_or_panic r freq) (\<lambda>r'.
     case re_renorm (e\<lparr>re_low := low, re_range := r'\<rparr>) of
       Some e' \<Rightarrow> Ok e' | None \<Rightarrow> Diverge)))"

primrec re_flush :: "nat \<Rightarrow> u64 \<Rightarrow> u8 list \<Rightarrow> u8 list" where
  "re_flush 0 low out = out"
| "re_flush (Suc n) low out = re_flush n (push_bit 8 low) (out @ [top_byte low])"

definition re_finish :: "range_encoder \<Rightarrow> u8 list" where
  "re_finish e = re_flush 8 (re_low e) (re_out e)"

record range_decoder =
  rd_low :: u64
  rd_code :: u64
  rd_range :: u64
  rd_pending :: "(u64 \<times> u64) option"
  rd_input :: "u8 list"
  rd_pos :: nat

text \<open>The decoder's operations return their result together with the decoder they leave
  behind, also when they fail.\<close>

definition rd_read_byte :: "range_decoder \<Rightarrow> (range_error, u8) res \<times> range_decoder" where
  "rd_read_byte d =
     (if length (rd_input d) \<le> rd_pos d then (Err UnexpectedEof, d)
      else (Ok (rd_input d ! rd_pos d), d\<lparr>rd_pos := rd_pos d + 1\<rparr>))"

definition shift_in :: "u64 \<Rightarrow> u8 \<Rightarrow> u64" where
  "shift_in code b = push_bit 8 code OR ucast b"

primrec rd_fill :: "nat \<Rightarrow> range_decoder \<Rightarrow> (range_error, range_decoder) res" where
  "rd_fill 0 d = Ok d"
| "rd_fill (Suc n) d =
     (case rd_read_byte d of (r, d') \<Rightarrow>
        rbind r (\<lambda>b. rd_fill n (d'\<lparr>rd_code := shift_in (rd_code d) b\<rparr>)))"

definition rd_new :: "u8 list \<Rightarrow> (range_error, range_decoder) res" where
  "rd_new input =
     rd_fill 8 \<lparr>rd_low = 0, rd_code = 0, rd_range = - 1, rd_pending = None,
                rd_input = input, rd_pos = 0\<rparr>"

definition rd_decode_freq :: "range_decoder \<Rightarrow> u64 \<Rightarrow> (range_error, u64) res \<times> range_decoder" where
  "rd_decode_freq d tot =
     (if rd_pending d \<noteq> None then (Err InvalidFrequency, d)
      else if tot = 0 \<or> total_limit \<le> tot then (Err InvalidFrequency, d)
      else
        let r = rd_range d div tot in
        if r = 0 then (Err InvalidFrequency, d)
        else
          let value = (rd_code d - rd_low d) div r in
          if tot \<le> value then (Err InvalidFrequency, d)
          else (Ok value, d\<lparr>rd_pending := Some (r, tot)\<rparr>))"

partial_function (option) rd_renorm ::
    "range_decoder \<Rightarrow> ((range_error, unit) res \<times> range_decoder) option" where
  "rd_renorm d =
     (case normalize_step (rd_low d) (rd_range d) of (again, r) \<Rightarrow>
        if again
        then (case rd_read_byte (d\<lparr>rd_range := r\<rparr>) of (res, d') \<Rightarrow>
                (case res of
                   Ok b \<Rightarrow> rd_renorm (d'\<lparr>rd_code := shift_in (rd_code d) b,
                             rd_low := push_bit 8 (rd_low d), rd_range := push_bit 8 r\<rparr>)
                 | Err e \<Rightarrow> Some (Err e, d')
                 | Panic \<Rightarrow> Some (Panic, d')
                 | Diverge \<Rightarrow> Some (Diverge, d')))
        else Some (Ok (), d\<lparr>rd_range := r\<rparr>))"

definition rd_advance ::
    "range_decoder \<Rightarrow> u64 \<Rightarrow> u64 \<Rightarrow> u64 \<Rightarrow> (range_error, unit) res \<times> range_decoder" where
  "rd_advance d cum freq tot =
     (case validate cum freq tot of
        Err e \<Rightarrow> (Err e, d) | Panic \<Rightarrow> (Panic, d) | Diverge \<Rightarrow> (Diverge, d)
      | Ok _ \<Rightarrow>
        (case rd_pending d of
           None \<Rightarrow> (Err InvalidFrequency, d)
         | Some (r, pending_total) \<Rightarrow>
             if pending_total \<noteq> tot then (Err InvalidFrequency, d)
             else
               let d1 = d\<lparr>rd_pending := None, rd_range := r, rd_low := rd_low d + r * cum\<rparr> in
               (case mul_or_panic r freq of
                  Ok r' \<Rightarrow> (case rd_renorm (d1\<lparr>rd_range := r'\<rparr>) of
                             Some x \<Rightarrow> x | None \<Rightarrow> (Diverge, d1))
                | Err e \<Rightarrow> (Err e, d1) | Panic \<Rightarrow> (Panic, d1) | Diverge \<Rightarrow> (Diverge, d1))))"

section \<open>The coding interval\<close>

text \<open>
  \<open>rc_inv low rng\<close>: the interval \<open>[low, low + rng)\<close> is not empty and does not
  pass \<open>2 ^ 64\<close>; where it ends exactly there, \<open>low + rng\<close> wraps to 0 and the
  interval is shorter than one top-byte step.
\<close>

definition rc_inv :: "u64 \<Rightarrow> u64 \<Rightarrow> bool" where
  "rc_inv low rng \<longleftrightarrow> 0 < unat rng \<and> unat low + unat rng \<le> 2 ^ 64 \<and>
     (unat low + unat rng = 2 ^ 64 \<longrightarrow> unat rng < 2 ^ 56)"

lemma limits_nat:
  "unat TOP = 2 ^ 56" "unat BOTTOM = 2 ^ 48" "unat total_limit = 2 ^ 31"
  by (simp_all add: TOP_def BOTTOM_def total_limit_def)

lemma less_TOP_iff: "w < TOP \<longleftrightarrow> drop_bit 56 w = 0"
proof -
  have "w < TOP \<longleftrightarrow> unat w < 2 ^ 56"
    by (simp only: word_less_nat_alt limits_nat)
  also have "\<dots> \<longleftrightarrow> unat w div 2 ^ 56 = 0"
    by (simp add: div_eq_0_iff)
  also have "\<dots> \<longleftrightarrow> unat (drop_bit 56 w) = 0"
    by (simp only: unat_drop_bit_word)
  finally show ?thesis by (simp only: unat_eq_0)
qed

lemma xor_less_TOP_iff: "a XOR b < TOP \<longleftrightarrow> unat a div 2 ^ 56 = unat b div 2 ^ 56"
proof -
  have "a XOR b < TOP \<longleftrightarrow> drop_bit 56 a = drop_bit 56 b"
    by (simp add: less_TOP_iff bit_eq_iff bit_simps)
  then show ?thesis
    by (simp only: word_unat_eq_iff unat_drop_bit_word)
qed

lemma unat_truncated_range:
  assumes "unat low mod 2 ^ 48 \<noteq> 0"
  shows "unat ((- low) AND (BOTTOM - 1)) = 2 ^ 48 - unat low mod 2 ^ 48"
proof -
  have mask: "BOTTOM - 1 = mask 48"
    by (simp add: BOTTOM_def mask_eq_exp_minus_1)
  have nz: "low \<noteq> 0" using assms by auto
  have "unat (- low) = 2 ^ 64 - unat low"
    using nz unat_sub_if' [of 0 low] by (simp add: unat_eq_0 word_size)
  moreover have "unat low < 2 ^ 64" using unsigned_less [of low] by simp
  ultimately have "unat (- low) mod 2 ^ 48 = (2 ^ 64 - unat low) mod 2 ^ 48" by simp
  also have "\<dots> = 2 ^ 48 - unat low mod 2 ^ 48"
  proof -
    define q m where "q = unat low div 2 ^ 48" and "m = unat low mod 2 ^ 48"
    have l: "unat low = q * 2 ^ 48 + m" by (simp add: q_def m_def)
    have q: "q < 2 ^ 16" using \<open>unat low < 2 ^ 64\<close> by (simp add: q_def less_mult_imp_div_less)
    have m: "0 < m" "m < 2 ^ 48" using assms by (simp_all add: m_def)
    have "2 ^ 64 - unat low = (2 ^ 48 - m) + (2 ^ 16 - 1 - q) * 2 ^ 48"
      using q m by (simp add: l algebra_simps)
    then have "(2 ^ 64 - unat low) mod 2 ^ 48 = (2 ^ 48 - m) mod 2 ^ 48"
      by (simp only: mod_mult_self1)
    then show ?thesis using m by (simp only: m_def [symmetric]) simp
  qed
  finally show ?thesis by (simp add: mask unat_and_mask)
qed

text \<open>The two ways in which a byte is shifted out, on natural numbers: the top bytes of
  both ends agree, or the interval is short and straddles a multiple of \<open>2 ^ 56\<close>.\<close>

lemma same_top_nat:
  fixes L R :: nat
  assumes "L div 2 ^ 56 = (L + R) mod 2 ^ 64 div 2 ^ 56" and "L + R \<le> 2 ^ 64"
    and "L + R = 2 ^ 64 \<Longrightarrow> R < 2 ^ 56"
  shows "L mod 2 ^ 56 + R < 2 ^ 56"
proof -
  have "L + R \<noteq> 2 ^ 64"
  proof
    assume eq: "L + R = 2 ^ 64"
    with assms(1) have "L div 2 ^ 56 = 0" by simp
    then have "L < 2 ^ 56" by (simp add: div_eq_0_iff)
    with eq assms(3) show False by simp
  qed
  with assms(1,2) have "L div 2 ^ 56 = (L + R) div 2 ^ 56" by simp
  from same_div_mod_add [OF this] have "L mod 2 ^ 56 + R = (L + R) mod 2 ^ 56" .
  then show ?thesis by simp
qed

lemma straddle_nat:
  fixes L R :: nat
  assumes "L div 2 ^ 56 \<noteq> (L + R) mod 2 ^ 64 div 2 ^ 56" and "L < 2 ^ 64" and "R < 2 ^ 48"
  shows "L mod 2 ^ 48 \<noteq> 0" and "2 ^ 48 - L mod 2 ^ 48 \<le> R"
    and "L mod 2 ^ 56 + (2 ^ 48 - L mod 2 ^ 48) = 2 ^ 56"
proof -
  define q b where "q = L div 2 ^ 56" and "b = L mod 2 ^ 56"
  have l: "L = q * 2 ^ 56 + b" by (simp add: q_def b_def)
  have b: "b < 2 ^ 56" by (simp add: b_def)
  have q: "q < 2 ^ 8" using assms(2) by (simp add: q_def less_mult_imp_div_less)
  have cross: "2 ^ 56 \<le> b + R"
  proof (rule ccontr)
    assume "\<not> 2 ^ 56 \<le> b + R"
    then have "b + R < 2 ^ 56" by simp
    with q have "L + R < 2 ^ 64" "(L + R) div 2 ^ 56 = q"
      by (simp_all add: l add.assoc)
    with assms(1) show False by (simp add: q_def)
  qed
  define m where "m = b - (2 ^ 56 - 2 ^ 48)"
  have m: "b = 255 * 2 ^ 48 + m" "0 < m" "m < 2 ^ 48"
    using b cross assms(3) by (simp_all add: m_def)
  have "L = m + (q * 256 + 255) * 2 ^ 48" by (simp add: l m(1))
  then have "L mod 2 ^ 48 = m mod 2 ^ 48" by (simp only: mod_mult_self1)
  then have lm: "L mod 2 ^ 48 = m" using m(3) by simp
  show "L mod 2 ^ 48 \<noteq> 0" using lm m by simp
  show "2 ^ 48 - L mod 2 ^ 48 \<le> R" using lm m cross by simp
  show "L mod 2 ^ 56 + (2 ^ 48 - L mod 2 ^ 48) = 2 ^ 56"
    using m by (simp only: lm b_def [symmetric]) simp
qed

lemma unat_sum_mod: "unat (low + rng :: u64) = (unat low + unat rng) mod 2 ^ 64"
  by (simp add: unat_word_ariths)

lemma unat_push8: "unat (push_bit 8 (w :: u64)) = unat w mod 2 ^ 56 * 256"
proof -
  have "unat w * 256 mod (2 ^ 56 * 256) = unat w mod 2 ^ 56 * 256"
    by (rule mult_mod_left [symmetric])
  then show ?thesis by (simp add: unat_push_bit_64)
qed

lemma normalize_step_more:
  assumes inv: "rc_inv low rng" and step: "normalize_step low rng = (True, r)"
  shows "0 < unat r" "unat r \<le> unat rng" "unat r < 2 ^ 56"
    and "unat (push_bit 8 r) = unat r * 256"
    and "rc_inv (push_bit 8 low) (push_bit 8 r)"
    and "unat (push_bit 8 low) + unat (push_bit 8 r) = 2 ^ 64 \<or>
      r = rng \<and> unat low + unat rng \<noteq> 2 ^ 64"
proof -
  let ?L = "unat low" and ?R = "unat rng"
  have L: "?L < 2 ^ 64" using unsigned_less [of low] by simp
  have le: "?L + ?R \<le> 2 ^ 64" and pos: "0 < ?R" and full: "?L + ?R = 2 ^ 64 \<Longrightarrow> ?R < 2 ^ 56"
    using inv by (auto simp: rc_inv_def)
  have "0 < unat r \<and> unat r \<le> ?R \<and>
     (?L mod 2 ^ 56 + unat r < 2 ^ 56 \<and> r = rng \<and> ?L + ?R \<noteq> 2 ^ 64 \<or>
      ?L mod 2 ^ 56 + unat r = 2 ^ 56 \<and> unat r < 2 ^ 48)"
  proof (cases "low XOR (low + rng) < TOP")
    case True
    then have top: "?L div 2 ^ 56 = (?L + ?R) mod 2 ^ 64 div 2 ^ 56"
      by (simp only: xor_less_TOP_iff unat_sum_mod)
    have "r = rng" using True step by (simp add: normalize_step_def)
    moreover have "?L + ?R \<noteq> 2 ^ 64"
    proof
      assume s: "?L + ?R = 2 ^ 64"
      with top have "?L < 2 ^ 56" by (simp add: div_eq_0_iff)
      with s full show False by simp
    qed
    ultimately show ?thesis using same_top_nat [OF top le full] pos by simp
  next
    case False
    with step have small: "rng < BOTTOM" and r: "r = (- low) AND (BOTTOM - 1)"
      by (auto simp: normalize_step_def split: if_splits)
    have R: "?R < 2 ^ 48" using small by (simp only: word_less_nat_alt limits_nat)
    have ne: "?L div 2 ^ 56 \<noteq> (?L + ?R) mod 2 ^ 64 div 2 ^ 56"
      using False unfolding xor_less_TOP_iff unat_sum_mod .
    note st = straddle_nat [OF ne L R]
    have "unat r = 2 ^ 48 - ?L mod 2 ^ 48"
      using st(1) unat_truncated_range r by simp
    with st R show ?thesis by auto
  qed
  then have rp: "0 < unat r" "unat r \<le> ?R" and
    alt: "?L mod 2 ^ 56 + unat r < 2 ^ 56 \<and> r = rng \<and> ?L + ?R \<noteq> 2 ^ 64 \<or>
      ?L mod 2 ^ 56 + unat r = 2 ^ 56 \<and> unat r < 2 ^ 48"
    by auto
  show "0 < unat r" "unat r \<le> unat rng" by (fact rp)+
  show small: "unat r < 2 ^ 56" using alt by auto
  then show push: "unat (push_bit 8 r) = unat r * 256" by (simp add: unat_push8)
  show "rc_inv (push_bit 8 low) (push_bit 8 r)"
    using rp alt by (auto simp: rc_inv_def push unat_push8 simp del: One_nat_def)
  show "unat (push_bit 8 low) + unat (push_bit 8 r) = 2 ^ 64 \<or> r = rng \<and> ?L + ?R \<noteq> 2 ^ 64"
    using alt by (auto simp: push unat_push8)
qed

lemma normalize_step_done:
  assumes "normalize_step low rng = (False, r)"
  shows "r = rng" and "2 ^ 48 \<le> unat rng"
  using assms
  by (auto simp: normalize_step_def word_less_nat_alt limits_nat split: if_splits)

section \<open>The bytes a renormalisation shifts out\<close>

inductive shifts :: "u64 \<Rightarrow> u64 \<Rightarrow> u8 list \<Rightarrow> u64 \<Rightarrow> u64 \<Rightarrow> bool" where
  shifts_done: "normalize_step low rng = (False, r) \<Longrightarrow> shifts low rng [] low r"
| shifts_more: "normalize_step low rng = (True, r) \<Longrightarrow>
    shifts (push_bit 8 low) (push_bit 8 r) bs low' rng' \<Longrightarrow>
    shifts low rng (top_byte low # bs) low' rng'"

lemma shifts_total:
  assumes "rc_inv low rng"
  shows "\<exists>bs low' rng'. shifts low rng bs low' rng'"
  using assms
proof (induction "(low, rng)" arbitrary: low rng
    rule: wf_induct_rule [OF wf_measures
      [of "[\<lambda>(l, r). if unat (l :: u64) + unat (r :: u64) = 2 ^ 64 then 0 else 1,
            \<lambda>(l, r). 2 ^ 64 - unat r]"]])
  case (1 low rng)
  obtain again r where st: "normalize_step low rng = (again, r)" by fastforce
  show ?case
  proof (cases again)
    case False
    with st show ?thesis by (auto intro: shifts_done)
  next
    case True
    with st have st': "normalize_step low rng = (True, r)" by simp
    note more = normalize_step_more [OF "1.prems" st']
    have lt: "unat rng < 2 ^ 64" using unsigned_less [of rng] by simp
    have "\<exists>bs low' rng'. shifts (push_bit 8 low) (push_bit 8 r) bs low' rng'"
    proof (rule "1.hyps")
      show "rc_inv (push_bit 8 low) (push_bit 8 r)" by (rule more(5))
      show "((push_bit 8 low, push_bit 8 r), low, rng) \<in> measures
          [\<lambda>(l, r). if unat l + unat r = 2 ^ 64 then 0 else 1, \<lambda>(l, r). 2 ^ 64 - unat r]"
      proof (cases "unat low + unat rng = 2 ^ 64")
        case False
        with more(1,4,6) lt show ?thesis by auto
      next
        case True
        then have full: "unat (push_bit 8 low) + unat (push_bit 8 r) = 2 ^ 64"
          using more(6) by auto
        have "low XOR (low + rng) < TOP \<Longrightarrow> False"
        proof -
          assume "low XOR (low + rng) < TOP"
          then have "unat low div 2 ^ 56 = 0"
            using True by (simp only: xor_less_TOP_iff unat_sum_mod) simp
          then have "unat low < 2 ^ 56" by (simp add: div_eq_0_iff)
          with True "1.prems" show False by (simp add: rc_inv_def)
        qed
        then have small: "unat rng < 2 ^ 48" and r: "r = (- low) AND (BOTTOM - 1)"
          using st' by (auto simp: normalize_step_def word_less_nat_alt limits_nat
              split: if_splits)
        have low: "unat low = 2 ^ 64 - unat rng" using True by simp
        have m: "unat low mod 2 ^ 48 = 2 ^ 48 - unat rng"
        proof -
          have "unat low = (2 ^ 48 - unat rng) + (2 ^ 16 - 1) * 2 ^ 48"
            using small by (simp add: low)
          then have "unat low mod 2 ^ 48 = (2 ^ 48 - unat rng) mod 2 ^ 48"
            by (simp only: mod_mult_self1)
          then show ?thesis using "1.prems" by (simp add: rc_inv_def)
        qed
        then have "unat r = unat rng"
          using unat_truncated_range [of low] small r by simp
        then have "unat rng < unat (push_bit 8 r)"
          using more(1,4) by simp
        with True full lt show ?thesis by auto
      qed
    qed
    with st' show ?thesis by (auto intro: shifts_more)
  qed
qed

lemma shifts_rc_inv:
  assumes "shifts low rng bs low' rng'" and "rc_inv low rng"
  shows "rc_inv low' rng' \<and> 2 ^ 48 \<le> unat rng'"
  using assms
proof (induction rule: shifts.induct)
  case (shifts_done low rng r)
  then show ?case using normalize_step_done [OF shifts_done.hyps] by simp
next
  case (shifts_more low rng r bs low' rng')
  then show ?case using normalize_step_more(5) by blast
qed

lemma re_renorm_shifts:
  assumes "shifts low rng bs low' rng'" and "re_low e = low" and "re_range e = rng"
  shows "re_renorm e = Some \<lparr>re_low = low', re_range = rng', re_out = re_out e @ bs\<rparr>"
  using assms
proof (induction arbitrary: e rule: shifts.induct)
  case (shifts_done low rng r)
  then show ?case by (cases e) (simp add: re_renorm.simps)
next
  case (shifts_more low rng r bs low' rng')
  let ?e = "e\<lparr>re_out := re_out e @ [top_byte low], re_low := push_bit 8 low,
               re_range := push_bit 8 r\<rparr>"
  have "re_renorm ?e = Some \<lparr>re_low = low', re_range = rng', re_out = re_out ?e @ bs\<rparr>"
    by (rule shifts_more.IH) simp_all
  then show ?case
    using shifts_more.hyps(1) shifts_more.prems by (subst re_renorm.simps) simp
qed

lemma rd_renorm_shifts:
  assumes "shifts low rng bs low' rng'" and "rd_low d = low" and "rd_range d = rng"
    and "rd_pos d + length bs \<le> length (rd_input d)"
  shows "rd_renorm d = Some (Ok (), d\<lparr>rd_low := low', rd_range := rng',
     rd_pos := rd_pos d + length bs,
     rd_code := foldl shift_in (rd_code d) (take (length bs) (drop (rd_pos d) (rd_input d)))\<rparr>)"
  using assms
proof (induction arbitrary: d rule: shifts.induct)
  case (shifts_done low rng r)
  then show ?case by (cases d) (simp add: rd_renorm.simps)
next
  case (shifts_more low rng r bs low' rng')
  let ?b = "rd_input d ! rd_pos d"
  let ?d = "d\<lparr>rd_pos := rd_pos d + 1, rd_code := shift_in (rd_code d) ?b,
               rd_low := push_bit 8 low, rd_range := push_bit 8 r\<rparr>"
  have lt: "rd_pos d < length (rd_input d)" using shifts_more.prems(3) by simp
  then have tk: "take (length (top_byte low # bs)) (drop (rd_pos d) (rd_input d)) =
      ?b # take (length bs) (drop (rd_pos d + 1) (rd_input d))"
    by (simp add: Cons_nth_drop_Suc [symmetric])
  have "rd_renorm ?d = Some (Ok (), ?d\<lparr>rd_low := low', rd_range := rng',
     rd_pos := rd_pos ?d + length bs,
     rd_code := foldl shift_in (rd_code ?d) (take (length bs) (drop (rd_pos ?d) (rd_input ?d)))\<rparr>)"
    by (rule shifts_more.IH) (use shifts_more.prems in simp_all)
  then show ?case
    using shifts_more.hyps(1) shifts_more.prems lt tk
    by (subst rd_renorm.simps) (simp add: rd_read_byte_def)
qed

text \<open>On an input that may be too short, the loop returns and the decoder it leaves behind is
  still usable: its interval is well formed and its position is inside the input.\<close>

definition rd_ok :: "range_decoder \<Rightarrow> bool" where
  "rd_ok d \<longleftrightarrow> rc_inv (rd_low d) (rd_range d) \<and> rd_pos d \<le> length (rd_input d) \<and>
     (case rd_pending d of None \<Rightarrow> True
      | Some (r, tot) \<Rightarrow> r = rd_range d div tot \<and> r \<noteq> 0)"

lemma normalize_step_keeps: "rc_inv low rng \<Longrightarrow> normalize_step low rng = (True, r) \<Longrightarrow> rc_inv low r"
  using normalize_step_more(1,2,3) [of low rng r] by (auto simp: rc_inv_def)

lemma rd_renorm_returns:
  assumes "shifts low rng bs low' rng'" and "rc_inv low rng" and "rd_low d = low"
    and "rd_range d = rng" and "rd_pos d \<le> length (rd_input d)" and "rd_pending d = None"
  shows "\<exists>res d'. rd_renorm d = Some (res, d') \<and> (res = Ok () \<or> res = Err UnexpectedEof) \<and> rd_ok d'"
  using assms
proof (induction arbitrary: d rule: shifts.induct)
  case (shifts_done low rng r)
  then show ?case
    using normalize_step_done(1) by (subst rd_renorm.simps) (auto simp: rd_ok_def)
next
  case (shifts_more low rng r bs low' rng')
  note inv = normalize_step_more(5) [OF shifts_more.prems(1) shifts_more.hyps(1)]
  show ?case
  proof (cases "rd_pos d < length (rd_input d)")
    case False
    with shifts_more normalize_step_keeps [OF shifts_more.prems(1) shifts_more.hyps(1)]
    show ?thesis
      by (subst rd_renorm.simps) (auto simp: rd_read_byte_def rd_ok_def)
  next
    case True
    let ?d = "d\<lparr>rd_pos := rd_pos d + 1, rd_code := shift_in (rd_code d) (rd_input d ! rd_pos d),
      rd_low := push_bit 8 low, rd_range := push_bit 8 r\<rparr>"
    have "\<exists>res d'. rd_renorm ?d = Some (res, d') \<and> (res = Ok () \<or> res = Err UnexpectedEof) \<and> rd_ok d'"
      by (rule shifts_more.IH [OF inv]) (use shifts_more.prems True in simp_all)
    with True shifts_more show ?thesis
      by (subst rd_renorm.simps) (simp add: rd_read_byte_def)
  qed
qed

section \<open>The window of the stream that the decoder sees\<close>

text \<open>\<open>win B p\<close> is the number in the eight bytes of \<open>B\<close> from position \<open>p\<close>; a stream
  \<open>B\<close> is carried by an interval at \<open>p\<close> when that number lies in it.\<close>

definition win :: "u8 list \<Rightarrow> nat \<Rightarrow> nat" where
  "win B p = from_be (take 8 (drop p B))"

definition in_interval :: "u64 \<Rightarrow> u64 \<Rightarrow> u8 list \<Rightarrow> nat \<Rightarrow> bool" where
  "in_interval low rng B p \<longleftrightarrow> p + 8 \<le> length B \<and>
     unat low \<le> win B p \<and> win B p < unat low + unat rng"

lemma win_less: "win B p < 2 ^ 64"
proof -
  have "win B p < 256 ^ length (take 8 (drop p B))"
    unfolding win_def by (rule from_be_less)
  also have "\<dots> \<le> 256 ^ 8" by (rule power_increasing) simp_all
  finally show ?thesis by simp
qed

text \<open>Seven bytes are shared by two consecutive windows.\<close>

lemma win_step:
  assumes "p + 9 \<le> length B"
  obtains m where "win B p = unat (B ! p) * 2 ^ 56 + m" and "m < 2 ^ 56"
    and "win B (Suc p) = m * 256 + unat (B ! (p + 8))"
proof -
  let ?xs = "take 7 (drop (Suc p) B)"
  have len: "length ?xs = 7" using assms by simp
  have "take (Suc 7) (drop p B) = B ! p # ?xs"
    using assms by (simp add: Cons_nth_drop_Suc [symmetric] del: take_Suc_Cons drop_Suc_Cons)
  then have "win B p = from_be (B ! p # ?xs)" by (simp add: win_def)
  then have "win B p = unat (B ! p) * 2 ^ 56 + from_be ?xs"
    by (simp only: from_be_Cons len) simp
  moreover have "from_be ?xs < 2 ^ 56"
    using from_be_less [of ?xs] unfolding len by simp
  moreover have "take (Suc 7) (drop (Suc p) B) = ?xs @ [drop (Suc p) B ! 7]"
    using assms by (intro take_Suc_conv_app_nth) simp
  then have "win B (Suc p) = from_be ?xs * 256 + unat (B ! (p + 8))"
    using assms by (simp add: win_def from_be_snoc add.commute)
  ultimately show ?thesis by (rule that)
qed

lemma unat_shift_in: "unat (shift_in code b) = unat code mod 2 ^ 56 * 256 + unat b"
proof -
  have z: "push_bit 8 code AND ucast b = 0"
    by (rule bit_eqI) (auto simp: bit_simps dest: bit_imp_le_length)
  have "shift_in code b = push_bit 8 code + ucast b"
    by (simp only: shift_in_def disjunctive_add_eq_or [OF z])
  moreover have "unat b < 256" using unsigned_less [of b] by simp
  moreover have u: "unat (ucast b :: u64) = unat b"
    using \<open>unat b < 256\<close> by (simp add: unsigned_ucast_eq take_bit_nat_eq_self)
  moreover have "unat (push_bit 8 code) = unat code mod 2 ^ 56 * 256" by (rule unat_push8)
  moreover have "unat code mod 2 ^ 56 * 256 + unat b < 2 ^ LENGTH(64)"
  proof -
    have "unat code mod 2 ^ 56 \<le> 2 ^ 56 - 1" by (simp add: less_imp_le)
    then show ?thesis using \<open>unat b < 256\<close> by simp
  qed
  ultimately show ?thesis by (simp only: unat_add_small)
qed

lemma shift_in_win:
  assumes "p + 9 \<le> length B" and "unat code = win B p"
  shows "unat (shift_in code (B ! (p + 8))) = win B (Suc p)"
  by (rule win_step [OF assms(1)]) (simp add: unat_shift_in assms(2))

lemma foldl_shift_in_win:
  assumes "unat code = win B p" and "p + 8 + n \<le> length B"
  shows "unat (foldl shift_in code (take n (drop (p + 8) B))) = win B (p + n)"
  using assms
proof (induction n arbitrary: code p)
  case (Suc n)
  have lt: "p + 8 < length B" using Suc.prems(2) by simp
  then have "take (Suc n) (drop (p + 8) B) = B ! (p + 8) # take n (drop (Suc p + 8) B)"
    by (simp add: Cons_nth_drop_Suc [symmetric])
  moreover have "unat (shift_in code (B ! (p + 8))) = win B (Suc p)"
    using Suc.prems by (intro shift_in_win) simp_all
  from Suc.IH [OF this] have
    "unat (foldl shift_in (shift_in code (B ! (p + 8))) (take n (drop (Suc p + 8) B))) =
      win B (Suc p + n)"
    using Suc.prems by simp
  ultimately show ?case by simp
qed simp

lemma unat_top_byte: "unat (top_byte low) = unat low div 2 ^ 56"
proof -
  have "unat low div 2 ^ 56 < 256"
    using unat_less_pow [of low] by (simp add: less_mult_imp_div_less)
  then show ?thesis
    by (simp add: top_byte_def unat_ucast_u8 unat_drop_bit_word)
qed

text \<open>Shifting out bytes that the stream contains: a stream in the interval after the
  renormalisation is in the interval before it.\<close>

lemma shifts_in_interval:
  assumes "shifts low rng bs low' rng'" and "rc_inv low rng"
    and "take (length bs) (drop p B) = bs" and "in_interval low' rng' B (p + length bs)"
  shows "in_interval low rng B p"
  using assms
proof (induction arbitrary: p rule: shifts.induct)
  case (shifts_done low rng r)
  then show ?case using normalize_step_done(1) [OF shifts_done.hyps] by simp
next
  case (shifts_more low rng r bs low' rng')
  note more = normalize_step_more [OF shifts_more.prems(1) shifts_more.hyps(1)]
  have len: "p + 9 \<le> length B"
    using shifts_more.prems(3) by (simp add: in_interval_def)
  have "drop p B = B ! p # drop (Suc p) B"
    using len by (simp add: Cons_nth_drop_Suc)
  then have hd: "B ! p = top_byte low" and tl: "take (length bs) (drop (Suc p) B) = bs"
    using shifts_more.prems(2) by simp_all
  have "in_interval (push_bit 8 low) (push_bit 8 r) B (Suc p)"
    using shifts_more.IH [OF more(5) tl] shifts_more.prems(3) by simp
  then have iv: "unat low mod 2 ^ 56 * 256 \<le> win B (Suc p)"
      "win B (Suc p) < unat low mod 2 ^ 56 * 256 + unat r * 256"
    unfolding in_interval_def more(4) unat_push8 [of low] by auto
  obtain m where m: "win B p = unat (B ! p) * 2 ^ 56 + m" "m < 2 ^ 56"
    "win B (Suc p) = m * 256 + unat (B ! (p + 8))"
    by (rule win_step [OF len])
  have b: "unat (B ! (p + 8)) < 256" using unsigned_less [of "B ! (p + 8)"] by simp
  define t where "t = unat low mod 2 ^ 56"
  have lo: "t \<le> m" and hi: "m < t + unat r"
    using iv b unfolding m(3) t_def [symmetric] by linarith+
  have low: "unat low = unat (B ! p) * 2 ^ 56 + t"
    by (simp only: hd unat_top_byte t_def div_mult_mod_eq)
  have "unat low \<le> win B p" "win B p < unat low + unat rng"
    using lo hi more(2) unfolding low m(1) by linarith+
  then show ?case using len by (simp add: in_interval_def)
qed

section \<open>The last eight bytes\<close>

primrec flush_bytes :: "nat \<Rightarrow> u64 \<Rightarrow> u8 list" where
  "flush_bytes 0 low = []"
| "flush_bytes (Suc n) low = top_byte low # flush_bytes n (push_bit 8 low)"

lemma re_flush_append: "re_flush n low out = out @ flush_bytes n low"
  by (induction n arbitrary: low out) simp_all

lemma length_flush_bytes [simp]: "length (flush_bytes n low) = n"
  by (induction n arbitrary: low) simp_all

lemma from_be_flush_bytes:
  "n \<le> 8 \<Longrightarrow> from_be (flush_bytes n low) = unat low div 256 ^ (8 - n)"
proof (induction n arbitrary: low)
  case 0
  have "unat low < 256 ^ 8" using unsigned_less [of low] by simp
  then show ?case by simp
next
  case (Suc n)
  define q m where "q = unat low div 2 ^ 56" and "m = unat low mod 2 ^ 56"
  have low: "unat low = q * 2 ^ 56 + m" by (simp add: q_def m_def)
  define k where "k = 7 - n"
  have k: "8 - n = Suc k" "8 - Suc n = k" using Suc.prems by (simp_all add: k_def)
  have pow: "(2 :: nat) ^ 56 = 256 ^ n * 256 ^ k"
  proof -
    have "(256 :: nat) ^ n * 256 ^ k = 256 ^ (n + k)" by (simp add: power_add)
    also have "n + k = 7" using Suc.prems by (simp add: k_def)
    finally show ?thesis by simp
  qed
  have "from_be (flush_bytes n (push_bit 8 low)) = m * 256 div (256 * 256 ^ k)"
    using Suc by (simp add: k unat_push8 m_def)
  also have "\<dots> = m div 256 ^ k" by (simp add: div_mult2_eq)
  finally have "from_be (flush_bytes (Suc n) low) = q * 256 ^ n + m div 256 ^ k"
    by (simp add: from_be_Cons unat_top_byte q_def)
  also have "\<dots> = (q * 256 ^ n * 256 ^ k + m) div 256 ^ k" by simp
  also have "q * 256 ^ n * 256 ^ k + m = unat low"
    unfolding low pow by simp
  finally show ?case by (simp only: k)
qed

lemma win_finish: "win (re_finish e) (length (re_out e)) = unat (re_low e)"
  by (simp add: win_def re_finish_def re_flush_append from_be_flush_bytes)

lemma length_re_finish: "length (re_finish e) = length (re_out e) + 8"
  by (simp add: re_finish_def re_flush_append)

section \<open>One symbol\<close>

definition valid_interval :: "u64 \<Rightarrow> u64 \<Rightarrow> u64 \<Rightarrow> bool" where
  "valid_interval cum freq tot \<longleftrightarrow>
     0 < unat freq \<and> unat cum + unat freq \<le> unat tot \<and> unat tot < 2 ^ 31"

lemma validate_Ok_iff: "validate cum freq tot = Ok u \<longleftrightarrow> valid_interval cum freq tot"
proof (cases "unat cum + unat freq < 2 ^ 64")
  case True
  then have "unat (cum + freq) = unat cum + unat freq" by (simp add: unat_add_small)
  moreover have "freq = 0 \<longleftrightarrow> unat freq = 0" "tot = 0 \<longleftrightarrow> unat tot = 0"
    by (simp_all add: unat_eq_0)
  ultimately show ?thesis
    using True
    by (auto simp: validate_def valid_interval_def checked_add_def word_less_nat_alt
        word_le_nat_alt limits_nat)
next
  case False
  have "unat tot < 2 ^ 64" using unat_less_pow [of tot] by simp
  with False show ?thesis
    by (auto simp: validate_def valid_interval_def checked_add_def)
qed

lemma validate_cases:
  "validate cum freq tot = Ok () \<or> validate cum freq tot = Err InvalidFrequency"
  by (auto simp: validate_def checked_add_def)

text \<open>The interval that a symbol narrows the coding interval to.\<close>

lemma quotient_nonzero:
  assumes "2 ^ 48 \<le> unat rng" and "valid_interval cum freq tot"
  shows "rng div tot \<noteq> 0"
proof -
  have tot: "0 < unat tot" "unat tot < 2 ^ 31" using assms(2) by (auto simp: valid_interval_def)
  then have "1 \<le> 2 ^ 48 div unat tot" by (simp add: Suc_leI div_greater_zero_iff)
  also have "\<dots> \<le> unat (rng div tot)" using assms(1) by (simp add: unat_div div_le_mono)
  finally show ?thesis by auto
qed

lemma narrow:
  assumes inv: "rc_inv low rng" and rnz: "rng div tot \<noteq> 0" and iv: "valid_interval cum freq tot"
  defines "r \<equiv> rng div tot"
  shows "tot \<noteq> 0" and "r \<noteq> 0" and "unat r = unat rng div unat tot"
    and "unat r * unat freq < 2 ^ 64" and "unat (r * freq) = unat r * unat freq"
    and "unat (low + r * cum) = unat low + unat r * unat cum"
    and "rc_inv (low + r * cum) (r * freq)"
    and "unat r * unat tot \<le> unat rng"
proof -
  have tot: "0 < unat tot" "unat tot < 2 ^ 31" using iv by (auto simp: valid_interval_def)
  then show "tot \<noteq> 0" by auto
  show ur: "unat r = unat rng div unat tot" by (simp add: r_def unat_div)
  show "r \<noteq> 0" using rnz by (simp add: r_def)
  then have rpos: "0 < unat r" by (simp add: unat_gt_0)
  show le: "unat r * unat tot \<le> unat rng" by (simp add: ur)
  have parts: "unat r * unat cum + unat r * unat freq \<le> unat r * unat tot"
    using iv unfolding valid_interval_def distrib_left [symmetric] by simp
  have fpos: "0 < unat r * unat freq" using rpos iv by (simp add: valid_interval_def)
  have sum: "unat low + unat rng \<le> 2 ^ 64" "unat low + unat rng = 2 ^ 64 \<Longrightarrow> unat rng < 2 ^ 56"
    using inv by (auto simp: rc_inv_def)
  have rlt: "unat rng < 2 ^ 64" using unat_less_pow [of rng] by simp
  show rf: "unat r * unat freq < 2 ^ 64" using parts le rlt by linarith
  then show urf: "unat (r * freq) = unat r * unat freq" by (simp add: unat_mul_small)
  have "unat r * unat cum < 2 ^ 64" using parts le rlt by linarith
  then have urc: "unat (r * cum) = unat r * unat cum" by (simp add: unat_mul_small)
  have "unat low + unat (r * cum) < 2 ^ 64"
    using parts le sum(1) fpos unfolding urc by linarith
  then show ul: "unat (low + r * cum) = unat low + unat r * unat cum"
    by (simp add: unat_add_small urc)
  show "rc_inv (low + r * cum) (r * freq)"
    unfolding rc_inv_def ul urf
  proof (intro conjI impI)
    show "0 < unat r * unat freq" by (rule fpos)
    show "unat low + unat r * unat cum + unat r * unat freq \<le> 2 ^ 64"
      using parts le sum(1) by linarith
    assume "unat low + unat r * unat cum + unat r * unat freq = 2 ^ 64"
    then have "unat low + unat rng = 2 ^ 64" using parts le sum(1) by linarith
    from sum(2) [OF this] show "unat r * unat freq < 2 ^ 56" using parts le by linarith
  qed
qed

definition re_ok :: "range_encoder \<Rightarrow> bool" where
  "re_ok e \<longleftrightarrow> rc_inv (re_low e) (re_range e) \<and> 2 ^ 48 \<le> unat (re_range e)"

lemma re_new_ok: "re_ok re_new"
  by (simp add: re_ok_def re_new_def rc_inv_def unsigned_minus_1_eq_mask mask_eq_exp_minus_1)

lemma re_encode_shifts:
  assumes ok: "re_ok e" and iv: "valid_interval cum freq tot"
  defines "r \<equiv> re_range e div tot"
  obtains bs low' rng' where "shifts (re_low e + r * cum) (r * freq) bs low' rng'"
    and "re_encode e cum freq tot =
      Ok \<lparr>re_low = low', re_range = rng', re_out = re_out e @ bs\<rparr>"
    and "rc_inv low' rng'" and "2 ^ 48 \<le> unat rng'"
proof -
  have inv: "rc_inv (re_low e) (re_range e)" "2 ^ 48 \<le> unat (re_range e)"
    using ok by (auto simp: re_ok_def)
  note n = narrow [OF inv(1) quotient_nonzero [OF inv(2) iv] iv, folded r_def]
  obtain bs low' rng' where sh: "shifts (re_low e + r * cum) (r * freq) bs low' rng'"
    using shifts_total [OF n(7)] by blast
  let ?e = "e\<lparr>re_low := re_low e + r * cum, re_range := r * freq\<rparr>"
  have "re_renorm ?e = Some \<lparr>re_low = low', re_range = rng', re_out = re_out ?e @ bs\<rparr>"
    by (rule re_renorm_shifts [OF sh]) simp_all
  moreover have "validate cum freq tot = Ok ()" using iv by (simp add: validate_Ok_iff)
  moreover have "mul_or_panic r freq = (Ok (r * freq) :: (range_error, u64) res)"
    using n(4) by simp
  moreover have "div_or_panic (re_range e) tot = (Ok r :: (range_error, u64) res)"
    using n(1) by (simp add: r_def)
  ultimately have enc: "re_encode e cum freq tot =
      Ok \<lparr>re_low = low', re_range = rng', re_out = re_out e @ bs\<rparr>"
    by (simp add: re_encode_def)
  have "rc_inv low' rng'" and "2 ^ 48 \<le> unat rng'"
    using shifts_rc_inv [OF sh n(7)] by auto
  with sh enc show ?thesis by (rule that)
qed

text \<open>\<open>carries e B\<close>: the stream \<open>B\<close> starts with the encoder's output and goes on inside its
  interval. \<open>synced e d B\<close>: the decoder \<open>d\<close> of \<open>B\<close> has reached the encoder state \<open>e\<close>.\<close>

definition carries :: "range_encoder \<Rightarrow> u8 list \<Rightarrow> bool" where
  "carries e B \<longleftrightarrow> take (length (re_out e)) B = re_out e \<and>
     in_interval (re_low e) (re_range e) B (length (re_out e))"

definition synced :: "range_encoder \<Rightarrow> range_decoder \<Rightarrow> u8 list \<Rightarrow> bool" where
  "synced e d B \<longleftrightarrow> rd_low d = re_low e \<and> rd_range d = re_range e \<and> rd_pending d = None \<and>
     rd_input d = B \<and> rd_pos d = length (re_out e) + 8 \<and>
     unat (rd_code d) = win B (length (re_out e))"

lemma re_encode_Ok_valid: "re_encode e cum freq tot = Ok e' \<Longrightarrow> valid_interval cum freq tot"
  by (auto simp: re_encode_def validate_Ok_iff)

lemma re_encode_total:
  assumes "re_ok e" and "valid_interval cum freq tot"
  shows "\<exists>e'. re_encode e cum freq tot = Ok e' \<and> re_ok e'"
  by (rule re_encode_shifts [OF assms]) (simp add: re_ok_def)

lemma carries_finish:
  assumes "re_ok e"
  shows "carries e (re_finish e)"
  using assms
  by (simp add: carries_def in_interval_def win_finish length_re_finish re_ok_def rc_inv_def)
    (simp add: re_finish_def re_flush_append)

lemma encode_carries:
  assumes ok: "re_ok e" and enc: "re_encode e cum freq tot = Ok e'" and B: "carries e' B"
  defines "r \<equiv> re_range e div tot"
  shows "carries e B"
    and "in_interval (re_low e + r * cum) (r * freq) B (length (re_out e))"
proof -
  note iv = re_encode_Ok_valid [OF enc]
  obtain bs low' rng' where sh: "shifts (re_low e + r * cum) (r * freq) bs low' rng'"
    and e': "e' = \<lparr>re_low = low', re_range = rng', re_out = re_out e @ bs\<rparr>"
    using re_encode_shifts [OF ok iv] enc unfolding r_def by (metis res.inject(1))
  have inv: "rc_inv (re_low e) (re_range e)" "2 ^ 48 \<le> unat (re_range e)"
    using ok by (auto simp: re_ok_def)
  note n = narrow [OF inv(1) quotient_nonzero [OF inv(2) iv] iv, folded r_def]
  let ?p = "length (re_out e)"
  have last: "in_interval low' rng' B (?p + length bs)"
    and "take ?p B @ take (length bs) (drop ?p B) = re_out e @ bs"
    using B by (auto simp: carries_def e' take_add)
  moreover from last have "length (take ?p B) = ?p" by (simp add: in_interval_def)
  ultimately have tk: "take ?p B = re_out e" "take (length bs) (drop ?p B) = bs"
    by (metis append_eq_append_conv)+
  show iv': "in_interval (re_low e + r * cum) (r * freq) B ?p"
    by (rule shifts_in_interval [OF sh n(7) tk(2) last])
  have "unat r * unat cum + unat r * unat freq \<le> unat r * unat tot"
    using iv unfolding valid_interval_def distrib_left [symmetric] by simp
  then have "in_interval (re_low e) (re_range e) B ?p"
    using iv' n(8) unfolding in_interval_def n(5,6) by linarith
  with tk(1) show "carries e B" by (simp add: carries_def)
qed

lemma decode_value:
  assumes ok: "re_ok e" and sy: "synced e d B" and enc: "re_encode e cum freq tot = Ok e'"
    and B: "carries e' B"
  obtains v where "rd_decode_freq d tot = (Ok v, d\<lparr>rd_pending := Some (re_range e div tot, tot)\<rparr>)"
    and "cum \<le> v" and "unat v < unat cum + unat freq"
proof -
  let ?r = "re_range e div tot" and ?v = "(rd_code d - rd_low d) div (re_range e div tot)"
  note iv = re_encode_Ok_valid [OF enc]
  have inv: "rc_inv (re_low e) (re_range e)" "2 ^ 48 \<le> unat (re_range e)"
    using ok by (auto simp: re_ok_def)
  note n = narrow [OF inv(1) quotient_nonzero [OF inv(2) iv] iv]
  have w: "unat (re_low e) + unat ?r * unat cum \<le> unat (rd_code d)"
    "unat (rd_code d) < unat (re_low e) + unat ?r * unat cum + unat ?r * unat freq"
    using encode_carries(2) [OF ok enc B] sy unfolding in_interval_def n(5,6) synced_def by auto
  then have "rd_low d \<le> rd_code d" using sy by (simp add: word_le_nat_alt synced_def)
  then have "unat ?v = (unat (rd_code d) - unat (re_low e)) div unat ?r"
    using sy by (simp add: unat_div unat_sub_small synced_def)
  moreover have r: "0 < unat ?r" using n(2) by (simp add: unat_gt_0)
  moreover have "unat ?r * unat cum \<le> unat (rd_code d) - unat (re_low e)"
    "unat (rd_code d) - unat (re_low e) < unat ?r * (unat cum + unat freq)"
    using w unfolding distrib_left by linarith+
  ultimately have v: "unat cum \<le> unat ?v" "unat ?v < unat cum + unat freq"
    by (simp_all add: less_eq_div_iff_mult_less_eq div_less_iff_less_mult mult.commute)
  have tot: "tot \<noteq> 0" "\<not> total_limit \<le> tot"
    using iv n(1) by (auto simp: valid_interval_def word_le_nat_alt limits_nat)
  have "\<not> tot \<le> ?v" using v(2) iv by (simp add: valid_interval_def word_le_nat_alt)
  then have "rd_decode_freq d tot = (Ok ?v, d\<lparr>rd_pending := Some (?r, tot)\<rparr>)"
    using sy tot n(2) by (simp add: rd_decode_freq_def synced_def Let_def)
  then show ?thesis using v by (intro that) (simp_all add: word_le_nat_alt)
qed

lemma advance_synced:
  assumes ok: "re_ok e" and sy: "synced e d B" and enc: "re_encode e cum freq tot = Ok e'"
    and B: "carries e' B"
  shows "\<exists>d'. rd_advance (d\<lparr>rd_pending := Some (re_range e div tot, tot)\<rparr>) cum freq tot = (Ok (), d')
     \<and> synced e' d' B"
proof -
  define r where "r = re_range e div tot"
  note iv = re_encode_Ok_valid [OF enc]
  obtain bs low' rng' where sh: "shifts (re_low e + r * cum) (r * freq) bs low' rng'"
    and e': "e' = \<lparr>re_low = low', re_range = rng', re_out = re_out e @ bs\<rparr>"
    using re_encode_shifts [OF ok iv] enc unfolding r_def by (metis res.inject(1))
  have inv: "rc_inv (re_low e) (re_range e)" "2 ^ 48 \<le> unat (re_range e)"
    using ok by (auto simp: re_ok_def)
  note n = narrow [OF inv(1) quotient_nonzero [OF inv(2) iv] iv, folded r_def]
  let ?p = "length (re_out e)"
  let ?d = "d\<lparr>rd_pending := None, rd_low := rd_low d + r * cum, rd_range := r * freq\<rparr>"
  have fit: "?p + 8 + length bs \<le> length B"
    using B by (simp add: carries_def e' in_interval_def)
  have st: "rd_low ?d = re_low e + r * cum" "rd_range ?d = r * freq"
      "rd_pos ?d + length bs \<le> length (rd_input ?d)"
    using sy fit by (simp_all add: synced_def)
  note ren = rd_renorm_shifts [OF sh st]
  have code: "unat (foldl shift_in (rd_code d) (take (length bs) (drop (?p + 8) B))) =
      win B (?p + length bs)"
    using sy fit by (intro foldl_shift_in_win) (simp_all add: synced_def)
  have "validate cum freq tot = Ok ()" using iv by (simp add: validate_Ok_iff)
  moreover have "mul_or_panic r freq = (Ok (r * freq) :: (range_error, u64) res)"
    using n(4) by simp
  ultimately show ?thesis
    using ren sy code
    by (simp add: rd_advance_def r_def [symmetric] Let_def synced_def e' del: arith_or_panic_Ok)
qed

section \<open>The interface of the coder\<close>

text \<open>
  What a codec relies on. \<open>carries e B\<close> and \<open>synced e d B\<close> are the provider's own
  relations; the laws say that encoding narrows the set of carried streams, that the
  finished stream is carried, and that a synced decoder of a carried stream answers a value
  of the interval that was encoded and stays synced when it is advanced by that interval.
\<close>

fun follows :: "('dec \<Rightarrow> u64 \<Rightarrow> (range_error, u64) res \<times> 'dec) \<Rightarrow>
    ('dec \<Rightarrow> u64 \<Rightarrow> u64 \<Rightarrow> u64 \<Rightarrow> (range_error, unit) res \<times> 'dec) \<Rightarrow>
    'dec \<Rightarrow> (u64 \<times> u64 \<times> u64) list \<Rightarrow> bool" where
  "follows decf adv d [] = True"
| "follows decf adv d ((cum, freq, tot) # ivs) =
     (case decf d tot of
        (Ok v, d1) \<Rightarrow> cum \<le> v \<and> unat v < unat cum + unat freq \<and>
          (case adv d1 cum freq tot of (Ok _, d2) \<Rightarrow> follows decf adv d2 ivs | _ \<Rightarrow> False)
      | _ \<Rightarrow> False)"

locale interval_channel =
  fixes start :: 'enc
    and enc_ok :: "'enc \<Rightarrow> bool"
    and encode :: "'enc \<Rightarrow> u64 \<Rightarrow> u64 \<Rightarrow> u64 \<Rightarrow> (range_error, 'enc) res"
    and finish :: "'enc \<Rightarrow> u8 list"
    and carried :: "'enc \<Rightarrow> u8 list \<Rightarrow> bool"
    and open_stream :: "u8 list \<Rightarrow> (range_error, 'dec) res"
    and in_step :: "'enc \<Rightarrow> 'dec \<Rightarrow> u8 list \<Rightarrow> bool"
    and decf :: "'dec \<Rightarrow> u64 \<Rightarrow> (range_error, u64) res \<times> 'dec"
    and adv :: "'dec \<Rightarrow> u64 \<Rightarrow> u64 \<Rightarrow> u64 \<Rightarrow> (range_error, unit) res \<times> 'dec"
  assumes start_ok: "enc_ok start"
    and encode_ok: "enc_ok e \<Longrightarrow> valid_interval c f t \<Longrightarrow> \<exists>e'. encode e c f t = Ok e' \<and> enc_ok e'"
    and encode_valid: "encode e c f t = Ok e' \<Longrightarrow> valid_interval c f t"
    and finish_carried: "enc_ok e \<Longrightarrow> carried e (finish e)"
    and encode_back: "enc_ok e \<Longrightarrow> encode e c f t = Ok e' \<Longrightarrow> carried e' B \<Longrightarrow> carried e B"
    and open_in_step: "carried start B \<Longrightarrow> \<exists>d. open_stream B = Ok d \<and> in_step start d B"
    and decode_step: "enc_ok e \<Longrightarrow> in_step e d B \<Longrightarrow> encode e c f t = Ok e' \<Longrightarrow> carried e' B \<Longrightarrow>
      \<exists>v d1 d2. decf d t = (Ok v, d1) \<and> c \<le> v \<and> unat v < unat c + unat f \<and>
        adv d1 c f t = (Ok (), d2) \<and> in_step e' d2 B"
begin

lemma encode_ok': "enc_ok e \<Longrightarrow> encode e c f t = Ok e' \<Longrightarrow> enc_ok e'"
  using encode_ok [OF _ encode_valid] by fastforce

lemma encode_all_ok:
  "enc_ok e \<Longrightarrow> (\<And>c f t. (c, f, t) \<in> set ivs \<Longrightarrow> valid_interval c f t) \<Longrightarrow>
    \<exists>e'. rfold (\<lambda>(c, f, t) e. encode e c f t) ivs e = Ok e' \<and> enc_ok e'"
proof (induction ivs arbitrary: e)
  case (Cons iv ivs)
  obtain c f t where iv: "iv = (c, f, t)" by (cases iv)
  with Cons.prems obtain e1 where "encode e c f t = Ok e1" "enc_ok e1"
    using encode_ok by force
  with Cons iv show ?case by auto
qed simp

lemma encode_all_back:
  "enc_ok e \<Longrightarrow> rfold (\<lambda>(c, f, t) e. encode e c f t) ivs e = Ok e' \<Longrightarrow> carried e' B \<Longrightarrow>
    enc_ok e' \<and> carried e B"
proof (induction ivs arbitrary: e)
  case (Cons iv ivs)
  then show ?case
    by (cases iv) (auto dest: encode_ok' encode_back)
qed simp

lemma follows_all:
  "enc_ok e \<Longrightarrow> in_step e d B \<Longrightarrow> rfold (\<lambda>(c, f, t) e. encode e c f t) ivs e = Ok e' \<Longrightarrow>
    carried e' B \<Longrightarrow> follows decf adv d ivs"
proof (induction ivs arbitrary: e d)
  case (Cons iv ivs)
  obtain c f t where iv: "iv = (c, f, t)" by (cases iv)
  with Cons.prems(3) obtain e1 where e1: "encode e c f t = Ok e1"
    and rest: "rfold (\<lambda>(c, f, t) e. encode e c f t) ivs e1 = Ok e'" by auto
  have ok1: "enc_ok e1" by (rule encode_ok' [OF Cons.prems(1) e1])
  have "carried e1 B" using encode_all_back [OF ok1 rest Cons.prems(4)] by simp
  from decode_step [OF Cons.prems(1,2) e1 this] obtain v d1 d2
    where "decf d t = (Ok v, d1)" "c \<le> v" "unat v < unat c + unat f"
      "adv d1 c f t = (Ok (), d2)" and sy: "in_step e1 d2 B" by blast
  with Cons.IH [OF ok1 sy rest Cons.prems(4)] iv show ?case by simp
qed simp

lemma channel_round_trip:
  assumes "\<And>c f t. (c, f, t) \<in> set ivs \<Longrightarrow> valid_interval c f t"
  shows "\<exists>e d. rfold (\<lambda>(c, f, t) e. encode e c f t) ivs start = Ok e \<and>
    open_stream (finish e) = Ok d \<and> follows decf adv d ivs"
proof -
  obtain e where e: "rfold (\<lambda>(c, f, t) e. encode e c f t) ivs start = Ok e" "enc_ok e"
    using encode_all_ok [OF start_ok assms] by blast
  note fin = finish_carried [OF e(2)]
  from encode_all_back [OF start_ok e(1) fin] obtain d
    where "open_stream (finish e) = Ok d" "in_step start d (finish e)"
    using open_in_step by blast
  with follows_all [OF start_ok _ e(1) fin] e(1) show ?thesis by blast
qed

end

section \<open>The coder provides the interface\<close>

lemma rd_fill_foldl:
  "rd_pos d + n \<le> length (rd_input d) \<Longrightarrow> rd_fill n d = Ok (d\<lparr>rd_pos := rd_pos d + n,
     rd_code := foldl shift_in (rd_code d) (take n (drop (rd_pos d) (rd_input d)))\<rparr>)"
proof (induction n arbitrary: d)
  case (Suc n)
  then have "take (Suc n) (drop (rd_pos d) (rd_input d)) =
      rd_input d ! rd_pos d # take n (drop (Suc (rd_pos d)) (rd_input d))"
    by (simp add: Cons_nth_drop_Suc [symmetric])
  with Suc show ?case by (simp add: rd_read_byte_def)
qed simp

lemma rd_fill_short: "length (rd_input d) < rd_pos d + n \<Longrightarrow> rd_pos d \<le> length (rd_input d) \<Longrightarrow>
    rd_fill n d = Err UnexpectedEof"
  by (induction n arbitrary: d) (auto simp: rd_read_byte_def)

lemma foldl_shift_in_short:
  "length bs \<le> 8 \<Longrightarrow> unat code < 256 ^ (8 - length bs) \<Longrightarrow>
    unat (foldl shift_in code bs) = unat code * 256 ^ length bs + from_be bs"
proof (induction bs arbitrary: code)
  case (Cons b bs)
  have b: "unat b < 256" using unsigned_less [of b] by simp
  have "(256 :: nat) ^ (8 - length (b # bs)) \<le> 256 ^ 7"
    by (rule power_increasing) simp_all
  then have "unat code < 2 ^ 56" using Cons.prems(2) by simp
  then have sh: "unat (shift_in code b) = unat code * 256 + unat b" by (simp add: unat_shift_in)
  have "8 - length bs = Suc (8 - length (b # bs))" using Cons.prems(1) by simp
  then have "unat code * 256 + 256 \<le> 256 ^ (8 - length bs)"
    using Cons.prems(2) by (simp add: Suc_le_eq [symmetric])
  then have "unat (shift_in code b) < 256 ^ (8 - length bs)" using b by (simp add: sh)
  from Cons.IH [OF _ this] Cons.prems(1) show ?case
    by (simp add: sh from_be_Cons algebra_simps)
qed simp

lemma rd_new_code:
  assumes "8 \<le> length B"
  shows "\<exists>d. rd_new B = Ok d \<and> rd_low d = 0 \<and> rd_range d = - 1 \<and> rd_pending d = None \<and>
    rd_input d = B \<and> rd_pos d = 8 \<and> unat (rd_code d) = win B 0"
proof -
  have "unat (foldl shift_in 0 (take 8 B)) = from_be (take 8 B)"
    using assms foldl_shift_in_short [of "take 8 B" 0] by simp
  then show ?thesis using assms by (simp add: rd_new_def rd_fill_foldl win_def)
qed

interpretation rc: interval_channel re_new re_ok re_encode re_finish carries rd_new synced
  rd_decode_freq rd_advance
proof unfold_locales
  show "re_ok re_new" by (rule re_new_ok)
next
  fix e c f t assume "re_ok e" "valid_interval c f t"
  then show "\<exists>e'. re_encode e c f t = Ok e' \<and> re_ok e'" by (rule re_encode_total)
next
  fix e c f t e' assume "re_encode e c f t = Ok e'"
  then show "valid_interval c f t" by (rule re_encode_Ok_valid)
next
  fix e assume "re_ok e"
  then show "carries e (re_finish e)" by (rule carries_finish)
next
  fix e c f t e' B assume "re_ok e" "re_encode e c f t = Ok e'" "carries e' B"
  then show "carries e B" by (rule encode_carries(1))
next
  fix B assume "carries re_new B"
  then have "8 \<le> length B" by (simp add: carries_def in_interval_def re_new_def)
  from rd_new_code [OF this] show "\<exists>d. rd_new B = Ok d \<and> synced re_new d B"
    by (auto simp: synced_def re_new_def)
next
  fix e d B c f t e'
  assume h: "re_ok e" "synced e d B" "re_encode e c f t = Ok e'" "carries e' B"
  from decode_value [OF h] advance_synced [OF h]
  show "\<exists>v d1 d2. rd_decode_freq d t = (Ok v, d1) \<and> c \<le> v \<and> unat v < unat c + unat f \<and>
      rd_advance d1 c f t = (Ok (), d2) \<and> synced e' d2 B"
    by metis
qed

section \<open>Every operation of the decoder returns\<close>

lemma rd_decode_freq_ok:
  assumes "rd_ok d"
  shows "\<exists>r d'. rd_decode_freq d tot = (r, d') \<and> (r = Err InvalidFrequency \<or> (\<exists>v. r = Ok v \<and> v < tot)) \<and>
    rd_ok d'"
  using assms by (auto simp: rd_decode_freq_def rd_ok_def Let_def not_le)

lemma rd_advance_ok:
  assumes ok: "rd_ok d"
  shows "\<exists>r d'. rd_advance d cum freq tot = (r, d') \<and>
    (r = Ok () \<or> r = Err InvalidFrequency \<or> r = Err UnexpectedEof) \<and> rd_ok d'"
proof (cases "validate cum freq tot = Ok () \<and> (\<exists>r. rd_pending d = Some (r, tot))")
  case False
  then show ?thesis
    using validate_cases [of cum freq tot] ok by (auto simp: rd_advance_def split: option.splits)
next
  case True
  then obtain r where val: "validate cum freq tot = Ok ()" and pend: "rd_pending d = Some (r, tot)"
    by blast
  have r: "r = rd_range d div tot" "r \<noteq> 0" and inv: "rc_inv (rd_low d) (rd_range d)"
    and pos: "rd_pos d \<le> length (rd_input d)"
    using ok pend by (auto simp: rd_ok_def)
  have iv: "valid_interval cum freq tot" using val by (simp add: validate_Ok_iff)
  note n = narrow [OF inv r(2) [unfolded r(1)] iv, folded r(1)]
  let ?d = "d\<lparr>rd_pending := None, rd_low := rd_low d + r * cum, rd_range := r * freq\<rparr>"
  obtain bs low' rng' where "shifts (rd_low d + r * cum) (r * freq) bs low' rng'"
    using shifts_total [OF n(7)] by blast
  then have "\<exists>res d'. rd_renorm ?d = Some (res, d') \<and> (res = Ok () \<or> res = Err UnexpectedEof) \<and> rd_ok d'"
    by (rule rd_renorm_returns) (use n(7) pos in simp_all)
  moreover have "mul_or_panic r freq = (Ok (r * freq) :: (range_error, u64) res)"
    using n(4) by simp
  ultimately show ?thesis
    using val pend by (auto simp: rd_advance_def Let_def simp del: arith_or_panic_Ok)
qed

lemma rd_new_ok:
  "(\<exists>d. rd_new B = Ok d \<and> rd_ok d) \<or> rd_new B = Err UnexpectedEof"
proof (cases "8 \<le> length B")
  case True
  have "rc_inv 0 (- 1)" using re_new_ok by (simp add: re_ok_def re_new_def)
  with rd_new_code [OF True] True show ?thesis by (auto simp: rd_ok_def)
next
  case False
  then show ?thesis by (simp add: rd_new_def rd_fill_short)
qed

section \<open>Snapshots\<close>

text \<open>With an empty range the renormalisation never stops.\<close>

lemma re_renorm_zero: "re_range e = 0 \<Longrightarrow> re_renorm e = None"
proof (rule ccontr)
  assume zero: "re_range e = 0" and "re_renorm e \<noteq> None"
  then obtain e' where ret: "re_renorm e = Some e'" by auto
  have "re_range e \<noteq> 0"
  proof (rule re_renorm.raw_induct [where P = "\<lambda>e e'. re_range e \<noteq> 0", OF _ ret])
    fix f e e'
    assume IH: "\<And>e e'. f e = Some e' \<Longrightarrow> re_range e \<noteq> 0"
      and eq: "(case normalize_step (re_low e) (re_range e) of (again, r) \<Rightarrow>
        if again
        then f (e\<lparr>re_out := re_out e @ [top_byte (re_low e)],
                  re_low := push_bit 8 (re_low e), re_range := push_bit 8 r\<rparr>)
        else Some (e\<lparr>re_range := r\<rparr>)) = Some e'"
    show "re_range e \<noteq> 0"
    proof
      assume z: "re_range e = 0"
      have "normalize_step (re_low e) 0 = (True, 0)"
        by (simp add: normalize_step_def TOP_def)
      with eq z have "f (e\<lparr>re_out := re_out e @ [top_byte (re_low e)],
          re_low := push_bit 8 (re_low e), re_range := push_bit 8 0\<rparr>) = Some e'" by simp
      from IH [OF this] show False by simp
    qed
  qed
  with zero show False by simp
qed

lemma re_snapshot_inverse: "re_ok e \<Longrightarrow> re_from_snapshot (re_snapshot e) = Ok e"
  by (cases e) (auto simp: re_from_snapshot_def re_snapshot_def re_ok_def rc_inv_def)

section \<open>Properties\<close>

text \<open>C3: The range coder is lossless. For every sequence of valid intervals
  (\<open>freq > 0\<close>, \<open>cum + freq \<le> total < 2^31\<close>) the encoder accepts them all, and a decoder
  opened on the finished bytes answers, symbol by symbol, a value inside the interval that was
  encoded and accepts to be advanced by it.\<close>

theorem range_round_trip:
  assumes "\<And>cum freq tot. (cum, freq, tot) \<in> set ivs \<Longrightarrow> valid_interval cum freq tot"
  shows "\<exists>e d. rfold (\<lambda>(cum, freq, tot) e. re_encode e cum freq tot) ivs re_new = Ok e \<and>
    rd_new (re_finish e) = Ok d \<and> follows rd_decode_freq rd_advance d ivs"
  using assms by (rule rc.channel_round_trip)

theorem range_round_trip_witness:
  "\<exists>e d. rfold (\<lambda>(cum, freq, tot) e. re_encode e cum freq tot)
      [(5, 7, 13), (0, 3, 13), (12, 1, 13)] re_new = Ok e \<and>
    rd_new (re_finish e) = Ok d \<and>
    follows rd_decode_freq rd_advance d [(5, 7, 13), (0, 3, 13), (12, 1, 13)]"
  by (rule range_round_trip) (auto simp: valid_interval_def)

text \<open>The states a decoder of \<open>B\<close> can be in, whatever calls its client makes and whichever of
  them failed.\<close>

inductive dec_reachable :: "u8 list \<Rightarrow> range_decoder \<Rightarrow> bool" for B where
  opened: "rd_new B = Ok d \<Longrightarrow> dec_reachable B d"
| asked: "dec_reachable B d \<Longrightarrow> rd_decode_freq d tot = (r, d') \<Longrightarrow> dec_reachable B d'"
| advanced: "dec_reachable B d \<Longrightarrow> rd_advance d cum freq tot = (r, d') \<Longrightarrow> dec_reachable B d'"

lemma dec_reachable_ok: "dec_reachable B d \<Longrightarrow> rd_ok d"
proof (induction rule: dec_reachable.induct)
  case (opened d)
  then show ?case using rd_new_ok [of B] by auto
next
  case (asked d tot r d')
  then show ?case using rd_decode_freq_ok [of d tot] by auto
next
  case (advanced d cum freq tot r d')
  then show ?case using rd_advance_ok [of d cum freq tot] by auto
qed

text \<open>C22: The decoder is safe on arbitrary bytes. Whatever the input and whatever calls came
  before (failed ones included), \<open>decode_freq\<close> and \<open>advance\<close> return with a value or an
  error: they never panic, never overflow a multiplication and never loop for ever.\<close>

theorem decoder_calls_return:
  assumes "dec_reachable B d"
  shows "(\<exists>d'. rd_decode_freq d tot = (Err InvalidFrequency, d') \<or>
      (\<exists>v. rd_decode_freq d tot = (Ok v, d') \<and> v < tot)) \<and>
    (\<exists>d' r. rd_advance d cum freq tot = (r, d') \<and>
      (r = Ok () \<or> r = Err InvalidFrequency \<or> r = Err UnexpectedEof))"
  using rd_decode_freq_ok [OF dec_reachable_ok [OF assms], of tot]
    rd_advance_ok [OF dec_reachable_ok [OF assms], of cum freq tot] by auto

theorem decoder_calls_return_witness:
  "\<exists>d. dec_reachable [255, 0, 1, 2, 3, 4, 5, 6] d \<and>
    (\<exists>d' r. rd_advance d 0 1 2 = (r, d') \<and>
      (r = Ok () \<or> r = Err InvalidFrequency \<or> r = Err UnexpectedEof))"
proof -
  obtain d where "rd_new [255, 0, 1, 2, 3, 4, 5, 6] = Ok d"
    using rd_new_code [of "[255, 0, 1, 2, 3, 4, 5, 6]"] by auto
  then have r: "dec_reachable [255, 0, 1, 2, 3, 4, 5, 6] d" by (rule opened)
  with decoder_calls_return [OF r, of 2 0 1] show ?thesis by blast
qed

text \<open>A checkpoint resumes the canonical stream. Encoding some intervals, taking a
  snapshot, restoring it and encoding the rest gives the encoder state of the uninterrupted
  run.\<close>

lemma snapshot_resumes:
  assumes "\<And>cum freq tot. (cum, freq, tot) \<in> set (ivs @ ivs') \<Longrightarrow> valid_interval cum freq tot"
  shows "rbind (rfold (\<lambda>(cum, freq, tot) e. re_encode e cum freq tot) ivs re_new)
      (\<lambda>e. rbind (re_from_snapshot (re_snapshot e))
        (rfold (\<lambda>(cum, freq, tot) e. re_encode e cum freq tot) ivs')) =
    rfold (\<lambda>(cum, freq, tot) e. re_encode e cum freq tot) (ivs @ ivs') re_new"
proof -
  have "\<exists>e. rfold (\<lambda>(cum, freq, tot) e. re_encode e cum freq tot) ivs re_new = Ok e \<and> re_ok e"
    using assms by (intro rc.encode_all_ok re_new_ok) simp
  then show ?thesis by (auto simp: rfold_append re_snapshot_inverse)
qed

lemma snapshot_resumes_witness:
  "rbind (rfold (\<lambda>(cum, freq, tot) e. re_encode e cum freq tot) [(0, 1, 4), (1, 2, 4)] re_new)
      (\<lambda>e. rbind (re_from_snapshot (re_snapshot e))
        (rfold (\<lambda>(cum, freq, tot) e. re_encode e cum freq tot) [(3, 1, 4)])) =
    rfold (\<lambda>(cum, freq, tot) e. re_encode e cum freq tot) ([(0, 1, 4), (1, 2, 4)] @ [(3, 1, 4)]) re_new"
  by (rule snapshot_resumes) (auto simp: valid_interval_def)

text \<open>C23: A snapshot is only checked for \<open>range = 0\<close>. Restored with a range below the total
  of the next symbol, the encoder divides the range down to 0 and its renormalisation loop
  never returns.\<close>

theorem small_snapshot_diverges:
  assumes "re_from_snapshot s = Ok e" and "valid_interval cum freq tot"
    and "unat (rs_range s) < unat tot"
  shows "re_encode e cum freq tot = Diverge"
proof -
  have "re_range e = rs_range s" using assms(1) by (auto simp: re_from_snapshot_def split: if_splits)
  then have "re_range e div tot = 0" using assms(3) by (simp add: word_unat_eq_iff unat_div)
  moreover have "tot \<noteq> 0" using assms(3) by auto
  moreover have "validate cum freq tot = Ok ()" using assms(2) by (simp add: validate_Ok_iff)
  ultimately show ?thesis
    by (simp add: re_encode_def div_or_panic_def mul_or_panic_def checked_mul_def re_renorm_zero)
qed

theorem small_snapshot_diverges_witness:
  "re_encode \<lparr>re_low = 0, re_range = 1, re_out = []\<rparr> 0 1 2 = Diverge"
  by (rule small_snapshot_diverges [of "\<lparr>rs_low = 0, rs_range = 1, rs_out = []\<rparr>"])
    (simp_all add: re_from_snapshot_def valid_interval_def)

end
