(* ===== verification/Dtlz_File.thy ===== *)
theory Dtlz_File
  imports Prelude
begin

text \<open>
  The file header of a compressed file, \<open>src/crates/det-coder/src/file.rs\<close>: the fixed
  56-byte layout, the field checks and the two directions of the coding. The lemmas show that
  a checked header survives the coding, that every accepted byte string is the coding of the
  header it decodes to (so the header has one coding only), and which error each malformed
  header gives.
\<close>

section \<open>Layout and fields\<close>

definition MAGIC :: "u8 list" where "MAGIC = [0x44, 0x54, 0x4C, 0x5A]"
definition VERSION :: u16 where "VERSION = 1"
definition FLAGS :: u16 where "FLAGS = 0"
definition FLAG_BYTE_ESCAPES :: u16 where "FLAG_BYTE_ESCAPES = push_bit 0 1"
definition SUPPORTED_FLAGS :: u16 where "SUPPORTED_FLAGS = FLAG_BYTE_ESCAPES"
definition HEADER_LEN :: nat where "HEADER_LEN = 4 + 2 + 2 + 32 + 4 + 4 + 8"

record dtlz_header =
  h_flags :: u16
  h_model_sha256 :: "u8 list"
  h_n_ctx :: u32
  h_overlap :: u32
  h_orig_len :: u64

datatype file_error = TooShort | BadMagic | UnsupportedVersion u16 | UnsupportedFlags u16
  | InvalidContext | InvalidOverlap

section \<open>Coding\<close>

definition header_encode :: "dtlz_header \<Rightarrow> u8 list" where
  "header_encode h =
    (let out = replicate HEADER_LEN 0;
         out = put_slice 0 MAGIC out;
         out = put_slice 4 (le_bytes 2 (unat VERSION)) out;
         out = put_slice 6 (le_bytes 2 (unat (h_flags h))) out;
         out = put_slice 8 (h_model_sha256 h) out;
         out = put_slice 40 (le_bytes 4 (unat (h_n_ctx h))) out;
         out = put_slice 44 (le_bytes 4 (unat (h_overlap h))) out;
         out = put_slice 48 (le_bytes 8 (unat (h_orig_len h))) out
     in out)"

definition header_validate :: "dtlz_header \<Rightarrow> (file_error, unit) res" where
  "header_validate h =
    rbind (ensure (\<not> (h_flags h AND NOT SUPPORTED_FLAGS \<noteq> 0)) (UnsupportedFlags (h_flags h))) (\<lambda>_.
    rbind (ensure (\<not> (h_n_ctx h = 0)) InvalidContext) (\<lambda>_.
    rbind (ensure (\<not> (h_n_ctx h \<le> h_overlap h)) InvalidOverlap) (\<lambda>_.
    Ok ())))"

definition header_encode_checked :: "dtlz_header \<Rightarrow> (file_error, u8 list) res" where
  "header_encode_checked h = rbind (header_validate h) (\<lambda>_. Ok (header_encode h))"

definition header_decode :: "u8 list \<Rightarrow> (file_error, dtlz_header) res" where
  "header_decode bytes =
    rbind (ensure (\<not> (length bytes < HEADER_LEN)) TooShort) (\<lambda>_.
    rbind (ensure (\<not> (slice bytes 0 4 \<noteq> MAGIC)) BadMagic) (\<lambda>_.
    let version = word_of_nat (from_le (slice bytes 4 6)) in
    rbind (ensure (\<not> (version \<noteq> VERSION)) (UnsupportedVersion version)) (\<lambda>_.
    let flags = word_of_nat (from_le (slice bytes 6 8)) in
    rbind (ensure (\<not> (flags AND NOT SUPPORTED_FLAGS \<noteq> 0)) (UnsupportedFlags flags)) (\<lambda>_.
    let header = \<lparr>h_flags = flags, h_model_sha256 = slice bytes 8 40,
                  h_n_ctx = word_of_nat (from_le (slice bytes 40 44)),
                  h_overlap = word_of_nat (from_le (slice bytes 44 48)),
                  h_orig_len = word_of_nat (from_le (slice bytes 48 56))\<rparr> in
    rbind (header_validate header) (\<lambda>_. Ok header)))))"

section \<open>The layout as a concatenation\<close>

text \<open>The digest field is an array of 32 bytes.\<close>

definition header_wf :: "dtlz_header \<Rightarrow> bool" where
  "header_wf h \<longleftrightarrow> length (h_model_sha256 h) = 32"

definition layout :: "dtlz_header \<Rightarrow> u8 list" where
  "layout h = MAGIC @ le_bytes 2 (unat VERSION) @ le_bytes 2 (unat (h_flags h)) @ h_model_sha256 h @
    le_bytes 4 (unat (h_n_ctx h)) @ le_bytes 4 (unat (h_overlap h)) @ le_bytes 8 (unat (h_orig_len h))"

lemma length_MAGIC [simp]: "length MAGIC = 4"
  by (simp add: MAGIC_def)

lemma header_encode_layout:
  assumes "header_wf h"
  shows "header_encode h = layout h"
proof -
  have wf: "length (h_model_sha256 h) = 32" using assms by (simp add: header_wf_def)
  have *: "put_slice 0 MAGIC (replicate HEADER_LEN 0) = MAGIC @ replicate 52 0"
    by (simp add: put_slice_def HEADER_LEN_def MAGIC_def)
  show ?thesis
    unfolding header_encode_def Let_def *
    using wf
    by (simp add: put_slice_front layout_def del: append_assoc add: append_assoc [symmetric])
qed

lemma header_encode_length: "header_wf h \<Longrightarrow> length (header_encode h) = HEADER_LEN"
  by (simp add: header_encode_layout layout_def HEADER_LEN_def header_wf_def)

lemma header_validate_Ok_iff [simp]:
  "header_validate h = Ok u \<longleftrightarrow>
    h_flags h AND NOT SUPPORTED_FLAGS = 0 \<and> h_n_ctx h \<noteq> 0 \<and> h_overlap h < h_n_ctx h"
  by (auto simp: header_validate_def not_le)

lemma word_le_bytes_u16: "word_of_nat (from_le (le_bytes 2 (unat (w :: u16)))) = w"
  by (rule word_from_le_bytes) simp

lemma word_le_bytes_u32: "word_of_nat (from_le (le_bytes 4 (unat (w :: u32)))) = w"
  by (rule word_from_le_bytes) simp

lemma word_le_bytes_u64: "word_of_nat (from_le (le_bytes 8 (unat (w :: u64)))) = w"
  by (rule word_from_le_bytes) simp

lemmas layout_words = word_le_bytes_u16 word_le_bytes_u32 word_le_bytes_u64

lemma slices_layout:
  assumes "header_wf h"
  shows "slice (layout h @ rest) 0 4 = MAGIC"
    "slice (layout h @ rest) 4 6 = le_bytes 2 (unat VERSION)"
    "slice (layout h @ rest) 6 8 = le_bytes 2 (unat (h_flags h))"
    "slice (layout h @ rest) 8 40 = h_model_sha256 h"
    "slice (layout h @ rest) 40 44 = le_bytes 4 (unat (h_n_ctx h))"
    "slice (layout h @ rest) 44 48 = le_bytes 4 (unat (h_overlap h))"
    "slice (layout h @ rest) 48 56 = le_bytes 8 (unat (h_orig_len h))"
  using assms by (simp_all add: layout_def header_wf_def slice_append slice_all del: le_bytes.simps)

lemma le_bytes_slice:
  assumes "a \<le> b" and "b \<le> length xs" and "LENGTH('l::len) = 8 * (b - a)"
  shows "le_bytes (b - a) (unat (word_of_nat (from_le (slice xs a b)) :: 'l word)) = slice xs a b"
proof -
  have len: "length (slice xs a b) = b - a" using assms by (simp add: length_slice)
  have "(256 :: nat) ^ (b - a) = 2 ^ LENGTH('l)" by (simp add: assms(3) power_mult)
  then have "unat (word_of_nat (from_le (slice xs a b)) :: 'l word) = from_le (slice xs a b)"
    using from_le_less [of "slice xs a b"] len by (simp add: unsigned_of_nat take_bit_nat_eq_self)
  then show ?thesis using le_bytes_from_le [of "slice xs a b"] len by simp
qed

text \<open>The header written by the decoder's fields is the byte string itself.\<close>

lemma header_decode_layout:
  assumes "header_decode bytes = Ok h"
  shows "header_wf h \<and> layout h = take HEADER_LEN bytes"
proof -
  have len: "56 \<le> length bytes"
    and magic: "slice bytes 0 4 = MAGIC"
    and ver: "word_of_nat (from_le (slice bytes 4 6)) = VERSION"
    and h: "h = \<lparr>h_flags = word_of_nat (from_le (slice bytes 6 8)), h_model_sha256 = slice bytes 8 40,
                  h_n_ctx = word_of_nat (from_le (slice bytes 40 44)),
                  h_overlap = word_of_nat (from_le (slice bytes 44 48)),
                  h_orig_len = word_of_nat (from_le (slice bytes 48 56))\<rparr>"
    using assms by (auto simp: header_decode_def Let_def HEADER_LEN_def simp del: header_validate_Ok_iff)
  have "le_bytes 2 (unat VERSION) = slice bytes 4 6"
    using le_bytes_slice [where ?'l = 16, of 4 6 bytes] len ver by simp
  moreover have "le_bytes 2 (unat (h_flags h)) = slice bytes 6 8"
    using le_bytes_slice [where ?'l = 16, of 6 8 bytes] len by (simp add: h)
  moreover have "le_bytes 4 (unat (h_n_ctx h)) = slice bytes 40 44"
    using le_bytes_slice [where ?'l = 32, of 40 44 bytes] len by (simp add: h)
  moreover have "le_bytes 4 (unat (h_overlap h)) = slice bytes 44 48"
    using le_bytes_slice [where ?'l = 32, of 44 48 bytes] len by (simp add: h)
  moreover have "le_bytes 8 (unat (h_orig_len h)) = slice bytes 48 56"
    using le_bytes_slice [where ?'l = 64, of 48 56 bytes] len by (simp add: h)
  moreover have "h_model_sha256 h = slice bytes 8 40" by (simp add: h)
  ultimately have "layout h = slice bytes 0 4 @ slice bytes 4 6 @ slice bytes 6 8 @ slice bytes 8 40 @
      slice bytes 40 44 @ slice bytes 44 48 @ slice bytes 48 56"
    unfolding layout_def by (simp only: magic)
  then have "layout h = slice bytes 0 56" by (simp add: slice_join)
  moreover have "header_wf h" using len by (simp add: h header_wf_def length_slice)
  ultimately show ?thesis by (simp add: slice_def HEADER_LEN_def)
qed

lemma header_decode_written:
  assumes "header_wf h" and "header_validate h = Ok ()"
  shows "header_decode (layout h @ rest) = Ok h"
proof -
  have "\<not> length (layout h @ rest) < HEADER_LEN"
    using header_encode_length [OF assms(1)] by (simp add: header_encode_layout assms(1))
  moreover have "\<not> (h_flags h AND NOT SUPPORTED_FLAGS \<noteq> 0)" using assms(2) by simp
  moreover have "\<lparr>h_flags = h_flags h, h_model_sha256 = h_model_sha256 h, h_n_ctx = h_n_ctx h,
      h_overlap = h_overlap h, h_orig_len = h_orig_len h\<rparr> = h" by simp
  ultimately show ?thesis
    using assms unfolding header_decode_def
    by (simp add: slices_layout layout_words Let_def)
qed

section \<open>Properties\<close>

text \<open>C24: A header that passes the encoder's check is written in 56 bytes, and decoding these
  bytes, whatever follows them in the file, gives the header back.\<close>

theorem header_round_trip:
  assumes "header_wf h" and "header_encode_checked h = Ok bytes"
  shows "length bytes = HEADER_LEN \<and> header_decode (bytes @ rest) = Ok h"
proof -
  have b: "bytes = layout h" and v: "header_validate h = Ok ()"
    using assms by (auto simp: header_encode_checked_def header_encode_layout)
  have "length (layout h) = HEADER_LEN"
    using assms header_encode_length [of h] by (simp add: header_encode_layout)
  with header_decode_written [OF assms(1) v] show ?thesis by (simp add: b)
qed

theorem header_round_trip_witness:
  "header_decode (header_encode \<lparr>h_flags = 1, h_model_sha256 = replicate 32 7, h_n_ctx = 2048,
      h_overlap = 512, h_orig_len = 123456789\<rparr> @ [1, 2, 3]) =
    Ok \<lparr>h_flags = 1, h_model_sha256 = replicate 32 7, h_n_ctx = 2048,
      h_overlap = 512, h_orig_len = 123456789\<rparr>"
  using header_round_trip [of "\<lparr>h_flags = 1, h_model_sha256 = replicate 32 7, h_n_ctx = 2048,
      h_overlap = 512, h_orig_len = 123456789\<rparr>" _ "[1, 2, 3]"]
  by (simp add: header_wf_def header_encode_checked_def SUPPORTED_FLAGS_def FLAG_BYTE_ESCAPES_def)

text \<open>The header coding is canonical. A byte string that decodes to a header starts with
  exactly the bytes the encoder writes for that header, and the header passes the encoder's own
  check, so no two different 56-byte headers decode to the same fields.\<close>

lemma header_canonical:
  assumes "header_decode bytes = Ok h"
  shows "header_encode_checked h = Ok (take HEADER_LEN bytes)"
proof -
  have "header_validate h = Ok ()"
    using assms by (auto simp: header_decode_def Let_def simp del: header_validate_Ok_iff)
  then show ?thesis
    using header_decode_layout [OF assms] by (simp add: header_encode_checked_def header_encode_layout)
qed

lemma header_canonical_witness:
  "\<exists>bytes h. length bytes = 56 \<and> header_decode bytes = Ok h \<and> header_encode_checked h = Ok bytes"
proof -
  define h where "h = \<lparr>h_flags = 1, h_model_sha256 = replicate 32 9, h_n_ctx = 4, h_overlap = 1,
    h_orig_len = 5\<rparr>"
  have wf: "header_wf h" by (simp add: h_def header_wf_def)
  have "header_validate h = Ok ()" by (simp add: h_def SUPPORTED_FLAGS_def FLAG_BYTE_ESCAPES_def)
  then have d: "header_decode (layout h) = Ok h" using header_decode_written [OF wf, of "[]"] by simp
  moreover have "length (layout h) = 56"
    using header_encode_length [OF wf] by (simp add: header_encode_layout wf HEADER_LEN_def)
  ultimately show ?thesis using header_canonical [OF d] by (auto simp: HEADER_LEN_def)
qed

text \<open>The decoder never panics. It fails with \<open>TooShort\<close> on less than 56 bytes, and on a
  full header with the error of the first failing check: magic, version, flags, context,
  overlap.\<close>

theorem header_decode_errors:
  "header_decode bytes \<noteq> Panic \<and> header_decode bytes \<noteq> Diverge \<and>
   (header_decode bytes = Err TooShort \<longleftrightarrow> length bytes < HEADER_LEN) \<and>
   (header_decode bytes = Err BadMagic \<longleftrightarrow> HEADER_LEN \<le> length bytes \<and> take 4 bytes \<noteq> MAGIC) \<and>
   (header_wf h \<longrightarrow> h_flags h AND NOT SUPPORTED_FLAGS = 0 \<longrightarrow>
     header_decode (header_encode h @ rest) =
       (if h_n_ctx h = 0 then Err InvalidContext
        else if h_n_ctx h \<le> h_overlap h then Err InvalidOverlap else Ok h))"
proof (intro conjI impI)
  assume wf: "header_wf h" and fl: "h_flags h AND NOT SUPPORTED_FLAGS = 0"
  have "\<not> length (layout h @ rest) < HEADER_LEN"
    using header_encode_length [OF wf] by (simp add: header_encode_layout wf)
  then show "header_decode (header_encode h @ rest) =
       (if h_n_ctx h = 0 then Err InvalidContext
        else if h_n_ctx h \<le> h_overlap h then Err InvalidOverlap else Ok h)"
    using wf fl by (simp add: header_encode_layout header_decode_def slices_layout layout_words
        header_validate_def ensure_def)
qed (auto simp: header_decode_def header_validate_def ensure_def Let_def slice_def)

theorem header_decode_errors_witness:
  "header_decode (header_encode \<lparr>h_flags = 0, h_model_sha256 = replicate 32 7, h_n_ctx = 4,
      h_overlap = 4, h_orig_len = 1\<rparr> @ []) = Err InvalidOverlap"
  using header_decode_errors [of "[]" "\<lparr>h_flags = 0, h_model_sha256 = replicate 32 7, h_n_ctx = 4,
      h_overlap = 4, h_orig_len = 1\<rparr>" "[]"]
  by (simp add: header_wf_def)

end
