(* ===== verification/Sha256.thy ===== *)
theory Sha256
  imports Prelude
begin

text \<open>
  SHA-256 as \<open>src/crates/det-num/src/hash.rs\<close> computes it: an incremental hasher with a
  64-byte block buffer. The specification is the one-shot hash of a whole message, padded and
  cut into blocks; the lemmas relate every hasher state to the message absorbed so far, so
  that the digest does not depend on how the input was cut into \<open>update\<close> calls, and no
  slice of the code is out of bounds.
\<close>

section \<open>The code\<close>

record sha256 =
  sh_state :: "u32 list"
  sh_len :: u64
  sh_buf :: "u8 list"
  sh_buf_len :: nat

text \<open>The round constants, a row per line of the source.\<close>

definition sha_K :: "u32 list" where
  "sha_K = concat [
    [0x428a2f98, 0x71374491, 0xb5c0fbcf, 0xe9b5dba5, 0x3956c25b, 0x59f111f1, 0x923f82a4, 0xab1c5ed5],
    [0xd807aa98, 0x12835b01, 0x243185be, 0x550c7dc3, 0x72be5d74, 0x80deb1fe, 0x9bdc06a7, 0xc19bf174],
    [0xe49b69c1, 0xefbe4786, 0x0fc19dc6, 0x240ca1cc, 0x2de92c6f, 0x4a7484aa, 0x5cb0a9dc, 0x76f988da],
    [0x983e5152, 0xa831c66d, 0xb00327c8, 0xbf597fc7, 0xc6e00bf3, 0xd5a79147, 0x06ca6351, 0x14292967],
    [0x27b70a85, 0x2e1b2138, 0x4d2c6dfc, 0x53380d13, 0x650a7354, 0x766a0abb, 0x81c2c92e, 0x92722c85],
    [0xa2bfe8a1, 0xa81a664b, 0xc24b8b70, 0xc76c51a3, 0xd192e819, 0xd6990624, 0xf40e3585, 0x106aa070],
    [0x19a4c116, 0x1e376c08, 0x2748774c, 0x34b0bcb5, 0x391c0cb3, 0x4ed8aa4a, 0x5b9cca4f, 0x682e6ff3],
    [0x748f82ee, 0x78a5636f, 0x84c87814, 0x8cc70208, 0x90befffa, 0xa4506ceb, 0xbef9a3f7, 0xc67178f2]]"

definition sha_init :: "u32 list" where
  "sha_init = [0x6a09e667, 0xbb67ae85, 0x3c6ef372, 0xa54ff53a, 0x510e527f, 0x9b05688c, 0x1f83d9ab,
    0x5be0cd19]"

definition sha_new :: sha256 where
  "sha_new = \<lparr>sh_state = sha_init, sh_len = 0, sh_buf = replicate 64 0, sh_buf_len = 0\<rparr>"

text \<open>The message schedule \<open>w\<close>: the block's big-endian words, then the expansion.\<close>

definition sha_load :: "u8 list \<Rightarrow> u32 list" where
  "sha_load block =
    foldl (\<lambda>w i. w[i := word_of_nat (from_be (slice block (4 * i) (4 * i + 4)))]) (replicate 64 0) [0..<16]"

definition sha_expand :: "u32 list \<Rightarrow> nat \<Rightarrow> u32 list" where
  "sha_expand w i =
    (let s0 = word_rotr 7 (w ! (i - 15)) XOR word_rotr 18 (w ! (i - 15)) XOR drop_bit 3 (w ! (i - 15));
         s1 = word_rotr 17 (w ! (i - 2)) XOR word_rotr 19 (w ! (i - 2)) XOR drop_bit 10 (w ! (i - 2))
     in w[i := w ! (i - 16) + s0 + w ! (i - 7) + s1])"

definition sha_schedule :: "u8 list \<Rightarrow> u32 list" where
  "sha_schedule block = foldl sha_expand (sha_load block) [16..<64]"

text \<open>The eight working variables \<open>a\<close> to \<open>h\<close>.\<close>

type_synonym sha_vars = "u32 \<times> u32 \<times> u32 \<times> u32 \<times> u32 \<times> u32 \<times> u32 \<times> u32"

definition sha_round :: "u32 list \<Rightarrow> sha_vars \<Rightarrow> nat \<Rightarrow> sha_vars" where
  "sha_round w v i =
    (case v of (a, b, c, d, e, f, g, h) \<Rightarrow>
      let s1 = word_rotr 6 e XOR word_rotr 11 e XOR word_rotr 25 e;
          ch = (e AND f) XOR ((NOT e) AND g);
          temp1 = h + s1 + ch + sha_K ! i + w ! i;
          s0 = word_rotr 2 a XOR word_rotr 13 a XOR word_rotr 22 a;
          maj = (a AND b) XOR (a AND c) XOR (b AND c);
          temp2 = s0 + maj
      in (temp1 + temp2, a, b, c, d + temp1, e, f, g))"

definition sha_compress_state :: "u32 list \<Rightarrow> u8 list \<Rightarrow> u32 list" where
  "sha_compress_state st block =
    (let w = sha_schedule block;
         v0 = (st ! 0, st ! 1, st ! 2, st ! 3, st ! 4, st ! 5, st ! 6, st ! 7)
     in (case foldl (sha_round w) v0 [0..<64] of (a, b, c, d, e, f, g, h) \<Rightarrow>
       [st ! 0 + a, st ! 1 + b, st ! 2 + c, st ! 3 + d, st ! 4 + e, st ! 5 + f, st ! 6 + g, st ! 7 + h]))"

definition sha_compress :: "sha256 \<Rightarrow> u8 list \<Rightarrow> sha256" where
  "sha_compress h block = h\<lparr>sh_state := sha_compress_state (sh_state h) block\<rparr>"

text \<open>The loop over whole blocks of the input, and what it leaves over.\<close>

function sha_blocks :: "sha256 \<Rightarrow> u8 list \<Rightarrow> sha256 \<times> u8 list" where
  "sha_blocks h input =
    (if 64 \<le> length input then sha_blocks (sha_compress h (take 64 input)) (drop 64 input)
     else (h, input))"
  by auto
termination by (relation "measure (\<lambda>(h, input). length input)") auto

declare sha_blocks.simps [simp del]

text \<open>The first step of \<open>update\<close> fills a started block; the second consumes whole blocks and
  keeps the rest.\<close>

definition sha_fill :: "sha256 \<Rightarrow> u8 list \<Rightarrow> ('e, sha256 \<times> u8 list) res" where
  "sha_fill h input =
    (if sh_buf_len h \<noteq> 0 then
       (if 64 < sh_buf_len h then Panic
        else
          let n = min (64 - sh_buf_len h) (length input) in
          rbind (copy_into (sh_buf_len h) (take n input) (sh_buf h)) (\<lambda>buf.
          let h = h\<lparr>sh_buf := buf, sh_buf_len := sh_buf_len h + n\<rparr>;
              input = drop n input
          in if sh_buf_len h = 64
             then Ok ((sha_compress h (sh_buf h))\<lparr>sh_buf_len := 0\<rparr>, input)
             else Ok (h, input)))
     else Ok (h, input))"

definition sha_rest :: "sha256 \<Rightarrow> u8 list \<Rightarrow> ('e, sha256) res" where
  "sha_rest h input =
    (case sha_blocks h input of (h, input) \<Rightarrow>
      if input \<noteq> []
      then rbind (copy_into 0 input (sh_buf h)) (\<lambda>buf.
             Ok (h\<lparr>sh_buf := buf, sh_buf_len := length input\<rparr>))
      else Ok h)"

definition sha_update :: "sha256 \<Rightarrow> u8 list \<Rightarrow> ('e, sha256) res" where
  "sha_update h input =
    (let h = h\<lparr>sh_len := sh_len h + word_of_nat (length input)\<rparr> in
     rbind (sha_fill h input) (\<lambda>(h, input). sha_rest h input))"

text \<open>\<open>for b in &mut buf[a..b] { *b = 0 }\<close>.\<close>

definition zero_range :: "nat \<Rightarrow> nat \<Rightarrow> u8 list \<Rightarrow> ('e, u8 list) res" where
  "zero_range a b buf =
    (if a \<le> b \<and> b \<le> length buf then Ok (put_slice a (replicate (b - a) 0) buf) else Panic)"

definition sha_finalize :: "sha256 \<Rightarrow> ('e, u8 list) res" where
  "sha_finalize h =
    (let bit_len = sh_len h * 8 in
     rbind (copy_into (sh_buf_len h) [0x80] (sh_buf h)) (\<lambda>buf.
     let h = h\<lparr>sh_buf := buf, sh_buf_len := sh_buf_len h + 1\<rparr> in
     rbind
      (if 56 < sh_buf_len h then
         rbind (zero_range (sh_buf_len h) (length (sh_buf h)) (sh_buf h)) (\<lambda>buf.
         Ok ((sha_compress (h\<lparr>sh_buf := buf\<rparr>) buf)\<lparr>sh_buf_len := 0\<rparr>))
       else Ok h)
      (\<lambda>h.
        rbind (zero_range (sh_buf_len h) 56 (sh_buf h)) (\<lambda>buf.
        rbind (copy_into 56 (be_bytes 8 (unat bit_len)) buf) (\<lambda>buf.
        let h = sha_compress (h\<lparr>sh_buf := buf\<rparr>) buf in
        Ok (concat (map (\<lambda>word. be_bytes 4 (unat word)) (sh_state h))))))))"

section \<open>Specification\<close>

text \<open>The compression function chained over the whole blocks of a message, with the rest.\<close>

function absorb :: "u32 list \<Rightarrow> u8 list \<Rightarrow> u32 list \<times> u8 list" where
  "absorb st msg =
    (if 64 \<le> length msg then absorb (sha_compress_state st (take 64 msg)) (drop 64 msg) else (st, msg))"
  by auto
termination by (relation "measure (\<lambda>(st, msg). length msg)") auto

declare absorb.simps [simp del]

text \<open>The padding of the standard: a one bit, zeros up to 8 bytes before a block border, the
  length of the message in bits as a 64-bit number.\<close>

definition sha_padding :: "nat \<Rightarrow> u8 list" where
  "sha_padding n = 0x80 # replicate ((119 - n mod 64) mod 64) 0 @ be_bytes 8 (8 * n mod 2 ^ 64)"

definition sha256_spec :: "u8 list \<Rightarrow> u8 list" where
  "sha256_spec msg =
    concat (map (\<lambda>word. be_bytes 4 (unat word)) (fst (absorb sha_init (msg @ sha_padding (length msg)))))"

section \<open>The hasher holds the message absorbed so far\<close>

lemma absorb_short: "length msg < 64 \<Longrightarrow> absorb st msg = (st, msg)"
  by (subst absorb.simps) simp

lemma absorb_block: "length b = 64 \<Longrightarrow> absorb st (b @ msg) = absorb (sha_compress_state st b) msg"
  by (subst absorb.simps) simp

lemma absorb_rest_short: "absorb st msg = (st', r) \<Longrightarrow> length r < 64 \<and> length r = length msg mod 64"
proof (induction st msg rule: absorb.induct)
  case (1 st msg)
  show ?case
  proof (cases "64 \<le> length msg")
    case True
    then have "length (drop 64 msg) mod 64 = length msg mod 64" by (simp add: le_mod_geq)
    with 1 True show ?thesis by (subst (asm) (2) absorb.simps) simp
  next
    case False
    with 1(2) show ?thesis by (auto simp: absorb_short)
  qed
qed

lemma absorb_append: "absorb st (a @ b) = (case absorb st a of (st', r) \<Rightarrow> absorb st' (r @ b))"
proof (induction st a rule: absorb.induct)
  case (1 st a)
  show ?case
  proof (cases "64 \<le> length a")
    case True
    then have "absorb st (a @ b) = absorb (sha_compress_state st (take 64 a)) (drop 64 a @ b)"
      by (subst absorb.simps) simp
    moreover have "absorb st a = absorb (sha_compress_state st (take 64 a)) (drop 64 a)"
      using True by (subst absorb.simps) simp
    ultimately show ?thesis using 1 True by simp
  qed (simp add: absorb_short)
qed

lemma absorb_continue: "absorb st a = (st', r) \<Longrightarrow> absorb st (a @ b) = absorb st' (r @ b)"
  by (subst absorb_append) simp

lemma sha_blocks_absorb:
  "sha_blocks h input = (h\<lparr>sh_state := fst (absorb (sh_state h) input)\<rparr>, snd (absorb (sh_state h) input))"
proof (induction h input rule: sha_blocks.induct)
  case (1 h input)
  then show ?case
    by (subst sha_blocks.simps, subst (1 2) absorb.simps) (auto simp: sha_compress_def)
qed

text \<open>\<open>absorbed h msg\<close>: the hasher stands after the message \<open>msg\<close>; its buffer holds the bytes
  after the last whole block.\<close>

definition absorbed :: "sha256 \<Rightarrow> u8 list \<Rightarrow> bool" where
  "absorbed h msg \<longleftrightarrow>
    absorb sha_init msg = (sh_state h, take (sh_buf_len h) (sh_buf h)) \<and>
    sh_buf_len h < 64 \<and> length (sh_buf h) = 64 \<and> sh_len h = word_of_nat (length msg)"

lemma absorbed_new: "absorbed sha_new []"
  by (simp add: absorbed_def sha_new_def absorb_short)

lemma absorbed_buf_len: "absorbed h msg \<Longrightarrow> sh_buf_len h = length msg mod 64"
  unfolding absorbed_def by (metis absorb_rest_short length_take less_imp_le min.absorb2)

lemma take_put_slice: "length src = n \<Longrightarrow> at \<le> length buf \<Longrightarrow> take (at + n) (put_slice at src buf) = take at buf @ src"
  by (simp add: put_slice_def)

lemma absorbed_rest:
  assumes "length (sh_buf h) = 64" and "sh_buf_len h = 0 \<or> input = [] \<and> sh_buf_len h < 64"
    and "absorb sha_init msg = (sh_state h, take (sh_buf_len h) (sh_buf h))"
    and "sh_len h = word_of_nat (length (msg @ input))"
  shows "\<exists>h'. (sha_rest h input :: ('e, sha256) res) = Ok h' \<and> absorbed h' (msg @ input)"
proof (cases "input = []")
  case True
  have "(sha_rest h input :: ('e, sha256) res) = Ok h"
    using True by (simp add: sha_rest_def sha_blocks_absorb absorb_short)
  moreover have "absorbed h (msg @ input)"
    unfolding absorbed_def using assms True by auto
  ultimately show ?thesis by blast
next
  case False
  obtain st rest where ab: "absorb (sh_state h) input = (st, rest)" by fastforce
  have short: "length rest < 64" using absorb_rest_short [OF ab] by simp
  have k: "sh_buf_len h = 0" using False assms(2) by simp
  have msg: "absorb sha_init (msg @ input) = (st, rest)"
    using absorb_continue [OF assms(3), of input] by (simp add: k ab)
  define buf where "buf = put_slice 0 rest (sh_buf h)"
  define h' where "h' = h\<lparr>sh_state := st, sh_buf := buf, sh_buf_len := length rest\<rparr>"
  have "take (length rest) buf = rest" and "length buf = 64"
    using short assms(1) by (simp_all add: buf_def put_slice_def)
  then have abs': "absorbed h' (msg @ input)"
    unfolding absorbed_def msg using short assms(4) by (simp add: h'_def)
  have r: "(sha_rest h input :: ('e, sha256) res) =
      (if rest = [] then Ok (h\<lparr>sh_state := st\<rparr>) else Ok h')"
    using short assms(1)
    by (simp add: sha_rest_def sha_blocks_absorb ab copy_into_def h'_def buf_def)
  show ?thesis
  proof (cases "rest = []")
    case True
    then have "h' = h\<lparr>sh_state := st\<rparr>"
      using k by (simp add: h'_def buf_def put_slice_def)
    then show ?thesis using r abs' True by simp
  qed (use r abs' in simp)
qed

lemma sha_fill_absorbed:
  assumes "length (sh_buf h) = 64" and "sh_buf_len h < 64"
    and "absorb sha_init msg = (sh_state h, take (sh_buf_len h) (sh_buf h))"
  shows "\<exists>h' n. (sha_fill h input :: ('e, sha256 \<times> u8 list) res) = Ok (h', drop n input) \<and> sh_len h' = sh_len h \<and> length (sh_buf h') = 64 \<and>
    (sh_buf_len h' = 0 \<or> drop n input = [] \<and> sh_buf_len h' < 64) \<and>
    absorb sha_init (msg @ take n input) = (sh_state h', take (sh_buf_len h') (sh_buf h'))"
proof (cases "sh_buf_len h = 0")
  case True
  then show ?thesis using assms
    by (intro exI [of _ h] exI [of _ 0]) (simp add: sha_fill_def)
next
  case False
  define k where "k = sh_buf_len h"
  define n where "n = min (64 - k) (length input)"
  define buf where "buf = put_slice k (take n input) (sh_buf h)"
  have k: "k < 64" "k \<noteq> 0" using assms False by (simp_all add: k_def)
  have n: "length (take n input) = n" "k + n \<le> 64" using k by (auto simp: n_def)
  have tk: "take (k + n) buf = take k (sh_buf h) @ take n input"
    using take_put_slice [OF n(1)] k assms(1) by (simp add: buf_def)
  have b: "length buf = 64" using n assms(1) by (simp add: buf_def)
  define h2 where "h2 = h\<lparr>sh_buf := buf, sh_buf_len := k + n\<rparr>"
  have sim: "(sha_fill h input :: ('e, sha256 \<times> u8 list) res) = (if k + n = 64 then Ok ((sha_compress h2 buf)\<lparr>sh_buf_len := 0\<rparr>, drop n input)
      else Ok (h2, drop n input))"
    unfolding sha_fill_def Let_def k_def [symmetric] n_def [symmetric] copy_into_def n(1) assms(1)
      buf_def [symmetric]
    using k n(2) by (simp add: h2_def)
  have ab: "absorb sha_init (msg @ take n input) = absorb (sh_state h) (take (k + n) buf)"
    using absorb_continue [OF assms(3), of "take n input"] by (simp add: k_def [symmetric] tk)
  show ?thesis
  proof (cases "k + n = 64")
    case True
    then have "absorb (sh_state h) (take (k + n) buf) = (sha_compress_state (sh_state h) buf, [])"
      using absorb_block [OF b, of _ "[]"] b by (simp add: absorb_short)
    then show ?thesis
      using True b by (intro exI [of _ "(sha_compress h2 buf)\<lparr>sh_buf_len := 0\<rparr>"] exI [of _ n])
        (simp add: sim ab sha_compress_def h2_def)
  next
    case False
    then have "drop n input = []" "take n input = input"
      using k by (auto simp: n_def min_def split: if_splits)
    then show ?thesis
      using False n b ab by (intro exI [of _ h2] exI [of _ n]) (simp add: sim absorb_short h2_def)
  qed
qed

lemma absorbed_update:
  assumes "absorbed h msg"
  shows "\<exists>h'. (sha_update h input :: ('e, sha256) res) = Ok h' \<and> absorbed h' (msg @ input)"
proof -
  define h1 where "h1 = h\<lparr>sh_len := sh_len h + word_of_nat (length input)\<rparr>"
  have "length (sh_buf h1) = 64" "sh_buf_len h1 < 64"
    "absorb sha_init msg = (sh_state h1, take (sh_buf_len h1) (sh_buf h1))"
    using assms by (simp_all add: absorbed_def h1_def)
  from sha_fill_absorbed [OF this, of input] obtain h2 n where
    fill: "(sha_fill h1 input :: ('e, sha256 \<times> u8 list) res) = Ok (h2, drop n input)" and len: "sh_len h2 = sh_len h1"
    and h2: "length (sh_buf h2) = 64" "sh_buf_len h2 = 0 \<or> drop n input = [] \<and> sh_buf_len h2 < 64"
      "absorb sha_init (msg @ take n input) = (sh_state h2, take (sh_buf_len h2) (sh_buf h2))"
    by blast
  have "sh_len h2 = word_of_nat (length ((msg @ take n input) @ drop n input))"
    using assms by (simp add: len h1_def absorbed_def flip: of_nat_add)
  from absorbed_rest [where ?'e = 'e, OF h2 this] show ?thesis
    by (simp add: sha_update_def Let_def h1_def [symmetric] fill)
qed

text \<open>The padded last block or blocks, as \<open>finalize\<close> lays them out in the buffer.\<close>

lemma put_marker:
  assumes "k < 64" and "length buf = 64"
  shows "put_slice k [x] buf = take k buf @ x # drop (k + 1) buf"
  using assms by (simp add: put_slice_def)

lemma zero_after:
  assumes "length pre \<le> b" and "b \<le> length pre + length suf"
  shows "zero_range (length pre) b (pre @ suf) =
    Ok (pre @ replicate (b - length pre) 0 @ drop (b - length pre) suf)"
  using assms by (simp add: zero_range_def put_slice_def)

lemma padding_count:
  assumes "k < 64"
  shows "(119 - k) mod 64 = (if k < 56 then 55 - k else 119 - (k :: nat))"
proof (cases "k < 56")
  case True
  then have "119 - k = (55 - k) + 64" by simp
  then have "(119 - k) mod 64 = (55 - k) mod 64" by (metis mod_add_self2)
  then show ?thesis using True by simp
qed (use assms in simp)

lemma length_padding: "n mod 64 + length (sha_padding n) = (if n mod 64 < 56 then 64 else 128)"
proof -
  have "n mod 64 < 64" by simp
  then show ?thesis using padding_count [of "n mod 64"] unfolding sha_padding_def by auto
qed

lemma padding_zeros:
  assumes "k = n mod 64"
  shows "k < 56 \<Longrightarrow> sha_padding n = 0x80 # replicate (55 - k) 0 @ be_bytes 8 (8 * n mod 2 ^ 64)"
    "56 \<le> k \<Longrightarrow> sha_padding n = 0x80 # replicate (63 - k) 0 @ replicate 56 0 @ be_bytes 8 (8 * n mod 2 ^ 64)"
proof -
  have k: "k < 64" by (simp add: assms)
  show "k < 56 \<Longrightarrow> sha_padding n = 0x80 # replicate (55 - k) 0 @ be_bytes 8 (8 * n mod 2 ^ 64)"
    using padding_count [OF k] by (simp add: sha_padding_def assms)
  assume 56: "56 \<le> k"
  then have "replicate (119 - k) (0 :: u8) = replicate (63 - k) 0 @ replicate 56 0"
    using k by (simp flip: replicate_add)
  then show "sha_padding n = 0x80 # replicate (63 - k) 0 @ replicate 56 0 @ be_bytes 8 (8 * n mod 2 ^ 64)"
    using padding_count [OF k] 56 unfolding sha_padding_def assms [symmetric] by simp
qed

lemma bit_length_word: "unat (word_of_nat n * 8 :: u64) = 8 * n mod 2 ^ 64"
proof -
  have "(word_of_nat n * 8 :: u64) = word_of_nat (8 * n)" by (simp add: mult.commute)
  then show ?thesis by (simp only: unsigned_of_nat take_bit_eq_mod) simp
qed

lemma absorbed_finalize:
  assumes "absorbed h msg"
  shows "(sha_finalize h :: ('e, u8 list) res) = Ok (sha256_spec msg)"
proof -
  define k where "k = sh_buf_len h"
  define t where "t = take k (sh_buf h)"
  define L where "L = be_bytes 8 (8 * length msg mod 2 ^ 64)"
  have k: "k < 64" "k = length msg mod 64" and buf: "length (sh_buf h) = 64"
    and st: "absorb sha_init msg = (sh_state h, t)"
    using assms absorbed_buf_len [OF assms] by (simp_all add: absorbed_def k_def t_def)
  have len_t: "length t = k" using k buf by (simp add: t_def)
  have L: "be_bytes 8 (unat (sh_len h * 8)) = L" "length L = 8"
    using assms by (simp_all add: absorbed_def bit_length_word L_def del: of_nat_mult)
  have mark: "put_slice k [0x80] (sh_buf h) = t @ 0x80 # drop (k + 1) (sh_buf h)"
    unfolding t_def by (rule put_marker [OF k(1) buf])
  have z: "(zero_range (Suc k) b (t @ 0x80 # drop (Suc k) (sh_buf h)) :: ('e, u8 list) res) =
      Ok (t @ 0x80 # replicate (b - Suc k) 0 @ drop b (sh_buf h))"
    if "Suc k \<le> b" "b \<le> 64" for b
    using zero_after [of "t @ [0x80]" b "drop (Suc k) (sh_buf h)"] that len_t buf k by simp
  have put56: "(copy_into 56 L (pre @ suf) :: ('e, u8 list) res) = Ok (pre @ L)" if "length pre = 56" "length suf = 8" for pre suf
    using that L by (simp add: copy_into_def put_slice_def)
  have spec: "sha256_spec msg = concat (map (\<lambda>word. be_bytes 4 (unat word))
      (fst (absorb (sh_state h) (t @ sha_padding (length msg)))))"
    using absorb_continue [OF st] by (simp add: sha256_spec_def)
  show ?thesis
  proof (cases "k < 56")
    case True
    define B where "B = t @ 0x80 # replicate (55 - k) 0 @ L"
    have "length B = 64" using True len_t L by (simp add: B_def)
    moreover have "t @ sha_padding (length msg) = B @ []"
      using padding_zeros(1) [OF k(2) True] by (simp add: B_def L_def)
    ultimately have "fst (absorb (sh_state h) (t @ sha_padding (length msg))) =
        sha_compress_state (sh_state h) B"
      by (simp only: absorb_block) (simp add: absorb_short)
    moreover have "(copy_into 56 L (t @ 0x80 # replicate (55 - k) 0 @ drop 56 (sh_buf h)) :: ('e, u8 list) res) = Ok B"
      using put56 [of "t @ 0x80 # replicate (55 - k) 0" "drop 56 (sh_buf h)"] True len_t buf
      by (simp add: B_def)
    ultimately show ?thesis
      unfolding spec using True k buf z [of 56] mark
      by (simp add: sha_finalize_def k_def [symmetric] copy_into_def [of k] Let_def L sha_compress_def)
  next
    case False
    define B1 where "B1 = t @ 0x80 # replicate (63 - k) (0 :: u8)"
    define B2 where "B2 = replicate 56 0 @ L"
    have B: "length B1 = 64" "length B2 = 64" using False k len_t L by (simp_all add: B1_def B2_def)
    moreover have "t @ sha_padding (length msg) = B1 @ B2 @ []"
      using padding_zeros(2) [OF k(2)] False by (simp add: B1_def B2_def L_def)
    ultimately have "fst (absorb (sh_state h) (t @ sha_padding (length msg))) =
        sha_compress_state (sha_compress_state (sh_state h) B1) B2"
      by (simp only: absorb_block) (simp add: absorb_short)
    moreover have "(zero_range 0 56 B1 :: ('e, u8 list) res) = Ok (replicate 56 0 @ drop 56 B1)"
      using zero_after [of "[]" 56 B1] B by simp
    moreover have "(copy_into 56 L (replicate 56 0 @ drop 56 B1) :: ('e, u8 list) res) = Ok B2"
      using put56 [of "replicate 56 0" "drop 56 B1"] B by (simp add: B2_def)
    moreover have "(zero_range (Suc k) 64 (t @ 0x80 # drop (Suc k) (sh_buf h)) :: ('e, u8 list) res) = Ok B1"
      using z [of 64] k buf by (simp add: B1_def)
    moreover have "length (t @ 0x80 # drop (Suc k) (sh_buf h)) = 64" using k buf len_t by simp
    ultimately show ?thesis
      unfolding spec using False k buf mark
      by (simp add: sha_finalize_def k_def [symmetric] copy_into_def [of k] Let_def L sha_compress_def)
  qed
qed

lemma sha_update_chunks:
  "rbind (rfold (\<lambda>chunk h. sha_update h chunk) chunks sha_new) sha_finalize =
    (Ok (sha256_spec (concat chunks)) :: ('e, u8 list) res)"
proof -
  have "\<exists>h'. (rfold (\<lambda>chunk h. sha_update h chunk) chunks h :: ('e, sha256) res) = Ok h' \<and> absorbed h' (msg @ concat chunks)"
    if "absorbed h msg" for h msg
    using that
  proof (induction chunks arbitrary: h msg)
    case (Cons c chunks)
    obtain h' where "(sha_update h c :: ('e, sha256) res) = Ok h'" and "absorbed h' (msg @ c)"
      using absorbed_update [OF Cons.prems] by blast
    with Cons.IH show ?case by fastforce
  qed simp
  from this [OF absorbed_new] show ?thesis using absorbed_finalize by fastforce
qed

section \<open>Properties\<close>

text \<open>C35: The hasher computes the one-shot SHA-256 of everything it was given. However the
  input is cut into \<open>update\<close> calls, no call panics and \<open>finalize\<close> returns the digest of the
  concatenation.\<close>

theorem sha_incremental:
  "rbind (rfold (\<lambda>chunk h. sha_update h chunk) chunks sha_new) sha_finalize =
    (Ok (sha256_spec (concat chunks)) :: ('e, u8 list) res)"
  by (rule sha_update_chunks)

text \<open>The padded message is a whole number of blocks, and the digest has 32 bytes.\<close>

lemma padded_blocks: "64 dvd length (msg @ sha_padding (length msg))"
proof -
  have "length msg + length (sha_padding (length msg)) =
      length msg div 64 * 64 + (length msg mod 64 + length (sha_padding (length msg)))" by simp
  then show ?thesis unfolding length_append length_padding by (simp add: dvd_add_right_iff)
qed

lemma length_sha256_spec [simp]: "length (sha256_spec msg) = 32"
proof -
  have "length (fst (absorb st m)) = 8" if "length st = 8" for st m
    using that
    by (induction st m rule: absorb.induct, subst absorb.simps)
      (auto simp: sha_compress_state_def Let_def split: prod.splits)
  then have "length (fst (absorb sha_init m)) = 8" for m by (simp add: sha_init_def)
  moreover have "length (concat (map (\<lambda>word. be_bytes 4 (unat word)) xs)) = 4 * length xs" for xs :: "u32 list"
    by (induction xs) auto
  ultimately show ?thesis by (simp add: sha256_spec_def)
qed

end
