(* ===== verification/Float_Model.thy ===== *)
theory Float_Model
  imports Prelude
begin

text \<open>
  The binary floating-point numbers of Rust (\<open>f32\<close>, \<open>f64\<close>) as the words of
  their IEEE 754 interchange coding, with the operations the code uses: \<open>+ - * /\<close>,
  negation, \<open>sqrt\<close>, comparisons, \<open>is_finite\<close>, \<open>max\<close>, and the \<open>as\<close> casts between floats and
  integers. Every operation decodes its operands to a sign, a mantissa and an exponent,
  computes the exact result on integers (a quotient or root is cut with a sticky bit)
  and rounds once, to nearest with ties to even. A result that is not a number is the
  canonical quiet NaN. This is the language's arithmetic, not code of the repository.
\<close>

section \<open>Formats, decoding and rounding\<close>

datatype fp = Nan | Inf bool | Fin bool int int

text \<open>A format is the number \<open>mb\<close> of stored mantissa bits and \<open>eb\<close> of exponent bits;
  \<open>emin\<close> is the exponent of the last place of a subnormal number.\<close>

definition emin :: "nat \<Rightarrow> nat \<Rightarrow> int" where
  "emin mb eb = 2 - 2 ^ (eb - 1) - int mb"

definition fp_decode :: "nat \<Rightarrow> nat \<Rightarrow> int \<Rightarrow> fp" where
  "fp_decode mb eb bits =
    (let frac = bits mod 2 ^ mb; ex = bits div 2 ^ mb mod 2 ^ eb; neg = odd (bits div 2 ^ (mb + eb)) in
     if ex = 2 ^ eb - 1 then (if frac = 0 then Inf neg else Nan)
     else if ex = 0 then Fin neg frac (emin mb eb)
     else Fin neg (frac + 2 ^ mb) (ex - 1 + emin mb eb))"

definition sign_bits :: "nat \<Rightarrow> nat \<Rightarrow> bool \<Rightarrow> int" where
  "sign_bits mb eb neg = (if neg then 2 ^ (mb + eb) else 0)"

definition inf_bits :: "nat \<Rightarrow> nat \<Rightarrow> int" where
  "inf_bits mb eb = (2 ^ eb - 1) * 2 ^ mb"

definition nan_bits :: "nat \<Rightarrow> nat \<Rightarrow> int" where
  "nan_bits mb eb = inf_bits mb eb + 2 ^ (mb - 1)"

text \<open>The number of binary digits of a mantissa.\<close>

function bitlen :: "int \<Rightarrow> int" where
  "bitlen m = (if m \<le> 0 then 0 else 1 + bitlen (m div 2))"
  by auto
termination by (relation "measure nat") auto

declare bitlen.simps [simp del]

text \<open>\<open>m\<close> divided by \<open>2 ^ s\<close>, to nearest, ties to even.\<close>

definition shift_round :: "int \<Rightarrow> nat \<Rightarrow> int" where
  "shift_round m s =
    (if s = 0 then m
     else let n = m div 2 ^ s; r = m mod 2 ^ s; half = 2 ^ (s - 1) in
       if half < r \<or> r = half \<and> odd n then n + 1 else n)"

text \<open>The magnitude bits of the number nearest to \<open>m * 2 ^ e\<close> for \<open>m > 0\<close>: the mantissa is
  cut at the last place \<open>q\<close>, and a carry out of the mantissa moves into the exponent field
  by itself.\<close>

definition round_magnitude :: "nat \<Rightarrow> nat \<Rightarrow> int \<Rightarrow> int \<Rightarrow> int" where
  "round_magnitude mb eb m e =
    (let q = max (e + bitlen m - int mb - 1) (emin mb eb);
         n = (if q \<le> e then m * 2 ^ nat (e - q) else shift_round m (nat (q - e)))
     in min ((q - emin mb eb) * 2 ^ mb + n) (inf_bits mb eb))"

definition fp_round :: "nat \<Rightarrow> nat \<Rightarrow> bool \<Rightarrow> int \<Rightarrow> int \<Rightarrow> int" where
  "fp_round mb eb neg m e =
    sign_bits mb eb neg + (if m \<le> 0 then 0 else round_magnitude mb eb m e)"

section \<open>Operations\<close>

definition signed_mant :: "bool \<Rightarrow> int \<Rightarrow> int" where
  "signed_mant neg m = (if neg then - m else m)"

text \<open>The signed mantissas of two numbers at their common exponent.\<close>

definition align :: "int \<Rightarrow> int \<Rightarrow> int \<Rightarrow> int \<Rightarrow> int \<times> int \<times> int" where
  "align a e b f = (let c = min e f in (a * 2 ^ nat (e - c), b * 2 ^ nat (f - c), c))"

definition fp_add :: "nat \<Rightarrow> nat \<Rightarrow> fp \<Rightarrow> fp \<Rightarrow> int" where
  "fp_add mb eb x y =
    (case x of
       Nan \<Rightarrow> nan_bits mb eb
     | Inf s \<Rightarrow> (case y of Nan \<Rightarrow> nan_bits mb eb
         | Inf t \<Rightarrow> (if s = t then sign_bits mb eb s + inf_bits mb eb else nan_bits mb eb)
         | Fin t n f \<Rightarrow> sign_bits mb eb s + inf_bits mb eb)
     | Fin s m e \<Rightarrow> (case y of Nan \<Rightarrow> nan_bits mb eb
         | Inf t \<Rightarrow> sign_bits mb eb t + inf_bits mb eb
         | Fin t n f \<Rightarrow>
             (case align (signed_mant s m) e (signed_mant t n) f of (a, b, c) \<Rightarrow>
                if a + b = 0 then sign_bits mb eb (s \<and> t)
                else fp_round mb eb (a + b < 0) \<bar>a + b\<bar> c)))"

definition fp_mul :: "nat \<Rightarrow> nat \<Rightarrow> fp \<Rightarrow> fp \<Rightarrow> int" where
  "fp_mul mb eb x y =
    (case x of
       Nan \<Rightarrow> nan_bits mb eb
     | Inf s \<Rightarrow> (case y of Nan \<Rightarrow> nan_bits mb eb
         | Inf t \<Rightarrow> sign_bits mb eb (s \<noteq> t) + inf_bits mb eb
         | Fin t n f \<Rightarrow> (if n = 0 then nan_bits mb eb else sign_bits mb eb (s \<noteq> t) + inf_bits mb eb))
     | Fin s m e \<Rightarrow> (case y of Nan \<Rightarrow> nan_bits mb eb
         | Inf t \<Rightarrow> (if m = 0 then nan_bits mb eb else sign_bits mb eb (s \<noteq> t) + inf_bits mb eb)
         | Fin t n f \<Rightarrow> fp_round mb eb (s \<noteq> t) (m * n) (e + f)))"

text \<open>The quotient \<open>m / n\<close> cut after \<open>k\<close> binary places, with a sticky last bit.\<close>

definition sticky_quotient :: "int \<Rightarrow> int \<Rightarrow> nat \<Rightarrow> int" where
  "sticky_quotient m n k =
    (let q = m * 2 ^ k div n in 2 * q + (if m * 2 ^ k mod n = 0 then 0 else 1))"

definition round_quotient :: "nat \<Rightarrow> nat \<Rightarrow> bool \<Rightarrow> int \<Rightarrow> int \<Rightarrow> int \<Rightarrow> int" where
  "round_quotient mb eb neg m n e =
    (let k = nat (int mb + 3 + bitlen n) in
     fp_round mb eb neg (sticky_quotient m n k) (e - int k - 1))"

definition fp_div :: "nat \<Rightarrow> nat \<Rightarrow> fp \<Rightarrow> fp \<Rightarrow> int" where
  "fp_div mb eb x y =
    (case x of
       Nan \<Rightarrow> nan_bits mb eb
     | Inf s \<Rightarrow> (case y of Fin t n f \<Rightarrow> sign_bits mb eb (s \<noteq> t) + inf_bits mb eb
         | _ \<Rightarrow> nan_bits mb eb)
     | Fin s m e \<Rightarrow> (case y of Nan \<Rightarrow> nan_bits mb eb
         | Inf t \<Rightarrow> sign_bits mb eb (s \<noteq> t)
         | Fin t n f \<Rightarrow>
             (if n = 0 then (if m = 0 then nan_bits mb eb else sign_bits mb eb (s \<noteq> t) + inf_bits mb eb)
              else round_quotient mb eb (s \<noteq> t) m n (e - f))))"

text \<open>The integer square root, digit by digit.\<close>

function isqrt :: "int \<Rightarrow> int" where
  "isqrt n =
    (if n \<le> 0 then 0
     else let r = 2 * isqrt (n div 4) in if (r + 1) * (r + 1) \<le> n then r + 1 else r)"
  by auto
termination by (relation "measure nat") auto

declare isqrt.simps [simp del]

definition fp_sqrt :: "nat \<Rightarrow> nat \<Rightarrow> fp \<Rightarrow> int" where
  "fp_sqrt mb eb x =
    (case x of
       Nan \<Rightarrow> nan_bits mb eb
     | Inf s \<Rightarrow> (if s then nan_bits mb eb else inf_bits mb eb)
     | Fin s m e \<Rightarrow>
         (if m = 0 then sign_bits mb eb s else if s then nan_bits mb eb
          else
            let v = m * 2 ^ nat (2 * int mb + 8) * (if even e then 1 else 2);
                r = isqrt v;
                h = (if even e then e else e - 1) - (2 * int mb + 8)
            in fp_round mb eb False (2 * r + (if r * r = v then 0 else 1)) (h div 2 - 1)))"

text \<open>The order of two numbers, \<open>None\<close> when one is not a number.\<close>

datatype ordering = Less | Equal | Greater

definition fp_cmp :: "fp \<Rightarrow> fp \<Rightarrow> ordering option" where
  "fp_cmp x y =
    (case x of
       Nan \<Rightarrow> None
     | Inf s \<Rightarrow> (case y of Nan \<Rightarrow> None
         | Inf t \<Rightarrow> Some (if s = t then Equal else if s then Less else Greater)
         | Fin t n f \<Rightarrow> Some (if s then Less else Greater))
     | Fin s m e \<Rightarrow> (case y of Nan \<Rightarrow> None
         | Inf t \<Rightarrow> Some (if t then Greater else Less)
         | Fin t n f \<Rightarrow>
             (case align (signed_mant s m) e (signed_mant t n) f of (a, b, c) \<Rightarrow>
                Some (if a < b then Less else if a = b then Equal else Greater))))"

text \<open>Truncation toward zero, and the saturating cast to an integer range (NaN gives 0).\<close>

definition trunc_fin :: "bool \<Rightarrow> int \<Rightarrow> int \<Rightarrow> int" where
  "trunc_fin s m e =
    signed_mant s (if 0 \<le> e then m * 2 ^ nat e else m div 2 ^ nat (- e))"

definition fp_to_int :: "int \<Rightarrow> int \<Rightarrow> fp \<Rightarrow> int" where
  "fp_to_int lo hi x =
    (case x of Nan \<Rightarrow> 0 | Inf s \<Rightarrow> (if s then lo else hi)
     | Fin s m e \<Rightarrow> max lo (min hi (trunc_fin s m e)))"

definition fp_of_int :: "nat \<Rightarrow> nat \<Rightarrow> int \<Rightarrow> int" where
  "fp_of_int mb eb i = fp_round mb eb (i < 0) \<bar>i\<bar> 0"

definition fp_convert :: "nat \<Rightarrow> nat \<Rightarrow> fp \<Rightarrow> int" where
  "fp_convert mb eb x =
    (case x of Nan \<Rightarrow> nan_bits mb eb | Inf s \<Rightarrow> sign_bits mb eb s + inf_bits mb eb
     | Fin s m e \<Rightarrow> fp_round mb eb s m e)"

section \<open>Single precision\<close>

type_synonym f32 = "32 word"

definition dec32 :: "f32 \<Rightarrow> fp" where "dec32 x = fp_decode 23 8 (uint x)"

definition f32_add :: "f32 \<Rightarrow> f32 \<Rightarrow> f32" where
  "f32_add x y = word_of_int (fp_add 23 8 (dec32 x) (dec32 y))"
definition f32_neg :: "f32 \<Rightarrow> f32" where "f32_neg x = x XOR 0x80000000"
definition f32_sub :: "f32 \<Rightarrow> f32 \<Rightarrow> f32" where "f32_sub x y = f32_add x (f32_neg y)"
definition f32_mul :: "f32 \<Rightarrow> f32 \<Rightarrow> f32" where
  "f32_mul x y = word_of_int (fp_mul 23 8 (dec32 x) (dec32 y))"
definition f32_div :: "f32 \<Rightarrow> f32 \<Rightarrow> f32" where
  "f32_div x y = word_of_int (fp_div 23 8 (dec32 x) (dec32 y))"
definition f32_sqrt :: "f32 \<Rightarrow> f32" where
  "f32_sqrt x = word_of_int (fp_sqrt 23 8 (dec32 x))"
definition f32_lt :: "f32 \<Rightarrow> f32 \<Rightarrow> bool" where "f32_lt x y \<longleftrightarrow> fp_cmp (dec32 x) (dec32 y) = Some Less"
definition f32_eq :: "f32 \<Rightarrow> f32 \<Rightarrow> bool" where "f32_eq x y \<longleftrightarrow> fp_cmp (dec32 x) (dec32 y) = Some Equal"
definition f32_le :: "f32 \<Rightarrow> f32 \<Rightarrow> bool" where "f32_le x y \<longleftrightarrow> f32_lt x y \<or> f32_eq x y"
definition f32_is_nan :: "f32 \<Rightarrow> bool" where "f32_is_nan x \<longleftrightarrow> dec32 x = Nan"
definition f32_is_finite :: "f32 \<Rightarrow> bool" where
  "f32_is_finite x \<longleftrightarrow> (case dec32 x of Fin s m e \<Rightarrow> True | _ \<Rightarrow> False)"
definition f32_max :: "f32 \<Rightarrow> f32 \<Rightarrow> f32" where
  "f32_max x y = (if f32_is_nan x then y else if f32_is_nan y then x else if f32_lt x y then y else x)"
definition f32_of_int :: "int \<Rightarrow> f32" where "f32_of_int i = word_of_int (fp_of_int 23 8 i)"
definition f32_to_int :: "int \<Rightarrow> int \<Rightarrow> f32 \<Rightarrow> int" where "f32_to_int lo hi x = fp_to_int lo hi (dec32 x)"

text \<open>The literal \<open>num / den\<close>, rounded to nearest as the compiler does.\<close>

definition f32_lit :: "int \<Rightarrow> int \<Rightarrow> f32" where
  "f32_lit num den = word_of_int (round_quotient 23 8 (num < 0) \<bar>num\<bar> den 0)"

definition f32_to_i32 :: "f32 \<Rightarrow> int" where "f32_to_i32 = f32_to_int (- (2 ^ 31)) (2 ^ 31 - 1)"
definition f32_to_u32 :: "f32 \<Rightarrow> u32" where "f32_to_u32 x = word_of_int (f32_to_int 0 (2 ^ 32 - 1) x)"

section \<open>Double precision\<close>

type_synonym f64 = "64 word"

definition dec64 :: "f64 \<Rightarrow> fp" where "dec64 x = fp_decode 52 11 (uint x)"

definition f64_add :: "f64 \<Rightarrow> f64 \<Rightarrow> f64" where
  "f64_add x y = word_of_int (fp_add 52 11 (dec64 x) (dec64 y))"
definition f64_neg :: "f64 \<Rightarrow> f64" where "f64_neg x = x XOR 0x8000000000000000"
definition f64_sub :: "f64 \<Rightarrow> f64 \<Rightarrow> f64" where "f64_sub x y = f64_add x (f64_neg y)"
definition f64_mul :: "f64 \<Rightarrow> f64 \<Rightarrow> f64" where
  "f64_mul x y = word_of_int (fp_mul 52 11 (dec64 x) (dec64 y))"
definition f64_div :: "f64 \<Rightarrow> f64 \<Rightarrow> f64" where
  "f64_div x y = word_of_int (fp_div 52 11 (dec64 x) (dec64 y))"
definition f64_lt :: "f64 \<Rightarrow> f64 \<Rightarrow> bool" where "f64_lt x y \<longleftrightarrow> fp_cmp (dec64 x) (dec64 y) = Some Less"
definition f64_eq :: "f64 \<Rightarrow> f64 \<Rightarrow> bool" where "f64_eq x y \<longleftrightarrow> fp_cmp (dec64 x) (dec64 y) = Some Equal"
definition f64_le :: "f64 \<Rightarrow> f64 \<Rightarrow> bool" where "f64_le x y \<longleftrightarrow> f64_lt x y \<or> f64_eq x y"
definition f64_is_nan :: "f64 \<Rightarrow> bool" where "f64_is_nan x \<longleftrightarrow> dec64 x = Nan"
definition f64_is_finite :: "f64 \<Rightarrow> bool" where
  "f64_is_finite x \<longleftrightarrow> (case dec64 x of Fin s m e \<Rightarrow> True | _ \<Rightarrow> False)"
definition f64_of_int :: "int \<Rightarrow> f64" where "f64_of_int i = word_of_int (fp_of_int 52 11 i)"
definition f64_to_int :: "int \<Rightarrow> int \<Rightarrow> f64 \<Rightarrow> int" where "f64_to_int lo hi x = fp_to_int lo hi (dec64 x)"
definition f64_to_i32 :: "f64 \<Rightarrow> int" where "f64_to_i32 = f64_to_int (- (2 ^ 31)) (2 ^ 31 - 1)"
definition f64_to_i64 :: "f64 \<Rightarrow> int" where "f64_to_i64 = f64_to_int (- (2 ^ 63)) (2 ^ 63 - 1)"
definition f64_lit :: "int \<Rightarrow> int \<Rightarrow> f64" where
  "f64_lit num den = word_of_int (round_quotient 52 11 (num < 0) \<bar>num\<bar> den 0)"

definition f32_of_f64 :: "f64 \<Rightarrow> f32" where "f32_of_f64 x = word_of_int (fp_convert 23 8 (dec64 x))"
definition f64_of_f32 :: "f32 \<Rightarrow> f64" where "f64_of_f32 x = word_of_int (fp_convert 52 11 (dec32 x))"

end
