(* ===== verification/Float_Facts.thy ===== *)
theory Float_Facts
  imports Complex_Main Float_Model
begin

text \<open>
  Facts on the floating-point model that the components use: what a packed number decodes
  to, that a number with few enough digits is rounded to itself, and what this gives for
  sums, comparisons and casts of exactly representable values.
\<close>

section \<open>Values\<close>

text \<open>The rational number a finite decoding stands for.\<close>

definition rval :: "bool \<Rightarrow> int \<Rightarrow> int \<Rightarrow> rat" where
  "rval s m e = of_int (signed_mant s m) * 2 powi e"

lemma rval_zero [simp]: "rval s 0 e = 0"
  by (simp add: rval_def signed_mant_def)

lemma pow2_rat_pos [simp]: "(0 :: rat) < 2 powi e"
  by simp

lemma pow2_split: "c \<le> e \<Longrightarrow> (2 :: rat) powi e = 2 ^ nat (e - c) * 2 powi c"
  by (metis diff_add_cancel diff_ge_0_iff_ge nat_0_le power_int_add
      power_int_of_nat zero_neq_numeral)

lemma rval_align: "c \<le> e \<Longrightarrow> rval s m e = of_int (signed_mant s m * 2 ^ nat (e - c)) * 2 powi c"
  by (simp add: rval_def pow2_split [of c e])

lemma signed_mant_abs [simp]: "signed_mant (a < 0) \<bar>a\<bar> = a"
  by (simp add: signed_mant_def)

section \<open>The fields of a coding\<close>

lemma bits_fields:
  fixes E f :: int
  assumes "0 \<le> f" "f < 2 ^ mb" "0 \<le> E" "E < 2 ^ eb"
  shows "(sign_bits mb eb s + (E * 2 ^ mb + f)) mod 2 ^ mb = f"
    "(sign_bits mb eb s + (E * 2 ^ mb + f)) div 2 ^ mb mod 2 ^ eb = E"
    "odd ((sign_bits mb eb s + (E * 2 ^ mb + f)) div 2 ^ (mb + eb)) = s"
proof -
  define S :: int where "S = (if s then 1 else 0)"
  have bits: "sign_bits mb eb s + (E * 2 ^ mb + f) = f + 2 ^ mb * (E + 2 ^ eb * S)"
    by (simp add: sign_bits_def S_def algebra_simps power_add)
  have d: "(sign_bits mb eb s + (E * 2 ^ mb + f)) div 2 ^ mb = E + 2 ^ eb * S"
    unfolding bits using assms by simp
  show "(sign_bits mb eb s + (E * 2 ^ mb + f)) mod 2 ^ mb = f"
    unfolding bits using assms by simp
  show "(sign_bits mb eb s + (E * 2 ^ mb + f)) div 2 ^ mb mod 2 ^ eb = E"
    unfolding d using assms by simp
  have "(sign_bits mb eb s + (E * 2 ^ mb + f)) div 2 ^ (mb + eb) = S"
    unfolding power_add using d assms by (simp add: zdiv_zmult2_eq)
  then show "odd ((sign_bits mb eb s + (E * 2 ^ mb + f)) div 2 ^ (mb + eb)) = s"
    by (simp add: S_def)
qed

lemma decode_fields:
  fixes E f :: int
  assumes "0 \<le> f" "f < 2 ^ mb" "0 \<le> E" "E < 2 ^ eb - 1"
  shows "fp_decode mb eb (sign_bits mb eb s + (E * 2 ^ mb + f)) =
    (if E = 0 then Fin s f (emin mb eb) else Fin s (f + 2 ^ mb) (E - 1 + emin mb eb))"
proof -
  have "E < 2 ^ eb" using assms by simp
  from bits_fields [OF assms(1,2,3) this] show ?thesis
    using assms by (simp add: fp_decode_def Let_def)
qed

text \<open>A mantissa \<open>n\<close> at the last place \<open>q\<close>, packed, decodes to the value \<open>n * 2 ^ q\<close>.\<close>

lemma decode_pack:
  fixes n q :: int
  assumes "0 \<le> n" "n \<le> 2 ^ (mb + 1)" "emin mb eb \<le> q" "2 ^ mb \<le> n \<or> q = emin mb eb"
    and "(q - emin mb eb) * 2 ^ mb + n < inf_bits mb eb"
  shows "\<exists>m' e'. fp_decode mb eb (sign_bits mb eb s + ((q - emin mb eb) * 2 ^ mb + n)) = Fin s m' e' \<and>
    rval s m' e' = rval s n q \<and> 0 \<le> m' \<and> m' < 2 ^ (mb + 1)"
proof -
  define d where "d = q - emin mb eb"
  have d: "0 \<le> d" using assms by (simp add: d_def)
  consider (sub) "n < 2 ^ mb" "d = 0" | (norm) "2 ^ mb \<le> n" "n < 2 ^ (mb + 1)" | (carry) "n = 2 ^ (mb + 1)"
    using assms d_def by force
  then show ?thesis
  proof cases
    case sub
    have "(2 :: int) ^ mb * 1 \<le> 2 ^ mb * (2 ^ eb - 1) \<or> eb = 0" by auto
    moreover have "0 < (2 :: int) ^ eb - 1" using assms(1,5) sub d_def
      by (cases "eb = 0") (auto simp: inf_bits_def)
    ultimately show ?thesis
      using decode_fields [of n mb 0 eb s] assms(1) sub d_def by simp
  next
    case norm
    have bits: "d * 2 ^ mb + n = (d + 1) * 2 ^ mb + (n - 2 ^ mb)" by (simp add: algebra_simps)
    have "(d + 1) * 2 ^ mb < (2 ^ eb - 1) * 2 ^ mb"
      using assms(5) norm unfolding d_def [symmetric] bits inf_bits_def by linarith
    then have "d + 1 < 2 ^ eb - 1" by simp
    then show ?thesis
      using decode_fields [of "n - 2 ^ mb" mb "d + 1" eb s] norm d assms(1)
      unfolding d_def [symmetric] bits by (simp add: d_def)
  next
    case carry
    have bits: "d * 2 ^ mb + n = (d + 2) * 2 ^ mb + 0" by (simp add: algebra_simps carry)
    have "(d + 2) * 2 ^ mb < (2 ^ eb - 1) * 2 ^ mb"
      using assms(5) unfolding d_def [symmetric] bits inf_bits_def by linarith
    then have "d + 2 < 2 ^ eb - 1" by simp
    moreover have "rval s (2 ^ mb) (q + 1) = rval s n q"
      by (simp add: carry rval_def signed_mant_def power_int_add)
    ultimately show ?thesis
      using decode_fields [of 0 mb "d + 2" eb s] d
      unfolding d_def [symmetric] bits by (simp add: d_def algebra_simps)
  qed
qed

section \<open>Rounding representable numbers\<close>

lemma bitlen_bounds:
  assumes "0 < m"
  shows "1 \<le> bitlen m \<and> 2 ^ nat (bitlen m - 1) \<le> m \<and> m < 2 ^ nat (bitlen m)"
  using assms
proof (induction m rule: bitlen.induct)
  case (1 m)
  show ?case
  proof (cases "m = 1")
    case False
    then have h: "0 < m div 2" using 1(2) by simp
    with 1 have IH: "1 \<le> bitlen (m div 2)" "2 ^ nat (bitlen (m div 2) - 1) \<le> m div 2"
      "m div 2 < 2 ^ nat (bitlen (m div 2))" by auto
    have b: "bitlen m = 1 + bitlen (m div 2)" using 1(2) by (subst bitlen.simps) simp
    define k where "k = nat (bitlen (m div 2) - 1)"
    have k: "nat (bitlen (m div 2)) = Suc k" "nat (bitlen m - 1) = Suc k" "nat (bitlen m) = Suc (Suc k)"
      using IH(1) b by (simp_all add: k_def)
    have "2 ^ k \<le> m div 2" "m div 2 < 2 * 2 ^ k" using IH k k_def by simp_all
    moreover have "m = 2 * (m div 2) + m mod 2" "0 \<le> m mod 2" "m mod 2 < 2" by simp_all
    ultimately have "2 * 2 ^ k \<le> m" "m < 4 * 2 ^ k" by linarith+
    then show ?thesis unfolding k using b IH(1) by simp
  qed (simp add: bitlen.simps [of 1] bitlen.simps [of 0])
qed

lemma bitlen_le:
  assumes "0 \<le> m" "m < 2 ^ n"
  shows "bitlen m \<le> int n"
proof (cases "m = 0")
  case True
  then show ?thesis by (simp add: bitlen.simps)
next
  case False
  then have "2 ^ nat (bitlen m - 1) \<le> m" and b: "1 \<le> bitlen m"
    using bitlen_bounds [of m] assms by auto
  then have "2 ^ nat (bitlen m - 1) < (2 :: int) ^ n" using assms(2) by (meson le_less_trans)
  then have "nat (bitlen m - 1) < n" by (rule power_less_imp_less_exp [rotated]) simp
  with b show ?thesis by simp
qed

lemma round_exact:
  assumes "0 \<le> m" "m < 2 ^ (mb + 1)" "emin mb eb \<le> e" "e + bitlen m \<le> 2 ^ (eb - 1)" and "2 \<le> eb"
  shows "\<exists>m' e'. fp_decode mb eb (fp_round mb eb s m e) = Fin s m' e' \<and> rval s m' e' = rval s m e \<and>
    0 \<le> m' \<and> m' < 2 ^ (mb + 1)"
proof (cases "m = 0")
  case True
  have "(2 :: int) ^ 2 \<le> 2 ^ eb" using assms(5) by (intro power_increasing) auto
  then have "(0 :: int) < 2 ^ eb - 1" by simp
  then show ?thesis
    using True decode_fields [of 0 mb 0 eb s] by (simp add: fp_round_def)
next
  case False
  define b where "b = nat (bitlen m)"
  have m: "0 < m" "1 \<le> b" "2 ^ (b - 1) \<le> m" "m < 2 ^ b" "bitlen m = int b" "b \<le> mb + 1"
    using bitlen_bounds [of m] assms False bitlen_le [of m "mb + 1"] b_def by (auto simp: nat_diff_distrib)
  define q where "q = max (e + int b - int mb - 1) (emin mb eb)"
  define n where "n = m * 2 ^ nat (e - q)"
  have q: "q \<le> e" "emin mb eb \<le> q" using assms(3) m(6) by (simp_all add: q_def)
  have n: "0 \<le> n" "n < 2 ^ (mb + 1)"
  proof -
    show "0 \<le> n" using m by (simp add: n_def)
    have "b + nat (e - q) \<le> mb + 1" using q m by (auto simp: q_def)
    then have "(2 :: int) ^ (b + nat (e - q)) \<le> 2 ^ (mb + 1)" by (intro power_increasing) auto
    moreover have "n < 2 ^ b * 2 ^ nat (e - q)" using m by (simp add: n_def)
    ultimately show "n < 2 ^ (mb + 1)" by (simp add: power_add)
  qed
  have big: "2 ^ mb \<le> n \<or> q = emin mb eb"
  proof (cases "q = emin mb eb")
    case False
    then have "q = e + int b - int mb - 1" by (simp add: q_def max_def split: if_splits)
    then have "(b - 1) + nat (e - q) = mb" using m by simp
    then have "(2 :: int) ^ mb = 2 ^ (b - 1) * 2 ^ nat (e - q)" by (metis power_add)
    also have "\<dots> \<le> n" using m by (simp add: n_def)
    finally show ?thesis by simp
  qed simp
  have two: "(2 :: int) ^ eb = 2 * 2 ^ (eb - 1)" using assms(5) by (cases eb) auto
  have four: "(2 :: int) ^ 1 \<le> 2 ^ (eb - 1)" using assms(5) by (intro power_increasing) auto
  have "q - emin mb eb \<le> 2 ^ eb - 3"
  proof (cases "q = emin mb eb")
    case False
    then have "q = e + int b - int mb - 1" by (simp add: q_def max_def split: if_splits)
    then show ?thesis using assms(4) m two by (simp add: emin_def)
  qed (use two four in simp)
  then have "(q - emin mb eb) * 2 ^ mb \<le> (2 ^ eb - 3) * 2 ^ mb" by simp
  then have inf: "(q - emin mb eb) * 2 ^ mb + n < inf_bits mb eb"
    using n unfolding inf_bits_def by (simp add: algebra_simps)
  have "fp_round mb eb s m e = sign_bits mb eb s + ((q - emin mb eb) * 2 ^ mb + n)"
    using m q inf unfolding fp_round_def round_magnitude_def Let_def
    by (simp add: q_def [symmetric] n_def)
  moreover have "rval s n q = rval s m e"
    using pow2_split [OF q(1)] by (simp add: rval_def n_def signed_mant_def)
  ultimately show ?thesis
    using decode_pack [of n mb eb q s] n q big inf by auto
qed

section \<open>Exact sums, comparisons and casts\<close>

lemma rval_signed: "rval s m e = (if s then - of_int m else of_int m) * 2 powi e"
  by (simp add: rval_def signed_mant_def)

lemma rval_neg: "rval (\<not> s) m e = - rval s m e"
  by (simp add: rval_signed)

lemma align_value:
  assumes "align a e b f = (a', b', c)"
  shows "of_int a * (2 :: rat) powi e = of_int a' * 2 powi c" "of_int b * (2 :: rat) powi f = of_int b' * 2 powi c"
    "c = min e f"
  using assms pow2_split [of "min e f" e] pow2_split [of "min e f" f]
  by (auto simp: align_def Let_def)

text \<open>Comparison of finite numbers is comparison of their values.\<close>

lemma fp_cmp_value:
  "fp_cmp (Fin s m e) (Fin t n f) =
    Some (if rval s m e < rval t n f then Less else if rval s m e = rval t n f then Equal else Greater)"
proof -
  obtain a b c where al: "align (signed_mant s m) e (signed_mant t n) f = (a, b, c)"
    by (cases "align (signed_mant s m) e (signed_mant t n) f") auto
  have "rval s m e = of_int a * 2 powi c" "rval t n f = of_int b * 2 powi c"
    using align_value [OF al] by (simp_all add: rval_def)
  then show ?thesis using al by (simp add: fp_cmp_def)
qed

text \<open>Rounding depends on the value only, not on how it is split into mantissa and exponent.\<close>

lemma bitlen_double: "0 < y \<Longrightarrow> bitlen (y * 2) = 1 + bitlen y"
  by (subst bitlen.simps) simp

lemma bitlen_scale: "0 < m \<Longrightarrow> bitlen (m * 2 ^ k) = bitlen m + int k"
proof (induction k)
  case (Suc k)
  have "bitlen (m * 2 ^ k * 2) = 1 + bitlen (m * 2 ^ k)"
    using Suc.prems by (intro bitlen_double) simp
  moreover have "m * 2 ^ Suc k = m * 2 ^ k * 2" by simp
  ultimately have "bitlen (m * 2 ^ Suc k) = 1 + bitlen (m * 2 ^ k)" by (simp only:)
  then show ?case using Suc by simp
qed simp

lemma shift_round_scale: "shift_round (m * 2 ^ k) (k + s) = shift_round m s"
proof (cases "k = 0 \<or> s = 0")
  case True
  have "shift_round (m * 2 ^ k) k = m" if "k \<noteq> 0"
    using that by (simp add: shift_round_def Let_def)
  then show ?thesis using True by (cases "k = 0") (auto simp: shift_round_def)
next
  case False
  then have s: "(2 :: int) ^ (k + s - 1) = 2 ^ k * 2 ^ (s - 1)" "0 < s" by (simp_all flip: power_add)
  have "m * 2 ^ k div 2 ^ (k + s) = m div 2 ^ s" by (simp add: power_add)
  moreover have "m * 2 ^ k mod 2 ^ (k + s) = 2 ^ k * (m mod 2 ^ s)"
    unfolding power_add mult_mod_right by (simp only: mult.commute)
  ultimately show ?thesis using s by (simp add: shift_round_def Let_def)
qed

lemma shift_round_exact: "s \<le> k \<Longrightarrow> shift_round (m * 2 ^ k) s = m * 2 ^ (k - s)"
  using shift_round_scale [of "m * 2 ^ (k - s)" s 0]
  by (simp add: shift_round_def mult.assoc flip: power_add)

lemma round_magnitude_scale:
  assumes "0 < m"
  shows "round_magnitude mb eb (m * 2 ^ k) e = round_magnitude mb eb m (e + int k)"
proof -
  define q where "q = max (e + int k + bitlen m - int mb - 1) (emin mb eb)"
  have q: "max (e + bitlen (m * 2 ^ k) - int mb - 1) (emin mb eb) = q"
    by (simp add: bitlen_scale assms q_def algebra_simps)
  have "(if q \<le> e then m * 2 ^ k * 2 ^ nat (e - q) else shift_round (m * 2 ^ k) (nat (q - e))) =
    (if q \<le> e + int k then m * 2 ^ nat (e + int k - q) else shift_round m (nat (q - (e + int k))))"
  proof -
    consider "q \<le> e" | "e < q" "q \<le> e + int k" | "e + int k < q" by linarith
    then show ?thesis
    proof cases
      case 1
      then have "k + nat (e - q) = nat (e + int k - q)" by simp
      then show ?thesis using 1 by (simp add: mult.assoc flip: power_add)
    next
      case 2
      then have "nat (q - e) \<le> k" "k - nat (q - e) = nat (e + int k - q)" by simp_all
      then show ?thesis using 2 by (simp add: shift_round_exact)
    next
      case 3
      then have "nat (q - e) = k + nat (q - (e + int k))" by simp
      then show ?thesis using 3 by (simp add: shift_round_scale)
    qed
  qed
  then show ?thesis unfolding round_magnitude_def Let_def q q_def [symmetric] by simp
qed

lemma fp_round_value:
  assumes "0 < m" "0 < n" "of_int m * (2 :: rat) powi e = of_int n * 2 powi c"
  shows "fp_round mb eb s m e = fp_round mb eb s n c"
proof -
  have *: "fp_round mb eb s m e = fp_round mb eb s n c"
    if "0 < m" "0 < n" "of_int m * (2 :: rat) powi e = of_int n * 2 powi c" "e \<le> c" for m n e c
  proof -
    have "of_int m * (2 :: rat) powi e = of_int (n * 2 ^ nat (c - e)) * 2 powi e"
      using that pow2_split [of e c] by simp
    then have "m = n * 2 ^ nat (c - e)" by (metis mult_right_cancel of_int_eq_iff pow2_rat_pos less_irrefl)
    then have "round_magnitude mb eb m e = round_magnitude mb eb n c"
      using that round_magnitude_scale [of n mb eb "nat (c - e)" e] by simp
    then show ?thesis using that(1,2) by (simp add: fp_round_def)
  qed
  show ?thesis using *[of m n e c] *[of n m c e] assms by (cases "e \<le> c") auto
qed

text \<open>The codings stay below the width of the word.\<close>

lemma fp_round_range:
  "0 \<le> fp_round mb eb s m e \<and> fp_round mb eb s m e < 2 ^ (mb + eb + 1)"
proof -
  define q where "q = max (e + bitlen m - int mb - 1) (emin mb eb)"
  have n: "0 \<le> (if q \<le> e then m * 2 ^ nat (e - q) else shift_round m (nat (q - e)))" if "0 < m"
    using that by (auto simp: shift_round_def Let_def pos_imp_zdiv_nonneg_iff)
  have "emin mb eb \<le> q" by (simp add: q_def)
  then have "0 \<le> round_magnitude mb eb m e" if "0 < m"
    using n [OF that] by (simp add: round_magnitude_def Let_def q_def [symmetric] inf_bits_def)
  moreover have "round_magnitude mb eb m e \<le> inf_bits mb eb"
    by (simp add: round_magnitude_def Let_def)
  moreover have "inf_bits mb eb < 2 ^ (mb + eb)" by (simp add: inf_bits_def power_add)
  moreover have "(0 :: int) < 2 ^ (mb + eb)" by simp
  ultimately show ?thesis by (auto simp: fp_round_def sign_bits_def not_le)
qed

text \<open>A number is representable when it is a short mantissa at an exponent in range.\<close>

definition representable :: "nat \<Rightarrow> nat \<Rightarrow> rat \<Rightarrow> bool" where
  "representable mb eb r \<longleftrightarrow> (\<exists>v c. r = of_int v * 2 powi c \<and> \<bar>v\<bar> < 2 ^ (mb + 1) \<and> emin mb eb \<le> c \<and>
    c + int mb + 1 \<le> 2 ^ (eb - 1))"

definition decodes_to :: "nat \<Rightarrow> nat \<Rightarrow> int \<Rightarrow> rat \<Rightarrow> bool" where
  "decodes_to mb eb bits r \<longleftrightarrow> (\<exists>s m e. fp_decode mb eb bits = Fin s m e \<and> rval s m e = r) \<and>
    0 \<le> bits \<and> bits < 2 ^ (mb + eb + 1)"

lemma decodes_to_zero: "2 \<le> eb \<Longrightarrow> decodes_to mb eb (sign_bits mb eb s) 0"
proof -
  assume "2 \<le> eb"
  then have "(2 :: int) ^ 2 \<le> 2 ^ eb" by (intro power_increasing) auto
  then have "(0 :: int) < 2 ^ eb - 1" by simp
  then show ?thesis using decode_fields [of 0 mb 0 eb s] by (auto simp: decodes_to_def sign_bits_def)
qed

lemma round_representable:
  assumes "representable mb eb r" "rval s m e = r" "0 \<le> m" "2 \<le> eb"
  shows "decodes_to mb eb (fp_round mb eb s m e) r"
proof (cases "m = 0")
  case True
  then show ?thesis using assms(2) decodes_to_zero [OF assms(4), of mb s] by (auto simp: fp_round_def)
next
  case False
  obtain v c where v: "r = of_int v * 2 powi c" "\<bar>v\<bar> < 2 ^ (mb + 1)" "emin mb eb \<le> c"
    "c + int mb + 1 \<le> 2 ^ (eb - 1)" using assms(1) by (auto simp: representable_def)
  have "\<bar>r\<bar> = of_int m * 2 powi e" using assms(2,3) by (auto simp: rval_def signed_mant_def abs_mult)
  moreover have "\<bar>r\<bar> = of_int \<bar>v\<bar> * 2 powi c" using v(1) by (simp add: abs_mult)
  ultimately have eq: "of_int m * (2 :: rat) powi e = of_int \<bar>v\<bar> * 2 powi c" by simp
  have m: "0 < m" using assms(3) False by simp
  then have "(0 :: rat) < of_int \<bar>v\<bar> * 2 powi c" using eq by (metis mult_pos_pos of_int_0_less_iff pow2_rat_pos)
  then have vp: "0 < \<bar>v\<bar>" by (auto simp: zero_less_mult_iff)
  have "bitlen \<bar>v\<bar> \<le> int (mb + 1)" using bitlen_le [of "\<bar>v\<bar>" "mb + 1"] v(2) by simp
  then have "c + bitlen \<bar>v\<bar> \<le> 2 ^ (eb - 1)" using v(4) by simp
  from round_exact [OF _ v(2,3) this assms(4), of s] obtain m' e' where
    "fp_decode mb eb (fp_round mb eb s \<bar>v\<bar> c) = Fin s m' e'" "rval s m' e' = rval s \<bar>v\<bar> c" by auto
  moreover have "rval s \<bar>v\<bar> c = r"
    using eq assms(2) by (simp add: rval_def signed_mant_def split: if_splits)
  ultimately show ?thesis
    using fp_round_value [OF m vp eq] fp_round_range by (simp add: decodes_to_def)
qed

text \<open>A sum whose exact value is representable is that value.\<close>

lemma fp_add_exact:
  assumes "representable mb eb (rval s m e + rval t n f)" "2 \<le> eb"
  shows "decodes_to mb eb (fp_add mb eb (Fin s m e) (Fin t n f)) (rval s m e + rval t n f)"
proof -
  obtain a b d where al: "align (signed_mant s m) e (signed_mant t n) f = (a, b, d)"
    by (cases "align (signed_mant s m) e (signed_mant t n) f") auto
  have val: "rval s m e + rval t n f = of_int (a + b) * 2 powi d"
    unfolding rval_def align_value(1,2) [OF al] by (simp add: distrib_right)
  show ?thesis
  proof (cases "a + b = 0")
    case True
    then show ?thesis using al val decodes_to_zero [OF assms(2)] by (simp add: fp_add_def)
  next
    case False
    have "rval (a + b < 0) \<bar>a + b\<bar> d = rval s m e + rval t n f"
      unfolding val by (simp add: rval_def)
    from round_representable [OF assms(1) this _ assms(2)] show ?thesis
      using False al by (simp add: fp_add_def)
  qed
qed

lemma fp_mul_exact:
  assumes "representable mb eb (rval s m e * rval t n f)" "2 \<le> eb" "0 \<le> m" "0 \<le> n"
  shows "decodes_to mb eb (fp_mul mb eb (Fin s m e) (Fin t n f)) (rval s m e * rval t n f)"
proof -
  have "rval (s \<noteq> t) (m * n) (e + f) = rval s m e * rval t n f"
    by (auto simp: rval_def signed_mant_def power_int_add)
  then show ?thesis using round_representable [OF assms(1) _ _ assms(2)] assms(3,4)
    by (simp add: fp_mul_def)
qed

lemma fp_of_int_exact:
  assumes "\<bar>i\<bar> < 2 ^ (mb + 1)" "emin mb eb \<le> 0" "int mb + 1 \<le> 2 ^ (eb - 1)" "2 \<le> eb"
  shows "decodes_to mb eb (fp_of_int mb eb i) (of_int i)"
proof -
  have "representable mb eb (of_int i)"
    unfolding representable_def using assms by (intro exI [of _ i] exI [of _ 0]) simp
  moreover have "rval (i < 0) \<bar>i\<bar> 0 = of_int i" by (simp add: rval_def)
  ultimately show ?thesis unfolding fp_of_int_def using round_representable [OF _ _ _ assms(4)] by simp
qed

section \<open>Single precision\<close>

text \<open>\<open>f32_has x r\<close>: the word \<open>x\<close> is a finite number of value \<open>r\<close>.\<close>

definition f32_has :: "f32 \<Rightarrow> rat \<Rightarrow> bool" where
  "f32_has x r \<longleftrightarrow> (\<exists>s m e. dec32 x = Fin s m e \<and> rval s m e = r)"

lemma decodes_to_f32: "decodes_to 23 8 b r \<Longrightarrow> f32_has (word_of_int b) r"
  by (auto simp: decodes_to_def f32_has_def dec32_def uint_word_of_int)

lemma f32_has_finite: "f32_is_finite x \<longleftrightarrow> (\<exists>r. f32_has x r)"
  by (auto simp: f32_is_finite_def f32_has_def split: fp.splits)

lemma f32_has_unique: "f32_has x r \<Longrightarrow> f32_has x r' \<Longrightarrow> r = r'"
  by (auto simp: f32_has_def)

lemma f32_cmp_has:
  assumes "f32_has x a" "f32_has y b"
  shows "f32_lt x y \<longleftrightarrow> a < b" "f32_eq x y \<longleftrightarrow> a = b" "f32_le x y \<longleftrightarrow> a \<le> b"
  using assms by (auto simp: f32_has_def f32_lt_def f32_eq_def f32_le_def fp_cmp_value split: if_splits)

lemma f32_add_has:
  assumes "f32_has x a" "f32_has y b" "representable 23 8 (a + b)"
  shows "f32_has (f32_add x y) (a + b)"
  using assms fp_add_exact [of 23 8] unfolding f32_add_def
  by (intro decodes_to_f32) (auto simp: f32_has_def)

lemma decode_mant:
  assumes "fp_decode mb eb b = Fin s m e"
    and "2 < (2 :: int) ^ eb"
  shows "0 \<le> m \<and> m < 2 ^ (mb + 1) \<and> emin mb eb \<le> e \<and> e \<le> emin mb eb + 2 ^ eb - 3"
proof -
  define f where "f = b mod 2 ^ mb"
  define E where "E = b div 2 ^ mb mod 2 ^ eb"
  have "f < 2 ^ mb" "0 \<le> f" "0 \<le> E" "E < 2 ^ eb" by (simp_all add: f_def E_def)
  then show ?thesis using assms unfolding fp_decode_def f_def [symmetric] E_def [symmetric] Let_def
    by (cases "E = 2 ^ eb - 1"; cases "E = 0"; cases "f = 0") auto
qed

lemma dec32_range:
  assumes "dec32 x = Fin s m e"
  shows "0 \<le> m" "m < 2 ^ 24" "- 149 \<le> e" "e \<le> 104"
  using decode_mant [OF assms [unfolded dec32_def]] by (simp_all add: emin_def)

lemma f32_mul_has:
  assumes "f32_has x a" "f32_has y b" "representable 23 8 (a * b)"
  shows "f32_has (f32_mul x y) (a * b)"
  using assms fp_mul_exact [of 23 8] dec32_range(1) unfolding f32_mul_def
  by (intro decodes_to_f32) (auto simp: f32_has_def)

lemma uint_xor_top: "uint (x XOR 0x80000000 :: u32) = (if uint x < 2 ^ 31 then uint x + 2 ^ 31 else uint x - 2 ^ 31)"
proof -
  have top: "(0x80000000 :: u32) = push_bit 31 1" by simp
  have b: "uint x < 2 ^ 32" "0 \<le> uint x" using uint_lt2p [of x] by simp_all
  have "uint (x XOR 0x80000000) = uint x XOR 2 ^ 31" by (simp add: uint_xor)
  also have "\<dots> = (if uint x < 2 ^ 31 then uint x + 2 ^ 31 else uint x - 2 ^ 31)"
  proof (cases "uint x < 2 ^ 31")
    case True
    have "uint x AND 2 ^ 31 = 0"
    proof -
      have "uint x = take_bit 31 (uint x)" using True b by (simp add: take_bit_int_eq_self)
      then show ?thesis by (metis and_exp_eq_0_iff_not_bit bit_take_bit_iff less_irrefl)
    qed
    then show ?thesis using True by (simp add: disjunctive_xor_eq_or disjunctive_add_eq_or)
  next
    case False
    define y where "y = uint x - 2 ^ 31"
    have y: "0 \<le> y" "y < 2 ^ 31" using False b by (simp_all add: y_def)
    have "y AND 2 ^ 31 = 0"
    proof -
      have "y = take_bit 31 y" using y by (simp add: take_bit_int_eq_self)
      then show ?thesis by (metis and_exp_eq_0_iff_not_bit bit_take_bit_iff less_irrefl)
    qed
    then have "y XOR 2 ^ 31 = y + 2 ^ 31"
      by (simp add: disjunctive_xor_eq_or disjunctive_add_eq_or)
    moreover have "uint x = y + 2 ^ 31" by (simp add: y_def)
    ultimately have "uint x XOR 2 ^ 31 = (y XOR 2 ^ 31) XOR 2 ^ 31" by (simp only:)
    also have "\<dots> = y" by (simp only: xor.assoc xor_self_eq xor.right_neutral)
    finally show ?thesis using False by (simp add: y_def)
  qed
  finally show ?thesis .
qed

lemma f32_neg_has: "f32_has x a \<Longrightarrow> f32_has (f32_neg x) (- a)"
proof -
  assume x: "f32_has x a"
  define u where "u = (if uint x < 2 ^ 31 then uint x else uint x - 2 ^ 31)"
  have b: "uint x < 2 ^ 32" "0 \<le> uint x" using uint_lt2p [of x] by simp_all
  have u: "0 \<le> u" "u < 2 ^ 31" using b by (auto simp: u_def)
  have fr: "0 \<le> u mod 2 ^ 23" "u mod 2 ^ 23 < 2 ^ 23" "0 \<le> u div 2 ^ 23" "u div 2 ^ 23 < 2 ^ 8"
    using u by (simp_all add: pos_imp_zdiv_nonneg_iff)
  have sp: "u = u div 2 ^ 23 * 2 ^ 23 + u mod 2 ^ 23" by simp
  define s where "s = (\<not> uint x < 2 ^ 31)"
  have s: "uint x = sign_bits 23 8 s + u" "uint (f32_neg x) = sign_bits 23 8 (\<not> s) + u"
    unfolding f32_neg_def uint_xor_top by (simp_all add: u_def sign_bits_def s_def)
  have "fp_decode 23 8 (sign_bits 23 8 t + u) =
      (if u div 2 ^ 23 = 2 ^ 8 - 1 then if u mod 2 ^ 23 = 0 then Inf t else Nan
       else if u div 2 ^ 23 = 0 then Fin t (u mod 2 ^ 23) (emin 23 8)
       else Fin t (u mod 2 ^ 23 + 2 ^ 23) (u div 2 ^ 23 - 1 + emin 23 8))" for t
    using bits_fields [OF fr, of t] unfolding sp [symmetric]
    by (simp only: fp_decode_def Let_def)
  then show ?thesis using x s
    by (auto simp: f32_has_def dec32_def rval_neg split: if_splits)
qed

lemma f32_sub_has:
  "f32_has x a \<Longrightarrow> f32_has y b \<Longrightarrow> representable 23 8 (a - b) \<Longrightarrow> f32_has (f32_sub x y) (a - b)"
  using f32_add_has [OF _ f32_neg_has] by (simp add: f32_sub_def)

lemma f32_of_int_has: "\<bar>i\<bar> < 2 ^ 24 \<Longrightarrow> f32_has (f32_of_int i) (of_int i)"
  unfolding f32_of_int_def by (intro decodes_to_f32 fp_of_int_exact) (simp_all add: emin_def)

text \<open>Truncation of a value.\<close>

definition rtrunc :: "rat \<Rightarrow> int" where
  "rtrunc r = (if 0 \<le> r then \<lfloor>r\<rfloor> else \<lceil>r\<rceil>)"

lemma trunc_fin_value: "0 \<le> m \<Longrightarrow> trunc_fin s m e = rtrunc (rval s m e)"
proof -
  assume m: "0 \<le> m"
  define t where "t = (if 0 \<le> e then m * 2 ^ nat e else m div 2 ^ nat (- e))"
  have "of_int m * 2 powi e = (of_int (m * 2 ^ nat e) :: rat)" if "0 \<le> e"
    using that by (simp add: power_int_def)
  moreover have "of_int m * 2 powi e = (of_int m / of_int (2 ^ nat (- e)) :: rat)" if "e < 0"
    using that by (simp add: power_int_def field_simps)
  ultimately have fl: "\<lfloor>of_int m * 2 powi e :: rat\<rfloor> = t"
    by (cases "0 \<le> e") (simp_all add: t_def floor_divide_of_int_eq del: of_int_mult of_int_power)
  have nn: "(0 :: rat) \<le> of_int m * 2 powi e" using m by simp
  have "\<lceil>- (of_int m * 2 powi e :: rat)\<rceil> = - t" using fl by (simp add: ceiling_minus)
  moreover have "m = 0 \<or> - (of_int m * 2 powi e :: rat) < 0" using m by (cases "m = 0") simp_all
  moreover have "m = 0 \<Longrightarrow> t = 0" by (simp add: t_def)
  ultimately show ?thesis using fl nn
    unfolding trunc_fin_def t_def [symmetric] rtrunc_def rval_def signed_mant_def by auto
qed

lemma f32_to_int_has: "f32_has x r \<Longrightarrow> f32_to_int lo hi x = max lo (min hi (rtrunc r))"
  using dec32_range(1) trunc_fin_value by (auto simp: f32_has_def f32_to_int_def fp_to_int_def)

end
