(* ===== verification/Det_Num.thy ===== *)
theory Det_Num
  imports Float_Facts
begin

text \<open>
  The numeric kernels of \<open>src/crates/det-num/src\<close>: the eight-lane reductions of
  \<open>reduce.rs\<close>, the rounding of \<open>round.rs\<close>, the half-precision decoder of \<open>f16.rs\<close>, and from
  \<open>math.rs\<close> and \<open>vendored_libm\<close> the single-precision exponential with the helpers it needs. The
  lemmas show that the indexed loops compute the documented lane order, that the rounding is
  the nearest integer with ties to even, and that half-precision decoding is exact.
\<close>

section \<open>Reductions\<close>

text \<open>\<open>while i < n { acc[i & 7] += f(i); i += 1 }\<close>.\<close>

function lane_loop :: "(nat \<Rightarrow> f32) \<Rightarrow> nat \<Rightarrow> nat \<Rightarrow> f32 list \<Rightarrow> f32 list" where
  "lane_loop f n i acc =
    (if i < n then lane_loop f n (i + 1) (acc[i AND 7 := f32_add (acc ! (i AND 7)) (f i)]) else acc)"
  by auto
termination by (relation "measure (\<lambda>(f, n, i, acc). n - i)") auto

declare lane_loop.simps [simp del]

definition finish_8lane :: "f32 list \<Rightarrow> f32" where
  "finish_8lane acc =
    f32_add (f32_add (f32_add (acc ! 0) (acc ! 1)) (f32_add (acc ! 2) (acc ! 3)))
            (f32_add (f32_add (acc ! 4) (acc ! 5)) (f32_add (acc ! 6) (acc ! 7)))"

definition dot_f32_ref :: "f32 list \<Rightarrow> f32 list \<Rightarrow> ('e, f32) res" where
  "dot_f32_ref x y =
    (if length x \<noteq> length y then Panic
     else Ok (finish_8lane (lane_loop (\<lambda>i. f32_mul (x ! i) (y ! i)) (length x) 0 (replicate 8 0))))"

definition sum_f32_ref :: "f32 list \<Rightarrow> f32" where
  "sum_f32_ref x = finish_8lane (lane_loop (\<lambda>i. x ! i) (length x) 0 (replicate 8 0))"

definition sum_squares_f32_ref :: "f32 list \<Rightarrow> f32" where
  "sum_squares_f32_ref x =
    finish_8lane (lane_loop (\<lambda>i. f32_mul (x ! i) (x ! i)) (length x) 0 (replicate 8 0))"

section \<open>Rounding\<close>

definition round_ties_even_i32 :: "f32 \<Rightarrow> int" where
  "round_ties_even_i32 x =
    (if \<not> f32_is_finite x then f32_to_i32 x
     else if \<not> (f32_le (f32_of_int (- 8388608)) x \<and> f32_lt x (f32_of_int 8388608)) then f32_to_i32 x
     else
       let t = f32_to_i32 x;
           frac = f32_sub x (f32_of_int t);
           half = f32_lit 1 2
       in if f32_lt half frac \<or> f32_eq frac half \<and> odd t then t + 1
          else if f32_lt frac (f32_neg half) \<or> f32_eq frac (f32_neg half) \<and> odd t then t - 1
          else t)"

definition round_ties_even_i64 :: "f64 \<Rightarrow> int" where
  "round_ties_even_i64 x =
    (if \<not> f64_is_finite x then f64_to_i64 x
     else if \<not> (f64_le (f64_of_int (- 4503599627370496)) x \<and> f64_lt x (f64_of_int 4503599627370496))
       then f64_to_i64 x
     else
       let t = f64_to_i64 x;
           frac = f64_sub x (f64_of_int t);
           half = f64_lit 1 2
       in if f64_lt half frac \<or> f64_eq frac half \<and> odd t then t + 1
          else if f64_lt frac (f64_neg half) \<or> f64_eq frac (f64_neg half) \<and> odd t then t - 1
          else t)"

section \<open>Half precision\<close>

definition f16_is_finite :: "u16 \<Rightarrow> bool" where
  "f16_is_finite bits \<longleftrightarrow> bits AND 0x7c00 \<noteq> 0x7c00"

text \<open>\<open>while (f & 0x0400) == 0 { f <<= 1; e -= 1 }\<close>.\<close>

partial_function (option) f16_norm :: "u32 \<Rightarrow> int \<Rightarrow> (u32 \<times> int) option" where
  "f16_norm f e = (if f AND 0x0400 = 0 then f16_norm (push_bit 1 f) (e - 1) else Some (f, e))"

declare f16_norm.simps [code]

definition f16_to_f32 :: "u16 \<Rightarrow> f32 option" where
  "f16_to_f32 bits =
    (let sgn = push_bit 16 (ucast bits AND 0x8000 :: u32);
         ex = drop_bit 10 bits AND 0x1f;
         frac = ucast (bits AND 0x03ff) :: u32
     in if ex = 0 then
          (if frac = 0 then Some sgn
           else (case f16_norm frac (- 14) of
               None \<Rightarrow> None
             | Some (f, e) \<Rightarrow>
                 let f = f AND 0x03ff;
                     exp32 = push_bit 23 (word_of_int (e + 127))
                 in Some (sgn OR exp32 OR push_bit 13 f)))
        else if ex = 0x1f then Some (sgn OR 0x7f800000 OR push_bit 13 frac)
        else
          let exp32 = push_bit 23 (word_of_int (uint ex - 15 + 127))
          in Some (sgn OR exp32 OR push_bit 13 frac))"

section \<open>The exponential\<close>

definition scalbn_f32 :: "f32 \<Rightarrow> int \<Rightarrow> f32" where
  "scalbn_f32 x n =
    (let x1p127 = 0x7f000000; x1p_126 = 0x00800000;
         (x, n) =
          (if 127 < n then
             let x = f32_mul x x1p127; n = n - 127 in
             if 127 < n then
               let x = f32_mul x x1p127; n = n - 127 in
               if 127 < n then (x, 127) else (x, n)
             else (x, n)
           else if n < - 126 then
             let x = f32_mul x x1p_126; n = n + 126 in
             if n < - 126 then
               let x = f32_mul x x1p_126; n = n + 126 in
               if n < - 126 then (x, - 126) else (x, n)
             else (x, n)
           else (x, n))
     in f32_mul x (push_bit 23 (word_of_int (0x7f + n))))"

definition scalbnf :: "f32 \<Rightarrow> int \<Rightarrow> f32" where "scalbnf x n = scalbn_f32 x n"

definition EXPF_HALF :: "f32 list" where "EXPF_HALF = [f32_lit 1 2, f32_lit (- 1) 2]"
definition EXPF_LN2_HI :: f32 where "EXPF_LN2_HI = f32_lit 69314575195 (10 ^ 11)"
definition EXPF_LN2_LO :: f32 where "EXPF_LN2_LO = f32_lit 14286067653 (10 ^ 16)"
definition EXPF_INV_LN2 :: f32 where "EXPF_INV_LN2 = f32_lit 14426950216 (10 ^ 10)"
definition EXPF_P1 :: f32 where "EXPF_P1 = f32_lit 16666625440 (10 ^ 11)"
definition EXPF_P2 :: f32 where "EXPF_P2 = f32_lit (- 27667332906) (10 ^ 13)"

text \<open>The part of \<open>expf\<close> after the argument reduction to \<open>x = hi - lo\<close>.\<close>

definition expf_primary :: "f32 \<Rightarrow> int \<Rightarrow> f32 \<Rightarrow> f32 \<Rightarrow> f32" where
  "expf_primary x k hi lo =
    (let one = f32_of_int 1; two = f32_of_int 2;
         xx = f32_mul x x;
         c = f32_sub x (f32_mul xx (f32_add EXPF_P1 (f32_mul xx EXPF_P2)));
         y = f32_add one
              (f32_add (f32_sub (f32_div (f32_mul x c) (f32_sub two c)) lo) hi)
     in if k = 0 then y else scalbnf y k)"

definition expf :: "f32 \<Rightarrow> f32" where
  "expf x =
    (let hx = x;
         sgn = uint (drop_bit 31 hx);
         signb = (sgn \<noteq> 0);
         hx = hx AND 0x7fffffff
     in
      if 0x42aeac50 \<le> hx \<and> 0x7f800000 < hx then x
      else if 0x42aeac50 \<le> hx \<and> 0x42b17218 \<le> hx \<and> \<not> signb then f32_mul x 0x7f000000
      else if 0x42aeac50 \<le> hx \<and> signb \<and> 0x42cff1b5 \<le> hx then 0
      else if 0x3eb17218 < hx then
        let k = (if 0x3f851592 < hx
                 then f32_to_i32 (f32_add (f32_mul EXPF_INV_LN2 x) (EXPF_HALF ! nat sgn))
                 else 1 - sgn - sgn);
            kf = f32_of_int k;
            hi = f32_sub x (f32_mul kf EXPF_LN2_HI);
            lo = f32_mul kf EXPF_LN2_LO
        in expf_primary (f32_sub hi lo) k hi lo
      else if 0x39000000 < hx then expf_primary x 0 x 0
      else f32_add (f32_of_int 1) x)"

definition exp_f32 :: "f32 \<Rightarrow> f32" where "exp_f32 x = expf x"

definition silu_f32 :: "f32 \<Rightarrow> f32" where
  "silu_f32 x = (let t = exp_f32 (f32_neg x); d = f32_add (f32_of_int 1) t in f32_div x d)"

section \<open>The lanes of a reduction\<close>

lemma and_7: "(i :: nat) AND 7 = i mod 8"
proof -
  have "mask 3 = (7 :: nat)" by (simp add: mask_eq_exp_minus_1)
  then show ?thesis using take_bit_eq_mask [of 3 i] by (simp add: take_bit_eq_mod)
qed

text \<open>Lane \<open>l\<close> sums the items of index \<open>l\<close> modulo 8, in index order.\<close>

definition lane_sum :: "(nat \<Rightarrow> f32) \<Rightarrow> nat \<Rightarrow> f32 \<Rightarrow> nat \<Rightarrow> nat \<Rightarrow> f32" where
  "lane_sum f l a i n = foldl f32_add a (map f (filter (\<lambda>j. j mod 8 = l) [i..<n]))"

lemma lane_loop_lanes:
  "length acc = 8 \<Longrightarrow> lane_loop f n i acc = map (\<lambda>l. lane_sum f l (acc ! l) i n) [0..<8]"
proof (induction f n i acc rule: lane_loop.induct)
  case (1 f n i acc)
  show ?case
  proof (cases "i < n")
    case True
    then have up: "[i..<n] = i # [Suc i..<n]" by (simp add: upt_conv_Cons)
    have "lane_loop f n i acc =
        map (\<lambda>l. lane_sum f l (acc[i AND 7 := f32_add (acc ! (i AND 7)) (f i)] ! l) (i + 1) n) [0..<8]"
      using 1 True by (subst lane_loop.simps) simp
    also have "\<dots> = map (\<lambda>l. lane_sum f l (acc ! l) i n) [0..<8]"
      using "1.prems" by (intro map_cong refl) (auto simp: lane_sum_def up and_7 nth_list_update)
    finally show ?thesis .
  next
    case False
    then show ?thesis using "1.prems" map_nth [of acc]
      by (subst lane_loop.simps) (simp add: lane_sum_def)
  qed
qed

lemma lane_loop_zero: "lane_loop f n 0 (replicate 8 0) = map (\<lambda>l. lane_sum f l 0 0 n) [0..<8]"
  by (subst lane_loop_lanes) (auto intro!: map_cong)

section \<open>Rounding to the nearest integer\<close>

definition nearest_even :: "rat \<Rightarrow> int" where
  "nearest_even r =
    (let t = \<lfloor>r\<rfloor>; d = r - of_int t in if d < 1 / 2 \<or> d = 1 / 2 \<and> even t then t else t + 1)"

lemma f32_half: "f32_has (f32_lit 1 2) (1 / 2)"
proof -
  have "dec32 (f32_lit 1 2) = Fin False (2 ^ 23) (- 24)" by code_simp
  moreover have "rval False (2 ^ 23) (- 24) = 1 / 2" by (simp add: rval_def signed_mant_def power_int_def power_one_over)
  ultimately show ?thesis by (auto simp: f32_has_def)
qed

lemma frac_representable:
  assumes "f32_has x r"
  shows "representable 23 8 (r - of_int (rtrunc r))"
proof -
  obtain s m e where x: "dec32 x = Fin s m e" "rval s m e = r" using assms by (auto simp: f32_has_def)
  note rg = dec32_range [OF x(1)]
  show ?thesis
  proof (cases "0 \<le> e")
    case True
    then have "r = of_int (signed_mant s m * 2 ^ nat e)" using x(2) by (simp add: rval_def power_int_def)
    then have "r - of_int (rtrunc r) = of_int 0 * 2 powi 0" by (auto simp: rtrunc_def)
    then show ?thesis unfolding representable_def by (intro exI [of _ 0]) (simp add: emin_def)
  next
    case False
    define w where "w = signed_mant s m - rtrunc r * 2 ^ nat (- e)"
    have "(2 :: rat) powi 0 = 2 ^ nat (0 - e) * 2 powi e" using False by (intro pow2_split) simp
    then have "of_int (rtrunc r) = of_int (rtrunc r * 2 ^ nat (- e)) * (2 :: rat) powi e" by simp
    then have w: "r - of_int (rtrunc r) = of_int w * 2 powi e"
      using x(2) by (simp add: w_def rval_def left_diff_distrib)
    have "\<bar>r - of_int (rtrunc r)\<bar> \<le> \<bar>r\<bar>"
      using of_int_floor_le [of r] le_of_int_ceiling [of r] ceiling_less_zero [of r]
      by (auto simp: rtrunc_def not_le)
    then have "of_int \<bar>w\<bar> * (2 :: rat) powi e \<le> of_int m * 2 powi e"
      using x(2) rg(1) unfolding w
      by (cases s) (auto simp: abs_mult rval_def signed_mant_def)
    then have "\<bar>w\<bar> \<le> m" by simp
    then show ?thesis unfolding representable_def w using rg
      by (intro exI [of _ w] exI [of _ e]) (simp add: emin_def)
  qed
qed

lemma rtrunc_int [simp]: "rtrunc (of_int i) = i"
  by (simp add: rtrunc_def)

lemma nearest_even_int [simp]: "nearest_even (of_int i) = i"
  by (simp add: nearest_even_def)

lemma large_is_integer:
  assumes "f32_has x r" and "2 ^ 23 \<le> \<bar>r\<bar>"
  shows "\<exists>i. r = of_int i"
proof -
  obtain s m e where x: "dec32 x = Fin s m e" "rval s m e = r" using assms(1) by (auto simp: f32_has_def)
  note rg = dec32_range [OF x(1)]
  have r: "\<bar>r\<bar> = of_int m * 2 powi e" using x(2) rg(1) by (auto simp: rval_def signed_mant_def abs_mult)
  have "0 \<le> e"
  proof (rule ccontr)
    assume "\<not> 0 \<le> e"
    then have "(2 :: rat) powi e \<le> 2 powi (- 1)" by (intro power_int_increasing) auto
    then have "\<bar>r\<bar> \<le> of_int m * (1 / 2)" unfolding r using rg(1)
      by (intro mult_left_mono) (simp_all add: power_int_minus)
    moreover have "(of_int m :: rat) < 2 ^ 24" using rg(2) by (simp flip: of_int_power_less_of_int_cancel_iff)
    ultimately show False using assms(2) by simp
  qed
  then have "r = of_int (signed_mant s m * 2 ^ nat e)" using x(2) by (simp add: rval_def power_int_def)
  then show ?thesis by blast
qed

lemma round_by_trunc:
  assumes "t = rtrunc r"
  shows "nearest_even r =
    (if 1 / 2 < r - of_int t \<or> r - of_int t = 1 / 2 \<and> odd t then t + 1
     else if r - of_int t < - (1 / 2) \<or> r - of_int t = - (1 / 2) \<and> odd t then t - 1 else t)"
proof (cases "0 \<le> r \<or> (\<exists>i. r = of_int i)")
  case True
  then have t: "t = \<lfloor>r\<rfloor>" using assms by (auto simp: rtrunc_def)
  have "0 \<le> r - of_int t" unfolding t by simp
  then show ?thesis by (auto simp: nearest_even_def Let_def t [symmetric])
next
  case False
  then have t: "t = \<lfloor>r\<rfloor> + 1" using assms
    by (auto simp: rtrunc_def ceiling_altdef) 
  have "of_int t - 1 \<le> r" "r < of_int t" unfolding t using floor_correct [of r] by simp_all
  then show ?thesis using t by (auto simp: nearest_even_def Let_def)
qed

lemma round_ties_even_value:
  assumes "f32_has x r"
  shows "round_ties_even_i32 x = max (- (2 ^ 31)) (min (2 ^ 31 - 1) (nearest_even r))"
proof (cases "- (2 ^ 23) \<le> r \<and> r < 2 ^ 23")
  case False
  then have "2 ^ 23 \<le> \<bar>r\<bar>" by linarith
  then obtain i where i: "r = of_int i" using large_is_integer [OF assms] by blast
  have "f32_has (f32_of_int 8388608) 8388608" "f32_has (f32_of_int (- 8388608)) (- 8388608)"
    using f32_of_int_has [of 8388608] f32_of_int_has [of "- 8388608"] by simp_all
  note bounds = f32_cmp_has(2,1,3) [OF this(2) assms] f32_cmp_has(1) [OF assms this(1)]
  show ?thesis using False assms bounds f32_to_int_has [OF assms]
    by (auto simp: round_ties_even_i32_def f32_has_finite f32_to_i32_def i)
next
  case True
  define t where "t = rtrunc r"
  have "\<lceil>r\<rceil> \<le> 2 ^ 23" "- (2 ^ 23) \<le> \<lfloor>r\<rfloor>" "\<lfloor>r\<rfloor> \<le> \<lceil>r\<rceil>"
    using True by (simp_all add: ceiling_le_iff le_floor_iff)
  then have tr: "- (2 ^ 23) \<le> t" "t \<le> 2 ^ 23" by (auto simp: t_def rtrunc_def)
  have ti: "f32_to_i32 x = t"
    using f32_to_int_has [OF assms] tr by (simp add: f32_to_i32_def t_def)
  have "f32_has (f32_of_int t) (of_int t)" using tr by (intro f32_of_int_has) auto
  then have frac: "f32_has (f32_sub x (f32_of_int t)) (r - of_int t)"
    using f32_sub_has [OF assms] frac_representable [OF assms] by (simp add: t_def)
  have "f32_has (f32_of_int 8388608) 8388608" "f32_has (f32_of_int (- 8388608)) (- 8388608)"
    using f32_of_int_has [of 8388608] f32_of_int_has [of "- 8388608"] by simp_all
  then have inr: "f32_le (f32_of_int (- 8388608)) x" "f32_lt x (f32_of_int 8388608)"
    using f32_cmp_has [OF _ assms] f32_cmp_has [OF assms] True by auto
  note cmp = f32_cmp_has [OF f32_half frac] f32_cmp_has [OF frac f32_half]
    f32_cmp_has [OF frac f32_neg_has [OF f32_half]]
  have "round_ties_even_i32 x = nearest_even r"
    using assms inr
    by (simp add: round_ties_even_i32_def f32_has_finite ti Let_def cmp round_by_trunc [OF t_def]) auto
  moreover have "- (2 ^ 31) \<le> nearest_even r" "nearest_even r \<le> 2 ^ 31 - 1"
    unfolding round_by_trunc [OF t_def] using tr by auto
  ultimately show ?thesis by simp
qed

section \<open>Half precision\<close>

text \<open>\<open>f16_value\<close>: the number an IEEE binary16 coding stands for.\<close>

definition dec16 :: "u16 \<Rightarrow> fp" where "dec16 b = fp_decode 10 5 (uint b)"

lemma f16_norm_returns:
  assumes "0 < uint f" "uint f < 2 ^ 11"
  shows "\<exists>k \<le> 10. f16_norm f e = Some (push_bit k f, e - int k) \<and>
    2 ^ 10 \<le> uint f * 2 ^ k \<and> uint f * 2 ^ k < 2 ^ 11"
proof -
  have bit10: "f AND 0x0400 = 0 \<longleftrightarrow> uint f < 2 ^ 10" if "uint f < 2 ^ 11" for f :: u32
  proof -
    have "f AND 0x0400 = 0 \<longleftrightarrow> \<not> bit f 10"
      using and_exp_eq_0_iff_not_bit [of f 10] by simp
    also have "\<dots> \<longleftrightarrow> \<not> bit (uint f) 10" by (simp add: bit_uint_iff)
    also have "\<dots> \<longleftrightarrow> even (uint f div 2 ^ 10)" by (simp add: bit_iff_odd)
    also have "\<dots> \<longleftrightarrow> uint f < 2 ^ 10"
    proof -
      have "0 \<le> uint f" by simp
      then have "uint f div 2 ^ 10 = (if uint f < 2 ^ 10 then 0 else 1)"
        using that by auto
      then show ?thesis by simp
    qed
    finally show ?thesis .
  qed
  show ?thesis
    using assms
  proof (induction "nat (2 ^ 11 - uint f)" arbitrary: f e rule: less_induct)
    case less
    show ?case
    proof (cases "uint f < 2 ^ 10")
      case False
      then show ?thesis using less.prems bit10 [of f]
        by (intro exI [of _ 0]) (simp add: f16_norm.simps)
    next
      case True
      have d: "uint (push_bit 1 f) = 2 * uint f"
        using True by (simp add: uint_word_ariths push_bit_eq_mult)
      obtain k where k: "k \<le> 10" "f16_norm (push_bit 1 f) (e - 1) = Some (push_bit k (push_bit 1 f), e - 1 - int k)"
        "2 ^ 10 \<le> 2 * uint f * 2 ^ k" "2 * uint f * 2 ^ k < 2 ^ 11"
        using less.hyps [of "push_bit 1 f" "e - 1"] less.prems True unfolding d by auto
      have "k \<noteq> 10" using k(4) less.prems by auto
      then show ?thesis using k True less.prems bit10 [of f]
        by (intro exI [of _ "Suc k"]) (subst f16_norm.simps, simp add: algebra_simps)
    qed
  qed
qed

lemma or_disjoint_int:
  assumes "0 \<le> x" "x < 2 ^ k"
  shows "(y * 2 ^ k) OR x = y * 2 ^ k + (x :: int)"
proof -
  have x: "x = take_bit k x" using assms by (simp add: take_bit_int_eq_self)
  have "push_bit k y AND x = 0" by (subst x) (auto simp: bit_eq_iff bit_simps)
  then show ?thesis by (simp add: disjunctive_add_eq_or push_bit_eq_mult)
qed

lemma pack_f32:
  assumes "0 \<le> E" "E < 256" "uint (f :: u32) < 2 ^ 10"
  shows "uint (push_bit 31 (of_bool S) OR push_bit 23 (word_of_int E) OR push_bit 13 f :: u32) =
    sign_bits 23 8 S + (E * 2 ^ 23 + uint f * 2 ^ 13)"
proof -
  have f: "uint (push_bit 13 f) = uint f * 2 ^ 13" "0 \<le> uint f * 2 ^ 13" "uint f * 2 ^ 13 < 2 ^ 23"
    using assms(3) by (simp_all add: uint_word_ariths push_bit_eq_mult)
  have e: "uint (push_bit 23 (word_of_int E) :: u32) = E * 2 ^ 23"
    using assms(1,2) by (simp add: uint_word_ariths push_bit_eq_mult uint_word_of_int)
  have s: "uint (push_bit 31 (of_bool S) :: u32) = of_bool S * 2 ^ 31"
    by (simp add: uint_word_ariths push_bit_eq_mult)
  have "(of_bool S * 2 ^ 31) OR (E * 2 ^ 23 + uint f * 2 ^ 13) = of_bool S * 2 ^ 31 + (E * 2 ^ 23 + uint f * 2 ^ 13)"
    using assms f by (intro or_disjoint_int) auto
  moreover have "(E * 2 ^ 23) OR (uint f * 2 ^ 13) = E * 2 ^ 23 + uint f * 2 ^ 13"
    using f by (intro or_disjoint_int)
  ultimately show ?thesis
    unfolding uint_or f e s or.assoc by (simp add: sign_bits_def)
qed

lemma and_single_bit: "w AND 2 ^ k = (push_bit k (of_bool (bit w k)) :: 'l::len word)"
  by (rule bit_word_eqI) (auto simp: bit_simps le_less)

lemma f16_fields:
  fixes b :: u16
  defines "u \<equiv> uint b"
  shows "push_bit 16 (ucast b AND 0x8000 :: u32) = push_bit 31 (of_bool (odd (u div 2 ^ 15)))"
    "uint (drop_bit 10 b AND 0x1f) = u div 2 ^ 10 mod 2 ^ 5"
    "uint (ucast (b AND 0x03ff) :: u32) = u mod 2 ^ 10"
    "f16_is_finite b \<longleftrightarrow> u div 2 ^ 10 mod 2 ^ 5 \<noteq> 31"
proof -
  have "bit b 15 = odd (u div 2 ^ 15)" unfolding u_def bit_iff_odd [symmetric] by (simp add: bit_uint_iff)
  moreover have "(ucast b AND 0x8000 :: u32) = push_bit 15 (of_bool (bit b 15))"
    using and_single_bit [of "ucast b :: u32" 15] by (simp add: bit_ucast_iff)
  ultimately show "push_bit 16 (ucast b AND 0x8000 :: u32) = push_bit 31 (of_bool (odd (u div 2 ^ 15)))"
    by simp
  have m5: "(0x1f :: u16) = mask 5" and m10: "(0x3ff :: u16) = mask 10"
    by (simp_all add: mask_eq_exp_minus_1)
  show E: "uint (drop_bit 10 b AND 0x1f) = u div 2 ^ 10 mod 2 ^ 5"
    unfolding m5 take_bit_eq_mask [symmetric] u_def
    by (simp add: unsigned_take_bit_eq take_bit_eq_mod uint_div_distrib uint_mod_distrib drop_bit_eq_div)
  show "uint (ucast (b AND 0x03ff) :: u32) = u mod 2 ^ 10"
    unfolding m10 take_bit_eq_mask [symmetric] u_def
    by (simp add: unsigned_ucast_eq unsigned_take_bit_eq take_bit_eq_mod uint_mod_distrib)
  have "b AND 0x7c00 = push_bit 10 (drop_bit 10 b AND 0x1f)"
  proof -
    have "(0x7c00 :: u16) = push_bit 10 (mask 5)" by (simp add: mask_eq_exp_minus_1)
    then show ?thesis unfolding m5 by (simp only:) (auto simp: bit_eq_iff bit_simps)
  qed
  moreover have "uint (push_bit 10 (drop_bit 10 b AND 0x1f)) = (u div 2 ^ 10 mod 2 ^ 5) * 2 ^ 10"
    unfolding push_bit_eq_mult using E by (simp add: uint_word_ariths)
  ultimately show "f16_is_finite b \<longleftrightarrow> u div 2 ^ 10 mod 2 ^ 5 \<noteq> 31"
    unfolding f16_is_finite_def by (auto simp: word_uint_eq_iff)
qed

lemma f16_normal_value:
  assumes "0 \<le> F" "F < 2 ^ 10" "0 < E" "E < 31"
  shows "fp_decode 23 8 (sign_bits 23 8 S + ((E + 112) * 2 ^ 23 + F * 2 ^ 13)) =
      Fin S ((F + 2 ^ 10) * 2 ^ 13) (E - 38)"
    and "rval S ((F + 2 ^ 10) * 2 ^ 13) (E - 38) = rval S (F + 2 ^ 10) (E - 25)"
proof -
  show "fp_decode 23 8 (sign_bits 23 8 S + ((E + 112) * 2 ^ 23 + F * 2 ^ 13)) =
      Fin S ((F + 2 ^ 10) * 2 ^ 13) (E - 38)"
    using decode_fields [of "F * 2 ^ 13" 23 "E + 112" 8 S] assms by (simp add: emin_def)
  show "rval S ((F + 2 ^ 10) * 2 ^ 13) (E - 38) = rval S (F + 2 ^ 10) (E - 25)"
    using pow2_split [of "E - 38" "E - 25"] by (simp add: rval_def signed_mant_def)
qed

lemma f16_subnormal_value:
  assumes "2 ^ 10 \<le> F * 2 ^ k" "F * 2 ^ k < 2 ^ 11" "k \<le> 10"
  shows "\<exists>m e. fp_decode 23 8 (sign_bits 23 8 S + ((113 - int k) * 2 ^ 23 + (F * 2 ^ k - 2 ^ 10) * 2 ^ 13)) =
      Fin S m e \<and> rval S m e = rval S F (- 24)"
proof -
  have "fp_decode 23 8 (sign_bits 23 8 S + ((113 - int k) * 2 ^ 23 + (F * 2 ^ k - 2 ^ 10) * 2 ^ 13)) =
      Fin S (F * 2 ^ (k + 13)) (- 37 - int k)"
    using decode_fields [of "(F * 2 ^ k - 2 ^ 10) * 2 ^ 13" 23 "113 - int k" 8 S] assms
    by (simp add: emin_def power_add)
  moreover have "rval S (F * 2 ^ (k + 13)) (- 37 - int k) = rval S F (- 24)"
    using pow2_split [of "- 37 - int k" "- 24"]
    by (simp add: rval_def signed_mant_def nat_add_distrib flip: add.commute [of 13])
  ultimately show ?thesis by blast
qed

lemma f16_to_f32_value:
  fixes b :: u16
  defines "S \<equiv> odd (uint b div 2 ^ 15)" and "E \<equiv> uint b div 2 ^ 10 mod 2 ^ 5" and "F \<equiv> uint b mod 2 ^ 10"
  shows "\<exists>y. f16_to_f32 b = Some y \<and>
    (if E = 31 then dec32 y = (if F = 0 then Inf S else Nan)
     else f32_has y (if E = 0 then rval S F (- 24) else rval S (F + 2 ^ 10) (E - 25)))"
proof -
  define sgn where "sgn = push_bit 16 (ucast b AND 0x8000 :: u32)"
  define ex where "ex = drop_bit 10 b AND 0x1f"
  define frac where "frac = (ucast (b AND 0x03ff) :: u32)"
  have sgn: "sgn = push_bit 31 (of_bool S)" and ex: "uint ex = E" and frac: "uint frac = F"
    using f16_fields [of b] by (simp_all add: sgn_def ex_def frac_def S_def E_def F_def)
  have F: "0 \<le> F" "F < 2 ^ 10" and E: "0 \<le> E" "E < 32" by (simp_all add: F_def E_def)
  have ex0: "ex = 0 \<longleftrightarrow> E = 0" and ex31: "ex = 0x1f \<longleftrightarrow> E = 31" and fr0: "frac = 0 \<longleftrightarrow> F = 0"
    using ex frac by (auto simp: word_uint_eq_iff)
  have code: "f16_to_f32 b =
      (if E = 0 then
         (if F = 0 then Some sgn
          else (case f16_norm frac (- 14) of None \<Rightarrow> None
            | Some (f, e) \<Rightarrow> Some (sgn OR push_bit 23 (word_of_int (e + 127)) OR push_bit 13 (f AND 0x03ff))))
       else if E = 31 then Some (sgn OR push_bit 23 (word_of_int 255) OR push_bit 13 frac)
       else Some (sgn OR push_bit 23 (word_of_int (E + 112)) OR push_bit 13 frac))"
    unfolding f16_to_f32_def Let_def sgn_def [symmetric] ex_def [symmetric] frac_def [symmetric] ex0 ex31 fr0
    by (simp add: ex algebra_simps split: option.splits)
  consider "E = 0" "F = 0" | "E = 0" "F \<noteq> 0" | "E = 31" | "0 < E" "E < 31" using E by linarith
  then show ?thesis
  proof cases
    case 1
    have "uint sgn = sign_bits 23 8 S + (0 * 2 ^ 23 + uint (0 :: u32) * 2 ^ 13)"
      using pack_f32 [of 0 0 S] by (simp add: sgn)
    then have "f32_has sgn 0" using decode_fields [of 0 23 0 8 S] by (simp add: f32_has_def dec32_def)
    then show ?thesis using 1 code by simp
  next
    case 2
    then have "0 < uint frac" "uint frac < 2 ^ 11" using F frac by simp_all
    from f16_norm_returns [OF this, of "- 14"] obtain k where k: "k \<le> 10"
      "f16_norm frac (- 14) = Some (push_bit k frac, - 14 - int k)"
      "2 ^ 10 \<le> F * 2 ^ k" "F * 2 ^ k < 2 ^ 11" unfolding frac by auto
    have m10: "(0x3ff :: u32) = mask 10" by (simp add: mask_eq_exp_minus_1)
    have "uint (push_bit k frac) = F * 2 ^ k"
      unfolding unsigned_push_bit_eq
      unfolding frac push_bit_eq_mult take_bit_eq_mod
      using k F by (intro mod_pos_pos_trivial) auto
    then have g: "uint (push_bit k frac AND 0x3ff) = F * 2 ^ k - 2 ^ 10"
      unfolding m10 take_bit_eq_mask [symmetric] take_bit_eq_mod
      using k mod_pos_geq [of "2 ^ 10" "F * 2 ^ k"] mod_pos_pos_trivial [of "F * 2 ^ k - 2 ^ 10" "2 ^ 10"]
      by (simp add: uint_mod_distrib del: minus_mod_self2)
    define y where "y = sgn OR push_bit 23 (word_of_int (113 - int k)) OR push_bit 13 (push_bit k frac AND 0x03ff)"
    have "uint y = sign_bits 23 8 S + ((113 - int k) * 2 ^ 23 + (F * 2 ^ k - 2 ^ 10) * 2 ^ 13)"
      unfolding y_def sgn using k g by (subst pack_f32) simp_all
    then have "f32_has y (rval S F (- 24))"
      using f16_subnormal_value [OF k(3,4,1), of S] by (auto simp: f32_has_def dec32_def)
    moreover have "f16_to_f32 b = Some y" using 2 by (simp add: code k(2) y_def)
    ultimately show ?thesis using 2 by simp
  next
    case 3
    define y where "y = sgn OR push_bit 23 (word_of_int 255) OR push_bit 13 frac"
    have y: "uint y = sign_bits 23 8 S + (255 * 2 ^ 23 + F * 2 ^ 13)"
      unfolding y_def sgn using F by (subst pack_f32) (simp_all add: frac)
    have "dec32 y = (if F = 0 then Inf S else Nan)"
      using bits_fields [of "F * 2 ^ 13" 23 255 8 S] F unfolding dec32_def y
      by (simp add: fp_decode_def)
    then show ?thesis using 3 code by (simp add: y_def)
  next
    case 4
    define y where "y = sgn OR push_bit 23 (word_of_int (E + 112)) OR push_bit 13 frac"
    have "uint y = sign_bits 23 8 S + ((E + 112) * 2 ^ 23 + F * 2 ^ 13)"
      unfolding y_def sgn using F 4 by (subst pack_f32) (simp_all add: frac)
    then have "f32_has y (rval S (F + 2 ^ 10) (E - 25))"
      using f16_normal_value [OF F 4, of S] by (auto simp: f32_has_def dec32_def)
    then show ?thesis using 4 code by (simp add: y_def)
  qed
qed

section \<open>Properties\<close>

text \<open>The dot product accumulates in the documented order. Lane \<open>l\<close> adds the products of
  the indices congruent to \<open>l\<close> modulo 8 one after the other, the eight lanes are added pairwise;
  operands of different lengths panic.\<close>

theorem dot_lane_order:
  "dot_f32_ref x y =
    (if length x \<noteq> length y then Panic
     else Ok (finish_8lane (map (\<lambda>l. foldl f32_add 0
        (map (\<lambda>i. f32_mul (x ! i) (y ! i)) (filter (\<lambda>i. i mod 8 = l) [0..<length x]))) [0..<8])))"
  by (simp add: dot_f32_ref_def lane_loop_zero lane_sum_def)

text \<open>C38: \<open>round_ties_even_i32\<close> is the nearest integer of the exact value, ties to the even
  one, saturated to 32 bits, for every finite argument.\<close>

theorem round_ties_even_nearest:
  assumes "f32_has x r"
  shows "round_ties_even_i32 x = max (- (2 ^ 31)) (min (2 ^ 31 - 1) (nearest_even r))"
  by (rule round_ties_even_value [OF assms])

theorem round_ties_even_nearest_witness:
  "f32_has (f32_lit 1 2) (1 / 2) \<and> round_ties_even_i32 (f32_lit 1 2) = 0"
proof -
  have "\<lfloor>1 / 2 :: rat\<rfloor> = 0" by (simp add: floor_eq_iff)
  then have "nearest_even (1 / 2) = 0" by (simp add: nearest_even_def)
  then show ?thesis using round_ties_even_nearest [OF f32_half] f32_half by simp
qed

text \<open>C39: Half-precision decoding is exact. The normalising loop returns for every coding, the
  result is the single-precision number of the same value, infinities and NaNs keep their kind,
  and \<open>f16_is_finite\<close> says which codings are numbers.\<close>

theorem f16_to_f32_exact:
  "\<exists>y. f16_to_f32 b = Some y \<and>
    (case dec16 b of Nan \<Rightarrow> dec32 y = Nan | Inf s \<Rightarrow> dec32 y = Inf s | Fin s m e \<Rightarrow> f32_has y (rval s m e)) \<and>
    f16_is_finite b = (case dec16 b of Fin s m e \<Rightarrow> True | _ \<Rightarrow> False)"
  using f16_to_f32_value [of b] f16_fields(4) [of b]
  by (auto simp: dec16_def fp_decode_def emin_def split: if_splits)

text \<open>The exponential has the values pinned down by the repository's tests.\<close>

theorem exp_f32_anchors:
  "exp_f32 (f32_of_int (- 88)) = 0x0041edc4 \<and> exp_f32 0 = f32_of_int 1 \<and>
   exp_f32 (f32_of_int 1) = 0x402df854 \<and> exp_f32 (f32_of_int (- 1)) = 0x3ebc5ab2"
  by code_simp

end
