(* ===== verification/Cdf.thy ===== *)
theory Cdf
  imports Range_Coder Det_Num
begin

text \<open>
  Frequency tables for the range coder, \<open>src/crates/det-coder/src/cdf.rs\<close>: the table of a
  whole vocabulary (\<open>Cdf\<close>), the interval of one symbol (\<open>SymbolRange\<close>) and the decoder's
  running table (\<open>DecoderDistribution\<close>), each computed from the same logits by its own loop,
  with and without the 256 byte-escape symbols of weight 1. The lemmas reduce the three loops
  to one list of weights; the interface \<open>symbol_table\<close> states what the codecs need of a table
  (every value below the total belongs to exactly one symbol, whose interval contains it).
\<close>

section \<open>The code\<close>

definition M :: f32 where "M = f32_lit 16777216 1"
definition MAX_SYMBOLS :: nat where "MAX_SYMBOLS = 2 ^ 18"
definition BYTE_ESCAPE_SYMBOLS :: nat where "BYTE_ESCAPE_SYMBOLS = 256"
definition cdf_total_limit :: u64 where "cdf_total_limit = push_bit 31 1"

datatype cdf_error = Empty | Malformed | NonFiniteLogit | SymbolOutOfRange | TooManySymbols | TotalTooLarge

record cdf =
  c_freq :: "u32 list"
  c_cum :: "u64 list"
  c_total :: u64

record cdf_scratch =
  sc_exp :: "f32 list"
  sc_decoder_freq :: "u32 list"
  sc_cdf :: cdf

record symbol_range =
  sr_cum :: u64
  sr_freq :: u32
  sr_total :: u64

record decoder_distribution =
  dd_freq :: "u32 list"
  dd_tail_symbols :: nat
  dd_total :: u64

definition cdf_default :: cdf where "cdf_default = \<lparr>c_freq = [], c_cum = [], c_total = 0\<rparr>"
definition scratch_default :: cdf_scratch where
  "scratch_default = \<lparr>sc_exp = [], sc_decoder_freq = [], sc_cdf = cdf_default\<rparr>"

text \<open>The scan for the largest logit; \<open>0xff800000\<close> is \<open>f32::NEG_INFINITY\<close>.\<close>

definition scan_max :: "f32 list \<Rightarrow> (cdf_error, f32) res" where
  "scan_max logits =
    rfold (\<lambda>x mx. if \<not> f32_is_finite x then Err NonFiniteLogit
                   else Ok (if f32_lt mx x then x else mx)) logits 0xff800000"

text \<open>\<open>exp.resize(n, 0.0)\<close>, and the loop over the zipped slices, which leaves the entries past
  the shorter one alone.\<close>

definition resize :: "nat \<Rightarrow> 'a \<Rightarrow> 'a list \<Rightarrow> 'a list" where
  "resize n x xs = take n xs @ replicate (n - length xs) x"

definition fill_exp_slice :: "f32 list \<Rightarrow> f32 \<Rightarrow> f32 list \<Rightarrow> f32 list" where
  "fill_exp_slice logits mx ex =
    map (\<lambda>(dst, x). exp_f32 (f32_max (f32_sub x mx) (f32_lit (- 88) 1))) (zip ex logits) @
    drop (length logits) ex"

definition fill_exp_scratch :: "f32 list \<Rightarrow> f32 \<Rightarrow> f32 list \<Rightarrow> f32 list" where
  "fill_exp_scratch logits mx ex = fill_exp_slice logits mx (resize (length logits) 0 ex)"

text \<open>\<open>let p = ei / z; let g = (p * M) as u32; g + 1\<close>.\<close>

definition weight :: "f32 \<Rightarrow> f32 \<Rightarrow> (cdf_error, u32) res" where
  "weight z ei = (let p = f32_div ei z; g = f32_to_u32 (f32_mul p M) in add_or_panic g 1)"

fun cdf_loop :: "f32 \<Rightarrow> f32 list \<Rightarrow> u32 list \<Rightarrow> u64 list \<Rightarrow> u64 \<Rightarrow>
    (cdf_error, u32 list \<times> u64 list \<times> u64) res" where
  "cdf_loop z [] freq cum tot = Ok (freq, cum, tot)"
| "cdf_loop z (ei # es) freq cum tot =
    rbind (weight z ei) (\<lambda>f.
    rbind (add_or_panic tot (ucast f)) (\<lambda>tot'.
    cdf_loop z es (freq @ [f]) (cum @ [tot]) tot'))"

definition logits_to_cdf_with_scratch ::
    "f32 list \<Rightarrow> cdf_scratch \<Rightarrow> (cdf_error, cdf) res \<times> cdf_scratch" where
  "logits_to_cdf_with_scratch logits s =
    (if logits = [] then (Err Empty, s)
     else if MAX_SYMBOLS < length logits then (Err TooManySymbols, s)
     else case scan_max logits of
         Ok mx \<Rightarrow>
           let s = s\<lparr>sc_exp := fill_exp_scratch logits mx (sc_exp s)\<rparr>;
               z = sum_f32_ref (sc_exp s)
           in (case cdf_loop z (sc_exp s) [] [] 0 of
                 Ok (freq, cum, tot) \<Rightarrow>
                   let s = s\<lparr>sc_cdf := (sc_cdf s)\<lparr>c_freq := freq, c_cum := cum\<rparr>\<rparr> in
                   if cdf_total_limit \<le> tot then (Err TotalTooLarge, s)
                   else let s = s\<lparr>sc_cdf := (sc_cdf s)\<lparr>c_total := tot\<rparr>\<rparr> in (Ok (sc_cdf s), s)
               | Err e \<Rightarrow> (Err e, s) | Panic \<Rightarrow> (Panic, s) | Diverge \<Rightarrow> (Diverge, s))
       | Err e \<Rightarrow> (Err e, s) | Panic \<Rightarrow> (Panic, s) | Diverge \<Rightarrow> (Diverge, s))"

definition logits_to_cdf :: "f32 list \<Rightarrow> (cdf_error, cdf) res" where
  "logits_to_cdf logits = fst (logits_to_cdf_with_scratch logits scratch_default)"

text \<open>\<open>for _ in 0..symbols { cum.push(total); freq.push(f); total += f }\<close>.\<close>

primrec tail_loop :: "nat \<Rightarrow> u32 \<Rightarrow> cdf \<Rightarrow> (cdf_error, cdf) res" where
  "tail_loop 0 f c = Ok c"
| "tail_loop (Suc n) f c =
    rbind (add_or_panic (c_total c) (ucast f)) (\<lambda>tot.
    tail_loop n f (c\<lparr>c_cum := c_cum c @ [c_total c], c_freq := c_freq c @ [f], c_total := tot\<rparr>))"

definition append_uniform_tail :: "cdf \<Rightarrow> nat \<Rightarrow> u32 \<Rightarrow> (cdf_error, cdf) res" where
  "append_uniform_tail c symbols f =
    (if MAX_SYMBOLS < saturating_add_usize (length (c_freq c)) symbols then Err TooManySymbols
     else if f = 0 then Err Malformed
     else
       rbind (ok_or TotalTooLarge (checked_mul (word_of_nat symbols) (ucast f))) (\<lambda>add_total.
       rbind (ok_or TotalTooLarge (checked_add (c_total c) add_total)) (\<lambda>sum.
       if cdf_total_limit \<le> sum then Err TotalTooLarge
       else tail_loop symbols f c)))"

definition logits_to_cdf_with_byte_escapes ::
    "f32 list \<Rightarrow> cdf_scratch \<Rightarrow> (cdf_error, cdf) res \<times> cdf_scratch" where
  "logits_to_cdf_with_byte_escapes logits s =
    (if MAX_SYMBOLS < saturating_add_usize (length logits) BYTE_ESCAPE_SYMBOLS then (Err TooManySymbols, s)
     else case logits_to_cdf_with_scratch logits s of
         (Ok _, s) \<Rightarrow>
           (case append_uniform_tail (sc_cdf s) BYTE_ESCAPE_SYMBOLS 1 of
              Ok c \<Rightarrow> (Ok c, s\<lparr>sc_cdf := c\<rparr>)
            | Err e \<Rightarrow> (Err e, s) | Panic \<Rightarrow> (Panic, s) | Diverge \<Rightarrow> (Diverge, s))
       | (r, s) \<Rightarrow> (r, s))"

fun range_loop :: "f32 \<Rightarrow> f32 list \<Rightarrow> nat \<Rightarrow> nat \<Rightarrow> u64 \<Rightarrow> symbol_range option \<Rightarrow>
    (cdf_error, u64 \<times> symbol_range option) res" where
  "range_loop z [] idx symbol tot rng = Ok (tot, rng)"
| "range_loop z (ei # es) idx symbol tot rng =
    rbind (weight z ei) (\<lambda>f.
    let rng = (if idx = symbol then Some \<lparr>sr_cum = tot, sr_freq = f, sr_total = 0\<rparr> else rng) in
    rbind (add_or_panic tot (ucast f)) (\<lambda>tot'.
    range_loop z es (idx + 1) symbol tot' rng))"

definition logits_to_symbol_range_impl ::
    "f32 list \<Rightarrow> nat \<Rightarrow> nat \<Rightarrow> cdf_scratch \<Rightarrow> (cdf_error, symbol_range) res \<times> cdf_scratch" where
  "logits_to_symbol_range_impl logits symbol tail_symbols s =
    (if logits = [] then (Err Empty, s)
     else if MAX_SYMBOLS < saturating_add_usize (length logits) tail_symbols then (Err TooManySymbols, s)
     else if saturating_add_usize (length logits) tail_symbols \<le> symbol then (Err SymbolOutOfRange, s)
     else case scan_max logits of
         Ok mx \<Rightarrow>
           let s = s\<lparr>sc_exp := fill_exp_scratch logits mx (sc_exp s)\<rparr>;
               z = sum_f32_ref (sc_exp s)
           in (rbind (range_loop z (sc_exp s) 0 symbol 0 None) (\<lambda>(tot, rng).
               rbind (if length logits \<le> symbol
                      then rbind (add_or_panic tot (word_of_nat (symbol - length logits))) (\<lambda>cum.
                             Ok (Some \<lparr>sr_cum = cum, sr_freq = 1, sr_total = 0\<rparr>))
                      else Ok rng) (\<lambda>rng.
               rbind (ok_or TotalTooLarge (checked_add tot (word_of_nat tail_symbols))) (\<lambda>tot.
               if cdf_total_limit \<le> tot then Err TotalTooLarge
               else rbind (ok_or SymbolOutOfRange rng) (\<lambda>rng. Ok (rng\<lparr>sr_total := tot\<rparr>))))), s)
       | Err e \<Rightarrow> (Err e, s) | Panic \<Rightarrow> (Panic, s) | Diverge \<Rightarrow> (Diverge, s))"

definition logits_to_symbol_range_with_scratch ::
    "f32 list \<Rightarrow> nat \<Rightarrow> cdf_scratch \<Rightarrow> (cdf_error, symbol_range) res \<times> cdf_scratch" where
  "logits_to_symbol_range_with_scratch logits symbol s = logits_to_symbol_range_impl logits symbol 0 s"

definition logits_to_symbol_range_with_byte_escapes ::
    "f32 list \<Rightarrow> nat \<Rightarrow> cdf_scratch \<Rightarrow> (cdf_error, symbol_range) res \<times> cdf_scratch" where
  "logits_to_symbol_range_with_byte_escapes logits symbol s =
    logits_to_symbol_range_impl logits symbol BYTE_ESCAPE_SYMBOLS s"

fun decoder_loop :: "f32 \<Rightarrow> f32 list \<Rightarrow> u32 list \<Rightarrow> u64 \<Rightarrow> (cdf_error, u32 list \<times> u64) res" where
  "decoder_loop z [] freq tot = Ok (freq, tot)"
| "decoder_loop z (ei # es) freq tot =
    rbind (weight z ei) (\<lambda>f.
    rbind (ok_or TotalTooLarge (checked_add tot (ucast f))) (\<lambda>tot'.
    decoder_loop z es (freq @ [f]) tot'))"

definition logits_to_decoder_distribution_impl ::
    "f32 list \<Rightarrow> nat \<Rightarrow> cdf_scratch \<Rightarrow> (cdf_error, decoder_distribution) res \<times> cdf_scratch" where
  "logits_to_decoder_distribution_impl logits tail_symbols s =
    (if logits = [] then (Err Empty, s)
     else if MAX_SYMBOLS < saturating_add_usize (length logits) tail_symbols then (Err TooManySymbols, s)
     else case scan_max logits of
         Ok mx \<Rightarrow>
           let s = s\<lparr>sc_exp := fill_exp_scratch logits mx (sc_exp s)\<rparr>;
               z = sum_f32_ref (sc_exp s)
           in (case decoder_loop z (sc_exp s) [] 0 of
                 Ok (freq, tot) \<Rightarrow>
                   let s = s\<lparr>sc_decoder_freq := freq\<rparr> in
                   (rbind (ok_or TotalTooLarge (checked_add tot (word_of_nat tail_symbols))) (\<lambda>tot.
                    if cdf_total_limit \<le> tot then Err TotalTooLarge
                    else Ok \<lparr>dd_freq = sc_decoder_freq s, dd_tail_symbols = tail_symbols, dd_total = tot\<rparr>), s)
               | Err e \<Rightarrow> (Err e, s) | Panic \<Rightarrow> (Panic, s) | Diverge \<Rightarrow> (Diverge, s))
       | Err e \<Rightarrow> (Err e, s) | Panic \<Rightarrow> (Panic, s) | Diverge \<Rightarrow> (Diverge, s))"

definition logits_to_decoder_distribution_with_scratch ::
    "f32 list \<Rightarrow> cdf_scratch \<Rightarrow> (cdf_error, decoder_distribution) res \<times> cdf_scratch" where
  "logits_to_decoder_distribution_with_scratch logits s = logits_to_decoder_distribution_impl logits 0 s"

definition logits_to_decoder_distribution_with_byte_escapes ::
    "f32 list \<Rightarrow> cdf_scratch \<Rightarrow> (cdf_error, decoder_distribution) res \<times> cdf_scratch" where
  "logits_to_decoder_distribution_with_byte_escapes logits s =
    logits_to_decoder_distribution_impl logits BYTE_ESCAPE_SYMBOLS s"

definition uniform_cdf :: "nat \<Rightarrow> (cdf_error, cdf) res" where
  "uniform_cdf symbols =
    (if symbols = 0 then Err Empty
     else if MAX_SYMBOLS < symbols then Err TooManySymbols
     else
       let tot = word_of_nat symbols in
       if cdf_total_limit \<le> tot then Err TotalTooLarge
       else Ok \<lparr>c_freq = map (\<lambda>i. 1) [0..<symbols], c_cum = map word_of_nat [0..<symbols], c_total = tot\<rparr>)"

definition uniform_cdf_with_byte_escapes :: "nat \<Rightarrow> (cdf_error, cdf) res" where
  "uniform_cdf_with_byte_escapes vocab_len =
    rbind (ok_or TooManySymbols (checked_add_usize vocab_len BYTE_ESCAPE_SYMBOLS)) uniform_cdf"

definition uniform_symbol_range :: "nat \<Rightarrow> nat \<Rightarrow> (cdf_error, symbol_range) res" where
  "uniform_symbol_range symbol symbols =
    (if symbols = 0 then Err Empty
     else if MAX_SYMBOLS < symbols then Err TooManySymbols
     else if symbols \<le> symbol then Err SymbolOutOfRange
     else
       let tot = word_of_nat symbols in
       if cdf_total_limit \<le> tot then Err TotalTooLarge
       else Ok \<lparr>sr_cum = word_of_nat symbol, sr_freq = 1, sr_total = tot\<rparr>)"

fun cdf_check :: "(u64 \<times> u32) list \<Rightarrow> u64 \<Rightarrow> (cdf_error, u64) res" where
  "cdf_check [] tot = Ok tot"
| "cdf_check ((cum, freq) # rest) tot =
    (if freq = 0 \<or> cum \<noteq> tot then Err Malformed
     else rbind (ok_or TotalTooLarge (checked_add tot (ucast freq))) (cdf_check rest))"

definition cdf_validate :: "cdf \<Rightarrow> (cdf_error, unit) res" where
  "cdf_validate c =
    (if c_freq c = [] \<or> c_cum c = [] \<or> length (c_freq c) \<noteq> length (c_cum c) then Err Malformed
     else if MAX_SYMBOLS < length (c_freq c) then Err TooManySymbols
     else if c_total c = 0 \<or> cdf_total_limit \<le> c_total c then Err TotalTooLarge
     else rbind (cdf_check (zip (c_cum c) (c_freq c)) 0) (\<lambda>tot.
       if tot \<noteq> c_total c then Err Malformed else Ok ()))"

text \<open>\<open>partition_point\<close> of a list whose matching elements come first.\<close>

definition partition_point :: "('a \<Rightarrow> bool) \<Rightarrow> 'a list \<Rightarrow> nat" where
  "partition_point p xs = length (takeWhile p xs)"

definition symbol_for_validated :: "cdf \<Rightarrow> u64 \<Rightarrow> nat option" where
  "symbol_for_validated c value =
    (if c_cum c = [] \<or> length (c_cum c) \<noteq> length (c_freq c) \<or> c_total c \<le> value then None
     else let idx = partition_point (\<lambda>c. c \<le> value) (c_cum c) in Some (idx - 1))"

definition symbol_for :: "cdf \<Rightarrow> u64 \<Rightarrow> nat option" where
  "symbol_for c value =
    (case cdf_validate c of Ok _ \<Rightarrow> symbol_for_validated c value | _ \<Rightarrow> None)"

fun dd_scan :: "decoder_distribution \<Rightarrow> u64 \<Rightarrow> u32 list \<Rightarrow> nat \<Rightarrow> u64 \<Rightarrow> (nat \<times> symbol_range) option" where
  "dd_scan d value [] idx cum =
    (case checked_sub value cum of
       None \<Rightarrow> None
     | Some off \<Rightarrow>
         let tail_offset = unat off in
         if tail_offset < dd_tail_symbols d
         then Some (length (dd_freq d) + tail_offset, \<lparr>sr_cum = value, sr_freq = 1, sr_total = dd_total d\<rparr>)
         else None)"
| "dd_scan d value (freq # rest) idx cum =
    (case checked_add cum (ucast freq) of
       None \<Rightarrow> None
     | Some nxt \<Rightarrow>
         if value < nxt then Some (idx, \<lparr>sr_cum = cum, sr_freq = freq, sr_total = dd_total d\<rparr>)
         else dd_scan d value rest (idx + 1) nxt)"

definition dd_symbol_range :: "decoder_distribution \<Rightarrow> u64 \<Rightarrow> (nat \<times> symbol_range) option" where
  "dd_symbol_range d value = (if dd_total d \<le> value then None else dd_scan d value (dd_freq d) 0 0)"

section \<open>Tables from a list of weights\<close>

definition wsum :: "u32 list \<Rightarrow> nat" where
  "wsum ws = sum_list (map unat ws)"

primrec cums :: "nat \<Rightarrow> u32 list \<Rightarrow> u64 list" where
  "cums t [] = []"
| "cums t (w # ws) = word_of_nat t # cums (t + unat w) ws"

definition cdf_of :: "u32 list \<Rightarrow> cdf" where
  "cdf_of ws = \<lparr>c_freq = ws, c_cum = cums 0 ws, c_total = word_of_nat (wsum ws)\<rparr>"

definition range_of :: "u32 list \<Rightarrow> nat \<Rightarrow> symbol_range" where
  "range_of ws i = \<lparr>sr_cum = word_of_nat (wsum (take i ws)), sr_freq = ws ! i, sr_total = word_of_nat (wsum ws)\<rparr>"

definition distribution_of :: "u32 list \<Rightarrow> nat \<Rightarrow> decoder_distribution" where
  "distribution_of ws tail =
    \<lparr>dd_freq = ws, dd_tail_symbols = tail, dd_total = word_of_nat (wsum ws + tail)\<rparr>"

text \<open>A list of weights that makes a table: no zero weight, few symbols, a small total.\<close>

definition table_weights :: "u32 list \<Rightarrow> bool" where
  "table_weights ws \<longleftrightarrow> ws \<noteq> [] \<and> length ws \<le> MAX_SYMBOLS \<and> 0 \<notin> set ws \<and> wsum ws < 2 ^ 31"

lemma wsum_simps [simp]:
  "wsum [] = 0" "wsum (w # ws) = unat w + wsum ws" "wsum (us @ ws) = wsum us + wsum ws"
  "wsum (replicate n 1) = n"
  by (simp_all add: wsum_def sum_list_replicate)

lemma length_cums [simp]: "length (cums t ws) = length ws"
  by (induction ws arbitrary: t) auto

lemma cums_eq_Nil [simp]: "cums t ws = [] \<longleftrightarrow> ws = []"
  by (cases ws) auto

lemma cums_append [simp]: "cums t (us @ ws) = cums t us @ cums (t + wsum us) ws"
  by (induction us arbitrary: t) (auto simp: add.assoc)

lemma cums_nth: "i < length ws \<Longrightarrow> cums t ws ! i = word_of_nat (t + wsum (take i ws))"
  by (induction ws arbitrary: t i) (auto simp: nth_Cons' take_Cons' add.assoc)

lemma wsum_take_le: "wsum (take i ws) \<le> wsum ws"
  by (metis append_take_drop_id le_add1 wsum_simps(3))

lemma wsum_take_Suc: "i < length ws \<Longrightarrow> wsum (take (Suc i) ws) = wsum (take i ws) + unat (ws ! i)"
  by (simp add: take_Suc_conv_app_nth)

lemma wsum_bound: "wsum ws \<le> length ws * 2 ^ 32"
proof (induction ws)
  case (Cons w ws)
  have "unat w < 2 ^ 32" using unsigned_less [of w] by simp
  with Cons show ?case by simp
qed simp

lemma unat_small_u64: "n < 2 ^ 64 \<Longrightarrow> unat (word_of_nat n :: u64) = n"
  by (simp add: unsigned_of_nat take_bit_nat_eq_self)

lemma limit_le: "n < 2 ^ 64 \<Longrightarrow> cdf_total_limit \<le> word_of_nat n \<longleftrightarrow> 2 ^ 31 \<le> n"
  unfolding word_le_nat_alt unat_small_u64 by (simp add: cdf_total_limit_def)

text \<open>Adding one weight to a running total that is far from \<open>2 ^ 64\<close>.\<close>

lemma add_weight:
  assumes "t + 2 ^ 32 \<le> 2 ^ 64"
  shows "add_or_panic (word_of_nat t :: u64) (ucast (f :: u32)) = Ok (word_of_nat (t + unat f))"
    "checked_add (word_of_nat t :: u64) (ucast f) = Some (word_of_nat (t + unat f))"
proof -
  have f: "unat f < 2 ^ 32" using unsigned_less [of f] by simp
  then have "unat f < 2 ^ 64" by simp
  then have u: "unat (ucast f :: u64) = unat f" by (simp add: unsigned_ucast_eq take_bit_nat_eq_self)
  have "unat (word_of_nat t :: u64) + unat (ucast f :: u64) < 2 ^ 64"
    using assms f by (subst unat_small_u64) (simp_all add: u)
  then show "add_or_panic (word_of_nat t :: u64) (ucast f) = Ok (word_of_nat (t + unat f))"
    "checked_add (word_of_nat t :: u64) (ucast f) = Some (word_of_nat (t + unat f))"
    by simp_all
qed

lemma cdf_loop_weights:
  assumes "t + length es * 2 ^ 32 \<le> 2 ^ 63"
  shows "cdf_loop z es fs cs (word_of_nat t) =
    rbind (traverse (weight z) es) (\<lambda>ws. Ok (fs @ ws, cs @ cums t ws, word_of_nat (t + wsum ws)))"
  using assms
proof (induction es arbitrary: fs cs t)
  case (Cons e es)
  show ?case
  proof (cases "weight z e")
    case (Ok f)
    have "unat f < 2 ^ 32" using unsigned_less [of f] by simp
    then have "t + unat f + length es * 2 ^ 32 \<le> 2 ^ 63" "t + 2 ^ 32 \<le> 2 ^ 64" using Cons.prems by simp_all
    note IH = Cons.IH [OF this(1)] add_weight(1) [OF this(2), of f]
    show ?thesis
      by (simp add: Ok IH rbind_assoc add.assoc del: of_nat_add arith_or_panic_Ok)
  qed simp_all
qed simp

lemma range_loop_weights:
  assumes "t + length es * 2 ^ 32 \<le> 2 ^ 63"
  shows "range_loop z es idx symbol (word_of_nat t) rng =
    rbind (traverse (weight z) es) (\<lambda>ws. Ok (word_of_nat (t + wsum ws),
      if idx \<le> symbol \<and> symbol < idx + length ws
      then Some \<lparr>sr_cum = word_of_nat (t + wsum (take (symbol - idx) ws)), sr_freq = ws ! (symbol - idx), sr_total = 0\<rparr>
      else rng))"
  using assms
proof (induction es arbitrary: idx rng t)
  case (Cons e es)
  show ?case
  proof (cases "weight z e")
    case (Ok f)
    have "unat f < 2 ^ 32" using unsigned_less [of f] by simp
    then have "t + unat f + length es * 2 ^ 32 \<le> 2 ^ 63" "t + 2 ^ 32 \<le> 2 ^ 64" using Cons.prems by simp_all
    note IH = Cons.IH [OF this(1), of "Suc idx"] add_weight(1) [OF this(2), of f]
    define r where "r = (if idx = symbol then Some \<lparr>sr_cum = word_of_nat t, sr_freq = f, sr_total = 0\<rparr> else rng)"
    have step: "range_loop z (e # es) idx symbol (word_of_nat t) rng = rbind (traverse (weight z) es)
      (\<lambda>ws. Ok (word_of_nat (t + unat f + wsum ws),
        if Suc idx \<le> symbol \<and> symbol < Suc idx + length ws
        then Some \<lparr>sr_cum = word_of_nat (t + unat f + wsum (take (symbol - Suc idx) ws)),
                   sr_freq = ws ! (symbol - Suc idx), sr_total = 0\<rparr>
        else r))"
      by (simp add: Ok IH Let_def r_def [symmetric] del: of_nat_add arith_or_panic_Ok)
    consider "symbol < idx" | "symbol = idx" | j where "symbol = Suc (idx + j)"
      by (metis less_iff_Suc_add linorder_neqE_nat)
    then show ?thesis
      unfolding step
      by cases (auto simp: Ok r_def rbind_assoc add.assoc Suc_diff_le simp del: of_nat_add intro!: rbind_cong)
  qed simp_all
qed auto

lemma decoder_loop_weights:
  assumes "t + length es * 2 ^ 32 \<le> 2 ^ 63"
  shows "decoder_loop z es fs (word_of_nat t) =
    rbind (traverse (weight z) es) (\<lambda>ws. Ok (fs @ ws, word_of_nat (t + wsum ws)))"
  using assms
proof (induction es arbitrary: fs t)
  case (Cons e es)
  show ?case
  proof (cases "weight z e")
    case (Ok f)
    have "unat f < 2 ^ 32" using unsigned_less [of f] by simp
    then have "t + unat f + length es * 2 ^ 32 \<le> 2 ^ 63" "t + 2 ^ 32 \<le> 2 ^ 64" using Cons.prems by simp_all
    note IH = Cons.IH [OF this(1)] add_weight(2) [OF this(2), of f]
    show ?thesis
      by (simp add: Ok IH rbind_assoc add.assoc del: of_nat_add checked_add_Some)
  qed simp_all
qed simp

section \<open>The loops compute one list of weights\<close>

text \<open>The weights of the logits, or how their computation fails.\<close>

definition weights :: "f32 list \<Rightarrow> (cdf_error, u32 list) res" where
  "weights logits =
    rbind (scan_max logits) (\<lambda>mx.
      let ex = map (\<lambda>x. exp_f32 (f32_max (f32_sub x mx) (f32_lit (- 88) 1))) logits
      in traverse (weight (sum_f32_ref ex)) ex)"

lemma fill_exp_scratch_map:
  "fill_exp_scratch logits mx ex = map (\<lambda>x. exp_f32 (f32_max (f32_sub x mx) (f32_lit (- 88) 1))) logits"
proof -
  have "length (resize (length logits) 0 ex) = length logits" by (simp add: resize_def)
  then have "map (\<lambda>(dst, x). g x) (zip (resize (length logits) 0 ex) logits) @
      drop (length logits) (resize (length logits) 0 ex) = map g logits" for g :: "f32 \<Rightarrow> f32"
    by (auto intro!: nth_equalityI)
  then show ?thesis unfolding fill_exp_scratch_def fill_exp_slice_def .
qed

lemma scan_max_cases: "\<exists>mx. scan_max logits = Ok mx \<or> scan_max logits = Err NonFiniteLogit"
proof -
  have "\<exists>mx'. rfold (\<lambda>x mx. if \<not> f32_is_finite x then Err NonFiniteLogit
                   else Ok (if f32_lt mx x then x else mx)) xs mx = Ok mx' \<or>
    rfold (\<lambda>x mx. if \<not> f32_is_finite x then Err NonFiniteLogit
                   else Ok (if f32_lt mx x then x else mx)) xs mx = Err NonFiniteLogit" for xs mx
    by (induction xs arbitrary: mx) auto
  then show ?thesis unfolding scan_max_def by blast
qed

lemma weight_cases: "weight z e = Panic \<or> (\<exists>w. weight z e = Ok w \<and> w \<noteq> 0)"
proof (cases "weight z e")
  case (Ok w)
  define g where "g = f32_to_u32 (f32_mul (f32_div e z) M)"
  have "w = g + 1" "unat g + unat (1 :: u32) < 2 ^ 32" using Ok by (simp_all add: weight_def Let_def g_def)
  then have "unat w = unat g + unat (1 :: u32)" using unat_add_small [of g 1] by simp
  then have "w \<noteq> 0" by auto
  then show ?thesis using Ok by simp
qed (simp_all add: weight_def Let_def)

lemma weights_Ok:
  assumes "weights logits = Ok ws"
  shows "length ws = length logits" "0 \<notin> set ws"
proof -
  obtain z es where t: "traverse (weight z) es = Ok ws" and es: "length es = length logits"
    using assms by (auto simp: weights_def Let_def)
  show "length ws = length logits" using traverse_length [OF t] es by simp
  have "list_all2 (\<lambda>x y. weight z x = Ok y) es ws" using t by (simp add: traverse_Ok_iff)
  then show "0 \<notin> set ws" using weight_cases by (induction rule: list_all2_induct) (auto, metis res.distinct(3) res.inject(1))
qed

lemma table_bound: "length ws \<le> MAX_SYMBOLS \<Longrightarrow> wsum ws \<le> 2 ^ 50"
  using wsum_bound [of ws] by (simp add: MAX_SYMBOLS_def)

lemma cdf_with_scratch_weights:
  "fst (logits_to_cdf_with_scratch logits s) =
    (if logits = [] then Err Empty else if MAX_SYMBOLS < length logits then Err TooManySymbols
     else rbind (weights logits) (\<lambda>ws. if 2 ^ 31 \<le> wsum ws then Err TotalTooLarge else Ok (cdf_of ws)))"
  "logits_to_cdf_with_scratch logits s = (Ok c, s') \<Longrightarrow> sc_cdf s' = c"
proof -
  have "fst (logits_to_cdf_with_scratch logits s) =
    (if logits = [] then Err Empty else if MAX_SYMBOLS < length logits then Err TooManySymbols
     else rbind (weights logits) (\<lambda>ws. if 2 ^ 31 \<le> wsum ws then Err TotalTooLarge else Ok (cdf_of ws))) \<and>
    (logits_to_cdf_with_scratch logits s = (Ok c, s') \<longrightarrow> sc_cdf s' = c)"
  proof (cases "logits = [] \<or> MAX_SYMBOLS < length logits \<or> (\<exists>e. scan_max logits = Err e)")
    case True
    then show ?thesis by (auto simp: logits_to_cdf_with_scratch_def weights_def)
  next
    case False
    then obtain mx where mx: "scan_max logits = Ok mx" using scan_max_cases [of logits] by auto
    define ex where "ex = map (\<lambda>x. exp_f32 (f32_max (f32_sub x mx) (f32_lit (- 88) 1))) logits"
    have loop: "cdf_loop (sum_f32_ref ex) ex [] [] 0 =
        rbind (traverse (weight (sum_f32_ref ex)) ex) (\<lambda>ws. Ok (ws, cums 0 ws, word_of_nat (wsum ws)))"
      using cdf_loop_weights [of 0 ex "sum_f32_ref ex" "[]" "[]"] False by (simp add: ex_def MAX_SYMBOLS_def)
    have w: "weights logits = traverse (weight (sum_f32_ref ex)) ex" by (simp add: weights_def mx ex_def Let_def)
    show ?thesis
    proof (cases "weights logits")
      case (Ok ws)
      then have "wsum ws \<le> 2 ^ 50" using weights_Ok(1) [OF Ok] False by (intro table_bound) simp
      then have "wsum ws < 2 ^ 64" by simp
      then show ?thesis using False Ok w
        by (auto simp: logits_to_cdf_with_scratch_def mx fill_exp_scratch_map ex_def [symmetric] Let_def loop
            limit_le cdf_of_def)
    qed (use False w in \<open>auto simp: logits_to_cdf_with_scratch_def mx fill_exp_scratch_map
        ex_def [symmetric] Let_def loop\<close>)
  qed
  then show "fst (logits_to_cdf_with_scratch logits s) =
    (if logits = [] then Err Empty else if MAX_SYMBOLS < length logits then Err TooManySymbols
     else rbind (weights logits) (\<lambda>ws. if 2 ^ 31 \<le> wsum ws then Err TotalTooLarge else Ok (cdf_of ws)))"
    "logits_to_cdf_with_scratch logits s = (Ok c, s') \<Longrightarrow> sc_cdf s' = c" by auto
qed

lemma tail_loop_weights:
  assumes "wsum ws + n * unat f < 2 ^ 63"
  shows "tail_loop n f (cdf_of ws) = Ok (cdf_of (ws @ replicate n f))"
  using assms
proof (induction n arbitrary: ws)
  case (Suc n)
  have step: "add_or_panic (word_of_nat (wsum ws) :: u64) (ucast f) = Ok (word_of_nat (wsum ws + unat f))"
    using Suc.prems by (intro add_weight(1)) simp
  have "cdf_of (ws @ [f]) = \<lparr>c_freq = ws @ [f], c_cum = cums 0 ws @ [word_of_nat (wsum ws)],
      c_total = word_of_nat (wsum ws + unat f)\<rparr>"
    by (simp add: cdf_of_def)
  moreover have "tail_loop n f (cdf_of (ws @ [f])) = Ok (cdf_of ((ws @ [f]) @ replicate n f))"
    using Suc.prems by (intro Suc.IH) simp
  ultimately show ?case
    by (simp add: cdf_of_def [of ws] step del: arith_or_panic_Ok of_nat_add)
qed simp

lemma saturating_MAX [simp]: "MAX_SYMBOLS < saturating_add_usize a b \<longleftrightarrow> MAX_SYMBOLS < a + b"
  by (simp add: saturating_add_usize_def MAX_SYMBOLS_def usize_max_def)

lemma byte_escapes_weights:
  "fst (logits_to_cdf_with_byte_escapes logits s) =
    (if logits = [] then Err Empty else if MAX_SYMBOLS < length logits + 256 then Err TooManySymbols
     else rbind (weights logits) (\<lambda>ws. if 2 ^ 31 \<le> wsum ws + 256 then Err TotalTooLarge
       else Ok (cdf_of (ws @ replicate 256 1))))"
proof (cases "logits = [] \<or> MAX_SYMBOLS < length logits + 256")
  case True
  have "logits = [] \<Longrightarrow> logits_to_cdf_with_scratch logits s = (Err Empty, s)"
    by (simp add: logits_to_cdf_with_scratch_def)
  moreover have "\<not> MAX_SYMBOLS < (256 :: nat)" by (simp add: MAX_SYMBOLS_def)
  ultimately show ?thesis using True
    by (auto simp: logits_to_cdf_with_byte_escapes_def BYTE_ESCAPE_SYMBOLS_def)
next
  case False
  have sat: "\<not> MAX_SYMBOLS < saturating_add_usize (length logits) BYTE_ESCAPE_SYMBOLS"
    using False by (simp add: BYTE_ESCAPE_SYMBOLS_def saturating_add_usize_def)
  note f = cdf_with_scratch_weights [of logits s]
  obtain r s' where rs: "logits_to_cdf_with_scratch logits s = (r, s')" by fastforce
  then have r: "r = rbind (weights logits) (\<lambda>ws. if 2 ^ 31 \<le> wsum ws then Err TotalTooLarge else Ok (cdf_of ws))"
    using f(1) False by simp
  show ?thesis
  proof (cases "weights logits")
    case (Ok ws)
    have len: "length ws = length logits" using weights_Ok [OF Ok] by simp
    then have b: "wsum ws \<le> 2 ^ 50" using False by (intro table_bound) simp
    show ?thesis
    proof (cases "2 ^ 31 \<le> wsum ws")
      case True
      then show ?thesis using False Ok r rs sat by (simp add: logits_to_cdf_with_byte_escapes_def)
    next
      case small: False
      then have c: "r = Ok (cdf_of ws)" "sc_cdf s' = cdf_of ws" using f(2) rs r Ok by auto
      have "unat (word_of_nat (wsum ws) :: u64) = wsum ws" using b by (intro unat_small_u64) simp
      then have "append_uniform_tail (cdf_of ws) BYTE_ESCAPE_SYMBOLS 1 =
          (if 2 ^ 31 \<le> wsum ws + 256 then Err TotalTooLarge else Ok (cdf_of (ws @ replicate 256 1)))"
        using sat small len b limit_le [of "wsum ws + 256"] tail_loop_weights [of ws 256 1]
        by (simp add: append_uniform_tail_def cdf_of_def [of ws] BYTE_ESCAPE_SYMBOLS_def checked_mul_def
            checked_add_def)
      then show ?thesis using False Ok c rs sat
        by (simp add: logits_to_cdf_with_byte_escapes_def split: if_splits)
    qed
  qed (use False r rs sat in \<open>auto simp: logits_to_cdf_with_byte_escapes_def\<close>)
qed

lemma checked_add_nat:
  assumes "a \<le> 2 ^ 62" "b \<le> 2 ^ 62"
  shows "checked_add (word_of_nat a :: u64) (word_of_nat b) = Some (word_of_nat (a + b))"
    "add_or_panic (word_of_nat a :: u64) (word_of_nat b) = Ok (word_of_nat (a + b))"
proof -
  have "unat (word_of_nat a :: u64) = a" "unat (word_of_nat b :: u64) = b"
    using assms by (intro unat_small_u64; simp)+
  then show "checked_add (word_of_nat a :: u64) (word_of_nat b) = Some (word_of_nat (a + b))"
    "add_or_panic (word_of_nat a :: u64) (word_of_nat b) = Ok (word_of_nat (a + b))"
    using assms by simp_all
qed

lemma nth_tail: "i < length ws + n \<Longrightarrow> length ws \<le> i \<Longrightarrow> (ws @ replicate n (1 :: u32)) ! i = 1"
  by (simp add: nth_append)

lemma take_tail: "length ws \<le> i \<Longrightarrow> i \<le> length ws + n \<Longrightarrow>
    wsum (take i (ws @ replicate n 1)) = wsum ws + (i - length ws)"
  by (auto simp: min_def)

lemma symbol_range_weights:
  assumes "logits \<noteq> []" "length logits + tail \<le> MAX_SYMBOLS" "symbol < length logits + tail"
  shows "fst (logits_to_symbol_range_impl logits symbol tail s) =
    rbind (weights logits) (\<lambda>ws. if 2 ^ 31 \<le> wsum ws + tail then Err TotalTooLarge
      else Ok (range_of (ws @ replicate tail 1) symbol))"
proof (cases "scan_max logits")
  case (Ok mx)
  define ex where "ex = map (\<lambda>x. exp_f32 (f32_max (f32_sub x mx) (f32_lit (- 88) 1))) logits"
  have sat: "\<not> MAX_SYMBOLS < saturating_add_usize (length logits) tail"
    "\<not> saturating_add_usize (length logits) tail \<le> symbol"
    using assms by (simp_all add: saturating_add_usize_def MAX_SYMBOLS_def usize_max_def)
  have loop: "range_loop (sum_f32_ref ex) ex 0 symbol 0 None =
      rbind (traverse (weight (sum_f32_ref ex)) ex) (\<lambda>ws. Ok (word_of_nat (wsum ws),
        if symbol < length ws
        then Some \<lparr>sr_cum = word_of_nat (wsum (take symbol ws)), sr_freq = ws ! symbol, sr_total = 0\<rparr> else None))"
    using range_loop_weights [of 0 ex "sum_f32_ref ex" 0 symbol None] assms
    by (simp add: ex_def MAX_SYMBOLS_def cong: if_cong)
  have w: "weights logits = traverse (weight (sum_f32_ref ex)) ex" by (simp add: weights_def Ok ex_def Let_def)
  have red: "fst (logits_to_symbol_range_impl logits symbol tail s) =
      rbind (weights logits) (\<lambda>ws.
        rbind (if length logits \<le> symbol
               then rbind (add_or_panic (word_of_nat (wsum ws)) (word_of_nat (symbol - length logits))) (\<lambda>cum.
                      Ok (Some \<lparr>sr_cum = cum, sr_freq = 1, sr_total = 0\<rparr>))
               else Ok (if symbol < length ws
                 then Some \<lparr>sr_cum = word_of_nat (wsum (take symbol ws)), sr_freq = ws ! symbol, sr_total = 0\<rparr>
                 else None)) (\<lambda>rng.
        rbind (ok_or TotalTooLarge (checked_add (word_of_nat (wsum ws)) (word_of_nat tail))) (\<lambda>tot.
        if cdf_total_limit \<le> tot then Err TotalTooLarge
        else rbind (ok_or SymbolOutOfRange rng) (\<lambda>rng. Ok (rng\<lparr>sr_total := tot\<rparr>)))))"
    using assms(1) sat unfolding w
    by (simp add: logits_to_symbol_range_impl_def Ok fill_exp_scratch_map ex_def [symmetric] loop
        rbind_assoc Let_def)
  show ?thesis
  proof (cases "weights logits")
    case wok: (Ok ws)
    have len: "length ws = length logits" using weights_Ok [OF wok] by simp
    then have b: "wsum ws \<le> 2 ^ 50" using assms(2) by (intro table_bound) simp
    have t: "tail \<le> 2 ^ 62" "symbol - length logits \<le> 2 ^ 62" using assms by (simp_all add: MAX_SYMBOLS_def)
    have lim: "cdf_total_limit \<le> word_of_nat (wsum ws + tail) \<longleftrightarrow> 2 ^ 31 \<le> wsum ws + tail"
      using b t assms(2) by (intro limit_le) (simp add: MAX_SYMBOLS_def)
    note add = checked_add_nat [OF _ t(1), of "wsum ws"] checked_add_nat [OF _ t(2), of "wsum ws"]
    show ?thesis
    proof (cases "length logits \<le> symbol")
      case True
      have "range_of (ws @ replicate tail 1) symbol =
          \<lparr>sr_cum = word_of_nat (wsum ws + (symbol - length logits)), sr_freq = 1,
           sr_total = word_of_nat (wsum ws + tail)\<rparr>"
        unfolding range_of_def using True assms(3) len
        by (subst take_tail, simp, simp, subst nth_tail, simp_all)
      then show ?thesis using True b len
        by (simp add: red wok add lim del: of_nat_add of_nat_diff checked_add_Some arith_or_panic_Ok)
    next
      case False
      then show ?thesis using b len
        by (simp add: red wok add lim range_of_def nth_append del: of_nat_add checked_add_Some arith_or_panic_Ok)
    qed
  qed (simp_all add: red)
next
  case (Err e)
  then show ?thesis using assms
    by (simp add: logits_to_symbol_range_impl_def weights_def saturating_add_usize_def MAX_SYMBOLS_def usize_max_def)
qed (use scan_max_cases [of logits] in auto)

lemma distribution_weights:
  assumes "logits \<noteq> []" "length logits + tail \<le> MAX_SYMBOLS"
  shows "fst (logits_to_decoder_distribution_impl logits tail s) =
    rbind (weights logits) (\<lambda>ws. if 2 ^ 31 \<le> wsum ws + tail then Err TotalTooLarge
      else Ok (distribution_of ws tail))"
proof (cases "scan_max logits")
  case (Ok mx)
  define ex where "ex = map (\<lambda>x. exp_f32 (f32_max (f32_sub x mx) (f32_lit (- 88) 1))) logits"
  have sat: "\<not> MAX_SYMBOLS < saturating_add_usize (length logits) tail" using assms(2) by simp
  have loop: "decoder_loop (sum_f32_ref ex) ex [] 0 =
      rbind (traverse (weight (sum_f32_ref ex)) ex) (\<lambda>ws. Ok (ws, word_of_nat (wsum ws)))"
    using decoder_loop_weights [of 0 ex "sum_f32_ref ex" "[]"] assms by (simp add: ex_def MAX_SYMBOLS_def)
  have w: "weights logits = traverse (weight (sum_f32_ref ex)) ex" by (simp add: weights_def Ok ex_def Let_def)
  show ?thesis
  proof (cases "weights logits")
    case wok: (Ok ws)
    then have b: "wsum ws \<le> 2 ^ 50" using weights_Ok(1) [OF wok] assms(2) by (intro table_bound) simp
    have t: "tail \<le> 2 ^ 62" using assms by (simp add: MAX_SYMBOLS_def)
    have lim: "cdf_total_limit \<le> word_of_nat (wsum ws + tail) \<longleftrightarrow> 2 ^ 31 \<le> wsum ws + tail"
      using b t assms(2) by (intro limit_le) (simp add: MAX_SYMBOLS_def)
    show ?thesis using assms(1) sat b wok [unfolded w] checked_add_nat [OF _ t, of "wsum ws"]
      by (simp add: logits_to_decoder_distribution_impl_def Ok fill_exp_scratch_map ex_def [symmetric] loop
        Let_def wok lim distribution_of_def del: of_nat_add checked_add_Some arith_or_panic_Ok saturating_MAX)
  qed (use assms(1) sat in \<open>simp_all add: logits_to_decoder_distribution_impl_def Ok fill_exp_scratch_map
      ex_def [symmetric] loop Let_def w\<close>)
next
  case (Err e)
  then show ?thesis using assms by (simp add: logits_to_decoder_distribution_impl_def weights_def)
qed (use scan_max_cases [of logits] in auto)

section \<open>Looking a value up\<close>

fun locate :: "u32 list \<Rightarrow> nat \<Rightarrow> nat" where
  "locate [] v = 0"
| "locate (w # ws) v = (if v < unat w then 0 else Suc (locate ws (v - unat w)))"

lemma locate_bounds:
  "v < wsum ws \<Longrightarrow> locate ws v < length ws \<and> wsum (take (locate ws v) ws) \<le> v \<and>
     v < wsum (take (locate ws v) ws) + unat (ws ! locate ws v)"
proof (induction ws v rule: locate.induct)
  case (2 w ws v)
  show ?case
  proof (cases "v < unat w")
    case False
    then have "v - unat w < wsum ws" using 2(2) by simp
    from 2(1) [OF False this] False show ?thesis by simp linarith
  qed simp
qed simp

lemma locate_unique:
  "i < length ws \<Longrightarrow> wsum (take i ws) \<le> v \<Longrightarrow> v < wsum (take i ws) + unat (ws ! i) \<Longrightarrow> locate ws v = i"
proof (induction ws v arbitrary: i rule: locate.induct)
  case (2 w ws v)
  show ?case
  proof (cases i)
    case (Suc j)
    then have ge: "\<not> v < unat w" and j: "j < length ws" "wsum (take j ws) \<le> v - unat w"
      "v - unat w < wsum (take j ws) + unat (ws ! j)"
      using 2(2-4) by simp_all
    from 2(1) [OF ge j] show ?thesis using Suc ge by simp
  qed (use 2 in simp)
qed simp

lemma locate_append:
  "locate (us @ ws) v = (if v < wsum us then locate us v else length us + locate ws (v - wsum us))"
  by (induction us v rule: locate.induct) auto

lemma locate_ones: "v < n \<Longrightarrow> locate (replicate n 1) v = v"
  by (induction n arbitrary: v) (auto simp: less_Suc_eq_0_disj)

lemma takeWhile_cums:
  assumes "t + wsum ws < 2 ^ 63" "t \<le> v" "v < t + wsum ws"
  shows "length (takeWhile (\<lambda>c. c \<le> word_of_nat v) (cums t ws)) = Suc (locate ws (v - t))"
  using assms
proof (induction ws arbitrary: t)
  case (Cons w ws)
  have u: "unat (word_of_nat v :: u64) = v" "unat (word_of_nat t :: u64) = t"
    using Cons.prems by (intro unat_small_u64; simp)+
  have hd: "word_of_nat t \<le> (word_of_nat v :: u64)" using Cons.prems(2) u by (simp add: word_le_nat_alt)
  show ?case
  proof (cases "v < t + unat w")
    case True
    have "takeWhile (\<lambda>c. c \<le> (word_of_nat v :: u64)) (cums (t + unat w) ws) = []"
    proof (cases ws)
      case (Cons w' ws')
      have "unat (word_of_nat (t + unat w) :: u64) = t + unat w"
        using Cons.prems by (intro unat_small_u64) simp
      then have "\<not> word_of_nat (t + unat w) \<le> (word_of_nat v :: u64)"
        using True u by (simp add: word_le_nat_alt del: of_nat_add)
      then show ?thesis using Cons by (simp del: of_nat_add)
    qed simp
    then show ?thesis using True hd Cons.prems by auto
  next
    case False
    then have "length (takeWhile (\<lambda>c. c \<le> word_of_nat v) (cums (t + unat w) ws)) =
        Suc (locate ws (v - (t + unat w)))"
      using Cons.prems by (intro Cons.IH) auto
    then show ?thesis using False hd Cons.prems by (auto simp: diff_diff_left)
  qed
qed simp

lemma cdf_check_weights:
  "t + length ws * 2 ^ 32 < 2 ^ 63 \<Longrightarrow>
    cdf_check (zip cs ws) (word_of_nat t) = Ok tot \<Longrightarrow> length cs = length ws \<Longrightarrow>
    0 \<notin> set ws \<and> cs = cums t ws \<and> tot = word_of_nat (t + wsum ws)"
proof (induction ws arbitrary: t cs)
  case (Cons w ws)
  obtain c cs' where cs: "cs = c # cs'" using Cons.prems(3) by (cases cs) auto
  have "unat w < 2 ^ 32" using unsigned_less [of w] by simp
  then have b: "t + unat w + length ws * 2 ^ 32 < 2 ^ 63" "t + 2 ^ 32 \<le> 2 ^ 64" using Cons.prems(1) by simp_all
  from Cons.prems(2) have "w \<noteq> 0" "c = word_of_nat t"
    and "cdf_check (zip cs' ws) (word_of_nat (t + unat w)) = Ok tot"
    by (auto simp: cs add_weight(2) [OF b(2)] simp del: of_nat_add checked_add_Some split: if_splits)
  with Cons.IH [OF b(1) this(3)] Cons.prems(3) show ?case by (simp add: cs add.assoc del: of_nat_add)
qed simp

lemma cdf_check_cums:
  "t + length ws * 2 ^ 32 < 2 ^ 63 \<Longrightarrow> 0 \<notin> set ws \<Longrightarrow>
    cdf_check (zip (cums t ws) ws) (word_of_nat t) = Ok (word_of_nat (t + wsum ws))"
proof (induction ws arbitrary: t)
  case (Cons w ws)
  have "unat w < 2 ^ 32" using unsigned_less [of w] by simp
  then have b: "t + unat w + length ws * 2 ^ 32 < 2 ^ 63" "t + 2 ^ 32 \<le> 2 ^ 64" using Cons.prems(1) by simp_all
  from Cons.IH [OF b(1)] Cons.prems show ?case
    by (auto simp: add_weight(2) [OF b(2)] add.assoc simp del: of_nat_add checked_add_Some)
qed simp

text \<open>\<open>validate\<close> accepts exactly the tables of admissible weight lists.\<close>

lemma cdf_validate_iff: "cdf_validate c = Ok u \<longleftrightarrow> c = cdf_of (c_freq c) \<and> table_weights (c_freq c)"
proof
  define ws where "ws = c_freq c"
  assume ok: "cdf_validate c = Ok u"
  then have len: "ws \<noteq> []" "length (c_cum c) = length ws" "length ws \<le> MAX_SYMBOLS"
    and tot: "\<not> cdf_total_limit \<le> c_total c" and chk: "cdf_check (zip (c_cum c) ws) 0 = Ok (c_total c)"
    by (auto simp: cdf_validate_def ws_def split: if_splits)
  have "0 + length ws * 2 ^ 32 < 2 ^ 63" using len(3) by (simp add: MAX_SYMBOLS_def)
  from cdf_check_weights [OF this _ len(2)] chk have
    w: "0 \<notin> set ws" "c_cum c = cums 0 ws" "c_total c = word_of_nat (wsum ws)" by simp_all
  have "wsum ws < 2 ^ 64" using table_bound [OF len(3)] by simp
  then have "wsum ws < 2 ^ 31" using tot w(3) limit_le by simp
  then show "c = cdf_of (c_freq c) \<and> table_weights (c_freq c)"
    using w len by (simp add: cdf_of_def table_weights_def ws_def)
next
  assume "c = cdf_of (c_freq c) \<and> table_weights (c_freq c)"
  then obtain ws where c: "c = cdf_of ws" and tw: "table_weights ws" by blast
  have "0 + length ws * 2 ^ 32 < 2 ^ 63" using tw by (simp add: table_weights_def MAX_SYMBOLS_def)
  from cdf_check_cums [OF this] tw have "cdf_check (zip (cums 0 ws) ws) 0 = Ok (word_of_nat (wsum ws))"
    by (simp add: table_weights_def)
  moreover have "wsum ws \<noteq> 0"
    using tw by (cases ws) (auto simp: table_weights_def unat_eq_0)
  moreover have "unat (word_of_nat (wsum ws) :: u64) = wsum ws"
    using tw by (intro unat_small_u64) (simp add: table_weights_def)
  ultimately show "cdf_validate c = Ok u"
    using tw limit_le [of "wsum ws"]
    by (auto simp: c cdf_validate_def cdf_of_def table_weights_def)
qed

lemma symbol_for_locate:
  assumes "table_weights ws" "v < word_of_nat (wsum ws)"
  shows "symbol_for_validated (cdf_of ws) v = Some (locate ws (unat v))" "unat v < wsum ws"
proof -
  have "unat (word_of_nat (wsum ws) :: u64) = wsum ws"
    using assms by (intro unat_small_u64) (simp add: table_weights_def)
  then show v: "unat v < wsum ws" using assms(2) by (simp add: word_less_nat_alt)
  have "length (takeWhile (\<lambda>c. c \<le> word_of_nat (unat v)) (cums 0 ws)) = Suc (locate ws (unat v - 0))"
    using assms(1) v by (intro takeWhile_cums) (simp_all add: table_weights_def)
  then have "partition_point (\<lambda>c. c \<le> v) (cums 0 ws) = Suc (locate ws (unat v))"
    by (simp add: partition_point_def)
  moreover have "cums 0 ws \<noteq> []" using assms(1) by (simp add: table_weights_def)
  ultimately show "symbol_for_validated (cdf_of ws) v = Some (locate ws (unat v))"
    using assms(2) by (simp add: symbol_for_validated_def cdf_of_def not_le)
qed

lemma dd_scan_locate:
  assumes "t + wsum ws + tail < 2 ^ 63" "t + length ws * 2 ^ 32 < 2 ^ 63" "t \<le> v" "v < t + wsum ws + tail"
    and "tail = dd_tail_symbols d" "idx + length ws = length (dd_freq d)"
  shows "dd_scan d (word_of_nat v) ws idx (word_of_nat t) =
    (let i = locate (ws @ replicate tail 1) (v - t) in
     Some (idx + i, \<lparr>sr_cum = word_of_nat (t + wsum (take i (ws @ replicate tail 1))),
       sr_freq = (ws @ replicate tail 1) ! i, sr_total = dd_total d\<rparr>))"
  using assms
proof (induction ws arbitrary: t idx)
  case Nil
  have u: "unat (word_of_nat v :: u64) = v" "unat (word_of_nat t :: u64) = t"
    using Nil.prems by (intro unat_small_u64; simp)+
  then have le: "word_of_nat t \<le> (word_of_nat v :: u64)" using Nil.prems by (simp add: word_le_nat_alt)
  then have off: "unat (word_of_nat v - word_of_nat t :: u64) = v - t"
    using u by (simp only: unat_sub_small)
  have small: "v - t < tail" using Nil.prems by simp
  moreover have "word_of_nat t + word_of_nat (v - t) = (word_of_nat v :: u64)"
    using Nil.prems by (simp flip: of_nat_add)
  ultimately show ?case using le off Nil.prems locate_ones [OF small] u
    by (simp add: checked_sub_def Let_def min_def del: of_nat_diff)
next
  case (Cons w ws)
  have "unat w < 2 ^ 32" using unsigned_less [of w] by simp
  then have b: "t + 2 ^ 32 \<le> 2 ^ 64" "t + unat w + wsum ws + tail < 2 ^ 63"
    "t + unat w + length ws * 2 ^ 32 < 2 ^ 63" using Cons.prems by simp_all
  have u: "unat (word_of_nat v :: u64) = v" "unat (word_of_nat (t + unat w) :: u64) = t + unat w"
    using Cons.prems b by (intro unat_small_u64; simp)+
  then have less: "word_of_nat v < (word_of_nat (t + unat w) :: u64) \<longleftrightarrow> v < t + unat w"
    by (simp add: word_less_nat_alt del: of_nat_add)
  show ?case
  proof (cases "v < t + unat w")
    case True
    then have "v - t < unat w" using Cons.prems by simp
    then show ?thesis using True less
      by (simp add: add_weight(2) [OF b(1)] del: of_nat_add checked_add_Some)
  next
    case False
    then have "\<not> v - t < unat w" using Cons.prems by simp
    moreover have "dd_scan d (word_of_nat v) ws (Suc idx) (word_of_nat (t + unat w)) =
      (let i = locate (ws @ replicate tail 1) (v - (t + unat w)) in
       Some (Suc idx + i, \<lparr>sr_cum = word_of_nat (t + unat w + wsum (take i (ws @ replicate tail 1))),
         sr_freq = (ws @ replicate tail 1) ! i, sr_total = dd_total d\<rparr>))"
      using Cons.prems b False by (intro Cons.IH) auto
    ultimately show ?thesis using False less
      by (simp add: add_weight(2) [OF b(1)] Let_def add.assoc diff_diff_left del: of_nat_add checked_add_Some)
  qed
qed

lemma dd_symbol_range_locate:
  assumes "length ws \<le> MAX_SYMBOLS" "wsum ws + tail < 2 ^ 31" "v < word_of_nat (wsum ws + tail)"
  shows "dd_symbol_range (distribution_of ws tail) v =
      (let i = locate (ws @ replicate tail 1) (unat v) in Some (i, range_of (ws @ replicate tail 1) i))"
    "unat v < wsum (ws @ replicate tail 1)"
proof -
  have "unat (word_of_nat (wsum ws + tail) :: u64) = wsum ws + tail"
    using assms by (intro unat_small_u64) simp
  then have v: "unat v < wsum ws + tail" using assms(3) by (simp add: word_less_nat_alt del: of_nat_add)
  then show "unat v < wsum (ws @ replicate tail 1)" by simp
  have "dd_scan (distribution_of ws tail) (word_of_nat (unat v)) ws 0 (word_of_nat 0) =
    (let i = locate (ws @ replicate tail 1) (unat v - 0) in
     Some (0 + i, \<lparr>sr_cum = word_of_nat (0 + wsum (take i (ws @ replicate tail 1))),
       sr_freq = (ws @ replicate tail 1) ! i, sr_total = dd_total (distribution_of ws tail)\<rparr>))"
    using assms v by (intro dd_scan_locate) (simp_all add: distribution_of_def MAX_SYMBOLS_def)
  then show "dd_symbol_range (distribution_of ws tail) v =
      (let i = locate (ws @ replicate tail 1) (unat v) in Some (i, range_of (ws @ replicate tail 1) i))"
    using assms(3) by (simp add: dd_symbol_range_def distribution_of_def range_of_def Let_def not_le del: of_nat_add)
qed

section \<open>The interface of a table\<close>

text \<open>
  What a codec needs of a table: \<open>ival t i\<close> is the interval of symbol \<open>i\<close>, \<open>look t v\<close> the
  symbol a decoded value belongs to.
\<close>

locale symbol_table =
  fixes ok :: "'t \<Rightarrow> bool"
    and tot :: "'t \<Rightarrow> u64"
    and ival :: "'t \<Rightarrow> nat \<Rightarrow> (u64 \<times> u64) option"
    and look :: "'t \<Rightarrow> u64 \<Rightarrow> nat option"
  assumes ival_valid: "ok t \<Longrightarrow> ival t i = Some (c, f) \<Longrightarrow> valid_interval c f (tot t)"
    and look_ival: "ok t \<Longrightarrow> v < tot t \<Longrightarrow> \<exists>i c f. look t v = Some i \<and> ival t i = Some (c, f) \<and>
      c \<le> v \<and> unat v < unat c + unat f"
    and look_unique: "ok t \<Longrightarrow> ival t i = Some (c, f) \<Longrightarrow> c \<le> v \<Longrightarrow> unat v < unat c + unat f \<Longrightarrow>
      look t v = Some i"
begin

text \<open>The intervals of different symbols do not overlap, and together they cover the range.\<close>

lemma disjoint: "ok t \<Longrightarrow> ival t i = Some (c, f) \<Longrightarrow> ival t j = Some (c', f') \<Longrightarrow>
    c \<le> v \<Longrightarrow> unat v < unat c + unat f \<Longrightarrow> c' \<le> v \<Longrightarrow> unat v < unat c' + unat f' \<Longrightarrow> i = j"
  using look_unique by (metis option.inject)

lemma look_below: "ok t \<Longrightarrow> ival t i = Some (c, f) \<Longrightarrow> c \<le> v \<Longrightarrow> unat v < unat c + unat f \<Longrightarrow> v < tot t"
  using ival_valid [of t i c f] by (simp add: valid_interval_def word_less_nat_alt)

end

definition cdf_ok :: "cdf \<Rightarrow> bool" where
  "cdf_ok c \<longleftrightarrow> cdf_validate c = Ok ()"

text \<open>\<open>cum.get(i).zip(freq.get(i))\<close>.\<close>

definition cdf_ival :: "cdf \<Rightarrow> nat \<Rightarrow> (u64 \<times> u64) option" where
  "cdf_ival c i =
    (case (get_at (c_cum c) i, get_at (c_freq c) i) of
       (Some cum, Some freq) \<Rightarrow> Some (cum, ucast freq) | _ \<Rightarrow> None)"

lemma cdf_ival_of: "cdf_ival (cdf_of ws) i =
    (if i < length ws then Some (word_of_nat (wsum (take i ws)), ucast (ws ! i)) else None)"
  by (simp add: cdf_ival_def cdf_of_def get_at_def cums_nth)

lemma unat_ucast_u32: "unat (ucast (w :: u32) :: u64) = unat w"
proof -
  have "unat w < 2 ^ 32" using unsigned_less [of w] by simp
  then have "unat w < 2 ^ 64" by simp
  then show ?thesis by (simp add: unsigned_ucast_eq take_bit_nat_eq_self)
qed

lemma range_valid:
  assumes "wsum ws < 2 ^ 31" "0 \<notin> set ws" "i < length ws"
  shows "valid_interval (word_of_nat (wsum (take i ws))) (ucast (ws ! i)) (word_of_nat (wsum ws))"
    "unat (word_of_nat (wsum (take i ws)) :: u64) = wsum (take i ws)"
proof -
  have le: "wsum (take i ws) + unat (ws ! i) \<le> wsum ws"
    using wsum_take_le [of "Suc i" ws] wsum_take_Suc [OF assms(3)] by simp
  show u: "unat (word_of_nat (wsum (take i ws)) :: u64) = wsum (take i ws)"
    using le assms(1) by (intro unat_small_u64) simp
  have t: "unat (word_of_nat (wsum ws) :: u64) = wsum ws" using assms(1) by (intro unat_small_u64) simp
  have "ws ! i \<noteq> 0" using assms(2,3) by (metis nth_mem)
  then have "unat (ws ! i) \<noteq> 0" by (simp add: unat_eq_0)
  then show "valid_interval (word_of_nat (wsum (take i ws))) (ucast (ws ! i)) (word_of_nat (wsum ws))"
    unfolding valid_interval_def u t unat_ucast_u32 using le assms(1) by simp
qed

lemma located_in:
  assumes "wsum ws < 2 ^ 31" "unat (v :: u64) < wsum ws"
  defines "i \<equiv> locate ws (unat v)"
  shows "i < length ws" "word_of_nat (wsum (take i ws)) \<le> v"
    "unat v < wsum (take i ws) + unat (ws ! i)"
proof -
  have "unat (word_of_nat (wsum (take i ws)) :: u64) = wsum (take i ws)"
    using assms(1) wsum_take_le [of i ws] by (intro unat_small_u64) simp
  then show "word_of_nat (wsum (take i ws)) \<le> v"
    using locate_bounds [OF assms(2)] by (simp only: word_le_nat_alt i_def)
qed (use locate_bounds [OF assms(2)] in \<open>simp_all add: i_def\<close>)

interpretation ct: symbol_table cdf_ok c_total cdf_ival symbol_for_validated
proof unfold_locales
  fix t i c f assume "cdf_ok t" and iv: "cdf_ival t i = Some (c, f)"
  then obtain ws where t: "t = cdf_of ws" and ws: "table_weights ws"
    by (auto simp: cdf_ok_def cdf_validate_iff)
  show "valid_interval c f (c_total t)"
    using iv ws range_valid(1) [of ws i] by (simp add: t cdf_ival_of table_weights_def split: if_splits)
      (simp add: cdf_of_def)
next
  fix t v assume "cdf_ok t" and v: "v < c_total t"
  then obtain ws where t: "t = cdf_of ws" and ws: "table_weights ws"
    by (auto simp: cdf_ok_def cdf_validate_iff)
  have v': "v < word_of_nat (wsum ws)" using v by (simp add: t cdf_of_def)
  note look = symbol_for_locate [OF ws v']
  have small: "wsum ws < 2 ^ 31" using ws by (simp add: table_weights_def)
  define i where "i = locate ws (unat v)"
  note loc = located_in [OF small look(2), folded i_def]
  have "unat (word_of_nat (wsum (take i ws)) :: u64) = wsum (take i ws)"
    using small wsum_take_le [of i ws] by (intro unat_small_u64) simp
  then show "\<exists>i c f. symbol_for_validated t v = Some i \<and> cdf_ival t i = Some (c, f) \<and> c \<le> v \<and> unat v < unat c + unat f"
    using loc look(1) by (intro exI [of _ i]) (simp add: t cdf_ival_of i_def [symmetric] unat_ucast_u32)
next
  fix t i c f v assume "cdf_ok t" and iv: "cdf_ival t i = Some (c, f)" and v: "c \<le> v" "unat v < unat c + unat f"
  then obtain ws where t: "t = cdf_of ws" and ws: "table_weights ws"
    by (auto simp: cdf_ok_def cdf_validate_iff)
  have i: "i < length ws" "c = word_of_nat (wsum (take i ws))" "f = ucast (ws ! i)"
    using iv by (auto simp: t cdf_ival_of split: if_splits)
  have small: "wsum ws < 2 ^ 31" "0 \<notin> set ws" using ws by (simp_all add: table_weights_def)
  note rv = range_valid [OF small i(1)]
  have "unat v < wsum (take i ws) + unat (ws ! i)" "wsum (take i ws) \<le> unat v"
    using v rv(2) by (simp_all add: i(2,3) unat_ucast_u32 word_le_nat_alt)
  then have "locate ws (unat v) = i" using i(1) by (intro locate_unique)
  moreover have "v < word_of_nat (wsum ws)"
    using rv(1) v unfolding i(2,3) by (simp add: valid_interval_def word_less_nat_alt)
  ultimately show "symbol_for_validated t v = Some i"
    using symbol_for_locate [OF ws] by (simp add: t)
qed

text \<open>The decoder's table of well-formed weights.\<close>

definition dd_ok :: "decoder_distribution \<Rightarrow> bool" where
  "dd_ok d \<longleftrightarrow> (\<exists>ws tail. d = distribution_of ws tail \<and> length ws \<le> MAX_SYMBOLS \<and> 0 \<notin> set ws \<and>
    wsum ws + tail < 2 ^ 31)"

definition dd_weights :: "decoder_distribution \<Rightarrow> u32 list" where
  "dd_weights d = dd_freq d @ replicate (dd_tail_symbols d) 1"

definition dd_ival :: "decoder_distribution \<Rightarrow> nat \<Rightarrow> (u64 \<times> u64) option" where
  "dd_ival d i =
    (if i < length (dd_weights d)
     then Some (word_of_nat (wsum (take i (dd_weights d))), ucast (dd_weights d ! i)) else None)"

definition dd_look :: "decoder_distribution \<Rightarrow> u64 \<Rightarrow> nat option" where
  "dd_look d v = map_option fst (dd_symbol_range d v)"

interpretation dt: symbol_table dd_ok dd_total dd_ival dd_look
proof unfold_locales
  fix t i c f assume "dd_ok t" and iv: "dd_ival t i = Some (c, f)"
  then obtain ws tail where t: "t = distribution_of ws tail" "length ws \<le> MAX_SYMBOLS" "0 \<notin> set ws"
    "wsum ws + tail < 2 ^ 31" by (auto simp: dd_ok_def)
  show "valid_interval c f (dd_total t)"
    using iv t range_valid(1) [of "ws @ replicate tail 1" i]
    by (auto simp: dd_ival_def dd_weights_def distribution_of_def split: if_splits)
next
  fix t v assume "dd_ok t" and v: "v < dd_total t"
  then obtain ws tail where t: "t = distribution_of ws tail" "length ws \<le> MAX_SYMBOLS" "0 \<notin> set ws"
    "wsum ws + tail < 2 ^ 31" by (auto simp: dd_ok_def)
  define us where "us = ws @ replicate tail (1 :: u32)"
  have us: "wsum us = wsum ws + tail" "wsum us < 2 ^ 31" using t(4) by (simp_all add: us_def)
  have "v < word_of_nat (wsum ws + tail)" using v t(1) by (simp add: distribution_of_def)
  note look = dd_symbol_range_locate [OF t(2,4) this, folded us_def]
  define i where "i = locate us (unat v)"
  note loc = located_in [OF us(2) look(2), folded i_def]
  have "unat (word_of_nat (wsum (take i us)) :: u64) = wsum (take i us)"
    using us(2) wsum_take_le [of i us] by (intro unat_small_u64) simp
  moreover have "dd_weights t = us" by (simp add: dd_weights_def distribution_of_def t(1) us_def)
  ultimately show "\<exists>i c f. dd_look t v = Some i \<and> dd_ival t i = Some (c, f) \<and> c \<le> v \<and> unat v < unat c + unat f"
    using loc look(1) unfolding i_def [symmetric]
    by (intro exI [of _ i]) (simp add: dd_look_def dd_ival_def t(1) unat_ucast_u32 Let_def)
next
  fix t i c f v assume "dd_ok t" and iv: "dd_ival t i = Some (c, f)" and v: "c \<le> v" "unat v < unat c + unat f"
  then obtain ws tail where t: "t = distribution_of ws tail" "length ws \<le> MAX_SYMBOLS" "0 \<notin> set ws"
    "wsum ws + tail < 2 ^ 31" by (auto simp: dd_ok_def)
  define us where "us = ws @ replicate tail (1 :: u32)"
  have us: "wsum us < 2 ^ 31" "0 \<notin> set us" using t(3,4) by (auto simp: us_def)
  have "dd_weights t = us" by (simp add: dd_weights_def distribution_of_def t(1) us_def)
  then have i: "i < length us" "c = word_of_nat (wsum (take i us))" "f = ucast (us ! i)"
    using iv by (auto simp: dd_ival_def split: if_splits)
  note rv = range_valid [OF us i(1)]
  have "unat v < wsum (take i us) + unat (us ! i)" "wsum (take i us) \<le> unat v"
    using v rv(2) by (simp_all add: i(2,3) unat_ucast_u32 word_le_nat_alt)
  then have "locate us (unat v) = i" using i(1) by (intro locate_unique)
  moreover have "v < word_of_nat (wsum us)"
    using rv(1) v unfolding i(2,3) by (simp add: valid_interval_def word_less_nat_alt)
  then have "v < word_of_nat (wsum ws + tail)" by (simp add: us_def)
  ultimately show "dd_look t v = Some i"
    using dd_symbol_range_locate(1) [OF t(2,4)] by (simp add: dd_look_def t(1) us_def [symmetric] Let_def)
qed

section \<open>Properties\<close>

text \<open>A small table, for the witnesses.\<close>

definition even_weights :: "u32 list" where "even_weights = [1, 2, 1]"

lemma even_weights_table: "table_weights even_weights"
  by (simp add: table_weights_def even_weights_def MAX_SYMBOLS_def)

text \<open>C7: A table built from logits is well formed. It has one entry per logit, every weight is
  at least 1, the cumulative weights are the partial sums, the total is below \<open>2 ^ 31\<close>, and
  \<open>validate\<close> accepts it; and this does not depend on what the reused scratch buffers held
  before.\<close>

theorem built_cdf_valid:
  assumes "fst (logits_to_cdf_with_scratch logits s) = Ok c"
  shows "cdf_validate c = Ok () \<and> length (c_freq c) = length logits \<and> 0 \<notin> set (c_freq c) \<and>
    (\<forall>i < length logits. c_cum c ! i = word_of_nat (sum_list (map unat (take i (c_freq c))))) \<and>
    unat (c_total c) = sum_list (map unat (c_freq c)) \<and> unat (c_total c) < 2 ^ 31 \<and>
    logits_to_cdf logits = Ok c"
proof -
  obtain ws where ws: "weights logits = Ok ws" "wsum ws < 2 ^ 31" "c = cdf_of ws"
    and l: "logits \<noteq> []" "length logits \<le> MAX_SYMBOLS"
    using assms unfolding cdf_with_scratch_weights(1) by (auto split: if_splits)
  note w = weights_Ok [OF ws(1)]
  have tw: "table_weights ws" using ws w l by (auto simp: table_weights_def)
  have "unat (word_of_nat (wsum ws) :: u64) = wsum ws" using ws(2) by (intro unat_small_u64) simp
  then show ?thesis
    using ws w tw assms cdf_with_scratch_weights(1) [of logits]
    by (auto simp: cdf_validate_iff cdf_of_def cums_nth wsum_def logits_to_cdf_def)
qed

text \<open>The weights of the single logit 0: the whole probability, \<open>2 ^ 24 + 1\<close>.\<close>

lemma weights_single: "weights [0] = Ok [0x1000001]"
proof -
  have "scan_max [0] = Ok 0" by code_simp
  moreover have "exp_f32 (f32_max (f32_sub 0 0) (f32_lit (- 88) 1)) = 0x3f800000" by code_simp
  moreover have "sum_f32_ref [0x3f800000] = 0x3f800000" by code_simp
  moreover have "f32_to_u32 (f32_mul (f32_div 0x3f800000 0x3f800000) M) = 0x1000000" by code_simp
  ultimately show ?thesis by (simp add: weights_def weight_def)
qed

lemma range_of_table: "i < length ws \<Longrightarrow> range_of ws i =
    \<lparr>sr_cum = c_cum (cdf_of ws) ! i, sr_freq = c_freq (cdf_of ws) ! i, sr_total = c_total (cdf_of ws)\<rparr>"
  by (simp add: range_of_def cdf_of_def cums_nth)

theorem built_cdf_valid_witness:
  "\<exists>c. fst (logits_to_cdf_with_scratch [0] scratch_default) = Ok c \<and> cdf_validate c = Ok ()"
proof -
  have "fst (logits_to_cdf_with_scratch [0] scratch_default) = Ok (cdf_of [0x1000001])"
    by (simp add: cdf_with_scratch_weights(1) weights_single MAX_SYMBOLS_def)
  from built_cdf_valid [OF this] this show ?thesis by auto
qed

text \<open>C6: The encoder's single-symbol path and the table agree. For every symbol of the
  vocabulary and every byte escape, \<open>logits_to_symbol_range\<close> returns exactly the entry of the
  full table, and where the table cannot be built it fails in the same way.\<close>

theorem symbol_range_is_table_entry:
  "(symbol < length logits \<longrightarrow>
    fst (logits_to_symbol_range_with_scratch logits symbol s) =
      rbind (fst (logits_to_cdf_with_scratch logits s')) (\<lambda>c.
        Ok \<lparr>sr_cum = c_cum c ! symbol, sr_freq = c_freq c ! symbol, sr_total = c_total c\<rparr>)) \<and>
   (symbol < length logits + 256 \<longrightarrow>
    fst (logits_to_symbol_range_with_byte_escapes logits symbol s) =
      rbind (fst (logits_to_cdf_with_byte_escapes logits s')) (\<lambda>c.
        Ok \<lparr>sr_cum = c_cum c ! symbol, sr_freq = c_freq c ! symbol, sr_total = c_total c\<rparr>))"
proof (intro conjI impI)
  assume sym: "symbol < length logits"
  show "fst (logits_to_symbol_range_with_scratch logits symbol s) =
      rbind (fst (logits_to_cdf_with_scratch logits s')) (\<lambda>c.
        Ok \<lparr>sr_cum = c_cum c ! symbol, sr_freq = c_freq c ! symbol, sr_total = c_total c\<rparr>)"
  proof (cases "MAX_SYMBOLS < length logits")
    case True
    then show ?thesis using sym
      by (auto simp: logits_to_symbol_range_with_scratch_def logits_to_symbol_range_impl_def
          cdf_with_scratch_weights(1))
  next
    case False
    then have "fst (logits_to_symbol_range_with_scratch logits symbol s) =
        rbind (weights logits) (\<lambda>ws. if 2 ^ 31 \<le> wsum ws + 0 then Err TotalTooLarge
          else Ok (range_of (ws @ replicate 0 1) symbol))"
      unfolding logits_to_symbol_range_with_scratch_def using sym by (intro symbol_range_weights) auto
    then show ?thesis using sym False
      by (auto simp: cdf_with_scratch_weights(1) rbind_assoc range_of_table weights_Ok(1) intro!: rbind_cong)
  qed
next
  assume sym: "symbol < length logits + 256"
  show "fst (logits_to_symbol_range_with_byte_escapes logits symbol s) =
      rbind (fst (logits_to_cdf_with_byte_escapes logits s')) (\<lambda>c.
        Ok \<lparr>sr_cum = c_cum c ! symbol, sr_freq = c_freq c ! symbol, sr_total = c_total c\<rparr>)"
  proof (cases "logits = [] \<or> MAX_SYMBOLS < length logits + 256")
    case True
    then show ?thesis
      by (auto simp: logits_to_symbol_range_with_byte_escapes_def logits_to_symbol_range_impl_def
          byte_escapes_weights BYTE_ESCAPE_SYMBOLS_def)
  next
    case False
    then have "fst (logits_to_symbol_range_with_byte_escapes logits symbol s) =
        rbind (weights logits) (\<lambda>ws. if 2 ^ 31 \<le> wsum ws + 256 then Err TotalTooLarge
          else Ok (range_of (ws @ replicate 256 1) symbol))"
      unfolding logits_to_symbol_range_with_byte_escapes_def BYTE_ESCAPE_SYMBOLS_def
      using sym by (intro symbol_range_weights) auto
    then show ?thesis using sym False
      by (auto simp: byte_escapes_weights rbind_assoc range_of_table weights_Ok(1) intro!: rbind_cong)
  qed
qed

theorem symbol_range_is_table_entry_witness:
  "fst (logits_to_symbol_range_with_byte_escapes [0] 3 scratch_default) =
    Ok \<lparr>sr_cum = 0x1000003, sr_freq = 1, sr_total = 0x1000101\<rparr>"
proof -
  have "fst (logits_to_cdf_with_byte_escapes [0] scratch_default) = Ok (cdf_of ([0x1000001] @ replicate 256 1))"
    by (simp add: byte_escapes_weights weights_single MAX_SYMBOLS_def)
  moreover have "c_cum (cdf_of ([0x1000001] @ replicate 256 1)) ! 3 = 0x1000003"
    unfolding cdf_of_def by (simp add: cums_nth nth_append numeral_3_eq_3)
  moreover have "c_freq (cdf_of ([0x1000001] @ replicate 256 1)) ! 3 = 1"
    unfolding cdf_of_def by (simp add: nth_append)
  moreover have "c_total (cdf_of ([0x1000001] @ replicate 256 1)) = 0x1000101"
    unfolding cdf_of_def by simp
  ultimately show ?thesis
    using symbol_range_is_table_entry [of 3 "[0]" scratch_default scratch_default] by simp
qed

text \<open>C5: Decoder and encoder see the same table. Whenever the decoder's distribution is built,
  every value below its total is attributed to a symbol; the encoder's path gives this symbol
  the same interval, the interval contains the value, and the lookup in the full table finds
  the same symbol.\<close>

theorem decoder_agrees_with_encoder:
  assumes "fst (logits_to_decoder_distribution_with_byte_escapes logits s) = Ok d" and "v < dd_total d"
  shows "\<exists>symbol rng c. dd_symbol_range d v = Some (symbol, rng) \<and>
    fst (logits_to_symbol_range_with_byte_escapes logits symbol s') = Ok rng \<and>
    fst (logits_to_cdf_with_byte_escapes logits s'') = Ok c \<and> symbol_for c v = Some symbol \<and>
    sr_cum rng \<le> v \<and> unat v < unat (sr_cum rng) + unat (sr_freq rng)"
proof -
  have l: "logits \<noteq> []" "length logits + 256 \<le> MAX_SYMBOLS"
    using assms(1) by (auto simp: logits_to_decoder_distribution_with_byte_escapes_def
        logits_to_decoder_distribution_impl_def BYTE_ESCAPE_SYMBOLS_def split: if_splits)
  obtain ws where ws: "weights logits = Ok ws" "wsum ws + 256 < 2 ^ 31" "d = distribution_of ws 256"
    using assms(1) distribution_weights [OF l, of s]
    by (auto simp: logits_to_decoder_distribution_with_byte_escapes_def BYTE_ESCAPE_SYMBOLS_def split: if_splits)
  define us where "us = ws @ replicate 256 (1 :: u32)"
  note w = weights_Ok [OF ws(1)]
  have us: "wsum us < 2 ^ 31" "0 \<notin> set us" "table_weights us"
    using ws(2) w l by (auto simp: us_def table_weights_def)
  have "v < word_of_nat (wsum ws + 256)" using assms(2) by (simp add: ws(3) distribution_of_def)
  moreover have "length ws \<le> MAX_SYMBOLS" using w l by simp
  ultimately have look: "dd_symbol_range d v = (let i = locate us (unat v) in Some (i, range_of us i))"
    "unat v < wsum us"
    using dd_symbol_range_locate [of ws 256 v] ws unfolding us_def by simp_all
  define i where "i = locate us (unat v)"
  note loc = located_in [OF us(1) look(2), folded i_def]
  have "fst (logits_to_symbol_range_with_byte_escapes logits i s') = Ok (range_of us i)"
    using symbol_range_weights [OF l, of i s'] loc(1) w ws
    by (simp add: logits_to_symbol_range_with_byte_escapes_def BYTE_ESCAPE_SYMBOLS_def us_def)
  moreover have "fst (logits_to_cdf_with_byte_escapes logits s'') = Ok (cdf_of us)"
    using l ws by (simp add: byte_escapes_weights us_def)
  moreover have "cdf_validate (cdf_of us) = Ok ()" unfolding cdf_validate_iff using us by (simp add: cdf_of_def)
  moreover have "symbol_for_validated (cdf_of us) v = Some i"
    using symbol_for_locate(1) [OF us(3)] \<open>v < word_of_nat (wsum ws + 256)\<close> by (simp add: us_def i_def)
  moreover have "unat (word_of_nat (wsum (take i us)) :: u64) = wsum (take i us)"
    using us(1) wsum_take_le [of i us] by (intro unat_small_u64) simp
  ultimately show ?thesis
    using look(1) loc unfolding i_def [symmetric]
    by (intro exI [of _ i] exI [of _ "range_of us i"] exI [of _ "cdf_of us"])
      (simp add: Let_def symbol_for_def range_of_def)
qed

theorem decoder_agrees_with_encoder_witness:
  "\<exists>d symbol rng. fst (logits_to_decoder_distribution_with_byte_escapes [0] scratch_default) = Ok d \<and>
    dd_symbol_range d 7 = Some (symbol, rng) \<and>
    fst (logits_to_symbol_range_with_byte_escapes [0] symbol scratch_default) = Ok rng"
proof -
  have "fst (logits_to_decoder_distribution_with_byte_escapes [0] scratch_default) =
      Ok (distribution_of [0x1000001] 256)"
    using distribution_weights [of "[0]" 256 scratch_default]
    by (simp add: logits_to_decoder_distribution_with_byte_escapes_def BYTE_ESCAPE_SYMBOLS_def
        weights_single MAX_SYMBOLS_def)
  moreover have "7 < dd_total (distribution_of [0x1000001] 256)" by (simp add: distribution_of_def)
  ultimately show ?thesis
    using decoder_agrees_with_encoder [of "[0]" scratch_default "distribution_of [0x1000001] 256" 7]
    by blast
qed

text \<open>The uniform table of the codec's first symbol has weight 1 everywhere, is accepted by
  \<open>validate\<close>, and its single-symbol form returns the same entries.\<close>

theorem uniform_tables_agree:
  assumes "0 < n" and "n \<le> MAX_SYMBOLS"
  shows "\<exists>c. uniform_cdf n = Ok c \<and> cdf_validate c = Ok () \<and> unat (c_total c) = n \<and>
    (\<forall>i < n. uniform_symbol_range i n =
       Ok \<lparr>sr_cum = c_cum c ! i, sr_freq = c_freq c ! i, sr_total = c_total c\<rparr> \<and>
       symbol_for c (c_cum c ! i) = Some i)"
proof -
  define ws where "ws = replicate n (1 :: u32)"
  have n: "n < 2 ^ 31" using assms(2) by (simp add: MAX_SYMBOLS_def)
  have "cums t (replicate k 1) = map word_of_nat [t..<t + k]" for t k
    by (induction k arbitrary: t) (simp_all add: upt_rec)
  then have cdf: "cdf_of ws = \<lparr>c_freq = map (\<lambda>i. 1) [0..<n], c_cum = map word_of_nat [0..<n], c_total = word_of_nat n\<rparr>"
    by (simp add: cdf_of_def ws_def map_replicate_const)
  have tw: "table_weights ws" using assms n by (simp add: table_weights_def ws_def)
  then have val: "cdf_validate (cdf_of ws) = Ok ()" unfolding cdf_validate_iff by (simp add: cdf_of_def)
  have lim: "\<not> cdf_total_limit \<le> word_of_nat n" using limit_le [of n] n by simp
  then have uc: "uniform_cdf n = Ok (cdf_of ws)"
    using assms by (simp add: uniform_cdf_def cdf)
  have t: "unat (word_of_nat n :: u64) = n" using n by (intro unat_small_u64) simp
  have "symbol_for (cdf_of ws) (word_of_nat i) = Some i" if "i < n" for i
  proof -
    have u: "unat (word_of_nat i :: u64) = i" using that n by (intro unat_small_u64) simp
    then have "word_of_nat i < (word_of_nat (wsum ws) :: u64)" using that t by (simp add: word_less_nat_alt ws_def)
    note look = symbol_for_locate(1) [OF tw this]
    have "locate ws i = i" using that by (simp add: ws_def locate_ones)
    then show ?thesis using look u by (simp add: symbol_for_def val)
  qed
  then show ?thesis using uc val t assms lim
    by (intro exI [of _ "cdf_of ws"]) (simp add: cdf uniform_symbol_range_def)
qed

theorem uniform_tables_agree_witness:
  "\<exists>c. uniform_cdf 3 = Ok c \<and> symbol_for c (c_cum c ! 2) = Some 2"
  using uniform_tables_agree [of 3] by (force simp: MAX_SYMBOLS_def)

end
