(* ===== verification/Token_Stream.thy ===== *)
theory Token_Stream
  imports Range_Coder Cdf
begin

text \<open>
  The codec for a token list with one frequency table per position,
  \<open>src/crates/det-coder/src/stream.rs\<close>. It rests on the two interfaces of the components it
  calls: the tables (\<open>ct\<close>) and the range coder (\<open>rc\<close>).
\<close>

section \<open>The code\<close>

datatype stream_error = LengthMismatch | StreamSymbolOutOfRange | CdfInvalid | NonCanonicalPayload
  | RangeFailed range_error

definition encode_token_stream :: "cdf list \<Rightarrow> nat list \<Rightarrow> (stream_error, u8 list) res" where
  "encode_token_stream cdfs tokens =
    rbind (ensure (\<not> (length cdfs \<noteq> length tokens)) LengthMismatch) (\<lambda>_.
    rbind (rfold (\<lambda>(cdf, token) enc.
        rbind (map_err (\<lambda>_. CdfInvalid) (cdf_validate cdf)) (\<lambda>_.
        rbind (ok_or StreamSymbolOutOfRange (cdf_ival cdf token)) (\<lambda>(cum, freq).
        map_err RangeFailed (re_encode enc cum freq (c_total cdf))))) (zip cdfs tokens) re_new) (\<lambda>enc.
    Ok (re_finish enc)))"

fun decode_loop :: "cdf list \<Rightarrow> range_decoder \<Rightarrow> nat list \<Rightarrow> (stream_error, nat list) res" where
  "decode_loop [] dec out = Ok out"
| "decode_loop (cdf # cdfs) dec out =
    rbind (map_err (\<lambda>_. CdfInvalid) (cdf_validate cdf)) (\<lambda>_.
    case rd_decode_freq dec (c_total cdf) of (r, dec) \<Rightarrow>
    rbind (map_err RangeFailed r) (\<lambda>value.
    rbind (ok_or CdfInvalid (symbol_for_validated cdf value)) (\<lambda>token.
    rbind (index_at (c_cum cdf) token) (\<lambda>cum.
    rbind (index_at (c_freq cdf) token) (\<lambda>freq.
    case rd_advance dec cum (ucast freq) (c_total cdf) of (r, dec) \<Rightarrow>
    rbind (map_err RangeFailed r) (\<lambda>_.
    decode_loop cdfs dec (out @ [token])))))))"

definition decode_token_stream :: "cdf list \<Rightarrow> u8 list \<Rightarrow> (stream_error, nat list) res" where
  "decode_token_stream cdfs bytes =
    rbind (map_err RangeFailed (rd_new bytes)) (\<lambda>dec.
    rbind (decode_loop cdfs dec []) (\<lambda>out.
    rbind (encode_token_stream cdfs out) (\<lambda>canonical.
    if canonical \<noteq> bytes then Err NonCanonicalPayload else Ok out)))"

section \<open>Following the intervals\<close>

text \<open>The intervals of a token list in its tables.\<close>

definition intervals :: "cdf list \<Rightarrow> nat list \<Rightarrow> (u64 \<times> u64 \<times> u64) list" where
  "intervals cdfs tokens =
    map (\<lambda>(cdf, token). (case cdf_ival cdf token of Some (c, f) \<Rightarrow> (c, f, c_total cdf) | None \<Rightarrow> (0, 0, 0)))
      (zip cdfs tokens)"

text \<open>Tables and tokens that fit: every table is valid and has its token.\<close>

definition codable :: "cdf list \<Rightarrow> nat list \<Rightarrow> bool" where
  "codable cdfs tokens \<longleftrightarrow> list_all2 (\<lambda>cdf token. cdf_ok cdf \<and> token < length (c_freq cdf)) cdfs tokens"

lemma cdf_ok_ival: "cdf_ok c \<Longrightarrow> (\<exists>cum f. cdf_ival c i = Some (cum, f)) \<longleftrightarrow> i < length (c_freq c)"
proof -
  assume "cdf_ok c"
  then obtain ws where "c = cdf_of ws" by (auto simp: cdf_ok_def cdf_validate_iff)
  then show ?thesis by (simp add: cdf_ival_of) (simp add: cdf_of_def)
qed

lemma cdf_ok_entry:
  assumes "cdf_ok c" "cdf_ival c i = Some (cum, f)"
  shows "i < length (c_cum c)" "i < length (c_freq c)" "c_cum c ! i = cum" "ucast (c_freq c ! i) = f"
  using assms(2) by (auto simp: cdf_ival_def split: option.splits)

lemma encode_fold:
  assumes "codable cdfs tokens"
  shows "rfold (\<lambda>(cdf, token) enc.
        rbind (map_err (\<lambda>_. CdfInvalid) (cdf_validate cdf)) (\<lambda>_.
        rbind (ok_or StreamSymbolOutOfRange (cdf_ival cdf token)) (\<lambda>(cum, freq).
        map_err RangeFailed (re_encode enc cum freq (c_total cdf))))) (zip cdfs tokens) enc =
    map_err RangeFailed (rfold (\<lambda>(c, f, t) e. re_encode e c f t) (intervals cdfs tokens) enc)"
  using assms unfolding codable_def
proof (induction cdfs tokens arbitrary: enc rule: list_all2_induct)
  case (Cons cdf cdfs token tokens)
  then obtain c f where iv: "cdf_ival cdf token = Some (c, f)" using cdf_ok_ival by blast
  have "cdf_validate cdf = Ok ()" using Cons by (simp add: cdf_ok_def)
  with iv Cons.IH show ?case
    by (cases "re_encode enc c f (c_total cdf)") (simp_all add: intervals_def)
qed (simp add: intervals_def)

lemma intervals_valid:
  assumes "codable cdfs tokens" "(c, f, t) \<in> set (intervals cdfs tokens)"
  shows "valid_interval c f t"
  using assms unfolding codable_def
proof (induction cdfs tokens rule: list_all2_induct)
  case (Cons cdf cdfs token tokens)
  then obtain c' f' where iv: "cdf_ival cdf token = Some (c', f')" using cdf_ok_ival by blast
  then have i: "intervals (cdf # cdfs) (token # tokens) = (c', f', c_total cdf) # intervals cdfs tokens"
    by (simp add: intervals_def)
  show ?case using Cons.prems Cons.IH Cons.hyps ct.ival_valid [OF _ iv] unfolding i by auto
qed (simp add: intervals_def)

lemma decode_follows:
  assumes "codable cdfs tokens" "follows rd_decode_freq rd_advance dec (intervals cdfs tokens)"
  shows "decode_loop cdfs dec out = Ok (out @ tokens)"
  using assms unfolding codable_def
proof (induction cdfs tokens arbitrary: dec out rule: list_all2_induct)
  case (Cons cdf cdfs token tokens)
  then have ok: "cdf_ok cdf" "cdf_validate cdf = Ok ()" by (simp_all add: cdf_ok_def)
  obtain c f where iv: "cdf_ival cdf token = Some (c, f)" using Cons.hyps ok cdf_ok_ival by blast
  note entry = cdf_ok_entry [OF ok(1) iv]
  from Cons.prems obtain v d1 d2 where v: "rd_decode_freq dec (c_total cdf) = (Ok v, d1)"
    and iv': "c \<le> v" "unat v < unat c + unat f" and adv: "rd_advance d1 c f (c_total cdf) = (Ok (), d2)"
    and rest: "follows rd_decode_freq rd_advance d2 (intervals cdfs tokens)"
    by (auto simp: intervals_def iv split: prod.splits res.splits)
  have "symbol_for_validated cdf v = Some token" by (rule ct.look_unique [OF ok(1) iv iv'])
  then show ?case
    using Cons.IH [OF rest] entry v adv by (simp add: ok index_at_def)
qed (simp add: intervals_def)

section \<open>Properties\<close>

text \<open>C14: A token list survives the codec. For valid tables that contain the tokens, encoding
  succeeds and decoding the bytes with the same tables returns the tokens.\<close>

theorem token_stream_round_trip:
  assumes "codable cdfs tokens"
  shows "\<exists>bytes. encode_token_stream cdfs tokens = Ok bytes \<and> decode_token_stream cdfs bytes = Ok tokens"
proof -
  obtain e d where e: "rfold (\<lambda>(c, f, t) e. re_encode e c f t) (intervals cdfs tokens) re_new = Ok e"
    and d: "rd_new (re_finish e) = Ok d" "follows rd_decode_freq rd_advance d (intervals cdfs tokens)"
    using rc.channel_round_trip [of "intervals cdfs tokens"] intervals_valid [OF assms] by blast
  have len: "length cdfs = length tokens" using assms by (auto simp: codable_def dest: list_all2_lengthD)
  then have enc: "encode_token_stream cdfs tokens = Ok (re_finish e)"
    by (simp add: encode_token_stream_def encode_fold [OF assms] e)
  moreover have "decode_token_stream cdfs (re_finish e) = Ok tokens"
    using decode_follows [OF assms d(2), of "[]"] enc by (simp add: decode_token_stream_def d(1))
  ultimately show ?thesis by blast
qed

theorem token_stream_round_trip_witness:
  "\<exists>bytes. encode_token_stream [cdf_of even_weights, cdf_of even_weights] [1, 2] = Ok bytes \<and>
    decode_token_stream [cdf_of even_weights, cdf_of even_weights] bytes = Ok [1, 2]"
proof (rule token_stream_round_trip)
  have "cdf_ok (cdf_of even_weights)"
    unfolding cdf_ok_def cdf_validate_iff using even_weights_table by (simp add: cdf_of_def)
  then show "codable [cdf_of even_weights, cdf_of even_weights] [1, 2]"
    by (simp add: codable_def cdf_of_def even_weights_def)
qed

text \<open>C13: Only one payload decodes to a token list. Whatever bytes the decoder accepts, they are
  the bytes the encoder writes for the result: two payloads that decode, with the same tables, to
  the same tokens are equal.\<close>

theorem decoded_stream_canonical:
  assumes "decode_token_stream cdfs bytes = Ok tokens"
  shows "encode_token_stream cdfs tokens = Ok bytes \<and> codable cdfs tokens \<and>
    (\<forall>bytes'. decode_token_stream cdfs bytes' = Ok tokens \<longrightarrow> bytes' = bytes)"
proof -
  have enc: "encode_token_stream cdfs tokens = Ok b" if "decode_token_stream cdfs b = Ok tokens" for b
    using that by (auto simp: decode_token_stream_def split: if_splits)
  have "list_all2 (\<lambda>cdf token. cdf_ok cdf \<and> token < length (c_freq cdf)) cdfs tokens"
    if "length cdfs = length tokens" and "rfold (\<lambda>(cdf, token) enc.
        rbind (map_err (\<lambda>_. CdfInvalid) (cdf_validate cdf)) (\<lambda>_.
        rbind (ok_or StreamSymbolOutOfRange (cdf_ival cdf token)) (\<lambda>(cum, freq).
        map_err RangeFailed (re_encode enc cum freq (c_total cdf))))) (zip cdfs tokens) e = Ok e'" for e e'
    using that
  proof (induction cdfs tokens arbitrary: e rule: list_induct2)
    case (Cons cdf cdfs token tokens)
    then have "cdf_ok cdf" and "\<exists>c f. cdf_ival cdf token = Some (c, f)" by (auto simp: cdf_ok_def)
    with Cons cdf_ok_ival show ?case by fastforce
  qed simp
  then have "codable cdfs tokens" using enc [OF assms]
    by (auto simp: encode_token_stream_def codable_def)
  moreover have "bytes' = bytes" if "decode_token_stream cdfs bytes' = Ok tokens" for bytes'
    using enc [OF that] enc [OF assms] by simp
  ultimately show ?thesis using enc [OF assms] by blast
qed

theorem decoded_stream_canonical_witness:
  "\<exists>bytes. decode_token_stream [] bytes = Ok [] \<and> encode_token_stream [] [] = Ok bytes"
proof -
  have "codable [] []" by (simp add: codable_def)
  have "re_finish re_new = [0, 0, 0, 0, 0, 0, 0, 0]"
    by (simp add: re_finish_def re_new_def numeral_eq_Suc top_byte_def)
  then have "encode_token_stream [] [] = Ok [0, 0, 0, 0, 0, 0, 0, 0]"
    by (simp add: encode_token_stream_def)
  moreover have "\<exists>d. rd_new [0, 0, 0, 0, 0, 0, 0, 0] = Ok d"
    using rd_new_code [of "[0, 0, 0, 0, 0, 0, 0, 0]"] by auto
  ultimately have "decode_token_stream [] [0, 0, 0, 0, 0, 0, 0, 0] = Ok []"
    by (auto simp: decode_token_stream_def)
  then show ?thesis using decoded_stream_canonical [of "[]" _ "[]"] by blast
qed

end
