(* ===== verification/Utf8.thy ===== *)
theory Utf8
  imports Prelude
begin

text \<open>
  Strings as Rust keeps them: byte lists that are well-formed UTF-8. \<open>utf8_len\<close> is the
  length of the first character of a byte list, if there is a well-formed one (the table of
  well-formed byte sequences of the Unicode standard), \<open>utf8_valid\<close> is what
  \<open>str::from_utf8\<close> accepts. This is the standard library's notion, not code of the repository.
\<close>

type_synonym str = "u8 list"

definition in_range :: "u8 \<Rightarrow> u8 \<Rightarrow> u8 \<Rightarrow> bool" where
  "in_range lo hi b \<longleftrightarrow> lo \<le> b \<and> b \<le> hi"

definition cont :: "u8 \<Rightarrow> bool" where "cont b \<longleftrightarrow> in_range 0x80 0xBF b"

text \<open>The number of bytes a first byte announces (0: it cannot start a character), and the
  range of the second byte.\<close>

definition utf8_need :: "u8 \<Rightarrow> nat" where
  "utf8_need b0 =
    (if b0 < 0x80 then 1 else if in_range 0xC2 0xDF b0 then 2
     else if in_range 0xE0 0xEF b0 then 3 else if in_range 0xF0 0xF4 b0 then 4 else 0)"

definition utf8_second :: "u8 \<Rightarrow> u8 \<Rightarrow> bool" where
  "utf8_second b0 b1 \<longleftrightarrow>
    (if b0 = 0xE0 then in_range 0xA0 0xBF b1 else if b0 = 0xED then in_range 0x80 0x9F b1
     else if b0 = 0xF0 then in_range 0x90 0xBF b1 else if b0 = 0xF4 then in_range 0x80 0x8F b1
     else cont b1)"

definition utf8_len :: "u8 list \<Rightarrow> nat option" where
  "utf8_len bs =
    (if bs = [] then None
     else let n = utf8_need (hd bs) in
       if n = 0 \<or> length bs < n then None
       else if n = 1 \<or> utf8_second (hd bs) (bs ! 1) \<and> list_all cont (take (n - 2) (drop 2 bs))
       then Some n else None)"

lemma utf8_len_Some:
  "utf8_len bs = Some n \<longleftrightarrow> bs \<noteq> [] \<and> n = utf8_need (hd bs) \<and> n \<noteq> 0 \<and> n \<le> length bs \<and>
    (n = 1 \<or> utf8_second (hd bs) (bs ! 1) \<and> list_all cont (take (n - 2) (drop 2 bs)))"
  unfolding utf8_len_def Let_def by (auto simp: not_less)

lemma utf8_len_pos: "utf8_len bs = Some n \<Longrightarrow> 0 < n \<and> n \<le> length bs"
  by (simp add: utf8_len_Some)

function utf8_valid :: "u8 list \<Rightarrow> bool" where
  "utf8_valid bs \<longleftrightarrow>
    (bs = [] \<or> (case utf8_len bs of None \<Rightarrow> False | Some n \<Rightarrow> utf8_valid (drop n bs)))"
  by auto
termination
  by (relation "measure length") (auto dest: utf8_len_pos)

declare utf8_valid.simps [simp del]

lemma utf8_len_append: "utf8_len bs = Some n \<Longrightarrow> utf8_len (bs @ cs) = Some n"
  by (auto simp: utf8_len_Some nth_append)

lemma utf8_valid_Nil [simp]: "utf8_valid []"
  by (simp add: utf8_valid.simps)

lemma utf8_valid_ascii [simp]: "b < 0x80 \<Longrightarrow> utf8_valid (b # bs) = utf8_valid bs"
  by (subst utf8_valid.simps) (simp add: utf8_len_def utf8_need_def)

lemma utf8_valid_append: "utf8_valid bs \<Longrightarrow> utf8_valid cs \<Longrightarrow> utf8_valid (bs @ cs)"
proof (induction bs rule: utf8_valid.induct)
  case (1 bs)
  show ?case
  proof (cases "bs = []")
    case False
    with 1(2) obtain n where n: "utf8_len bs = Some n" and v: "utf8_valid (drop n bs)"
      by (subst (asm) utf8_valid.simps) (auto split: option.splits)
    have "utf8_valid (drop n (bs @ cs))" using 1 False n v utf8_len_pos [OF n] by simp
    then show ?thesis
      by (subst utf8_valid.simps) (simp add: utf8_len_append [OF n])
  qed (use 1 in simp)
qed

text \<open>The characters of a well-formed string, each as its bytes.\<close>

function utf8_chars :: "u8 list \<Rightarrow> u8 list list" where
  "utf8_chars bs =
    (case utf8_len bs of None \<Rightarrow> [] | Some n \<Rightarrow> take n bs # utf8_chars (drop n bs))"
  by auto
termination
  by (relation "measure length") (auto dest: utf8_len_pos)

declare utf8_chars.simps [simp del]

lemma utf8_chars_concat: "utf8_valid bs \<Longrightarrow> concat (utf8_chars bs) = bs"
proof (induction bs rule: utf8_valid.induct)
  case (1 bs)
  show ?case
  proof (cases "bs = []")
    case True
    then show ?thesis by (subst utf8_chars.simps) (simp add: utf8_len_def)
  next
    case False
    with 1(2) obtain n where n: "utf8_len bs = Some n" and v: "utf8_valid (drop n bs)"
      by (subst (asm) utf8_valid.simps) (auto split: option.splits)
    then show ?thesis using 1(1) [OF n v] by (subst utf8_chars.simps) simp
  qed
qed

text \<open>The code point of one well-formed character.\<close>

definition utf8_code :: "u8 list \<Rightarrow> nat" where
  "utf8_code c =
    (case map unat c of
       [b0] \<Rightarrow> b0
     | [b0, b1] \<Rightarrow> (b0 mod 32) * 64 + b1 mod 64
     | [b0, b1, b2] \<Rightarrow> (b0 mod 16) * 4096 + (b1 mod 64) * 64 + b2 mod 64
     | [b0, b1, b2, b3] \<Rightarrow> (b0 mod 8) * 262144 + (b1 mod 64) * 4096 + (b2 mod 64) * 64 + b3 mod 64
     | _ \<Rightarrow> 0)"

end
