(* ===== verification/Gguf.thy ===== *)
theory Gguf
  imports Utf8 Float_Model
begin

text \<open>
  The model-file reader, \<open>src/crates/det-gguf/src/lib.rs\<close>: a cursor over the file's bytes,
  metadata values, tensor descriptions, and the check of the tensor data layout. The interface
  \<open>field_codec\<close> states what reading one field means; from it the whole file is shown to be
  read back as it was laid out. The other lemmas bound every accepted tensor inside the file.
  A string is its UTF-8 bytes.
\<close>

section \<open>Types\<close>

datatype gguf_error =
    GgBadMagic | GgUnsupportedVersion u32 | Truncated | UnsupportedValueType u32 | InvalidUtf8
  | InvalidTensorOffset | InvalidTensorShape | TensorNotFound | MetadataNotFound
  | DuplicateMetadataKey | DuplicateTensorName | InvalidBool | MetadataTypeMismatch
  | UnsupportedTensorType u32

datatype metadata_value =
    MU8 u8 | MI8 i8 | MU16 u16 | MI16 i16 | MU32 u32 | MI32 i32 | MU64 u64 | MI64 i64
  | MF32 f32 | MF64 f64 | MBool bool | MString str
  | ArrayU8 "u8 list" | ArrayI8 "i8 list" | ArrayU16 "u16 list" | ArrayI16 "i16 list"
  | ArrayU32 "u32 list" | ArrayI32 "i32 list" | ArrayF32 "f32 list" | ArrayBool "bool list"
  | ArrayString "str list" | ArrayU64 "u64 list" | ArrayI64 "i64 list" | ArrayF64 "f64 list"

datatype ggml_type =
    GF32 | GF16 | Q4_0 | Q4_1 | Q5_0 | Q5_1 | Q8_0 | Q8_1 | Q2K | Q3K | Q4K | Q5K | Q6K | Q8K
  | Other u32

record tensor_info =
  t_name :: str
  t_dimensions :: "u64 list"
  t_ty :: ggml_type
  t_offset :: u64

definition type_from_u32 :: "u32 \<Rightarrow> ggml_type" where
  "type_from_u32 raw =
    (if raw = 0 then GF32 else if raw = 1 then GF16 else if raw = 2 then Q4_0 else if raw = 3 then Q4_1
     else if raw = 6 then Q5_0 else if raw = 7 then Q5_1 else if raw = 8 then Q8_0 else if raw = 9 then Q8_1
     else if raw = 10 then Q2K else if raw = 11 then Q3K else if raw = 12 then Q4K else if raw = 13 then Q5K
     else if raw = 14 then Q6K else if raw = 15 then Q8K else Other raw)"

fun type_raw :: "ggml_type \<Rightarrow> u32" where
  "type_raw GF32 = 0" | "type_raw GF16 = 1" | "type_raw Q4_0 = 2" | "type_raw Q4_1 = 3"
| "type_raw Q5_0 = 6" | "type_raw Q5_1 = 7" | "type_raw Q8_0 = 8" | "type_raw Q8_1 = 9"
| "type_raw Q2K = 10" | "type_raw Q3K = 11" | "type_raw Q4K = 12" | "type_raw Q5K = 13"
| "type_raw Q6K = 14" | "type_raw Q8K = 15" | "type_raw (Other raw) = raw"

fun type_size :: "ggml_type \<Rightarrow> u64 option" where
  "type_size GF32 = Some 4" | "type_size GF16 = Some 2" | "type_size Q4_0 = Some 18"
| "type_size Q4_1 = Some 20" | "type_size Q5_0 = Some 22" | "type_size Q5_1 = Some 24"
| "type_size Q8_0 = Some 34" | "type_size Q8_1 = Some 40" | "type_size Q2K = Some 84"
| "type_size Q3K = Some 110" | "type_size Q4K = Some 144" | "type_size Q5K = Some 176"
| "type_size Q6K = Some 210" | "type_size Q8K = Some 292" | "type_size (Other _) = None"

fun block_size :: "ggml_type \<Rightarrow> u64 option" where
  "block_size GF32 = Some 1" | "block_size GF16 = Some 1" | "block_size Q4_0 = Some 32"
| "block_size Q4_1 = Some 32" | "block_size Q5_0 = Some 32" | "block_size Q5_1 = Some 32"
| "block_size Q8_0 = Some 32" | "block_size Q8_1 = Some 32" | "block_size Q2K = Some 256"
| "block_size Q3K = Some 256" | "block_size Q4K = Some 256" | "block_size Q5K = Some 256"
| "block_size Q6K = Some 256" | "block_size Q8K = Some 256" | "block_size (Other _) = None"

record gguf =
  g_version :: u32
  g_metadata :: "str \<rightharpoonup> metadata_value"
  g_tensors :: "tensor_info list"
  g_data_offset :: nat
  g_file_len :: nat

section \<open>The cursor\<close>

record reader =
  r_bytes :: "u8 list"
  r_pos :: nat

text \<open>A read returns its value and the advanced cursor; \<open>?\<close> is the sequencing.\<close>

type_synonym 'a read = "reader \<Rightarrow> (gguf_error, 'a \<times> reader) res"

definition rget :: "'a read \<Rightarrow> ('a \<Rightarrow> 'b read) \<Rightarrow> 'b read" where
  "rget m f = (\<lambda>r. rbind (m r) (\<lambda>(x, r'). f x r'))"

definition rret :: "'a \<Rightarrow> 'a read" where "rret x = (\<lambda>r. Ok (x, r))"
definition rfail :: "gguf_error \<Rightarrow> 'a read" where "rfail e = (\<lambda>r. Err e)"

definition rlift :: "(gguf_error, 'a) res \<Rightarrow> 'a read" where
  "rlift m = (\<lambda>r. rbind m (\<lambda>x. Ok (x, r)))"

primrec rtimes :: "nat \<Rightarrow> 'a read \<Rightarrow> 'a list read" where
  "rtimes 0 m = rret []"
| "rtimes (Suc n) m = rget m (\<lambda>x. rget (rtimes n m) (\<lambda>xs. rret (x # xs)))"

definition usize_from_u64 :: "u64 \<Rightarrow> (gguf_error, nat) res" where
  "usize_from_u64 v = (if unat v \<le> usize_max then Ok (unat v) else Err Truncated)"

definition usize_from_u32 :: "u32 \<Rightarrow> (gguf_error, nat) res" where
  "usize_from_u32 v = (if unat v \<le> usize_max then Ok (unat v) else Err Truncated)"

definition read_exact :: "nat \<Rightarrow> u8 list read" where
  "read_exact n = (\<lambda>r.
    rbind (ok_or Truncated (checked_add_usize (r_pos r) n)) (\<lambda>fin.
    if length (r_bytes r) < fin then Err Truncated
    else rbind (case get_range (r_bytes r) (r_pos r) fin of Some out \<Rightarrow> Ok out | None \<Rightarrow> Panic) (\<lambda>out.
    Ok (out, r\<lparr>r_pos := fin\<rparr>))))"

definition ensure_count :: "u64 \<Rightarrow> nat \<Rightarrow> unit read" where
  "ensure_count n min_item_bytes = (\<lambda>r.
    rbind (usize_from_u64 n) (\<lambda>n.
    rbind (ok_or Truncated (checked_mul_usize n min_item_bytes)) (\<lambda>min_len.
    rbind (ok_or Truncated (checked_add_usize (r_pos r) min_len)) (\<lambda>fin.
    if length (r_bytes r) < fin then Err Truncated else Ok ((), r)))))"

definition read_u8 :: "u8 read" where
  "read_u8 = rget (read_exact 1) (\<lambda>b. rlift (index_at b 0))"
definition read_u16 :: "u16 read" where
  "read_u16 = rget (read_exact 2) (\<lambda>b. rret (word_of_nat (from_le b)))"
definition read_u32 :: "u32 read" where
  "read_u32 = rget (read_exact 4) (\<lambda>b. rret (word_of_nat (from_le b)))"
definition read_i32 :: "i32 read" where
  "read_i32 = rget read_u32 (\<lambda>v. rret v)"
definition read_u64 :: "u64 read" where
  "read_u64 = rget (read_exact 8) (\<lambda>b. rret (word_of_nat (from_le b)))"
definition read_f32 :: "f32 read" where
  "read_f32 = rget read_u32 (\<lambda>v. rret v)"
definition read_f64 :: "f64 read" where
  "read_f64 = rget read_u64 (\<lambda>v. rret v)"
definition read_bool :: "bool read" where
  "read_bool = rget read_u8 (\<lambda>v. if v = 0 then rret False else if v = 1 then rret True else rfail InvalidBool)"
definition read_string :: "str read" where
  "read_string = rget read_u64 (\<lambda>v. rget (rlift (usize_from_u64 v)) (\<lambda>n.
    rget (read_exact n) (\<lambda>b. if utf8_valid b then rret b else rfail InvalidUtf8)))"

section \<open>Values\<close>

text \<open>The smallest coding of an array element, by element type.\<close>

definition min_elem_bytes :: "u32 \<Rightarrow> nat option" where
  "min_elem_bytes ty =
    (if ty = 0 \<or> ty = 1 \<or> ty = 7 then Some 1 else if ty = 2 \<or> ty = 3 then Some 2
     else if 4 \<le> ty \<and> ty \<le> 6 then Some 4 else if ty = 8 \<or> 10 \<le> ty \<and> ty \<le> 12 then Some 8 else None)"

definition read_array :: "u32 \<Rightarrow> u64 \<Rightarrow> metadata_value read" where
  "read_array ty n =
    (if ty = 0 then rget (rtimes (unat n) read_u8) (\<lambda>xs. rret (ArrayU8 xs))
     else if ty = 1 then rget (rtimes (unat n) read_u8) (\<lambda>xs. rret (ArrayI8 xs))
     else if ty = 2 then rget (rtimes (unat n) read_u16) (\<lambda>xs. rret (ArrayU16 xs))
     else if ty = 3 then rget (rtimes (unat n) read_u16) (\<lambda>xs. rret (ArrayI16 xs))
     else if ty = 4 then rget (rtimes (unat n) read_u32) (\<lambda>xs. rret (ArrayU32 xs))
     else if ty = 5 then rget (rtimes (unat n) read_i32) (\<lambda>xs. rret (ArrayI32 xs))
     else if ty = 6 then rget (rtimes (unat n) read_f32) (\<lambda>xs. rret (ArrayF32 xs))
     else if ty = 7 then rget (rtimes (unat n) read_bool) (\<lambda>xs. rret (ArrayBool xs))
     else if ty = 8 then rget (rtimes (unat n) read_string) (\<lambda>xs. rret (ArrayString xs))
     else if ty = 10 then rget (rtimes (unat n) read_u64) (\<lambda>xs. rret (ArrayU64 xs))
     else if ty = 11 then rget (rtimes (unat n) read_u64) (\<lambda>xs. rret (ArrayI64 xs))
     else if ty = 12 then rget (rtimes (unat n) read_f64) (\<lambda>xs. rret (ArrayF64 xs))
     else rfail (UnsupportedValueType ty))"

definition read_value :: "metadata_value read" where
  "read_value = rget read_u32 (\<lambda>ty.
    if ty = 0 then rget read_u8 (\<lambda>v. rret (MU8 v))
    else if ty = 1 then rget read_u8 (\<lambda>v. rret (MI8 v))
    else if ty = 2 then rget read_u16 (\<lambda>v. rret (MU16 v))
    else if ty = 3 then rget read_u16 (\<lambda>v. rret (MI16 v))
    else if ty = 4 then rget read_u32 (\<lambda>v. rret (MU32 v))
    else if ty = 5 then rget read_i32 (\<lambda>v. rret (MI32 v))
    else if ty = 6 then rget read_f32 (\<lambda>v. rret (MF32 v))
    else if ty = 7 then rget read_bool (\<lambda>v. rret (MBool v))
    else if ty = 8 then rget read_string (\<lambda>v. rret (MString v))
    else if ty = 9 then
      rget read_u32 (\<lambda>elem_ty.
      rget read_u64 (\<lambda>n.
      case min_elem_bytes elem_ty of
        None \<Rightarrow> rfail (UnsupportedValueType elem_ty)
      | Some min_bytes \<Rightarrow>
          rget (ensure_count n min_bytes) (\<lambda>_.
          rget (rlift (usize_from_u64 n)) (\<lambda>capacity. read_array elem_ty n))))
    else if ty = 10 then rget read_u64 (\<lambda>v. rret (MU64 v))
    else if ty = 11 then rget read_u64 (\<lambda>v. rret (MI64 v))
    else if ty = 12 then rget read_f64 (\<lambda>v. rret (MF64 v))
    else rfail (UnsupportedValueType ty))"

section \<open>Tensor descriptions\<close>

fun count_elements :: "u64 list \<Rightarrow> u64 \<Rightarrow> (gguf_error, u64) res" where
  "count_elements [] n = Ok n"
| "count_elements (d # ds) n =
    (if d = 0 then Err InvalidTensorShape
     else rbind (ok_or InvalidTensorShape (checked_mul n d)) (count_elements ds))"

definition element_count :: "tensor_info \<Rightarrow> (gguf_error, u64) res" where
  "element_count t =
    (if t_dimensions t = [] then Err InvalidTensorShape else count_elements (t_dimensions t) 1)"

definition encoded_len :: "tensor_info \<Rightarrow> (gguf_error, u64) res" where
  "encoded_len t =
    rbind (element_count t) (\<lambda>n.
    rbind (ok_or (UnsupportedTensorType (type_raw (t_ty t))) (type_size (t_ty t))) (\<lambda>tsize.
    rbind (ok_or (UnsupportedTensorType (type_raw (t_ty t))) (block_size (t_ty t))) (\<lambda>bsize.
    if bsize = 0 then Panic
    else if n mod bsize \<noteq> 0 then Err InvalidTensorShape
    else ok_or InvalidTensorShape (checked_mul (n div bsize) tsize))))"

text \<open>The byte range of a tensor, with the checks both users make.\<close>

definition checked_range :: "nat \<Rightarrow> nat \<Rightarrow> tensor_info \<Rightarrow> (gguf_error, nat \<times> nat) res" where
  "checked_range data_offset file_len t =
    rbind (encoded_len t) (\<lambda>len.
    rbind (ok_or InvalidTensorOffset (checked_add (word_of_nat data_offset) (t_offset t))) (\<lambda>start.
    rbind (ok_or InvalidTensorOffset (checked_add start len)) (\<lambda>fin.
    rbind (map_err (\<lambda>_. InvalidTensorOffset) (usize_from_u64 start)) (\<lambda>start.
    rbind (map_err (\<lambda>_. InvalidTensorOffset) (usize_from_u64 fin)) (\<lambda>fin.
    if file_len < fin then Err Truncated else Ok (start, fin))))))"

fun windows_disjoint :: "(nat \<times> nat) list \<Rightarrow> (gguf_error, unit) res" where
  "windows_disjoint (a # b # rest) =
    (if fst b < snd a then Err InvalidTensorOffset else windows_disjoint (b # rest))"
| "windows_disjoint _ = Ok ()"

definition validate_tensor_data_layout :: "nat \<Rightarrow> nat \<Rightarrow> tensor_info list \<Rightarrow> (gguf_error, unit) res" where
  "validate_tensor_data_layout data_offset file_len tensors =
    rbind (traverse (checked_range data_offset file_len) tensors) (\<lambda>ranges.
    windows_disjoint (sort_key fst ranges))"

definition align_up :: "nat \<Rightarrow> nat \<Rightarrow> nat option" where
  "align_up x a =
    (if a < 1 then None
     else case checked_add_usize x (a - 1) of None \<Rightarrow> None
     | Some s \<Rightarrow> Some (unat (word_of_nat s AND NOT (word_of_nat (a - 1)) :: u64)))"

section \<open>The file\<close>

fun read_metadata :: "nat \<Rightarrow> (str \<rightharpoonup> metadata_value) \<Rightarrow> (str \<rightharpoonup> metadata_value) read" where
  "read_metadata 0 meta = rret meta"
| "read_metadata (Suc n) meta =
    rget read_string (\<lambda>key.
    rget read_value (\<lambda>value.
    if meta key \<noteq> None then rfail DuplicateMetadataKey else read_metadata n (meta(key \<mapsto> value))))"

definition read_tensor :: "tensor_info read" where
  "read_tensor =
    rget read_string (\<lambda>name.
    rget read_u32 (\<lambda>ndim.
    rget (rlift (usize_from_u32 ndim)) (\<lambda>capacity.
    rget (rtimes (unat ndim) read_u64) (\<lambda>dimensions.
    rget read_u32 (\<lambda>ty.
    rget read_u64 (\<lambda>offset.
    rret \<lparr>t_name = name, t_dimensions = dimensions, t_ty = type_from_u32 ty, t_offset = offset\<rparr>))))))"

fun read_tensors :: "nat \<Rightarrow> tensor_info list \<Rightarrow> tensor_info list read" where
  "read_tensors 0 tensors = rret tensors"
| "read_tensors (Suc n) tensors =
    rget read_tensor (\<lambda>t.
    if list_ex (\<lambda>u. t_name u = t_name t) tensors then rfail DuplicateTensorName
    else read_tensors n (tensors @ [t]))"

definition gguf_magic :: "u8 list" where "gguf_magic = [0x47, 0x47, 0x55, 0x46]"

definition read_header :: "(u32 \<times> (str \<rightharpoonup> metadata_value) \<times> tensor_info list) read" where
  "read_header =
    rget (read_exact 4) (\<lambda>magic.
    if magic \<noteq> gguf_magic then rfail GgBadMagic
    else
      rget read_u32 (\<lambda>version.
      if version \<noteq> 2 \<and> version \<noteq> 3 then rfail (GgUnsupportedVersion version)
      else
        rget read_u64 (\<lambda>tensor_count.
        rget read_u64 (\<lambda>metadata_count.
        rget (read_metadata (unat metadata_count) Map.empty) (\<lambda>metadata.
        rget (ensure_count tensor_count 24) (\<lambda>_.
        rget (rlift (usize_from_u64 tensor_count)) (\<lambda>capacity.
        rget (read_tensors (unat tensor_count) []) (\<lambda>tensors.
        rret (version, metadata, tensors)))))))))"

definition parse_inner :: "u8 list \<Rightarrow> bool \<Rightarrow> (gguf_error, gguf) res" where
  "parse_inner bytes validate_data =
    rbind (read_header \<lparr>r_bytes = bytes, r_pos = 0\<rparr>)
    (\<lambda>((version, metadata, tensors), r).
      rbind (ok_or Truncated (align_up (r_pos r) 32)) (\<lambda>data_offset.
      if validate_data \<and> length bytes < data_offset then Err Truncated
      else
        rbind (if validate_data then validate_tensor_data_layout data_offset (length bytes) tensors
               else Ok ()) (\<lambda>_.
        Ok \<lparr>g_version = version, g_metadata = metadata, g_tensors = tensors, g_data_offset = data_offset,
            g_file_len = (if validate_data then length bytes else data_offset)\<rparr>)))"

definition parse :: "u8 list \<Rightarrow> (gguf_error, gguf) res" where
  "parse bytes = parse_inner bytes True"

definition parse_metadata_prefix :: "u8 list \<Rightarrow> (gguf_error, gguf) res" where
  "parse_metadata_prefix bytes = parse_inner bytes False"

definition from_parts :: "u32 \<Rightarrow> (str \<rightharpoonup> metadata_value) \<Rightarrow> tensor_info list \<Rightarrow> nat \<Rightarrow> nat \<Rightarrow> gguf" where
  "from_parts version metadata tensors data_offset file_len =
    \<lparr>g_version = version, g_metadata = metadata, g_tensors = tensors, g_data_offset = data_offset,
     g_file_len = file_len\<rparr>"

section \<open>Access\<close>

definition metadata_at :: "gguf \<Rightarrow> str \<Rightarrow> (gguf_error, metadata_value) res" where
  "metadata_at g key = ok_or MetadataNotFound (g_metadata g key)"

definition metadata_str :: "gguf \<Rightarrow> str \<Rightarrow> (gguf_error, str) res" where
  "metadata_str g key = rbind (metadata_at g key) (\<lambda>v.
    case v of MString s \<Rightarrow> Ok s | _ \<Rightarrow> Err MetadataTypeMismatch)"

definition metadata_u32 :: "gguf \<Rightarrow> str \<Rightarrow> (gguf_error, u32) res" where
  "metadata_u32 g key = rbind (metadata_at g key) (\<lambda>v.
    case v of MU32 v \<Rightarrow> Ok v
    | MU64 v \<Rightarrow> (if unat v < 2 ^ 32 then Ok (ucast v) else Err MetadataTypeMismatch)
    | _ \<Rightarrow> Err MetadataTypeMismatch)"

definition metadata_f32 :: "gguf \<Rightarrow> str \<Rightarrow> (gguf_error, f32) res" where
  "metadata_f32 g key = rbind (metadata_at g key) (\<lambda>v.
    case v of MF32 v \<Rightarrow> Ok v | MF64 v \<Rightarrow> Ok (f32_of_f64 v) | _ \<Rightarrow> Err MetadataTypeMismatch)"

definition tensor :: "gguf \<Rightarrow> str \<Rightarrow> (gguf_error, tensor_info) res" where
  "tensor g name =
    (case filter (\<lambda>t. t_name t = name) (g_tensors g) of
       [] \<Rightarrow> Err TensorNotFound | [t] \<Rightarrow> Ok t | _ \<Rightarrow> Err DuplicateTensorName)"

definition tensor_data_range :: "gguf \<Rightarrow> tensor_info \<Rightarrow> (gguf_error, nat \<times> nat) res" where
  "tensor_data_range g t = checked_range (g_data_offset g) (g_file_len g) t"

definition tensor_data :: "gguf \<Rightarrow> u8 list \<Rightarrow> str \<Rightarrow> (gguf_error, u8 list) res" where
  "tensor_data g bytes name =
    rbind (tensor g name) (\<lambda>t.
    rbind (tensor_data_range g t) (\<lambda>(start, fin).
    ok_or Truncated (get_range bytes start fin)))"

section \<open>Reading back what was laid out\<close>

text \<open>\<open>reads m enc x\<close>: placed at the coding \<open>enc\<close> of \<open>x\<close>, anywhere in a file that fits
  the address space, \<open>m\<close> returns \<open>x\<close> and stands behind the coding.\<close>

definition reads :: "'a read \<Rightarrow> u8 list \<Rightarrow> 'a \<Rightarrow> bool" where
  "reads m enc x \<longleftrightarrow> (\<forall>pre post. length (pre @ enc @ post) \<le> usize_max \<longrightarrow>
    m \<lparr>r_bytes = pre @ enc @ post, r_pos = length pre\<rparr> =
      Ok (x, \<lparr>r_bytes = pre @ enc @ post, r_pos = length pre + length enc\<rparr>))"

lemma reads_ret: "reads (rret x) [] x"
  by (simp add: reads_def rret_def)

lemma reads_get:
  assumes "reads m a x" "reads (f x) b y"
  shows "reads (rget m f) (a @ b) y"
proof -
  have "rget m f \<lparr>r_bytes = pre @ (a @ b) @ post, r_pos = length pre\<rparr> =
      Ok (y, \<lparr>r_bytes = pre @ (a @ b) @ post, r_pos = length pre + length (a @ b)\<rparr>)"
    if "length (pre @ (a @ b) @ post) \<le> usize_max" for pre post
    using assms(1) [unfolded reads_def, rule_format, of pre "b @ post"]
      assms(2) [unfolded reads_def, rule_format, of "pre @ a" post] that
    by (simp add: rget_def add.assoc)
  then show ?thesis by (simp only: reads_def) blast
qed

lemma reads_get_ret: "reads m a x \<Longrightarrow> reads (rget m (\<lambda>v. rret (f v))) a (f x)"
  using reads_get [of m a x "\<lambda>v. rret (f v)" "[]"] by (simp add: reads_ret)

lemma reads_lift: "m = Ok x \<Longrightarrow> reads (rlift m) [] x"
  by (simp add: reads_def rlift_def)

lemma reads_get_lift: "m = Ok x \<Longrightarrow> reads (f x) b y \<Longrightarrow> reads (rget (rlift m) f) b y"
  using reads_get [OF reads_lift] by fastforce

lemma reads_exact: "length enc = n \<Longrightarrow> reads (read_exact n) enc enc"
  by (auto simp: reads_def read_exact_def checked_add_usize_def get_range_def)

lemma reads_le:
  assumes "LENGTH('l::len) = 8 * n"
  shows "reads (rget (read_exact n) (\<lambda>b. rret (word_of_nat (from_le b)))) (le_bytes n (unat (w :: 'l word))) w"
proof -
  have "reads (rget (read_exact n) (\<lambda>b. rret (word_of_nat (from_le b) :: 'l word))) (le_bytes n (unat w))
      (word_of_nat (from_le (le_bytes n (unat w))))"
    by (rule reads_get_ret) (simp add: reads_exact)
  then show ?thesis by (simp add: word_from_le_bytes [OF assms])
qed

text \<open>The interface of a field: how it is read and how it is coded.\<close>

locale field_codec =
  fixes rd :: "'a read"
    and put :: "'a \<Rightarrow> u8 list"
    and ok :: "'a \<Rightarrow> bool"
  assumes reads_put: "ok x \<Longrightarrow> reads rd (put x) x"
begin

lemma reads_times: "list_all ok xs \<Longrightarrow> reads (rtimes (length xs) rd) (concat (map put xs)) xs"
proof (induction xs)
  case (Cons x xs)
  have "reads (rget (rtimes (length xs) rd) (\<lambda>ys. rret (x # ys))) (concat (map put xs)) (x # xs)"
    using Cons by (intro reads_get_ret) simp
  then show ?case using reads_get [OF reads_put] Cons.prems by fastforce
qed (simp add: reads_ret)

lemma reads_array: "list_all ok xs \<Longrightarrow> n = length xs \<Longrightarrow>
    reads (rget (rtimes n rd) (\<lambda>ys. rret (f ys))) (concat (map put xs)) (f xs)"
  by (simp add: reads_get_ret reads_times)

end

definition put_bool :: "bool \<Rightarrow> u8 list" where "put_bool b = [if b then 1 else 0]"

definition put_string :: "str \<Rightarrow> u8 list" where "put_string s = le_bytes 8 (length s) @ s"

definition string_ok :: "str \<Rightarrow> bool" where "string_ok s \<longleftrightarrow> utf8_valid s \<and> length s \<le> usize_max"

lemma reads_u8: "reads read_u8 [b] b"
proof -
  have "reads (rget (read_exact 1) (\<lambda>b. rlift (index_at b 0))) ([b] @ []) b"
    by (rule reads_get, rule reads_exact) (simp_all add: reads_lift)
  then show ?thesis by (simp add: read_u8_def)
qed

interpretation u8: field_codec read_u8 "\<lambda>b. [b]" "\<lambda>_. True"
  by unfold_locales (rule reads_u8)

interpretation u16: field_codec read_u16 "\<lambda>w. le_bytes 2 (unat w)" "\<lambda>_. True"
  by unfold_locales (simp add: read_u16_def reads_le)

interpretation u32: field_codec read_u32 "\<lambda>w. le_bytes 4 (unat w)" "\<lambda>_. True"
  by unfold_locales (simp add: read_u32_def reads_le)

interpretation u64: field_codec read_u64 "\<lambda>w. le_bytes 8 (unat w)" "\<lambda>_. True"
  by unfold_locales (simp add: read_u64_def reads_le)

interpretation i32: field_codec read_i32 "\<lambda>w. le_bytes 4 (unat w)" "\<lambda>_. True"
  by unfold_locales (unfold read_i32_def, intro reads_get_ret u32.reads_put, simp)

interpretation f32: field_codec read_f32 "\<lambda>w. le_bytes 4 (unat w)" "\<lambda>_. True"
  by unfold_locales (unfold read_f32_def, intro reads_get_ret u32.reads_put, simp)

interpretation f64: field_codec read_f64 "\<lambda>w. le_bytes 8 (unat w)" "\<lambda>_. True"
  by unfold_locales (unfold read_f64_def, intro reads_get_ret u64.reads_put, simp)

interpretation bl: field_codec read_bool put_bool "\<lambda>_. True"
proof unfold_locales
  fix b
  show "reads read_bool (put_bool b) b"
  proof -
    have "reads read_bool ([if b then 1 else 0] @ []) b"
      unfolding read_bool_def by (rule reads_get, rule reads_u8) (simp add: reads_ret)
    then show ?thesis by (simp add: put_bool_def)
  qed
qed

lemma usize_from_u64_Ok: "usize_from_u64 v = Ok (unat v)"
  using unat_less_pow [of v] by (simp add: usize_from_u64_def usize_max_def)

lemma usize_from_u32_Ok: "usize_from_u32 v = Ok (unat v)"
  using unat_less_pow [of v] by (simp add: usize_from_u32_def usize_max_def)

lemma unat_usize: "n \<le> usize_max \<Longrightarrow> unat (word_of_nat n :: u64) = n"
  by (simp add: unsigned_of_nat take_bit_nat_eq_self usize_max_def)

interpretation st: field_codec read_string put_string string_ok
proof unfold_locales
  fix s assume ok: "string_ok s"
  then have n: "unat (word_of_nat (length s) :: u64) = length s" by (simp add: string_ok_def unat_usize)
  have "reads (rget (read_exact (length s)) (\<lambda>b. if utf8_valid b then rret b else rfail InvalidUtf8)) (s @ []) s"
    using ok by (intro reads_get [OF reads_exact]) (simp_all add: string_ok_def reads_ret)
  then have "reads (rget (rlift (usize_from_u64 (word_of_nat (length s)))) (\<lambda>n.
      rget (read_exact n) (\<lambda>b. if utf8_valid b then rret b else rfail InvalidUtf8))) s s"
    by (intro reads_get_lift [OF usize_from_u64_Ok]) (simp add: n)
  then have "reads read_string (le_bytes 8 (unat (word_of_nat (length s) :: u64)) @ s) s"
    unfolding read_string_def by (intro reads_get [OF u64.reads_put]) simp_all
  then show "reads read_string (put_string s) s" unfolding put_string_def n .
qed

lemma reads_ensure:
  assumes "reads (f ()) b y" "unat n * k \<le> length b"
  shows "reads (rget (ensure_count n k) f) b y"
proof -
  have "ensure_count n k \<lparr>r_bytes = pre @ b @ post, r_pos = length pre\<rparr> =
      Ok ((), \<lparr>r_bytes = pre @ b @ post, r_pos = length pre\<rparr>)" if "length (pre @ b @ post) \<le> usize_max" for pre post
    using that assms(2)
    by (simp add: ensure_count_def usize_from_u64_Ok checked_mul_usize_def checked_add_usize_def)
  then show ?thesis using assms(1) by (simp add: reads_def rget_def)
qed

text \<open>The coding of a metadata value: its type, for an array the element type and the count,
  then the payload.\<close>

definition put_array :: "nat \<Rightarrow> ('a \<Rightarrow> u8 list) \<Rightarrow> 'a list \<Rightarrow> u8 list" where
  "put_array ty put xs = le_bytes 4 9 @ le_bytes 4 ty @ le_bytes 8 (length xs) @ concat (map put xs)"

fun put_value :: "metadata_value \<Rightarrow> u8 list" where
  "put_value (MU8 v) = le_bytes 4 0 @ [v]"
| "put_value (MI8 v) = le_bytes 4 1 @ [v]"
| "put_value (MU16 v) = le_bytes 4 2 @ le_bytes 2 (unat v)"
| "put_value (MI16 v) = le_bytes 4 3 @ le_bytes 2 (unat v)"
| "put_value (MU32 v) = le_bytes 4 4 @ le_bytes 4 (unat v)"
| "put_value (MI32 v) = le_bytes 4 5 @ le_bytes 4 (unat v)"
| "put_value (MF32 v) = le_bytes 4 6 @ le_bytes 4 (unat v)"
| "put_value (MBool v) = le_bytes 4 7 @ put_bool v"
| "put_value (MString v) = le_bytes 4 8 @ put_string v"
| "put_value (MU64 v) = le_bytes 4 10 @ le_bytes 8 (unat v)"
| "put_value (MI64 v) = le_bytes 4 11 @ le_bytes 8 (unat v)"
| "put_value (MF64 v) = le_bytes 4 12 @ le_bytes 8 (unat v)"
| "put_value (ArrayU8 xs) = put_array 0 (\<lambda>b. [b]) xs"
| "put_value (ArrayI8 xs) = put_array 1 (\<lambda>b. [b]) xs"
| "put_value (ArrayU16 xs) = put_array 2 (\<lambda>w. le_bytes 2 (unat w)) xs"
| "put_value (ArrayI16 xs) = put_array 3 (\<lambda>w. le_bytes 2 (unat w)) xs"
| "put_value (ArrayU32 xs) = put_array 4 (\<lambda>w. le_bytes 4 (unat w)) xs"
| "put_value (ArrayI32 xs) = put_array 5 (\<lambda>w. le_bytes 4 (unat w)) xs"
| "put_value (ArrayF32 xs) = put_array 6 (\<lambda>w. le_bytes 4 (unat w)) xs"
| "put_value (ArrayBool xs) = put_array 7 put_bool xs"
| "put_value (ArrayString xs) = put_array 8 put_string xs"
| "put_value (ArrayU64 xs) = put_array 10 (\<lambda>w. le_bytes 8 (unat w)) xs"
| "put_value (ArrayI64 xs) = put_array 11 (\<lambda>w. le_bytes 8 (unat w)) xs"
| "put_value (ArrayF64 xs) = put_array 12 (\<lambda>w. le_bytes 8 (unat w)) xs"

fun value_ok :: "metadata_value \<Rightarrow> bool" where
  "value_ok (MString s) = string_ok s"
| "value_ok (ArrayU8 xs) = (length xs \<le> usize_max)"
| "value_ok (ArrayI8 xs) = (length xs \<le> usize_max)"
| "value_ok (ArrayU16 xs) = (length xs \<le> usize_max)"
| "value_ok (ArrayI16 xs) = (length xs \<le> usize_max)"
| "value_ok (ArrayU32 xs) = (length xs \<le> usize_max)"
| "value_ok (ArrayI32 xs) = (length xs \<le> usize_max)"
| "value_ok (ArrayF32 xs) = (length xs \<le> usize_max)"
| "value_ok (ArrayBool xs) = (length xs \<le> usize_max)"
| "value_ok (ArrayString xs) = (length xs \<le> usize_max \<and> list_all string_ok xs)"
| "value_ok (ArrayU64 xs) = (length xs \<le> usize_max)"
| "value_ok (ArrayI64 xs) = (length xs \<le> usize_max)"
| "value_ok (ArrayF64 xs) = (length xs \<le> usize_max)"
| "value_ok _ = True"

lemma concat_map_length_ge: "(\<And>x. x \<in> set xs \<Longrightarrow> k \<le> length (put x)) \<Longrightarrow> length xs * k \<le> length (concat (map put xs))"
  by (induction xs) (auto intro: add_mono)

lemma reads_tag:
  assumes "n < 2 ^ 32" "reads (f (word_of_nat n)) b y"
  shows "reads (rget read_u32 f) (le_bytes 4 n @ b) y"
proof -
  have "unat (word_of_nat n :: u32) = n" using assms(1) by (simp add: unsigned_of_nat take_bit_nat_eq_self)
  moreover have "reads (rget read_u32 f) (le_bytes 4 (unat (word_of_nat n :: u32)) @ b) y"
    by (rule reads_get, rule u32.reads_put, simp, rule assms(2))
  ultimately show ?thesis by simp
qed

text \<open>An array is read back, element by element.\<close>

lemma reads_put_array:
  assumes "length xs \<le> usize_max" "min_elem_bytes (word_of_nat ty) = Some k" "ty < 2 ^ 32"
    and "\<And>x. k \<le> length (put x)"
    and "\<And>n. n = length xs \<Longrightarrow> reads (read_array (word_of_nat ty) (word_of_nat n)) (concat (map put xs)) v"
  shows "reads read_value (put_array ty put xs) v"
proof -
  define n where "n = (word_of_nat (length xs) :: u64)"
  have n: "unat n = length xs" using assms(1) by (simp add: n_def unat_usize)
  have "reads (rget (rlift (usize_from_u64 n)) (\<lambda>capacity. read_array (word_of_nat ty) n)) (concat (map put xs)) v"
    by (rule reads_get_lift [OF usize_from_u64_Ok]) (simp add: assms(5) n_def)
  moreover have "unat n * k \<le> length (concat (map put xs))"
    unfolding n by (rule concat_map_length_ge) (rule assms(4))
  ultimately have "reads (rget (ensure_count n k) (\<lambda>_. rget (rlift (usize_from_u64 n))
      (\<lambda>capacity. read_array (word_of_nat ty) n))) (concat (map put xs)) v"
    by (intro reads_ensure)
  then have "reads (rget read_u64 (\<lambda>n. case min_elem_bytes (word_of_nat ty) of
        None \<Rightarrow> rfail (UnsupportedValueType (word_of_nat ty))
      | Some min_bytes \<Rightarrow> rget (ensure_count n min_bytes) (\<lambda>_. rget (rlift (usize_from_u64 n))
          (\<lambda>capacity. read_array (word_of_nat ty) n)))) (le_bytes 8 (unat n) @ concat (map put xs)) v"
    by (intro reads_get [OF u64.reads_put]) (simp_all add: assms(2))
  from reads_tag [OF assms(3), where f = "\<lambda>elem_ty. rget read_u64 (\<lambda>n. case min_elem_bytes elem_ty of
        None \<Rightarrow> rfail (UnsupportedValueType elem_ty)
      | Some min_bytes \<Rightarrow> rget (ensure_count n min_bytes) (\<lambda>_. rget (rlift (usize_from_u64 n))
          (\<lambda>capacity. read_array elem_ty n)))", OF this]
  show ?thesis unfolding read_value_def put_array_def n by (intro reads_tag) simp_all
qed

lemma length_put [simp]: "length (put_bool b) = 1" "8 \<le> length (put_string s)"
  by (simp_all add: put_bool_def put_string_def)

lemma reads_bytes: "n = length xs \<Longrightarrow> reads (rget (rtimes n read_u8) (\<lambda>ys. rret (f ys))) xs (f xs)"
  using u8.reads_array [of xs n f] by (simp add: list_all_iff)

lemma reads_byte_arrays:
  assumes "length xs \<le> usize_max"
  shows "reads read_value (put_array 0 (\<lambda>b. [b]) xs) (ArrayU8 xs)"
    "reads read_value (put_array 1 (\<lambda>b. [b]) xs) (ArrayI8 xs)"
  using assms by (intro reads_put_array [where k = 1];
      auto simp: min_elem_bytes_def read_array_def unat_usize list_all_iff intro: reads_bytes)+

lemma reads_u16_arrays:
  assumes "length xs \<le> usize_max"
  shows "reads read_value (put_array 2 (\<lambda>w. le_bytes 2 (unat w)) xs) (ArrayU16 xs)"
    "reads read_value (put_array 3 (\<lambda>w. le_bytes 2 (unat w)) xs) (ArrayI16 xs)"
  using assms by (intro reads_put_array [where k = 2];
      auto simp: min_elem_bytes_def read_array_def unat_usize list_all_iff intro: u16.reads_array)+

lemma reads_u32_arrays:
  assumes "length xs \<le> usize_max"
  shows "reads read_value (put_array 4 (\<lambda>w. le_bytes 4 (unat w)) xs) (ArrayU32 xs)"
    "reads read_value (put_array 5 (\<lambda>w. le_bytes 4 (unat w)) xs) (ArrayI32 xs)"
    "reads read_value (put_array 6 (\<lambda>w. le_bytes 4 (unat w)) xs) (ArrayF32 xs)"
  using assms by (intro reads_put_array [where k = 4];
      auto simp: min_elem_bytes_def read_array_def unat_usize list_all_iff
        intro: u32.reads_array i32.reads_array f32.reads_array)+

lemma reads_bool_array:
  assumes "length xs \<le> usize_max"
  shows "reads read_value (put_array 7 put_bool xs) (ArrayBool xs)"
  using assms by (intro reads_put_array [where k = 1];
      auto simp: min_elem_bytes_def read_array_def unat_usize list_all_iff intro: bl.reads_array)

lemma reads_string_array:
  assumes "length xs \<le> usize_max" "list_all string_ok xs"
  shows "reads read_value (put_array 8 put_string xs) (ArrayString xs)"
  using assms by (intro reads_put_array [where k = 8])
      (auto simp: min_elem_bytes_def read_array_def unat_usize intro: st.reads_array)

lemma reads_u64_arrays:
  assumes "length xs \<le> usize_max"
  shows "reads read_value (put_array 10 (\<lambda>w. le_bytes 8 (unat w)) xs) (ArrayU64 xs)"
    "reads read_value (put_array 11 (\<lambda>w. le_bytes 8 (unat w)) xs) (ArrayI64 xs)"
    "reads read_value (put_array 12 (\<lambda>w. le_bytes 8 (unat w)) xs) (ArrayF64 xs)"
  using assms by (intro reads_put_array [where k = 8];
      auto simp: min_elem_bytes_def read_array_def unat_usize list_all_iff
        intro: u64.reads_array f64.reads_array)+

lemmas reads_arrays = reads_byte_arrays reads_u16_arrays reads_u32_arrays reads_bool_array
  reads_string_array reads_u64_arrays

lemma reads_value: "value_ok v \<Longrightarrow> reads read_value (put_value v) v"
  by (cases v; simp only: put_value.simps value_ok.simps; (elim conjE)?; (rule reads_arrays; assumption)?;
      unfold read_value_def; intro reads_tag; simp?;
      (intro reads_get_ret u8.reads_put u16.reads_put u32.reads_put u64.reads_put i32.reads_put
        f32.reads_put f64.reads_put bl.reads_put st.reads_put)?; simp)

text \<open>The coding of a tensor description and of the whole header.\<close>

definition put_tensor :: "tensor_info \<Rightarrow> u8 list" where
  "put_tensor t = put_string (t_name t) @ le_bytes 4 (length (t_dimensions t)) @
    concat (map (\<lambda>w. le_bytes 8 (unat w)) (t_dimensions t)) @ le_bytes 4 (unat (type_raw (t_ty t))) @
    le_bytes 8 (unat (t_offset t))"

definition tensor_ok :: "tensor_info \<Rightarrow> bool" where
  "tensor_ok t \<longleftrightarrow> string_ok (t_name t) \<and> length (t_dimensions t) < 2 ^ 32 \<and>
    type_from_u32 (type_raw (t_ty t)) = t_ty t"

definition put_header :: "u32 \<Rightarrow> (str \<times> metadata_value) list \<Rightarrow> tensor_info list \<Rightarrow> u8 list" where
  "put_header version meta tensors = gguf_magic @ le_bytes 4 (unat version) @ le_bytes 8 (length tensors) @
    le_bytes 8 (length meta) @ concat (map (\<lambda>(k, v). put_string k @ put_value v) meta) @
    concat (map put_tensor tensors)"

text \<open>Every element type has one raw code; \<open>Other\<close> holds the codes that are not listed.\<close>

lemma type_raw_inverse: "type_raw (type_from_u32 raw) = raw"
  by (simp add: type_from_u32_def)

lemma reads_tensor:
  assumes ok: "tensor_ok t"
  shows "reads read_tensor (put_tensor t) t"
proof -
  define nd where "nd = (word_of_nat (length (t_dimensions t)) :: u32)"
  have nd: "unat nd = length (t_dimensions t)"
    using ok by (simp add: nd_def tensor_ok_def unsigned_of_nat take_bit_nat_eq_self)
  have dims: "reads (rtimes (unat nd) read_u64) (concat (map (\<lambda>w. le_bytes 8 (unat w)) (t_dimensions t)))
      (t_dimensions t)"
    unfolding nd by (rule u64.reads_times) (simp add: list_all_iff)
  have "reads (rget read_u64 (\<lambda>offset. rret \<lparr>t_name = t_name t, t_dimensions = t_dimensions t,
      t_ty = type_from_u32 (type_raw (t_ty t)), t_offset = offset\<rparr>)) (le_bytes 8 (unat (t_offset t)))
      \<lparr>t_name = t_name t, t_dimensions = t_dimensions t,
      t_ty = type_from_u32 (type_raw (t_ty t)), t_offset = t_offset t\<rparr>"
    by (rule reads_get_ret, rule u64.reads_put) simp
  moreover have "\<lparr>t_name = t_name t, t_dimensions = t_dimensions t,
      t_ty = type_from_u32 (type_raw (t_ty t)), t_offset = t_offset t\<rparr> = t"
    using ok by (simp add: tensor_ok_def)
  ultimately have last: "reads (rget read_u64 (\<lambda>offset. rret \<lparr>t_name = t_name t, t_dimensions = t_dimensions t,
      t_ty = type_from_u32 (type_raw (t_ty t)), t_offset = offset\<rparr>)) (le_bytes 8 (unat (t_offset t))) t"
    by simp
  show ?thesis unfolding read_tensor_def put_tensor_def nd [symmetric]
    apply (rule reads_get, rule st.reads_put)
     apply (use ok in \<open>simp add: tensor_ok_def\<close>)
    apply (rule reads_get, rule u32.reads_put, simp)
    apply (rule reads_get_lift, rule usize_from_u32_Ok)
    apply (rule reads_get, rule dims)
    apply (rule reads_get, rule u32.reads_put, simp)
    apply (rule last)
    done
qed

lemma reads_metadata:
  "list_all (\<lambda>(k, v). string_ok k \<and> value_ok v) meta \<Longrightarrow> distinct (map fst meta) \<Longrightarrow>
    set (map fst meta) \<inter> dom m = {} \<Longrightarrow>
    reads (read_metadata (length meta) m) (concat (map (\<lambda>(k, v). put_string k @ put_value v) meta))
      (m ++ map_of meta)"
proof (induction meta arbitrary: m)
  case (Cons kv meta)
  obtain k v where kv: "kv = (k, v)" by fastforce
  have k: "string_ok k" "value_ok v" "m k = None" using Cons.prems by (auto simp: kv)
  have upd: "m(k \<mapsto> v) ++ map_of meta = m ++ map_of (kv # meta)"
    using Cons.prems(2) map_of_eq_None_iff [of meta k]
    by (auto simp: kv map_add_def fun_eq_iff split: option.splits)
  have "reads (read_metadata (length meta) (m(k \<mapsto> v)))
      (concat (map (\<lambda>(k, v). put_string k @ put_value v) meta)) (m(k \<mapsto> v) ++ map_of meta)"
    using Cons.prems by (intro Cons.IH) (simp_all add: kv Int_insert_right del: fun_upd_apply)
  then have rest: "reads (read_metadata (length meta) (m(k \<mapsto> v)))
      (concat (map (\<lambda>(k, v). put_string k @ put_value v) meta)) (m ++ map_of (kv # meta))" unfolding upd .
  have "reads (rget read_value (\<lambda>value. if m k \<noteq> None then rfail DuplicateMetadataKey
      else read_metadata (length meta) (m(k \<mapsto> value))))
      (put_value v @ concat (map (\<lambda>(k, v). put_string k @ put_value v) meta)) (m ++ map_of (kv # meta))"
    by (rule reads_get [OF reads_value [OF k(2)]]) (use rest k(3) in simp)
  from reads_get [where f = "\<lambda>key. rget read_value (\<lambda>value. if m key \<noteq> None then rfail DuplicateMetadataKey
      else read_metadata (length meta) (m(key \<mapsto> value)))", OF st.reads_put [OF k(1)] this]
  show ?case by (simp add: kv del: map_of.simps map_add_upd fun_upd_apply)
qed (simp add: reads_ret)

lemma reads_tensors:
  "list_all tensor_ok ts \<Longrightarrow> distinct (map t_name (us @ ts)) \<Longrightarrow>
    reads (read_tensors (length ts) us) (concat (map put_tensor ts)) (us @ ts)"
proof (induction ts arbitrary: us)
  case (Cons t ts)
  have new: "\<not> list_ex (\<lambda>u. t_name u = t_name t) us" using Cons.prems(2) by (force simp: list_ex_iff image_iff)
  have "reads (read_tensors (length ts) (us @ [t])) (concat (map put_tensor ts)) ((us @ [t]) @ ts)"
    using Cons.prems by (intro Cons.IH) auto
  then have rest: "reads (read_tensors (length ts) (us @ [t])) (concat (map put_tensor ts)) (us @ t # ts)" by simp
  have "tensor_ok t" using Cons.prems(1) by simp
  then have "reads (read_tensors (Suc (length ts)) us) (put_tensor t @ concat (map put_tensor ts)) (us @ t # ts)"
    unfolding read_tensors.simps by (rule reads_get [OF reads_tensor]) (simp only: new if_False rest)
  then show ?case by simp
qed (simp add: reads_ret)

lemma reads_header:
  assumes "version = 2 \<or> version = 3"
    and "list_all (\<lambda>(k, v). string_ok k \<and> value_ok v) meta" "distinct (map fst meta)" "length meta \<le> usize_max"
    and "list_all tensor_ok ts" "distinct (map t_name ts)" "length ts \<le> usize_max"
  shows "reads read_header (put_header version meta ts) (version, map_of meta, ts)"
proof -
  define nt nm where "nt = (word_of_nat (length ts) :: u64)" and "nm = (word_of_nat (length meta) :: u64)"
  have n: "unat nt = length ts" "unat nm = length meta" using assms by (simp_all add: nt_def nm_def unat_usize)
  have "24 \<le> length (put_tensor t)" for t
    using length_put(2) [of "t_name t"] by (simp add: put_tensor_def trans_le_add1)
  then have size: "unat nt * 24 \<le> length (concat (map put_tensor ts))"
    unfolding n by (intro concat_map_length_ge) simp
  have meta: "reads (read_metadata (unat nm) Map.empty) (concat (map (\<lambda>(k, v). put_string k @ put_value v) meta))
      (map_of meta)"
    using reads_metadata [OF assms(2,3), of Map.empty] by (simp add: n)
  have tens: "reads (rget (read_tensors (unat nt) []) (\<lambda>tensors. rret (version, map_of meta, tensors)))
      (concat (map put_tensor ts)) (version, map_of meta, ts)"
    using reads_tensors [OF assms(5), of "[]"] assms(6) by (intro reads_get_ret) (simp add: n)
  have rest: "reads (rget (ensure_count nt 24) (\<lambda>_. rget (rlift (usize_from_u64 nt)) (\<lambda>capacity.
      rget (read_tensors (unat nt) []) (\<lambda>tensors. rret (version, map_of meta, tensors)))))
      (concat (map put_tensor ts)) (version, map_of meta, ts)"
    by (rule reads_ensure, rule reads_get_lift, rule usize_from_u64_Ok, rule tens, rule size)
  have main: "reads (if gguf_magic \<noteq> gguf_magic then rfail GgBadMagic else rget read_u32 (\<lambda>version.
      if version \<noteq> 2 \<and> version \<noteq> 3 then rfail (GgUnsupportedVersion version)
      else rget read_u64 (\<lambda>tensor_count. rget read_u64 (\<lambda>metadata_count.
        rget (read_metadata (unat metadata_count) Map.empty) (\<lambda>metadata.
        rget (ensure_count tensor_count 24) (\<lambda>_.
        rget (rlift (usize_from_u64 tensor_count)) (\<lambda>capacity.
        rget (read_tensors (unat tensor_count) []) (\<lambda>tensors. rret (version, metadata, tensors)))))))))
      (le_bytes 4 (unat version) @ le_bytes 8 (unat nt) @ le_bytes 8 (unat nm) @
       concat (map (\<lambda>(k, v). put_string k @ put_value v) meta) @ concat (map put_tensor ts))
      (version, map_of meta, ts)"
    unfolding simp_thms if_False
    apply (rule reads_get, rule u32.reads_put, simp)
    apply (simp only: assms(1) de_Morgan_disj [symmetric] not_not if_False simp_thms)
    apply (rule reads_get, rule u64.reads_put, simp)
    apply (rule reads_get, rule u64.reads_put, simp)
    apply (rule reads_get, rule meta)
    apply (rule rest)
    done
  show ?thesis unfolding read_header_def put_header_def n [symmetric]
    apply (rule reads_get, rule reads_exact)
     apply (simp add: gguf_magic_def)
    apply (rule main)
    done
qed

lemma align_up_32:
  assumes "x + 31 \<le> usize_max"
  shows "align_up x 32 = Some (32 * ((x + 31) div 32))"
proof -
  define w where "w = (word_of_nat (x + 31) :: u64)"
  have w: "unat w = x + 31" using assms by (simp add: w_def unat_usize del: of_nat_add)
  have "(word_of_nat 31 :: u64) = mask 5" by (simp add: mask_eq_decr_exp)
  moreover have "w AND NOT (mask 5) = push_bit 5 (drop_bit 5 w)"
    by (rule bit_eqI) (auto simp: bit_simps)
  ultimately have "w AND NOT (word_of_nat 31) = push_bit 5 (drop_bit 5 w)" by (simp only:)
  moreover have "unat w div 32 * 32 < 2 ^ 64"
    using unat_less_pow [of w] div_times_less_eq_dividend [of "unat w" 32] by simp
  ultimately have "unat (w AND NOT (word_of_nat 31)) = 32 * (unat w div 32)"
    by (simp add: unat_push_bit_64 unat_drop_bit_word mult.commute)
  then show ?thesis using assms
    by (simp add: align_up_def checked_add_usize_def w w_def [symmetric] del: of_nat_add)
qed

section \<open>The tensor data layout\<close>

text \<open>What the layout check promises: every tensor lies inside the file, behind the header, and no
  two tensors share a byte.\<close>

fun block_bytes :: "ggml_type \<Rightarrow> (nat \<times> nat) option" where
  "block_bytes ty = (case (block_size ty, type_size ty) of
     (Some b, Some s) \<Rightarrow> Some (unat b, unat s) | _ \<Rightarrow> None)"

definition tensor_bytes :: "tensor_info \<Rightarrow> nat" where
  "tensor_bytes t = (case block_bytes (t_ty t) of None \<Rightarrow> 0
    | Some (b, s) \<Rightarrow> prod_list (map unat (t_dimensions t)) div b * s)"

definition disjoint :: "nat \<times> nat \<Rightarrow> nat \<times> nat \<Rightarrow> bool" where
  "disjoint p q \<longleftrightarrow> snd p \<le> fst q \<or> snd q \<le> fst p"

definition range_of :: "nat \<Rightarrow> tensor_info \<Rightarrow> nat \<times> nat" where
  "range_of d t = (d + unat (t_offset t), d + unat (t_offset t) + tensor_bytes t)"

definition layout_ok :: "nat \<Rightarrow> nat \<Rightarrow> tensor_info list \<Rightarrow> bool" where
  "layout_ok d n ts \<longleftrightarrow>
    list_all (\<lambda>t. (\<exists>len. encoded_len t = Ok len) \<and> snd (range_of d t) \<le> n) ts \<and>
    sorted_wrt (\<lambda>t u. disjoint (range_of d t) (range_of d u)) ts"

lemma checked_mul_unat: "checked_mul a b = Some c \<Longrightarrow> unat c = unat a * unat b"
  by (auto simp: unat_mul_small)

lemma count_elements_Ok:
  "count_elements ds n = Ok m \<Longrightarrow> unat m = unat n * prod_list (map unat ds) \<and> 0 \<notin> set ds"
proof (induction ds n rule: count_elements.induct)
  case (2 d ds n)
  then obtain k where "d \<noteq> 0" and k: "checked_mul n d = Some k" and rest: "count_elements ds k = Ok m"
    by (auto split: if_splits simp del: checked_mul_Some)
  then have "unat k = unat n * unat d" by (auto simp: unat_mul_small)
  then show ?case using 2(1) [OF \<open>d \<noteq> 0\<close> _ rest] k \<open>d \<noteq> 0\<close> by (simp add: mult.assoc)
qed simp

lemma prod_pos: "0 \<notin> set ds \<Longrightarrow> 0 < prod_list (map unat (ds :: u64 list))"
  by (induction ds) (auto simp: unat_gt_0)

lemma encoded_len_bytes:
  assumes "encoded_len t = Ok len"
  shows "unat len = tensor_bytes t" "0 < tensor_bytes t"
proof -
  from assms obtain n ts bs where n: "element_count t = Ok n" and ts: "type_size (t_ty t) = Some ts"
    and bs: "block_size (t_ty t) = Some bs" "bs \<noteq> 0" "n mod bs = 0"
    and len: "checked_mul (n div bs) ts = Some len"
    by (auto simp: encoded_len_def simp del: checked_mul_Some split: if_splits del: mod_0_imp_dvd)
  from n have cnt: "unat n = prod_list (map unat (t_dimensions t))" "0 \<notin> set (t_dimensions t)"
    by (auto simp: element_count_def split: if_splits dest: count_elements_Ok)
  have "unat len = unat (n div bs) * unat ts" by (rule checked_mul_unat [OF len])
  then show "unat len = tensor_bytes t"
    by (simp only: tensor_bytes_def block_bytes.simps ts bs option.case prod.case unat_div cnt)
  have "unat n mod unat bs = 0" using bs(3) by (simp only: unsigned_0 flip: unat_mod)
  moreover have "0 < unat n" using prod_pos [OF cnt(2)] cnt by simp
  moreover have "0 < unat ts" using ts by (cases "t_ty t") auto
  ultimately have "0 < unat n div unat bs * unat ts"
    by (metis div_mult_mod_eq add.right_neutral mult_eq_0_iff neq0_conv)
  then show "0 < tensor_bytes t"
    by (simp only: tensor_bytes_def block_bytes.simps ts bs option.case prod.case cnt)
qed

lemma checked_range_Ok_iff:
  assumes "d \<le> usize_max" "n \<le> usize_max"
  shows "checked_range d n t = Ok p \<longleftrightarrow>
    (\<exists>len. encoded_len t = Ok len) \<and> p = range_of d t \<and> snd p \<le> n"
proof (cases "encoded_len t")
  case (Ok len)
  have d: "unat (word_of_nat d :: u64) = d" using assms by (simp add: unat_usize)
  have max: "usize_max < 2 ^ 64" by (simp add: usize_max_def)
  show ?thesis
    using assms encoded_len_bytes [OF Ok] max
    by (auto simp: checked_range_def Ok d range_of_def usize_from_u64_Ok unat_add_small)
qed (simp_all add: checked_range_def)

lemma windows_Ok_iff:
  assumes "\<And>p. p \<in> set ps \<Longrightarrow> fst p < snd p"
  shows "windows_disjoint ps = Ok () \<longleftrightarrow> sorted_wrt (\<lambda>p q. snd p \<le> fst q) ps"
  using assms
proof (induction ps rule: windows_disjoint.induct)
  case (1 a b rest)
  have b: "fst b < snd b" using 1(2) by simp
  then have "snd a \<le> fst x" if "snd a \<le> fst b" "snd b \<le> fst x" for x :: "nat \<times> nat" using that by linarith
  then show ?case using 1 by (auto split: if_splits)
qed auto

lemma sorted_wrt_insort:
  "symp R \<Longrightarrow> sorted_wrt R (insort_key f x xs) \<longleftrightarrow> sorted_wrt R (x # xs)"
  by (induction xs) (auto simp: set_insort_key dest: sympD)

lemma sorted_wrt_sort: "symp R \<Longrightarrow> sorted_wrt R (sort_key f xs) \<longleftrightarrow> sorted_wrt R xs"
  by (induction xs) (simp_all add: sort_key_def sorted_wrt_insort flip: sort_key_def)

lemma sorted_windows_iff:
  assumes "\<And>p. p \<in> set ps \<Longrightarrow> fst p < snd p"
  shows "windows_disjoint (sort_key fst ps) = Ok () \<longleftrightarrow> sorted_wrt disjoint ps"
proof -
  let ?qs = "sort_key fst ps"
  have pos: "fst p < snd p" if "p \<in> set ?qs" for p using assms that by simp
  have "symp disjoint" by (auto simp: symp_def disjoint_def)
  then have "sorted_wrt disjoint ?qs \<longleftrightarrow> sorted_wrt disjoint ps" by (rule sorted_wrt_sort)
  moreover have "sorted_wrt (\<lambda>p q. snd p \<le> fst q) ?qs \<longleftrightarrow> sorted_wrt disjoint ?qs"
  proof
    assume "sorted_wrt (\<lambda>p q. snd p \<le> fst q) ?qs"
    then show "sorted_wrt disjoint ?qs" by (rule sorted_wrt_mono_rel [rotated]) (simp add: disjoint_def)
  next
    assume d: "sorted_wrt disjoint ?qs"
    have s: "sorted_wrt (\<lambda>p q. fst p \<le> fst q) ?qs" using sorted_sort_key [of fst ps] by (simp add: sorted_map)
    show "sorted_wrt (\<lambda>p q. snd p \<le> fst q) ?qs" unfolding sorted_wrt_iff_nth_less
    proof (intro allI impI)
      fix i j assume ij: "i < j" "j < length ?qs"
      have "fst (?qs ! j) < snd (?qs ! j)" using ij by (intro pos nth_mem) simp
      moreover have "disjoint (?qs ! i) (?qs ! j)" "fst (?qs ! i) \<le> fst (?qs ! j)"
        using ij d s by (simp_all only: sorted_wrt_iff_nth_less)
      ultimately show "snd (?qs ! i) \<le> fst (?qs ! j)" by (auto simp: disjoint_def)
    qed
  qed
  ultimately show ?thesis using windows_Ok_iff [of ?qs] pos by simp
qed

lemma traverse_range_iff:
  assumes "d \<le> usize_max" "n \<le> usize_max"
  shows "traverse (checked_range d n) ts = Ok rs \<longleftrightarrow>
    list_all (\<lambda>t. (\<exists>len. encoded_len t = Ok len) \<and> snd (range_of d t) \<le> n) ts \<and> rs = map (range_of d) ts"
proof (induction ts arbitrary: rs)
  case (Cons t ts)
  then show ?case by (auto simp: checked_range_Ok_iff [OF assms])
qed auto

lemma layout_check_iff:
  assumes "d \<le> usize_max" "n \<le> usize_max"
  shows "validate_tensor_data_layout d n ts = Ok () \<longleftrightarrow> layout_ok d n ts"
proof -
  let ?in = "list_all (\<lambda>t. (\<exists>len. encoded_len t = Ok len) \<and> snd (range_of d t) \<le> n) ts"
  have "fst p < snd p" if "?in" "p \<in> set (map (range_of d) ts)" for p
    using that encoded_len_bytes(2) by (fastforce simp: list_all_iff range_of_def)
  then have "?in \<Longrightarrow> windows_disjoint (sort_key fst (map (range_of d) ts)) = Ok () \<longleftrightarrow>
      sorted_wrt disjoint (map (range_of d) ts)"
    by (intro sorted_windows_iff) simp
  then show ?thesis
    by (auto simp: validate_tensor_data_layout_def traverse_range_iff [OF assms] layout_ok_def sorted_wrt_map)
qed

text \<open>The tensor layout check (\<open>validate_tensor_data_layout\<close>: one pass that computes every
  range with checked arithmetic, a sort, and a scan over neighbours) accepts exactly the tensor
  tables that meet the specification \<open>layout_ok\<close>: every tensor has a coded size, ends inside the
  file, and no two tensors overlap.\<close>

lemma layout_check_correct:
  assumes "d \<le> usize_max" "n \<le> usize_max"
  shows "validate_tensor_data_layout d n ts = Ok () \<longleftrightarrow> layout_ok d n ts"
  using assms by (rule layout_check_iff)

definition small_tensor :: "str \<Rightarrow> u64 \<Rightarrow> tensor_info" where
  "small_tensor name off = \<lparr>t_name = name, t_dimensions = [32, 2], t_ty = Q8_0, t_offset = off\<rparr>"

lemma layout_check_correct_witness:
  "validate_tensor_data_layout 32 1000 [small_tensor [97] 96, small_tensor [98] 0] = Ok () \<and>
   layout_ok 32 1000 [small_tensor [97] 96, small_tensor [98] 0] \<and>
   validate_tensor_data_layout 32 1000 [small_tensor [97] 64, small_tensor [98] 0] \<noteq> Ok () \<and>
   \<not> layout_ok 32 1000 [small_tensor [97] 64, small_tensor [98] 0]"
proof -
  have max: "32 \<le> usize_max" "1000 \<le> usize_max" by (simp_all add: usize_max_def)
  have len: "encoded_len (small_tensor name off) = Ok 68" for name off
    by (simp add: encoded_len_def element_count_def small_tensor_def)
  have r: "range_of 32 (small_tensor name off) = (32 + unat off, 100 + unat off)" for name off
    by (simp add: range_of_def tensor_bytes_def small_tensor_def)
  have "layout_ok 32 1000 [small_tensor [97] 96, small_tensor [98] 0]"
    "\<not> layout_ok 32 1000 [small_tensor [97] 64, small_tensor [98] 0]"
    by (simp_all add: layout_ok_def len r disjoint_def)
  then show ?thesis using layout_check_correct [OF max] by simp
qed

section \<open>The parser as a whole\<close>

lemma read_put_header:
  assumes "version = 2 \<or> version = 3"
    and "list_all (\<lambda>(k, v). string_ok k \<and> value_ok v) meta" "distinct (map fst meta)" "length meta \<le> usize_max"
    and "list_all tensor_ok ts" "distinct (map t_name ts)" "length ts \<le> usize_max"
    and "length (put_header version meta ts @ rest) \<le> usize_max"
  shows "read_header \<lparr>r_bytes = put_header version meta ts @ rest, r_pos = 0\<rparr> =
    Ok ((version, map_of meta, ts),
      \<lparr>r_bytes = put_header version meta ts @ rest, r_pos = length (put_header version meta ts)\<rparr>)"
  using reads_header [OF assms(1-7), unfolded reads_def, rule_format, of "[]" rest] assms(8) by simp

lemma parse_put_header:
  assumes "version = 2 \<or> version = 3"
    and "list_all (\<lambda>(k, v). string_ok k \<and> value_ok v) meta" "distinct (map fst meta)" "length meta \<le> usize_max"
    and "list_all tensor_ok ts" "distinct (map t_name ts)" "length ts \<le> usize_max"
    and bytes: "bytes = put_header version meta ts @ rest" "length bytes + 31 \<le> usize_max"
    and d: "d = 32 * ((length (put_header version meta ts) + 31) div 32)" "d \<le> length bytes"
    and "layout_ok d (length bytes) ts"
  shows "parse bytes = Ok \<lparr>g_version = version, g_metadata = map_of meta, g_tensors = ts,
    g_data_offset = d, g_file_len = length bytes\<rparr>"
proof -
  have h: "read_header \<lparr>r_bytes = bytes, r_pos = 0\<rparr> = Ok ((version, map_of meta, ts),
      \<lparr>r_bytes = bytes, r_pos = length (put_header version meta ts)\<rparr>)"
    using read_put_header [OF assms(1-7)] bytes by simp
  have "align_up (length (put_header version meta ts)) 32 = Some d"
    unfolding d(1) using bytes by (intro align_up_32) simp
  moreover have "validate_tensor_data_layout d (length bytes) ts = Ok ()"
    using assms d(2) layout_check_iff by simp
  ultimately show ?thesis using d(2) by (simp add: parse_def parse_inner_def h)
qed

text \<open>C15: A file that lays out a version-2 or version-3 header (metadata of all thirteen value
  types and all array types, tensor descriptions), pads to a multiple of 32 and goes on with tensor
  data that meets the layout specification, is parsed to exactly that content; the data offset is the
  header length rounded up to 32.\<close>

theorem gguf_round_trip:
  assumes "version = 2 \<or> version = 3"
    and "list_all (\<lambda>(k, v). string_ok k \<and> value_ok v) meta" "distinct (map fst meta)" "length meta \<le> usize_max"
    and "list_all tensor_ok ts" "distinct (map t_name ts)" "length ts \<le> usize_max"
    and bytes: "bytes = put_header version meta ts @ rest" "length bytes + 31 \<le> usize_max"
    and d: "d = 32 * ((length (put_header version meta ts) + 31) div 32)" "d \<le> length bytes"
    and "layout_ok d (length bytes) ts"
  shows "parse bytes = Ok \<lparr>g_version = version, g_metadata = map_of meta, g_tensors = ts,
    g_data_offset = d, g_file_len = length bytes\<rparr>"
  using assms by (rule parse_put_header)

theorem gguf_round_trip_witness:
  "\<exists>bytes. parse bytes = Ok \<lparr>g_version = 3, g_metadata = [[107] \<mapsto> MU32 7], g_tensors = [],
    g_data_offset = 64, g_file_len = 64\<rparr>"
proof -
  let ?h = "put_header 3 [([107], MU32 7)] []"
  have h: "length ?h = 41" by (simp add: put_header_def put_string_def gguf_magic_def)
  have "parse (?h @ replicate 23 0) = Ok \<lparr>g_version = 3, g_metadata = map_of [([107], MU32 7)], g_tensors = [],
    g_data_offset = 64, g_file_len = length (?h @ replicate 23 0)\<rparr>"
    by (rule gguf_round_trip [where rest = "replicate 23 0"])
      (simp_all add: h usize_max_def string_ok_def layout_ok_def)
  then show ?thesis by (simp add: h) blast
qed

text \<open>Reading moves the cursor forward inside the file and ends in a value or an error.\<close>

definition tame :: "'a read \<Rightarrow> bool" where
  "tame m \<longleftrightarrow> (\<forall>r. r_pos r \<le> length (r_bytes r) \<longrightarrow>
    (case m r of Ok (_, r') \<Rightarrow> r_bytes r' = r_bytes r \<and> r_pos r \<le> r_pos r' \<and> r_pos r' \<le> length (r_bytes r)
     | Err _ \<Rightarrow> True | _ \<Rightarrow> False))"

lemma tameD:
  "tame m \<Longrightarrow> r_pos r \<le> length (r_bytes r) \<Longrightarrow>
    case m r of Ok (_, r') \<Rightarrow> r_bytes r' = r_bytes r \<and> r_pos r \<le> r_pos r' \<and> r_pos r' \<le> length (r_bytes r)
     | Err _ \<Rightarrow> True | _ \<Rightarrow> False"
  by (simp add: tame_def)

lemma tame_get:
  assumes "tame m" "\<And>x. tame (f x)"
  shows "tame (rget m f)"
  unfolding tame_def
proof (intro allI impI)
  fix r :: reader assume r: "r_pos r \<le> length (r_bytes r)"
  show "case rget m f r of Ok (_, r') \<Rightarrow> r_bytes r' = r_bytes r \<and> r_pos r \<le> r_pos r' \<and> r_pos r' \<le> length (r_bytes r)
     | Err _ \<Rightarrow> True | _ \<Rightarrow> False"
  proof (cases "m r")
    case (Ok p)
    obtain x r' where p: "p = (x, r')" by fastforce
    with Ok tameD [OF assms(1) r]
    have "r_bytes r' = r_bytes r" "r_pos r \<le> r_pos r'" "r_pos r' \<le> length (r_bytes r)" by simp_all
    with tameD [OF assms(2) [of x], of r'] show ?thesis
      by (cases "f x r'") (auto simp: rget_def Ok p)
  qed (use tameD [OF assms(1) r] in \<open>simp_all add: rget_def\<close>)
qed

lemma tame_basic: "tame (rret x)" "tame (rfail e)"
  by (simp_all add: tame_def rret_def rfail_def)

lemma tame_lift: "(\<And>r :: reader. m \<noteq> Panic \<and> m \<noteq> Diverge) \<Longrightarrow> tame (rlift m)"
  by (cases m) (simp_all add: tame_def rlift_def)

lemma tame_exact: "tame (read_exact n)"
  by (auto simp: tame_def read_exact_def checked_add_usize_def get_range_def)

lemma tame_ensure: "tame (ensure_count n k)"
  by (auto simp: tame_def ensure_count_def usize_from_u64_Ok checked_add_usize_def checked_mul_usize_def)

lemma tame_usize: "tame (rlift (usize_from_u64 v))" "tame (rlift (usize_from_u32 w))"
  by (simp_all add: tame_lift usize_from_u64_Ok usize_from_u32_Ok)

lemma tame_if: "tame m \<Longrightarrow> tame m' \<Longrightarrow> tame (if b then m else m')" by simp

lemma tame_times: "tame m \<Longrightarrow> tame (rtimes n m)"
  by (induction n) (simp_all add: tame_basic tame_get)

lemma tame_u8: "tame read_u8"
  by (auto simp: tame_def read_u8_def rget_def read_exact_def rlift_def checked_add_usize_def get_range_def index_at_def)

lemmas tame_rules = tame_basic tame_exact tame_ensure tame_usize tame_u8

lemma tame_fields: "tame read_u16" "tame read_u32" "tame read_i32" "tame read_u64" "tame read_f32" "tame read_f64"
  "tame read_bool" "tame read_string"
  by (simp_all add: read_u16_def read_u32_def read_i32_def read_u64_def read_f32_def read_f64_def read_bool_def
      read_string_def tame_get tame_if tame_rules)

lemma tame_array: "tame (read_array ty n)"
  unfolding read_array_def by (intro tame_if tame_get tame_times tame_rules tame_fields)

lemma tame_value: "tame read_value"
  unfolding read_value_def
  by (intro tame_if tame_get tame_rules tame_fields; simp split: option.split;
      intro conjI allI impI tame_get tame_rules tame_array)

lemma tame_metadata: "tame (read_metadata n m)"
proof (induction n arbitrary: m)
  case (Suc n)
  then show ?case unfolding read_metadata.simps by (intro tame_get tame_fields tame_value tame_if tame_rules)
qed (simp add: tame_basic)

lemma tame_tensor: "tame read_tensor"
  unfolding read_tensor_def by (intro tame_get tame_fields tame_times tame_rules)

lemma tame_tensors: "tame (read_tensors n ts)"
proof (induction n arbitrary: ts)
  case (Suc n)
  then show ?case unfolding read_tensors.simps by (intro tame_get tame_tensor tame_if tame_rules)
qed (simp add: tame_basic)

lemma tame_header: "tame read_header"
  unfolding read_header_def
  by (intro tame_get tame_if tame_rules tame_fields tame_metadata tame_tensors)

lemma checked_range_no_panic: "checked_range d n t \<noteq> Panic" "checked_range d n t \<noteq> Diverge"
proof -
  have elems: "count_elements ds k \<noteq> Panic" "count_elements ds k \<noteq> Diverge" for ds k
    by (induction ds k rule: count_elements.induct) (auto simp: res_simps)
  have "b \<noteq> 0" if "block_size ty = Some b" for ty b using that by (cases ty) auto
  then have "encoded_len t \<noteq> Panic" "encoded_len t \<noteq> Diverge"
    using elems by (auto simp: encoded_len_def element_count_def res_simps simp del: checked_mul_Some)
  then show "checked_range d n t \<noteq> Panic" "checked_range d n t \<noteq> Diverge"
    by (auto simp: checked_range_def res_simps usize_from_u64_Ok simp del: checked_add_Some)
qed

lemma validate_no_panic:
  "validate_tensor_data_layout d n ts \<noteq> Panic" "validate_tensor_data_layout d n ts \<noteq> Diverge"
proof -
  have "traverse (checked_range d n) us \<noteq> Panic \<and> traverse (checked_range d n) us \<noteq> Diverge" for us
    by (induction us) (auto simp: res_simps checked_range_no_panic)
  moreover have "windows_disjoint rs \<noteq> Panic \<and> windows_disjoint rs \<noteq> Diverge" for rs
    by (induction rs rule: windows_disjoint.induct) auto
  ultimately show "validate_tensor_data_layout d n ts \<noteq> Panic" "validate_tensor_data_layout d n ts \<noteq> Diverge"
    by (auto simp: validate_tensor_data_layout_def res_simps)
qed

text \<open>C34: Reading an arbitrary byte string, well-formed or not, ends in a parsed file or in an error
  value: no slice or index is out of range, no division by zero, and every loop returns.\<close>

theorem parse_never_panics:
  "(\<exists>g. parse_inner bytes validate_data = Ok g) \<or> (\<exists>e. parse_inner bytes validate_data = Err e)"
proof -
  have "read_header \<lparr>r_bytes = bytes, r_pos = 0\<rparr> \<noteq> Panic \<and> read_header \<lparr>r_bytes = bytes, r_pos = 0\<rparr> \<noteq> Diverge"
    using tameD [OF tame_header, of "\<lparr>r_bytes = bytes, r_pos = 0\<rparr>"] by (auto split: res.splits)
  then have "parse_inner bytes validate_data \<noteq> Panic \<and> parse_inner bytes validate_data \<noteq> Diverge"
    by (auto simp: parse_inner_def res_simps validate_no_panic split: if_splits prod.splits)
  then show ?thesis by (cases "parse_inner bytes validate_data") auto
qed

lemma read_tensors_distinct:
  "read_tensors n us r = Ok (ts, r') \<Longrightarrow> distinct (map t_name us) \<Longrightarrow> distinct (map t_name ts)"
proof (induction n arbitrary: us r)
  case (Suc n)
  then obtain t r1 where new: "\<not> list_ex (\<lambda>u. t_name u = t_name t) us" "read_tensors n (us @ [t]) r1 = Ok (ts, r')"
    by (auto simp: rget_def rfail_def split: if_splits)
  moreover have "distinct (map t_name (us @ [t]))" using new Suc.prems(2) by (force simp: list_ex_iff)
  ultimately show ?case using Suc.IH by blast
qed (simp add: rret_def)

lemma parse_distinct:
  assumes "parse_inner bytes v = Ok g"
  shows "distinct (map t_name (g_tensors g))"
proof -
  obtain version m ts r where h: "read_header \<lparr>r_bytes = bytes, r_pos = 0\<rparr> = Ok ((version, m, ts), r)"
    and g: "g_tensors g = ts"
    using assms by (auto simp: parse_inner_def split: if_splits)
  from h have "\<exists>n r1 r2. read_tensors n [] r1 = Ok (ts, r2)"
    by (auto simp: read_header_def rget_def rret_def rfail_def split: if_splits)
  then show ?thesis using g read_tensors_distinct by fastforce
qed

lemma parse_layout:
  assumes "parse bytes = Ok g" "length bytes \<le> usize_max"
  shows "layout_ok (g_data_offset g) (length bytes) (g_tensors g)" "g_data_offset g \<le> length bytes"
    "g_file_len g = length bytes"
proof -
  have "validate_tensor_data_layout (g_data_offset g) (length bytes) (g_tensors g) = Ok ()"
    and d: "g_data_offset g \<le> length bytes" and "g_file_len g = length bytes"
    using assms(1) by (auto simp: parse_def parse_inner_def split: if_splits)
  then show "layout_ok (g_data_offset g) (length bytes) (g_tensors g)" "g_data_offset g \<le> length bytes"
    "g_file_len g = length bytes"
    using layout_check_iff assms(2) by simp_all
qed

lemma disjoint_sym: "disjoint p q = disjoint q p" by (auto simp: disjoint_def)

lemma sorted_wrt_distinct:
  assumes "sorted_wrt R xs" "x \<in> set xs" "y \<in> set xs" "x \<noteq> y"
  shows "R x y \<or> R y x"
  using assms by (induction xs) auto

lemma filter_name: "distinct (map t_name ts) \<Longrightarrow> t \<in> set ts \<Longrightarrow> filter (\<lambda>u. t_name u = t_name t) ts = [t]"
  by (induction ts) (auto simp: filter_empty_conv image_iff)

text \<open>C17: In a file that \<open>parse\<close> accepted, every tensor of the table is found under its name and
  \<open>tensor_data\<close> returns exactly its bytes: a non-empty range of the size that its dimensions and
  element type give, behind the header, inside the file, and disjoint from every other tensor's.\<close>

theorem accepted_tensor_data:
  assumes "parse bytes = Ok g" "length bytes \<le> usize_max" "t \<in> set (g_tensors g)"
  shows "\<exists>a. tensor_data g bytes (t_name t) = Ok (slice bytes a (a + tensor_bytes t)) \<and>
    g_data_offset g \<le> a \<and> 0 < tensor_bytes t \<and> a + tensor_bytes t \<le> length bytes \<and>
    (\<forall>u \<in> set (g_tensors g). u \<noteq> t \<longrightarrow> disjoint (a, a + tensor_bytes t) (range_of (g_data_offset g) u))"
proof -
  note l = parse_layout [OF assms(1,2)]
  let ?d = "g_data_offset g"
  have len: "\<exists>len. encoded_len t = Ok len" and fits: "snd (range_of ?d t) \<le> length bytes"
    using l(1) assms(3) by (auto simp: layout_ok_def list_all_iff)
  have "disjoint (range_of ?d t) (range_of ?d u)" if "u \<in> set (g_tensors g)" "u \<noteq> t" for u
    using sorted_wrt_distinct [of "\<lambda>t u. disjoint (range_of ?d t) (range_of ?d u)" "g_tensors g" t u]
      l(1) assms(3) that disjoint_sym [of "range_of ?d t"]
    by (simp add: layout_ok_def)
  moreover have "tensor g (t_name t) = Ok t"
    using filter_name [OF parse_distinct [OF assms(1) [unfolded parse_def]] assms(3)] by (simp add: tensor_def)
  moreover have "tensor_data_range g t = Ok (range_of ?d t)"
    using len fits l(2) assms(2) checked_range_Ok_iff [of ?d "length bytes" t]
    by (simp add: tensor_data_range_def l(3))
  moreover have "0 < tensor_bytes t" using len encoded_len_bytes(2) by blast
  ultimately show ?thesis using fits
    by (intro exI [of _ "?d + unat (t_offset t)"])
      (simp add: tensor_data_def range_of_def get_range_def slice_def)
qed

lemma small_file:
  "parse (put_header 3 [] [small_tensor [97] 0] @ replicate 99 0) =
    Ok \<lparr>g_version = 3, g_metadata = Map.empty, g_tensors = [small_tensor [97] 0], g_data_offset = 96, g_file_len = 164\<rparr>"
proof -
  let ?h = "put_header 3 [] [small_tensor [97] 0]"
  have h: "length ?h = 65" by (simp add: put_header_def put_tensor_def put_string_def gguf_magic_def small_tensor_def)
  have len: "\<exists>n. encoded_len (small_tensor [97] 0) = Ok n"
    by (simp add: encoded_len_def element_count_def small_tensor_def)
  have r: "range_of 96 (small_tensor [97] 0) = (96, 164)"
    by (simp add: range_of_def tensor_bytes_def small_tensor_def)
  have t: "tensor_ok (small_tensor [97] 0)"
    by (simp add: tensor_ok_def string_ok_def usize_max_def small_tensor_def type_from_u32_def)
  have "parse (?h @ replicate 99 0) = Ok \<lparr>g_version = 3, g_metadata = map_of [], g_tensors = [small_tensor [97] 0],
      g_data_offset = 96, g_file_len = length (?h @ replicate 99 0)\<rparr>"
    by (rule parse_put_header [where rest = "replicate 99 0"])
      (use len in \<open>simp_all add: h r t usize_max_def layout_ok_def\<close>)
  then show ?thesis by (simp add: h)
qed

theorem accepted_tensor_data_witness:
  "\<exists>bytes g a. parse bytes = Ok g \<and> small_tensor [97] 0 \<in> set (g_tensors g) \<and>
    tensor_data g bytes [97] = Ok (slice bytes a (a + 68)) \<and> a + 68 \<le> length bytes"
proof -
  let ?g = "\<lparr>g_version = 3, g_metadata = Map.empty, g_tensors = [small_tensor [97] 0], g_data_offset = 96,
    g_file_len = 164\<rparr>" and ?bytes = "put_header 3 [] [small_tensor [97] 0] @ replicate 99 0"
  have "length ?bytes \<le> usize_max"
    by (simp add: put_header_def put_tensor_def put_string_def gguf_magic_def small_tensor_def usize_max_def)
  moreover have "tensor_bytes (small_tensor [97] 0) = 68" "t_name (small_tensor [97] 0) = [97]"
    by (simp_all add: tensor_bytes_def small_tensor_def)
  ultimately show ?thesis
    using accepted_tensor_data [OF small_file, of "small_tensor [97] 0"] small_file
    by (intro exI [of _ ?bytes] exI [of _ ?g]) auto
qed

text \<open>The metadata can be read from any prefix of a file that holds the whole header
  (\<open>parse_metadata_prefix\<close>): whatever follows, or is missing, the version, the metadata, the tensor
  table and the data offset are those of the header.\<close>

theorem metadata_prefix:
  assumes "version = 2 \<or> version = 3"
    and "list_all (\<lambda>(k, v). string_ok k \<and> value_ok v) meta" "distinct (map fst meta)" "length meta \<le> usize_max"
    and "list_all tensor_ok ts" "distinct (map t_name ts)" "length ts \<le> usize_max"
    and n: "length (put_header version meta ts) \<le> n"
    and size: "length (put_header version meta ts @ rest) + 31 \<le> usize_max"
  shows "parse_metadata_prefix (take n (put_header version meta ts @ rest)) =
    Ok (from_parts version (map_of meta) ts (32 * ((length (put_header version meta ts) + 31) div 32))
      (32 * ((length (put_header version meta ts) + 31) div 32)))"
proof -
  let ?h = "put_header version meta ts" and ?rest = "take (n - length (put_header version meta ts)) rest"
  have take: "take n (?h @ rest) = ?h @ ?rest" using n by simp
  have "length (?h @ ?rest) \<le> usize_max" using size by simp
  note h = read_put_header [OF assms(1-7) this]
  have "align_up (length ?h) 32 = Some (32 * ((length ?h + 31) div 32))"
    using size by (intro align_up_32) simp
  then show ?thesis unfolding take by (simp add: parse_metadata_prefix_def parse_inner_def h from_parts_def)
qed

theorem metadata_prefix_witness:
  "parse_metadata_prefix (take 50 (put_header 2 [([107], MBool True)] [] @ replicate 100 1)) =
    Ok (from_parts 2 [[107] \<mapsto> MBool True] [] 64 64)"
proof -
  have h: "length (put_header 2 [([107], MBool True)] []) = 38"
    by (simp add: put_header_def put_string_def put_bool_def gguf_magic_def)
  show ?thesis
    using metadata_prefix [of 2 "[([107], MBool True)]" "[]" 50 "replicate 100 1", unfolded h]
    by (simp add: h usize_max_def string_ok_def)
qed

end
