(* ===== verification/Token_Vocab.thy ===== *)
theory Token_Vocab
  imports Gguf
begin

text \<open>
  The vocabulary side of \<open>src/crates/det-token/src/lib.rs\<close>: the bytes a token string stands
  for, merge rules as strings, the lookups in the metadata of a model file, and byte coverage.
  Strings are their UTF-8 bytes. An array indexed by a byte is a function on bytes, a
  \<open>BTreeMap\<close> a partial function.
\<close>

section \<open>Errors\<close>

datatype token_error =
    MissingByteFallback u8 | InvalidToken u32 | MissingVocabulary | MissingTokenBytes "u8 list"
  | MissingMergeToken "u8 list" | IncompleteByteFallback "u8 list" | MetadataType | TokenTypeLength
  | InvalidTokenType int | ScoresLength | NonFiniteScore | TokenIndexOverflow
  | DuplicateByteFallback u8 | DuplicateTokenId u32 | DuplicateTokenBytes "u8 list"
  | InvalidMerge str | DuplicateMerge str | UnsupportedTokenizerModel str

section \<open>The bytes of a token\<close>

text \<open>\<open>s.strip_prefix(p)\<close> and \<open>s.strip_suffix(p)\<close>.\<close>

fun strip_prefix :: "str \<Rightarrow> str \<Rightarrow> str option" where
  "strip_prefix [] s = Some s"
| "strip_prefix (p # ps) (b # bs) = (if p = b then strip_prefix ps bs else None)"
| "strip_prefix (p # ps) [] = None"

definition strip_suffix :: "str \<Rightarrow> str \<Rightarrow> str option" where
  "strip_suffix p s = map_option rev (strip_prefix (rev p) (rev s))"

text \<open>\<open>u8::from_str_radix(s, 16)\<close> on a string of two bytes: a leading plus sign is accepted,
  digits are of either case.\<close>

definition hex_digit :: "u8 \<Rightarrow> u8 option" where
  "hex_digit b =
    (if 0x30 \<le> b \<and> b \<le> 0x39 then Some (b - 0x30)
     else if 0x61 \<le> b \<and> b \<le> 0x66 then Some (b - 0x57)
     else if 0x41 \<le> b \<and> b \<le> 0x46 then Some (b - 0x37) else None)"

definition from_hex2 :: "u8 \<Rightarrow> u8 \<Rightarrow> u8 option" where
  "from_hex2 h l =
    (if h = 0x2B then hex_digit l
     else case (hex_digit h, hex_digit l) of (Some x, Some y) \<Rightarrow> Some (16 * x + y) | _ \<Rightarrow> None)"

definition canonical_byte_fallback_token :: "str \<Rightarrow> u8 option" where
  "canonical_byte_fallback_token token =
    (case strip_prefix [0x3C, 0x30, 0x78] token of None \<Rightarrow> None
     | Some rest \<Rightarrow> (case strip_suffix [0x3E] rest of None \<Rightarrow> None
       | Some hex \<Rightarrow> (case hex of [h, l] \<Rightarrow> from_hex2 h l | _ \<Rightarrow> None)))"

definition printable :: "nat \<Rightarrow> bool" where
  "printable code \<longleftrightarrow> 33 \<le> code \<and> code \<le> 126 \<or> 161 \<le> code \<and> code \<le> 172 \<or> 174 \<le> code \<and> code \<le> 255"

text \<open>The scan over the bytes that are not printable, with the running number \<open>n\<close>.\<close>

fun scan_byte :: "nat \<Rightarrow> nat list \<Rightarrow> nat \<Rightarrow> u8 option" where
  "scan_byte code [] n = None"
| "scan_byte code (byte # bytes) n =
    (if printable byte then scan_byte code bytes n
     else if code = 256 + n then Some (word_of_nat byte)
     else scan_byte code bytes (n + 1))"

definition gpt2_char_to_byte :: "nat \<Rightarrow> u8 option" where
  "gpt2_char_to_byte code =
    (if printable code then Some (word_of_nat code) else scan_byte code [0..<256] 0)"

fun gpt2_chars :: "str list \<Rightarrow> u8 list option" where
  "gpt2_chars [] = Some []"
| "gpt2_chars (ch # chs) =
    (case gpt2_char_to_byte (utf8_code ch) of None \<Rightarrow> None
     | Some b \<Rightarrow> map_option (\<lambda>bs. b # bs) (gpt2_chars chs))"

definition gpt2_byte_unicode_decode :: "str \<Rightarrow> u8 list option" where
  "gpt2_byte_unicode_decode token = gpt2_chars (utf8_chars token)"

definition token_piece_bytes :: "str \<Rightarrow> u8 list" where
  "token_piece_bytes token =
    (case canonical_byte_fallback_token token of Some byte \<Rightarrow> [byte]
     | None \<Rightarrow> (case gpt2_byte_unicode_decode token of Some bytes \<Rightarrow> bytes
       | None \<Rightarrow> (case strip_prefix [0xE2, 0x96, 0x81] token of
           Some rest \<Rightarrow> 0x20 # rest
         | None \<Rightarrow> token)))"

section \<open>Merge rules\<close>

text \<open>\<open>merge.split(' ')\<close>.\<close>

fun split_space :: "str \<Rightarrow> str list" where
  "split_space [] = [[]]"
| "split_space (b # bs) =
    (if b = 0x20 then [] # split_space bs
     else case split_space bs of p # ps \<Rightarrow> (b # p) # ps | [] \<Rightarrow> [[b]])"

definition parse_merge :: "str \<Rightarrow> (token_error, str \<times> str) res" where
  "parse_merge merge =
    (case split_space merge of
       [left, right] \<Rightarrow> if left \<noteq> [] \<and> right \<noteq> [] then Ok (left, right) else Err (InvalidMerge merge)
     | _ \<Rightarrow> Err (InvalidMerge merge))"

section \<open>Metadata of the model file\<close>

text \<open>The keys, as the bytes of their names.\<close>

definition ascii :: "string \<Rightarrow> str" where "ascii s = map (\<lambda>c. of_char c) s"

definition gguf_tokens :: "gguf \<Rightarrow> (token_error, str list) res" where
  "gguf_tokens g =
    (case metadata_at g (ascii ''tokenizer.ggml.tokens'') of
       Ok (ArrayString tokens) \<Rightarrow> Ok tokens
     | Ok _ \<Rightarrow> Err MetadataType
     | Err MetadataNotFound \<Rightarrow> Err MissingVocabulary
     | Err _ \<Rightarrow> Err MetadataType | Panic \<Rightarrow> Panic | Diverge \<Rightarrow> Diverge)"

definition optional_gguf_merges :: "gguf \<Rightarrow> (token_error, str list option) res" where
  "optional_gguf_merges g =
    (case metadata_at g (ascii ''tokenizer.ggml.merges'') of
       Ok (ArrayString merges) \<Rightarrow> Ok (Some merges)
     | Ok _ \<Rightarrow> Err MetadataType
     | Err MetadataNotFound \<Rightarrow> Ok None
     | Err _ \<Rightarrow> Err MetadataType | Panic \<Rightarrow> Panic | Diverge \<Rightarrow> Diverge)"

definition optional_gguf_model :: "gguf \<Rightarrow> (token_error, str option) res" where
  "optional_gguf_model g =
    (case metadata_at g (ascii ''tokenizer.ggml.model'') of
       Ok (MString model) \<Rightarrow> Ok (Some model)
     | Ok _ \<Rightarrow> Err MetadataType
     | Err MetadataNotFound \<Rightarrow> Ok None
     | Err _ \<Rightarrow> Err MetadataType | Panic \<Rightarrow> Panic | Diverge \<Rightarrow> Diverge)"

definition optional_gguf_scores :: "gguf \<Rightarrow> nat \<Rightarrow> (token_error, f32 list option) res" where
  "optional_gguf_scores g vocab_len =
    (case metadata_at g (ascii ''tokenizer.ggml.scores'') of
       Ok (ArrayF32 scores) \<Rightarrow>
         if length scores \<noteq> vocab_len then Err ScoresLength
         else if list_ex (\<lambda>score. \<not> f32_is_finite score) scores then Err NonFiniteScore
         else Ok (Some scores)
     | Ok _ \<Rightarrow> Err MetadataType
     | Err MetadataNotFound \<Rightarrow> Ok None
     | Err _ \<Rightarrow> Err MetadataType | Panic \<Rightarrow> Panic | Diverge \<Rightarrow> Diverge)"

definition has_gguf_scores :: "gguf \<Rightarrow> (token_error, bool) res" where
  "has_gguf_scores g =
    (case metadata_at g (ascii ''tokenizer.ggml.scores'') of
       Ok (ArrayF32 _) \<Rightarrow> Ok True
     | Ok _ \<Rightarrow> Err MetadataType
     | Err MetadataNotFound \<Rightarrow> Ok False
     | Err _ \<Rightarrow> Err MetadataType | Panic \<Rightarrow> Panic | Diverge \<Rightarrow> Diverge)"

definition token_type_is_emittable :: "int \<Rightarrow> (token_error, bool) res" where
  "token_type_is_emittable ty =
    (if ty = 1 \<or> ty = 4 \<or> ty = 6 then Ok True
     else if ty = 2 \<or> ty = 3 \<or> ty = 5 then Ok False
     else Err (InvalidTokenType ty))"

definition optional_gguf_emit_mask :: "gguf \<Rightarrow> nat \<Rightarrow> (token_error, bool list option) res" where
  "optional_gguf_emit_mask g vocab_len =
    (case metadata_at g (ascii ''tokenizer.ggml.token_type'') of
       Ok (ArrayI32 types) \<Rightarrow>
         if length types \<noteq> vocab_len then Err TokenTypeLength
         else rbind (traverse (\<lambda>ty. token_type_is_emittable (sint ty)) types) (\<lambda>emit. Ok (Some emit))
     | Ok (ArrayU32 types) \<Rightarrow>
         if length types \<noteq> vocab_len then Err TokenTypeLength
         else rbind (traverse (\<lambda>ty. token_type_is_emittable (uint ty)) types) (\<lambda>emit. Ok (Some emit))
     | Ok _ \<Rightarrow> Err MetadataType
     | Err MetadataNotFound \<Rightarrow> Ok None
     | Err _ \<Rightarrow> Err MetadataType | Panic \<Rightarrow> Panic | Diverge \<Rightarrow> Diverge)"

definition token_is_emittable :: "bool list option \<Rightarrow> nat \<Rightarrow> bool" where
  "token_is_emittable emit_mask idx =
    (case emit_mask of None \<Rightarrow> True
     | Some emit \<Rightarrow> (case get_at emit idx of None \<Rightarrow> True | Some e \<Rightarrow> e))"

section \<open>Byte coverage\<close>

record byte_coverage =
  token_count :: nat
  single_byte_tokens :: nat
  emittable_single_byte_tokens :: nat
  missing_bytes :: "u8 list"
  missing_emittable_bytes :: "u8 list"

definition all_bytes :: "u8 list" where "all_bytes = map word_of_nat [0..<256]"

definition missing_byte_values :: "(u8 \<Rightarrow> bool) \<Rightarrow> u8 list" where
  "missing_byte_values present = filter (\<lambda>b. \<not> present b) all_bytes"

definition missing_byte_pairs :: "(u8 \<times> u32) list \<Rightarrow> u8 list" where
  "missing_byte_pairs pairs =
    missing_byte_values (fold (\<lambda>(byte, _) present. present(byte := True)) pairs (\<lambda>_. False))"

text \<open>One token of the coverage loop; the state is (present, emittable, count, emittable count).\<close>

type_synonym coverage_state = "(u8 \<Rightarrow> bool) \<times> (u8 \<Rightarrow> bool) \<times> nat \<times> nat"

definition coverage_step :: "bool list option \<Rightarrow> nat \<times> str \<Rightarrow> coverage_state \<Rightarrow> coverage_state" where
  "coverage_step emit_mask = (\<lambda>(idx, token) (present, emittable, single, emittable_single).
    case token_piece_bytes token of
      [byte] \<Rightarrow>
        if token_is_emittable emit_mask idx
        then (present(byte := True), emittable(byte := True), single + 1, emittable_single + 1)
        else (present(byte := True), emittable, single + 1, emittable_single)
    | _ \<Rightarrow> (present, emittable, single, emittable_single))"

definition byte_coverage_from_tokens :: "str list \<Rightarrow> bool list option \<Rightarrow> byte_coverage" where
  "byte_coverage_from_tokens tokens emit_mask =
    (case fold (coverage_step emit_mask) (enumerate 0 tokens) (\<lambda>_. False, \<lambda>_. False, 0, 0) of
       (present, emittable, single, emittable_single) \<Rightarrow>
         \<lparr>token_count = length tokens, single_byte_tokens = single,
          emittable_single_byte_tokens = emittable_single,
          missing_bytes = missing_byte_values present,
          missing_emittable_bytes = missing_byte_values emittable\<rparr>)"

definition byte_coverage_from_gguf :: "gguf \<Rightarrow> (token_error, byte_coverage) res" where
  "byte_coverage_from_gguf g =
    rbind (gguf_tokens g) (\<lambda>tokens.
    rbind (optional_gguf_emit_mask g (length tokens)) (\<lambda>emit_mask.
    Ok (byte_coverage_from_tokens tokens emit_mask)))"

definition require_complete_byte_coverage_from_gguf :: "gguf \<Rightarrow> (token_error, unit) res" where
  "require_complete_byte_coverage_from_gguf g =
    rbind (byte_coverage_from_gguf g) (\<lambda>coverage.
    if missing_emittable_bytes coverage = [] then Ok ()
    else Err (IncompleteByteFallback (missing_emittable_bytes coverage)))"

text \<open>The list of missing bytes in an error message.\<close>

definition hex_char :: "nat \<Rightarrow> u8" where
  "hex_char n = word_of_nat (if n < 10 then 0x30 + n else 0x57 + n)"

definition hex2 :: "u8 \<Rightarrow> str" where
  "hex2 b = [hex_char (unat b div 16), hex_char (unat b mod 16)]"

definition format_bytes :: "u8 list \<Rightarrow> str" where
  "format_bytes bytes =
    (if bytes = [] then ascii ''none''
     else fold (\<lambda>(idx, byte) out. (if idx > 0 then out @ [0x2C] else out) @ hex2 byte)
       (enumerate 0 bytes) [])"

section \<open>Facts\<close>

lemma all_bytes_UNIV [simp]: "set all_bytes = UNIV"
proof -
  have "b \<in> word_of_nat ` {0..<256}" for b :: u8
    using unat_less_pow [of b] by (intro image_eqI [of _ _ "unat b"]) simp_all
  then show ?thesis by (auto simp: all_bytes_def)
qed

lemma missing_byte_values_empty: "missing_byte_values present = [] \<longleftrightarrow> (\<forall>b. present b)"
  by (simp add: missing_byte_values_def filter_empty_conv)

lemma fold_present: "fold (\<lambda>(byte, _) present. present(byte := True)) pairs present b \<longleftrightarrow>
    present b \<or> b \<in> fst ` set pairs"
  by (induction pairs arbitrary: present) auto

lemma missing_byte_pairs_empty: "missing_byte_pairs pairs = [] \<longleftrightarrow> (\<forall>b. b \<in> fst ` set pairs)"
  by (simp only: missing_byte_pairs_def missing_byte_values_empty fold_present) simp

lemma canonical_piece: "canonical_byte_fallback_token token = Some b \<Longrightarrow> token_piece_bytes token = [b]"
  by (simp add: token_piece_bytes_def)

text \<open>The coverage loop: a byte is emittable when some emittable token stands for it alone.\<close>

lemma coverage_fold:
  "fold (coverage_step emit) xs (p, e, n, m) = (p', e', n', m') \<Longrightarrow>
    (p' b \<longleftrightarrow> p b \<or> (\<exists>(i, t) \<in> set xs. token_piece_bytes t = [b])) \<and>
    (e' b \<longleftrightarrow> e b \<or> (\<exists>(i, t) \<in> set xs. token_piece_bytes t = [b] \<and> token_is_emittable emit i))"
proof (induction xs arbitrary: p e n m)
  case (Cons x xs)
  obtain i t where x: "x = (i, t)" by fastforce
  obtain p1 e1 n1 m1 where st: "coverage_step emit x (p, e, n, m) = (p1, e1, n1, m1)"
    by (metis prod_cases4)
  have one: "(p1 b \<longleftrightarrow> p b \<or> token_piece_bytes t = [b]) \<and>
      (e1 b \<longleftrightarrow> e b \<or> token_piece_bytes t = [b] \<and> token_is_emittable emit i)"
    using st by (auto simp: coverage_step_def x split: list.splits if_splits)
  have "fold (coverage_step emit) xs (p1, e1, n1, m1) = (p', e', n', m')" using Cons.prems st by simp
  from Cons.IH [OF this] one show ?case by (auto simp: x)
qed auto

lemma in_enumerate_0: "(i, t) \<in> set (enumerate 0 ts) \<longleftrightarrow> i < length ts \<and> t = ts ! i"
  by (auto simp: in_set_enumerate_eq)

lemma coverage_emittable:
  "missing_emittable_bytes (byte_coverage_from_tokens tokens emit) = [] \<longleftrightarrow>
    (\<forall>b. \<exists>i < length tokens. token_piece_bytes (tokens ! i) = [b] \<and> token_is_emittable emit i)"
proof -
  obtain p e n m where f: "fold (coverage_step emit) (enumerate 0 tokens) (\<lambda>_. False, \<lambda>_. False, 0, 0) = (p, e, n, m)"
    by (metis prod_cases4)
  have "e b \<longleftrightarrow> (\<exists>i < length tokens. token_piece_bytes (tokens ! i) = [b] \<and> token_is_emittable emit i)" for b
    using coverage_fold [OF f, of b] by (auto simp: in_enumerate_0 Bex_def)
  then show ?thesis by (simp add: byte_coverage_from_tokens_def f missing_byte_values_empty)
qed

section \<open>The printable alphabet of the byte-level vocabularies\<close>

text \<open>The specification: byte \<open>b\<close> is written as itself when printable, and otherwise as the
  character 256 + k when it is the k-th byte that is not printable.\<close>

definition gpt2_code :: "u8 \<Rightarrow> nat" where
  "gpt2_code b = (if printable (unat b) then unat b
    else 256 + length (filter (\<lambda>c. \<not> printable c) [0..<unat b]))"

lemma scan_byte_iff:
  "scan_byte code [k..<256] n = Some b \<longleftrightarrow>
    k \<le> unat b \<and> \<not> printable (unat b) \<and> code = 256 + n + length (filter (\<lambda>c. \<not> printable c) [k..<unat b])"
proof (induction "256 - k" arbitrary: k n)
  case 0
  then show ?case using unat_less_pow [of b] by auto
next
  case (Suc d)
  then have k: "[k..<256] = k # [Suc k..<256]" by (simp add: upt_conv_Cons)
  have kb: "word_of_nat k = b \<longleftrightarrow> k = unat b"
    using Suc(2) by (auto simp: word_unat_eq_iff unsigned_of_nat take_bit_nat_eq_self)
  have split: "[k..<unat b] = k # [Suc k..<unat b]" if "Suc k \<le> unat b" using that by (simp add: upt_conv_Cons)
  have IH: "scan_byte code [Suc k..<256] m = Some b \<longleftrightarrow> Suc k \<le> unat b \<and> \<not> printable (unat b) \<and>
      code = 256 + m + length (filter (\<lambda>c. \<not> printable c) [Suc k..<unat b])" for m
    using Suc by simp
  show ?case
  proof (cases "k = unat b")
    case True
    have no: "scan_byte code [Suc k..<256] m \<noteq> Some b" for m using IH True by simp
    show ?thesis unfolding k using True no kb by (simp del: upt_conv_Cons_Cons)
  next
    case False
    then show ?thesis unfolding k using split by (auto simp: IH kb)
  qed
qed

text \<open>The scan that reads a character of a byte-level vocabulary (\<open>gpt2_char_to_byte\<close>) is the
  inverse of the published byte-to-character table: it returns byte \<open>b\<close> for the code of \<open>b\<close> and
  nothing for every other character, so that all 256 bytes can be written and no two collide.\<close>

theorem gpt2_alphabet: "gpt2_char_to_byte code = Some b \<longleftrightarrow> code = gpt2_code b"
proof -
  have small: "code < 256" if "printable code" using that by (auto simp: printable_def)
  then have "word_of_nat code = b \<longleftrightarrow> code = unat b" if "printable code"
    using that by (auto simp: word_unat_eq_iff unsigned_of_nat take_bit_nat_eq_self)
  moreover have "256 + k \<noteq> unat b" for k using unat_less_pow [of b] by simp
  ultimately show ?thesis
    using scan_byte_iff [of code 0 0 b] small unfolding gpt2_char_to_byte_def gpt2_code_def
    by (cases "printable code"; cases "printable (unat b)"; simp del: upt_Suc; fastforce)
qed

section \<open>Two readings of token strings\<close>

text \<open>\<open>from_str_radix\<close> accepts a plus sign, so that \<open><0x+5>\<close> counts as the byte token of 5,
  a second spelling beside \<open><0x05>\<close>.\<close>

lemma signed_byte_token:
  "canonical_byte_fallback_token (ascii ''<0x+5>'') = Some 5" "canonical_byte_fallback_token (ascii ''<0x05>'') = Some 5"
  by code_simp+

text \<open>The byte-level alphabet is tried on every vocabulary: the letter U+00E9 (bytes C3 A9) of a
  SentencePiece vocabulary is taken for the single byte E9, which never occurs in UTF-8 text as a
  character of its own.\<close>

lemma latin_letter_piece: "token_piece_bytes [0xC3, 0xA9] = [0xE9]"
proof -
  have "utf8_chars [0xC3, 0xA9] = [[0xC3, 0xA9]]" by code_simp
  moreover have "canonical_byte_fallback_token [0xC3, 0xA9] = None" by (simp add: canonical_byte_fallback_token_def)
  ultimately show ?thesis
    by (simp add: token_piece_bytes_def gpt2_byte_unicode_decode_def gpt2_char_to_byte_def utf8_code_def printable_def)
qed

end
