(* ===== verification/Bpe.thy ===== *)
theory Bpe
  imports Token_Vocab "HOL-Library.Multiset"
begin

text \<open>
  The merge loop of \<open>ByteBpeTokenizer::tokenize_bytes\<close> in \<open>src/crates/det-token/src/lib.rs\<close>:
  a doubly linked list of tokens kept in arrays, a binary heap of candidate pairs, and lazy
  deletion of stale candidates. The interface \<open>merge_queue\<close> states what the loop needs of the
  heap. The loop is shown to end and to implement the textbook procedure \<open>bpe_merge\<close>: replace,
  again and again, the leftmost pair of the lowest rank.
\<close>

section \<open>The heap of candidates\<close>

text \<open>A candidate is the tuple \<open>(rank, index, merged_id)\<close>, ordered lexicographically. Since equal
  candidates cannot be told apart, a heap of the standard library is its sorted list.\<close>

datatype candidate = Candidate (c_rank: nat) (c_index: nat) (c_token: u32)

instantiation candidate :: linorder
begin

definition less_eq_candidate :: "candidate \<Rightarrow> candidate \<Rightarrow> bool" where
  "less_eq_candidate a b \<longleftrightarrow> c_rank a < c_rank b \<or> c_rank a = c_rank b \<and>
    (c_index a < c_index b \<or> c_index a = c_index b \<and> c_token a \<le> c_token b)"

definition less_candidate :: "candidate \<Rightarrow> candidate \<Rightarrow> bool" where
  "less_candidate a b \<longleftrightarrow> a \<le> b \<and> \<not> b \<le> (a :: candidate)"

instance
  by intro_classes (auto simp: less_eq_candidate_def less_candidate_def intro: candidate.expand)

end

type_synonym heap = "candidate list"
type_synonym ranks = "u32 \<times> u32 \<rightharpoonup> nat \<times> u32"

definition heap_push :: "candidate \<Rightarrow> heap \<Rightarrow> heap" where "heap_push c h = insort c h"

fun heap_pop :: "heap \<Rightarrow> (candidate \<times> heap) option" where
  "heap_pop [] = None" | "heap_pop (c # h) = Some (c, h)"

text \<open>What the loop relies on: pushing adds an element, popping takes a least one away.\<close>

locale merge_queue =
  fixes push :: "'c::linorder \<Rightarrow> 'h \<Rightarrow> 'h"
    and pop :: "'h \<Rightarrow> ('c \<times> 'h) option"
    and items :: "'h \<Rightarrow> 'c multiset"
    and valid :: "'h \<Rightarrow> bool"
  assumes push_items: "valid h \<Longrightarrow> items (push c h) = add_mset c (items h)"
    and push_valid: "valid h \<Longrightarrow> valid (push c h)"
    and pop_None: "valid h \<Longrightarrow> pop h = None \<Longrightarrow> items h = {#}"
    and pop_items: "valid h \<Longrightarrow> pop h = Some (c, h') \<Longrightarrow> items h = add_mset c (items h')"
    and pop_valid: "valid h \<Longrightarrow> pop h = Some (c, h') \<Longrightarrow> valid h'"
    and pop_least: "valid h \<Longrightarrow> pop h = Some (c, h') \<Longrightarrow> d \<in># items h' \<Longrightarrow> c \<le> d"
begin

lemma popped_least: "valid h \<Longrightarrow> pop h = Some (c, h') \<Longrightarrow> d \<in># items h \<Longrightarrow> c \<le> d"
  using pop_items pop_least by fastforce

lemma kept: "valid h \<Longrightarrow> pop h = Some (c, h') \<Longrightarrow> d \<in># items h \<Longrightarrow> d \<noteq> c \<Longrightarrow> d \<in># items h'"
  using pop_items by fastforce

lemma size_push: "valid h \<Longrightarrow> size (items (push c h)) = Suc (size (items h))"
  by (simp add: push_items)

end

interpretation hq: merge_queue heap_push heap_pop mset sorted
proof unfold_locales
  fix h :: heap and c d h'
  show "sorted h \<Longrightarrow> mset (heap_push c h) = add_mset c (mset h)" by (simp add: heap_push_def)
  show "sorted h \<Longrightarrow> sorted (heap_push c h)" by (simp add: heap_push_def sorted_insort)
  show "sorted h \<Longrightarrow> heap_pop h = None \<Longrightarrow> mset h = {#}" by (cases h) auto
  show "sorted h \<Longrightarrow> heap_pop h = Some (c, h') \<Longrightarrow> mset h = add_mset c (mset h')" by (cases h) auto
  show "sorted h \<Longrightarrow> heap_pop h = Some (c, h') \<Longrightarrow> sorted h'" by (cases h) auto
  show "sorted h \<Longrightarrow> heap_pop h = Some (c, h') \<Longrightarrow> d \<in># mset h' \<Longrightarrow> c \<le> d" by (cases h) auto
qed

section \<open>The loop\<close>

record bpe_state =
  bs_ids :: "u32 list"
  bs_prev :: "nat option list"
  bs_next :: "nat option list"
  bs_alive :: "bool list"
  bs_heap :: heap

definition push_bpe_pair :: "heap \<Rightarrow> ranks \<Rightarrow> u32 list \<Rightarrow> nat \<Rightarrow> nat option \<Rightarrow> (token_error, heap) res" where
  "push_bpe_pair heap merge_ranks ids left right =
    (case right of None \<Rightarrow> Ok heap
     | Some right \<Rightarrow>
        rbind (index_at ids left) (\<lambda>l. rbind (index_at ids right) (\<lambda>r.
        case merge_ranks (l, r) of None \<Rightarrow> Ok heap
        | Some (rank, merged_id) \<Rightarrow> Ok (heap_push (Candidate rank left merged_id) heap))))"

text \<open>The writes of one merge, then the two new candidates.\<close>

definition bpe_apply :: "ranks \<Rightarrow> nat \<Rightarrow> u32 \<Rightarrow> nat \<Rightarrow> bpe_state \<Rightarrow> (token_error, bpe_state) res" where
  "bpe_apply merge_ranks index merged_id right s =
    (let ids = (bs_ids s)[index := merged_id]; alive = (bs_alive s)[right := False] in
     rbind (index_at (bs_next s) right) (\<lambda>after.
     let nxt = (bs_next s)[index := after] in
     rbind (case after of None \<Rightarrow> Ok (bs_prev s)
       | Some a \<Rightarrow> if a < length (bs_prev s) then Ok ((bs_prev s)[a := Some index]) else Panic) (\<lambda>prv.
     rbind (index_at prv index) (\<lambda>left.
     rbind (case left of None \<Rightarrow> Ok (bs_heap s)
       | Some left \<Rightarrow> push_bpe_pair (bs_heap s) merge_ranks ids left (Some index)) (\<lambda>heap.
     rbind (index_at nxt index) (\<lambda>right.
     rbind (push_bpe_pair heap merge_ranks ids index right) (\<lambda>heap.
     Ok \<lparr>bs_ids = ids, bs_prev = prv, bs_next = nxt, bs_alive = alive, bs_heap = heap\<rparr>)))))))"

definition bpe_step :: "ranks \<Rightarrow> candidate \<Rightarrow> bpe_state \<Rightarrow> (token_error, bpe_state) res" where
  "bpe_step merge_ranks c s =
    rbind (index_at (bs_alive s) (c_index c)) (\<lambda>alive.
    if \<not> alive then Ok s
    else rbind (index_at (bs_next s) (c_index c)) (\<lambda>nxt.
      case nxt of None \<Rightarrow> Ok s
      | Some right \<Rightarrow>
         rbind (index_at (bs_alive s) right) (\<lambda>alive.
         if \<not> alive then Ok s
         else rbind (index_at (bs_ids s) (c_index c)) (\<lambda>l.
           rbind (index_at (bs_ids s) right) (\<lambda>r.
           if merge_ranks (l, r) \<noteq> Some (c_rank c, c_token c) then Ok s
           else bpe_apply merge_ranks (c_index c) (c_token c) right s)))))"

definition work :: "bpe_state \<Rightarrow> nat" where
  "work s = 3 * length (filter id (bs_alive s)) + length (bs_heap s)"

lemma length_push_pair: "push_bpe_pair h rk ids l r = Ok h' \<Longrightarrow> length h' \<le> Suc (length h)"
  by (auto simp: push_bpe_pair_def heap_push_def split: option.splits)

lemma filter_kill: "i < length xs \<Longrightarrow> xs ! i \<Longrightarrow>
    Suc (length (filter id (xs[i := False]))) = length (filter id xs)"
  by (induction xs arbitrary: i) (auto split: nat.splits)

lemma bpe_step_work: "bpe_step rk c s = Ok s' \<Longrightarrow> work s' \<le> work s"
proof -
  assume "bpe_step rk c s = Ok s'"
  moreover have "work s' \<le> work s"
    if "bpe_apply rk i m r s = Ok s'" "r < length (bs_alive s)" "bs_alive s ! r" for i m r
  proof -
    have "length (bs_heap s') \<le> Suc (Suc (length (bs_heap s)))"
      using that(1) by (auto simp: bpe_apply_def Let_def split: option.splits if_splits dest!: length_push_pair)
    moreover have "bs_alive s' = (bs_alive s)[r := False]" using that(1) by (auto simp: bpe_apply_def Let_def)
    ultimately show ?thesis using filter_kill [OF that(2,3)] by (simp add: work_def)
  qed
  ultimately show ?thesis by (auto simp: bpe_step_def split: if_splits option.splits)
qed

function bpe_loop :: "ranks \<Rightarrow> bpe_state \<Rightarrow> (token_error, bpe_state) res" where
  "bpe_loop merge_ranks s =
    (case heap_pop (bs_heap s) of None \<Rightarrow> Ok s
     | Some (c, heap) \<Rightarrow> rbind (bpe_step merge_ranks c (s\<lparr>bs_heap := heap\<rparr>)) (bpe_loop merge_ranks))"
  by auto
termination
proof (relation "measure (work \<circ> snd)")
  fix rk s p c heap s'
  assume "heap_pop (bs_heap s) = Some p" "(c, heap) = p" "bpe_step rk c (s\<lparr>bs_heap := heap\<rparr>) = Ok s'"
  then have "work s' \<le> work (s\<lparr>bs_heap := heap\<rparr>)" "bs_heap s = c # heap"
    by (auto dest: bpe_step_work elim: heap_pop.elims)
  then show "((rk, s'), rk, s) \<in> measure (work \<circ> snd)" by (simp add: work_def)
qed simp

declare bpe_loop.simps [simp del]

text \<open>The walk that collects the tokens; it can visit no index twice, so more visits than there are
  indices mean that it never ends.\<close>

fun bpe_walk :: "nat \<Rightarrow> bpe_state \<Rightarrow> nat option \<Rightarrow> (token_error, u32 list) res" where
  "bpe_walk fuel s None = Ok []"
| "bpe_walk 0 s (Some i) = Diverge"
| "bpe_walk (Suc fuel) s (Some i) =
    rbind (index_at (bs_alive s) i) (\<lambda>alive.
    rbind (if alive then rbind (index_at (bs_ids s) i) (\<lambda>t. Ok [t]) else Ok []) (\<lambda>out.
    rbind (index_at (bs_next s) i) (\<lambda>nxt.
    rbind (bpe_walk fuel s nxt) (\<lambda>rest. Ok (out @ rest)))))"

definition bpe_init :: "ranks \<Rightarrow> u32 list \<Rightarrow> (token_error, bpe_state) res" where
  "bpe_init merge_ranks ids =
    rbind (rfold (\<lambda>i heap. push_bpe_pair heap merge_ranks ids i (Some (i + 1))) [0..<length ids - 1] [])
    (\<lambda>heap. Ok
      \<lparr>bs_ids = ids,
       bs_prev = map (\<lambda>i. if i = 0 then None else Some (i - 1)) [0..<length ids],
       bs_next = map (\<lambda>i. if i + 1 = length ids then None else Some (i + 1)) [0..<length ids],
       bs_alive = replicate (length ids) True,
       bs_heap = heap\<rparr>)"

definition bpe_merge_ids :: "ranks \<Rightarrow> u32 list \<Rightarrow> (token_error, u32 list) res" where
  "bpe_merge_ids merge_ranks ids =
    (if length ids < 2 then Ok ids
     else rbind (bpe_init merge_ranks ids) (\<lambda>s.
       rbind (bpe_loop merge_ranks s) (\<lambda>s. bpe_walk (length (bs_ids s)) s (Some 0))))"

section \<open>The textbook procedure\<close>

text \<open>\<open>lowest\<close>: no adjacent pair has a lower rank, and none further left has the same one.\<close>

definition pair_rank :: "ranks \<Rightarrow> u32 list \<Rightarrow> nat \<Rightarrow> nat option" where
  "pair_rank rk ids k = (if Suc k < length ids then map_option fst (rk (ids ! k, ids ! Suc k)) else None)"

definition lowest :: "ranks \<Rightarrow> u32 list \<Rightarrow> nat \<Rightarrow> nat \<Rightarrow> bool" where
  "lowest rk ids k r \<longleftrightarrow> list_all (\<lambda>j. case pair_rank rk ids j of None \<Rightarrow> True
     | Some r' \<Rightarrow> r < r' \<or> r = r' \<and> k \<le> j) [0..<length ids]"

inductive bpe_merge :: "ranks \<Rightarrow> u32 list \<Rightarrow> u32 list \<Rightarrow> bool" for rk where
  merge: "rk (x, y) = Some (r, m) \<Longrightarrow> lowest rk (us @ x # y # vs) (length us) r \<Longrightarrow>
    bpe_merge rk (us @ x # y # vs) (us @ m # vs)"

inductive_cases bpe_mergeE: "bpe_merge rk ids ids'"

definition bpe_final :: "ranks \<Rightarrow> u32 list \<Rightarrow> bool" where
  "bpe_final rk ids \<longleftrightarrow> list_all (\<lambda>k. pair_rank rk ids k = None) [0..<length ids]"

lemma lowest_iff: "lowest rk ids k r \<longleftrightarrow> (\<forall>j r' m'. Suc j < length ids \<longrightarrow>
    rk (ids ! j, ids ! Suc j) = Some (r', m') \<longrightarrow> r < r' \<or> r = r' \<and> k \<le> j)"
proof -
  have "(case pair_rank rk ids j of None \<Rightarrow> True | Some r' \<Rightarrow> P r') \<longleftrightarrow>
      (\<forall>r' m'. Suc j < length ids \<longrightarrow> rk (ids ! j, ids ! Suc j) = Some (r', m') \<longrightarrow> P r')" for P j
    by (auto simp: pair_rank_def split: option.splits)
  then show ?thesis by (auto simp: lowest_def list_all_iff dest: Suc_lessD)
qed

lemma bpe_final_iff: "bpe_final rk ids \<longleftrightarrow> (\<forall>j. Suc j < length ids \<longrightarrow> rk (ids ! j, ids ! Suc j) = None)"
  by (auto simp: bpe_final_def list_all_iff pair_rank_def)

text \<open>The procedure is deterministic: a step is unique, and so is the final list.\<close>

lemma bpe_merge_unique:
  assumes "bpe_merge rk ids a" "bpe_merge rk ids b"
  shows "a = b"
proof -
  obtain x y r m us vs where 1: "ids = us @ x # y # vs" "a = us @ m # vs" "rk (x, y) = Some (r, m)"
    "lowest rk ids (length us) r" using assms(1) by (auto elim: bpe_mergeE)
  obtain x' y' r' m' us' vs' where 2: "ids = us' @ x' # y' # vs'" "b = us' @ m' # vs'" "rk (x', y') = Some (r', m')"
    "lowest rk ids (length us') r'" using assms(2) by (auto elim: bpe_mergeE)
  have "ids ! length us = x" "ids ! Suc (length us) = y" "Suc (length us) < length ids"
    using 1(1) by (simp_all add: nth_append)
  moreover have "ids ! length us' = x'" "ids ! Suc (length us') = y'" "Suc (length us') < length ids"
    using 2(1) by (simp_all add: nth_append)
  ultimately have "r' < r \<or> r' = r \<and> length us' \<le> length us" "r < r' \<or> r = r' \<and> length us \<le> length us'"
    using 1 2 by (metis lowest_iff)+
  then have "length us = length us'" by auto
  then have "us = us'" "x = x'" "y = y'" "vs = vs'" using 1(1) 2(1) by (simp_all add: append_eq_append_conv)
  then show ?thesis using 1 2 by simp
qed

lemma bpe_final_stuck: "bpe_final rk ids \<Longrightarrow> \<not> bpe_merge rk ids ids'"
proof
  assume f: "bpe_final rk ids" and "bpe_merge rk ids ids'"
  from this(2) obtain x y r m us vs where "ids = us @ x # y # vs" "rk (x, y) = Some (r, m)"
    by (auto elim: bpe_mergeE)
  with f [unfolded bpe_final_iff, rule_format, of "length us"] show False by (simp add: nth_append)
qed

lemma bpe_result_unique:
  "(bpe_merge rk)\<^sup>*\<^sup>* ids a \<Longrightarrow> bpe_final rk a \<Longrightarrow> (bpe_merge rk)\<^sup>*\<^sup>* ids b \<Longrightarrow> bpe_final rk b \<Longrightarrow> a = b"
proof (induction arbitrary: rule: converse_rtranclp_induct)
  case base
  then show ?case by (metis bpe_final_stuck converse_rtranclpE)
next
  case (step ids c)
  have "ids \<noteq> b" using step bpe_final_stuck by blast
  then obtain d where "bpe_merge rk ids d" "(bpe_merge rk)\<^sup>*\<^sup>* d b" using step.prems(2) by (metis converse_rtranclpE)
  then show ?case using step bpe_merge_unique by blast
qed

section \<open>The linked list\<close>

text \<open>\<open>ch\<close> lists the live indices in order; the arrays link them in both directions.\<close>

definition linked :: "nat option list \<Rightarrow> nat option list \<Rightarrow> nat list \<Rightarrow> bool" where
  "linked nxt prv ch \<longleftrightarrow> successively (\<lambda>i j. nxt ! i = Some j \<and> prv ! j = Some i) ch \<and>
    nxt ! last ch = None \<and> prv ! hd ch = None"

definition covered :: "ranks \<Rightarrow> u32 list \<Rightarrow> heap \<Rightarrow> nat list \<Rightarrow> bool" where
  "covered rk ids h ch \<longleftrightarrow>
    successively (\<lambda>i j. \<forall>r m. rk (ids ! i, ids ! j) = Some (r, m) \<longrightarrow> Candidate r i m \<in># mset h) ch"

definition chain :: "bpe_state \<Rightarrow> nat list \<Rightarrow> bool" where
  "chain s ch \<longleftrightarrow> length (bs_prev s) = length (bs_ids s) \<and> length (bs_next s) = length (bs_ids s) \<and>
    length (bs_alive s) = length (bs_ids s) \<and> sorted_wrt (<) ch \<and> ch \<noteq> [] \<and> hd ch = 0 \<and>
    (\<forall>i < length (bs_ids s). bs_alive s ! i \<longleftrightarrow> i \<in> set ch) \<and> set ch \<subseteq> {..<length (bs_ids s)} \<and>
    linked (bs_next s) (bs_prev s) ch"

definition bpe_inv :: "ranks \<Rightarrow> bpe_state \<Rightarrow> nat list \<Rightarrow> bool" where
  "bpe_inv rk s ch \<longleftrightarrow> chain s ch \<and> sorted (bs_heap s) \<and> covered rk (bs_ids s) (bs_heap s) ch \<and>
    (\<forall>c \<in># mset (bs_heap s). c_index c < length (bs_ids s))"

definition live_ids :: "bpe_state \<Rightarrow> nat list \<Rightarrow> u32 list" where
  "live_ids s ch = map ((!) (bs_ids s)) ch"

text \<open>A candidate is current when it names two neighbours of the chain and their rank.\<close>

definition current :: "ranks \<Rightarrow> bpe_state \<Rightarrow> nat list \<Rightarrow> candidate \<Rightarrow> bool" where
  "current rk s ch c \<longleftrightarrow> (\<exists>us j vs. ch = us @ c_index c # j # vs \<and>
    rk (bs_ids s ! c_index c, bs_ids s ! j) = Some (c_rank c, c_token c))"

lemma linked_next:
  assumes "linked nxt prv (us @ i # vs)"
  shows "nxt ! i = (case vs of [] \<Rightarrow> None | j # _ \<Rightarrow> Some j)" "prv ! i = (if us = [] then None else Some (last us))"
  using assms by (auto simp: linked_def successively_append_iff split: list.splits)

lemma chain_index:
  assumes "chain s ch" "i < length (bs_ids s)" "bs_alive s ! i"
  obtains us vs where "ch = us @ i # vs"
  using assms by (auto simp: chain_def in_set_conv_decomp)

text \<open>A stale candidate changes nothing.\<close>

lemma step_stale:
  assumes "chain s ch" "c_index c < length (bs_ids s)" "\<not> current rk s ch c"
  shows "bpe_step rk c s = Ok s"
proof (cases "bs_alive s ! c_index c")
  case True
  then obtain us vs where ch: "ch = us @ c_index c # vs" using chain_index assms(1,2) by blast
  have n: "bs_next s ! c_index c = (case vs of [] \<Rightarrow> None | j # _ \<Rightarrow> Some j)"
    using assms(1) ch by (auto simp: chain_def intro: linked_next(1))
  show ?thesis
  proof (cases vs)
    case Nil
    then show ?thesis using assms n True by (simp add: bpe_step_def index_at_def chain_def)
  next
    case (Cons j ws)
    then have "j < length (bs_ids s)" "bs_alive s ! j" using assms(1) ch by (auto simp: chain_def)
    moreover have "rk (bs_ids s ! c_index c, bs_ids s ! j) \<noteq> Some (c_rank c, c_token c)"
      using assms(3) ch Cons by (auto simp: current_def)
    ultimately show ?thesis using assms n True Cons by (simp add: bpe_step_def index_at_def chain_def)
  qed
qed (use assms in \<open>simp add: bpe_step_def index_at_def chain_def\<close>)

lemma push_pair:
  assumes "left < length ids" "\<And>j. right = Some j \<Longrightarrow> j < length ids" "sorted h"
  obtains h' where "push_bpe_pair h rk ids left right = Ok h'" "sorted h'" "set h \<subseteq> set h'"
    "\<And>c. c \<in> set h' \<Longrightarrow> c \<in> set h \<or> c_index c = left"
    "\<And>j r m. right = Some j \<Longrightarrow> rk (ids ! left, ids ! j) = Some (r, m) \<Longrightarrow> Candidate r left m \<in> set h'"
proof (cases "\<exists>j r m. right = Some j \<and> rk (ids ! left, ids ! j) = Some (r, m)")
  case True
  then obtain j r m where j: "right = Some j" "rk (ids ! left, ids ! j) = Some (r, m)" by blast
  show ?thesis
  proof (rule that)
    show "push_bpe_pair h rk ids left right = Ok (heap_push (Candidate r left m) h)"
      using assms j by (simp add: push_bpe_pair_def index_at_def)
  qed (use assms(3) j in \<open>auto simp: heap_push_def sorted_insort set_insort_key\<close>)
next
  case False
  show ?thesis
  proof (rule that)
    show "push_bpe_pair h rk ids left right = Ok h"
      using assms(1,2) False by (auto simp: push_bpe_pair_def index_at_def split: option.splits)
  qed (use assms(3) False in auto)
qed

lemma successively_mid: "successively P (us @ i # vs) \<longleftrightarrow>
    successively P us \<and> (us \<noteq> [] \<longrightarrow> P (last us) i) \<and> (vs \<noteq> [] \<longrightarrow> P i (hd vs)) \<and> successively P vs"
  by (auto simp: successively_append_iff successively_Cons)

lemma linked_mid: "linked nxt prv (us @ i # vs) \<longleftrightarrow>
    successively (\<lambda>i j. nxt ! i = Some j \<and> prv ! j = Some i) us \<and>
    successively (\<lambda>i j. nxt ! i = Some j \<and> prv ! j = Some i) vs \<and>
    (us \<noteq> [] \<longrightarrow> nxt ! last us = Some i \<and> prv ! i = Some (last us)) \<and> (us = [] \<longrightarrow> prv ! i = None) \<and>
    (vs \<noteq> [] \<longrightarrow> nxt ! i = Some (hd vs) \<and> prv ! hd vs = Some i) \<and> (vs = [] \<longrightarrow> nxt ! i = None) \<and>
    (us \<noteq> [] \<longrightarrow> prv ! hd us = None) \<and> (vs \<noteq> [] \<longrightarrow> nxt ! last vs = None)"
  by (cases "us = []"; cases "vs = []") (auto simp: linked_def successively_mid successively_Cons)

lemmas linked_first = linked_mid [where us = "[]", simplified]

text \<open>Taking \<open>j\<close> out of the list.\<close>

lemma linked_remove:
  assumes l: "linked nxt prv (us @ i # j # vs)" and d: "distinct (us @ i # j # vs)"
    and len: "set (us @ i # j # vs) \<subseteq> {..<length nxt}" "length prv = length nxt"
  shows "linked (nxt[i := nxt ! j]) (case nxt ! j of None \<Rightarrow> prv | Some a \<Rightarrow> prv[a := Some i]) (us @ i # vs)"
    "nxt ! j = (if vs = [] then None else Some (hd vs))"
proof -
  have l2: "linked nxt prv ((us @ [i]) @ j # vs)" using l by simp
  then show nj: "nxt ! j = (if vs = [] then None else Some (hd vs))" by (simp only: linked_mid split: if_split) simp
  let ?n = "nxt[i := nxt ! j]" and ?p = "case nxt ! j of None \<Rightarrow> prv | Some a \<Rightarrow> prv[a := Some i]"
  have n: "\<And>k a. k \<in> set us \<Longrightarrow> nxt[i := a] ! k = nxt ! k" "\<And>k a. k \<in> set vs \<Longrightarrow> nxt[i := a] ! k = nxt ! k"
    "\<And>a. nxt[i := a] ! i = a"
    using d len by (auto simp: nth_list_update)
  show "linked ?n ?p (us @ i # vs)"
  proof (cases vs)
    case Nil
    then show ?thesis using l nj n by (cases "us = []") (simp_all add: linked_mid linked_first cong: successively_cong)
  next
    case (Cons k ws)
    have p: "\<And>x a. x \<in> set us \<Longrightarrow> prv[k := a] ! x = prv ! x" "\<And>x a. x \<in> set ws \<Longrightarrow> prv[k := a] ! x = prv ! x"
      "\<And>a. prv[k := a] ! i = prv ! i" "\<And>a. prv[k := a] ! k = a" "i \<noteq> k"
      using d len Cons by (auto simp: nth_list_update)
    have ws: "successively (\<lambda>i j. nxt ! i = Some j \<and> prv ! j = Some i) (k # ws)" "nxt ! last vs = None"
      using l2 Cons unfolding linked_mid by blast+
    have "successively (\<lambda>i' j. ?n ! i' = Some j \<and> ?p ! j = Some i') (k # ws)"
      using ws(1) Cons p n(2) nj hd_in_set [of ws]
      by (cases "ws = []") (simp_all add: successively_Cons cong: successively_cong)
    then show ?thesis using l nj n p Cons ws(2)
      by (cases "us = []") (simp_all add: linked_mid linked_first cong: successively_cong)
  qed
qed

lemma covered_mono:
  assumes "covered rk ids (c # h) ch" "set h \<subseteq> set h'" "c_index c \<notin> set ch"
    and "\<And>k. k \<in> set ch \<Longrightarrow> ids' ! k = ids ! k"
  shows "covered rk ids' h' ch"
  using assms(1) unfolding covered_def
proof (rule successively_mono)
  fix x y assume "x \<in> set ch" "y \<in> set ch"
    and "\<forall>r m. rk (ids ! x, ids ! y) = Some (r, m) \<longrightarrow> Candidate r x m \<in># mset (c # h)"
  then show "\<forall>r m. rk (ids' ! x, ids' ! y) = Some (r, m) \<longrightarrow> Candidate r x m \<in># mset h'"
    using assms(2-4) by fastforce
qed

text \<open>A current candidate: the pair is replaced, the invariant kept.\<close>

lemma step_current:
  assumes ch: "chain s ch" "ch = us @ c_index c # j # vs"
    and h: "sorted (bs_heap s)" "\<And>d. d \<in> set (bs_heap s) \<Longrightarrow> c_index d < length (bs_ids s)"
    and cov: "covered rk (bs_ids s) (c # bs_heap s) ch"
    and rk: "rk (bs_ids s ! c_index c, bs_ids s ! j) = Some (c_rank c, c_token c)"
  obtains s' where "bpe_step rk c s = Ok s'" "bpe_inv rk s' (us @ c_index c # vs)"
    "live_ids s' (us @ c_index c # vs) = live_ids s us @ c_token c # live_ids s vs"
proof -
  let ?i = "c_index c" and ?m = "c_token c" and ?n = "length (bs_ids s)"
  let ?ids = "(bs_ids s)[?i := ?m]" and ?nxt = "(bs_next s)[?i := bs_next s ! j]"
  let ?prv = "case bs_next s ! j of None \<Rightarrow> bs_prev s | Some a \<Rightarrow> (bs_prev s)[a := Some ?i]"
  have len: "length (bs_prev s) = ?n" "length (bs_next s) = ?n" "length (bs_alive s) = ?n"
    using ch(1) by (simp_all add: chain_def)
  have sub: "set ch \<subseteq> {..<?n}" and srt: "sorted_wrt (<) ch" using ch(1) by (simp_all add: chain_def)
  then have d: "distinct ch" by (simp add: strict_sorted_iff)
  have idx: "?i < ?n" "j < ?n" "vs \<noteq> [] \<Longrightarrow> hd vs < ?n" "us \<noteq> [] \<Longrightarrow> last us < ?n"
    using sub ch(2) hd_in_set [of vs] last_in_set [of us] by (auto simp: subset_eq)
  have alive: "bs_alive s ! ?i" "bs_alive s ! j" using ch idx by (auto simp: chain_def)
  have lk: "linked (bs_next s) (bs_prev s) (us @ ?i # j # vs)" using ch by (simp add: chain_def)
  have nj: "bs_next s ! j = (if vs = [] then None else Some (hd vs))"
    and lk': "linked ?nxt ?prv (us @ ?i # vs)"
    using linked_remove [OF lk] d sub len ch(2) by auto
  have ni: "bs_next s ! ?i = Some j" using linked_next(1) [OF lk] by simp
  have pi: "?prv ! ?i = (if us = [] then None else Some (last us))"
    and nni: "?nxt ! ?i = (if vs = [] then None else Some (hd vs))"
    using linked_next [OF lk'] by (auto split: list.splits)
  have lp: "length ?prv = ?n" using len by (auto split: option.splits)
  obtain h1 where h1: "(case ?prv ! ?i of None \<Rightarrow> Ok (bs_heap s) | Some left \<Rightarrow>
      push_bpe_pair (bs_heap s) rk ?ids left (Some ?i)) = (Ok h1 :: (token_error, heap) res)"
    "sorted h1" "set (bs_heap s) \<subseteq> set h1" "\<And>d. d \<in> set h1 \<Longrightarrow> c_index d < ?n"
    "us \<noteq> [] \<Longrightarrow> rk (?ids ! last us, ?ids ! ?i) = Some (r, m) \<Longrightarrow> Candidate r (last us) m \<in> set h1" for r m
  proof (cases "us = []")
    case True
    then show ?thesis using that h pi by auto
  next
    case False
    obtain h1 where "push_bpe_pair (bs_heap s) rk ?ids (last us) (Some ?i) = Ok h1" "sorted h1"
      "set (bs_heap s) \<subseteq> set h1" "\<And>d. d \<in> set h1 \<Longrightarrow> d \<in> set (bs_heap s) \<or> c_index d = last us"
      "\<And>j r m. Some ?i = Some j \<Longrightarrow> rk (?ids ! last us, ?ids ! j) = Some (r, m) \<Longrightarrow> Candidate r (last us) m \<in> set h1"
      using push_pair [of "last us" ?ids "Some ?i" "bs_heap s" rk] idx False h(1) by auto
    then show ?thesis using that [of h1] False pi h(2) idx(4) by fastforce
  qed
  obtain h2 where h2: "push_bpe_pair h1 rk ?ids ?i (?nxt ! ?i) = Ok h2" "sorted h2" "set h1 \<subseteq> set h2"
    "\<And>d. d \<in> set h2 \<Longrightarrow> d \<in> set h1 \<or> c_index d = ?i"
    "\<And>j r m. ?nxt ! ?i = Some j \<Longrightarrow> rk (?ids ! ?i, ?ids ! j) = Some (r, m) \<Longrightarrow> Candidate r ?i m \<in> set h2"
    using push_pair [of ?i ?ids "?nxt ! ?i" h1 rk] idx h1(2) nni by (auto split: if_splits)
  define s' where "s' = \<lparr>bs_ids = ?ids, bs_prev = ?prv, bs_next = ?nxt, bs_alive = (bs_alive s)[j := False], bs_heap = h2\<rparr>"
  have "bpe_apply rk ?i ?m j s = Ok s'"
    using h1(1) h2(1) idx len lp nj
    by (cases "vs = []") (simp_all add: bpe_apply_def index_at_def s'_def Let_def)
  then have step: "bpe_step rk c s = Ok s'"
    using alive idx len ni rk by (simp add: bpe_step_def index_at_def)
  have same: "\<And>k. k \<in> set us \<Longrightarrow> ?ids ! k = bs_ids s ! k" "\<And>k. k \<in> set vs \<Longrightarrow> ?ids ! k = bs_ids s ! k" "?ids ! ?i = ?m"
    using d ch(2) idx by (auto simp: nth_list_update)
  have live: "live_ids s' (us @ ?i # vs) = live_ids s us @ ?m # live_ids s vs"
    using same by (simp add: live_ids_def s'_def)
  have "chain s' (us @ ?i # vs)"
    using ch len lp lk' d idx unfolding chain_def s'_def
    by (auto simp: nth_list_update sorted_wrt_append hd_append split: if_splits)
  moreover have "covered rk ?ids h2 (us @ ?i # vs)"
  proof -
    have cs: "covered rk (bs_ids s) (c # bs_heap s) us" "covered rk (bs_ids s) (c # bs_heap s) vs"
      using cov unfolding ch(2) covered_def successively_mid successively_Cons by auto
    have "covered rk ?ids h2 us" "covered rk ?ids h2 vs"
      by (rule covered_mono [OF cs(1)], use h1(3) h2(3) d ch(2) same in auto)
        (rule covered_mono [OF cs(2)], use h1(3) h2(3) d ch(2) same in auto)
    then show ?thesis using h1(5) h2(3,5) nni unfolding covered_def successively_mid by auto
  qed
  ultimately have "bpe_inv rk s' (us @ ?i # vs)"
    using h2(2) h2(4) h1(4) idx(1) by (fastforce simp: bpe_inv_def s'_def)
  with step live that show ?thesis by blast
qed

section \<open>The loop implements the procedure\<close>

text \<open>The popped candidate names the pair the procedure picks.\<close>

lemma current_lowest:
  assumes inv: "bpe_inv rk s ch" and h: "heap_pop (bs_heap s) = Some (c, heap)"
    and ch: "ch = us @ c_index c # j # vs"
  shows "lowest rk (live_ids s ch) (length us) (c_rank c)"
  unfolding lowest_iff
proof (intro allI impI)
  fix k r' m' assume k: "Suc k < length (live_ids s ch)"
    and rk: "rk (live_ids s ch ! k, live_ids s ch ! Suc k) = Some (r', m')"
  have kc: "Suc k < length ch" using k by (simp add: live_ids_def)
  have "Candidate r' (ch ! k) m' \<in># mset (bs_heap s)"
    using inv kc rk by (auto simp: bpe_inv_def covered_def live_ids_def successively_conv_nth)
  then have le: "c \<le> Candidate r' (ch ! k) m'"
    using hq.popped_least [OF _ h] inv by (simp add: bpe_inv_def)
  have "sorted_wrt (<) ch" using inv by (simp add: bpe_inv_def chain_def)
  then have "ch ! k < ch ! length us" if "k < length us" using that ch
    by (auto simp: sorted_wrt_append nth_append)
  moreover have "ch ! length us = c_index c" using ch by simp
  ultimately have "length us \<le> k" if "c_index c \<le> ch ! k" using that by fastforce
  then show "c_rank c < r' \<or> c_rank c = r' \<and> length us \<le> k"
    using le by (auto simp: less_eq_candidate_def)
qed

lemma stale_covered:
  assumes "covered rk ids (c # h) ch"
    and "\<And>us i j vs r m. ch = us @ i # j # vs \<Longrightarrow> rk (ids ! i, ids ! j) = Some (r, m) \<Longrightarrow> Candidate r i m \<noteq> c"
  shows "covered rk ids h ch"
  unfolding covered_def successively_conv_nth
proof (intro allI impI)
  fix k r m assume k: "Suc k < length ch" and rk: "rk (ids ! (ch ! k), ids ! (ch ! Suc k)) = Some (r, m)"
  have "ch = take k ch @ ch ! k # ch ! Suc k # drop (Suc (Suc k)) ch"
    using k by (metis Cons_nth_drop_Suc Suc_lessD append_take_drop_id)
  then have "Candidate r (ch ! k) m \<noteq> c" using assms(2) rk by blast
  moreover have "Candidate r (ch ! k) m \<in># mset (c # h)"
    using assms(1) k rk by (simp add: covered_def successively_conv_nth)
  ultimately show "Candidate r (ch ! k) m \<in># mset h" by auto
qed

lemma loop_refines:
  "bpe_inv rk s ch \<Longrightarrow> \<exists>s' ch'. bpe_loop rk s = Ok s' \<and> chain s' ch' \<and>
    length (bs_ids s') = length (bs_ids s) \<and>
    (bpe_merge rk)\<^sup>*\<^sup>* (live_ids s ch) (live_ids s' ch') \<and> bpe_final rk (live_ids s' ch')"
proof (induction rk s arbitrary: ch rule: bpe_loop.induct)
  case (1 rk s)
  show ?case
  proof (cases "heap_pop (bs_heap s)")
    case None
    then have "bs_heap s = []" by (cases "bs_heap s") auto
    then have "rk (bs_ids s ! (ch ! k), bs_ids s ! (ch ! Suc k)) = None" if "Suc k < length ch" for k
      using 1(2) that by (auto simp: bpe_inv_def covered_def successively_conv_nth) (metis option.exhaust prod.exhaust)
    then have "bpe_final rk (live_ids s ch)" by (simp add: bpe_final_iff live_ids_def)
    then show ?thesis using None 1(2) by (subst bpe_loop.simps) (auto simp: bpe_inv_def)
  next
    case (Some p)
    then obtain c heap where h: "heap_pop (bs_heap s) = Some (c, heap)" and hs: "bs_heap s = c # heap"
      by (cases "bs_heap s") auto
    let ?s = "s\<lparr>bs_heap := heap\<rparr>"
    have chain: "chain ?s ch" and srt: "sorted heap" and idx: "c_index c < length (bs_ids s)"
      and hidx: "\<And>d. d \<in> set heap \<Longrightarrow> c_index d < length (bs_ids s)"
      and cov: "covered rk (bs_ids s) (c # heap) ch"
      using 1(2) hs by (auto simp: bpe_inv_def chain_def)
    have loop: "bpe_loop rk s = rbind (bpe_step rk c ?s) (bpe_loop rk)" by (subst bpe_loop.simps) (simp add: h)
    show ?thesis
    proof (cases "current rk ?s ch c")
      case True
      then obtain us j vs where ch: "ch = us @ c_index c # j # vs"
        and rk: "rk (bs_ids s ! c_index c, bs_ids s ! j) = Some (c_rank c, c_token c)"
        by (auto simp: current_def)
      obtain s' where s': "bpe_step rk c ?s = Ok s'" "bpe_inv rk s' (us @ c_index c # vs)"
        "live_ids s' (us @ c_index c # vs) = live_ids s us @ c_token c # live_ids s vs"
        using step_current [OF chain ch] srt hidx cov rk by (auto simp: live_ids_def)
      have len: "length (bs_ids s') = length (bs_ids s)"
        using s'(1) by (auto simp: bpe_step_def bpe_apply_def Let_def split: if_splits option.splits)
      have live: "live_ids s ch = live_ids s us @ bs_ids s ! c_index c # bs_ids s ! j # live_ids s vs"
        by (simp add: ch live_ids_def)
      have "lowest rk (live_ids s us @ bs_ids s ! c_index c # bs_ids s ! j # live_ids s vs) (length (live_ids s us)) (c_rank c)"
        using current_lowest [OF 1(2) h ch] live by (simp add: live_ids_def)
      then have "bpe_merge rk (live_ids s ch) (live_ids s' (us @ c_index c # vs))"
        unfolding live s'(3) using rk by (rule bpe_merge.merge [rotated])
      moreover have "\<exists>t ch'. bpe_loop rk s' = Ok t \<and> chain t ch' \<and>
          length (bs_ids t) = length (bs_ids s') \<and>
          (bpe_merge rk)\<^sup>*\<^sup>* (live_ids s' (us @ c_index c # vs)) (live_ids t ch') \<and> bpe_final rk (live_ids t ch')"
        using 1(1) [OF h refl s'(1) s'(2)] .
      ultimately show ?thesis unfolding loop s'(1) rbind.simps len by (meson converse_rtranclp_into_rtranclp)
    next
      case False
      have step: "bpe_step rk c ?s = Ok ?s" using step_stale [OF chain _ False] idx by simp
      have "Candidate r i m \<noteq> c" if "ch = us @ i # j # vs" "rk (bs_ids s ! i, bs_ids s ! j) = Some (r, m)" for us i j vs r m
        using False that by (cases c) (auto simp: current_def)
      then have "covered rk (bs_ids s) heap ch"
        using cov stale_covered by blast
      then have "bpe_inv rk ?s ch" using chain srt hidx by (auto simp: bpe_inv_def)
      from 1(1) [OF h refl step this] show ?thesis unfolding loop step by (simp add: live_ids_def)
    qed
  qed
qed

text \<open>The initial state: every index is alive, neighbours are adjacent indices.\<close>

lemma successively_upt: "successively P [0..<n] \<longleftrightarrow> (\<forall>i. Suc i < n \<longrightarrow> P i (Suc i))"
  by (auto simp: successively_conv_nth)

lemma init_heap:
  "n < length ids \<Longrightarrow> \<exists>h. rfold (\<lambda>i heap. push_bpe_pair heap rk ids i (Some (i + 1))) [0..<n] [] = Ok h \<and> sorted h \<and>
    (\<forall>d \<in> set h. c_index d < n) \<and>
    (\<forall>i < n. \<forall>r m. rk (ids ! i, ids ! Suc i) = Some (r, m) \<longrightarrow> Candidate r i m \<in> set h)"
proof (induction n)
  case (Suc n)
  then obtain h where h: "rfold (\<lambda>i heap. push_bpe_pair heap rk ids i (Some (i + 1))) [0..<n] [] = Ok h" "sorted h"
    "\<forall>d \<in> set h. c_index d < n"
    "\<forall>i < n. \<forall>r m. rk (ids ! i, ids ! Suc i) = Some (r, m) \<longrightarrow> Candidate r i m \<in> set h" by auto
  obtain h' where h': "push_bpe_pair h rk ids n (Some (Suc n)) = Ok h'" "sorted h'" "set h \<subseteq> set h'"
    "\<And>c. c \<in> set h' \<Longrightarrow> c \<in> set h \<or> c_index c = n"
    "\<And>j r m. Some (Suc n) = Some j \<Longrightarrow> rk (ids ! n, ids ! j) = Some (r, m) \<Longrightarrow> Candidate r n m \<in> set h'"
    using push_pair [of n ids "Some (Suc n)" h rk] Suc.prems h(2) by auto
  have "rfold (\<lambda>i heap. push_bpe_pair heap rk ids i (Some (i + 1))) [0..<Suc n] [] = Ok h'"
    using h(1) h'(1) by (simp add: rfold_append)
  moreover have "\<forall>d \<in> set h'. c_index d < Suc n" using h(3) h'(4) by fastforce
  moreover have "Candidate r i m \<in> set h'" if "i < Suc n" "rk (ids ! i, ids ! Suc i) = Some (r, m)" for i r m
    using that h(4) h'(3,5) by (cases "i = n") auto
  ultimately show ?case using h'(2) by blast
qed simp

lemma nth_upt_0: "0 < n \<Longrightarrow> map f [0..<n] ! 0 = f 0"
  by simp

lemma bpe_init_inv:
  assumes "2 \<le> length ids"
  obtains s where "bpe_init rk ids = Ok s" "bpe_inv rk s [0..<length ids]" "bs_ids s = ids"
proof -
  have "length ids - 1 < length ids" using assms by simp
  from init_heap [OF this, of rk] obtain h where h: "rfold (\<lambda>i heap. push_bpe_pair heap rk ids i (Some (i + 1))) [0..<length ids - 1] [] = Ok h"
    "sorted h" "\<forall>d \<in> set h. c_index d < length ids - 1"
    "\<forall>i < length ids - 1. \<forall>r m. rk (ids ! i, ids ! Suc i) = Some (r, m) \<longrightarrow> Candidate r i m \<in> set h" by auto
  define s where "s = \<lparr>bs_ids = ids,
       bs_prev = map (\<lambda>i. if i = 0 then None else Some (i - 1)) [0..<length ids],
       bs_next = map (\<lambda>i. if i + 1 = length ids then None else Some (i + 1)) [0..<length ids],
       bs_alive = replicate (length ids) True, bs_heap = h\<rparr>"
  have "bpe_init rk ids = Ok s" using h(1) by (simp add: bpe_init_def s_def)
  moreover have ends: "hd [0..<length ids] = 0" "last [0..<length ids] = length ids - 1"
    using assms hd_upt [of 0 "length ids"] last_upt [of 0 "length ids"] by linarith+
  moreover have pos: "0 < length ids" using assms by linarith
  moreover have "chain s [0..<length ids]"
    using assms ends by (auto simp: chain_def s_def linked_def successively_upt nth_upt_0 [OF pos])
  then have "bpe_inv rk s [0..<length ids]"
    using h by (auto simp: bpe_inv_def covered_def successively_upt s_def)
  moreover have "bs_ids s = ids" by (simp add: s_def)
  ultimately show ?thesis using that by blast
qed

lemma walk_chain:
  assumes "\<And>k. k \<in> set (i # ch) \<Longrightarrow> k < length (bs_ids s) \<and> bs_alive s ! k"
    "length (bs_next s) = length (bs_ids s)" "length (bs_alive s) = length (bs_ids s)"
    "successively (\<lambda>i j. bs_next s ! i = Some j) (i # ch)" "bs_next s ! last (i # ch) = None" "length ch < fuel"
  shows "bpe_walk fuel s (Some i) = Ok (live_ids s (i # ch))"
  using assms
proof (induction ch arbitrary: i fuel)
  case Nil
  then obtain f where "fuel = Suc f" by (cases fuel) auto
  then show ?case using Nil by (simp add: index_at_def live_ids_def)
next
  case (Cons j ch)
  then obtain f where f: "fuel = Suc f" by (cases fuel) auto
  have "bpe_walk f s (Some j) = Ok (live_ids s (j # ch))" using Cons.prems f by (intro Cons.IH) auto
  then show ?case using Cons.prems f by (simp add: index_at_def live_ids_def)
qed

lemma walk_live:
  assumes "chain s ch"
  shows "bpe_walk (length (bs_ids s)) s (Some 0) = Ok (live_ids s ch)"
proof -
  obtain rest where ch: "ch = 0 # rest" using assms by (cases ch) (auto simp: chain_def)
  have "distinct ch" "set ch \<subseteq> {..<length (bs_ids s)}" using assms by (auto simp: chain_def strict_sorted_iff)
  then have "length rest < length (bs_ids s)" unfolding ch
    by (metis Suc_le_eq length_Cons card_lessThan card_mono distinct_card finite_lessThan)
  moreover have live: "i < length (bs_ids s) \<and> bs_alive s ! i" if "i \<in> set (0 # rest)" for i
    using assms that by (auto simp: chain_def ch)
  moreover have "length (bs_next s) = length (bs_ids s)" "length (bs_alive s) = length (bs_ids s)"
    using assms by (simp_all add: chain_def)
  moreover have "successively (\<lambda>i j. bs_next s ! i = Some j) (0 # rest)" "bs_next s ! last (0 # rest) = None"
    using assms unfolding ch chain_def linked_def by (blast intro: successively_mono)+
  ultimately show ?thesis unfolding ch by (rule walk_chain [rotated 5])
qed

lemma bpe_refines:
  "\<exists>out. bpe_merge_ids rk ids = Ok out \<and> (bpe_merge rk)\<^sup>*\<^sup>* ids out \<and> bpe_final rk out"
proof (cases "length ids < 2")
  case True
  then have "bpe_final rk ids" by (auto simp: bpe_final_iff)
  then show ?thesis using True by (auto simp: bpe_merge_ids_def)
next
  case False
  then obtain s where s: "bpe_init rk ids = Ok s" "bpe_inv rk s [0..<length ids]" "bs_ids s = ids"
    using bpe_init_inv [of ids rk] by auto
  obtain t ch where t: "bpe_loop rk s = Ok t" "chain t ch" "length (bs_ids t) = length (bs_ids s)"
    "(bpe_merge rk)\<^sup>*\<^sup>* (live_ids s [0..<length ids]) (live_ids t ch)" "bpe_final rk (live_ids t ch)"
    using loop_refines [OF s(2)] by blast
  have "live_ids s [0..<length ids] = ids" by (simp add: live_ids_def s(3) map_nth)
  then show ?thesis using t False walk_live [OF t(2)] by (simp add: bpe_merge_ids_def s(1))
qed

text \<open>C18: The merge loop of the byte-pair tokenizer, with its linked list, its heap and its lazily
  deleted candidates, always returns, and returns the result of the textbook procedure: merge the
  leftmost pair of the lowest rank until no pair has a rank. That result is unique.\<close>

theorem bpe_implements_procedure:
  "bpe_merge_ids rk ids = Ok out \<longleftrightarrow> (bpe_merge rk)\<^sup>*\<^sup>* ids out \<and> bpe_final rk out"
  using bpe_refines [of rk ids] bpe_result_unique [of rk ids] by (metis res.inject(1))

end
