(* ===== verification/Tokenizer.thy ===== *)
theory Tokenizer
  imports Bpe
begin

text \<open>
  The tokenizers of \<open>src/crates/det-token/src/lib.rs\<close>: byte fallback, byte-level BPE and
  SentencePiece, their construction from a vocabulary, and the symbol stream of the codec, in which
  a byte without a token of its own is escaped. The interface \<open>codec_tokenizer\<close> states what the
  codec needs of a tokenizer; it is proved for each of them from what their constructors establish.
\<close>

section \<open>State\<close>

record byte_fallback =
  bf_byte_to_token :: "u8 \<rightharpoonup> u32"
  bf_token_to_byte :: "u32 \<rightharpoonup> u8"

record byte_bpe =
  bb_byte_to_token :: "u8 \<rightharpoonup> u32"
  bb_token_to_bytes :: "u32 \<rightharpoonup> u8 list"
  bb_merge_ranks :: ranks

record sentence_piece =
  sp_byte_fallback :: byte_fallback
  sp_token_to_bytes :: "u32 \<rightharpoonup> u8 list"
  sp_pieces :: "u8 list \<rightharpoonup> u32 \<times> f32"
  sp_max_piece_len :: nat

datatype tokenizer = ByteFallback byte_fallback | ByteBpe byte_bpe | SentencePiece sentence_piece

datatype codec_symbol = Token u32 | ByteEscape u8

text \<open>\<open>u32::try_from(idx)\<close>.\<close>

definition token_index :: "nat \<Rightarrow> (token_error, u32) res" where
  "token_index idx = (if int idx < 2 ^ 32 then Ok (word_of_nat idx) else Err TokenIndexOverflow)"

section \<open>Byte fallback\<close>

definition bf_new :: "(u8 \<times> u32) list \<Rightarrow> (token_error, byte_fallback) res" where
  "bf_new pairs =
    rfold (\<lambda>(b, t) s.
      if bf_byte_to_token s b \<noteq> None then Err (DuplicateByteFallback b)
      else if bf_token_to_byte s t \<noteq> None then Err (DuplicateTokenId t)
      else Ok \<lparr>bf_byte_to_token = (bf_byte_to_token s)(b \<mapsto> t), bf_token_to_byte = (bf_token_to_byte s)(t \<mapsto> b)\<rparr>)
    pairs \<lparr>bf_byte_to_token = Map.empty, bf_token_to_byte = Map.empty\<rparr>"

definition bf_pair_step :: "nat \<times> str \<Rightarrow> (u8 \<times> u32) list \<Rightarrow> (token_error, (u8 \<times> u32) list) res" where
  "bf_pair_step = (\<lambda>(idx, token) pairs.
    case canonical_byte_fallback_token token of None \<Rightarrow> Ok pairs
    | Some byte \<Rightarrow>
        rbind (token_index idx) (\<lambda>id.
        if list_ex (\<lambda>(existing, _). existing = byte) pairs then Err (DuplicateByteFallback byte)
        else Ok (pairs @ [(byte, id)])))"

definition bf_insert :: "nat \<Rightarrow> bool list option \<Rightarrow> u8 \<times> u32 \<Rightarrow> byte_fallback \<Rightarrow> (token_error, byte_fallback) res" where
  "bf_insert token_len emit_mask = (\<lambda>(byte, token) s.
    if bf_token_to_byte s token \<noteq> None then Err (DuplicateTokenId token)
    else if token_len \<le> unat token then Err (InvalidToken token)
    else Ok
      \<lparr>bf_byte_to_token = (if token_is_emittable emit_mask (unat token)
          then (bf_byte_to_token s)(byte \<mapsto> token) else bf_byte_to_token s),
       bf_token_to_byte = (bf_token_to_byte s)(token \<mapsto> byte)\<rparr>)"

definition bf_from_pairs_and_emit_mask ::
    "(u8 \<times> u32) list \<Rightarrow> str list \<Rightarrow> bool list option \<Rightarrow> (token_error, byte_fallback) res" where
  "bf_from_pairs_and_emit_mask pairs tokens emit_mask =
    rfold (bf_insert (length tokens) emit_mask) pairs
      \<lparr>bf_byte_to_token = Map.empty, bf_token_to_byte = Map.empty\<rparr>"

definition bf_from_tokens_and_emit_mask :: "str list \<Rightarrow> bool list option \<Rightarrow> (token_error, byte_fallback) res" where
  "bf_from_tokens_and_emit_mask tokens emit_mask =
    rbind (rfold bf_pair_step (enumerate 0 tokens) []) (\<lambda>pairs.
    let missing = missing_byte_pairs pairs in
    if missing \<noteq> [] then Err (IncompleteByteFallback missing)
    else bf_from_pairs_and_emit_mask pairs tokens emit_mask)"

definition bf_from_tokens :: "str list \<Rightarrow> (token_error, byte_fallback) res" where
  "bf_from_tokens tokens = bf_from_tokens_and_emit_mask tokens None"

definition bf_from_gguf :: "gguf \<Rightarrow> (token_error, byte_fallback) res" where
  "bf_from_gguf g =
    rbind (gguf_tokens g) (\<lambda>tokens.
    rbind (optional_gguf_emit_mask g (length tokens)) (\<lambda>emit_mask.
    bf_from_tokens_and_emit_mask tokens emit_mask))"

definition bf_tokenize_bytes :: "byte_fallback \<Rightarrow> u8 list \<Rightarrow> (token_error, u32 list) res" where
  "bf_tokenize_bytes t input = traverse (\<lambda>b. ok_or (MissingByteFallback b) (bf_byte_to_token t b)) input"

definition bf_detokenize_bytes :: "byte_fallback \<Rightarrow> u32 list \<Rightarrow> (token_error, u8 list) res" where
  "bf_detokenize_bytes t tokens = traverse (\<lambda>k. ok_or (InvalidToken k) (bf_token_to_byte t k)) tokens"

section \<open>Byte-level BPE\<close>

record bpe_vocab =
  v_byte_to_token :: "u8 \<rightharpoonup> u32"
  v_token_to_bytes :: "u32 \<rightharpoonup> u8 list"
  v_bytes_to_token :: "u8 list \<rightharpoonup> u32"

definition bb_vocab_step :: "bool list option \<Rightarrow> nat \<times> str \<Rightarrow> bpe_vocab \<Rightarrow> (token_error, bpe_vocab) res" where
  "bb_vocab_step emit_mask = (\<lambda>(idx, token) v.
    rbind (token_index idx) (\<lambda>id.
    let bytes = token_piece_bytes token in
    rbind
      (if token_is_emittable emit_mask idx then
         rbind (case bytes of
             [byte] \<Rightarrow> if v_byte_to_token v byte \<noteq> None then Err (DuplicateByteFallback byte)
                       else Ok (v\<lparr>v_byte_to_token := (v_byte_to_token v)(byte \<mapsto> id)\<rparr>)
           | _ \<Rightarrow> Ok v) (\<lambda>v.
         if v_bytes_to_token v bytes \<noteq> None then Err (DuplicateTokenBytes bytes)
         else Ok (v\<lparr>v_bytes_to_token := (v_bytes_to_token v)(bytes \<mapsto> id)\<rparr>))
       else Ok v) (\<lambda>v.
    Ok (v\<lparr>v_token_to_bytes := (v_token_to_bytes v)(id \<mapsto> bytes)\<rparr>))))"

text \<open>One merge rule. A rule over missing tokens is skipped under an emit mask, an error otherwise.\<close>

definition bb_merge_step :: "bool list option \<Rightarrow> (u8 list \<rightharpoonup> u32) \<Rightarrow> nat \<times> str \<Rightarrow> ranks \<Rightarrow> (token_error, ranks) res" where
  "bb_merge_step emit_mask bytes_to_token = (\<lambda>(rank, merge) merge_ranks.
    rbind (parse_merge merge) (\<lambda>(left, right).
    let left_bytes = token_piece_bytes left; right_bytes = token_piece_bytes right in
    case bytes_to_token left_bytes of
      None \<Rightarrow> if emit_mask \<noteq> None then Ok merge_ranks else Err (MissingTokenBytes left_bytes)
    | Some left_id \<Rightarrow>
    case bytes_to_token right_bytes of
      None \<Rightarrow> if emit_mask \<noteq> None then Ok merge_ranks else Err (MissingTokenBytes right_bytes)
    | Some right_id \<Rightarrow>
    case bytes_to_token (left_bytes @ right_bytes) of
      None \<Rightarrow> if emit_mask \<noteq> None then Ok merge_ranks else Err (MissingMergeToken (left_bytes @ right_bytes))
    | Some merged_id \<Rightarrow>
        if merge_ranks (left_id, right_id) \<noteq> None then Err (DuplicateMerge merge)
        else Ok (merge_ranks((left_id, right_id) \<mapsto> (rank, merged_id)))))"

definition bb_from_tokens_merges_and_emit_mask ::
    "str list \<Rightarrow> str list \<Rightarrow> bool list option \<Rightarrow> (token_error, byte_bpe) res" where
  "bb_from_tokens_merges_and_emit_mask tokens merges emit_mask =
    rbind (rfold (bb_vocab_step emit_mask) (enumerate 0 tokens)
      \<lparr>v_byte_to_token = Map.empty, v_token_to_bytes = Map.empty, v_bytes_to_token = Map.empty\<rparr>) (\<lambda>v.
    rbind (rfold (bb_merge_step emit_mask (v_bytes_to_token v)) (enumerate 0 merges) Map.empty) (\<lambda>merge_ranks.
    Ok \<lparr>bb_byte_to_token = v_byte_to_token v, bb_token_to_bytes = v_token_to_bytes v,
        bb_merge_ranks = merge_ranks\<rparr>))"

definition bb_from_tokens_and_merges :: "str list \<Rightarrow> str list \<Rightarrow> (token_error, byte_bpe) res" where
  "bb_from_tokens_and_merges tokens merges = bb_from_tokens_merges_and_emit_mask tokens merges None"

definition bb_from_gguf :: "gguf \<Rightarrow> (token_error, byte_bpe) res" where
  "bb_from_gguf g =
    rbind (gguf_tokens g) (\<lambda>tokens.
    rbind (rbind (optional_gguf_merges g) (ok_or MissingVocabulary)) (\<lambda>merges.
    rbind (optional_gguf_emit_mask g (length tokens)) (\<lambda>emit_mask.
    bb_from_tokens_merges_and_emit_mask tokens merges emit_mask)))"

definition bb_tokenize_bytes :: "byte_bpe \<Rightarrow> u8 list \<Rightarrow> (token_error, u32 list) res" where
  "bb_tokenize_bytes t input =
    rbind (traverse (\<lambda>b. ok_or (MissingByteFallback b) (bb_byte_to_token t b)) input) (\<lambda>ids.
    bpe_merge_ids (bb_merge_ranks t) ids)"

text \<open>The detokenizer that the BPE and the SentencePiece tokenizer share.\<close>

definition detokenize_pieces :: "(u32 \<rightharpoonup> u8 list) \<Rightarrow> u32 list \<Rightarrow> (token_error, u8 list) res" where
  "detokenize_pieces token_to_bytes tokens =
    rfold (\<lambda>token out. rbind (ok_or (InvalidToken token) (token_to_bytes token)) (\<lambda>bytes. Ok (out @ bytes))) tokens []"

definition bb_detokenize_bytes :: "byte_bpe \<Rightarrow> u32 list \<Rightarrow> (token_error, u8 list) res" where
  "bb_detokenize_bytes t = detokenize_pieces (bb_token_to_bytes t)"

section \<open>SentencePiece\<close>

definition sp_piece_step :: "f32 list option \<Rightarrow> bool list option \<Rightarrow> nat \<times> str \<Rightarrow>
    (u32 \<rightharpoonup> u8 list) \<times> (u8 list \<rightharpoonup> u32 \<times> f32) \<times> nat \<Rightarrow>
    (token_error, (u32 \<rightharpoonup> u8 list) \<times> (u8 list \<rightharpoonup> u32 \<times> f32) \<times> nat) res" where
  "sp_piece_step scores emit_mask = (\<lambda>(idx, token) (token_to_bytes, pieces, max_piece_len).
    rbind (token_index idx) (\<lambda>id.
    let bytes = token_piece_bytes token in
    rbind (case scores of None \<Rightarrow> Ok 0 | Some s \<Rightarrow> index_at s idx) (\<lambda>score.
    if length bytes > 1 \<and> token_is_emittable emit_mask idx then
      Ok (token_to_bytes(id \<mapsto> bytes),
          (case pieces bytes of
             Some (best_id, best_score) \<Rightarrow>
               if f32_lt best_score score \<or> score = best_score \<and> id < best_id
               then pieces(bytes \<mapsto> (id, score)) else pieces
           | None \<Rightarrow> pieces(bytes \<mapsto> (id, score))),
          max max_piece_len (length bytes))
    else Ok (token_to_bytes(id \<mapsto> bytes), pieces, max_piece_len))))"

definition sp_from_tokens_scores_and_emit_mask ::
    "str list \<Rightarrow> f32 list option \<Rightarrow> bool list option \<Rightarrow> (token_error, sentence_piece) res" where
  "sp_from_tokens_scores_and_emit_mask tokens scores emit_mask =
    rbind (case scores of None \<Rightarrow> Ok ()
      | Some s \<Rightarrow> if length s \<noteq> length tokens then Err ScoresLength
          else if list_ex (\<lambda>score. \<not> f32_is_finite score) s then Err NonFiniteScore else Ok ()) (\<lambda>_.
    rbind (bf_from_tokens_and_emit_mask tokens emit_mask) (\<lambda>byte_fallback.
    rbind (rfold (sp_piece_step scores emit_mask) (enumerate 0 tokens) (Map.empty, Map.empty, 1))
    (\<lambda>(token_to_bytes, pieces, max_piece_len).
    Ok \<lparr>sp_byte_fallback = byte_fallback, sp_token_to_bytes = token_to_bytes, sp_pieces = pieces,
        sp_max_piece_len = max_piece_len\<rparr>)))"

definition sp_from_tokens_and_scores :: "str list \<Rightarrow> f32 list option \<Rightarrow> (token_error, sentence_piece) res" where
  "sp_from_tokens_and_scores tokens scores = sp_from_tokens_scores_and_emit_mask tokens scores None"

definition sp_from_gguf :: "gguf \<Rightarrow> (token_error, sentence_piece) res" where
  "sp_from_gguf g =
    rbind (gguf_tokens g) (\<lambda>tokens.
    rbind (optional_gguf_scores g (length tokens)) (\<lambda>scores.
    rbind (optional_gguf_emit_mask g (length tokens)) (\<lambda>emit_mask.
    sp_from_tokens_scores_and_emit_mask tokens scores emit_mask)))"

text \<open>The scan over the ends of a piece that starts at \<open>pos\<close>.\<close>

definition sp_better :: "nat \<times> u32 \<times> f32 \<Rightarrow> nat \<times> u32 \<times> f32 \<Rightarrow> bool" where
  "sp_better = (\<lambda>(len, piece, score) (best_len, best_id, best_score).
    best_len < len \<or> len = best_len \<and> (f32_lt best_score score \<or> score = best_score \<and> piece < best_id))"

definition sp_scan :: "(u8 list \<rightharpoonup> u32 \<times> f32) \<Rightarrow> u8 list \<Rightarrow> nat \<Rightarrow> nat \<Rightarrow>
    (nat \<times> u32 \<times> f32) option \<Rightarrow> (nat \<times> u32 \<times> f32) option" where
  "sp_scan pieces input pos fin best =
    (case pieces (slice input pos fin) of None \<Rightarrow> best
     | Some (piece, score) \<Rightarrow>
        (case best of None \<Rightarrow> Some (fin - pos, piece, score)
         | Some b \<Rightarrow> if sp_better (fin - pos, piece, score) b then Some (fin - pos, piece, score) else best))"

definition sp_best :: "sentence_piece \<Rightarrow> u8 list \<Rightarrow> nat \<Rightarrow> (nat \<times> u32 \<times> f32) option" where
  "sp_best t input pos =
    fold (sp_scan (sp_pieces t) input pos) [pos + 1..<Suc (min (length input) (pos + sp_max_piece_len t))] None"

lemma sp_scan_len:
  "fold (sp_scan pieces input pos) ends best = Some (len, piece, score) \<Longrightarrow> \<forall>e \<in> set ends. pos < e \<Longrightarrow>
    (\<And>l i s. best = Some (l, i, s) \<Longrightarrow> 0 < l) \<Longrightarrow> 0 < len"
proof (induction ends arbitrary: best)
  case (Cons e ends)
  have "0 < l" if "sp_scan pieces input pos e best = Some (l, i, s)" for l i s
    using that Cons.prems(2,3) by (auto simp: sp_scan_def split: option.splits if_splits)
  then show ?case using Cons by simp
qed simp

lemma sp_best_len: "sp_best t input pos = Some (len, piece, score) \<Longrightarrow> 0 < len"
  unfolding sp_best_def by (rule sp_scan_len) auto

function sp_loop :: "sentence_piece \<Rightarrow> u8 list \<Rightarrow> nat \<Rightarrow> u32 list \<Rightarrow> (token_error, u32 list) res" where
  "sp_loop t input pos out =
    (if pos < length input then
       (case sp_best t input pos of
          Some (len, piece, _) \<Rightarrow> sp_loop t input (pos + len) (out @ [piece])
        | None \<Rightarrow>
            rbind (ok_or (MissingByteFallback (input ! pos)) (bf_byte_to_token (sp_byte_fallback t) (input ! pos)))
            (\<lambda>token. sp_loop t input (pos + 1) (out @ [token])))
     else Ok out)"
  by auto
termination
  by (relation "measure (\<lambda>(t, input, pos, out). length input - pos)") (auto dest: sp_best_len)

declare sp_loop.simps [simp del]

definition sp_tokenize_bytes :: "sentence_piece \<Rightarrow> u8 list \<Rightarrow> (token_error, u32 list) res" where
  "sp_tokenize_bytes t input = sp_loop t input 0 []"

definition sp_detokenize_bytes :: "sentence_piece \<Rightarrow> u32 list \<Rightarrow> (token_error, u8 list) res" where
  "sp_detokenize_bytes t = detokenize_pieces (sp_token_to_bytes t)"

section \<open>The tokenizer of a model file\<close>

definition from_gguf :: "gguf \<Rightarrow> (token_error, tokenizer) res" where
  "from_gguf g =
    rbind (gguf_tokens g) (\<lambda>tokens.
    rbind (optional_gguf_emit_mask g (length tokens)) (\<lambda>emit_mask.
    rbind (optional_gguf_merges g) (\<lambda>merges.
    rbind (optional_gguf_model g) (\<lambda>model.
    let bpe = (\<lambda>merges. rbind (bb_from_tokens_merges_and_emit_mask tokens merges emit_mask) (\<lambda>t. Ok (ByteBpe t)));
        spm = rbind (optional_gguf_scores g (length tokens)) (\<lambda>scores.
          rbind (sp_from_tokens_scores_and_emit_mask tokens scores emit_mask) (\<lambda>t. Ok (SentencePiece t)))
    in case model of
      Some m \<Rightarrow>
        if m = ascii ''gpt2'' then bpe (case merges of Some ms \<Rightarrow> ms | None \<Rightarrow> [])
        else if m = ascii ''llama'' \<or> m = ascii ''spm'' \<or> m = ascii ''sentencepiece'' then spm
        else Err (UnsupportedTokenizerModel m)
    | None \<Rightarrow>
        if merges \<noteq> None \<and> merges \<noteq> Some [] then bpe (case merges of Some ms \<Rightarrow> ms | None \<Rightarrow> [])
        else rbind (has_gguf_scores g) (\<lambda>scored.
          if scored then spm
          else rbind (bf_from_tokens_and_emit_mask tokens emit_mask) (\<lambda>t. Ok (ByteFallback t)))))))"

fun tokenize_bytes :: "tokenizer \<Rightarrow> u8 list \<Rightarrow> (token_error, u32 list) res" where
  "tokenize_bytes (ByteFallback t) input = bf_tokenize_bytes t input"
| "tokenize_bytes (ByteBpe t) input = bb_tokenize_bytes t input"
| "tokenize_bytes (SentencePiece t) input = sp_tokenize_bytes t input"

fun detokenize_bytes :: "tokenizer \<Rightarrow> u32 list \<Rightarrow> (token_error, u8 list) res" where
  "detokenize_bytes (ByteFallback t) tokens = bf_detokenize_bytes t tokens"
| "detokenize_bytes (ByteBpe t) tokens = bb_detokenize_bytes t tokens"
| "detokenize_bytes (SentencePiece t) tokens = sp_detokenize_bytes t tokens"

fun has_single_byte_token :: "tokenizer \<Rightarrow> u8 \<Rightarrow> bool" where
  "has_single_byte_token (ByteFallback t) byte = (bf_byte_to_token t byte \<noteq> None)"
| "has_single_byte_token (ByteBpe t) byte = (bb_byte_to_token t byte \<noteq> None)"
| "has_single_byte_token (SentencePiece t) byte = (bf_byte_to_token (sp_byte_fallback t) byte \<noteq> None)"

text \<open>The symbol stream: maximal runs of bytes that have tokens are tokenized, every other byte is
  escaped. \<open>run_end\<close> is the inner loop.\<close>

function run_end :: "(u8 \<Rightarrow> bool) \<Rightarrow> u8 list \<Rightarrow> nat \<Rightarrow> nat" where
  "run_end single input pos =
    (if pos < length input \<and> single (input ! pos) then run_end single input (pos + 1) else pos)"
  by auto
termination
  by (relation "measure (\<lambda>(single, input, pos). length input - pos)") auto

declare run_end.simps [simp del]

lemma run_end_ge: "pos \<le> run_end single input pos"
  by (induction single input pos rule: run_end.induct) (subst run_end.simps, auto)

function codec_stream :: "(u8 \<Rightarrow> bool) \<Rightarrow> (u8 list \<Rightarrow> (token_error, u32 list) res) \<Rightarrow> u8 list \<Rightarrow> nat \<Rightarrow>
    codec_symbol list \<Rightarrow> (token_error, codec_symbol list) res" where
  "codec_stream single tokenize input pos out =
    (if pos < length input then
       if \<not> single (input ! pos)
       then codec_stream single tokenize input (pos + 1) (out @ [ByteEscape (input ! pos)])
       else rbind (tokenize (slice input pos (run_end single input (pos + 1)))) (\<lambda>tokens.
         codec_stream single tokenize input (run_end single input (pos + 1)) (out @ map Token tokens))
     else Ok out)"
  by auto
termination
proof (relation "measure (\<lambda>(single, tokenize, input, pos, out). length input - pos)", goal_cases)
  case (3 single tokenize input pos)
  then show ?case using run_end_ge [of "pos + 1" single input] by auto
qed auto

declare codec_stream.simps [simp del]

definition codec_symbol_stream :: "tokenizer \<Rightarrow> u8 list \<Rightarrow> (token_error, codec_symbol list) res" where
  "codec_symbol_stream t input = codec_stream (has_single_byte_token t) (tokenize_bytes t) input 0 []"

definition codec_symbols :: "tokenizer \<Rightarrow> u8 list \<Rightarrow> nat \<Rightarrow> (token_error, nat list) res" where
  "codec_symbols t input vocab_len =
    rbind (codec_symbol_stream t input) (\<lambda>symbols.
    Ok (map (\<lambda>symbol. case symbol of Token token \<Rightarrow> unat token | ByteEscape byte \<Rightarrow> vocab_len + unat byte) symbols))"

definition decode_codec_symbol :: "tokenizer \<Rightarrow> nat \<Rightarrow> nat \<Rightarrow> (token_error, u8 list) res" where
  "decode_codec_symbol t symbol vocab_len =
    (if symbol < vocab_len then rbind (token_index symbol) (\<lambda>token. detokenize_bytes t [token])
     else if symbol < vocab_len + 256 then Ok [word_of_nat (symbol - vocab_len)]
     else Err (InvalidToken (if symbol < 2 ^ 32 then word_of_nat symbol else - 1)))"

definition codec_symbol_is_token :: "nat \<Rightarrow> nat \<Rightarrow> bool" where
  "codec_symbol_is_token symbol vocab_len \<longleftrightarrow> symbol < vocab_len"

section \<open>What the codec needs of a tokenizer\<close>

text \<open>\<open>valid t n\<close>: \<open>t\<close> is a tokenizer over a vocabulary of \<open>n\<close> tokens; \<open>single\<close> tells which bytes
  have a token of their own. Over such bytes tokenizing succeeds and detokenizing inverts it.\<close>

locale codec_tokenizer =
  fixes valid :: "'t \<Rightarrow> nat \<Rightarrow> bool"
    and single :: "'t \<Rightarrow> u8 \<Rightarrow> bool"
    and tokenize :: "'t \<Rightarrow> u8 list \<Rightarrow> (token_error, u32 list) res"
    and detokenize :: "'t \<Rightarrow> u32 list \<Rightarrow> (token_error, u8 list) res"
  assumes tokenize_back: "valid t n \<Longrightarrow> list_all (single t) input \<Longrightarrow>
      \<exists>ts. tokenize t input = Ok ts \<and> detokenize t ts = Ok input \<and>
        list_all (\<lambda>k. unat k < n \<and> detokenize t [k] \<noteq> Ok []) ts"
    and detokenize_split: "detokenize t (k # ks) =
      rbind (detokenize t [k]) (\<lambda>a. rbind (detokenize t ks) (\<lambda>b. Ok (a @ b)))"
    and detokenize_Nil: "detokenize t [] = Ok []"
begin

definition symbol_bytes :: "'t \<Rightarrow> codec_symbol \<Rightarrow> (token_error, u8 list) res" where
  "symbol_bytes t s = (case s of Token k \<Rightarrow> detokenize t [k] | ByteEscape b \<Rightarrow> Ok [b])"

definition stands_for :: "'t \<Rightarrow> nat \<Rightarrow> codec_symbol list \<Rightarrow> u8 list \<Rightarrow> bool" where
  "stands_for t n syms bytes \<longleftrightarrow> (\<exists>parts. traverse (symbol_bytes t) syms = Ok parts \<and> concat parts = bytes \<and> [] \<notin> set parts) \<and>
    list_all (\<lambda>s. case s of Token k \<Rightarrow> unat k < n | ByteEscape b \<Rightarrow> True) syms"

lemma stands_append: "stands_for t n xs as \<Longrightarrow> stands_for t n ys bs \<Longrightarrow> stands_for t n (xs @ ys) (as @ bs)"
  by (fastforce simp: stands_for_def traverse_append)

lemma stands_tokens:
  "detokenize t ts = Ok bytes \<Longrightarrow> list_all (\<lambda>k. unat k < n \<and> detokenize t [k] \<noteq> Ok []) ts \<Longrightarrow> stands_for t n (map Token ts) bytes"
proof (induction ts arbitrary: bytes)
  case Nil
  then show ?case by (simp add: stands_for_def detokenize_Nil)
next
  case (Cons k ts)
  from Cons.prems(1) obtain a b where ab: "detokenize t [k] = Ok a" "detokenize t ts = Ok b" "bytes = a @ b"
    unfolding detokenize_split [of t k ts] by auto
  then have "stands_for t n (map Token ts) b" using Cons by simp
  moreover have "stands_for t n [Token k] a" using ab Cons.prems by (auto simp: stands_for_def symbol_bytes_def)
  ultimately show ?case using stands_append [of t n "[Token k]" a] ab(3) by simp
qed

lemma run_all: "k \<le> length input \<Longrightarrow> run_end p input k \<le> length input \<and>
    (\<forall>i. k \<le> i \<longrightarrow> i < run_end p input k \<longrightarrow> p (input ! i))"
proof (induction p input k rule: run_end.induct)
  case (1 p input k)
  show ?case
  proof (cases "k < length input \<and> p (input ! k)")
    case True
    then have "run_end p input k = run_end p input (k + 1)" by (subst run_end.simps) simp
    then show ?thesis using 1 True by (metis Suc_eq_plus1 Suc_leI le_eq_less_or_eq)
  next
    case False
    then have "run_end p input k = k" by (subst run_end.simps) auto
    then show ?thesis using 1(2) by simp
  qed
qed

lemma stream_back:
  "valid t n \<Longrightarrow> pos \<le> length input \<Longrightarrow> stands_for t n out (take pos input) \<Longrightarrow>
    \<exists>syms. codec_stream (single t) (tokenize t) input pos out = Ok syms \<and> stands_for t n syms input"
proof (induction "single t" "tokenize t" input pos out rule: codec_stream.induct)
  case (1 input pos out)
  show ?case
  proof (cases "pos < length input")
    case False
    then show ?thesis using 1 by (subst codec_stream.simps) simp
  next
    case True
    show ?thesis
    proof (cases "single t (input ! pos)")
      case False
      have "stands_for t n (out @ [ByteEscape (input ! pos)]) (take (pos + 1) input)"
        using stands_append [OF 1(5), of "[ByteEscape (input ! pos)]" "[input ! pos]"] True
        by (simp add: stands_for_def symbol_bytes_def take_Suc_conv_app_nth)
      then show ?thesis using 1(1) True False 1(3) by (subst codec_stream.simps) simp
    next
      case s: True
      let ?e = "run_end (single t) input (pos + 1)"
      have run: "?e \<le> length input" "\<And>i. pos + 1 \<le> i \<Longrightarrow> i < ?e \<Longrightarrow> single t (input ! i)"
        using run_all [of "pos + 1" input "single t"] True by simp_all
      have e: "?e \<le> length input" "pos + 1 \<le> ?e" "\<And>i. pos \<le> i \<Longrightarrow> i < ?e \<Longrightarrow> single t (input ! i)"
        using run run_end_ge s by (auto simp: Suc_le_eq) (metis le_neq_implies_less)
      have "list_all (single t) (slice input pos ?e)"
        using e by (auto simp: list_all_length slice_def)
      then obtain ts where ts: "tokenize t (slice input pos ?e) = Ok ts" "detokenize t ts = Ok (slice input pos ?e)"
        "list_all (\<lambda>k. unat k < n \<and> detokenize t [k] \<noteq> Ok []) ts" using tokenize_back 1(3) by blast
      have "take pos input @ slice input pos ?e = take ?e input"
        using e(2) by (simp add: slice_def take_add [symmetric])
      then have "stands_for t n (out @ map Token ts) (take ?e input)"
        using stands_append [OF 1(5) stands_tokens [OF ts(2,3)]] by simp
      then show ?thesis using 1(2) [OF True _ ts(1)] s True ts(1) 1(3) e(1) by (subst codec_stream.simps) simp
    qed
  qed
qed

end

section \<open>The three tokenizers meet the interface\<close>

definition bf_valid :: "byte_fallback \<Rightarrow> nat \<Rightarrow> bool" where
  "bf_valid t n \<longleftrightarrow> (\<forall>b k. bf_byte_to_token t b = Some k \<longrightarrow> bf_token_to_byte t k = Some b) \<and>
    (\<forall>k \<in> dom (bf_token_to_byte t). unat k < n)"

definition bb_valid :: "byte_bpe \<Rightarrow> nat \<Rightarrow> bool" where
  "bb_valid t n \<longleftrightarrow> (\<forall>b k. bb_byte_to_token t b = Some k \<longrightarrow> bb_token_to_bytes t k = Some [b]) \<and>
    (\<forall>x y r m. bb_merge_ranks t (x, y) = Some (r, m) \<longrightarrow> (\<exists>bx cy. bb_token_to_bytes t x = Some bx \<and>
      bb_token_to_bytes t y = Some cy \<and> bb_token_to_bytes t m = Some (bx @ cy))) \<and>
    (\<forall>k \<in> dom (bb_token_to_bytes t). unat k < n)"

definition sp_valid :: "sentence_piece \<Rightarrow> nat \<Rightarrow> bool" where
  "sp_valid t n \<longleftrightarrow>
    (\<forall>b k. bf_byte_to_token (sp_byte_fallback t) b = Some k \<longrightarrow> sp_token_to_bytes t k = Some [b]) \<and>
    (\<forall>p k c. sp_pieces t p = Some (k, c) \<longrightarrow> sp_token_to_bytes t k = Some p) \<and>
    (\<forall>k \<in> dom (sp_token_to_bytes t). unat k < n)"

fun tk_valid :: "tokenizer \<Rightarrow> nat \<Rightarrow> bool" where
  "tk_valid (ByteFallback t) n = bf_valid t n"
| "tk_valid (ByteBpe t) n = bb_valid t n"
| "tk_valid (SentencePiece t) n = sp_valid t n"

lemma detokenize_pieces_acc:
  "rfold (\<lambda>token out. rbind (ok_or (InvalidToken token) (m token)) (\<lambda>bytes. Ok (out @ bytes))) ts out =
    rbind (detokenize_pieces m ts) (\<lambda>bytes. Ok (out @ bytes))"
proof (induction ts arbitrary: out)
  case (Cons k ts)
  show ?case unfolding detokenize_pieces_def [of m "k # ts"] by (cases "m k") (simp_all add: Cons.IH rbind_assoc)
qed (simp add: detokenize_pieces_def)

lemma detokenize_pieces_Cons:
  "detokenize_pieces m (k # ks) =
    rbind (ok_or (InvalidToken k) (m k)) (\<lambda>a. rbind (detokenize_pieces m ks) (\<lambda>b. Ok (a @ b)))"
  unfolding detokenize_pieces_def [of m "k # ks"] rfold.simps
  by (cases "m k") (simp_all add: detokenize_pieces_acc)

lemma detokenize_pieces_Nil: "detokenize_pieces m [] = Ok []"
  by (simp add: detokenize_pieces_def)

lemma detokenize_pieces_split:
  "detokenize_pieces m (k # ks) =
    rbind (detokenize_pieces m [k]) (\<lambda>a. rbind (detokenize_pieces m ks) (\<lambda>b. Ok (a @ b)))"
  by (cases "m k") (simp_all add: detokenize_pieces_Cons detokenize_pieces_Nil)

lemma detokenize_pieces_Ok:
  "detokenize_pieces m ks = Ok bytes \<longleftrightarrow> list_all (\<lambda>k. m k \<noteq> None) ks \<and> bytes = concat (map (the \<circ> m) ks)"
proof (induction ks arbitrary: bytes)
  case (Cons k ks)
  show ?case by (cases "m k") (auto simp: detokenize_pieces_Cons Cons.IH)
qed (auto simp: detokenize_pieces_Nil)

lemma bytes_have_tokens:
  "list_all (\<lambda>b. m b \<noteq> None) input \<Longrightarrow>
    traverse (\<lambda>b. ok_or (MissingByteFallback b) (m b)) input = Ok (map (the \<circ> m) input)"
  by (induction input) auto

interpretation bf: codec_tokenizer bf_valid "\<lambda>t b. bf_byte_to_token t b \<noteq> None" bf_tokenize_bytes bf_detokenize_bytes
proof unfold_locales
  fix t n input
  assume v: "bf_valid t n" and s: "list_all (\<lambda>b. bf_byte_to_token t b \<noteq> None) input"
  have "bf_detokenize_bytes t (map (the \<circ> bf_byte_to_token t) input) = Ok input \<and>
      list_all (\<lambda>k. unat k < n \<and> bf_detokenize_bytes t [k] \<noteq> Ok []) (map (the \<circ> bf_byte_to_token t) input)"
    using s v by (induction input) (auto simp: bf_detokenize_bytes_def bf_valid_def Ball_def domI)
  then show "\<exists>ts. bf_tokenize_bytes t input = Ok ts \<and> bf_detokenize_bytes t ts = Ok input \<and>
      list_all (\<lambda>k. unat k < n \<and> bf_detokenize_bytes t [k] \<noteq> Ok []) ts"
    using bytes_have_tokens [OF s] by (auto simp: bf_tokenize_bytes_def)
next
  fix t k ks
  show "bf_detokenize_bytes t (k # ks) =
      rbind (bf_detokenize_bytes t [k]) (\<lambda>a. rbind (bf_detokenize_bytes t ks) (\<lambda>b. Ok (a @ b)))"
    by (cases "bf_token_to_byte t k") (simp_all add: bf_detokenize_bytes_def)
qed (simp add: bf_detokenize_bytes_def)

text \<open>A merge keeps the bytes and the bound of the tokens.\<close>

lemma merge_keeps_bytes:
  assumes v: "bb_valid t n" and step: "bpe_merge (bb_merge_ranks t) ids ids'"
    and d: "detokenize_pieces (bb_token_to_bytes t) ids = Ok bytes"
  shows "detokenize_pieces (bb_token_to_bytes t) ids' = Ok bytes"
proof -
  obtain x y r m us vs where ids: "ids = us @ x # y # vs" "ids' = us @ m # vs" "bb_merge_ranks t (x, y) = Some (r, m)"
    using step by (auto elim: bpe_mergeE)
  then have "\<exists>bx cy. bb_token_to_bytes t x = Some bx \<and> bb_token_to_bytes t y = Some cy \<and>
      bb_token_to_bytes t m = Some (bx @ cy)" using v unfolding bb_valid_def by blast
  then show ?thesis using d by (auto simp: detokenize_pieces_Ok ids)
qed

lemma merges_keep_bytes:
  "(bpe_merge (bb_merge_ranks t))\<^sup>*\<^sup>* ids ids' \<Longrightarrow> bb_valid t n \<Longrightarrow>
    detokenize_pieces (bb_token_to_bytes t) ids = Ok bytes \<Longrightarrow> detokenize_pieces (bb_token_to_bytes t) ids' = Ok bytes"
  by (induction rule: rtranclp_induct) (auto intro: merge_keeps_bytes)

lemma merge_keeps_pieces:
  assumes v: "bb_valid t n" and step: "bpe_merge (bb_merge_ranks t) ids ids'"
    and d: "\<forall>k \<in> set ids. bb_token_to_bytes t k \<noteq> Some []"
  shows "\<forall>k \<in> set ids'. bb_token_to_bytes t k \<noteq> Some []"
proof -
  obtain x y r m us vs where ids: "ids = us @ x # y # vs" "ids' = us @ m # vs" "bb_merge_ranks t (x, y) = Some (r, m)"
    using step by (auto elim: bpe_mergeE)
  then have "\<exists>bx cy. bb_token_to_bytes t x = Some bx \<and> bb_token_to_bytes t y = Some cy \<and>
      bb_token_to_bytes t m = Some (bx @ cy)" using v unfolding bb_valid_def by blast
  then show ?thesis using d by (auto simp: ids)
qed

lemma merges_keep_pieces:
  "(bpe_merge (bb_merge_ranks t))\<^sup>*\<^sup>* ids ids' \<Longrightarrow> bb_valid t n \<Longrightarrow>
    \<forall>k \<in> set ids. bb_token_to_bytes t k \<noteq> Some [] \<Longrightarrow> \<forall>k \<in> set ids'. bb_token_to_bytes t k \<noteq> Some []"
  by (induction rule: rtranclp_induct) (auto dest: merge_keeps_pieces)

lemma piece_nonempty: "detokenize_pieces m [k] = Ok [] \<longleftrightarrow> m k = Some []"
  by (cases "m k") (simp_all add: detokenize_pieces_Cons detokenize_pieces_Nil)

interpretation bb: codec_tokenizer bb_valid "\<lambda>t b. bb_byte_to_token t b \<noteq> None" bb_tokenize_bytes bb_detokenize_bytes
proof unfold_locales
  fix t n input
  assume v: "bb_valid t n" and s: "list_all (\<lambda>b. bb_byte_to_token t b \<noteq> None) input"
  let ?ids = "map (the \<circ> bb_byte_to_token t) input"
  have start: "detokenize_pieces (bb_token_to_bytes t) ?ids = Ok input"
    using s v by (induction input) (auto simp: detokenize_pieces_Cons detokenize_pieces_Nil bb_valid_def)
  obtain ts where ts: "bpe_merge_ids (bb_merge_ranks t) ?ids = Ok ts" "(bpe_merge (bb_merge_ranks t))\<^sup>*\<^sup>* ?ids ts"
    using bpe_refines by blast
  have inv: "detokenize_pieces (bb_token_to_bytes t) ts = Ok input" using merges_keep_bytes [OF ts(2) v start] .
  moreover have "\<forall>k \<in> set ts. bb_token_to_bytes t k \<noteq> Some []"
    by (rule merges_keep_pieces [OF ts(2) v]) (use s v in \<open>auto simp: bb_valid_def list_all_iff\<close>)
  ultimately have "list_all (\<lambda>k. unat k < n \<and> bb_detokenize_bytes t [k] \<noteq> Ok []) ts"
    using v by (auto simp: detokenize_pieces_Ok bb_valid_def list_all_iff bb_detokenize_bytes_def piece_nonempty)
  then show "\<exists>ts. bb_tokenize_bytes t input = Ok ts \<and> bb_detokenize_bytes t ts = Ok input \<and>
      list_all (\<lambda>k. unat k < n \<and> bb_detokenize_bytes t [k] \<noteq> Ok []) ts"
    using ts(1) inv bytes_have_tokens [OF s] by (simp add: bb_tokenize_bytes_def bb_detokenize_bytes_def)
qed (simp_all add: bb_detokenize_bytes_def detokenize_pieces_Nil detokenize_pieces_split [symmetric])

text \<open>A piece that the scan finds is the text at its position.\<close>

lemma sp_scan_piece:
  "fold (sp_scan pieces input pos) ends best = Some (len, piece, score) \<Longrightarrow>
    best = Some (len, piece, score) \<or>
    (\<exists>e \<in> set ends. len = e - pos \<and> pieces (slice input pos e) = Some (piece, score))"
proof (induction ends arbitrary: best)
  case (Cons e ends)
  have "sp_scan pieces input pos e best = Some (len, piece, score) \<longrightarrow> best = Some (len, piece, score) \<or>
      len = e - pos \<and> pieces (slice input pos e) = Some (piece, score)"
    by (auto simp: sp_scan_def split: option.splits if_splits)
  then show ?case using Cons.IH [of "sp_scan pieces input pos e best"] Cons.prems by auto
qed simp

lemma sp_best_piece:
  assumes "sp_best t input pos = Some (len, piece, score)" "pos < length input"
  shows "pos + len \<le> length input" "sp_pieces t (slice input pos (pos + len)) = Some (piece, score)"
  using sp_scan_piece [OF assms(1) [unfolded sp_best_def]] assms(2) by auto

lemma sp_loop_back:
  "sp_valid t n \<Longrightarrow> pos \<le> length input \<Longrightarrow> list_all (\<lambda>b. bf_byte_to_token (sp_byte_fallback t) b \<noteq> None) input \<Longrightarrow>
    detokenize_pieces (sp_token_to_bytes t) out = Ok (take pos input) \<Longrightarrow>
    \<forall>k \<in> set out. sp_token_to_bytes t k \<noteq> Some [] \<Longrightarrow>
    \<exists>ts. sp_loop t input pos out = Ok ts \<and> detokenize_pieces (sp_token_to_bytes t) ts = Ok input \<and>
      (\<forall>k \<in> set ts. sp_token_to_bytes t k \<noteq> Some [])"
proof (induction t input pos out rule: sp_loop.induct)
  case (1 t input pos out)
  show ?case
  proof (cases "pos < length input")
    case True
    show ?thesis
    proof (cases "sp_best t input pos")
      case None
      obtain k where k: "bf_byte_to_token (sp_byte_fallback t) (input ! pos) = Some k"
        using 1(5) True by (auto simp: list_all_length)
      then have "sp_token_to_bytes t k = Some [input ! pos]" using 1(3) by (simp add: sp_valid_def)
      then have "detokenize_pieces (sp_token_to_bytes t) (out @ [k]) = Ok (take (pos + 1) input)"
        using 1(6) True by (simp add: detokenize_pieces_Ok take_Suc_conv_app_nth)
      moreover have "\<forall>k \<in> set (out @ [k]). sp_token_to_bytes t k \<noteq> Some []"
        using 1(7) \<open>sp_token_to_bytes t k = Some [input ! pos]\<close> by simp
      ultimately show ?thesis using 1(1) [OF True None, of k] True None k 1(3,5) by (subst sp_loop.simps) simp
    next
      case (Some b)
      obtain len piece score where b: "b = (len, piece, score)" by (metis prod_cases3)
      note p = sp_best_piece [OF Some [unfolded b] True]
      have "sp_token_to_bytes t piece = Some (slice input pos (pos + len))" using p(2) 1(3) by (auto simp: sp_valid_def)
      then have "detokenize_pieces (sp_token_to_bytes t) (out @ [piece]) = Ok (take (pos + len) input)"
        using 1(6) by (simp add: detokenize_pieces_Ok slice_def take_add)
      moreover have "slice input pos (pos + len) \<noteq> []" using sp_best_len [OF Some [unfolded b]] True by (simp add: slice_def)
      then have "\<forall>k \<in> set (out @ [piece]). sp_token_to_bytes t k \<noteq> Some []"
        using 1(7) \<open>sp_token_to_bytes t piece = Some (slice input pos (pos + len))\<close> by simp
      ultimately show ?thesis using 1(2) [OF True Some b [symmetric] refl] True Some b p(1) 1(3,5) by (subst sp_loop.simps) simp
    qed
  qed (use 1 in \<open>subst sp_loop.simps, simp\<close>)
qed

interpretation sp: codec_tokenizer sp_valid "\<lambda>t b. bf_byte_to_token (sp_byte_fallback t) b \<noteq> None"
  sp_tokenize_bytes sp_detokenize_bytes
proof unfold_locales
  fix t n input
  assume v: "sp_valid t n" and s: "list_all (\<lambda>b. bf_byte_to_token (sp_byte_fallback t) b \<noteq> None) input"
  obtain ts where ts: "sp_loop t input 0 [] = Ok ts" "detokenize_pieces (sp_token_to_bytes t) ts = Ok input"
    "\<forall>k \<in> set ts. sp_token_to_bytes t k \<noteq> Some []"
    using sp_loop_back [OF v _ s, of 0 "[]"] by (auto simp: detokenize_pieces_Nil)
  have "list_all (\<lambda>k. unat k < n \<and> sp_detokenize_bytes t [k] \<noteq> Ok []) ts"
    using ts(2,3) v by (auto simp: detokenize_pieces_Ok sp_valid_def list_all_iff sp_detokenize_bytes_def piece_nonempty)
  with ts show "\<exists>ts. sp_tokenize_bytes t input = Ok ts \<and> sp_detokenize_bytes t ts = Ok input \<and>
      list_all (\<lambda>k. unat k < n \<and> sp_detokenize_bytes t [k] \<noteq> Ok []) ts"
    by (simp add: sp_tokenize_bytes_def sp_detokenize_bytes_def)
qed (simp_all add: sp_detokenize_bytes_def detokenize_pieces_Nil detokenize_pieces_split [symmetric])

lemma single_token_fun:
  "has_single_byte_token (ByteFallback a) = (\<lambda>b. bf_byte_to_token a b \<noteq> None)"
  "has_single_byte_token (ByteBpe c) = (\<lambda>b. bb_byte_to_token c b \<noteq> None)"
  "has_single_byte_token (SentencePiece d) = (\<lambda>b. bf_byte_to_token (sp_byte_fallback d) b \<noteq> None)"
  by (simp_all add: fun_eq_iff)

interpretation tk: codec_tokenizer tk_valid has_single_byte_token tokenize_bytes detokenize_bytes
proof unfold_locales
  fix t n input assume "tk_valid t n" "list_all (has_single_byte_token t) input"
  then show "\<exists>ts. tokenize_bytes t input = Ok ts \<and> detokenize_bytes t ts = Ok input \<and>
      list_all (\<lambda>k. unat k < n \<and> detokenize_bytes t [k] \<noteq> Ok []) ts"
    using bf.tokenize_back bb.tokenize_back sp.tokenize_back by (cases t) (simp_all add: single_token_fun)
next
  fix t k ks
  show "detokenize_bytes t (k # ks) =
      rbind (detokenize_bytes t [k]) (\<lambda>a. rbind (detokenize_bytes t ks) (\<lambda>b. Ok (a @ b)))"
    by (cases t) (simp_all only: detokenize_bytes.simps bf.detokenize_split [of _ k ks]
        bb.detokenize_split [of _ k ks] sp.detokenize_split [of _ k ks])
next
  fix t show "detokenize_bytes t [] = Ok []"
    by (cases t) (simp_all add: bf.detokenize_Nil bb.detokenize_Nil sp.detokenize_Nil)
qed

section \<open>What the constructors establish\<close>

lemma rfold_enumerate:
  assumes "rfold f (enumerate 0 xs) s0 = Ok s" "P 0 s0"
    and "\<And>j s s'. j < length xs \<Longrightarrow> P j s \<Longrightarrow> f (j, xs ! j) s = Ok s' \<Longrightarrow> P (Suc j) s'"
  shows "P (length xs) s"
proof -
  have "\<exists>s. rfold f (enumerate 0 (take j xs)) s0 = Ok s \<and> P j s" if "j \<le> length xs" for j
    using that
  proof (induction j)
    case (Suc j)
    then obtain s1 where s1: "rfold f (enumerate 0 (take j xs)) s0 = Ok s1" "P j s1" by auto
    have split: "enumerate 0 xs = enumerate 0 (take j xs) @ (j, xs ! j) # enumerate (Suc j) (drop (Suc j) xs)"
      using Suc.prems by (metis Cons_nth_drop_Suc Suc_le_lessD add_0 append_take_drop_id enumerate_append_eq
          enumerate_simps(2) length_take min.absorb2 Suc_leD)
    from assms(1) obtain s2 where s2: "f (j, xs ! j) s1 = Ok s2" by (auto simp: split rfold_append s1)
    have "take (Suc j) xs = take j xs @ [xs ! j]" using Suc.prems by (simp add: take_Suc_conv_app_nth)
    then have "rfold f (enumerate 0 (take (Suc j) xs)) s0 = Ok s2"
      using Suc.prems by (simp add: enumerate_append_eq rfold_append s1 s2)
    then show ?case using assms(3) s1(2) s2 Suc.prems by auto
  qed (use assms(2) in simp)
  from this [of "length xs"] assms(1) show ?thesis by auto
qed

definition piece_table :: "str list \<Rightarrow> nat \<Rightarrow> u32 \<rightharpoonup> u8 list" where
  "piece_table tokens j = (\<lambda>k. if unat k < j then Some (token_piece_bytes (tokens ! unat k)) else None)"

lemma token_index_Ok: "token_index j = Ok k \<longleftrightarrow> j < 2 ^ 32 \<and> k = word_of_nat j \<and> unat k = j"
  by (auto simp: token_index_def unsigned_of_nat take_bit_nat_eq_self)

lemma piece_table_Suc:
  "token_index j = Ok k \<Longrightarrow> (piece_table tokens j)(k \<mapsto> token_piece_bytes (tokens ! j)) = piece_table tokens (Suc j)"
  by (auto simp: piece_table_def token_index_Ok fun_eq_iff word_unat_eq_iff)

lemma piece_table_new:
  "token_index j = Ok k \<Longrightarrow> piece_table tokens (Suc j) k = Some (token_piece_bytes (tokens ! j))"
  by (auto simp: piece_table_def token_index_Ok)

lemma piece_table_mono: "piece_table tokens j k = Some x \<Longrightarrow> piece_table tokens (Suc j) k = Some x"
  by (auto simp: piece_table_def split: if_splits)

lemma bf_pairs:
  assumes "rfold bf_pair_step (enumerate 0 tokens) [] = Ok pairs"
  shows "\<forall>(b, k) \<in> set pairs. unat k < length tokens \<and> canonical_byte_fallback_token (tokens ! unat k) = Some b"
proof -
  define P where "P j (pairs :: (u8 \<times> u32) list) \<longleftrightarrow>
    (\<forall>(b, k) \<in> set pairs. unat k < j \<and> canonical_byte_fallback_token (tokens ! unat k) = Some b)" for j pairs
  have "P (length tokens) pairs"
    by (rule rfold_enumerate [OF assms])
      (auto simp: P_def bf_pair_step_def token_index_Ok less_Suc_eq split: option.splits if_splits)
  then show ?thesis by (simp add: P_def)
qed

lemma bf_inserted:
  assumes "rfold (bf_insert n emit) pairs s = Ok t"
    and "\<forall>b k. bf_byte_to_token s b = Some k \<longrightarrow> bf_token_to_byte s k = Some b"
    and "\<forall>k b. bf_token_to_byte s k = Some b \<longrightarrow> P b k"
    and "\<forall>(b, k) \<in> set pairs. P b k"
  shows "(\<forall>b k. bf_byte_to_token t b = Some k \<longrightarrow> bf_token_to_byte t k = Some b) \<and>
    (\<forall>k b. bf_token_to_byte t k = Some b \<longrightarrow> P b k)"
  using assms
proof (induction pairs arbitrary: s)
  case (Cons p pairs)
  obtain b k where p: "p = (b, k)" by fastforce
  from Cons.prems(1) obtain s1 where s1: "bf_insert n emit (b, k) s = Ok s1" "rfold (bf_insert n emit) pairs s1 = Ok t"
    by (auto simp: p)
  have eq: "s1 = \<lparr>bf_byte_to_token = (if token_is_emittable emit (unat k)
          then (bf_byte_to_token s)(b \<mapsto> k) else bf_byte_to_token s),
       bf_token_to_byte = (bf_token_to_byte s)(k \<mapsto> b)\<rparr>" "bf_token_to_byte s k = None"
    using s1(1) by (auto simp: bf_insert_def split: if_splits)
  have "\<forall>b k. bf_byte_to_token s1 b = Some k \<longrightarrow> bf_token_to_byte s1 k = Some b"
    using Cons.prems(2) eq by auto
  moreover have "\<forall>k b. bf_token_to_byte s1 k = Some b \<longrightarrow> P b k" using Cons.prems(3,4) eq p by auto
  ultimately show ?case using Cons.IH [OF s1(2)] Cons.prems(4) by simp
qed simp

lemma bf_from_tokens:
  assumes "bf_from_tokens_and_emit_mask tokens emit = Ok t"
  shows "bf_valid t (length tokens)"
    "bf_byte_to_token t b = Some k \<Longrightarrow> unat k < length tokens \<and> token_piece_bytes (tokens ! unat k) = [b]"
proof -
  obtain pairs where p: "rfold bf_pair_step (enumerate 0 tokens) [] = Ok pairs"
    and t: "rfold (bf_insert (length tokens) emit) pairs \<lparr>bf_byte_to_token = Map.empty, bf_token_to_byte = Map.empty\<rparr> = Ok t"
    using assms by (auto simp: bf_from_tokens_and_emit_mask_def bf_from_pairs_and_emit_mask_def Let_def split: if_splits)
  note i = bf_inserted [OF t, of "\<lambda>b k. unat k < length tokens \<and> canonical_byte_fallback_token (tokens ! unat k) = Some b"]
  show "bf_valid t (length tokens)" using i bf_pairs [OF p] by (auto simp: bf_valid_def)
  show "unat k < length tokens \<and> token_piece_bytes (tokens ! unat k) = [b]" if "bf_byte_to_token t b = Some k"
    using i bf_pairs [OF p] that by (auto intro: canonical_piece)
qed

lemma merge_step_cases:
  assumes "bb_merge_step emit b2t (j, merge) s = Ok s'"
  obtains "s' = s"
    | bl br l r m where "b2t bl = Some l" "b2t br = Some r" "b2t (bl @ br) = Some m" "s' = s((l, r) \<mapsto> (j, m))"
proof -
  obtain left right where pm: "parse_merge merge = Ok (left, right)"
    using assms by (auto simp: bb_merge_step_def)
  let ?l = "token_piece_bytes left" and ?r = "token_piece_bytes right"
  show ?thesis
  proof (cases "b2t ?l = None \<or> b2t ?r = None \<or> b2t (?l @ ?r) = None")
    case True
    then have "s' = s" using assms by (auto simp: bb_merge_step_def pm Let_def split: if_splits option.splits)
    then show ?thesis by (rule that(1))
  next
    case False
    then obtain l r m where "b2t ?l = Some l" "b2t ?r = Some r" "b2t (?l @ ?r) = Some m" by auto
    moreover from this have "s' = s((l, r) \<mapsto> (j, m))"
      using assms by (simp add: bb_merge_step_def pm Let_def split: if_splits)
    ultimately show ?thesis by (rule that(2))
  qed
qed

lemma bb_from_tokens:
  assumes "bb_from_tokens_merges_and_emit_mask tokens merges emit = Ok t"
  shows "bb_valid t (length tokens)"
    "bb_byte_to_token t b \<noteq> None \<longleftrightarrow>
      (\<exists>i < length tokens. token_piece_bytes (tokens ! i) = [b] \<and> token_is_emittable emit i)"
proof -
  obtain v rk where v: "rfold (bb_vocab_step emit) (enumerate 0 tokens)
      \<lparr>v_byte_to_token = Map.empty, v_token_to_bytes = Map.empty, v_bytes_to_token = Map.empty\<rparr> = Ok v"
    and rk: "rfold (bb_merge_step emit (v_bytes_to_token v)) (enumerate 0 merges) Map.empty = Ok rk"
    and t: "t = \<lparr>bb_byte_to_token = v_byte_to_token v, bb_token_to_bytes = v_token_to_bytes v, bb_merge_ranks = rk\<rparr>"
    using assms by (auto simp: bb_from_tokens_merges_and_emit_mask_def)
  define P where "P j v \<longleftrightarrow> v_token_to_bytes v = piece_table tokens j \<and>
    (\<forall>b k. v_byte_to_token v b = Some k \<longrightarrow> piece_table tokens j k = Some [b]) \<and>
    (\<forall>bs k. v_bytes_to_token v bs = Some k \<longrightarrow> piece_table tokens j k = Some bs) \<and>
    (\<forall>b. v_byte_to_token v b \<noteq> None \<longleftrightarrow> (\<exists>i < j. token_piece_bytes (tokens ! i) = [b] \<and> token_is_emittable emit i))" for j and v :: bpe_vocab
  have "P (length tokens) v"
  proof (rule rfold_enumerate [OF v])
    show "P 0 \<lparr>v_byte_to_token = Map.empty, v_token_to_bytes = Map.empty, v_bytes_to_token = Map.empty\<rparr>"
      by (auto simp: P_def piece_table_def)
  next
    fix j s s' assume j: "j < length tokens" "P j s" "bb_vocab_step emit (j, tokens ! j) s = Ok s'"
    then obtain k where k: "token_index j = Ok k" by (auto simp: bb_vocab_step_def)
    note tab = piece_table_Suc [OF k, of tokens]
    note new = piece_table_new [OF k, of tokens] and old = piece_table_mono [of tokens j]
    let ?bs = "token_piece_bytes (tokens ! j)" and ?e = "token_is_emittable emit j"
    obtain a c where s: "s = \<lparr>v_byte_to_token = a, v_token_to_bytes = piece_table tokens j, v_bytes_to_token = c\<rparr>"
      using j(2) by (cases s) (simp add: P_def)
    obtain b2t bt where s': "s' = \<lparr>v_byte_to_token = b2t, v_token_to_bytes = piece_table tokens (Suc j), v_bytes_to_token = bt\<rparr>"
      "bt = (if ?e then (v_bytes_to_token s)(?bs \<mapsto> k) else v_bytes_to_token s)"
      "b2t = (if ?e \<and> length ?bs = 1 then (v_byte_to_token s)(hd ?bs \<mapsto> k) else v_byte_to_token s)"
      using j(3) tab unfolding bb_vocab_step_def by (auto simp: k Let_def s split: if_splits list.splits)
    have one: "length ?bs = 1 \<longleftrightarrow> ?bs = [hd ?bs]" by (cases ?bs) auto
    have P1: "\<And>b k. v_byte_to_token s b = Some k \<Longrightarrow> piece_table tokens (Suc j) k = Some [b]"
      "\<And>bs k. v_bytes_to_token s bs = Some k \<Longrightarrow> piece_table tokens (Suc j) k = Some bs"
      "\<And>b. v_byte_to_token s b \<noteq> None \<longleftrightarrow> (\<exists>i < j. token_piece_bytes (tokens ! i) = [b] \<and> token_is_emittable emit i)"
      using j(2) old by (simp_all add: P_def)
    have "b2t b = Some k' \<Longrightarrow> piece_table tokens (Suc j) k' = Some [b]" for b k'
      using P1(1) new one by (auto simp: s'(3) split: if_splits)
    moreover have "bt bs = Some k' \<Longrightarrow> piece_table tokens (Suc j) k' = Some bs" for bs k'
      using P1(2) new by (auto simp: s'(2) split: if_splits)
    moreover have "b2t b \<noteq> None \<longleftrightarrow> (\<exists>i < Suc j. token_piece_bytes (tokens ! i) = [b] \<and> token_is_emittable emit i)" for b
    proof -
      have "b2t b \<noteq> None \<longleftrightarrow> v_byte_to_token s b \<noteq> None \<or> ?bs = [b] \<and> ?e"
        using one by (auto simp: s'(3))
      then show ?thesis using P1(3) [of b] by (auto simp: less_Suc_eq)
    qed
    ultimately show "P (Suc j) s'" by (simp add: P_def s'(1))
  qed
  then have P: "v_token_to_bytes v = piece_table tokens (length tokens)"
    "\<And>b k. v_byte_to_token v b = Some k \<Longrightarrow> v_token_to_bytes v k = Some [b]"
    "\<And>bs k. v_bytes_to_token v bs = Some k \<Longrightarrow> v_token_to_bytes v k = Some bs"
    "\<And>b. v_byte_to_token v b \<noteq> None \<longleftrightarrow>
      (\<exists>i < length tokens. token_piece_bytes (tokens ! i) = [b] \<and> token_is_emittable emit i)"
    by (auto simp: P_def)
  define Q where "Q (j :: nat) rk \<longleftrightarrow> (\<forall>x y r m. rk (x, y) = Some (r :: nat, m) \<longrightarrow> (\<exists>bx cy.
    v_token_to_bytes v x = Some bx \<and> v_token_to_bytes v y = Some cy \<and> v_token_to_bytes v m = Some (bx @ cy)))" for j rk
  have "Q (length merges) rk"
  proof (rule rfold_enumerate [OF rk])
    fix j s s' assume "Q j s" "bb_merge_step emit (v_bytes_to_token v) (j, merges ! j) s = Ok s'"
    then show "Q (Suc j) s'"
      unfolding Q_def using P(3) by (elim merge_step_cases) (auto split: if_splits)
  qed (simp add: Q_def)
  then show "bb_valid t (length tokens)"
    unfolding bb_valid_def t using P(1,2) by (auto simp: Q_def piece_table_def split: if_splits)
  show "bb_byte_to_token t b \<noteq> None \<longleftrightarrow>
      (\<exists>i < length tokens. token_piece_bytes (tokens ! i) = [b] \<and> token_is_emittable emit i)"
    using P(4) by (simp add: t)
qed

definition sp_bounded :: "sentence_piece \<Rightarrow> bool" where
  "sp_bounded t \<longleftrightarrow> (\<forall>p \<in> dom (sp_pieces t). 0 < length p \<and> length p \<le> sp_max_piece_len t)"

lemma sp_from_tokens:
  assumes "sp_from_tokens_scores_and_emit_mask tokens scores emit = Ok t"
  shows "sp_valid t (length tokens)" "sp_bounded t"
proof -
  obtain bf ttb pieces mx where bf: "bf_from_tokens_and_emit_mask tokens emit = Ok bf"
    and l: "rfold (sp_piece_step scores emit) (enumerate 0 tokens) (Map.empty, Map.empty, 1) = Ok (ttb, pieces, mx)"
    and t: "t = \<lparr>sp_byte_fallback = bf, sp_token_to_bytes = ttb, sp_pieces = pieces, sp_max_piece_len = mx\<rparr>"
    using assms by (auto simp: sp_from_tokens_scores_and_emit_mask_def split: option.splits if_splits)
  define P where "P j = (\<lambda>(ttb, pieces, mx :: nat). ttb = piece_table tokens j \<and>
    (\<forall>bs k c. pieces bs = Some (k, c :: f32) \<longrightarrow> piece_table tokens j k = Some bs \<and> 0 < length bs \<and> length bs \<le> mx))" for j
  have "P (length tokens) (ttb, pieces, mx)"
  proof (rule rfold_enumerate [OF l])
    show "P 0 (Map.empty, Map.empty, 1)" by (auto simp: P_def piece_table_def)
  next
    fix j s s' assume j: "j < length tokens" "P j s" "sp_piece_step scores emit (j, tokens ! j) s = Ok s'"
    obtain ttb0 p0 m0 where s: "s = (ttb0, p0, m0)" by (metis prod_cases3)
    with j(3) obtain k where k: "token_index j = Ok k" by (auto simp: sp_piece_step_def)
    let ?bs = "token_piece_bytes (tokens ! j)"
    have t0: "ttb0 = piece_table tokens j" using j(2) by (simp add: P_def s)
    have old: "piece_table tokens (Suc j) k' = Some bs \<and> 0 < length bs \<and> length bs \<le> m0"
      if "p0 bs = Some (k', c)" for bs k' c
      using j(2) that piece_table_mono by (auto simp: P_def s)
    from j(3) have "\<exists>p1 m1. s' = (piece_table tokens (Suc j), p1, m1) \<and> m0 \<le> m1 \<and>
        (p1 = p0 \<or> (\<exists>c. p1 = p0(?bs \<mapsto> (k, c)) \<and> 0 < length ?bs \<and> length ?bs \<le> m1))"
      unfolding sp_piece_step_def s t0
      by (auto simp: k Let_def piece_table_Suc [OF k] split: if_splits option.splits)
    then obtain p1 m1 where s': "s' = (piece_table tokens (Suc j), p1, m1)" "m0 \<le> m1"
      "p1 = p0 \<or> (\<exists>c. p1 = p0(?bs \<mapsto> (k, c)) \<and> 0 < length ?bs \<and> length ?bs \<le> m1)" by blast
    have "piece_table tokens (Suc j) k' = Some bs \<and> 0 < length bs \<and> length bs \<le> m1" if "p1 bs = Some (k', c)" for bs k' c
    proof (cases "p0 bs = Some (k', c)")
      case True
      then show ?thesis using old [OF True] s'(2) by simp
    next
      case False
      then show ?thesis using that s'(3) piece_table_new [OF k, of tokens] by (auto split: if_splits)
    qed
    then show "P (Suc j) s'" unfolding P_def s'(1) by auto
  qed
  then have "ttb = piece_table tokens (length tokens)"
    "\<And>bs k c. pieces bs = Some (k, c) \<Longrightarrow> ttb k = Some bs \<and> 0 < length bs \<and> length bs \<le> mx"
    by (auto simp: P_def)
  then show "sp_valid t (length tokens)" "sp_bounded t" using bf_from_tokens(2) [OF bf]
    by (auto simp: sp_valid_def sp_bounded_def t piece_table_def split: if_splits)
qed

lemma from_gguf_cases:
  assumes "from_gguf g = Ok t" "gguf_tokens g = Ok tokens"
  obtains b merges emit where "t = ByteBpe b" "bb_from_tokens_merges_and_emit_mask tokens merges emit = Ok b"
      "optional_gguf_emit_mask g (length tokens) = Ok emit"
    | s scores emit where "t = SentencePiece s" "sp_from_tokens_scores_and_emit_mask tokens scores emit = Ok s"
    | f emit where "t = ByteFallback f" "bf_from_tokens_and_emit_mask tokens emit = Ok f"
proof -
  obtain emit merges model where o: "optional_gguf_emit_mask g (length tokens) = Ok emit"
    "optional_gguf_merges g = Ok merges" "optional_gguf_model g = Ok model"
    using assms by (auto simp: from_gguf_def)
  show ?thesis
  proof (cases model)
    case None
    then show ?thesis using assms that unfolding from_gguf_def Let_def
      by (simp add: o split: if_splits) blast+
  next
    case (Some m)
    then show ?thesis using assms that unfolding from_gguf_def Let_def
      by (simp add: o split: if_splits) blast+
  qed
qed

lemma from_gguf_valid:
  assumes "from_gguf g = Ok t" "gguf_tokens g = Ok tokens"
  shows "tk_valid t (length tokens)"
  using assms
proof (cases rule: from_gguf_cases)
  case 1
  then show ?thesis using bb_from_tokens(1) by simp
next
  case 2
  then show ?thesis using sp_from_tokens(1) by simp
next
  case 3
  then show ?thesis using bf_from_tokens(1) by simp
qed

section \<open>Properties\<close>

lemma decode_symbol:
  assumes "\<And>k. s = Token k \<Longrightarrow> unat k < n"
  shows "decode_codec_symbol t (case s of Token token \<Rightarrow> unat token | ByteEscape byte \<Rightarrow> n + unat byte) n =
    tk.symbol_bytes t s"
proof (cases s)
  case (Token k)
  then have "unat k < n" using assms by simp
  moreover have "token_index (unat k) = Ok k"
    using unat_less_pow [of k] by (simp add: token_index_Ok)
  ultimately show ?thesis using Token by (simp add: decode_codec_symbol_def tk.symbol_bytes_def)
next
  case (ByteEscape b)
  then show ?thesis using unat_less_pow [of b] by (simp add: decode_codec_symbol_def tk.symbol_bytes_def)
qed

lemma codec_symbols_back:
  assumes "tk_valid t n"
  shows "\<exists>syms parts. codec_symbols t input n = Ok syms \<and>
    traverse (\<lambda>s. decode_codec_symbol t s n) syms = Ok parts \<and> concat parts = input \<and> [] \<notin> set parts \<and>
    (\<forall>s \<in> set syms. s < n + 256)"
proof -
  let ?num = "\<lambda>symbol. case symbol of Token token \<Rightarrow> unat token | ByteEscape byte \<Rightarrow> n + unat byte"
  have "tk.stands_for t n [] (take 0 input)" by (simp add: tk.stands_for_def)
  then obtain syms where s: "codec_symbol_stream t input = Ok syms" "tk.stands_for t n syms input"
    using tk.stream_back [OF assms] by (fastforce simp: codec_symbol_stream_def)
  then obtain parts where p: "traverse (tk.symbol_bytes t) syms = Ok parts" "concat parts = input" "[] \<notin> set parts"
    and small: "\<And>k. Token k \<in> set syms \<Longrightarrow> unat k < n"
    by (auto simp: tk.stands_for_def list_all_iff split: codec_symbol.splits)
  have "traverse (\<lambda>s. decode_codec_symbol t s n) (map ?num syms) = traverse (tk.symbol_bytes t) syms"
    using small
  proof (induction syms)
    case (Cons s syms)
    then show ?case using decode_symbol [of s n t] by simp
  qed simp
  moreover have "?num s < n + 256" if "s \<in> set syms" for s
  proof (cases s)
    case (Token k)
    then show ?thesis using small [of k] that by simp
  next
    case (ByteEscape b)
    then show ?thesis using unat_less_pow [of b] by simp
  qed
  ultimately show ?thesis using s(1) p by (intro exI [of _ "map ?num syms"] exI [of _ parts]) (auto simp: codec_symbols_def)
qed

text \<open>C12: For every model file that yields a tokenizer, whatever its vocabulary, token types, scores
  and merges, every byte string has a symbol stream, and decoding its symbols one by one and
  concatenating the results gives the byte string back; no symbol stands for the empty string, and
  every symbol is a token of the vocabulary or
  one of the 256 byte escapes.\<close>

theorem codec_symbols_round_trip:
  assumes "from_gguf g = Ok t" "gguf_tokens g = Ok tokens"
  shows "\<exists>syms parts. codec_symbols t input (length tokens) = Ok syms \<and>
    traverse (\<lambda>s. decode_codec_symbol t s (length tokens)) syms = Ok parts \<and> concat parts = input \<and>
    [] \<notin> set parts \<and> (\<forall>s \<in> set syms. s < length tokens + 256)"
  using codec_symbols_back [OF from_gguf_valid [OF assms]] .

text \<open>A small vocabulary: two letters, their pair, and one merge rule.\<close>

definition tiny_gguf :: gguf where
  "tiny_gguf = \<lparr>g_version = 3, g_metadata = [
      ascii ''tokenizer.ggml.model'' \<mapsto> MString (ascii ''gpt2''),
      ascii ''tokenizer.ggml.tokens'' \<mapsto> ArrayString [ascii ''a'', ascii ''b'', ascii ''ab''],
      ascii ''tokenizer.ggml.merges'' \<mapsto> ArrayString [ascii ''a b'']],
    g_tensors = [], g_data_offset = 32, g_file_len = 32\<rparr>"

lemma tiny_tokens: "gguf_tokens tiny_gguf = Ok [ascii ''a'', ascii ''b'', ascii ''ab'']"
  by code_simp

lemma tiny_lookups: "optional_gguf_merges tiny_gguf = Ok (Some [ascii ''a b''])"
  "optional_gguf_model tiny_gguf = Ok (Some (ascii ''gpt2''))" "optional_gguf_emit_mask tiny_gguf 3 = Ok None"
  by code_simp+

lemma tiny_pieces: "token_piece_bytes (ascii ''a'') = [97]" "token_piece_bytes (ascii ''b'') = [98]"
  "token_piece_bytes (ascii ''ab'') = [97, 98]"
proof -
  have a: "ascii ''a'' = [97]" "ascii ''b'' = [98]" "ascii ''ab'' = [97, 98]" by code_simp+
  have "utf8_chars [97] = [[97]]" "utf8_chars [98] = [[98]]" "utf8_chars [97, 98] = [[97], [98]]" by code_simp+
  moreover have "canonical_byte_fallback_token [97] = None" "canonical_byte_fallback_token [98] = None"
    "canonical_byte_fallback_token [97, 98] = None" by (simp_all add: canonical_byte_fallback_token_def)
  ultimately show "token_piece_bytes (ascii ''a'') = [97]" "token_piece_bytes (ascii ''b'') = [98]"
    "token_piece_bytes (ascii ''ab'') = [97, 98]"
    unfolding a by (simp_all add: token_piece_bytes_def gpt2_byte_unicode_decode_def gpt2_char_to_byte_def
        utf8_code_def printable_def)
qed

definition tiny_bpe :: byte_bpe where
  "tiny_bpe = \<lparr>bb_byte_to_token = [97 \<mapsto> 0, 98 \<mapsto> 1], bb_token_to_bytes = [0 \<mapsto> [97], 1 \<mapsto> [98], 2 \<mapsto> [97, 98]],
    bb_merge_ranks = [(0, 1) \<mapsto> (0, 2)]\<rparr>"

lemma tiny_tokenizer: "from_gguf tiny_gguf = Ok (ByteBpe tiny_bpe)"
proof -
  have merge: "parse_merge (ascii ''a b'') = Ok (ascii ''a'', ascii ''b'')" by code_simp
  have "bb_from_tokens_merges_and_emit_mask [ascii ''a'', ascii ''b'', ascii ''ab''] [ascii ''a b''] None = Ok tiny_bpe"
    by (simp add: bb_from_tokens_merges_and_emit_mask_def bb_vocab_step_def bb_merge_step_def token_index_def
        token_is_emittable_def tiny_pieces merge tiny_bpe_def Let_def)
  moreover have "length [ascii ''a'', ascii ''b'', ascii ''ab''] = 3" by simp
  ultimately show ?thesis by (simp only: from_gguf_def tiny_tokens tiny_lookups rbind.simps Let_def option.case if_True simp_thms)
qed

theorem codec_symbols_round_trip_witness:
  "\<exists>syms parts. from_gguf tiny_gguf = Ok (ByteBpe tiny_bpe) \<and>
    codec_symbols (ByteBpe tiny_bpe) [97, 98, 99] 3 = Ok syms \<and>
    traverse (\<lambda>s. decode_codec_symbol (ByteBpe tiny_bpe) s 3) syms = Ok parts \<and> concat parts = [97, 98, 99]"
proof -
  have "length [ascii ''a'', ascii ''b'', ascii ''ab''] = 3" by simp
  from codec_symbols_round_trip [OF tiny_tokenizer tiny_tokens, of "[97, 98, 99]", unfolded this]
  show ?thesis using tiny_tokenizer by blast
qed

text \<open>C33: For a byte-level BPE model file, the coverage check \<open>require_complete_byte_coverage_from_gguf\<close>
  accepts exactly when the tokenizer can tokenize every byte string without an escape.\<close>

theorem coverage_means_total:
  assumes "from_gguf g = Ok (ByteBpe t)"
  shows "require_complete_byte_coverage_from_gguf g = Ok () \<longleftrightarrow>
    (\<forall>input. \<exists>ts. tokenize_bytes (ByteBpe t) input = Ok ts)"
proof -
  obtain tokens where tk: "gguf_tokens g = Ok tokens" using assms by (auto simp: from_gguf_def)
  obtain merges emit where b: "bb_from_tokens_merges_and_emit_mask tokens merges emit = Ok t"
    "optional_gguf_emit_mask g (length tokens) = Ok emit"
    using from_gguf_cases [OF assms tk] by (metis tokenizer.distinct(1,5) tokenizer.inject(2))
  have "require_complete_byte_coverage_from_gguf g = Ok () \<longleftrightarrow> (\<forall>b. bb_byte_to_token t b \<noteq> None)"
    using coverage_emittable [of tokens emit] bb_from_tokens(2) [OF b(1)]
    by (simp add: require_complete_byte_coverage_from_gguf_def byte_coverage_from_gguf_def tk b(2))
  moreover have "\<exists>ts. tokenize_bytes (ByteBpe t) input = Ok ts" if "\<forall>b. bb_byte_to_token t b \<noteq> None" for input
    using bb.tokenize_back [OF bb_from_tokens(1) [OF b(1)], of input] that by (auto simp: list_all_iff)
  moreover have "bb_byte_to_token t c \<noteq> None" if "tokenize_bytes (ByteBpe t) [c] = Ok ts" for c ts
    using that by (auto simp: bb_tokenize_bytes_def)
  ultimately show ?thesis by metis
qed

theorem coverage_means_total_witness:
  "require_complete_byte_coverage_from_gguf tiny_gguf \<noteq> Ok () \<and>
    (\<forall>ts. tokenize_bytes (ByteBpe tiny_bpe) [0] \<noteq> Ok ts)"
proof -
  have no: "tokenize_bytes (ByteBpe tiny_bpe) [0] \<noteq> Ok ts" for ts by (simp add: tiny_bpe_def bb_tokenize_bytes_def)
  then show ?thesis using coverage_means_total [OF tiny_tokenizer] by blast
qed

section \<open>Greedy longest match\<close>

text \<open>The reference: the longest piece that is a prefix of the rest, or a byte token.\<close>

definition longest :: "(u8 list \<rightharpoonup> u32 \<times> f32) \<Rightarrow> u8 list \<Rightarrow> nat option" where
  "longest pieces bs =
    (let ls = filter (\<lambda>n. pieces (take n bs) \<noteq> None) [1..<Suc (length bs)] in
     if ls = [] then None else Some (last ls))"

lemma longest_range: "longest pieces bs = Some n \<Longrightarrow> 0 < n \<and> n \<le> length bs \<and> pieces (take n bs) \<noteq> None"
proof -
  assume "longest pieces bs = Some n"
  then have "n \<in> set (filter (\<lambda>n. pieces (take n bs) \<noteq> None) [1..<Suc (length bs)])"
    unfolding longest_def Let_def by (metis last_in_set option.distinct(1) option.inject)
  then show ?thesis by auto
qed

function greedy :: "(u8 list \<rightharpoonup> u32 \<times> f32) \<Rightarrow> (u8 \<rightharpoonup> u32) \<Rightarrow> u8 list \<Rightarrow> (token_error, u32 list) res" where
  "greedy pieces single bs =
    (if bs = [] then Ok []
     else case longest pieces bs of
       Some n \<Rightarrow> rbind (greedy pieces single (drop n bs)) (\<lambda>ts. Ok (fst (the (pieces (take n bs))) # ts))
     | None \<Rightarrow> rbind (ok_or (MissingByteFallback (hd bs)) (single (hd bs))) (\<lambda>k.
         rbind (greedy pieces single (tl bs)) (\<lambda>ts. Ok (k # ts))))"
  by auto
termination
  by (relation "measure (\<lambda>(pieces, single, bs). length bs)") (auto dest: longest_range)

declare greedy.simps [simp del]

text \<open>The scan keeps the last end at which there is a piece.\<close>

lemma scan_last:
  "fold (sp_scan pieces input pos) [pos + 1..<Suc (pos + m)] None =
    (let ls = filter (\<lambda>n. pieces (slice input pos (pos + n)) \<noteq> None) [1..<Suc m] in
     if ls = [] then None
     else case pieces (slice input pos (pos + last ls)) of None \<Rightarrow> None
       | Some (k, c) \<Rightarrow> Some (last ls, k, c))"
proof (induction m)
  case (Suc m)
  define ls where "ls = filter (\<lambda>n. pieces (slice input pos (pos + n)) \<noteq> None) [1..<Suc m]"
  have up: "[pos + 1..<Suc (pos + Suc m)] = [pos + 1..<Suc (pos + m)] @ [pos + Suc m]" "[1..<Suc (Suc m)] = [1..<Suc m] @ [Suc m]"
    by simp_all
  have ls: "last ls \<le> m" "pieces (slice input pos (pos + last ls)) \<noteq> None" if "ls \<noteq> []"
  proof -
    have "set ls \<subseteq> {n. n \<le> m \<and> pieces (slice input pos (pos + n)) \<noteq> None}"
      by (auto simp: ls_def simp del: upt_Suc)
    then show "last ls \<le> m" "pieces (slice input pos (pos + last ls)) \<noteq> None" using last_in_set [OF that] by blast+
  qed
  note IH = Suc [folded ls_def, unfolded Let_def]
  show ?case
  proof (cases "pieces (slice input pos (pos + Suc m))")
    case None
    then show ?thesis unfolding up filter_append ls_def [symmetric] fold_append comp_apply IH
      by (simp add: sp_scan_def Let_def)
  next
    case (Some kc)
    then show ?thesis unfolding up filter_append ls_def [symmetric] fold_append comp_apply IH
      using ls by (cases kc; cases "ls = []") (auto simp: sp_scan_def Let_def sp_better_def split: option.splits)
  qed
qed simp

lemma upt_split: "m \<le> n \<Longrightarrow> [1..<Suc n] = [1..<Suc m] @ [Suc m..<Suc n]"
  using upt_add_eq_append [of 1 "Suc m" "n - m"] by (simp del: upt_Suc)

lemma sp_best_longest:
  assumes b: "sp_bounded t" and pos: "pos < length input"
  shows "sp_best t input pos = (case longest (sp_pieces t) (drop pos input) of None \<Rightarrow> None
    | Some n \<Rightarrow> (case sp_pieces t (take n (drop pos input)) of None \<Rightarrow> None | Some (k, c) \<Rightarrow> Some (n, k, c)))"
proof -
  let ?n = "length input - pos" and ?m = "min (length input - pos) (sp_max_piece_len t)"
  have m: "min (length input) (pos + sp_max_piece_len t) = pos + ?m" using pos by auto
  have none: "sp_pieces t (take n (drop pos input)) = None" if "n > ?m" "n \<le> ?n" for n
  proof (rule ccontr)
    assume "sp_pieces t (take n (drop pos input)) \<noteq> None"
    then have "length (take n (drop pos input)) \<le> sp_max_piece_len t" using b unfolding sp_bounded_def by blast
    then show False using that by simp
  qed
  have "[1..<Suc ?n] = [1..<Suc ?m] @ [Suc ?m..<Suc ?n]"
    by (rule upt_split) simp
  then have "filter (\<lambda>n. sp_pieces t (take n (drop pos input)) \<noteq> None) [1..<Suc ?n] =
      filter (\<lambda>n. sp_pieces t (take n (drop pos input)) \<noteq> None) [1..<Suc ?m]"
    using none by (auto simp: filter_empty_conv simp del: upt_Suc)
  then show ?thesis
    unfolding sp_best_def m using scan_last [of "sp_pieces t" input pos ?m]
    by (simp add: longest_def slice_def Let_def)
qed

lemma sp_loop_greedy:
  "sp_bounded t \<Longrightarrow> sp_loop t input pos out =
    rbind (greedy (sp_pieces t) (bf_byte_to_token (sp_byte_fallback t)) (drop pos input)) (\<lambda>ts. Ok (out @ ts))"
proof (induction t input pos out rule: sp_loop.induct)
  case (1 t input pos out)
  show ?case
  proof (cases "pos < length input")
    case False
    then show ?thesis by (subst sp_loop.simps, subst greedy.simps) simp
  next
    case True
    then have ne: "drop pos input \<noteq> []" "hd (drop pos input) = input ! pos" "tl (drop pos input) = drop (pos + 1) input"
      by (simp_all add: hd_drop_conv_nth tl_drop drop_Suc)
    show ?thesis
    proof (cases "longest (sp_pieces t) (drop pos input)")
      case None
      then have best: "sp_best t input pos = None" using sp_best_longest [OF 1(3) True] by simp
      show ?thesis
        using 1(1) [OF True best _ 1(3)] True None best ne
        by (subst sp_loop.simps, subst greedy.simps)
          (cases "bf_byte_to_token (sp_byte_fallback t) (input ! pos)"; simp add: rbind_assoc)
    next
      case (Some n)
      then obtain k c where kc: "sp_pieces t (take n (drop pos input)) = Some (k, c)"
        using longest_range [OF Some] by auto
      then have best: "sp_best t input pos = Some (n, k, c)" using sp_best_longest [OF 1(3) True] Some by simp
      show ?thesis
        using 1(2) [OF True best refl refl 1(3)] True Some best ne kc
        by (subst sp_loop.simps, subst greedy.simps) (simp add: rbind_assoc add.commute)
    qed
  qed
qed

text \<open>C32: On every input and for every accepted vocabulary, the SentencePiece tokenizer, which scans
  all ends up to the longest piece and compares lengths, scores and ids, returns what greedy longest
  match over the pieces gives, with the byte tokens as fallback and the same error.\<close>

theorem sentence_piece_greedy:
  assumes "sp_from_tokens_scores_and_emit_mask tokens scores emit = Ok t"
  shows "sp_tokenize_bytes t input = greedy (sp_pieces t) (bf_byte_to_token (sp_byte_fallback t)) input"
  using sp_loop_greedy [OF sp_from_tokens(2) [OF assms]] by (simp add: sp_tokenize_bytes_def)

text \<open>A vocabulary of the 256 byte tokens.\<close>

definition byte_name :: "u8 \<Rightarrow> str" where "byte_name b = [0x3C, 0x30, 0x78] @ hex2 b @ [0x3E]"

definition byte_vocab :: "str list" where "byte_vocab = map byte_name all_bytes"

lemma hex_digit_char: "n < 16 \<Longrightarrow> hex_digit (hex_char n) = Some (word_of_nat n) \<and> hex_char n \<noteq> 0x2B"
proof -
  have "list_all (\<lambda>n. hex_digit (hex_char n) = Some (word_of_nat n) \<and> hex_char n \<noteq> 0x2B)
      [0, 1, 2, 3, 4, 5, 6, 7, 8, 9, 10, 11, 12, 13, 14, 15]"
    by (simp add: hex_digit_def hex_char_def)
  moreover assume "n < 16"
  then have "n \<in> set [0..<16]" by simp
  then have "n \<in> set [0, 1, 2, 3, 4, 5, 6, 7, 8, 9, 10, 11, 12, 13, 14, 15]"
    by (simp add: eval_nat_numeral upt_rec del: set_upt)
  ultimately show ?thesis unfolding list_all_iff by blast
qed

lemma canonical_byte_name: "canonical_byte_fallback_token (byte_name b) = Some b"
proof -
  have d: "unat b div 16 < 16" "unat b mod 16 < 16" using unat_less_pow [of b] by simp_all
  have "(16 :: u8) * word_of_nat (unat b div 16) + word_of_nat (unat b mod 16) = word_of_nat (16 * (unat b div 16) + unat b mod 16)"
    by (simp only: of_nat_add of_nat_mult of_nat_numeral)
  also have "16 * (unat b div 16) + unat b mod 16 = unat b" by simp
  finally have "(16 :: u8) * word_of_nat (unat b div 16) + word_of_nat (unat b mod 16) = b" by simp
  then have "from_hex2 (hex_char (unat b div 16)) (hex_char (unat b mod 16)) = Some b"
    using hex_digit_char [OF d(1)] hex_digit_char [OF d(2)] by (simp add: from_hex2_def)
  then show ?thesis
    by (simp add: canonical_byte_fallback_token_def byte_name_def hex2_def strip_suffix_def)
qed

lemma byte_vocab_nth: "i < 256 \<Longrightarrow> byte_vocab ! i = byte_name (word_of_nat i)" "length byte_vocab = 256"
  by (simp_all add: byte_vocab_def all_bytes_def del: upt_conv_Cons)

lemma take_enumerate: "j < length xs \<Longrightarrow> enumerate 0 (take (Suc j) xs) = enumerate 0 (take j xs) @ [(j, xs ! j)]"
  by (simp add: take_Suc_conv_app_nth enumerate_append_eq)

lemma byte_vocab_pairs: "j \<le> 256 \<Longrightarrow> rfold bf_pair_step (enumerate 0 (take j byte_vocab)) [] =
    Ok (map (\<lambda>i. (word_of_nat i, word_of_nat i)) [0..<j])"
proof (induction j)
  case (Suc j)
  have new: "\<not> list_ex (\<lambda>(e, _). e = (word_of_nat j :: u8)) (map (\<lambda>i. (word_of_nat i, word_of_nat i :: u32)) [0..<j])"
    using Suc.prems by (auto simp: list_ex_iff word_unat_eq_iff unsigned_of_nat take_bit_nat_eq_self)
  have "bf_pair_step (j, byte_vocab ! j) (map (\<lambda>i. (word_of_nat i, word_of_nat i)) [0..<j]) =
      Ok (map (\<lambda>i. (word_of_nat i, word_of_nat i)) [0..<Suc j])"
    using Suc.prems new by (simp add: bf_pair_step_def byte_vocab_nth canonical_byte_name token_index_def)
  then show ?case using Suc by (simp add: take_enumerate byte_vocab_nth rfold_append del: upt_Suc)
qed simp

lemma byte_vocab_insert: "j \<le> 256 \<Longrightarrow> \<exists>s. rfold (bf_insert 256 None) (map (\<lambda>i. (word_of_nat i, word_of_nat i)) [0..<j])
    \<lparr>bf_byte_to_token = Map.empty, bf_token_to_byte = Map.empty\<rparr> = Ok s \<and>
    (\<forall>k. bf_token_to_byte s k \<noteq> None \<longrightarrow> unat k < j)"
proof (induction j)
  case (Suc j)
  then obtain s where s: "rfold (bf_insert 256 None) (map (\<lambda>i. (word_of_nat i, word_of_nat i)) [0..<j])
    \<lparr>bf_byte_to_token = Map.empty, bf_token_to_byte = Map.empty\<rparr> = Ok s" "\<forall>k. bf_token_to_byte s k \<noteq> None \<longrightarrow> unat k < j"
    by auto
  have j: "unat (word_of_nat j :: u32) = j" using Suc.prems by (simp add: unsigned_of_nat take_bit_nat_eq_self)
  then have "bf_token_to_byte s (word_of_nat j) = None" using s(2) by fastforce
  then show ?case using Suc.prems s j by (auto simp: rfold_append bf_insert_def token_is_emittable_def)
qed simp

lemma byte_vocab_accepted: "\<exists>t. bf_from_tokens_and_emit_mask byte_vocab None = Ok t"
proof -
  have pairs: "rfold bf_pair_step (enumerate 0 byte_vocab) [] = Ok (map (\<lambda>i. (word_of_nat i, word_of_nat i)) [0..<256])"
    using byte_vocab_pairs [of 256] byte_vocab_nth(2) by simp
  have "missing_byte_pairs (map (\<lambda>i. (word_of_nat i, word_of_nat i :: u32)) [0..<256]) = []"
    using all_bytes_UNIV unfolding missing_byte_pairs_empty all_bytes_def by (auto simp: image_image simp del: upt_conv_Cons)
  then show ?thesis using byte_vocab_insert [of 256]
    by (auto simp: bf_from_tokens_and_emit_mask_def bf_from_pairs_and_emit_mask_def pairs byte_vocab_nth(2) Let_def)
qed

theorem sentence_piece_greedy_witness: "\<exists>t. sp_from_tokens_scores_and_emit_mask byte_vocab None None = Ok t \<and>
    sp_tokenize_bytes t [5, 200] = greedy (sp_pieces t) (bf_byte_to_token (sp_byte_fallback t)) [5, 200]"
proof -
  obtain f where f: "bf_from_tokens_and_emit_mask byte_vocab None = Ok f" using byte_vocab_accepted by blast
  have "\<exists>s. rfold (sp_piece_step None None) (enumerate 0 (take j byte_vocab)) (Map.empty, Map.empty, 1) = Ok s" if "j \<le> 256" for j
    using that
  proof (induction j)
    case (Suc j)
    then obtain ttb pieces mx where s: "rfold (sp_piece_step None None) (enumerate 0 (take j byte_vocab)) (Map.empty, Map.empty, 1) = Ok (ttb, pieces, mx)"
      by (auto simp: Suc_le_eq)
    have "\<exists>s. sp_piece_step None None (j, byte_vocab ! j) (ttb, pieces, mx) = Ok s"
      using Suc.prems by (simp add: sp_piece_step_def token_index_def Let_def)
    then show ?case using Suc.prems s by (auto simp: take_enumerate byte_vocab_nth rfold_append)
  qed simp
  from this [of 256] obtain ttb pieces mx where "rfold (sp_piece_step None None) (enumerate 0 byte_vocab) (Map.empty, Map.empty, 1) = Ok (ttb, pieces, mx)"
    using byte_vocab_nth(2) by auto
  then obtain t where "sp_from_tokens_scores_and_emit_mask byte_vocab None None = Ok t"
    by (simp add: sp_from_tokens_scores_and_emit_mask_def f)
  then show ?thesis using sentence_piece_greedy by blast
qed

end
