(* ===== verification/Quant.thy ===== *)
theory Quant
  imports Det_Num
begin

text \<open>
  Quantised blocks and their dot products, \<open>src/crates/det-quant/src/lib.rs\<close> (the portable
  code; \<open>Quant_Simd\<close> adds the SIMD variants and shows that they agree with it). An \<open>i8\<close> is a byte read with
  \<open>sint\<close>; \<open>i32\<close> arithmetic is checked, so that an overflow would be a panic. The lemmas show
  that no accumulation overflows and give the integer sums in closed form.
\<close>

section \<open>Types\<close>

definition BLOCK :: nat where "BLOCK = 32"
definition Q4K_BLOCK :: nat where "Q4K_BLOCK = 256"
definition Q6K_BLOCK :: nat where "Q6K_BLOCK = 256"

datatype quant_error =
    LengthMismatch | InvalidBlockLength | NonFiniteInput | NonFiniteScale | NonFiniteOutput

record q8a_block =
  qa_d :: f32
  qa_q :: "i8 list"

record q8k_block =
  qk_d :: f32
  qk_q :: "i8 list"
  qk_bsums :: "i16 list"

record q8_0_block =
  q8_d :: f32
  q8_q :: "i8 list"

record q4_0_block =
  q4_d :: f32
  q4_qs :: "u8 list"

record q4k_block =
  k4_d :: f32
  k4_dmin :: f32
  k4_scales :: "u8 list"
  k4_qs :: "u8 list"

record q6k_block =
  k6_d :: f32
  k6_ql :: "u8 list"
  k6_qh :: "u8 list"
  k6_scales :: "i8 list"

text \<open>The array lengths, which the types of the code carry.\<close>

definition q8a_ok :: "q8a_block \<Rightarrow> bool" where "q8a_ok a \<longleftrightarrow> length (qa_q a) = 32"
definition q8k_ok :: "q8k_block \<Rightarrow> bool" where
  "q8k_ok a \<longleftrightarrow> length (qk_q a) = 256 \<and> length (qk_bsums a) = 16"
definition q8_0_ok :: "q8_0_block \<Rightarrow> bool" where "q8_0_ok w \<longleftrightarrow> length (q8_q w) = 32"
definition q4_0_ok :: "q4_0_block \<Rightarrow> bool" where "q4_0_ok w \<longleftrightarrow> length (q4_qs w) = 16"
definition q4k_ok :: "q4k_block \<Rightarrow> bool" where
  "q4k_ok w \<longleftrightarrow> length (k4_scales w) = 12 \<and> length (k4_qs w) = 128"
definition q6k_ok :: "q6k_block \<Rightarrow> bool" where
  "q6k_ok w \<longleftrightarrow> length (k6_ql w) = 128 \<and> length (k6_qh w) = 64 \<and> length (k6_scales w) = 16"

text \<open>Checked arithmetic of \<open>i32\<close>.\<close>

definition i32_range :: "int \<Rightarrow> bool" where "i32_range v \<longleftrightarrow> - (2 ^ 31) \<le> v \<and> v < 2 ^ 31"

definition i32_add :: "int \<Rightarrow> int \<Rightarrow> ('e, int) res" where
  "i32_add a b = (if i32_range (a + b) then Ok (a + b) else Panic)"
definition i32_mul :: "int \<Rightarrow> int \<Rightarrow> ('e, int) res" where
  "i32_mul a b = (if i32_range (a * b) then Ok (a * b) else Panic)"

section \<open>Quantising activations\<close>

function chunks_exact :: "nat \<Rightarrow> 'a list \<Rightarrow> 'a list list" where
  "chunks_exact n xs = (if n = 0 \<or> length xs < n then [] else take n xs # chunks_exact n (drop n xs))"
  by auto
termination
  by (relation "measure (\<lambda>(n, xs). length xs)") auto

declare chunks_exact.simps [simp del]

definition round_half_away_from_zero_i32 :: "f32 \<Rightarrow> int" where
  "round_half_away_from_zero_i32 x =
    (if f32_lt x 0 then f32_to_i32 (f32_sub x (f32_lit 1 2)) else f32_to_i32 (f32_add x (f32_lit 1 2)))"

definition nearest_i32_ggml :: "f32 \<Rightarrow> int" where
  "nearest_i32_ggml x =
    (let val = f32_add x (f32_of_int 12582912) in sint (val AND 0x007fffff) - 0x00400000)"

definition f32_abs_branch :: "f32 \<Rightarrow> f32" where
  "f32_abs_branch x = (if f32_lt x 0 then f32_neg x else x)"

text \<open>The scan for the largest magnitude; the second component is the value that has it.\<close>

definition amax_step :: "f32 \<Rightarrow> f32 \<times> f32 \<Rightarrow> (quant_error, f32 \<times> f32) res" where
  "amax_step x = (\<lambda>(amax, mx).
    if \<not> f32_is_finite x then Err NonFiniteInput
    else if f32_lt amax (f32_abs_branch x) then Ok (f32_abs_branch x, x) else Ok (amax, mx))"

definition try_quantize_q8a_block :: "f32 list \<Rightarrow> (quant_error, q8a_block) res" where
  "try_quantize_q8a_block input =
    (if length input \<noteq> BLOCK then Err InvalidBlockLength
     else rbind (rfold amax_step input (0, 0)) (\<lambda>(amax, _).
       if f32_eq amax 0 then Ok \<lparr>qa_d = 0, qa_q = replicate BLOCK 0\<rparr>
       else
         (let d = f32_div amax (f32_of_int 127) in
          Ok \<lparr>qa_d = d,
              qa_q = map (\<lambda>x. word_of_int (max (- 127) (min 127 (round_half_away_from_zero_i32 (f32_div x d))))) input\<rparr>)))"

definition quantize_q8a_into :: "f32 list \<Rightarrow> (quant_error, q8a_block list) res" where
  "quantize_q8a_into input =
    (if input = [] \<or> length input mod BLOCK \<noteq> 0 then Err InvalidBlockLength
     else traverse try_quantize_q8a_block (chunks_exact BLOCK input))"

definition quantize_q8a :: "f32 list \<Rightarrow> (quant_error, q8a_block list) res" where
  "quantize_q8a input = quantize_q8a_into input"

definition quantize_q8a_block :: "f32 list \<Rightarrow> (quant_error, q8a_block) res" where
  "quantize_q8a_block input = (case try_quantize_q8a_block input of Ok b \<Rightarrow> Ok b | _ \<Rightarrow> Panic)"

definition sum_i16 :: "i16 list \<Rightarrow> (quant_error, i16) res" where
  "sum_i16 vs = rfold (\<lambda>v acc.
    if - (2 ^ 15) \<le> sint acc + sint v \<and> sint acc + sint v < 2 ^ 15 then Ok (acc + v) else Panic) vs 0"

definition try_quantize_q8k_block :: "f32 list \<Rightarrow> (quant_error, q8k_block) res" where
  "try_quantize_q8k_block input =
    (if length input \<noteq> Q6K_BLOCK then Err InvalidBlockLength
     else rbind (rfold amax_step input (0, 0)) (\<lambda>(amax, mx).
       if f32_eq amax 0 then Ok \<lparr>qk_d = 0, qk_q = replicate Q6K_BLOCK 0, qk_bsums = replicate 16 0\<rparr>
       else
         (let iscale = f32_div (f32_of_int (- 127)) mx;
              q = map (\<lambda>x. word_of_int (min 127 (nearest_i32_ggml (f32_mul iscale x))) :: i8) input
          in rbind (traverse (\<lambda>chunk. sum_i16 (map scast chunk)) (chunks_exact 16 q)) (\<lambda>bsums.
             Ok \<lparr>qk_d = f32_div (f32_of_int 1) iscale, qk_q = q, qk_bsums = bsums\<rparr>))))"

definition quantize_q8k_into :: "f32 list \<Rightarrow> (quant_error, q8k_block list) res" where
  "quantize_q8k_into input =
    (if input = [] \<or> length input mod Q6K_BLOCK \<noteq> 0 then Err InvalidBlockLength
     else traverse try_quantize_q8k_block (chunks_exact Q6K_BLOCK input))"

definition quantize_q8k :: "f32 list \<Rightarrow> (quant_error, q8k_block list) res" where
  "quantize_q8k input = quantize_q8k_into input"

definition quantize_q8k_block :: "f32 list \<Rightarrow> (quant_error, q8k_block) res" where
  "quantize_q8k_block input = (case try_quantize_q8k_block input of Ok b \<Rightarrow> Ok b | _ \<Rightarrow> Panic)"

section \<open>Weight blocks\<close>

definition f16_scale :: "u16 \<Rightarrow> (quant_error, f32) res" where
  "f16_scale bits = (case f16_to_f32 bits of Some d \<Rightarrow> Ok d | None \<Rightarrow> Diverge)"

definition q8_0_block_from_gguf :: "u16 \<Rightarrow> i8 list \<Rightarrow> (quant_error, q8_0_block) res" where
  "q8_0_block_from_gguf scale_f16 q = rbind (f16_scale scale_f16) (\<lambda>d.
    if \<not> f32_is_finite d then Err NonFiniteScale else Ok \<lparr>q8_d = d, q8_q = q\<rparr>)"

definition q4_0_block_from_gguf :: "u16 \<Rightarrow> u8 list \<Rightarrow> (quant_error, q4_0_block) res" where
  "q4_0_block_from_gguf scale_f16 qs = rbind (f16_scale scale_f16) (\<lambda>d.
    if \<not> f32_is_finite d then Err NonFiniteScale else Ok \<lparr>q4_d = d, q4_qs = qs\<rparr>)"

definition q4_k_block_from_gguf :: "u16 \<Rightarrow> u16 \<Rightarrow> u8 list \<Rightarrow> u8 list \<Rightarrow> (quant_error, q4k_block) res" where
  "q4_k_block_from_gguf scale_f16 min_f16 scales qs =
    rbind (f16_scale scale_f16) (\<lambda>d. rbind (f16_scale min_f16) (\<lambda>dmin.
    if \<not> f32_is_finite d \<or> \<not> f32_is_finite dmin then Err NonFiniteScale
    else Ok \<lparr>k4_d = d, k4_dmin = dmin, k4_scales = scales, k4_qs = qs\<rparr>))"

definition q6_k_block_from_gguf :: "u16 \<Rightarrow> u8 list \<Rightarrow> u8 list \<Rightarrow> i8 list \<Rightarrow> (quant_error, q6k_block) res" where
  "q6_k_block_from_gguf scale_f16 ql qh scales = rbind (f16_scale scale_f16) (\<lambda>d.
    if \<not> f32_is_finite d then Err NonFiniteScale
    else Ok \<lparr>k6_d = d, k6_ql = ql, k6_qh = qh, k6_scales = scales\<rparr>)"

section \<open>Values of the K-quants\<close>

definition q4_k_scale_min :: "u8 list \<Rightarrow> nat \<Rightarrow> (quant_error, u8 \<times> u8) res" where
  "q4_k_scale_min scales index =
    (if index < 4 then
       rbind (index_at scales index) (\<lambda>s. rbind (index_at scales (index + 4)) (\<lambda>m. Ok (s AND 0x3f, m AND 0x3f)))
     else
       rbind (index_at scales (index + 4)) (\<lambda>lo.
       rbind (index_at scales (index - 4)) (\<lambda>hs.
       rbind (index_at scales index) (\<lambda>hm.
       Ok ((lo AND 0x0f) OR push_bit 4 (drop_bit 6 hs), drop_bit 4 lo OR push_bit 4 (drop_bit 6 hm))))))"

definition q4_k_value :: "q4k_block \<Rightarrow> nat \<Rightarrow> (quant_error, f32) res" where
  "q4_k_value w index =
    (let subblock = index div 32; pos = index mod 32 in
     rbind (q4_k_scale_min (k4_scales w) subblock) (\<lambda>(scale, mn).
     rbind (index_at (k4_qs w) ((subblock div 2) * 32 + pos)) (\<lambda>b.
     let q = (if subblock mod 2 = 0 then b AND 0x0f else drop_bit 4 b) in
     Ok (f32_sub (f32_mul (f32_mul (k4_d w) (f32_of_int (uint scale))) (f32_of_int (uint q)))
                 (f32_mul (k4_dmin w) (f32_of_int (uint mn)))))))"

definition q6_k_quant :: "q6k_block \<Rightarrow> nat \<Rightarrow> (quant_error, i8) res" where
  "q6_k_quant w index =
    (let half = index div 128; pos = index mod 128; l = pos mod 32; part = pos div 32;
         ql_base = half * 64; qh_base = half * 32
     in rbind
       (if part = 0 then rbind (index_at (k6_ql w) (ql_base + l)) (\<lambda>b. Ok (b AND 0x0f, 0))
        else if part = 1 then rbind (index_at (k6_ql w) (ql_base + l + 32)) (\<lambda>b. Ok (b AND 0x0f, 2))
        else if part = 2 then rbind (index_at (k6_ql w) (ql_base + l)) (\<lambda>b. Ok (drop_bit 4 b, 4))
        else rbind (index_at (k6_ql w) (ql_base + l + 32)) (\<lambda>b. Ok (drop_bit 4 b, 6))) (\<lambda>(ql, shift).
       rbind (index_at (k6_qh w) (qh_base + l)) (\<lambda>h.
       let high = push_bit 4 (drop_bit shift h AND 0x03) in
       if - 128 \<le> sint (ql OR high) - 32 then Ok ((ql OR high) - 32) else Panic)))"

definition q6_k_scale_index :: "nat \<Rightarrow> nat" where
  "q6_k_scale_index index =
    (let half = index div 128; pos = index mod 128; l = pos mod 32; part = pos div 32; sc_base = half * 8
     in if part = 0 then sc_base + l div 16
        else if part = 1 then sc_base + l div 16 + 2
        else if part = 2 then sc_base + l div 16 + 4
        else sc_base + l div 16 + 6)"

definition q6_k_value :: "q6k_block \<Rightarrow> nat \<Rightarrow> (quant_error, f32) res" where
  "q6_k_value w index =
    rbind (index_at (k6_scales w) (q6_k_scale_index index)) (\<lambda>s.
    rbind (q6_k_quant w index) (\<lambda>q.
    Ok (f32_mul (f32_mul (k6_d w) (f32_of_int (sint s))) (f32_of_int (sint q)))))"

section \<open>Dot products\<close>

definition dot_q8_0_q8a_block_scalar :: "q8_0_block \<Rightarrow> q8a_block \<Rightarrow> (quant_error, f32) res" where
  "dot_q8_0_q8a_block_scalar w a =
    rbind (rfold (\<lambda>i isum. rbind (index_at (q8_q w) i) (\<lambda>x. rbind (index_at (qa_q a) i) (\<lambda>y.
      rbind (i32_mul (sint x) (sint y)) (i32_add isum)))) [0..<BLOCK] 0) (\<lambda>isum.
    let scale = f32_mul (q8_d w) (qa_d a) in Ok (f32_mul scale (f32_of_int isum)))"

definition dot_q4_0_q8a_block_scalar :: "q4_0_block \<Rightarrow> q8a_block \<Rightarrow> (quant_error, f32) res" where
  "dot_q4_0_q8a_block_scalar w a =
    rbind (rfold (\<lambda>i isum. rbind (index_at (q4_qs w) i) (\<lambda>packed.
      let lo = uint (packed AND 0x0f) - 8; hi = uint (drop_bit 4 packed) - 8 in
      rbind (index_at (qa_q a) i) (\<lambda>x. rbind (i32_mul lo (sint x)) (\<lambda>p. rbind (i32_add isum p) (\<lambda>isum.
      rbind (index_at (qa_q a) (i + BLOCK div 2)) (\<lambda>y. rbind (i32_mul hi (sint y)) (i32_add isum))))))) [0..<BLOCK div 2] 0) (\<lambda>isum.
    let scale = f32_mul (q4_d w) (qa_d a) in Ok (f32_mul scale (f32_of_int isum)))"

definition ensure_finite_scales :: "f32 \<Rightarrow> f32 \<Rightarrow> (quant_error, unit) res" where
  "ensure_finite_scales weight activation =
    (if \<not> f32_is_finite weight \<or> \<not> f32_is_finite activation then Err NonFiniteScale else Ok ())"

text \<open>\<open>sum += x\<close> with the check that follows every accumulation.\<close>

definition add_finite :: "f32 \<Rightarrow> f32 \<Rightarrow> (quant_error, f32) res" where
  "add_finite tot x = (let s = f32_add tot x in if \<not> f32_is_finite s then Err NonFiniteOutput else Ok s)"

definition check_lengths :: "'a list \<Rightarrow> 'b list \<Rightarrow> (quant_error, unit) res" where
  "check_lengths ws as =
    (if length ws \<noteq> length as then Err LengthMismatch
     else if ws = [] then Err InvalidBlockLength else Ok ())"

definition dot_q8_0_q8a :: "q8_0_block list \<Rightarrow> q8a_block list \<Rightarrow> (quant_error, f32) res" where
  "dot_q8_0_q8a blocks_w blocks_a =
    rbind (check_lengths blocks_w blocks_a) (\<lambda>_.
    rfold (\<lambda>(w, a) tot. rbind (ensure_finite_scales (q8_d w) (qa_d a)) (\<lambda>_.
      rbind (dot_q8_0_q8a_block_scalar w a) (\<lambda>block.
      if \<not> f32_is_finite block then Err NonFiniteOutput else add_finite tot block))) (zip blocks_w blocks_a) 0)"

definition dot_q4_0_q8a :: "q4_0_block list \<Rightarrow> q8a_block list \<Rightarrow> (quant_error, f32) res" where
  "dot_q4_0_q8a blocks_w blocks_a =
    rbind (check_lengths blocks_w blocks_a) (\<lambda>_.
    rfold (\<lambda>(w, a) tot. rbind (ensure_finite_scales (q4_d w) (qa_d a)) (\<lambda>_.
      rbind (dot_q4_0_q8a_block_scalar w a) (\<lambda>block.
      if \<not> f32_is_finite block then Err NonFiniteOutput else add_finite tot block))) (zip blocks_w blocks_a) 0)"

text \<open>The element loop that the two mixed kernels share, over one weight block.\<close>

definition mixed_block :: "(nat \<Rightarrow> (quant_error, f32) res) \<Rightarrow> nat \<Rightarrow> q8a_block list \<Rightarrow> nat \<Rightarrow> f32 \<Rightarrow> (quant_error, f32) res" where
  "mixed_block weight n blocks_a a_start tot =
    rfold (\<lambda>i tot. rbind (index_at blocks_a (a_start + i div BLOCK)) (\<lambda>a.
      if \<not> f32_is_finite (qa_d a) then Err NonFiniteScale
      else rbind (weight i) (\<lambda>weight.
        rbind (index_at (qa_q a) (i mod BLOCK)) (\<lambda>q.
        let activation = f32_mul (qa_d a) (f32_of_int (sint q)); product = f32_mul weight activation in
        if \<not> f32_is_finite product then Err NonFiniteOutput else add_finite tot product)))) [0..<n] tot"

definition check_block_lengths :: "nat \<Rightarrow> 'a list \<Rightarrow> 'b list \<Rightarrow> (quant_error, unit) res" where
  "check_block_lengths n ws as =
    rbind (ok_or InvalidBlockLength (checked_mul_usize (length ws) (n div BLOCK))) (\<lambda>expected.
    if length as \<noteq> expected then Err LengthMismatch
    else if ws = [] then Err InvalidBlockLength else Ok ())"

definition dot_q4_k_q8a :: "q4k_block list \<Rightarrow> q8a_block list \<Rightarrow> (quant_error, f32) res" where
  "dot_q4_k_q8a blocks_w blocks_a =
    rbind (check_block_lengths Q4K_BLOCK blocks_w blocks_a) (\<lambda>_.
    rfold (\<lambda>(block_idx, w) tot.
      if \<not> f32_is_finite (k4_d w) \<or> \<not> f32_is_finite (k4_dmin w) then Err NonFiniteScale
      else mixed_block (q4_k_value w) Q4K_BLOCK blocks_a (block_idx * (Q4K_BLOCK div BLOCK)) tot)
      (enumerate 0 blocks_w) 0)"

definition dot_q6_k_q8a :: "q6k_block list \<Rightarrow> q8a_block list \<Rightarrow> (quant_error, f32) res" where
  "dot_q6_k_q8a blocks_w blocks_a =
    rbind (check_block_lengths Q6K_BLOCK blocks_w blocks_a) (\<lambda>_.
    rfold (\<lambda>(block_idx, w) tot.
      if \<not> f32_is_finite (k6_d w) then Err NonFiniteScale
      else mixed_block (q6_k_value w) Q6K_BLOCK blocks_a (block_idx * (Q6K_BLOCK div BLOCK)) tot)
      (enumerate 0 blocks_w) 0)"

text \<open>The eight integer accumulators of a Q6_K block: 16 scales, two rounds of eight lanes each.\<close>

definition lane_step :: "q6k_block \<Rightarrow> q8k_block \<Rightarrow> int \<Rightarrow> nat \<Rightarrow> nat \<Rightarrow> int list \<Rightarrow> (quant_error, int list) res" where
  "lane_step w a scale offset lane acc =
    rbind (index_at (qk_q a) (offset + lane)) (\<lambda>q.
    rbind (q6_k_quant w (offset + lane)) (\<lambda>v.
    rbind (i32_mul scale (sint q)) (\<lambda>p. rbind (i32_mul p (sint v)) (\<lambda>p.
    rbind (index_at acc lane) (\<lambda>x. rbind (i32_add x p) (\<lambda>s. Ok (acc[lane := s])))))))"

definition scale_rounds :: "q6k_block \<Rightarrow> q8k_block \<Rightarrow> i8 \<Rightarrow> int list \<times> nat \<Rightarrow> (quant_error, int list \<times> nat) res" where
  "scale_rounds w a scale st =
    rfold (\<lambda>_ (acc, offset). rbind (rfold (lane_step w a (sint scale) offset) [0..<8] acc) (\<lambda>acc.
      Ok (acc, offset + 8))) [0 :: nat, 1] st"

definition dot_q6_k_q8k :: "q6k_block list \<Rightarrow> q8k_block list \<Rightarrow> (quant_error, f32) res" where
  "dot_q6_k_q8k blocks_w blocks_a =
    rbind (check_lengths blocks_w blocks_a) (\<lambda>_.
    rbind (rfold (\<lambda>(w, a) lanes.
      if \<not> f32_is_finite (k6_d w) \<or> \<not> f32_is_finite (qk_d a) then Err NonFiniteScale
      else rbind (rfold (scale_rounds w a) (k6_scales w) (replicate 8 0, 0)) (\<lambda>(aux32, _).
        let d = f32_mul (k6_d w) (qk_d a) in
        if \<not> f32_is_finite d then Err NonFiniteOutput
        else rfold (\<lambda>lane lanes. rbind (index_at lanes lane) (\<lambda>s. rbind (index_at aux32 lane) (\<lambda>v.
          rbind (add_finite s (f32_mul d (f32_of_int v))) (\<lambda>s. Ok (lanes[lane := s]))))) [0..<8] lanes))
      (zip blocks_w blocks_a) (replicate 8 0)) (\<lambda>lanes.
    rfold (\<lambda>lane_sum tot. add_finite tot lane_sum) lanes 0))"

section \<open>Loops over a sequence of states\<close>

lemma rfold_states:
  "(\<And>k. k < length xs \<Longrightarrow> f (xs ! k) (g k) = Ok (g (Suc k))) \<Longrightarrow> rfold f xs (g 0) = Ok (g (length xs))"
proof (induction xs arbitrary: g)
  case (Cons x xs)
  have "rfold f xs (g (Suc 0)) = Ok (g (Suc (length xs)))"
    using Cons.IH [of "\<lambda>k. g (Suc k)"] Cons.prems [of "Suc k" for k] by simp
  then show ?case using Cons.prems [of 0] by simp
qed simp

lemma rfold_upt: "(\<And>k. k < n \<Longrightarrow> f k (g k) = Ok (g (Suc k))) \<Longrightarrow> rfold f [0..<n] (g 0) = Ok (g n)"
  using rfold_states [of "[0..<n]" f g] by simp

text \<open>A checked sum of bounded terms does not overflow.\<close>

lemma abs_sum_bound: "(\<And>i. i < n \<Longrightarrow> \<bar>t i\<bar> \<le> B) \<Longrightarrow> \<bar>\<Sum>i < n. t i\<bar> \<le> int n * (B :: int)"
proof (induction n)
  case (Suc n)
  have "\<bar>t n\<bar> \<le> B" "\<bar>\<Sum>i < n. t i\<bar> \<le> int n * B" using Suc by simp_all
  then show ?case by (simp add: algebra_simps)
qed simp

lemma checked_sum:
  assumes "\<And>i s. i < n \<Longrightarrow> f i s = i32_add s (t i)" "\<And>i. i < n \<Longrightarrow> \<bar>t i\<bar> \<le> B" "int n * B < 2 ^ 31" "0 \<le> B"
  shows "rfold f [0..<n] 0 = Ok (\<Sum>i < n. t i)"
proof -
  have "f k (\<Sum>i < k. t i) = Ok (\<Sum>i < Suc k. t i)" if "k < n" for k
  proof -
    have "\<bar>\<Sum>i < Suc k. t i\<bar> \<le> int (Suc k) * B" using assms(2) that by (intro abs_sum_bound) simp
    also have "\<dots> \<le> int n * B" using that assms(4) by (intro mult_right_mono) simp_all
    finally have "\<bar>(\<Sum>i < k. t i) + t k\<bar> < 2 ^ 31" using assms(3) by simp
    then have "i32_range ((\<Sum>i < k. t i) + t k)" by (simp add: i32_range_def abs_less_iff)
    then show ?thesis using assms(1) [OF that] by (simp add: i32_add_def)
  qed
  from rfold_upt [of n f "\<lambda>k. \<Sum>i < k. t i", OF this] show ?thesis by simp
qed

lemma i8_bound: "\<bar>sint (x :: i8)\<bar> \<le> 128"
  using sint_greater_eq [of x] sint_less [of x] by (simp add: abs_le_iff)

lemma i8_prod: "\<bar>sint (x :: i8) * sint (y :: i8)\<bar> \<le> 16384"
proof -
  have "\<bar>sint x\<bar> * \<bar>sint y\<bar> \<le> 128 * 128" by (intro mult_mono i8_bound) simp_all
  then show ?thesis by (simp add: abs_mult)
qed

lemma i32_small: "\<bar>v\<bar> < 2 ^ 31 \<Longrightarrow> i32_range v" by (simp add: i32_range_def abs_less_iff)

section \<open>The block kernels\<close>

definition q8_isum :: "q8_0_block \<Rightarrow> q8a_block \<Rightarrow> int" where
  "q8_isum w a = (\<Sum>i < 32. sint (q8_q w ! i) * sint (qa_q a ! i))"

text \<open>The weights of a Q4_0 block: low nibbles first, then high nibbles, both offset by 8.\<close>

definition q4_weight :: "q4_0_block \<Rightarrow> nat \<Rightarrow> int" where
  "q4_weight w i = (if i < 16 then uint (q4_qs w ! i) mod 16 - 8 else uint (q4_qs w ! (i - 16)) div 16 - 8)"

definition q4_isum :: "q4_0_block \<Rightarrow> q8a_block \<Rightarrow> int" where
  "q4_isum w a = (\<Sum>i < 32. q4_weight w i * sint (qa_q a ! i))"

lemma q8_block:
  assumes "q8_0_ok w" "q8a_ok a"
  shows "dot_q8_0_q8a_block_scalar w a = Ok (f32_mul (f32_mul (q8_d w) (qa_d a)) (f32_of_int (q8_isum w a)))"
    "\<bar>q8_isum w a\<bar> \<le> 2 ^ 19"
proof -
  have "rfold (\<lambda>i isum. rbind (index_at (q8_q w) i) (\<lambda>x. rbind (index_at (qa_q a) i) (\<lambda>y.
      rbind (i32_mul (sint x) (sint y)) (i32_add isum)))) [0..<32] 0 = (Ok (q8_isum w a) :: (quant_error, int) res)"
    unfolding q8_isum_def
  proof (rule checked_sum [where B = 16384])
    fix i s assume "i < (32 :: nat)"
    moreover have "i32_range (sint (q8_q w ! i) * sint (qa_q a ! i))"
      using i8_prod [of "q8_q w ! i" "qa_q a ! i"] by (intro i32_small) simp
    ultimately show "rbind (index_at (q8_q w) i) (\<lambda>x. rbind (index_at (qa_q a) i) (\<lambda>y.
        rbind (i32_mul (sint x) (sint y)) (i32_add s))) = (i32_add s (sint (q8_q w ! i) * sint (qa_q a ! i)) :: (quant_error, int) res)"
      using assms by (simp add: index_at_def q8_0_ok_def q8a_ok_def i32_mul_def)
  qed (simp_all add: i8_prod)
  then show "dot_q8_0_q8a_block_scalar w a = Ok (f32_mul (f32_mul (q8_d w) (qa_d a)) (f32_of_int (q8_isum w a)))"
    by (simp add: dot_q8_0_q8a_block_scalar_def BLOCK_def Let_def)
  show "\<bar>q8_isum w a\<bar> \<le> 2 ^ 19"
    using abs_sum_bound [of 32 "\<lambda>i. sint (q8_q w ! i) * sint (qa_q a ! i)" 16384] i8_prod by (simp add: q8_isum_def)
qed

lemma uint_low: "uint (take_bit n w) = uint (w :: 'a::len word) mod 2 ^ n"
  unfolding unsigned_take_bit_eq by (rule take_bit_eq_mod)

lemma uint_drop: "uint (drop_bit n w) = uint (w :: 'a::len word) div 2 ^ n"
proof -
  have "take_bit LENGTH('a) (uint w) = uint w" by (simp add: take_bit_eq_mod)
  then show ?thesis unfolding unsigned_drop_bit_eq by (simp only: drop_bit_eq_div)
qed

lemma nibbles: "uint (b AND 0x0f :: u8) = uint b mod 16" "uint (drop_bit 4 b :: u8) = uint b div 16"
proof -
  have "b AND mask 4 = take_bit 4 b" by (simp only: take_bit_eq_mask)
  moreover have "mask 4 = (0x0f :: u8)" by (simp add: mask_eq_decr_exp)
  ultimately have "b AND 0x0f = take_bit 4 b" by (simp only:)
  then show "uint (b AND 0x0f :: u8) = uint b mod 16" by (simp add: uint_low)
  show "uint (drop_bit 4 b :: u8) = uint b div 16" by (simp add: uint_drop)
qed

lemma q4_weight_bound: "\<bar>q4_weight w i\<bar> \<le> 8"
proof -
  have "0 \<le> uint b div 16 \<and> uint b div 16 < 16 \<and> 0 \<le> uint b mod 16 \<and> uint b mod 16 < 16" for b :: u8
    using uint_lt2p [of b] uint_ge_0 [of b] by (simp add: pos_imp_zdiv_nonneg_iff)
  from this [of "q4_qs w ! i"] this [of "q4_qs w ! (i - 16)"] show ?thesis by (auto simp: q4_weight_def abs_le_iff)
qed

lemma q4_prod: "\<bar>q4_weight w i * sint (x :: i8)\<bar> \<le> 1024"
proof -
  have "\<bar>q4_weight w i\<bar> * \<bar>sint x\<bar> \<le> 8 * 128" by (intro mult_mono i8_bound q4_weight_bound) simp_all
  then show ?thesis by (simp add: abs_mult)
qed

lemma sum_halves: "(\<Sum>i < 32. f i) = (\<Sum>i < 16. f i + f (i + 16 :: nat) :: int)"
proof -
  have "{..<32 :: nat} = {..<16} \<union> (\<lambda>i. i + 16) ` {..<16}"
  proof (intro equalityI subsetI)
    fix x assume x: "x \<in> {..<32 :: nat}"
    show "x \<in> {..<16} \<union> (\<lambda>i. i + 16) ` {..<16}"
    proof (cases "x < 16")
      case False
      then have "x = (x - 16) + 16" "x - 16 < 16" using x by simp_all
      then show ?thesis by blast
    qed simp
  qed auto
  moreover have "{..<16 :: nat} \<inter> (\<lambda>i. i + 16) ` {..<16} = {}" by auto
  ultimately have "(\<Sum>i < 32. f i) = (\<Sum>i < 16. f i) + (\<Sum>i \<in> (\<lambda>i. i + 16) ` {..<16}. f i)"
    by (simp add: sum.union_disjoint)
  then show ?thesis by (simp add: sum.reindex sum.distrib)
qed

lemma q4_block:
  assumes "q4_0_ok w" "q8a_ok a"
  shows "dot_q4_0_q8a_block_scalar w a = Ok (f32_mul (f32_mul (q4_d w) (qa_d a)) (f32_of_int (q4_isum w a)))"
    "\<bar>q4_isum w a\<bar> \<le> 2 ^ 19"
proof -
  let ?t = "\<lambda>i. q4_weight w i * sint (qa_q a ! i)"
  define f where "f i isum = (rbind (index_at (q4_qs w) i) (\<lambda>packed.
      let lo = uint (packed AND 0x0f) - 8; hi = uint (drop_bit 4 packed) - 8 in
      rbind (index_at (qa_q a) i) (\<lambda>x. rbind (i32_mul lo (sint x)) (\<lambda>p. rbind (i32_add isum p) (\<lambda>isum.
      rbind (index_at (qa_q a) (i + 16)) (\<lambda>y. rbind (i32_mul hi (sint y)) (i32_add isum)))))) :: (quant_error, int) res)" for i isum
  have step: "f k (\<Sum>i < k. ?t i + ?t (i + 16)) = Ok (\<Sum>i < Suc k. ?t i + ?t (i + 16))" if k: "k < 16" for k
  proof -
    have b: "\<bar>?t i\<bar> \<le> 1024" for i by (rule q4_prod)
    have "\<bar>\<Sum>i < n. ?t i + ?t (i + 16)\<bar> \<le> int n * 2048" for n
    proof (rule abs_sum_bound)
      fix i show "\<bar>?t i + ?t (i + 16)\<bar> \<le> 2048" using b [of i] b [of "i + 16"] by linarith
    qed
    from this [of k] this [of "Suc k"] b [of k] k
    have "i32_range ((\<Sum>i < k. ?t i + ?t (i + 16)) + ?t k)" "i32_range ((\<Sum>i < k. ?t i + ?t (i + 16)) + ?t k + ?t (k + 16))"
      by (auto simp: i32_range_def)
    moreover have "i32_range (?t k)" "i32_range (?t (k + 16))" using b [of k] b [of "k + 16"] by (auto simp: i32_range_def)
    moreover have "q4_weight w k = uint (q4_qs w ! k) mod 16 - 8" "q4_weight w (k + 16) = uint (q4_qs w ! k) div 16 - 8"
      using k by (simp_all add: q4_weight_def)
    ultimately show ?thesis using assms k
      by (simp add: f_def index_at_def q4_0_ok_def q8a_ok_def i32_mul_def i32_add_def nibbles Let_def add.assoc)
  qed
  have "rfold f [0..<16] 0 = Ok (\<Sum>i < 16. ?t i + ?t (i + 16))"
    using rfold_upt [of 16 f "\<lambda>k. \<Sum>i < k. ?t i + ?t (i + 16)", OF step] by simp
  then have "rfold f [0..<16] 0 = Ok (q4_isum w a)" by (simp only: q4_isum_def sum_halves)
  then show "dot_q4_0_q8a_block_scalar w a = Ok (f32_mul (f32_mul (q4_d w) (qa_d a)) (f32_of_int (q4_isum w a)))"
    by (simp add: dot_q4_0_q8a_block_scalar_def BLOCK_def f_def [abs_def] Let_def)
  show "\<bar>q4_isum w a\<bar> \<le> 2 ^ 19"
    using abs_sum_bound [of 32 ?t 1024] q4_prod by (simp add: q4_isum_def)
qed

text \<open>C30: For every pair of blocks, whatever the bytes, the 32-bit accumulators of the Q8_0 and the
  Q4_0 kernel do not overflow; the kernels return the product of the two scales and of the exact
  integer dot product, which the conversion to f32 represents exactly.\<close>

theorem block_kernels_exact:
  assumes "q8_0_ok w" "q4_0_ok v" "q8a_ok a"
  shows "\<exists>s t. dot_q8_0_q8a_block_scalar w a = Ok (f32_mul (f32_mul (q8_d w) (qa_d a)) s) \<and>
      f32_has s (of_int (q8_isum w a)) \<and>
    dot_q4_0_q8a_block_scalar v a = Ok (f32_mul (f32_mul (q4_d v) (qa_d a)) t) \<and>
      f32_has t (of_int (q4_isum v a))"
proof -
  have "f32_has (f32_of_int k) (of_int k)" if "\<bar>k\<bar> \<le> 2 ^ 19" for k
    using f32_of_int_has that by simp
  then show ?thesis using q8_block [OF assms(1,3)] q4_block [OF assms(2,3)] by blast
qed

theorem block_kernels_exact_witness:
  "\<exists>s. dot_q8_0_q8a_block_scalar \<lparr>q8_d = 0x3f800000, q8_q = replicate 32 (- 128)\<rparr> \<lparr>qa_d = 0x3f800000, qa_q = replicate 32 (- 128)\<rparr>
      = Ok (f32_mul (f32_mul 0x3f800000 0x3f800000) s) \<and> f32_has s 524288"
proof -
  have "q8_isum \<lparr>q8_d = 0x3f800000, q8_q = replicate 32 (- 128)\<rparr> \<lparr>qa_d = 0x3f800000, qa_q = replicate 32 (- 128)\<rparr> = 524288"
    by (simp add: q8_isum_def)
  then show ?thesis
    using block_kernels_exact [of "\<lparr>q8_d = 0x3f800000, q8_q = replicate 32 (- 128)\<rparr>" "\<lparr>q4_d = 0, q4_qs = replicate 16 0\<rparr>"
      "\<lparr>qa_d = 0x3f800000, qa_q = replicate 32 (- 128)\<rparr>"]
    by (auto simp: q8_0_ok_def q4_0_ok_def q8a_ok_def)
qed

section \<open>The Q6_K kernel\<close>

text \<open>The 6-bit quant of element \<open>i\<close>: a nibble of \<open>ql\<close> and two bits of \<open>qh\<close>, offset by 32.\<close>

definition q6_nibble :: "q6k_block \<Rightarrow> nat \<Rightarrow> int" where
  "q6_nibble w i =
    (let b = uint (k6_ql w ! (i div 128 * 64 + i mod 64)) in if i mod 128 < 64 then b mod 16 else b div 16)"

definition q6_high :: "q6k_block \<Rightarrow> nat \<Rightarrow> int" where
  "q6_high w i = uint (k6_qh w ! (i div 128 * 32 + i mod 32)) div 4 ^ (i mod 128 div 32) mod 4"

definition q6_ref :: "q6k_block \<Rightarrow> nat \<Rightarrow> int" where
  "q6_ref w i = q6_nibble w i + 16 * q6_high w i - 32"

lemma byte_fields: "0 \<le> uint (b :: u8) mod 16" "uint b mod 16 < 16" "0 \<le> uint b div 16" "uint b div 16 < 16"
  using uint_lt2p [of b] uint_ge_0 [of b] by (simp_all add: pos_imp_zdiv_nonneg_iff)

lemma q6_ref_bound: "- 32 \<le> q6_ref w i" "q6_ref w i \<le> 31"
proof -
  have "0 \<le> q6_nibble w i" "q6_nibble w i < 16"
    using byte_fields by (simp_all add: q6_nibble_def Let_def)
  moreover have "0 \<le> q6_high w i" "q6_high w i < 4" by (simp_all add: q6_high_def)
  ultimately show "- 32 \<le> q6_ref w i" "q6_ref w i \<le> 31" by (simp_all add: q6_ref_def)
qed

lemma high_field: "uint (push_bit 4 (drop_bit s h AND 0x03 :: u8)) = 16 * (uint h div 2 ^ s mod 4)"
proof -
  have "drop_bit s h AND mask 2 = take_bit 2 (drop_bit s h)" by (simp only: take_bit_eq_mask)
  moreover have "mask 2 = (0x03 :: u8)" by (simp add: mask_eq_decr_exp)
  ultimately have "drop_bit s h AND 0x03 = take_bit 2 (drop_bit s h)" by (simp only:)
  then have v: "uint (drop_bit s h AND 0x03) = uint h div 2 ^ s mod 4"
    by (simp only: uint_low uint_drop) simp
  have "uint (push_bit 4 x) = take_bit 8 (push_bit 4 (uint x))" for x :: u8
    by (simp add: unsigned_push_bit_eq)
  then have "uint (push_bit 4 (drop_bit s h AND 0x03)) = (uint h div 2 ^ s mod 4 * 16) mod 256"
    by (simp only: v) (simp add: take_bit_eq_mod push_bit_eq_mult)
  moreover have "0 \<le> uint h div 2 ^ s mod 4" "uint h div 2 ^ s mod 4 < 4" by simp_all
  ultimately show ?thesis by simp
qed

lemma combine_fields:
  assumes "uint (q :: u8) = x" "0 \<le> x" "x < 16" "uint (hi :: u8) = 16 * y" "0 \<le> y" "y < 4"
  shows "sint (q OR hi) = x + 16 * y" "sint ((q OR hi) - 32) = x + 16 * y - 32"
proof -
  have "uint (take_bit 4 q) = uint q" unfolding uint_low using assms by simp
  then have q: "q = take_bit 4 q" by (simp only: word_uint_eq_iff)
  have h: "hi = push_bit 4 (drop_bit 4 hi)"
  proof -
    have "uint (push_bit 4 (drop_bit 4 hi)) = (16 * y div 16 * 16) mod 256"
      unfolding unsigned_push_bit_eq uint_drop assms(4) by (simp add: take_bit_eq_mod push_bit_eq_mult)
    also have "\<dots> = uint hi" using assms by simp
    finally have "uint (push_bit 4 (drop_bit 4 hi)) = uint hi" .
    then show ?thesis by (simp only: word_uint_eq_iff)
  qed
  have "q AND hi = 0" by (subst q, subst h, rule bit_eqI) (auto simp: bit_simps)
  then have "uint (q OR hi) = uint (q + hi)" by (simp add: disjunctive_add_eq_or)
  also have "\<dots> = x + 16 * y" using assms by (simp add: uint_word_ariths)
  finally have u: "uint (q OR hi) = x + 16 * y" .
  then have w: "q OR hi = word_of_int (x + 16 * y)" by (metis word_of_int_uint)
  have "sint (word_of_int k :: i8) = k" if "- 128 \<le> k" "k < 128" for k
    using that by (simp add: signed_of_int signed_take_bit_int_eq_self)
  moreover have "(q OR hi) - 32 = word_of_int (x + 16 * y - 32)" unfolding w by simp
  ultimately show "sint (q OR hi) = x + 16 * y" "sint ((q OR hi) - 32) = x + 16 * y - 32"
    using assms by (simp_all only: w)
qed

lemma q6_index:
  fixes i :: nat
  assumes "i < 256"
  obtains h p l where "i div 128 = h" "i mod 128 = 32 * p + l" "h < 2" "p < 4" "l < 32"
    "i mod 64 = 32 * (p mod 2) + l" "i mod 32 = l"
proof
  let ?p = "i mod 128 div 32" and ?l = "i mod 128 mod 32"
  show "i div 128 = i div 128" "i mod 128 = 32 * ?p + ?l" "i div 128 < 2" "?p < 4" "?l < 32" using assms by simp_all
  show "i mod 32 = ?l" by (simp add: mod_mod_cancel)
  have "i mod 64 = i mod 128 mod 64" by (simp add: mod_mod_cancel)
  also have "\<dots> = (32 * ?p + ?l) mod 64" by simp
  also have "\<dots> = 32 * (?p mod 2) + ?l" by (simp add: mod_mult2_eq [of _ 32 2, simplified])
  finally show "i mod 64 = 32 * (?p mod 2) + ?l" .
qed

lemma q6_quant:
  assumes "q6k_ok w" "i < 256"
  shows "\<exists>q. q6_k_quant w i = Ok q \<and> sint q = q6_ref w i"
proof -
  obtain h p l where i: "i div 128 = h" "i mod 128 = 32 * p + l" "h < 2" "p < 4" "l < 32"
    "i mod 64 = 32 * (p mod 2) + l" "i mod 32 = l" using q6_index [OF assms(2)] by blast
  define hi where "hi = push_bit 4 (drop_bit (2 * p) (k6_qh w ! (h * 32 + l)) AND 0x03)"
  define q where "q = (if p < 2 then k6_ql w ! (h * 64 + (32 * (p mod 2) + l)) AND 0x0f
    else drop_bit 4 (k6_ql w ! (h * 64 + (32 * (p mod 2) + l))))"
  have uh: "uint hi = 16 * q6_high w i"
    unfolding hi_def high_field by (simp add: q6_high_def i power_mult)
  have "32 * p + l < 64 \<longleftrightarrow> p < 2" using i(4,5) by auto
  then have uq: "uint q = q6_nibble w i" by (auto simp: q_def q6_nibble_def i nibbles Let_def)
  have "0 \<le> q6_nibble w i" "q6_nibble w i < 16" using byte_fields by (simp_all add: q6_nibble_def Let_def)
  moreover have "0 \<le> q6_high w i" "q6_high w i < 4" by (simp_all add: q6_high_def)
  ultimately have s: "sint (q OR hi) = q6_nibble w i + 16 * q6_high w i" "sint ((q OR hi) - 32) = q6_ref w i"
    unfolding q6_ref_def using combine_fields [OF uq _ _ uh] by (simp_all only:)
  have "h * 64 + l < 128" "h * 64 + l + 32 < 128" "h * 32 + l < 64" using i by auto
  then have at: "index_at (k6_ql w) (h * 64 + l) = (Ok (k6_ql w ! (h * 64 + l)) :: (quant_error, u8) res)"
    "index_at (k6_ql w) (h * 64 + l + 32) = (Ok (k6_ql w ! (h * 64 + l + 32)) :: (quant_error, u8) res)"
    "index_at (k6_qh w) (h * 32 + l) = (Ok (k6_qh w ! (h * 32 + l)) :: (quant_error, u8) res)"
    using assms(1) by (simp_all add: index_at_def q6k_ok_def)
  have d: "i mod 128 div 32 = p" "i mod 128 mod 32 = l" unfolding i(2) using i(5) by simp_all
  have step: "rbind X (\<lambda>(ql, shift). rbind (index_at (k6_qh w) (h * 32 + l)) (\<lambda>b.
        if - 128 \<le> sint (ql OR push_bit 4 (drop_bit shift b AND 0x03)) - 32
        then Ok ((ql OR push_bit 4 (drop_bit shift b AND 0x03)) - 32) else Panic))
      = (if - 128 \<le> sint (q OR hi) - 32 then Ok ((q OR hi) - 32) else Panic)"
    if "X = (Ok (q, 2 * p) :: (quant_error, u8 \<times> nat) res)" for X
    unfolding that hi_def at by (simp only: rbind.simps prod.case)
  have "q6_k_quant w i = (if - 128 \<le> sint (q OR hi) - 32 then Ok ((q OR hi) - 32) else Panic)"
    unfolding q6_k_quant_def Let_def d i(1)
  proof (rule step)
    have "p = 0 \<or> p = 1 \<or> p = 2 \<or> p = 3" using i(4) by linarith
    then show "(if p = 0 then rbind (index_at (k6_ql w) (h * 64 + l)) (\<lambda>b. Ok (b AND 0x0f, 0))
        else if p = 1 then rbind (index_at (k6_ql w) (h * 64 + l + 32)) (\<lambda>b. Ok (b AND 0x0f, 2))
        else if p = 2 then rbind (index_at (k6_ql w) (h * 64 + l)) (\<lambda>b. Ok (drop_bit 4 b, 4))
        else rbind (index_at (k6_ql w) (h * 64 + l + 32)) (\<lambda>b. Ok (drop_bit 4 b, 6)))
      = (Ok (q, 2 * p) :: (quant_error, u8 \<times> nat) res)"
      by (elim disjE) (simp_all add: at q_def add.commute [of 32 l] flip: add.assoc)
  qed
  then show ?thesis using s q6_ref_bound [of w i] by (auto simp: q6_ref_def)
qed

text \<open>The contribution of element \<open>i\<close>, and lane \<open>l\<close> after the first \<open>n\<close> elements.\<close>

definition q6_term :: "q6k_block \<Rightarrow> q8k_block \<Rightarrow> nat \<Rightarrow> int" where
  "q6_term w a i = sint (k6_scales w ! q6_k_scale_index i) * sint (qk_q a ! i) * q6_ref w i"

definition q6_lane :: "q6k_block \<Rightarrow> q8k_block \<Rightarrow> nat \<Rightarrow> nat \<Rightarrow> int" where
  "q6_lane w a l n = (\<Sum>i < n. if i mod 8 = l then q6_term w a i else 0)"

lemma scale_index_div: "i < 256 \<Longrightarrow> q6_k_scale_index i = i div 16"
proof -
  assume "i < 256"
  then obtain h p l where i: "i div 128 = h" "i mod 128 = 32 * p + l" "p < 4" "l < 32" using q6_index by metis
  have d: "i mod 128 div 32 = p" "i mod 128 mod 32 = l" unfolding i(2) using i(4) by simp_all
  have "i = 16 * (8 * h + 2 * p) + l" using i(1,2) mult_div_mod_eq [of 128 i] by simp
  then have "i div 16 = 8 * h + 2 * p + l div 16" by (simp only: div_mult_self4)
  moreover have "p = 0 \<or> p = 1 \<or> p = 2 \<or> p = 3" using i(3) by linarith
  ultimately show ?thesis unfolding q6_k_scale_index_def Let_def d i(1) by (elim disjE) simp_all
qed

lemma q6_term_bounds:
  shows "\<bar>sint (x :: i8) * sint (y :: i8) * q6_ref w i\<bar> \<le> 524288"
proof -
  have "\<bar>q6_ref w i\<bar> \<le> 32" using q6_ref_bound [of w i] by (simp add: abs_le_iff)
  then have "\<bar>sint x * sint y\<bar> * \<bar>q6_ref w i\<bar> \<le> 16384 * 32" by (intro mult_mono i8_prod) simp_all
  then show ?thesis by (simp add: abs_mult)
qed

lemma q6_lane_bound: "n \<le> 256 \<Longrightarrow> \<bar>q6_lane w a l n\<bar> \<le> 2 ^ 27"
proof -
  assume n: "n \<le> 256"
  have "\<bar>q6_lane w a l n\<bar> \<le> int n * 524288" unfolding q6_lane_def
    by (rule abs_sum_bound) (simp add: q6_term_def q6_term_bounds)
  also have "\<dots> \<le> 256 * 524288" using n by simp
  finally show ?thesis by simp
qed

lemma q6_lane_Suc: "q6_lane w a l (Suc n) = q6_lane w a l n + (if n mod 8 = l then q6_term w a n else 0)"
  by (simp add: q6_lane_def)

lemma lane_step_lanes:
  assumes "q6k_ok w" "q8k_ok a" "off mod 8 = 0" "L < 8" "off + L < 256"
    "scale = sint (k6_scales w ! ((off + L) div 16))"
  shows "lane_step w a scale off L (map (\<lambda>l. q6_lane w a l (off + L)) [0..<8]) =
      Ok (map (\<lambda>l. q6_lane w a l (off + Suc L)) [0..<8])"
proof -
  let ?i = "off + L"
  obtain v where v: "q6_k_quant w ?i = Ok v" "sint v = q6_ref w ?i" using q6_quant assms(1,5) by blast
  have t: "scale * sint (qk_q a ! ?i) * sint v = q6_term w a ?i"
    using assms by (simp add: q6_term_def v scale_index_div)
  have m: "?i mod 8 = L" using assms(3,4) by (simp add: mod_add_eq [symmetric, of off])
  have s: "q6_lane w a L (Suc ?i) = q6_lane w a L ?i + q6_term w a ?i" using m by (simp add: q6_lane_Suc)
  have o: "q6_lane w a k (Suc ?i) = q6_lane w a k ?i" if "k \<noteq> L" for k using m that by (simp add: q6_lane_Suc)
  have "i32_range (scale * sint (qk_q a ! ?i))" using assms(6) i8_prod by (intro i32_small) (simp add: order.strict_trans1 [OF i8_prod])
  moreover have "i32_range (q6_term w a ?i)"
    using q6_term_bounds by (intro i32_small) (simp add: q6_term_def order.strict_trans1 [OF q6_term_bounds])
  moreover have "i32_range (q6_lane w a L ?i + q6_term w a ?i)"
    using q6_lane_bound [of "Suc ?i" w a L] assms(5) unfolding s by (intro i32_small) simp
  moreover have "(map (\<lambda>l. q6_lane w a l ?i) [0..<8])[L := q6_lane w a L (Suc ?i)] = map (\<lambda>l. q6_lane w a l (Suc ?i)) [0..<8]"
    using assms(4) by (intro nth_equalityI) (simp_all add: nth_list_update o del: upt_Suc)
  ultimately show ?thesis using assms(2,4,5) t s
    by (simp add: lane_step_def v index_at_def q8k_ok_def i32_mul_def i32_add_def del: upt_Suc)
qed


abbreviation q6_lanes :: "q6k_block \<Rightarrow> q8k_block \<Rightarrow> nat \<Rightarrow> int list" where
  "q6_lanes w a n \<equiv> map (\<lambda>l. q6_lane w a l n) [0..<8]"

lemma lane_round:
  assumes "q6k_ok w" "q8k_ok a" "off mod 8 = 0" "off + 8 \<le> 256" "\<And>l. l < 8 \<Longrightarrow> (off + l) div 16 = j"
  shows "rfold (lane_step w a (sint (k6_scales w ! j)) off) [0..<8] (q6_lanes w a off) = Ok (q6_lanes w a (off + 8))"
  using rfold_upt [of 8 "lane_step w a (sint (k6_scales w ! j)) off" "\<lambda>l. q6_lanes w a (off + l)"]
    lane_step_lanes [OF assms(1-3)] assms(4,5) by (simp del: upt_Suc)

lemma scale_rounds_lanes:
  assumes "q6k_ok w" "q8k_ok a" "j < 16"
  shows "scale_rounds w a (k6_scales w ! j) (q6_lanes w a (16 * j), 16 * j) = Ok (q6_lanes w a (16 * Suc j), 16 * Suc j)"
proof -
  have "16 * j + 8 \<le> 256" "16 * j + 16 \<le> 256" using assms(3) by simp_all
  then have "rfold (lane_step w a (sint (k6_scales w ! j)) (16 * j)) [0..<8] (q6_lanes w a (16 * j)) = Ok (q6_lanes w a (16 * j + 8))"
    "rfold (lane_step w a (sint (k6_scales w ! j)) (16 * j + 8)) [0..<8] (q6_lanes w a (16 * j + 8)) = Ok (q6_lanes w a (16 * j + 16))"
    using lane_round [OF assms(1,2), of "16 * j" j] lane_round [OF assms(1,2), of "16 * j + 8" j]
    by (simp_all add: add.assoc mod_mult_self4 del: upt_Suc)
  then show ?thesis by (simp add: scale_rounds_def add.commute [of 16] del: upt_Suc)
qed

lemma q6_accumulators:
  assumes "q6k_ok w" "q8k_ok a"
  shows "rfold (scale_rounds w a) (k6_scales w) (replicate 8 0, 0) = Ok (q6_lanes w a 256, 256)"
proof -
  have "q6_lanes w a 0 = replicate 8 0" by (simp add: q6_lane_def map_replicate_const)
  then show ?thesis
    using rfold_states [of "k6_scales w" "scale_rounds w a" "\<lambda>j. (q6_lanes w a (16 * j), 16 * j)"]
      scale_rounds_lanes [OF assms] assms(1) by (simp add: q6k_ok_def del: upt_Suc)
qed

text \<open>C29: On any well-formed pair of blocks the 32-bit accumulators of the Q6_K kernel do not
  overflow and end as the eight exact lane sums; together the lanes hold the full dot product of
  the scaled 6-bit weights, which are the weights that \<open>q6_k_value\<close> decodes one at a time.\<close>

theorem q6_k_lanes_exact:
  assumes "q6k_ok w" "q8k_ok a"
  shows "rfold (scale_rounds w a) (k6_scales w) (replicate 8 0, 0) = Ok (map (\<lambda>l. q6_lane w a l 256) [0..<8], 256) \<and>
    (\<Sum>l < 8. q6_lane w a l 256) = (\<Sum>i < 256. sint (k6_scales w ! (i div 16)) * sint (qk_q a ! i) * q6_ref w i) \<and>
    (\<forall>i < 256. q6_k_value w i =
      Ok (f32_mul (f32_mul (k6_d w) (f32_of_int (sint (k6_scales w ! (i div 16))))) (f32_of_int (q6_ref w i))))"
proof (intro conjI allI impI)
  show "rfold (scale_rounds w a) (k6_scales w) (replicate 8 0, 0) = Ok (map (\<lambda>l. q6_lane w a l 256) [0..<8], 256)"
    by (rule q6_accumulators [OF assms])
  have "(\<Sum>l < 8. q6_lane w a l 256) = (\<Sum>i < 256. \<Sum>l < 8. if i mod 8 = l then q6_term w a i else 0)"
    unfolding q6_lane_def by (rule sum.swap)
  also have "\<dots> = (\<Sum>i < 256. q6_term w a i)" by (intro sum.cong) (simp_all add: sum.delta')
  also have "\<dots> = (\<Sum>i < 256. sint (k6_scales w ! (i div 16)) * sint (qk_q a ! i) * q6_ref w i)"
    by (intro sum.cong) (simp_all add: q6_term_def scale_index_div)
  finally show "(\<Sum>l < 8. q6_lane w a l 256) = (\<Sum>i < 256. sint (k6_scales w ! (i div 16)) * sint (qk_q a ! i) * q6_ref w i)" .
  fix i :: nat assume i: "i < 256"
  then obtain q where "q6_k_quant w i = Ok q" "sint q = q6_ref w i" using q6_quant assms(1) by blast
  moreover have "i div 16 < length (k6_scales w)" using i assms(1) by (simp add: q6k_ok_def)
  ultimately show "q6_k_value w i =
      Ok (f32_mul (f32_mul (k6_d w) (f32_of_int (sint (k6_scales w ! (i div 16))))) (f32_of_int (q6_ref w i)))"
    using i by (simp add: q6_k_value_def scale_index_div index_at_def)
qed

theorem q6_k_lanes_exact_witness:
  "\<exists>lanes. rfold (scale_rounds \<lparr>k6_d = 0x3f800000, k6_ql = replicate 128 0xff, k6_qh = replicate 64 0xff, k6_scales = replicate 16 (- 128)\<rparr>
      \<lparr>qk_d = 0x3f800000, qk_q = replicate 256 (- 128), qk_bsums = replicate 16 0\<rparr>)
    (replicate 16 (- 128)) (replicate 8 0, 0) = Ok (lanes, 256)"
  using q6_k_lanes_exact [of "\<lparr>k6_d = 0x3f800000, k6_ql = replicate 128 0xff, k6_qh = replicate 64 0xff, k6_scales = replicate 16 (- 128)\<rparr>"
    "\<lparr>qk_d = 0x3f800000, qk_q = replicate 256 (- 128), qk_bsums = replicate 16 0\<rparr>"]
  by (simp add: q6k_ok_def q8k_ok_def del: upt_Suc)

section \<open>The 6-bit scales of Q4_K\<close>

text \<open>The packing that \<open>q4_k_scale_min\<close> reads: eight scales and eight minima of six bits in
  twelve bytes.\<close>

definition q4_k_pack :: "u8 list \<Rightarrow> u8 list \<Rightarrow> u8 list" where
  "q4_k_pack sc mn =
    map (\<lambda>j. sc ! j OR push_bit 6 (drop_bit 4 (sc ! (j + 4)))) [0..<4] @
    map (\<lambda>j. mn ! j OR push_bit 6 (drop_bit 4 (mn ! (j + 4)))) [0..<4] @
    map (\<lambda>j. (sc ! (j + 4) AND 0x0f) OR push_bit 4 (mn ! (j + 4))) [0..<4]"

lemma six_bits_low: "uint (x :: u8) < 64 \<Longrightarrow> (x OR push_bit 6 y) AND 0x3f = x"
proof -
  assume "uint x < 64"
  then have "uint (take_bit 6 x) = uint x" unfolding uint_low by simp
  then have x: "take_bit 6 x = x" by (simp only: word_uint_eq_iff)
  have "(x OR push_bit 6 y) AND mask 6 = take_bit 6 x"
    by (rule bit_eqI) (auto simp: bit_simps)
  moreover have "mask 6 = (0x3f :: u8)" by (simp add: mask_eq_decr_exp)
  ultimately show ?thesis by (simp only: x)
qed

lemma six_bits_split:
  assumes "uint (x :: u8) < 64" "uint (y :: u8) < 64" "uint (z :: u8) < 64"
  shows "(((x AND 0x0f) OR push_bit 4 y) AND 0x0f) OR push_bit 4 (drop_bit 6 (z OR push_bit 6 (drop_bit 4 x))) = x"
    "drop_bit 4 ((x AND 0x0f) OR push_bit 4 y) OR push_bit 4 (drop_bit 6 (z OR push_bit 6 (drop_bit 4 y))) = y"
proof -
  have high: "\<not> bit v n" if "uint (v :: u8) < 64" "6 \<le> n" for v n
  proof -
    have "uint (take_bit 6 v) = uint v" unfolding uint_low using that(1) by simp
    then have "take_bit 6 v = v" by (simp only: word_uint_eq_iff)
    then show ?thesis using that(2) by (metis bit_take_bit_iff not_less)
  qed
  have m: "(0x0f :: u8) = mask 4" by (simp add: mask_eq_decr_exp)
  show "(((x AND 0x0f) OR push_bit 4 y) AND 0x0f) OR push_bit 4 (drop_bit 6 (z OR push_bit 6 (drop_bit 4 x))) = x"
    unfolding m
  proof (rule bit_word_eqI)
    fix n assume "n < LENGTH(8)"
    then have n: "n = 0 \<or> n = 1 \<or> n = 2 \<or> n = 3 \<or> n = 4 \<or> n = 5 \<or> n = 6 \<or> n = 7" by simp linarith
    show "bit ((((x AND mask 4) OR push_bit 4 y) AND mask 4) OR push_bit 4 (drop_bit 6 (z OR push_bit 6 (drop_bit 4 x)))) n = bit x n"
      using n by (elim disjE) (simp_all add: bit_simps high [OF assms(1)] high [OF assms(3)])
  qed
  show "drop_bit 4 ((x AND 0x0f) OR push_bit 4 y) OR push_bit 4 (drop_bit 6 (z OR push_bit 6 (drop_bit 4 y))) = y"
    unfolding m
  proof (rule bit_word_eqI)
    fix n assume "n < LENGTH(8)"
    then have n: "n = 0 \<or> n = 1 \<or> n = 2 \<or> n = 3 \<or> n = 4 \<or> n = 5 \<or> n = 6 \<or> n = 7" by simp linarith
    show "bit (drop_bit 4 ((x AND mask 4) OR push_bit 4 y) OR push_bit 4 (drop_bit 6 (z OR push_bit 6 (drop_bit 4 y)))) n = bit y n"
      using n by (elim disjE) (simp_all add: bit_simps high [OF assms(2)] high [OF assms(3)])
  qed
qed

text \<open>Reading back the eight 6-bit scales and minima of a Q4_K block gives the values that were
  packed, in both halves of the layout.\<close>

theorem q4_k_scale_round_trip:
  assumes "length sc = 8" "length mn = 8" "\<forall>x \<in> set sc \<union> set mn. uint x < 64" "j < 8"
  shows "length (q4_k_pack sc mn) = 12 \<and> q4_k_scale_min (q4_k_pack sc mn) j = Ok (sc ! j, mn ! j)"
proof -
  have six: "uint (sc ! i) < 64" "uint (mn ! i) < 64" if "i < 8" for i using assms that by auto
  have len: "length (q4_k_pack sc mn) = 12" by (simp add: q4_k_pack_def)
  have lo: "q4_k_pack sc mn ! k = sc ! k OR push_bit 6 (drop_bit 4 (sc ! (k + 4)))"
    and mid: "q4_k_pack sc mn ! (k + 4) = mn ! k OR push_bit 6 (drop_bit 4 (mn ! (k + 4)))"
    and hi: "q4_k_pack sc mn ! (k + 8) = (sc ! (k + 4) AND 0x0f) OR push_bit 4 (mn ! (k + 4))" if "k < 4" for k
    using that by (simp_all add: q4_k_pack_def nth_append del: upt_Suc)
  show ?thesis
  proof (cases "j < 4")
    case True
    then show ?thesis using len by (simp add: q4_k_scale_min_def index_at_def lo mid six_bits_low six)
  next
    case False
    define k where "k = j - 4"
    have k: "j = k + 4" "k < 4" using False assms(4) by (auto simp: k_def)
    have "index_at (q4_k_pack sc mn) (k + 8) = (Ok (q4_k_pack sc mn ! (k + 8)) :: (quant_error, u8) res)"
      "index_at (q4_k_pack sc mn) (k + 4) = (Ok (q4_k_pack sc mn ! (k + 4)) :: (quant_error, u8) res)"
      "index_at (q4_k_pack sc mn) k = (Ok (q4_k_pack sc mn ! k) :: (quant_error, u8) res)"
      using len k by (simp_all add: index_at_def)
    then have "q4_k_scale_min (q4_k_pack sc mn) j = Ok
      ((q4_k_pack sc mn ! (k + 8) AND 0x0f) OR push_bit 4 (drop_bit 6 (q4_k_pack sc mn ! k)),
       drop_bit 4 (q4_k_pack sc mn ! (k + 8)) OR push_bit 4 (drop_bit 6 (q4_k_pack sc mn ! (k + 4))))"
      by (simp add: q4_k_scale_min_def k(1) add.commute [of 8])
    also have "\<dots> = Ok (sc ! j, mn ! j)"
      unfolding lo [OF k(2)] mid [OF k(2)] hi [OF k(2)] k(1)
      using six k by (simp only: res.inject prod.inject six_bits_split)
    finally show ?thesis using len by simp
  qed
qed

theorem q4_k_scale_round_trip_witness:
  "q4_k_scale_min (q4_k_pack [1, 2, 3, 4, 60, 61, 62, 63] [8, 7, 6, 5, 43, 42, 41, 40]) 7 = Ok (63, 40)"
  using q4_k_scale_round_trip [of "[1, 2, 3, 4, 60, 61, 62, 63]" "[8, 7, 6, 5, 43, 42, 41, 40]" 7] by simp

section \<open>Outcomes of the quantisers\<close>

lemma chunks_exact_shape:
  assumes "0 < n"
  shows "length xs = n * k \<Longrightarrow> chunks_exact n xs = map (\<lambda>i. take n (drop (n * i) xs)) [0..<k]"
proof (induction k arbitrary: xs)
  case 0
  then show ?case using assms by (simp add: chunks_exact.simps [of n "[]"])
next
  case (Suc k)
  have "chunks_exact n (drop n xs) = map (\<lambda>i. take n (drop (n * i) (drop n xs))) [0..<k]"
    using Suc by simp
  then show ?case using Suc.prems assms
    by (simp add: chunks_exact.simps [of n xs] map_upt_Suc add.commute [of _ n] del: upt_Suc)
qed

lemma chunks_exact_props:
  assumes "0 < n" "length xs mod n = 0"
  shows "length (chunks_exact n xs) = length xs div n" "\<forall>c \<in> set (chunks_exact n xs). length c = n"
    "(\<exists>c \<in> set (chunks_exact n xs). \<exists>x \<in> set c. P x) \<longleftrightarrow> (\<exists>x \<in> set xs. P x)"
proof -
  obtain k where k: "length xs = n * k" using assms(2) by (metis mult_div_mod_eq add.right_neutral)
  have c: "chunks_exact n xs = map (\<lambda>i. take n (drop (n * i) xs)) [0..<k]"
    by (rule chunks_exact_shape [OF assms(1) k])
  show "length (chunks_exact n xs) = length xs div n" using k assms(1) by (simp add: c)
  have fits: "n * i + n \<le> length xs" if "i < k" for i
    using that k by (metis Suc_leI mult_Suc_right mult_le_mono2 add.commute)
  then show "\<forall>c \<in> set (chunks_exact n xs). length c = n" by (fastforce simp: c)
  show "(\<exists>c \<in> set (chunks_exact n xs). \<exists>x \<in> set c. P x) \<longleftrightarrow> (\<exists>x \<in> set xs. P x)"
  proof
    assume "\<exists>c \<in> set (chunks_exact n xs). \<exists>x \<in> set c. P x"
    then show "\<exists>x \<in> set xs. P x" by (auto simp: c dest!: in_set_takeD in_set_dropD)
  next
    assume "\<exists>x \<in> set xs. P x"
    then obtain i where i: "i < length xs" "P (xs ! i)" by (auto simp: in_set_conv_nth)
    have "i div n < k" using i(1) k by (simp add: less_mult_imp_div_less mult.commute)
    moreover define d m where "d = i div n" and "m = i mod n"
    then have dm: "d = i div n" "i = n * d + m" "m < n" using assms(1) by simp_all
    then have "m < length (take n (drop (n * d) xs))" "take n (drop (n * d) xs) ! m = xs ! i"
      using i(1) by simp_all
    then have "xs ! i \<in> set (take n (drop (n * (i div n)) xs))" unfolding dm(1) [symmetric] by (metis nth_mem)
    ultimately show "\<exists>c \<in> set (chunks_exact n xs). \<exists>x \<in> set c. P x" using i(2) by (auto simp: c)
  qed
qed

lemma traverse_uniform:
  assumes "\<And>x. x \<in> set xs \<Longrightarrow> if bad x then f x = Err e else \<exists>y. f x = Ok y \<and> P y"
  shows "if \<exists>x \<in> set xs. bad x then traverse f xs = Err e
    else \<exists>ys. traverse f xs = Ok ys \<and> length ys = length xs \<and> (\<forall>y \<in> set ys. P y)"
  using assms
proof (induction xs)
  case (Cons x xs)
  have "if bad x then f x = Err e else \<exists>y. f x = Ok y \<and> P y" using Cons.prems by simp
  moreover have "if \<exists>x \<in> set xs. bad x then traverse f xs = Err e
    else \<exists>ys. traverse f xs = Ok ys \<and> length ys = length xs \<and> (\<forall>y \<in> set ys. P y)"
    using Cons by simp
  ultimately show ?case by (cases "bad x"; cases "\<exists>x \<in> set xs. bad x") auto
qed simp

lemma amax_scan:
  "if \<exists>x \<in> set xs. \<not> f32_is_finite x then rfold amax_step xs s = Err NonFiniteInput
   else \<exists>r. rfold amax_step xs s = Ok r"
proof (induction xs arbitrary: s)
  case (Cons x xs)
  have "amax_step x s = Err NonFiniteInput \<and> \<not> f32_is_finite x \<or> (\<exists>s'. amax_step x s = Ok s' \<and> f32_is_finite x)"
    by (cases s) (simp add: amax_step_def)
  then show ?case
  proof (elim disjE exE conjE)
    fix s' assume "amax_step x s = Ok s'" "f32_is_finite x"
    then show ?thesis using Cons.IH [of s'] by (cases "\<exists>x \<in> set xs. \<not> f32_is_finite x") auto
  qed simp
qed simp

lemma sint_clamped: "\<bar>sint (word_of_int (max (- 127) (min 127 v)) :: i8)\<bar> \<le> 127"
proof -
  have "sint (word_of_int (max (- 127) (min 127 v)) :: i8) = max (- 127) (min 127 v)"
    by (simp add: signed_of_int signed_take_bit_int_eq_self)
  then show ?thesis by simp
qed

definition q8a_quants_ok :: "q8a_block \<Rightarrow> bool" where
  "q8a_quants_ok b \<longleftrightarrow> q8a_ok b \<and> (\<forall>q \<in> set (qa_q b). \<bar>sint q\<bar> \<le> 127)"

lemma q8a_block_result:
  assumes "length c = 32"
  shows "if \<exists>x \<in> set c. \<not> f32_is_finite x then try_quantize_q8a_block c = Err NonFiniteInput
    else \<exists>b. try_quantize_q8a_block c = Ok b \<and> q8a_quants_ok b"
proof (cases "\<exists>x \<in> set c. \<not> f32_is_finite x")
  case True
  then show ?thesis using amax_scan [of c "(0, 0)"] assms by (simp add: try_quantize_q8a_block_def BLOCK_def)
next
  case False
  then obtain amax mx where "rfold amax_step c (0, 0) = (Ok (amax, mx) :: (quant_error, f32 \<times> f32) res)"
    using amax_scan [of c "(0, 0)"] by auto
  then have "\<exists>b. try_quantize_q8a_block c = Ok b \<and> q8a_quants_ok b"
    using assms by (cases "f32_eq amax 0")
      (auto simp: try_quantize_q8a_block_def BLOCK_def Let_def q8a_quants_ok_def q8a_ok_def sint_clamped)
  then show ?thesis using False by simp
qed

lemma sint_add_i16: "- (2 ^ 15) \<le> sint a + sint b \<Longrightarrow> sint a + sint b < 2 ^ 15 \<Longrightarrow> sint (a + b :: i16) = sint a + sint b"
  by (simp add: sint_word_ariths signed_take_bit_int_eq_self)

lemma sum_i16_exact:
  assumes "length vs \<le> 16" "\<forall>v \<in> set vs. \<bar>sint v\<bar> \<le> 128"
  shows "\<exists>s. sum_i16 vs = Ok s \<and> sint s = sum_list (map sint vs)"
proof -
  let ?f = "\<lambda>v acc. if - (2 ^ 15) \<le> sint acc + sint v \<and> sint acc + sint v < 2 ^ 15 then Ok (acc + v) else Panic"
  have "\<exists>s. rfold ?f vs acc = (Ok s :: (quant_error, i16) res) \<and> sint s = sint acc + sum_list (map sint vs)"
    if "\<forall>v \<in> set vs. \<bar>sint v\<bar> \<le> 128" "\<bar>sint acc\<bar> + 128 * int (length vs) < 2 ^ 15" for vs and acc :: i16
    using that
  proof (induction vs arbitrary: acc)
    case (Cons v vs)
    have v: "\<bar>sint v\<bar> \<le> 128" using Cons.prems(1) by simp
    then have r: "- (2 ^ 15) \<le> sint acc + sint v" "sint acc + sint v < 2 ^ 15" using Cons.prems(2) by auto
    note s = sint_add_i16 [OF r]
    have "\<bar>sint (acc + v)\<bar> + 128 * int (length vs) < 2 ^ 15" unfolding s using v Cons.prems(2) by auto
    from Cons.IH [OF _ this] Cons.prems(1) r s show ?case by (simp add: add.assoc)
  qed simp
  from this [of vs 0] assms show ?thesis unfolding sum_i16_def by simp
qed

definition q8k_sums_ok :: "q8k_block \<Rightarrow> bool" where
  "q8k_sums_ok b \<longleftrightarrow> q8k_ok b \<and>
    (\<forall>k < 16. sint (qk_bsums b ! k) = (\<Sum>j < 16. sint (qk_q b ! (16 * k + j))))"

lemma q8k_sums:
  assumes "length q = 256"
  shows "\<exists>bs. traverse (\<lambda>chunk. sum_i16 (map scast chunk)) (chunks_exact 16 (q :: i8 list)) = Ok bs \<and>
    length bs = 16 \<and> (\<forall>k < 16. sint (bs ! k) = (\<Sum>j < 16. sint (q ! (16 * k + j))))"
proof -
  let ?c = "\<lambda>k. take 16 (drop (16 * k) q)"
  have s: "sint (scast x :: i16) = sint x" for x :: i8
  proof -
    have w: "sint (word_of_int k :: i16) = k" if "\<bar>k\<bar> \<le> 128" for k
      using that by (simp add: signed_of_int signed_take_bit_int_eq_self abs_le_iff)
    show ?thesis unfolding scast_eq by (rule w, rule i8_bound)
  qed
  have "\<exists>s. sum_i16 (map scast (?c k)) = Ok s \<and> sint s = (\<Sum>j < 16. sint (q ! (16 * k + j)))" if "k < 16" for k
  proof -
    have len: "length (?c k) = 16" using assms that by simp
    obtain s where "sum_i16 (map scast (?c k)) = Ok s" "sint s = sum_list (map sint (map scast (?c k) :: i16 list))"
      using sum_i16_exact [of "map scast (?c k)"] len i8_bound by (auto simp: s)
    moreover have "sum_list (map sint (map scast (?c k) :: i16 list)) = (\<Sum>j < 16. sint (q ! (16 * k + j)))"
      using len assms that by (simp add: sum_list_sum_nth s atLeast0LessThan comp_def)
    ultimately show ?thesis by simp
  qed
  then obtain g where g: "\<And>k. k < 16 \<Longrightarrow> sum_i16 (map scast (?c k)) = Ok (g k) \<and> sint (g k) = (\<Sum>j < 16. sint (q ! (16 * k + j)))"
    by metis
  have t: "(\<And>k. k \<in> set ks \<Longrightarrow> f (h k) = Ok (g k)) \<Longrightarrow> traverse f (map h ks) = (Ok (map g ks) :: (quant_error, i16 list) res)"
    for f ks and h :: "nat \<Rightarrow> i8 list" by (induction ks) auto
  have "chunks_exact 16 q = map ?c [0..<16]" using assms by (intro chunks_exact_shape) simp_all
  then have "traverse (\<lambda>chunk. sum_i16 (map scast chunk)) (chunks_exact 16 q) = Ok (map g [0..<16])"
    using g by (simp only:) (rule t, simp)
  then show ?thesis using g by (intro exI [of _ "map g [0..<16]"]) (simp del: upt_Suc)
qed

lemma q8k_block_result:
  assumes "length c = 256"
  shows "if \<exists>x \<in> set c. \<not> f32_is_finite x then try_quantize_q8k_block c = Err NonFiniteInput
    else \<exists>b. try_quantize_q8k_block c = Ok b \<and> q8k_sums_ok b"
proof (cases "\<exists>x \<in> set c. \<not> f32_is_finite x")
  case True
  then show ?thesis using amax_scan [of c "(0, 0)"] assms by (simp add: try_quantize_q8k_block_def Q6K_BLOCK_def)
next
  case False
  then obtain amax mx where r: "rfold amax_step c (0, 0) = (Ok (amax, mx) :: (quant_error, f32 \<times> f32) res)"
    using amax_scan [of c "(0, 0)"] by auto
  have "\<exists>b. try_quantize_q8k_block c = Ok b \<and> q8k_sums_ok b"
  proof (cases "f32_eq amax 0")
    case True
    then show ?thesis using r assms
      by (simp add: try_quantize_q8k_block_def Q6K_BLOCK_def q8k_sums_ok_def q8k_ok_def)
  next
    case False
    let ?i = "f32_div (f32_of_int (- 127)) mx"
    let ?q = "map (\<lambda>x. word_of_int (min 127 (nearest_i32_ggml (f32_mul ?i x))) :: i8) c"
    obtain bs where "traverse (\<lambda>chunk. sum_i16 (map scast chunk)) (chunks_exact 16 ?q) = Ok bs" "length bs = 16"
      "\<forall>k < 16. sint (bs ! k) = (\<Sum>j < 16. sint (?q ! (16 * k + j)))"
      using q8k_sums [of ?q] assms by auto
    then show ?thesis using False r assms
      by (simp add: try_quantize_q8k_block_def Q6K_BLOCK_def q8k_sums_ok_def q8k_ok_def Let_def del: nth_map)
  qed
  then show ?thesis using False by simp
qed

lemma traverse_chunks:
  assumes "0 < n" "length input mod n = 0"
    "\<And>c. length c = n \<Longrightarrow> if \<exists>x \<in> set c. bad x then f c = Err e else \<exists>y. f c = Ok y \<and> P y"
  shows "if \<exists>x \<in> set input. bad x then traverse f (chunks_exact n input) = Err e
    else \<exists>bs. traverse f (chunks_exact n input) = Ok bs \<and> length bs = length input div n \<and> list_all P bs"
proof -
  let ?cs = "chunks_exact n input"
  have "if \<exists>c \<in> set ?cs. \<exists>x \<in> set c. bad x then traverse f ?cs = Err e
    else \<exists>ys. traverse f ?cs = Ok ys \<and> length ys = length ?cs \<and> (\<forall>y \<in> set ys. P y)"
    by (rule traverse_uniform) (use chunks_exact_props(2) [OF assms(1,2)] assms(3) in blast)
  then show ?thesis unfolding chunks_exact_props(1,3) [OF assms(1,2)] list_all_iff .
qed

text \<open>C31: Quantising activations fails exactly on a length that is not a positive multiple of the
  block and on a value that is not finite; otherwise it yields one block for each 32 or 256 values.
  A quant of the 32-value blocks is at most 127 in magnitude, and the partial sums of the 256-value
  blocks, kept in 16 bits, are exact.\<close>

theorem quantize_results:
  "(if input = [] \<or> length input mod 32 \<noteq> 0 then quantize_q8a input = Err InvalidBlockLength
    else if \<exists>x \<in> set input. \<not> f32_is_finite x then quantize_q8a input = Err NonFiniteInput
    else \<exists>bs. quantize_q8a input = Ok bs \<and> length bs = length input div 32 \<and> list_all q8a_quants_ok bs) \<and>
   (if input = [] \<or> length input mod 256 \<noteq> 0 then quantize_q8k input = Err InvalidBlockLength
    else if \<exists>x \<in> set input. \<not> f32_is_finite x then quantize_q8k input = Err NonFiniteInput
    else \<exists>bs. quantize_q8k input = Ok bs \<and> length bs = length input div 256 \<and> list_all q8k_sums_ok bs)"
  using traverse_chunks [of 32 input, OF _ _ q8a_block_result] traverse_chunks [of 256 input, OF _ _ q8k_block_result]
  by (simp add: quantize_q8a_def quantize_q8a_into_def quantize_q8k_def quantize_q8k_into_def BLOCK_def Q6K_BLOCK_def)

theorem quantize_results_witness:
  "quantize_q8a [] = Err InvalidBlockLength \<and> quantize_q8a (replicate 32 0x7f800000) = Err NonFiniteInput \<and>
   (\<exists>bs. quantize_q8a (replicate 32 0x3f800000) = Ok bs \<and> length bs = 1)"
proof -
  have "f32_is_finite 0x3f800000" "\<not> f32_is_finite 0x7f800000" by code_simp+
  then show ?thesis
    using quantize_results [of "[]"] quantize_results [of "replicate 32 0x7f800000"] quantize_results [of "replicate 32 0x3f800000"]
    by auto
qed

section \<open>The kernels on arbitrary blocks\<close>

named_theorems kernel_steps \<open>steps of the kernels that end in a value or an error\<close>

lemma add_finite_yields [kernel_steps]: "yields f32_is_finite (add_finite s x)"
  by (simp add: add_finite_def Let_def)

lemma zero_finite [simp]: "f32_is_finite 0"
  by code_simp

lemma check_lengths_yields: "yields (\<lambda>_. length ws = length as) (check_lengths ws as)"
  by (simp add: check_lengths_def)

lemma block_fold_yields:
  assumes "\<And>w a. (w, a) \<in> set (zip ws as) \<Longrightarrow> yields (\<lambda>_. True) (block w a)"
  shows "yields f32_is_finite (rbind (check_lengths ws as) (\<lambda>_.
    rfold (\<lambda>(w, a) tot. rbind (ensure_finite_scales (d w) (qa_d a)) (\<lambda>_.
      rbind (block w a) (\<lambda>block.
      if \<not> f32_is_finite block then Err NonFiniteOutput else add_finite tot block))) (zip ws as) 0))"
proof (rule yields_bind [OF check_lengths_yields], rule yields_rfold)
  fix p tot assume p: "p \<in> set (zip ws as)"
  obtain w a where wa: "p = (w, a)" by (cases p)
  have e: "yields (\<lambda>_. True) (ensure_finite_scales (d w) (qa_d a))" by (simp add: ensure_finite_scales_def)
  have b: "yields (\<lambda>_. True) (block w a)" using assms p wa by simp
  show "yields f32_is_finite ((\<lambda>(w, a) tot. rbind (ensure_finite_scales (d w) (qa_d a)) (\<lambda>_.
      rbind (block w a) (\<lambda>block. if \<not> f32_is_finite block then Err NonFiniteOutput else add_finite tot block))) p tot)"
    unfolding wa prod.case by (rule yields_bind [OF e], rule yields_bind [OF b]) (simp add: add_finite_yields)
qed simp

lemma mixed_block_yields:
  assumes "\<And>i. i < n \<Longrightarrow> yields (\<lambda>_. True) (weight i)" "a_start + n div 32 \<le> length as" "n mod 32 = 0"
    "list_all q8a_ok as" "f32_is_finite tot"
  shows "yields f32_is_finite (mixed_block weight n as a_start tot)"
  unfolding mixed_block_def
proof (rule yields_rfold)
  fix i tot assume "i \<in> set [0..<n]"
  then have i: "i < n" by simp
  obtain m where "n = 32 * m" using assms(3) mult_div_mod_eq [of 32 n] by (metis add.right_neutral)
  then have "i div 32 < n div 32" using i by (simp add: less_mult_imp_div_less mult.commute)
  then have k: "a_start + i div BLOCK < length as" using assms(2) by (simp add: BLOCK_def)
  then have "q8a_ok (as ! (a_start + i div BLOCK))" using assms(4) by (simp add: list_all_length)
  then have q: "i mod BLOCK < length (qa_q (as ! (a_start + i div BLOCK)))" by (simp add: q8a_ok_def BLOCK_def)
  show "yields f32_is_finite (rbind (index_at as (a_start + i div BLOCK)) (\<lambda>a.
      if \<not> f32_is_finite (qa_d a) then Err NonFiniteScale
      else rbind (weight i) (\<lambda>weight.
        rbind (index_at (qa_q a) (i mod BLOCK)) (\<lambda>q.
        let activation = f32_mul (qa_d a) (f32_of_int (sint q)); product = f32_mul weight activation in
        if \<not> f32_is_finite product then Err NonFiniteOutput else add_finite tot product))))"
  proof (rule yields_bind)
    show "yields (\<lambda>a. i mod BLOCK < length (qa_q a)) (index_at as (a_start + i div BLOCK))"
      using k q by (simp add: yields_index)
    fix a assume q: "i mod BLOCK < length (qa_q a)"
    have "yields f32_is_finite (rbind (weight i) (\<lambda>weight. rbind (index_at (qa_q a) (i mod BLOCK)) (\<lambda>q.
        let activation = f32_mul (qa_d a) (f32_of_int (sint q)); product = f32_mul weight activation in
        if \<not> f32_is_finite product then Err NonFiniteOutput else add_finite tot product)))"
      by (rule yields_bind [OF assms(1) [OF i]]) (simp add: index_at_def q Let_def add_finite_yields)
    then show "yields f32_is_finite (if \<not> f32_is_finite (qa_d a) then Err NonFiniteScale
      else rbind (weight i) (\<lambda>weight. rbind (index_at (qa_q a) (i mod BLOCK)) (\<lambda>q.
        let activation = f32_mul (qa_d a) (f32_of_int (sint q)); product = f32_mul weight activation in
        if \<not> f32_is_finite product then Err NonFiniteOutput else add_finite tot product)))" by simp
  qed
qed (fact assms(5))

lemma check_block_lengths_yields:
  "yields (\<lambda>_. length as = length ws * (n div 32)) (check_block_lengths n ws as)"
  by (cases "checked_mul_usize (length ws) (n div 32)")
    (auto simp: check_block_lengths_def BLOCK_def checked_mul_usize_def split: if_splits)

lemma mixed_fold_yields:
  assumes "\<And>w i. w \<in> set ws \<Longrightarrow> i < 256 \<Longrightarrow> yields (\<lambda>_. True) (weight w i)" "list_all q8a_ok as"
  shows "yields f32_is_finite (rbind (check_block_lengths 256 ws as) (\<lambda>_.
    rfold (\<lambda>(block_idx, w) tot. if bad w then Err NonFiniteScale
      else mixed_block (weight w) 256 as (block_idx * (256 div BLOCK)) tot) (enumerate 0 ws) 0))"
proof (rule yields_bind [OF check_block_lengths_yields], rule yields_rfold)
  fix p tot assume len: "length as = length ws * (256 div 32)" and p: "p \<in> set (enumerate 0 ws)" and "f32_is_finite tot"
  obtain j w where jw: "p = (j, w)" by (cases p)
  then have j: "j < length ws" "w \<in> set ws" using p by (auto simp: in_set_enumerate_eq)
  have "yields f32_is_finite (mixed_block (weight w) 256 as (j * 8) tot)"
  proof (rule mixed_block_yields)
    show "j * 8 + 256 div 32 \<le> length as" using len j(1) by simp
  qed (use assms j \<open>f32_is_finite tot\<close> in simp_all)
  then show "yields f32_is_finite ((\<lambda>(block_idx, w) tot. if bad w then Err NonFiniteScale
      else mixed_block (weight w) 256 as (block_idx * (256 div BLOCK)) tot) p tot)"
    by (simp add: jw BLOCK_def)
qed simp

lemma q4_k_value_yields: "q4k_ok w \<Longrightarrow> i < 256 \<Longrightarrow> yields (\<lambda>_. True) (q4_k_value w i)"
proof -
  assume w: "q4k_ok w" and i: "i < 256"
  have "i div 32 div 2 < 4" using i by (simp flip: div_mult2_eq)
  then have j: "i div 32 div 2 * 32 + i mod 32 < 128" using mod_less_divisor [of 32 i] by linarith
  have k: "i div 32 < 8" using i by simp
  show ?thesis using w j k by (auto simp: q4_k_value_def q4_k_scale_min_def q4k_ok_def index_at_def Let_def)
qed

lemma q6_k_value_yields: "q6k_ok w \<Longrightarrow> i < 256 \<Longrightarrow> yields (\<lambda>_. True) (q6_k_value w i)"
proof -
  assume w: "q6k_ok w" and i: "i < 256"
  then obtain q where "q6_k_quant w i = Ok q" using q6_quant by blast
  moreover have "i div 16 < length (k6_scales w)" using w i by (simp add: q6k_ok_def)
  ultimately show ?thesis using i by (simp add: q6_k_value_def scale_index_div index_at_def)
qed

lemma finish_lanes_yields:
  assumes "length aux = 8"
  shows "length lanes = 8 \<Longrightarrow> yields (\<lambda>lanes. length lanes = 8)
    (rfold (\<lambda>lane lanes. rbind (index_at lanes lane) (\<lambda>s. rbind (index_at aux lane) (\<lambda>v.
      rbind (add_finite s (f32_mul d (f32_of_int v))) (\<lambda>s. Ok (lanes[lane := s]))))) [0..<8] lanes)"
proof (rule yields_rfold)
  fix l and lanes :: "f32 list" assume "l \<in> set [0..<8]" "length lanes = 8"
  then have "yields (\<lambda>_. True) (index_at lanes l)" "yields (\<lambda>_. True) (index_at aux l)"
    "l < length lanes" "l < length aux" using assms by (auto simp: index_at_def)
  then show "yields (\<lambda>lanes. length lanes = 8) (rbind (index_at lanes l) (\<lambda>s. rbind (index_at aux l) (\<lambda>v.
      rbind (add_finite s (f32_mul d (f32_of_int v))) (\<lambda>s. Ok (lanes[l := s])))))"
    using \<open>length lanes = 8\<close> by (simp add: index_at_def add_finite_def Let_def)
qed

lemma dot_q6_k_q8k_yields:
  assumes "list_all q6k_ok ws" "list_all q8k_ok as"
  shows "yields f32_is_finite (dot_q6_k_q8k ws as)"
  unfolding dot_q6_k_q8k_def
proof (rule yields_bind [OF check_lengths_yields], rule yields_bind [OF yields_rfold])
  show "length (replicate 8 (0 :: f32)) = 8" by simp
  fix p and lanes :: "f32 list" assume p: "p \<in> set (zip ws as)" and len: "length lanes = 8"
  obtain w a where wa: "p = (w, a)" by (cases p)
  then have "w \<in> set ws" "a \<in> set as" using p by (auto dest: set_zip_leftD set_zip_rightD)
  then have ok: "q6k_ok w" "q8k_ok a" using assms by (simp_all add: list_all_iff)
  show "yields (\<lambda>lanes. length lanes = 8) ((\<lambda>(w, a) lanes.
      if \<not> f32_is_finite (k6_d w) \<or> \<not> f32_is_finite (qk_d a) then Err NonFiniteScale
      else rbind (rfold (scale_rounds w a) (k6_scales w) (replicate 8 0, 0)) (\<lambda>(aux32, _).
        let d = f32_mul (k6_d w) (qk_d a) in
        if \<not> f32_is_finite d then Err NonFiniteOutput
        else rfold (\<lambda>lane lanes. rbind (index_at lanes lane) (\<lambda>s. rbind (index_at aux32 lane) (\<lambda>v.
          rbind (add_finite s (f32_mul d (f32_of_int v))) (\<lambda>s. Ok (lanes[lane := s]))))) [0..<8] lanes)) p lanes)"
    unfolding wa prod.case q6_accumulators [OF ok] rbind.simps Let_def
    using finish_lanes_yields [of "q6_lanes w a 256" lanes] len by simp
next
  fix lanes :: "f32 list"
  show "yields f32_is_finite (rfold (\<lambda>lane_sum tot. add_finite tot lane_sum) lanes 0)"
    by (rule yields_rfold) (simp_all add: add_finite_yields)
qed

lemma zip_members: "(w, a) \<in> set (zip ws as) \<Longrightarrow> w \<in> set ws \<and> a \<in> set as"
  by (auto dest: set_zip_leftD set_zip_rightD)

lemma dot_q8_0_q8a_yields:
  assumes "list_all q8_0_ok ws" "list_all q8a_ok as"
  shows "yields f32_is_finite (dot_q8_0_q8a ws as)"
  unfolding dot_q8_0_q8a_def
proof (rule block_fold_yields)
  fix w a assume "(w, a) \<in> set (zip ws as)"
  then have "q8_0_ok w" "q8a_ok a" using zip_members [of w a ws as] assms by (auto simp: list_all_iff)
  then show "yields (\<lambda>_. True) (dot_q8_0_q8a_block_scalar w a)" by (simp add: q8_block(1))
qed

lemma dot_q4_0_q8a_yields:
  assumes "list_all q4_0_ok ws" "list_all q8a_ok as"
  shows "yields f32_is_finite (dot_q4_0_q8a ws as)"
  unfolding dot_q4_0_q8a_def
proof (rule block_fold_yields)
  fix w a assume "(w, a) \<in> set (zip ws as)"
  then have "q4_0_ok w" "q8a_ok a" using zip_members [of w a ws as] assms by (auto simp: list_all_iff)
  then show "yields (\<lambda>_. True) (dot_q4_0_q8a_block_scalar w a)" by (simp add: q4_block(1))
qed

lemma dot_q4_k_q8a_yields:
  "list_all q4k_ok ws \<Longrightarrow> list_all q8a_ok as \<Longrightarrow> yields f32_is_finite (dot_q4_k_q8a ws as)"
  unfolding dot_q4_k_q8a_def Q4K_BLOCK_def by (rule mixed_fold_yields) (auto simp: list_all_iff q4_k_value_yields)

lemma dot_q6_k_q8a_yields:
  "list_all q6k_ok ws \<Longrightarrow> list_all q8a_ok as \<Longrightarrow> yields f32_is_finite (dot_q6_k_q8a ws as)"
  unfolding dot_q6_k_q8a_def Q6K_BLOCK_def by (rule mixed_fold_yields) (auto simp: list_all_iff q6_k_value_yields)

lemmas dot_kernels_yield = dot_q8_0_q8a_yields dot_q4_0_q8a_yields dot_q4_k_q8a_yields dot_q6_k_q8a_yields dot_q6_k_q8k_yields

lemma quantize_q8a_yields: "yields (list_all q8a_ok) (quantize_q8a_into input)"
  using traverse_chunks [of 32 input, OF _ _ q8a_block_result]
  by (cases "\<exists>x \<in> set input. \<not> f32_is_finite x")
    (auto simp: quantize_q8a_into_def BLOCK_def list_all_iff q8a_quants_ok_def)

lemma quantize_q8k_yields: "yields (list_all q8k_ok) (quantize_q8k_into input)"
  using traverse_chunks [of 256 input, OF _ _ q8k_block_result]
  by (cases "\<exists>x \<in> set input. \<not> f32_is_finite x")
    (auto simp: quantize_q8k_into_def Q6K_BLOCK_def list_all_iff q8k_sums_ok_def)

text \<open>On blocks of the right lengths, whatever their scales and bytes, every dot-product kernel
  ends in a finite number or in an error value: no index is out of range, no integer accumulator
  overflows, and no infinity or NaN is returned.\<close>

lemma kernels_finite:
  assumes "list_all q8_0_ok w80" "list_all q4_0_ok w40" "list_all q4k_ok w4k" "list_all q6k_ok w6k"
    "list_all q8a_ok as" "list_all q8k_ok ks"
  shows "yields f32_is_finite (dot_q8_0_q8a w80 as) \<and> yields f32_is_finite (dot_q4_0_q8a w40 as) \<and>
    yields f32_is_finite (dot_q4_k_q8a w4k as) \<and> yields f32_is_finite (dot_q6_k_q8a w6k as) \<and>
    yields f32_is_finite (dot_q6_k_q8k w6k ks)"
  using assms by (intro conjI dot_kernels_yield)

lemma kernels_finite_witness:
  "yields f32_is_finite (dot_q8_0_q8a [\<lparr>q8_d = 0x3f800000, q8_q = replicate 32 1\<rparr>] [\<lparr>qa_d = 0x3f800000, qa_q = replicate 32 1\<rparr>])"
  using kernels_finite [of "[\<lparr>q8_d = 0x3f800000, q8_q = replicate 32 1\<rparr>]" "[]" "[]" "[]" "[\<lparr>qa_d = 0x3f800000, qa_q = replicate 32 1\<rparr>]" "[]"]
  by (simp add: q8_0_ok_def q8a_ok_def)

section \<open>The row-major product\<close>

definition gemv_f32_row_major :: "nat \<Rightarrow> nat \<Rightarrow> f32 list \<Rightarrow> f32 list \<Rightarrow> f32 list \<Rightarrow> (quant_error, f32 list) res" where
  "gemv_f32_row_major n_rows n_cols weights x y =
    rbind (ok_or InvalidBlockLength (checked_mul_usize n_rows n_cols)) (\<lambda>expected_weights.
    if n_rows = 0 \<or> n_cols = 0 \<or> length weights \<noteq> expected_weights \<or> length x \<noteq> n_cols \<or> length y \<noteq> n_rows
      then Err LengthMismatch
    else if list_ex (\<lambda>v. \<not> f32_is_finite v) (weights @ x) then Err NonFiniteInput
    else rfold (\<lambda>r y. if length weights < (r + 1) * n_cols then Panic
      else rbind (dot_f32_ref (slice weights (r * n_cols) ((r + 1) * n_cols)) x) (\<lambda>v.
        if length y \<le> r then Panic else if \<not> f32_is_finite v then Err NonFiniteOutput else Ok (y[r := v])))
      [0..<n_rows] y)"

text \<open>Every row of the result is the finite dot product of that row; no index is out of range.\<close>

definition row_dots :: "nat \<Rightarrow> f32 list \<Rightarrow> f32 list \<Rightarrow> nat \<Rightarrow> f32 list \<Rightarrow> bool" where
  "row_dots n_cols weights x n y \<longleftrightarrow> (\<forall>r < n. f32_is_finite (y ! r) \<and>
    (dot_f32_ref (slice weights (r * n_cols) ((r + 1) * n_cols)) x :: (quant_error, f32) res) = Ok (y ! r))"

lemma gemv_f32_row_major_yields:
  "yields (\<lambda>ys. length ys = n_rows \<and> row_dots n_cols weights x n_rows ys) (gemv_f32_row_major n_rows n_cols weights x y)"
proof -
  define f where "f r y = (if length weights < (r + 1) * n_cols then Panic
      else rbind (dot_f32_ref (slice weights (r * n_cols) ((r + 1) * n_cols)) x) (\<lambda>v.
        if length y \<le> r then Panic else if \<not> f32_is_finite v then Err NonFiniteOutput else Ok (y[r := v])) :: (quant_error, f32 list) res)"
    for r y
  have loop: "yields (\<lambda>ys. length ys = n_rows \<and> row_dots n_cols weights x n ys) (rfold f [0..<n] y)"
    if "n \<le> n_rows" "length weights = n_rows * n_cols" "length x = n_cols" "length y = n_rows" for n
    using that
  proof (induction n)
    case (Suc n)
    have b: "(n + 1) * n_cols \<le> length weights" unfolding Suc.prems(2) using Suc.prems(1) by (intro mult_right_mono) simp_all
    then obtain v where v: "(dot_f32_ref (slice weights (n * n_cols) ((n + 1) * n_cols)) x :: (quant_error, f32) res) = Ok v"
      using Suc.prems(3) by (simp add: dot_f32_ref_def length_slice)
    have s: "[0..<Suc n] = [0..<n] @ [n]" by simp
    show ?case unfolding s rfold_append
    proof (rule yields_bind)
      show "yields (\<lambda>ys. length ys = n_rows \<and> row_dots n_cols weights x n ys) (rfold f [0..<n] y)"
        using Suc by simp
      fix ys assume "length ys = n_rows \<and> row_dots n_cols weights x n ys"
      then show "yields (\<lambda>ys. length ys = n_rows \<and> row_dots n_cols weights x (Suc n) ys) (rfold f [n] ys)"
        using b v Suc.prems(1) by (auto simp: f_def row_dots_def less_Suc_eq nth_list_update simp del: mult_Suc)
    qed
  qed (simp add: row_dots_def)
  show ?thesis unfolding gemv_f32_row_major_def f_def [symmetric, abs_def]
    using loop [of n_rows] by (auto simp: checked_mul_usize_def)
qed

end
