(* ===== verification/Libm64.thy ===== *)
theory Libm64
  imports Det_Num
begin

text \<open>
  The double-precision functions behind the rotary tables: \<open>vendored_libm.rs\<close> and the files of
  \<open>src/crates/det-num/src/vendored_libm/\<close> it collects, with the entry points of \<open>math.rs\<close>. Every
  operation of the code is one rounded operation of the model, in the order of the code. The
  argument reduction for large arguments works on arrays of twenty entries that it reads with
  \<open>get(..).expect(..)\<close>, so it is a computation that may panic; its outer loop is recursion on the
  room that is left in these arrays. Expressions whose value is dropped (\<open>force_eval!\<close>) have no
  counterpart.
\<close>

section \<open>Helpers\<close>

definition scalbn_f64 :: "f64 \<Rightarrow> int \<Rightarrow> f64" where
  "scalbn_f64 x n =
    (let x1p1023 = 0x7fe0000000000000; x1p_1022 = 0x0010000000000000;
         (x, n) =
          (if 1023 < n then
             let x = f64_mul x x1p1023; n = n - 1023 in
             if 1023 < n then
               let x = f64_mul x x1p1023; n = n - 1023 in
               if 1023 < n then (x, 1023) else (x, n)
             else (x, n)
           else if n < - 1022 then
             let x = f64_mul x x1p_1022; n = n + 1022 in
             if n < - 1022 then
               let x = f64_mul x x1p_1022; n = n + 1022 in
               if n < - 1022 then (x, - 1022) else (x, n)
             else (x, n)
           else (x, n))
     in f64_mul x (push_bit 52 (word_of_int (0x3ff + n))))"

definition scalbn :: "f64 \<Rightarrow> int \<Rightarrow> f64" where "scalbn x n = scalbn_f64 x n"

definition f64_is_infinite :: "f64 \<Rightarrow> bool" where
  "f64_is_infinite x \<longleftrightarrow> (case dec64 x of Inf s \<Rightarrow> True | _ \<Rightarrow> False)"

definition floor_libm :: "f64 \<Rightarrow> f64" where
  "floor_libm x =
    (if f64_is_nan x \<or> f64_is_infinite x \<or> f64_eq x 0 then x
     else
       let truncated = f64_to_i64 x; y = f64_of_int truncated in
       if f64_lt x y then f64_of_int (truncated - 1) else y)"

definition high_word :: "f64 \<Rightarrow> u32" where "high_word x = ucast (drop_bit 32 x)"

section \<open>Exponential\<close>

definition EXP_LN2HI :: f64 where "EXP_LN2HI = f64_lit 69314718036912381649 (10 ^ 20)"
definition EXP_LN2LO :: f64 where "EXP_LN2LO = f64_lit 190821492927058770002 (10 ^ 30)"
definition EXP_INVLN2 :: f64 where "EXP_INVLN2 = f64_lit 1442695040888963387 (10 ^ 18)"
definition EXP_P1 :: f64 where "EXP_P1 = f64_lit 166666666666666019037 (10 ^ 21)"
definition EXP_P2 :: f64 where "EXP_P2 = f64_lit (- 277777777770155933842) (10 ^ 23)"
definition EXP_P3 :: f64 where "EXP_P3 = f64_lit 661375632143793436117 (10 ^ 25)"
definition EXP_P4 :: f64 where "EXP_P4 = f64_lit (- 16533902205465251539) (10 ^ 25)"
definition EXP_P5 :: f64 where "EXP_P5 = f64_lit 413813679705723846039 (10 ^ 28)"

text \<open>The part of \<open>exp\<close> after the argument reduction to \<open>x = hi - lo\<close>.\<close>

definition exp_primary :: "f64 \<Rightarrow> int \<Rightarrow> f64 \<Rightarrow> f64 \<Rightarrow> f64" where
  "exp_primary x k hi lo =
    (let xx = f64_mul x x;
         c = f64_sub x (f64_mul xx (f64_add EXP_P1 (f64_mul xx (f64_add EXP_P2 (f64_mul xx
               (f64_add EXP_P3 (f64_mul xx (f64_add EXP_P4 (f64_mul xx EXP_P5)))))))));
         y = f64_add (f64_of_int 1)
               (f64_add (f64_sub (f64_div (f64_mul x c) (f64_sub (f64_of_int 2) c)) lo) hi)
     in if k = 0 then y else scalbn y k)"

definition exp_libm :: "f64 \<Rightarrow> f64" where
  "exp_libm x =
    (let hx = high_word x; sgn = uint (drop_bit 31 hx); hx = hx AND 0x7fffffff in
     if 0x4086232b \<le> hx \<and> f64_is_nan x then x
     else if 0x4086232b \<le> hx \<and> f64_lt (f64_lit 709782712893383973096 (10 ^ 18)) x then f64_mul x 0x7fe0000000000000
     else if 0x4086232b \<le> hx \<and> f64_lt x (f64_lit (- 70839641853226410622) (10 ^ 17)) \<and>
       f64_lt x (f64_lit (- 74513321910194110842) (10 ^ 17)) then 0
     else if 0x3fd62e42 < hx then
       let k = (if 0x3ff0a2b2 \<le> hx
                then f64_to_i32 (f64_add (f64_mul EXP_INVLN2 x) (if sgn = 0 then f64_lit 1 2 else f64_lit (- 1) 2))
                else 1 - sgn - sgn);
           hi = f64_sub x (f64_mul (f64_of_int k) EXP_LN2HI);
           lo = f64_mul (f64_of_int k) EXP_LN2LO
       in exp_primary (f64_sub hi lo) k hi lo
     else if 0x3e300000 < hx then exp_primary x 0 x 0
     else f64_add (f64_of_int 1) x)"

section \<open>Logarithm\<close>

definition LOG_LN2_HI :: f64 where "LOG_LN2_HI = f64_lit 69314718036912381649 (10 ^ 20)"
definition LOG_LN2_LO :: f64 where "LOG_LN2_LO = f64_lit 190821492927058770002 (10 ^ 30)"
definition LOG_LG1 :: f64 where "LOG_LG1 = f64_lit 666666666666673513 (10 ^ 18)"
definition LOG_LG2 :: f64 where "LOG_LG2 = f64_lit 3999999999940941908 (10 ^ 19)"
definition LOG_LG3 :: f64 where "LOG_LG3 = f64_lit 2857142874366239149 (10 ^ 19)"
definition LOG_LG4 :: f64 where "LOG_LG4 = f64_lit 2222219843214978396 (10 ^ 19)"
definition LOG_LG5 :: f64 where "LOG_LG5 = f64_lit 1818357216161805012 (10 ^ 19)"
definition LOG_LG6 :: f64 where "LOG_LG6 = f64_lit 1531383769920937332 (10 ^ 19)"
definition LOG_LG7 :: f64 where "LOG_LG7 = f64_lit 1479819860511658591 (10 ^ 19)"

text \<open>The reduction to \<open>[sqrt(2)/2, sqrt(2)]\<close> and the polynomial.\<close>

definition log_primary :: "u64 \<Rightarrow> u32 \<Rightarrow> int \<Rightarrow> f64" where
  "log_primary ui hx k =
    (let hx = hx + (0x3ff00000 - 0x3fe6a09e);
         k = k + (uint (drop_bit 20 hx) - 0x3ff);
         hx = (hx AND 0x000fffff) + 0x3fe6a09e;
         x = push_bit 32 (ucast hx) OR (ui AND 0xffffffff);
         f = f64_sub x (f64_of_int 1);
         hfsq = f64_mul (f64_mul (f64_lit 1 2) f) f;
         s = f64_div f (f64_add (f64_of_int 2) f);
         z = f64_mul s s;
         w = f64_mul z z;
         t1 = f64_mul w (f64_add LOG_LG2 (f64_mul w (f64_add LOG_LG4 (f64_mul w LOG_LG6))));
         t2 = f64_mul z (f64_add LOG_LG1 (f64_mul w (f64_add LOG_LG3 (f64_mul w (f64_add LOG_LG5 (f64_mul w LOG_LG7))))));
         r = f64_add t2 t1;
         dk = f64_of_int k
     in f64_add (f64_add (f64_sub (f64_add (f64_mul s (f64_add hfsq r)) (f64_mul dk LOG_LN2_LO)) hfsq) f)
          (f64_mul dk LOG_LN2_HI))"

definition log_libm :: "f64 \<Rightarrow> f64" where
  "log_libm x =
    (let ui = x; hx = high_word x in
     if hx < 0x00100000 \<or> drop_bit 31 hx \<noteq> 0 then
       (if push_bit 1 ui = 0 then f64_div (f64_of_int (- 1)) (f64_mul x x)
        else if drop_bit 31 hx \<noteq> 0 then f64_div (f64_sub x x) 0
        else let x = f64_mul x 0x4350000000000000 in log_primary x (high_word x) (- 54))
     else if 0x7ff00000 \<le> hx then x
     else if hx = 0x3ff00000 \<and> push_bit 32 ui = 0 then 0
     else log_primary ui hx 0)"

section \<open>The trigonometric kernels\<close>

definition COS_C1 :: f64 where "COS_C1 = f64_lit 416666666666666019037 (10 ^ 22)"
definition COS_C2 :: f64 where "COS_C2 = f64_lit (- 138888888888741095749) (10 ^ 23)"
definition COS_C3 :: f64 where "COS_C3 = f64_lit 248015872894767294178 (10 ^ 25)"
definition COS_C4 :: f64 where "COS_C4 = f64_lit (- 275573143513906633035) (10 ^ 27)"
definition COS_C5 :: f64 where "COS_C5 = f64_lit 20875723212981748279 (10 ^ 28)"
definition COS_C6 :: f64 where "COS_C6 = f64_lit (- 113596475577881948265) (10 ^ 31)"

definition k_cos :: "f64 \<Rightarrow> f64 \<Rightarrow> f64" where
  "k_cos x y =
    (let z = f64_mul x x;
         w = f64_mul z z;
         r = f64_add (f64_mul z (f64_add COS_C1 (f64_mul z (f64_add COS_C2 (f64_mul z COS_C3)))))
               (f64_mul (f64_mul w w) (f64_add COS_C4 (f64_mul z (f64_add COS_C5 (f64_mul z COS_C6)))));
         hz = f64_mul (f64_lit 1 2) z;
         w = f64_sub (f64_of_int 1) hz
     in f64_add w (f64_add (f64_sub (f64_sub (f64_of_int 1) w) hz) (f64_sub (f64_mul z r) (f64_mul x y))))"

definition SIN_S1 :: f64 where "SIN_S1 = f64_lit (- 166666666666666324348) (10 ^ 21)"
definition SIN_S2 :: f64 where "SIN_S2 = f64_lit 833333333332248946124 (10 ^ 23)"
definition SIN_S3 :: f64 where "SIN_S3 = f64_lit (- 198412698298579493134) (10 ^ 24)"
definition SIN_S4 :: f64 where "SIN_S4 = f64_lit 275573137070700676789 (10 ^ 26)"
definition SIN_S5 :: f64 where "SIN_S5 = f64_lit (- 250507602534068634195) (10 ^ 28)"
definition SIN_S6 :: f64 where "SIN_S6 = f64_lit 158969099521155010221 (10 ^ 30)"

definition k_sin :: "f64 \<Rightarrow> f64 \<Rightarrow> int \<Rightarrow> f64" where
  "k_sin x y iy =
    (let z = f64_mul x x;
         w = f64_mul z z;
         r = f64_add (f64_add SIN_S2 (f64_mul z (f64_add SIN_S3 (f64_mul z SIN_S4))))
               (f64_mul (f64_mul z w) (f64_add SIN_S5 (f64_mul z SIN_S6)));
         v = f64_mul z x
     in if iy = 0 then f64_add x (f64_mul v (f64_add SIN_S1 (f64_mul z r)))
        else f64_sub x (f64_sub (f64_sub (f64_mul z (f64_sub (f64_mul (f64_lit 1 2) y) (f64_mul v r))) y)
               (f64_mul v SIN_S1)))"

section \<open>Reduction of large arguments\<close>

definition INIT_JK :: "nat list" where "INIT_JK = [3, 4, 4, 6]"

definition IPIO2 :: "int list" where
  "IPIO2 =
   [0xa2f983, 0x6e4e44, 0x1529fc, 0x2757d1, 0xf534dd, 0xc0db62, 0x95993c, 0x439041, 0xfe5163,
    0xabdebb, 0xc561b7, 0x246e3a, 0x424dd2, 0xe00649, 0x2eea09, 0xd1921c, 0xfe1deb, 0x1cb129,
    0xa73ee8, 0x8235f5, 0x2ebb44, 0x84e99c, 0x7026b4, 0x5f7e41, 0x3991d6, 0x398353, 0x39f49c,
    0x845f8b, 0xbdf928, 0x3b1ff8, 0x97ffde, 0x05980f, 0xef2f11, 0x8b5a0a, 0x6d1f6d, 0x367ecf,
    0x27cb09, 0xb74f46, 0x3f669e, 0x5fea2d, 0x7527ba, 0xc7ebe5, 0xf17b3d, 0x0739f7, 0x8a5292,
    0xea6bfb, 0x5fb11f, 0x8d5d08, 0x560330, 0x46fc7b, 0x6babf0, 0xcfbc20, 0x9af436, 0x1da9e3,
    0x91615e, 0xe61b08, 0x659985, 0x5f14a0, 0x68408d, 0xffd880, 0x4d7327, 0x310606, 0x1556ca,
    0x73a8c9, 0x60e27b, 0xc08c6b, 0x47c419, 0xc367cd, 0xdce809, 0x2a8359, 0xc4768b, 0x961ca6,
    0xddaf44, 0xd15719, 0x053ea5, 0xff0705, 0x3f7e33, 0xe832c2, 0xde4f98, 0x327dbb, 0xc33d26,
    0xef6b1e, 0x5ef89f, 0x3a1f35, 0xcaf27f, 0x1d87f1, 0x21907c, 0x7c246a, 0xfa6ed5, 0x772d30,
    0x433b15, 0xc614b5, 0x9d19c3, 0xc2c4ad, 0x414d2c, 0x5d000c, 0x467d86, 0x2d71e3, 0x9ac69b,
    0x006233, 0x7cd2b4, 0x97a7b4, 0xd55537, 0xf63ed7, 0x1810a3, 0xfc764d, 0x2a9d64, 0xabd770,
    0xf87c63, 0x57b07a, 0xe71517, 0x5649c0, 0xd9d63b, 0x3884a7, 0xcb2324, 0x778ad6, 0x23545a,
    0xb91f00, 0x1b0af1, 0xdfce19, 0xff319f, 0x6a1e66, 0x615799, 0x47fbac, 0xd87f7e, 0xb76522,
    0x89e832, 0x60bfe6, 0xcdc4ef, 0x09366c, 0xd43f5d, 0xd7de16, 0xde3b58, 0x929bde, 0x2822d2,
    0xe88628, 0x4d58e2, 0x32cac6, 0x16e308, 0xcb7de0, 0x50c017, 0xa71df3, 0x5be018, 0x34132e,
    0x621283, 0x014883, 0x5b8ef5, 0x7fb0ad, 0xf2e91e, 0x434a48, 0xd36710, 0xd8ddaa, 0x425fae,
    0xce616a, 0xa4280a, 0xb499d3, 0xf2a606, 0x7f775c, 0x83c2a3, 0x883c61, 0x78738a, 0x5a8caf,
    0xbdd76f, 0x63a62d, 0xcbbff4, 0xef818d, 0x67c126, 0x45ca55, 0x36d9ca, 0xd2a828, 0x8d61c2,
    0x77c912, 0x142604, 0x9b4612, 0xc459c4, 0x44c5c8, 0x91b24d, 0xf31700, 0xad43d4, 0xe54929,
    0x10d5fd, 0xfcbe00, 0xcc941e, 0xeece70, 0xf53e13, 0x80f1ec, 0xc3e7b3, 0x28f8c7, 0x940593,
    0x3e71c1, 0xb3092e, 0xf3450b, 0x9c1288, 0x7b20ab, 0x9fb52e, 0xc29247, 0x2f327b, 0x6d550c,
    0x90a772, 0x1fe76b, 0x96cb31, 0x4a1679, 0xe27941, 0x89dff4, 0x9794e8, 0x84e6e2, 0x973199,
    0x6bed88, 0x365f5f, 0x0efdbb, 0xb49a48, 0x6ca467, 0x427271, 0x325d8d, 0xb8159f, 0x09e5bc,
    0x25318d, 0x3974f7, 0x1c0530, 0x010c0d, 0x68084b, 0x58ee2c, 0x90aa47, 0x02e774, 0x24d6bd,
    0xa67df7, 0x72486e, 0xef169f, 0xa6948e, 0xf691b4, 0x5153d1, 0xf20acf, 0x339820, 0x7e4bf5,
    0x6863b2, 0x5f3edd, 0x035d40, 0x7f8985, 0x295255, 0xc06437, 0x10d86d, 0x324832, 0x754c5b,
    0xd4714e, 0x6e5445, 0xc1090b, 0x69f52a, 0xd56614, 0x9d0727, 0x50045d, 0xdb3bb4, 0xc576ea,
    0x17f987, 0x7d6b49, 0xba271d, 0x296996, 0xacccc6, 0x5414ad, 0x6ae290, 0x89d988, 0x50722c,
    0xbea404, 0x940777, 0x7030f3, 0x27fc00, 0xa871ea, 0x49c266, 0x3de064, 0x83dd97, 0x973fa3,
    0xfd9443, 0x8c860d, 0xde4131, 0x9d3992, 0x8c70dd, 0xe7b717, 0x3bdf08, 0x2b3715, 0xa0805c,
    0x93805a, 0x921110, 0xd8e80f, 0xaf806c, 0x4bffdb, 0x0f9038, 0x761859, 0x15a562, 0xbbcb61,
    0xb989c7, 0xbd4010, 0x04f2d2, 0x277549, 0xf6b6eb, 0xbb22db, 0xaa140a, 0x2f2689, 0x768364,
    0x333b09, 0x1a940e, 0xaa3a51, 0xc2a31d, 0xaeedaf, 0x12265c, 0x4dc26d, 0x9c7a2d, 0x9756c0,
    0x833f03, 0xf6f009, 0x8c402b, 0x99316d, 0x07b439, 0x15200c, 0x5bc3d8, 0xc492f5, 0x4badc6,
    0xa5ca4e, 0xcd37a7, 0x36a9e6, 0x9492ab, 0x6842dd, 0xde6319, 0xef8c76, 0x528b68, 0x37dbfc,
    0xaba1ae, 0x3115df, 0xa1ae00, 0xdafb0c, 0x664d64, 0xb705ed, 0x306529, 0xbf5657, 0x3aff47,
    0xb9f96a, 0xf3be75, 0xdf9328, 0x3080ab, 0xf68c66, 0x15cb04, 0x0622fa, 0x1de4d9, 0xa4b33d,
    0x8f1b57, 0x09cd36, 0xe9424e, 0xa4be13, 0xb52333, 0x1aaaf0, 0xa8654f, 0xa5c1d2, 0x0f3f0b,
    0xcd785b, 0x76f923, 0x048b7b, 0x721789, 0x53a6c6, 0xe26e6f, 0x00ebef, 0x584a9b, 0xb7dac4,
    0xba66aa, 0xcfcf76, 0x1d02d1, 0x2df1b1, 0xc1998c, 0x77adc3, 0xda4886, 0xa05df7, 0xf480c6,
    0x2ff0ac, 0x9aecdd, 0xbc5c3f, 0x6dded0, 0x1fc790, 0xb6db2a, 0x3a25a3, 0x9aaf00, 0x9353ad,
    0x0457b6, 0xb42d29, 0x7e804b, 0xa707da, 0x0eaa76, 0xa1597b, 0x2a1216, 0x2db7dc, 0xfde5fa,
    0xfedb89, 0xfdbe89, 0x6c76e4, 0xfca906, 0x70803e, 0x156e85, 0xff87fd, 0x073e28, 0x336761,
    0x86182a, 0xeabd4d, 0xafe7b3, 0x6e6d8f, 0x396795, 0x5bbf31, 0x48d784, 0x16df30, 0x432dc7,
    0x356125, 0xce70c9, 0xb8cb30, 0xfd6cbf, 0xa200a4, 0xe46c05, 0xa0dd5a, 0x476f21, 0xd21262,
    0x845cb9, 0x496170, 0xe0566b, 0x015299, 0x375550, 0xb7d51e, 0xc4f133, 0x5f6e13, 0xe4305d,
    0xa92e85, 0xc3b21d, 0x3632a1, 0xa4b708, 0xd4b1ea, 0x21f716, 0xe4698f, 0x77ff27, 0x80030c,
    0x2d408d, 0xa0cd4f, 0x99a520, 0xd3a2b3, 0x0a5d2f, 0x42f9b4, 0xcbda11, 0xd0be7d, 0xc1db9b,
    0xbd17ab, 0x81a2ca, 0x5c6a08, 0x17552e, 0x550027, 0xf0147f, 0x8607e1, 0x640b14, 0x8d4196,
    0xdebe87, 0x2afdda, 0xb6256b, 0x34897b, 0xfef305, 0x9ebfb9, 0x4f6a68, 0xa82a4a, 0x5ac44f,
    0xbcf82d, 0x985ad7, 0x95c7f4, 0x8d4d0d, 0xa63a20, 0x5f57a4, 0xb13f14, 0x953880, 0x0120cc,
    0x86dd71, 0xb6dec9, 0xf560bf, 0x11654d, 0x6b0701, 0xacb08c, 0xd0c0b2, 0x485551, 0x0efb1e,
    0xc37295, 0x3b06a3, 0x3540c0, 0x7bdc06, 0xcc45e0, 0xfa294e, 0xc8cad6, 0x41f3e8, 0xde647c,
    0xd8649b, 0x31bed9, 0xc397a4, 0xd45877, 0xc5e369, 0x13daf0, 0x3c3aba, 0x461846, 0x5f7555,
    0xf5bdd2, 0xc6926e, 0x5d2eac, 0xed440e, 0x423e1c, 0x87c461, 0xe9fd29, 0xf3d6e7, 0xca7c22,
    0x35916f, 0xc5e008, 0x8dd7ff, 0xe26a6e, 0xc6fdb0, 0xc10893, 0x745d7c, 0xb2ad6b, 0x9d6ecd,
    0x7b723e, 0x6a11c6, 0xa9cff7, 0xdf7329, 0xbac9b5, 0x5100b7, 0x0db2e2, 0x24ba74, 0x607de5,
    0x8ad874, 0x2c150d, 0x0c1881, 0x94667e, 0x162901, 0x767a9f, 0xbefdfd, 0xef4556, 0x367ed9,
    0x13d9ec, 0xb9ba8b, 0xfc97c4, 0x27a831, 0xc36ef1, 0x36c594, 0x56a8d8, 0xb5a8b4, 0x0ecccf,
    0x2d8912, 0x34576f, 0x89562c, 0xe3ce99, 0xb920d6, 0xaa5e6b, 0x9c2a3e, 0xcc5f11, 0x4a0bfd,
    0xfbf4e1, 0x6d3b8e, 0x2c86e2, 0x84d4e9, 0xa9b4fc, 0xd1eeef, 0xc9352e, 0x61392f, 0x442138,
    0xc8d91b, 0x0afc81, 0x6a4afb, 0xd81c2f, 0x84b453, 0x8c994e, 0xcc2254, 0xdc552a, 0xd6c6c0,
    0x96190b, 0xb8701a, 0x649569, 0x605a26, 0xee523f, 0x0f117f, 0x11b5f4, 0xf5cbfc, 0x2dbc34,
    0xeebc34, 0xcc5de8, 0x605edd, 0x9b8e67, 0xef3392, 0xb817c9, 0x9b5861, 0xbc57e1, 0xc68351,
    0x103ed8, 0x4871dd, 0xdd1c2d, 0xa118af, 0x462c21, 0xd7f359, 0x987ad9, 0xc0549e, 0xfa864f,
    0xfc0656, 0xae79e5, 0x362289, 0x22ad38, 0xdc9367, 0xaae855, 0x382682, 0x9be7ca, 0xa40d51,
    0xb13399, 0x0ed7a9, 0x480569, 0xf0b265, 0xa7887f, 0x974c88, 0x36d1f9, 0xb39221, 0x4a827b,
    0x21cf98, 0xdc9f40, 0x5547dc, 0x3a74e1, 0x42eb67, 0xdf9dfe, 0x5fd45e, 0xa4677b, 0x7aacba,
    0xa2f655, 0x23882b, 0x55ba41, 0x086e59, 0x862a21, 0x834739, 0xe6e389, 0xd49ee5, 0x40fb49,
    0xe956ff, 0xca0f1c, 0x8a59c5, 0x2bfa94, 0xc5c1d3, 0xcfc50f, 0xae5adb, 0x86c547, 0x624385,
    0x3b8621, 0x94792c, 0x876110, 0x7b4c2a, 0x1a2c80, 0x12bf43, 0x902688, 0x893c78, 0xe4c4a8,
    0x7bdbe5, 0xc23ac4, 0xeaf426, 0x8a67f7, 0xbf920d, 0x2ba365, 0xb1933d, 0x0b7cbd, 0xdc51a4,
    0x63dd27, 0xdde169, 0x19949a, 0x9529a8, 0x28ce68, 0xb4ed09, 0x209f44, 0xca984e, 0x638270,
    0x237c7e, 0x32b90f, 0x8ef5a7, 0xe75614, 0x08f121, 0x2a9db5, 0x4d7e6f, 0x5119a5, 0xabf9b5,
    0xd6df82, 0x61dd96, 0x023616, 0x9f3ac4, 0xa1a283, 0x6ded72, 0x7a8d39, 0xa9b882, 0x5c326b,
    0x5b2746, 0xed3400, 0x7700d2, 0x55f4fc, 0x4d5901, 0x8071e0]"

definition PIO2 :: "f64 list" where
  "PIO2 =
  [f64_lit 157079625129699707031 (10 ^ 20),
   f64_lit 754978941586159635335 (10 ^ 28),
   f64_lit 539030252995776476554 (10 ^ 35),
   f64_lit 328200341580791294123 (10 ^ 42),
   f64_lit 127065575308067607349 (10 ^ 49),
   f64_lit 122933308981111328932 (10 ^ 56),
   f64_lit 273370053816464559624 (10 ^ 64),
   f64_lit 216741683877804819444 (10 ^ 71)]"

definition x1p24 :: f64 where "x1p24 = 0x4170000000000000"
definition x1p_24 :: f64 where "x1p_24 = 0x3e70000000000000"

text \<open>\<open>*xs.get_mut(i).expect(..) = v\<close>.\<close>

definition put_at :: "'a list \<Rightarrow> nat \<Rightarrow> 'a \<Rightarrow> ('e, 'a list) res" where
  "put_at xs i v = (if i < length xs then Ok (xs[i := v]) else Panic)"

text \<open>\<open>fw += x[j] * f[jx + i - j]\<close> for \<open>j\<close> up to \<open>jx\<close>.\<close>

definition large_term :: "f64 list \<Rightarrow> f64 list \<Rightarrow> nat \<Rightarrow> nat \<Rightarrow> ('e, f64) res" where
  "large_term x f jx i =
    rfold (\<lambda>j fw. rbind (index_at x j) (\<lambda>a. rbind (index_at f (jx + i - j)) (\<lambda>b.
      Ok (f64_add fw (f64_mul a b))))) [0..<Suc jx] 0"

definition large_setup :: "f64 list \<Rightarrow> nat \<Rightarrow> nat \<Rightarrow> nat \<Rightarrow> ('e, f64 list \<times> f64 list) res" where
  "large_setup x jx jv jk =
    rbind (rfold (\<lambda>i f. let j = int jv - int jx + int i in
      if j < 0 then put_at f i 0
      else rbind (index_at IPIO2 (nat j)) (\<lambda>v. put_at f i (f64_of_int v))) [0..<Suc (jx + jk)] (replicate 20 0)) (\<lambda>f.
    rbind (rfold (\<lambda>i q. rbind (large_term x f jx i) (\<lambda>fw. put_at q i fw)) [0..<Suc jk] (replicate 20 0)) (\<lambda>q.
    Ok (f, q)))"

definition distill :: "f64 list \<Rightarrow> nat \<Rightarrow> int list \<Rightarrow> ('e, int list \<times> f64) res" where
  "distill q jz iq =
    rbind (index_at q jz) (\<lambda>z.
    rbind (rfold (\<lambda>j (iq, z, i).
        let fw = f64_of_int (f64_to_i32 (f64_mul x1p_24 z)) in
        rbind (put_at iq i (f64_to_i32 (f64_sub z (f64_mul x1p24 fw)))) (\<lambda>iq.
        rbind (index_at q (j - 1)) (\<lambda>v. Ok (iq, f64_add v fw, Suc i)))) (rev [1..<Suc jz]) (iq, z, 0)) (\<lambda>(iq, z, i).
    Ok (iq, z)))"

text \<open>\<open>n\<close>, the fraction \<open>z\<close>, the digits and \<open>ih\<close>; the shifts of an \<open>i32\<close> are arithmetic.\<close>

definition compute_n :: "int list \<Rightarrow> f64 \<Rightarrow> int \<Rightarrow> nat \<Rightarrow> ('e, int \<times> f64 \<times> int list \<times> int) res" where
  "compute_n iq z q0 jz =
    (let z = scalbn z q0;
         z = f64_sub z (f64_mul (f64_of_int 8) (floor_libm (f64_mul z (f64_lit 1 8))));
         n = f64_to_i32 z;
         z = f64_sub z (f64_of_int n)
     in if 0 < q0 then
          rbind (index_at iq (jz - 1)) (\<lambda>v.
          let i = drop_bit (nat (24 - q0)) v in
          rbind (put_at iq (jz - 1) (v - push_bit (nat (24 - q0)) i)) (\<lambda>iq.
          rbind (index_at iq (jz - 1)) (\<lambda>v. Ok (n + i, z, iq, drop_bit (nat (23 - q0)) v))))
        else if q0 = 0 then rbind (index_at iq (jz - 1)) (\<lambda>v. Ok (n, z, iq, drop_bit 23 v))
        else Ok (n, z, iq, if f64_le (f64_lit 1 2) z then 2 else 0))"

definition complement_q :: "int \<Rightarrow> f64 \<Rightarrow> int list \<Rightarrow> int \<Rightarrow> int \<Rightarrow> nat \<Rightarrow> ('e, int \<times> f64 \<times> int list) res" where
  "complement_q n z iq ih q0 jz =
    (if \<not> 0 < ih then Ok (n, z, iq)
     else
       rbind (rfold (\<lambda>i (iq, carry). rbind (index_at iq i) (\<lambda>j.
         if \<not> carry then (if j \<noteq> 0 then rbind (put_at iq i (0x1000000 - j)) (\<lambda>iq. Ok (iq, True)) else Ok (iq, carry))
         else rbind (put_at iq i (0xffffff - j)) (\<lambda>iq. Ok (iq, carry)))) [0..<jz] (iq, False)) (\<lambda>(iq, carry).
       rbind (if q0 = 1 then rbind (index_at iq (jz - 1)) (\<lambda>v. put_at iq (jz - 1) (v AND 0x7fffff))
              else if q0 = 2 then rbind (index_at iq (jz - 1)) (\<lambda>v. put_at iq (jz - 1) (v AND 0x3fffff))
              else Ok iq) (\<lambda>iq.
       Ok (n + 1,
           if ih = 2 then
             (let z = f64_sub (f64_of_int 1) z in if carry then f64_sub z (scalbn (f64_of_int 1) q0) else z)
           else z, iq))))"

text \<open>\<open>while iq[jk - k] == 0 { k += 1 }\<close>: the index underflows when the digits are used up.\<close>

fun terms_needed :: "int list \<Rightarrow> nat \<Rightarrow> nat \<Rightarrow> ('e, nat) res" where
  "terms_needed iq jk 0 = Panic"
| "terms_needed iq jk (Suc i) =
    rbind (index_at iq i) (\<lambda>v. if v = 0 then terms_needed iq jk i else Ok (jk - i))"

definition extend_q :: "f64 list \<Rightarrow> nat \<Rightarrow> nat \<Rightarrow> nat \<Rightarrow> nat \<Rightarrow> f64 list \<Rightarrow> f64 list \<Rightarrow> ('e, f64 list \<times> f64 list) res" where
  "extend_q x jx jv jz k f q =
    rfold (\<lambda>i (f, q). rbind (index_at IPIO2 (jv + i)) (\<lambda>v.
      rbind (put_at f (jx + i) (f64_of_int v)) (\<lambda>f.
      rbind (large_term x f jx i) (\<lambda>fw. rbind (put_at q i fw) (\<lambda>q. Ok (f, q)))))) [Suc jz..<Suc (jz + k)] (f, q)"

text \<open>The loop \<open>'recompute\<close>. A round that asks for more terms has room for them in the arrays, so
  the measure is the number of unused entries.\<close>

record large_result =
  lr_n :: int
  lr_z :: f64
  lr_iq :: "int list"
  lr_ih :: int
  lr_jz :: nat
  lr_q :: "f64 list"

function recompute :: "f64 list \<Rightarrow> nat \<Rightarrow> nat \<Rightarrow> nat \<Rightarrow> int \<Rightarrow> f64 list \<Rightarrow> f64 list \<Rightarrow> int list \<Rightarrow> nat \<Rightarrow> ('e, large_result) res" where
  "recompute x jx jv jk q0 f q iq jz =
    rbind (distill q jz iq) (\<lambda>(iq, z).
    rbind (compute_n iq z q0 jz) (\<lambda>(n, z, iq, ih).
    rbind (complement_q n z iq ih q0 jz) (\<lambda>(n, z, iq).
    rbind (if f64_eq z 0
           then rbind (rfold (\<lambda>i j. rbind (index_at iq i) (\<lambda>v. Ok (j OR v))) (rev [jk..<jz]) 0) (\<lambda>j. Ok (j = 0))
           else Ok False) (\<lambda>more.
    if \<not> more then Ok \<lparr>lr_n = n, lr_z = z, lr_iq = iq, lr_ih = ih, lr_jz = jz, lr_q = q\<rparr>
    else
      rbind (terms_needed iq jk jk) (\<lambda>k.
      rbind (extend_q x jx jv jz k f q) (\<lambda>(f, q).
      if 20 \<le> jz + k \<or> k = 0 then Panic
      else recompute x jx jv jk q0 f q iq (jz + k)))))))"
  by auto
termination
  by (relation "measure (\<lambda>(x, jx, jv, jk, q0, f, q, iq, jz). 20 - jz)") auto

declare recompute.simps [simp del]

text \<open>\<open>jz -= 1; q0 -= 24; while iq[jz] == 0 { .. }\<close>.\<close>

fun chop_zeros :: "int list \<Rightarrow> nat \<Rightarrow> int \<Rightarrow> ('e, nat \<times> int) res" where
  "chop_zeros iq 0 q0 = Panic"
| "chop_zeros iq (Suc jz) q0 =
    rbind (index_at iq jz) (\<lambda>v. if v = 0 then chop_zeros iq jz (q0 - 24) else Ok (jz, q0 - 24))"

definition break_z :: "int list \<Rightarrow> f64 \<Rightarrow> nat \<Rightarrow> int \<Rightarrow> ('e, int list \<times> nat \<times> int) res" where
  "break_z iq z jz q0 =
    (if f64_eq z 0 then rbind (chop_zeros iq jz q0) (\<lambda>(jz, q0). Ok (iq, jz, q0))
     else
       let z = scalbn z (- q0) in
       if f64_le x1p24 z then
         let fw = f64_of_int (f64_to_i32 (f64_mul x1p_24 z)) in
         rbind (put_at iq jz (f64_to_i32 (f64_sub z (f64_mul x1p24 fw)))) (\<lambda>iq.
         rbind (put_at iq (jz + 1) (f64_to_i32 fw)) (\<lambda>iq. Ok (iq, jz + 1, q0 + 24)))
       else rbind (put_at iq jz (f64_to_i32 z)) (\<lambda>iq. Ok (iq, jz, q0)))"

definition to_floats :: "int list \<Rightarrow> nat \<Rightarrow> int \<Rightarrow> f64 list \<Rightarrow> ('e, f64 list) res" where
  "to_floats iq jz q0 q =
    rbind (rfold (\<lambda>i (q, fw). rbind (index_at iq i) (\<lambda>v.
      rbind (put_at q i (f64_mul fw (f64_of_int v))) (\<lambda>q. Ok (q, f64_mul fw x1p_24)))) (rev [0..<Suc jz])
      (q, scalbn (f64_of_int 1) q0)) (\<lambda>(q, _). Ok q)"

definition times_pio2 :: "f64 list \<Rightarrow> nat \<Rightarrow> nat \<Rightarrow> ('e, f64 list) res" where
  "times_pio2 q jz jp =
    rfold (\<lambda>i fq. rbind (rfold (\<lambda>k fw. rbind (index_at PIO2 k) (\<lambda>p. rbind (index_at q (i + k)) (\<lambda>v.
        Ok (f64_add fw (f64_mul p v))))) [0..<Suc (min jp (jz - i))] 0) (\<lambda>fw.
      put_at fq (jz - i) fw)) (rev [0..<Suc jz]) (replicate 20 0)"

definition sum_down :: "f64 list \<Rightarrow> nat \<Rightarrow> nat \<Rightarrow> ('e, f64) res" where
  "sum_down fq lo jz = rfold (\<lambda>i fw. rbind (index_at fq i) (\<lambda>v. Ok (f64_add fw v))) (rev [lo..<Suc jz]) 0"

definition carry_pass :: "nat \<Rightarrow> nat \<Rightarrow> f64 list \<Rightarrow> ('e, f64 list) res" where
  "carry_pass lo jz fq =
    rfold (\<lambda>i fq. rbind (index_at fq (i - 1)) (\<lambda>a. rbind (index_at fq i) (\<lambda>b.
      let fw = f64_add a b in
      rbind (put_at fq i (f64_add b (f64_sub a fw))) (\<lambda>fq. put_at fq (i - 1) fw)))) (rev [lo..<Suc jz]) fq"

definition compress_fq :: "f64 list \<Rightarrow> nat \<Rightarrow> int \<Rightarrow> nat \<Rightarrow> f64 list \<Rightarrow> ('e, f64 list) res" where
  "compress_fq fq jz ih prec y =
    (let sg = (\<lambda>v. if ih = 0 then v else f64_neg v) in
     if prec = 0 then rbind (sum_down fq 0 jz) (\<lambda>fw. put_at y 0 (sg fw))
     else if prec = 1 \<or> prec = 2 then
       rbind (sum_down fq 0 jz) (\<lambda>fw. rbind (put_at y 0 (sg fw)) (\<lambda>y.
       rbind (index_at fq 0) (\<lambda>v.
       rbind (rfold (\<lambda>i fw. rbind (index_at fq i) (\<lambda>v. Ok (f64_add fw v))) [1..<Suc jz] (f64_sub v fw)) (\<lambda>fw.
       put_at y 1 (sg fw)))))
     else if prec = 3 then
       rbind (carry_pass 1 jz fq) (\<lambda>fq. rbind (carry_pass 2 jz fq) (\<lambda>fq.
       rbind (sum_down fq 2 jz) (\<lambda>fw. rbind (index_at fq 0) (\<lambda>a. rbind (index_at fq 1) (\<lambda>b.
       rbind (put_at y 0 (sg a)) (\<lambda>y. rbind (put_at y 1 (sg b)) (\<lambda>y. put_at y 2 (sg fw))))))))
     else Ok y)"

text \<open>The result is \<open>n\<close> and the remainder in \<open>y\<close>.\<close>

definition rem_pio2_large :: "f64 list \<Rightarrow> f64 list \<Rightarrow> int \<Rightarrow> nat \<Rightarrow> ('e, int \<times> f64 list) res" where
  "rem_pio2_large x y e0 prec =
    rbind (index_at INIT_JK prec) (\<lambda>jk.
    if x = [] then Panic
    else
      let jp = jk; jx = length x - 1; jv = nat (max 0 ((e0 - 3) div 24)); q0 = e0 - 24 * (int jv + 1) in
      rbind (large_setup x jx jv jk) (\<lambda>(f, q).
      rbind (recompute x jx jv jk q0 f q (replicate 20 0) jk) (\<lambda>r.
      rbind (break_z (lr_iq r) (lr_z r) (lr_jz r) q0) (\<lambda>(iq, jz, q0).
      rbind (to_floats iq jz q0 (lr_q r)) (\<lambda>q.
      rbind (times_pio2 q jz jp) (\<lambda>fq.
      rbind (compress_fq fq jz (lr_ih r) prec y) (\<lambda>y.
      Ok (lr_n r AND 7, y))))))))"

section \<open>Argument reduction\<close>

definition EPS :: f64 where "EPS = f64_lit 22204460492503131 (10 ^ 32)"
definition INV_PIO2 :: f64 where "INV_PIO2 = f64_lit 636619772367581382433 (10 ^ 21)"
definition PIO2_1 :: f64 where "PIO2_1 = f64_lit 157079632673412561417 (10 ^ 20)"
definition PIO2_1T :: f64 where "PIO2_1T = f64_lit 607710050650619224932 (10 ^ 31)"
definition PIO2_2 :: f64 where "PIO2_2 = f64_lit 60771005063039659766 (10 ^ 30)"
definition PIO2_2T :: f64 where "PIO2_2T = f64_lit 202226624879595063154 (10 ^ 41)"
definition PIO2_3 :: f64 where "PIO2_3 = f64_lit 20222662487111664558 (10 ^ 40)"
definition PIO2_3T :: f64 where "PIO2_3T = f64_lit 847842766036889956997 (10 ^ 52)"
definition TO_INT :: f64 where "TO_INT = f64_div (f64_lit 3 2) EPS"

definition medium :: "f64 \<Rightarrow> u32 \<Rightarrow> int \<times> f64 \<times> f64" where
  "medium x ix =
    (let tmp = f64_add (f64_mul x INV_PIO2) TO_INT;
         f_n = f64_sub tmp TO_INT;
         n = f64_to_i32 f_n;
         r = f64_sub x (f64_mul f_n PIO2_1);
         w = f64_mul f_n PIO2_1T;
         y0 = f64_sub r w;
         ey = uint (drop_bit 52 y0 AND 0x7ff);
         ex = uint (drop_bit 20 ix);
         (r, w, y0) =
          (if 16 < ex - ey then
             let t = r; w = f64_mul f_n PIO2_2; r = f64_sub t w;
                 w = f64_sub (f64_mul f_n PIO2_2T) (f64_sub (f64_sub t r) w);
                 y0 = f64_sub r w;
                 ey = uint (drop_bit 52 y0 AND 0x7ff)
             in if 49 < ex - ey then
                  let t = r; w = f64_mul f_n PIO2_3; r = f64_sub t w;
                      w = f64_sub (f64_mul f_n PIO2_3T) (f64_sub (f64_sub t r) w)
                  in (r, w, f64_sub r w)
                else (r, w, y0)
           else (r, w, y0))
     in (n, y0, f64_sub (f64_sub r y0) w))"

text \<open>One step with \<open>k\<close> times the two parts of pi/2; \<open>k = 1\<close> is not multiplied in the code, which
  gives the same number.\<close>

definition one_round :: "f64 \<Rightarrow> bool \<Rightarrow> int \<Rightarrow> int \<times> f64 \<times> f64" where
  "one_round x neg k =
    (let hi = (if k = 1 then PIO2_1 else f64_mul (f64_of_int k) PIO2_1);
         lo = (if k = 1 then PIO2_1T else f64_mul (f64_of_int k) PIO2_1T)
     in if \<not> neg then
          let z = f64_sub x hi; y0 = f64_sub z lo; y1 = f64_sub (f64_sub z y0) lo in (k, y0, y1)
        else
          let z = f64_add x hi; y0 = f64_add z lo; y1 = f64_add (f64_sub z y0) lo in (- k, y0, y1))"

text \<open>\<open>while i != 0 && tx[i] == 0.0 { i -= 1 }\<close>.\<close>

fun skip_zero_terms :: "f64 list \<Rightarrow> nat \<Rightarrow> nat" where
  "skip_zero_terms tx 0 = 0"
| "skip_zero_terms tx (Suc i) = (if f64_eq (tx ! Suc i) 0 then skip_zero_terms tx i else Suc i)"

definition rem_pio2 :: "f64 \<Rightarrow> ('e, int \<times> f64 \<times> f64) res" where
  "rem_pio2 x =
    (let neg = (drop_bit 63 x \<noteq> 0); ix = high_word x AND 0x7fffffff in
     if ix \<le> 0x400f6a7a then
       Ok (if ix AND 0xfffff = 0x921fb then medium x ix
           else one_round x neg (if ix \<le> 0x4002d97c then 1 else 2))
     else if ix \<le> 0x401c463b then
       Ok (if ix \<le> 0x4015fdbc then (if ix = 0x4012d97c then medium x ix else one_round x neg 3)
           else (if ix = 0x401921fb then medium x ix else one_round x neg 4))
     else if ix < 0x413921fb then Ok (medium x ix)
     else if 0x7ff00000 \<le> ix then Ok (0, f64_sub x x, f64_sub x x)
     else
       let z = (x AND 0x000fffffffffffff) OR push_bit 52 (word_of_int (0x3ff + 23));
           t0 = f64_of_int (f64_to_i32 z); z = f64_mul (f64_sub z t0) x1p24;
           t1 = f64_of_int (f64_to_i32 z); z = f64_mul (f64_sub z t1) x1p24;
           tx = [t0, t1, z];
           i = skip_zero_terms tx 2
       in rbind (rem_pio2_large (take (Suc i) tx) (replicate 3 0) (uint (drop_bit 20 ix) - (0x3ff + 23)) 1) (\<lambda>(n, ty).
          Ok (if neg then (- n, f64_neg (ty ! 0), f64_neg (ty ! 1)) else (n, ty ! 0, ty ! 1))))"

section \<open>Sine and cosine\<close>

definition sin_libm :: "f64 \<Rightarrow> ('e, f64) res" where
  "sin_libm x =
    (let ix = high_word x AND 0x7fffffff in
     if ix \<le> 0x3fe921fb then Ok (if ix < 0x3e500000 then x else k_sin x 0 0)
     else if 0x7ff00000 \<le> ix then Ok (f64_sub x x)
     else rbind (rem_pio2 x) (\<lambda>(n, y0, y1).
       let m = n AND 3 in
       Ok (if m = 0 then k_sin y0 y1 1 else if m = 1 then k_cos y0 y1
           else if m = 2 then f64_neg (k_sin y0 y1 1) else f64_neg (k_cos y0 y1))))"

definition cos_libm :: "f64 \<Rightarrow> ('e, f64) res" where
  "cos_libm x =
    (let ix = high_word x AND 0x7fffffff in
     if ix \<le> 0x3fe921fb then
       Ok (if ix < 0x3e46a09e \<and> f64_to_i32 x = 0 then f64_of_int 1 else k_cos x 0)
     else if 0x7ff00000 \<le> ix then Ok (f64_sub x x)
     else rbind (rem_pio2 x) (\<lambda>(n, y0, y1).
       let m = n AND 3 in
       Ok (if m = 0 then k_cos y0 y1 else if m = 1 then f64_neg (k_sin y0 y1 1)
           else if m = 2 then f64_neg (k_cos y0 y1) else k_sin y0 y1 1)))"

definition exp_f64 :: "f64 \<Rightarrow> f64" where "exp_f64 x = exp_libm x"
definition ln_f64 :: "f64 \<Rightarrow> f64" where "ln_f64 x = log_libm x"
definition sin_f64 :: "f64 \<Rightarrow> ('e, f64) res" where "sin_f64 x = sin_libm x"
definition cos_f64 :: "f64 \<Rightarrow> ('e, f64) res" where "cos_f64 x = cos_libm x"

section \<open>Checks\<close>

text \<open>The decimal constants are rounded to the bit patterns that the comments of the code give.\<close>

lemma exp_constants:
  "EXP_LN2HI = 0x3fe62e42fee00000"
  "EXP_LN2LO = 0x3dea39ef35793c76"
  "EXP_INVLN2 = 0x3ff71547652b82fe"
  "EXP_P1 = 0x3fc555555555553e"
  "EXP_P2 = 0xbf66c16c16bebd93"
  "EXP_P3 = 0x3f11566aaf25de2c"
  "EXP_P4 = 0xbebbbd41c5d26bf1"
  "EXP_P5 = 0x3e66376972bea4d0"
  by code_simp+

lemma log_constants:
  "LOG_LN2_HI = 0x3fe62e42fee00000"
  "LOG_LN2_LO = 0x3dea39ef35793c76"
  "LOG_LG1 = 0x3fe5555555555593"
  "LOG_LG2 = 0x3fd999999997fa04"
  "LOG_LG3 = 0x3fd2492494229359"
  "LOG_LG4 = 0x3fcc71c51d8e78af"
  "LOG_LG5 = 0x3fc7466496cb03de"
  "LOG_LG6 = 0x3fc39a09d078c69f"
  "LOG_LG7 = 0x3fc2f112df3e5244"
  by code_simp+

lemma cos_constants:
  "COS_C1 = 0x3fa555555555554c"
  "COS_C2 = 0xbf56c16c16c15177"
  "COS_C3 = 0x3efa01a019cb1590"
  "COS_C4 = 0xbe927e4f809c52ad"
  "COS_C5 = 0x3e21ee9ebdb4b1c4"
  "COS_C6 = 0xbda8fae9be8838d4"
  by code_simp+

lemma sin_constants:
  "SIN_S1 = 0xbfc5555555555549"
  "SIN_S2 = 0x3f8111111110f8a6"
  "SIN_S3 = 0xbf2a01a019c161d5"
  "SIN_S4 = 0x3ec71de357b1fe7d"
  "SIN_S5 = 0xbe5ae5e68a2b9ceb"
  "SIN_S6 = 0x3de5d93a5acfd57c"
  by code_simp+

lemma reduction_constants:
  "INV_PIO2 = 0x3fe45f306dc9c883"
  "PIO2_1 = 0x3ff921fb54400000"
  "PIO2_1T = 0x3dd0b4611a626331"
  "PIO2_2 = 0x3dd0b4611a600000"
  "PIO2_2T = 0x3ba3198a2e037073"
  "PIO2_3 = 0x3ba3198a2e000000"
  "PIO2_3T = 0x397b839a252049c1"
  by code_simp+

lemma pio2_constants: "PIO2 = [0x3ff921fb40000000, 0x3e74442d00000000, 0x3cf8469880000000, 0x3b78cc5160000000, 0x39f01b8380000000, 0x387a252040000000, 0x36e3822280000000, 0x3569f31d00000000]"
  by code_simp

lemma to_int_constant: "TO_INT = 0x4338000000000000"
  by code_simp

declare exp_constants [code] log_constants [code] cos_constants [code] sin_constants [code]
  reduction_constants [code] to_int_constant [code]

lemma anchor_words:
  "high_word 0 AND 0x7fffffff = 0" "high_word 0x3ff921fb54442d18 AND 0x7fffffff = 0x3ff921fb"
  "high_word 0x400921fb000fd5dd AND 0x7fffffff = 0x400921fb" "high_word 0x400921fb00000000 AND 0x7fffffff = 0x400921fb"
  by code_simp+

lemma anchor_medium1: "medium 0x3ff921fb54442d18 0x3ff921fb = (1, 0xbc91a62633145c07, 0x391f1976b7ed8fc0)"
  by code_simp

lemma anchor_medium2: "medium 0x400921fb000fd5dd 0x400921fb = (2, 0xbea50d15ced1a626, 0xbb398a2e03707300)"
  by code_simp

lemma anchor_medium3: "medium 0x400921fb00000000 0x400921fb = (2, 0xbea5110b4611a626, 0xbb398a2e03707300)"
  by code_simp

lemma anchor_reduction:
  "rem_pio2 0x3ff921fb54442d18 = Ok (1, 0xbc91a62633145c07, 0x391f1976b7ed8fc0)"
  "rem_pio2 0x400921fb000fd5dd = Ok (2, 0xbea50d15ced1a626, 0xbb398a2e03707300)"
  "rem_pio2 0x400921fb00000000 = Ok (2, 0xbea5110b4611a626, 0xbb398a2e03707300)"
  by (simp_all add: rem_pio2_def anchor_words anchor_medium1 anchor_medium2 anchor_medium3)

lemma anchor_kernels:
  "k_cos 0xbc91a62633145c07 0x391f1976b7ed8fc0 = 0x3ff0000000000000"
  "f64_neg (k_sin 0xbc91a62633145c07 0x391f1976b7ed8fc0 1) = 0x3c91a62633145c07"
  "f64_neg (k_sin 0xbea50d15ced1a626 0xbb398a2e03707300 1) = 0x3ea50d15ced1a4a2"
  "f64_to_i32 0 = 0" "f64_of_int 1 = 0x3ff0000000000000"
  by code_simp+

text \<open>The double-precision functions have the bit patterns that the repository's tests fix: for
  exp and ln, for sine and cosine at 0 and at pi/2, for the sine near pi, and for the argument
  reduction near pi.\<close>

theorem libm_f64_anchors:
  "exp_f64 (f64_of_int 1) = 0x4005bf0a8b14576a \<and> ln_f64 (f64_of_int 10000) = 0x40226bb1bbb55516 \<and>
   sin_f64 0 = Ok 0 \<and> cos_f64 0 = Ok (f64_of_int 1) \<and>
   sin_f64 0x3ff921fb54442d18 = Ok (f64_of_int 1) \<and> cos_f64 0x3ff921fb54442d18 = Ok 0x3c91a62633145c07 \<and>
   sin_f64 0x400921fb000fd5dd = Ok 0x3ea50d15ced1a4a2 \<and>
   rem_pio2 0x400921fb00000000 = Ok (2, 0xbea5110b4611a626, 0xbb398a2e03707300)"
proof (intro conjI)
  show "exp_f64 (f64_of_int 1) = 0x4005bf0a8b14576a" by code_simp
  show "ln_f64 (f64_of_int 10000) = 0x40226bb1bbb55516" by code_simp
qed (simp_all add: sin_f64_def sin_libm_def cos_f64_def cos_libm_def anchor_words anchor_reduction anchor_kernels)

end
