(* ===== verification/Canary.thy ===== *)
theory Canary
  imports Det_Num Sha256
begin

text \<open>
  The numeric canary, \<open>src/crates/det-num/src/canary.rs\<close>: six results of the numeric kernels are
  hashed and compared with a fixed digest. The last lemma evaluates the whole chain inside the
  logic, so the model of the floating-point operations, of the kernels and of SHA-256 agrees with
  the digest the repository pins.
\<close>

definition CANARY_EXPECTED :: "u8 list" where
  "CANARY_EXPECTED =
   [0x2e, 0x42, 0xe5, 0x50, 0x7c, 0xc1, 0xbf, 0xd7, 0x11, 0x1a, 0x5a, 0x0f, 0x3c, 0x28, 0x05, 0x6d,
    0x66, 0x9e, 0x05, 0xea, 0x0f, 0x62, 0x7d, 0x1b, 0x92, 0xd9, 0x2e, 0xc7, 0xfe, 0xc1, 0x7a, 0x5d]"

datatype canary_error = CanaryError (ce_expected: "u8 list") (ce_actual: "u8 list")

definition canary_x :: "f32 list" where
  "canary_x = [1, 2, f32_neg 0, f32_of_int 1, f32_lit (- 5) 2, f32_lit 13 4, f32_of_int 1024,
    f32_of_int (- 4096), f32_lit 1 8]"

definition canary_y :: "f32 list" where
  "canary_y = [f32_of_int 2, f32_of_int (- 3), f32_of_int 4, f32_lit 1 2, f32_of_int (- 8), f32_of_int 16,
    f32_lit (- 1) 4, f32_lit 1 32, f32_of_int (- 64)]"

definition canary_values :: "(canary_error, f32 list) res" where
  "canary_values =
    rbind (dot_f32_ref canary_x canary_y) (\<lambda>d.
    rbind (case f16_to_f32 0x3555 of Some v \<Rightarrow> Ok v | None \<Rightarrow> Diverge) (\<lambda>h.
    Ok [d, exp_f32 (f32_of_int (- 1)), exp_f32 0, h,
        f32_of_int (round_ties_even_i32 (f32_lit 5 2)), f32_add 1 1]))"

definition canary_hash :: "(canary_error, u8 list) res" where
  "canary_hash =
    rbind canary_values (\<lambda>vs.
    rbind (rfold (\<lambda>v h. sha_update h (le_bytes 4 (unat v))) vs sha_new) sha_finalize)"

definition run_canary :: "(canary_error, unit) res" where
  "run_canary = rbind canary_hash (\<lambda>actual.
    if actual = CANARY_EXPECTED then Ok () else Err (CanaryError CANARY_EXPECTED actual))"

section \<open>Evaluating the hash\<close>

text \<open>Code equations on integers for the conversions between words and bytes, whose definitions
  count in unary when they are evaluated.\<close>

primrec le_ints :: "nat \<Rightarrow> int \<Rightarrow> u8 list" where
  "le_ints 0 v = []"
| "le_ints (Suc n) v = word_of_int v # le_ints n (v div 256)"

lemma le_bytes_ints: "le_bytes n v = le_ints n (int v)"
  by (induction n arbitrary: v) (simp_all add: zdiv_int)

lemma int_from_be: "int (from_be bs) = foldl (\<lambda>a b. a * 256 + uint b) 0 bs"
proof (induction bs rule: rev_induct)
  case (snoc b bs)
  have "int (from_be (bs @ [b])) = int (from_be bs) * 256 + uint b"
    unfolding from_be_snoc uint_nat by simp
  then show ?case unfolding snoc.IH by simp
qed simp

lemma word_from_be_ints: "word_of_nat (from_be bs) = (word_of_int (foldl (\<lambda>a b. a * 256 + uint b) 0 bs) :: u32)"
  unfolding int_from_be [symmetric] by (rule of_int_of_nat_eq [symmetric])

lemma sha_load_ints:
  "sha_load block = foldl (\<lambda>w i. w[i := word_of_int (foldl (\<lambda>a b. a * 256 + uint b) 0 (slice block (4 * i) (4 * i + 4)))])
    (replicate 64 0) [0..<16]"
  by (simp only: sha_load_def word_from_be_ints)

lemma sha_padding_ints:
  "sha_padding n = 0x80 # replicate ((119 - n mod 64) mod 64) 0 @ rev (le_ints 8 (8 * int n mod 2 ^ 64))"
  by (simp only: sha_padding_def be_bytes_def le_bytes_ints zmod_int) simp

lemma sha256_spec_ints:
  "sha256_spec msg = concat (map (\<lambda>word. rev (le_ints 4 (uint word))) (fst (absorb sha_init (msg @ sha_padding (length msg)))))"
  by (simp only: sha256_spec_def be_bytes_def le_bytes_ints uint_nat)

declare sha_load_ints [code] sha_padding_ints [code] sha256_spec_ints [code]

lemma canary_values_known:
  "canary_values = Ok [0xc39fc000, 0x3ebc5ab2, 0x3f800000, 0x3eaaa000, 0x40000000, 2]"
  by code_simp

definition canary_bytes :: "u8 list" where
  "canary_bytes = concat (map (\<lambda>v. le_ints 4 (uint v)) [0xc39fc000, 0x3ebc5ab2, 0x3f800000, 0x3eaaa000, 0x40000000, 2 :: u32])"

lemma canary_digest: "sha256_spec canary_bytes = CANARY_EXPECTED"
  by code_simp

text \<open>The canary of the numeric crate passes: the digest of the six kernel results is the one pinned
  in the repository. This is a test of the model, on fixed inputs, and no statement on the kernels in
  general.\<close>

lemma canary_passes: "run_canary = Ok ()"
proof -
  let ?vs = "[0xc39fc000, 0x3ebc5ab2, 0x3f800000, 0x3eaaa000, 0x40000000, 2 :: u32]"
  have "rbind (rfold (\<lambda>c h. sha_update h c) (map (\<lambda>v. le_bytes 4 (unat v)) ?vs) sha_new) sha_finalize =
      (Ok (sha256_spec (concat (map (\<lambda>v. le_bytes 4 (unat v)) ?vs))) :: (canary_error, u8 list) res)"
    by (rule sha_update_chunks)
  moreover have "concat (map (\<lambda>v. le_bytes 4 (unat v)) ?vs) = canary_bytes"
    unfolding canary_bytes_def le_bytes_ints uint_nat ..
  ultimately have "canary_hash = Ok CANARY_EXPECTED"
    unfolding canary_hash_def canary_values_known rbind.simps by (simp only: rfold_map canary_digest)
  then show ?thesis by (simp add: run_canary_def)
qed

end
