(* ===== verification/Quant_Simd.thy ===== *)
theory Quant_Simd
  imports Quant
begin

text \<open>
  The SIMD variants of the block kernels in \<open>src/crates/det-quant/src/lib.rs\<close> and the dispatch between
  them. A 128-bit register of SSE2 is the list of its 16 bytes, because the code reads the same register
  as bytes, as 16-bit lanes and as 32-bit lanes; the registers of the other instruction sets are only
  ever read at one width and are lists of lanes. An intrinsic is modelled as its documentation defines
  it, with wrapping lanes. The locale \<open>exact_dot\<close> states what a vectorised dot product promises, and
  every instruction set is an instance of it.
\<close>

section \<open>Intrinsics\<close>

text \<open>Lanes of a register: little endian.\<close>

fun lanes16 :: "u8 list \<Rightarrow> 16 word list" where
  "lanes16 (a # b # bs) = word_cat b a # lanes16 bs"
| "lanes16 _ = []"

definition bytes16 :: "16 word list \<Rightarrow> u8 list" where
  "bytes16 ws = concat (map (\<lambda>w. [ucast w, ucast (drop_bit 8 w)]) ws)"

fun lanes32 :: "u8 list \<Rightarrow> 32 word list" where
  "lanes32 (a # b # c # d # bs) = word_of_nat (from_le [a, b, c, d]) # lanes32 bs"
| "lanes32 _ = []"

definition bytes32 :: "32 word list \<Rightarrow> u8 list" where
  "bytes32 ws = concat (map (\<lambda>w. le_bytes 4 (unat w)) ws)"

text \<open>\<open>madd\<close>: products of signed 16-bit lanes, added in pairs.\<close>

fun madd_lanes :: "16 word list \<Rightarrow> 16 word list \<Rightarrow> 32 word list" where
  "madd_lanes (a # b # xs) (c # d # ys) = (scast a * scast c + scast b * scast d) # madd_lanes xs ys"
| "madd_lanes _ _ = []"

text \<open>Pairwise widening addition, \<open>vpaddlq_s16\<close> and \<open>i32x4_extadd_pairwise_i16x8\<close>.\<close>

fun pairwise_add :: "16 word list \<Rightarrow> 32 word list" where
  "pairwise_add (a # b # xs) = (scast a + scast b) # pairwise_add xs"
| "pairwise_add _ = []"

definition add_lanes :: "32 word list \<Rightarrow> 32 word list \<Rightarrow> 32 word list" where
  "add_lanes xs ys = map2 (+) xs ys"

definition widening_mul :: "i8 list \<Rightarrow> i8 list \<Rightarrow> 16 word list" where
  "widening_mul xs ys = map2 (\<lambda>x y. scast x * scast y) xs ys"

text \<open>The operations on SSE2 registers.\<close>

fun interleave :: "u8 list \<Rightarrow> u8 list \<Rightarrow> u8 list" where
  "interleave (a # xs) (b # ys) = a # b # interleave xs ys"
| "interleave _ _ = []"

definition mm_cmpgt_epi8 :: "u8 list \<Rightarrow> u8 list \<Rightarrow> u8 list" where
  "mm_cmpgt_epi8 xs ys = map2 (\<lambda>x y. if sint y < sint x then - 1 else 0) xs ys"
definition mm_unpacklo_epi8 :: "u8 list \<Rightarrow> u8 list \<Rightarrow> u8 list" where
  "mm_unpacklo_epi8 xs ys = interleave (take 8 xs) (take 8 ys)"
definition mm_unpackhi_epi8 :: "u8 list \<Rightarrow> u8 list \<Rightarrow> u8 list" where
  "mm_unpackhi_epi8 xs ys = interleave (drop 8 xs) (drop 8 ys)"
definition mm_madd_epi16 :: "u8 list \<Rightarrow> u8 list \<Rightarrow> u8 list" where
  "mm_madd_epi16 xs ys = bytes32 (madd_lanes (lanes16 xs) (lanes16 ys))"
definition mm_add_epi32 :: "u8 list \<Rightarrow> u8 list \<Rightarrow> u8 list" where
  "mm_add_epi32 xs ys = bytes32 (add_lanes (lanes32 xs) (lanes32 ys))"
definition mm_and_si128 :: "u8 list \<Rightarrow> u8 list \<Rightarrow> u8 list" where
  "mm_and_si128 xs ys = map2 (\<lambda>x y. x AND y) xs ys"
definition mm_sub_epi8 :: "u8 list \<Rightarrow> u8 list \<Rightarrow> u8 list" where
  "mm_sub_epi8 xs ys = map2 (\<lambda>x y. x - y) xs ys"
definition mm_srli_epi16 :: "u8 list \<Rightarrow> nat \<Rightarrow> u8 list" where
  "mm_srli_epi16 xs n = bytes16 (map (drop_bit n) (lanes16 xs))"

section \<open>The kernels\<close>

text \<open>\<open>lanes.iter().sum()\<close> on \<open>i32\<close>.\<close>

definition sum_lanes :: "32 word list \<Rightarrow> (quant_error, int) res" where
  "sum_lanes lanes = rfold (\<lambda>w s. i32_add s (sint w)) lanes 0"

definition sse2_horizontal_sum_i32x4 :: "u8 list \<Rightarrow> (quant_error, int) res" where
  "sse2_horizontal_sum_i32x4 v = sum_lanes (lanes32 v)"

definition sse2_dot_i8x16 :: "u8 list \<Rightarrow> u8 list \<Rightarrow> u8 list" where
  "sse2_dot_i8x16 x y =
    (let zero = replicate 16 0;
         x_sign = mm_cmpgt_epi8 zero x; y_sign = mm_cmpgt_epi8 zero y;
         x_lo = mm_unpacklo_epi8 x x_sign; x_hi = mm_unpackhi_epi8 x x_sign;
         y_lo = mm_unpacklo_epi8 y y_sign; y_hi = mm_unpackhi_epi8 y y_sign
     in mm_add_epi32 (mm_madd_epi16 x_lo y_lo) (mm_madd_epi16 x_hi y_hi))"

text \<open>A load at an offset into an array of 32 bytes.\<close>

definition load :: "nat \<Rightarrow> nat \<Rightarrow> 'a list \<Rightarrow> 'a list" where
  "load n offset xs = take n (drop offset xs)"

definition sse2_dot_i8x32 :: "i8 list \<Rightarrow> i8 list \<Rightarrow> (quant_error, int) res" where
  "sse2_dot_i8x32 x y =
    (let x0 = load 16 0 x; x1 = load 16 16 x; y0 = load 16 0 y; y1 = load 16 16 y;
         sum0 = sse2_dot_i8x16 x0 y0; sum1 = sse2_dot_i8x16 x1 y1
     in sse2_horizontal_sum_i32x4 (mm_add_epi32 sum0 sum1))"

definition avx2_dot_i8x32 :: "i8 list \<Rightarrow> i8 list \<Rightarrow> (quant_error, int) res" where
  "avx2_dot_i8x32 x y =
    (let x0 = map scast (load 16 0 x); x1 = map scast (load 16 16 x);
         y0 = map scast (load 16 0 y); y1 = map scast (load 16 16 y);
         prod0 = madd_lanes x0 y0; prod1 = madd_lanes x1 y1
     in sum_lanes (add_lanes prod0 prod1))"

definition neon_add_i8x8_products :: "32 word list \<Rightarrow> i8 list \<Rightarrow> i8 list \<Rightarrow> nat \<Rightarrow> 32 word list" where
  "neon_add_i8x8_products acc x y offset =
    (let x8 = load 8 offset x; y8 = load 8 offset y; products = widening_mul x8 y8
     in add_lanes acc (pairwise_add products))"

text \<open>\<open>vaddvq_s32\<close> adds the lanes with wrap-around.\<close>

definition neon_dot_i8x32 :: "i8 list \<Rightarrow> i8 list \<Rightarrow> (quant_error, int) res" where
  "neon_dot_i8x32 x y =
    (let acc = replicate 4 0;
         acc = neon_add_i8x8_products acc x y 0;
         acc = neon_add_i8x8_products acc x y 8;
         acc = neon_add_i8x8_products acc x y 16;
         acc = neon_add_i8x8_products acc x y 24
     in Ok (sint (sum_list acc)))"

definition wasm_dot_i8x16 :: "i8 list \<Rightarrow> i8 list \<Rightarrow> 32 word list" where
  "wasm_dot_i8x16 x y =
    (let lo = widening_mul (take 8 x) (take 8 y); hi = widening_mul (drop 8 x) (drop 8 y)
     in add_lanes (pairwise_add lo) (pairwise_add hi))"

definition wasm_horizontal_sum_i32x4 :: "32 word list \<Rightarrow> (quant_error, int) res" where
  "wasm_horizontal_sum_i32x4 v =
    rbind (index_at v 0) (\<lambda>a. rbind (index_at v 1) (\<lambda>b. rbind (index_at v 2) (\<lambda>c. rbind (index_at v 3) (\<lambda>d.
    rbind (i32_add (sint a) (sint b)) (\<lambda>s. rbind (i32_add s (sint c)) (\<lambda>s. i32_add s (sint d)))))))"

definition wasm_dot_i8x32 :: "i8 list \<Rightarrow> i8 list \<Rightarrow> (quant_error, int) res" where
  "wasm_dot_i8x32 x y =
    (let x0 = load 16 0 x; x1 = load 16 16 x; y0 = load 16 0 y; y1 = load 16 16 y;
         sum0 = wasm_dot_i8x16 x0 y0; sum1 = wasm_dot_i8x16 x1 y1
     in wasm_horizontal_sum_i32x4 (add_lanes sum0 sum1))"

text \<open>The Q8_0 kernel of all four instruction sets, and the Q4_0 kernel of all but SSE2, around their
  own \<open>dot_i8x32\<close>.\<close>

definition q8_kernel :: "(i8 list \<Rightarrow> i8 list \<Rightarrow> (quant_error, int) res) \<Rightarrow> q8_0_block \<Rightarrow> q8a_block \<Rightarrow> (quant_error, f32) res" where
  "q8_kernel dot_i8x32 w a =
    rbind (dot_i8x32 (q8_q w) (qa_q a)) (\<lambda>isum.
    let scale = f32_mul (q8_d w) (qa_d a) in Ok (f32_mul scale (f32_of_int isum)))"

definition i8_sub :: "i8 \<Rightarrow> i8 \<Rightarrow> (quant_error, i8) res" where
  "i8_sub x y = (if - 128 \<le> sint x - sint y \<and> sint x - sint y < 128 then Ok (x - y) else Panic)"

definition unpack_q4 :: "u8 list \<Rightarrow> (quant_error, i8 list) res" where
  "unpack_q4 qs = traverse (\<lambda>i.
    rbind (if i < BLOCK div 2 then rbind (index_at qs i) (\<lambda>b. Ok (b AND 0x0f))
      else rbind (index_at qs (i - BLOCK div 2)) (\<lambda>b. Ok (drop_bit 4 b))) (\<lambda>nibble. i8_sub nibble 8)) [0..<BLOCK]"

definition q4_kernel :: "(i8 list \<Rightarrow> i8 list \<Rightarrow> (quant_error, int) res) \<Rightarrow> q4_0_block \<Rightarrow> q8a_block \<Rightarrow> (quant_error, f32) res" where
  "q4_kernel dot_i8x32 w a =
    rbind (unpack_q4 (q4_qs w)) (\<lambda>q.
    rbind (dot_i8x32 q (qa_q a)) (\<lambda>isum.
    let scale = f32_mul (q4_d w) (qa_d a) in Ok (f32_mul scale (f32_of_int isum))))"

definition sse2_dot_q4_0_q8a_block :: "q4_0_block \<Rightarrow> q8a_block \<Rightarrow> (quant_error, f32) res" where
  "sse2_dot_q4_0_q8a_block w a =
    (let packed = load 16 0 (q4_qs w); low_mask = replicate 16 0x0f; offset = replicate 16 8;
         q_lo = mm_sub_epi8 (mm_and_si128 packed low_mask) offset;
         q_hi = mm_sub_epi8 (mm_and_si128 (mm_srli_epi16 packed 4) low_mask) offset;
         a_lo = load 16 0 (qa_q a); a_hi = load 16 (BLOCK div 2) (qa_q a)
     in rbind (sse2_horizontal_sum_i32x4 (mm_add_epi32 (sse2_dot_i8x16 q_lo a_lo) (sse2_dot_i8x16 q_hi a_hi))) (\<lambda>isum.
     let scale = f32_mul (q4_d w) (qa_d a) in Ok (f32_mul scale (f32_of_int isum))))"

text \<open>The copies of the kernels in the modules of the instruction sets.\<close>

definition sse2_dot_q8_0_q8a_block :: "q8_0_block \<Rightarrow> q8a_block \<Rightarrow> (quant_error, f32) res" where
  "sse2_dot_q8_0_q8a_block = q8_kernel sse2_dot_i8x32"
definition avx2_dot_q8_0_q8a_block :: "q8_0_block \<Rightarrow> q8a_block \<Rightarrow> (quant_error, f32) res" where
  "avx2_dot_q8_0_q8a_block = q8_kernel avx2_dot_i8x32"
definition avx2_dot_q4_0_q8a_block :: "q4_0_block \<Rightarrow> q8a_block \<Rightarrow> (quant_error, f32) res" where
  "avx2_dot_q4_0_q8a_block = q4_kernel avx2_dot_i8x32"
definition neon_dot_q8_0_q8a_block :: "q8_0_block \<Rightarrow> q8a_block \<Rightarrow> (quant_error, f32) res" where
  "neon_dot_q8_0_q8a_block = q8_kernel neon_dot_i8x32"
definition neon_dot_q4_0_q8a_block :: "q4_0_block \<Rightarrow> q8a_block \<Rightarrow> (quant_error, f32) res" where
  "neon_dot_q4_0_q8a_block = q4_kernel neon_dot_i8x32"
definition wasm_dot_q8_0_q8a_block :: "q8_0_block \<Rightarrow> q8a_block \<Rightarrow> (quant_error, f32) res" where
  "wasm_dot_q8_0_q8a_block = q8_kernel wasm_dot_i8x32"
definition wasm_dot_q4_0_q8a_block :: "q4_0_block \<Rightarrow> q8a_block \<Rightarrow> (quant_error, f32) res" where
  "wasm_dot_q4_0_q8a_block = q4_kernel wasm_dot_i8x32"

lemmas module_kernels = sse2_dot_q8_0_q8a_block_def avx2_dot_q8_0_q8a_block_def avx2_dot_q4_0_q8a_block_def neon_dot_q8_0_q8a_block_def neon_dot_q4_0_q8a_block_def wasm_dot_q8_0_q8a_block_def wasm_dot_q4_0_q8a_block_def

section \<open>Dispatch\<close>

text \<open>The build configuration that selects a variant.\<close>

datatype simd_target = Portable | Sse2 | Avx2 | Neon | Wasm_Simd128

fun dot_q8_0_q8a_block :: "simd_target \<Rightarrow> q8_0_block \<Rightarrow> q8a_block \<Rightarrow> (quant_error, f32) res" where
  "dot_q8_0_q8a_block Avx2 = avx2_dot_q8_0_q8a_block"
| "dot_q8_0_q8a_block Sse2 = sse2_dot_q8_0_q8a_block"
| "dot_q8_0_q8a_block Neon = neon_dot_q8_0_q8a_block"
| "dot_q8_0_q8a_block Wasm_Simd128 = wasm_dot_q8_0_q8a_block"
| "dot_q8_0_q8a_block Portable = dot_q8_0_q8a_block_scalar"

fun dot_q4_0_q8a_block :: "simd_target \<Rightarrow> q4_0_block \<Rightarrow> q8a_block \<Rightarrow> (quant_error, f32) res" where
  "dot_q4_0_q8a_block Avx2 = avx2_dot_q4_0_q8a_block"
| "dot_q4_0_q8a_block Sse2 = sse2_dot_q4_0_q8a_block"
| "dot_q4_0_q8a_block Neon = neon_dot_q4_0_q8a_block"
| "dot_q4_0_q8a_block Wasm_Simd128 = wasm_dot_q4_0_q8a_block"
| "dot_q4_0_q8a_block Portable = dot_q4_0_q8a_block_scalar"

section \<open>Exact lanes\<close>

text \<open>A list of lanes stands for the sum of its signed values; \<open>lanes_le B\<close> bounds each of them.\<close>

definition lanes_total :: "'l::len word list \<Rightarrow> int" where "lanes_total ws = sum_list (map sint ws)"
definition lanes_le :: "int \<Rightarrow> 'l::len word list \<Rightarrow> bool" where "lanes_le B ws \<longleftrightarrow> (\<forall>w \<in> set ws. \<bar>sint w\<bar> \<le> B)"
definition dot_sum :: "'l::len word list \<Rightarrow> 'l word list \<Rightarrow> int" where
  "dot_sum xs ys = sum_list (map2 (\<lambda>x y. sint x * sint y) xs ys)"

lemma lane_simps [simp]:
  "lanes_total [] = 0" "lanes_total (w # ws) = sint w + lanes_total ws" "lanes_le B []"
  "lanes_le B (w # ws) \<longleftrightarrow> \<bar>sint w\<bar> \<le> B \<and> lanes_le B ws"
  "dot_sum [] ys = 0" "dot_sum xs [] = 0" "dot_sum (x # xs) (y # ys) = sint x * sint y + dot_sum xs ys"
  by (simp_all add: lanes_total_def lanes_le_def dot_sum_def)

lemma sint_add_exact:
  fixes a b :: "32 word"
  assumes "\<bar>sint a\<bar> \<le> A" "\<bar>sint b\<bar> \<le> B" "A + B < 2 ^ 31"
  shows "sint (a + b) = sint a + sint b"
proof -
  have "- (2 ^ 31) \<le> sint a + sint b" "sint a + sint b < 2 ^ 31" using assms by linarith+
  then show ?thesis by (simp add: sint_word_ariths signed_take_bit_int_eq_self)
qed

lemma sint_widen: "sint (scast (w :: 8 word) :: 16 word) = sint w" "sint (scast (v :: 16 word) :: 32 word) = sint v"
  using sint_ge [of w] sint_lt [of w] sint_ge [of v] sint_lt [of v]
  by (simp_all add: signed_scast_eq signed_take_bit_int_eq_self)

lemma add_lanes_exact:
  "lanes_le A xs \<Longrightarrow> lanes_le B ys \<Longrightarrow> length xs = length ys \<Longrightarrow> A + B < 2 ^ 31 \<Longrightarrow>
    lanes_total (add_lanes xs ys) = lanes_total xs + lanes_total ys \<and> lanes_le (A + B) (add_lanes xs ys) \<and>
    length (add_lanes xs ys) = length xs"
proof (induction xs ys rule: list_induct2')
  case (4 x xs y ys)
  then have "sint (x + y) = sint x + sint y" by (intro sint_add_exact [of x A y B]) simp_all
  then show ?case using 4 by (auto simp: add_lanes_def)
qed (simp_all add: add_lanes_def)

lemma sint_mul_exact:
  fixes a b :: "'l::len word"
  assumes "\<bar>sint a * sint b\<bar> < 2 ^ (LENGTH('l) - 1)"
  shows "sint (a * b) = sint a * sint b"
  using assms by (simp add: sint_word_ariths signed_take_bit_int_eq_self)

lemma madd_lanes_exact:
  "length xs = 2 * n \<Longrightarrow> length ys = 2 * n \<Longrightarrow> lanes_le 128 xs \<Longrightarrow> lanes_le 128 ys \<Longrightarrow>
    lanes_total (madd_lanes xs ys) = dot_sum xs ys \<and> lanes_le (2 ^ 15) (madd_lanes xs ys) \<and> length (madd_lanes xs ys) = n"
proof (induction n arbitrary: xs ys)
  case (Suc n)
  then obtain a b xs' c d ys' where l: "xs = a # b # xs'" "length xs' = 2 * n" "ys = c # d # ys'" "length ys' = 2 * n"
    by (auto simp: length_Suc_conv)
  have p: "\<bar>sint u * sint v\<bar> \<le> 2 ^ 14" if "\<bar>sint u\<bar> \<le> 128" "\<bar>sint v\<bar> \<le> 128" for u v :: "16 word"
    using mult_mono [OF that] unfolding abs_mult by simp
  have bounds: "\<bar>sint a * sint c\<bar> \<le> 2 ^ 14" "\<bar>sint b * sint d\<bar> \<le> 2 ^ 14" using Suc.prems l p by simp_all
  moreover have m: "sint (scast u * scast v :: 32 word) = sint u * sint v" if "\<bar>sint u * sint v\<bar> \<le> 2 ^ 14" for u v :: "16 word"
    using that by (subst sint_mul_exact) (simp_all add: sint_widen)
  ultimately have "sint (scast a * scast c + scast b * scast d :: 32 word) = sint a * sint c + sint b * sint d"
    by (subst sint_add_exact [where A = "2 ^ 14" and B = "2 ^ 14"]) simp_all
  moreover have "\<bar>sint a * sint c + sint b * sint d\<bar> \<le> 2 ^ 15"
    using abs_triangle_ineq [of "sint a * sint c" "sint b * sint d"] bounds by simp
  ultimately show ?case using Suc.IH [OF l(2,4)] Suc.prems l by simp
qed simp

lemma widening_pairwise_exact:
  "length xs = 2 * n \<Longrightarrow> length ys = 2 * n \<Longrightarrow>
    lanes_total (pairwise_add (widening_mul xs ys)) = dot_sum xs ys \<and>
    lanes_le (2 ^ 15) (pairwise_add (widening_mul xs ys)) \<and> length (pairwise_add (widening_mul xs ys)) = n"
proof (induction n arbitrary: xs ys)
  case (Suc n)
  then obtain a b xs' c d ys' where l: "xs = a # b # xs'" "length xs' = 2 * n" "ys = c # d # ys'" "length ys' = 2 * n"
    by (auto simp: length_Suc_conv)
  have m: "sint (scast u * scast v :: 16 word) = sint u * sint v" "\<bar>sint u * sint v\<bar> \<le> 2 ^ 14" for u v :: i8
    using i8_prod [of u v] by (simp_all add: sint_mul_exact sint_widen)
  have "sint (scast (scast a * scast c :: 16 word) + scast (scast b * scast d :: 16 word) :: 32 word) = sint a * sint c + sint b * sint d"
    using m [of a c] m [of b d]
    by (subst sint_add_exact [where A = "2 ^ 14" and B = "2 ^ 14"]) (simp_all add: sint_widen)
  then show ?case using Suc.IH [OF l(2,4)] m(2) [of a c] m(2) [of b d] by (simp add: l widening_mul_def)
qed (simp add: widening_mul_def)

lemma sum_lanes_exact:
  assumes "lanes_le B ws" "int (length ws) * B < 2 ^ 31"
  shows "sum_lanes ws = Ok (lanes_total ws)"
proof -
  have "rfold (\<lambda>w s. i32_add s (sint w)) ws s = Ok (s + lanes_total ws)"
    if "lanes_le B ws" "\<bar>s\<bar> + int (length ws) * B < 2 ^ 31" for s
    using that
  proof (induction ws arbitrary: s)
    case (Cons w ws)
    have w: "\<bar>sint w\<bar> \<le> B" using Cons.prems(1) by simp
    then have "0 \<le> int (length ws) * B" by (intro mult_nonneg_nonneg) simp_all
    moreover have "\<bar>s\<bar> + (B + int (length ws) * B) < 2 ^ 31" using Cons.prems(2) by (simp add: algebra_simps)
    moreover have "\<bar>s + sint w\<bar> \<le> \<bar>s\<bar> + B" using w by linarith
    ultimately have "\<bar>s + sint w\<bar> + int (length ws) * B < 2 ^ 31" "i32_range (s + sint w)"
      unfolding i32_range_def by linarith+
    then show ?case using Cons.IH [of "s + sint w"] Cons.prems(1) by (simp add: i32_add_def)
  qed simp
  from this [of 0] assms show ?thesis by (simp add: sum_lanes_def)
qed

lemma wrapping_sum_exact:
  "lanes_le B ws \<Longrightarrow> int (length ws) * B < 2 ^ 31 \<Longrightarrow>
    sint (sum_list ws :: 32 word) = lanes_total ws \<and> \<bar>lanes_total ws\<bar> \<le> int (length ws) * B"
proof (induction ws)
  case (Cons w ws)
  have w: "\<bar>sint w\<bar> \<le> B" using Cons.prems(1) by simp
  have e: "int (length (w # ws)) * B = B + int (length ws) * B" by (simp add: algebra_simps)
  have IH: "sint (sum_list ws) = lanes_total ws" "\<bar>lanes_total ws\<bar> \<le> int (length ws) * B"
    using Cons e w by auto
  then show ?case using w Cons.prems(2) e sint_add_exact [OF w, of "sum_list ws" "int (length ws) * B"] by simp
qed simp

text \<open>Reading and writing registers.\<close>

lemma lanes32_bytes32: "lanes32 (bytes32 ws) = ws"
proof -
  have cons: "lanes32 (le_bytes 4 v @ bs) = word_of_nat (from_le (le_bytes 4 v)) # lanes32 bs" for v bs
  proof -
    have "length (le_bytes 4 v) = Suc (Suc (Suc (Suc 0)))" by simp
    then obtain a b c d where "le_bytes 4 v = [a, b, c, d]" by (auto simp: length_Suc_conv simp del: length_le_bytes)
    then show ?thesis by simp
  qed
  have "word_of_nat (from_le (le_bytes 4 (unat w))) = w" for w :: "32 word" by (rule word_from_le_bytes) simp
  then show ?thesis by (induction ws) (simp_all add: bytes32_def cons del: le_bytes.simps)
qed

lemma word_cat_sign: "word_cat (if sint b < 0 then - 1 else 0 :: u8) (b :: u8) = (scast b :: 16 word)"
proof -
  have "sint b < 0 \<longleftrightarrow> bit b 7" using bit_last_iff [of b] by simp
  then show ?thesis
    by (intro bit_word_eqI) (auto simp: bit_word_cat_iff bit_simps not_less le_less_Suc_eq nat_less_le)
qed

lemma lanes16_sign: "lanes16 (interleave xs (map (\<lambda>b. if sint b < 0 then - 1 else 0) xs)) = map scast xs"
  by (induction xs) (simp_all add: word_cat_sign)

lemma sse2_sign: "length x \<le> 16 \<Longrightarrow> mm_cmpgt_epi8 (replicate 16 0) x = map (\<lambda>b. if sint b < 0 then - 1 else 0) x"
proof -
  have "map2 (\<lambda>z b. if sint b < sint z then - 1 else 0) (replicate n 0) x = map (\<lambda>b. if sint b < 0 then - 1 else (0 :: u8)) x"
    if "length x \<le> n" for n
    using that by (induction n arbitrary: x) (simp, case_tac x, simp_all)
  then show "length x \<le> 16 \<Longrightarrow> ?thesis" by (simp only: mm_cmpgt_epi8_def)
qed

lemma lanes_le_scast: "lanes_le 128 (map scast (xs :: i8 list) :: 16 word list)"
  using i8_bound by (auto simp: lanes_le_def sint_widen)

lemma dot_sum_scast: "dot_sum (map scast xs :: 16 word list) (map scast ys) = dot_sum (xs :: i8 list) ys"
  by (induction xs ys rule: list_induct2') (simp_all add: sint_widen)

lemma dot_sum_append: "length xs = length ys \<Longrightarrow> dot_sum (xs @ xs') (ys @ ys') = dot_sum xs ys + dot_sum xs' ys'"
  by (simp add: dot_sum_def)

lemma dot_sum_split: "length xs = length ys \<Longrightarrow> dot_sum xs ys = dot_sum (take n xs) (take n ys) + dot_sum (drop n xs) (drop n ys)"
  using dot_sum_append [of "take n xs" "take n ys" "drop n xs" "drop n ys"] by simp

text \<open>\<open>dot4 B ws z\<close>: four 32-bit lanes, each at most \<open>B\<close>, that sum to \<open>z\<close>.\<close>

definition dot4 :: "int \<Rightarrow> 32 word list \<Rightarrow> int \<Rightarrow> bool" where
  "dot4 B ws z \<longleftrightarrow> length ws = 4 \<and> lanes_le B ws \<and> lanes_total ws = z"

lemma dot4_add: "dot4 A xs y \<Longrightarrow> dot4 B ys z \<Longrightarrow> A + B < 2 ^ 31 \<Longrightarrow> dot4 (A + B) (add_lanes xs ys) (y + z)"
  using add_lanes_exact [of A xs B ys] by (simp add: dot4_def)

lemma dot4_madd: "length xs = 8 \<Longrightarrow> length ys = 8 \<Longrightarrow> dot4 (2 ^ 15) (madd_lanes (map scast xs) (map scast ys)) (dot_sum xs (ys :: i8 list))"
  using madd_lanes_exact [of "map scast xs" 4 "map scast ys"] by (simp add: dot4_def lanes_le_scast dot_sum_scast)

lemma dot4_pairwise: "length xs = 8 \<Longrightarrow> length ys = 8 \<Longrightarrow> dot4 (2 ^ 15) (pairwise_add (widening_mul xs ys)) (dot_sum xs ys)"
  using widening_pairwise_exact [of xs 4 ys] by (simp add: dot4_def)

lemma dot4_sum: "dot4 B ws z \<Longrightarrow> 4 * B < 2 ^ 31 \<Longrightarrow> sum_lanes ws = Ok z"
  using sum_lanes_exact [of B ws] by (simp add: dot4_def)

lemma sse2_dot16:
  assumes "length x = 16" "length y = 16"
  shows "dot4 (2 ^ 16) (lanes32 (sse2_dot_i8x16 x y)) (dot_sum x y)"
proof -
  have lo: "lanes16 (mm_unpacklo_epi8 x (mm_cmpgt_epi8 (replicate 16 0) x)) = map scast (take 8 x)"
    "lanes16 (mm_unpackhi_epi8 x (mm_cmpgt_epi8 (replicate 16 0) x)) = map scast (drop 8 x)" if "length x = 16" for x
    using that by (simp_all add: mm_unpacklo_epi8_def mm_unpackhi_epi8_def sse2_sign take_map drop_map lanes16_sign)
  have "dot4 (2 ^ 15 + 2 ^ 15) (add_lanes (madd_lanes (map scast (take 8 x)) (map scast (take 8 y)))
      (madd_lanes (map scast (drop 8 x)) (map scast (drop 8 y)))) (dot_sum (take 8 x) (take 8 y) + dot_sum (drop 8 x) (drop 8 y))"
    using assms by (intro dot4_add dot4_madd) simp_all
  then show ?thesis using dot_sum_split [of x y 8] assms
    by (simp add: sse2_dot_i8x16_def mm_add_epi32_def mm_madd_epi16_def lanes32_bytes32 lo)
qed

lemma dot_sum_nth: "length xs = n \<Longrightarrow> length ys = n \<Longrightarrow> dot_sum xs ys = (\<Sum>i < n. sint (xs ! i) * sint (ys ! i))"
  by (simp add: dot_sum_def sum_list_sum_nth atLeast0LessThan)

section \<open>The contract of a vectorised dot product\<close>

locale exact_dot =
  fixes dot_i8x32 :: "i8 list \<Rightarrow> i8 list \<Rightarrow> (quant_error, int) res"
  assumes exact: "length x = 32 \<Longrightarrow> length y = 32 \<Longrightarrow> dot_i8x32 x y = Ok (dot_sum x y)"
begin

lemma q8_exact:
  assumes "q8_0_ok w" "q8a_ok a"
  shows "q8_kernel dot_i8x32 w a = dot_q8_0_q8a_block_scalar w a"
  using assms exact [of "q8_q w" "qa_q a"] q8_block(1) [OF assms] dot_sum_nth [of "q8_q w" 32 "qa_q a"]
  by (simp add: q8_kernel_def q8_0_ok_def q8a_ok_def q8_isum_def)

lemma q4_exact:
  assumes "q4_0_ok w" "q8a_ok a" "unpack_q4 (q4_qs w) = Ok q" "length q = 32" "\<And>i. i < 32 \<Longrightarrow> sint (q ! i) = q4_weight w i"
  shows "q4_kernel dot_i8x32 w a = dot_q4_0_q8a_block_scalar w a"
  using assms(2-5) exact [of q "qa_q a"] q4_block(1) [OF assms(1,2)] dot_sum_nth [of q 32 "qa_q a"]
  by (simp add: q4_kernel_def q8a_ok_def q4_isum_def)

end

text \<open>A nibble minus 8 stays in range.\<close>

lemma nibble_less: "uint (b AND 0x0f :: u8) < 16" "uint (drop_bit 4 b :: u8) < 16"
  using uint_lt2p [of b] uint_ge_0 [of b] by (simp_all add: nibbles)

lemma sint_nibble: "uint b < 16 \<Longrightarrow> sint (b - 8 :: i8) = uint b - 8 \<and> sint b = uint b"
proof -
  assume b: "uint b < 16"
  have "- (2 ^ 7) \<le> uint b" by (rule order_trans [OF _ uint_ge_0]) simp
  moreover have "uint b < 2 ^ 7" using b by simp
  ultimately have s: "sint b = uint b" using signed_take_bit_int_eq_self [of 7 "uint b"] by (simp add: sint_uint)
  moreover have "sint (b - 8) = sint b - sint (8 :: i8)"
    using b s uint_ge_0 [of b] by (simp add: sint_word_ariths signed_take_bit_int_eq_self)
  ultimately show ?thesis by simp
qed

lemma i8_sub_nibble: "uint b < 16 \<Longrightarrow> i8_sub b 8 = Ok (b - 8)"
  using sint_nibble [of b] uint_ge_0 [of b] by (simp add: i8_sub_def)

lemma unpack_q4_exact:
  assumes "q4_0_ok w"
  shows "\<exists>q. unpack_q4 (q4_qs w) = Ok q \<and> length q = 32 \<and> (\<forall>i < 32. sint (q ! i) = q4_weight w i)"
proof -
  define n where "n i = (if i < 16 then q4_qs w ! i AND 0x0f else drop_bit 4 (q4_qs w ! (i - 16)))" for i
  have small: "uint (n i) < 16" for i using nibble_less by (simp add: n_def)
  have "unpack_q4 (q4_qs w) = Ok (map (\<lambda>i. n i - 8) [0..<32])"
    unfolding unpack_q4_def BLOCK_def
    by (rule traverse_map_Ok) (use assms in \<open>auto simp: n_def index_at_def q4_0_ok_def i8_sub_nibble nibble_less\<close>)
  moreover have "sint (n i - 8) = q4_weight w i" for i
    using sint_nibble [OF small [of i]] by (auto simp: n_def q4_weight_def nibbles)
  ultimately show ?thesis by (intro exI conjI) (auto simp del: upt_rec_numeral)
qed

section \<open>Every instruction set meets the contract\<close>

lemma load_halves: "length x = 32 \<Longrightarrow> length (load 16 0 x) = 16" "length x = 32 \<Longrightarrow> length (load 16 16 x) = 16"
  by (simp_all add: load_def)

lemma dot_sum_halves:
  "length x = 32 \<Longrightarrow> length y = 32 \<Longrightarrow>
    dot_sum x y = dot_sum (load 16 0 x) (load 16 0 y) + dot_sum (load 16 16 x) (load 16 16 y)"
  using dot_sum_split [of x y 16] by (simp add: load_def)

interpretation sse2: exact_dot sse2_dot_i8x32
proof unfold_locales
  fix x y :: "i8 list" assume l: "length x = 32" "length y = 32"
  have "dot4 (2 ^ 16 + 2 ^ 16) (add_lanes (lanes32 (sse2_dot_i8x16 (load 16 0 x) (load 16 0 y)))
      (lanes32 (sse2_dot_i8x16 (load 16 16 x) (load 16 16 y)))) (dot_sum x y)"
    unfolding dot_sum_halves [OF l] using l by (intro dot4_add sse2_dot16) (simp_all add: load_halves)
  then show "sse2_dot_i8x32 x y = Ok (dot_sum x y)"
    using dot4_sum by (simp add: sse2_dot_i8x32_def sse2_horizontal_sum_i32x4_def mm_add_epi32_def lanes32_bytes32)
qed

interpretation avx2: exact_dot avx2_dot_i8x32
proof unfold_locales
  fix x y :: "i8 list" assume l: "length x = 32" "length y = 32"
  let ?m = "\<lambda>k. madd_lanes (map scast (load 16 k x)) (map scast (load 16 k y))"
  have m: "lanes_total (?m k) = dot_sum (load 16 k x) (load 16 k y) \<and> lanes_le (2 ^ 15) (?m k) \<and> length (?m k) = 8"
    if "k = 0 \<or> k = 16" for k
    using that madd_lanes_exact [of "map scast (load 16 k x)" 8 "map scast (load 16 k y)"] load_halves l
    by (auto simp: lanes_le_scast dot_sum_scast)
  have "lanes_total (add_lanes (?m 0) (?m 16)) = dot_sum x y \<and> lanes_le (2 ^ 15 + 2 ^ 15) (add_lanes (?m 0) (?m 16)) \<and>
      length (add_lanes (?m 0) (?m 16)) = 8"
    unfolding dot_sum_halves [OF l] using add_lanes_exact [of "2 ^ 15" "?m 0" "2 ^ 15" "?m 16"] m [of 0] m [of 16] by simp
  then show "avx2_dot_i8x32 x y = Ok (dot_sum x y)"
    using sum_lanes_exact [of "2 ^ 15 + 2 ^ 15" "add_lanes (?m 0) (?m 16)"] by (simp add: avx2_dot_i8x32_def)
qed

lemma dot_sum_quarters:
  "length x = 32 \<Longrightarrow> length y = 32 \<Longrightarrow>
    dot_sum x y = dot_sum (load 8 0 x) (load 8 0 y) + dot_sum (load 8 8 x) (load 8 8 y) +
      dot_sum (load 8 16 x) (load 8 16 y) + dot_sum (load 8 24 x) (load 8 24 y)"
  using dot_sum_split [of x y 8] dot_sum_split [of "drop 8 x" "drop 8 y" 8] dot_sum_split [of "drop 16 x" "drop 16 y" 8]
  by (simp add: load_def)

interpretation neon: exact_dot neon_dot_i8x32
proof unfold_locales
  fix x y :: "i8 list" assume l: "length x = 32" "length y = 32"
  let ?p = "\<lambda>k. pairwise_add (widening_mul (load 8 k x) (load 8 k y))"
  let ?acc = "add_lanes (add_lanes (add_lanes (add_lanes (replicate 4 0) (?p 0)) (?p 8)) (?p 16)) (?p 24)"
  have p: "dot4 (2 ^ 15) (?p k) (dot_sum (load 8 k x) (load 8 k y))" if "k \<le> 24" for k
    using that l by (intro dot4_pairwise) (simp_all add: load_def)
  have "dot4 0 (replicate 4 0) 0" by (simp add: dot4_def lanes_le_def lanes_total_def sum_list_replicate)
  then have "dot4 (0 + 2 ^ 15 + 2 ^ 15 + 2 ^ 15 + 2 ^ 15) ?acc (0 + dot_sum (load 8 0 x) (load 8 0 y) + dot_sum (load 8 8 x) (load 8 8 y) +
      dot_sum (load 8 16 x) (load 8 16 y) + dot_sum (load 8 24 x) (load 8 24 y))"
    by (intro dot4_add p) simp_all
  then have "dot4 (2 ^ 17) ?acc (dot_sum x y)" unfolding dot_sum_quarters [OF l] by simp
  then show "neon_dot_i8x32 x y = Ok (dot_sum x y)"
    using wrapping_sum_exact [of "2 ^ 17" ?acc] by (simp add: neon_dot_i8x32_def neon_add_i8x8_products_def dot4_def)
qed

lemma wasm_dot16: "length x = 16 \<Longrightarrow> length y = 16 \<Longrightarrow> dot4 (2 ^ 16) (wasm_dot_i8x16 x y) (dot_sum x y)"
  using dot4_add [OF dot4_pairwise [of "take 8 x" "take 8 y"] dot4_pairwise [of "drop 8 x" "drop 8 y"]] dot_sum_split [of x y 8]
  by (simp add: wasm_dot_i8x16_def)

lemma wasm_sum: "dot4 B v z \<Longrightarrow> 4 * B < 2 ^ 31 \<Longrightarrow> wasm_horizontal_sum_i32x4 v = Ok z"
proof -
  assume d: "dot4 B v z" and b: "4 * B < 2 ^ 31"
  then have "length v = Suc (Suc (Suc (Suc 0)))" by (simp add: dot4_def)
  then obtain p q r s where v: "v = [p, q, r, s]" by (auto simp: length_Suc_conv)
  have "\<bar>sint p\<bar> \<le> B" "\<bar>sint q\<bar> \<le> B" "\<bar>sint r\<bar> \<le> B" "\<bar>sint s\<bar> \<le> B" using d by (simp_all add: dot4_def v)
  then have "i32_range (sint p + sint q)" "i32_range (sint p + sint q + sint r)" "i32_range (sint p + sint q + sint r + sint s)"
    unfolding i32_range_def using b by linarith+
  then show ?thesis using d by (simp add: wasm_horizontal_sum_i32x4_def v index_at_def i32_add_def dot4_def add.assoc)
qed

interpretation wasm: exact_dot wasm_dot_i8x32
proof unfold_locales
  fix x y :: "i8 list" assume l: "length x = 32" "length y = 32"
  have "dot4 (2 ^ 16 + 2 ^ 16) (add_lanes (wasm_dot_i8x16 (load 16 0 x) (load 16 0 y)) (wasm_dot_i8x16 (load 16 16 x) (load 16 16 y)))
      (dot_sum x y)"
    unfolding dot_sum_halves [OF l] using l by (intro dot4_add wasm_dot16) (simp_all add: load_halves)
  then show "wasm_dot_i8x32 x y = Ok (dot_sum x y)" using wasm_sum by (simp add: wasm_dot_i8x32_def)
qed

text \<open>The Q4_0 kernel of SSE2 unpacks the nibbles in registers.\<close>

lemma sse2_shift: "length x = 2 * n \<Longrightarrow> map (\<lambda>b. b AND 0x0f) (mm_srli_epi16 x 4) = map (drop_bit 4) x"
proof (induction n arbitrary: x)
  case (Suc n)
  then obtain a b xs where x: "x = a # b # xs" "length xs = 2 * n" by (auto simp: length_Suc_conv)
  have m: "(0x0f :: u8) = mask 4" by (simp add: mask_eq_decr_exp)
  have "ucast (drop_bit 4 (word_cat b a :: 16 word)) AND 0x0f = drop_bit 4 a"
    "ucast (drop_bit 8 (drop_bit 4 (word_cat b a :: 16 word))) AND 0x0f = drop_bit 4 b"
    unfolding m by (rule bit_word_eqI, auto simp: bit_simps bit_word_cat_iff dest: bit_imp_le_length)+
  then show ?case using Suc.IH [OF x(2)] by (simp add: x mm_srli_epi16_def bytes16_def)
qed (simp add: mm_srli_epi16_def bytes16_def)

lemma sse2_and_mask: "length x \<le> n \<Longrightarrow> mm_and_si128 x (replicate n b) = map (\<lambda>x. x AND b) x"
  unfolding mm_and_si128_def by (induction n arbitrary: x) (simp, case_tac x, simp_all)

lemma sse2_sub_offset: "length x \<le> n \<Longrightarrow> mm_sub_epi8 x (replicate n b) = map (\<lambda>x. x - b) x"
  unfolding mm_sub_epi8_def by (induction n arbitrary: x) (simp, case_tac x, simp_all)

lemma length_srli: "length x = 2 * n \<Longrightarrow> length (mm_srli_epi16 x k) = 2 * n"
proof (induction n arbitrary: x)
  case (Suc n)
  then obtain a b xs where "x = a # b # xs" "length xs = 2 * n" by (auto simp: length_Suc_conv)
  then show ?case using Suc.IH by (simp add: mm_srli_epi16_def bytes16_def)
qed (simp add: mm_srli_epi16_def bytes16_def)

lemma sse2_q4:
  assumes "q4_0_ok w" "q8a_ok a"
  shows "sse2_dot_q4_0_q8a_block w a = dot_q4_0_q8a_block_scalar w a"
proof -
  let ?qs = "q4_qs w" and ?lo = "load 16 0 (qa_q a)" and ?hi = "load 16 16 (qa_q a)"
  have l: "length ?qs = 16" "length (qa_q a) = 32" using assms by (simp_all add: q4_0_ok_def q8a_ok_def)
  define q_lo q_hi where q: "q_lo = map (\<lambda>b. (b AND 0x0f) - 8) ?qs" "q_hi = map (\<lambda>b. drop_bit 4 b - 8) ?qs"
  have n: "length (mm_srli_epi16 ?qs 4) = 16" using length_srli [of ?qs 8] l by simp
  have "mm_sub_epi8 (mm_and_si128 ?qs (replicate 16 0x0f)) (replicate 16 8) = q_lo"
    "mm_sub_epi8 (mm_and_si128 (mm_srli_epi16 ?qs 4) (replicate 16 0x0f)) (replicate 16 8) = q_hi"
    using l n sse2_shift [of ?qs 8] by (simp_all only: sse2_and_mask sse2_sub_offset length_map order_refl q)
      (simp_all add: comp_def)
  moreover have "load 16 0 ?qs = ?qs" using l by (simp add: load_def)
  moreover have "dot4 (2 ^ 16 + 2 ^ 16) (add_lanes (lanes32 (sse2_dot_i8x16 q_lo ?lo)) (lanes32 (sse2_dot_i8x16 q_hi ?hi)))
      (dot_sum q_lo ?lo + dot_sum q_hi ?hi)"
    using l by (intro dot4_add sse2_dot16) (simp_all add: q load_def)
  moreover have "dot_sum q_lo ?lo + dot_sum q_hi ?hi = q4_isum w a"
  proof -
    have "sint ((?qs ! i AND 0x0f) - 8) = q4_weight w i" "sint (drop_bit 4 (?qs ! i) - 8) = q4_weight w (i + 16)" if "i < 16" for i
      using that sint_nibble [OF nibble_less(1) [of "?qs ! i"]] sint_nibble [OF nibble_less(2) [of "?qs ! i"]]
      by (simp_all add: q4_weight_def nibbles)
    then show ?thesis
      using l dot_sum_nth [of q_lo 16 ?lo] dot_sum_nth [of q_hi 16 ?hi]
      by (simp add: q load_def q4_isum_def sum_halves sum.distrib add.commute)
  qed
  ultimately show ?thesis using q4_block(1) [OF assms] dot4_sum
    by (simp add: sse2_dot_q4_0_q8a_block_def sse2_horizontal_sum_i32x4_def mm_add_epi32_def lanes32_bytes32 BLOCK_def Let_def)
qed

section \<open>All variants agree\<close>

lemma target_kernels:
  assumes "q8_0_ok w" "q4_0_ok v" "q8a_ok a"
  shows "dot_q8_0_q8a_block target w a = dot_q8_0_q8a_block_scalar w a \<and>
    dot_q4_0_q8a_block target v a = dot_q4_0_q8a_block_scalar v a"
proof -
  obtain q where "unpack_q4 (q4_qs v) = Ok q" "length q = 32" "\<And>i. i < 32 \<Longrightarrow> sint (q ! i) = q4_weight v i"
    using unpack_q4_exact [OF assms(2)] by blast
  note q = assms(2,3) this
  show ?thesis
    using sse2.q8_exact [OF assms(1,3)] avx2.q8_exact [OF assms(1,3)] neon.q8_exact [OF assms(1,3)] wasm.q8_exact [OF assms(1,3)]
      avx2.q4_exact [OF q] neon.q4_exact [OF q] wasm.q4_exact [OF q] sse2_q4 [OF assms(2,3)]
    by (cases target) (simp_all add: module_kernels)
qed

text \<open>C28: Whatever build configuration selects the kernel, the Q8_0 and the Q4_0 block product have
  the bits of the portable code.\<close>

theorem simd_kernels_agree:
  assumes "q8_0_ok w" "q4_0_ok v" "q8a_ok a"
  shows "dot_q8_0_q8a_block target w a = dot_q8_0_q8a_block_scalar w a \<and>
    dot_q4_0_q8a_block target v a = dot_q4_0_q8a_block_scalar v a"
  by (rule target_kernels [OF assms])

theorem simd_kernels_agree_witness:
  "let w = \<lparr>q8_d = 0x3f800000, q8_q = replicate 32 (- 128)\<rparr>; v = \<lparr>q4_d = 0x3f800000, q4_qs = replicate 16 0x0f\<rparr>;
       a = \<lparr>qa_d = 0x3f800000, qa_q = replicate 32 (- 128)\<rparr>
   in dot_q8_0_q8a_block Sse2 w a = dot_q8_0_q8a_block_scalar w a \<and>
      dot_q4_0_q8a_block Sse2 v a = dot_q4_0_q8a_block_scalar v a"
  unfolding Let_def by (rule simd_kernels_agree) (simp_all add: q8_0_ok_def q4_0_ok_def q8a_ok_def)

end
