(* ===== verification/Tensor.thy ===== *)
theory Tensor
  imports Quant Libm64
begin

text \<open>
  The tensor kernels of the language model, \<open>src/crates/det-model/src/lib.rs\<close>: configurations,
  weight matrices and their products, rotary tables, normalisation, attention for one head,
  softmax and the gated unit. A slice that the code fills (\<open>out: &mut [f32]\<close>) is an argument
  and the result; where the code returns an error the partly written slice is dropped with it,
  as every caller does. Products over the rows run sequentially or in parallel; the parallel
  version is the set of its possible outcomes.
\<close>

section \<open>Configuration\<close>

datatype rope_pairing = Adjacent | SplitHalf

record llama_config =
  block_count :: nat
  embedding_length :: nat
  feed_forward_length :: nat
  head_count :: nat
  head_count_kv :: nat
  rms_epsilon :: f32
  attention_scale :: f32
  rope_freq_base :: f32
  rope_dimension_count :: nat
  rope_pairing :: rope_pairing
  context_length :: nat

datatype model_error =
    Shape | NonFinite | UnsupportedArchitecture | UnsupportedAttentionHeadLength
  | UnsupportedModelFeature | UnsupportedRopeScaling | MissingMetadata | GgufFailure
  | UnsupportedTensorType | ThreadPanicked

type_synonym 'a mres = "(model_error, 'a) res"

definition checked_len :: "nat \<Rightarrow> nat \<Rightarrow> nat mres" where
  "checked_len a b = ok_or Shape (checked_mul_usize a b)"

definition checked_byte_len :: "nat \<Rightarrow> nat \<Rightarrow> nat mres" where
  "checked_byte_len items item_size = ok_or Shape (checked_mul_usize items item_size)"

definition logits_byte_len :: "nat \<Rightarrow> nat \<Rightarrow> nat mres" where
  "logits_byte_len positions vocab = rbind (checked_len positions vocab) (\<lambda>n. checked_byte_len n 4)"

definition head_dim :: "llama_config \<Rightarrow> nat mres" where
  "head_dim c =
    (if head_count c = 0 \<or> embedding_length c mod head_count c \<noteq> 0 then Err Shape
     else Ok (embedding_length c div head_count c))"

definition config_validate :: "llama_config \<Rightarrow> unit mres" where
  "config_validate c =
    (if block_count c = 0 \<or> embedding_length c = 0 \<or> feed_forward_length c = 0 \<or> head_count c = 0 \<or>
        head_count_kv c = 0 \<or> context_length c = 0 \<or> head_count c mod head_count_kv c \<noteq> 0 \<or>
        rope_dimension_count c = 0 \<or> rope_dimension_count c mod 2 \<noteq> 0 \<or>
        \<not> f32_is_finite (rms_epsilon c) \<or> f32_le (rms_epsilon c) 0 \<or>
        \<not> f32_is_finite (attention_scale c) \<or> f32_le (attention_scale c) 0 \<or>
        \<not> f32_is_finite (rope_freq_base c) \<or> f32_le (rope_freq_base c) 0
     then Err Shape
     else rbind (head_dim c) (\<lambda>d. if d < rope_dimension_count c then Err Shape else Ok ()))"

text \<open>The derived \<open>==\<close>: floating-point fields are compared as numbers.\<close>

definition config_eq :: "llama_config \<Rightarrow> llama_config \<Rightarrow> bool" where
  "config_eq a b \<longleftrightarrow>
    block_count a = block_count b \<and> embedding_length a = embedding_length b \<and>
    feed_forward_length a = feed_forward_length b \<and> head_count a = head_count b \<and>
    head_count_kv a = head_count_kv b \<and> f32_eq (rms_epsilon a) (rms_epsilon b) \<and>
    f32_eq (attention_scale a) (attention_scale b) \<and> f32_eq (rope_freq_base a) (rope_freq_base b) \<and>
    rope_dimension_count a = rope_dimension_count b \<and> rope_pairing a = rope_pairing b \<and>
    context_length a = context_length b"

section \<open>Slices of numbers\<close>

definition ensure_finite_slice :: "f32 list \<Rightarrow> unit mres" where
  "ensure_finite_slice vs = (if list_ex (\<lambda>v. \<not> f32_is_finite v) vs then Err NonFinite else Ok ())"

definition finite_value :: "f32 \<Rightarrow> f32 mres" where
  "finite_value v = (if \<not> f32_is_finite v then Err NonFinite else Ok v)"

text \<open>\<open>&xs[a..b]\<close>.\<close>

definition slice_at :: "'a list \<Rightarrow> nat \<Rightarrow> nat \<Rightarrow> ('e, 'a list) res" where
  "slice_at xs a b = (if a \<le> b \<and> b \<le> length xs then Ok (take (b - a) (drop a xs)) else Panic)"

text \<open>\<open>for i in 0..n { out[i] = f(i)?; }\<close>.\<close>

definition fill :: "(nat \<Rightarrow> ('e, 'a) res) \<Rightarrow> nat \<Rightarrow> 'a list \<Rightarrow> ('e, 'a list) res" where
  "fill f n out =
    rfold (\<lambda>i out. rbind (f i) (\<lambda>v. if i < length out then Ok (out[i := v]) else Panic)) [0..<n] out"

text \<open>\<open>xs.chunks(n)\<close>: the last chunk may be shorter.\<close>

function chunks :: "nat \<Rightarrow> 'a list \<Rightarrow> 'a list list" where
  "chunks n xs = (if n = 0 \<or> xs = [] then [] else take n xs # chunks n (drop n xs))"
  by auto
termination by (relation "measure (\<lambda>(n, xs). length xs)") auto

declare chunks.simps [simp del]

section \<open>Products over rows\<close>

definition checked_row :: "(nat \<Rightarrow> f32 mres) \<Rightarrow> nat \<Rightarrow> f32 mres" where
  "checked_row f r = rbind (f r) finite_value"

definition gemv_rows_sequential :: "nat \<Rightarrow> f32 list \<Rightarrow> (nat \<Rightarrow> f32 mres) \<Rightarrow> f32 list mres" where
  "gemv_rows_sequential rows out f = fill (checked_row f) (min rows (length out)) out"

text \<open>A parallel loop runs on the library \<open>rayon\<close>, which is a parameter of the model: from the
  outcomes of its tasks \<open>try_for_each\<close> returns one of the outcomes in the set that the parameter
  yields. The library's documentation of \<open>try_for_each\<close> promises that a loop whose tasks all
  succeed returns \<open>Ok\<close>, and that otherwise it returns the failure of some task, not necessarily of
  the first one. A task here is given by what it leaves in its part of the buffer.\<close>

type_synonym ('e, 'a) for_each = "('e, 'a) res list \<Rightarrow> ('e, 'a list) res set"

definition all_tasks_succeed :: "('e, 'a) for_each \<Rightarrow> bool" where
  "all_tasks_succeed run \<longleftrightarrow> (\<forall>ys. run (map Ok ys) = {Ok ys})"

definition some_task_fails :: "('e, 'a) for_each \<Rightarrow> bool" where
  "some_task_fails run \<longleftrightarrow>
    (\<forall>rs. (\<exists>r \<in> set rs. \<forall>x. r \<noteq> Ok x) \<longrightarrow>
      run rs \<noteq> {} \<and> run rs \<subseteq> {rbind r (\<lambda>_. Panic) | r. r \<in> set rs \<and> (\<forall>x. r \<noteq> Ok x)})"

text \<open>\<open>pool\<close> says whether the thread pool of \<open>with_rayon_pool\<close> can be had; a run in the pool works on
  chunks of the output.\<close>

definition gemv_rows_parallel ::
  "(model_error, f32 list) for_each \<Rightarrow> bool \<Rightarrow> nat \<Rightarrow> nat \<Rightarrow> f32 list \<Rightarrow> (nat \<Rightarrow> f32 mres) \<Rightarrow> f32 list mres set" where
  "gemv_rows_parallel try_for_each pool requested_threads rows out f =
    (let threads = max 1 (min requested_threads (max rows 1)) in
     if threads = 1 \<or> rows < 2 then {gemv_rows_sequential rows out f}
     else
       let chunk_len = (rows + threads - 1) div threads in
       if \<not> pool then {Err ThreadPanicked}
       else (\<lambda>r. rbind r (\<lambda>cs. Ok (concat cs))) ` try_for_each
         (map (\<lambda>(chunk_index, chunk). fill (\<lambda>offset. checked_row f (chunk_index * chunk_len + offset)) (length chunk) chunk)
           (enumerate 0 (chunks chunk_len out))))"

definition gemv_rows :: "nat \<Rightarrow> f32 list \<Rightarrow> (nat \<Rightarrow> f32 mres) \<Rightarrow> f32 list mres" where
  "gemv_rows rows out f = (if length out \<noteq> rows then Err Shape else gemv_rows_sequential rows out f)"

section \<open>Weight matrices\<close>

record f32_matrix =
  fm_rows :: nat
  fm_cols :: nat
  fm_data :: "f32 list"

text \<open>\<open>Q8Matrix\<close>, \<open>Q4Matrix\<close>, \<open>Q4KMatrix\<close> and \<open>Q6KMatrix\<close> differ in the type of their blocks.\<close>

record 'b quant_matrix =
  qm_rows :: nat
  qm_cols :: nat
  blocks_per_row :: nat
  qm_blocks :: "'b list"

datatype weight_matrix =
    WF32 f32_matrix
  | WQ8_0 "q8_0_block quant_matrix"
  | WQ4_0 "q4_0_block quant_matrix"
  | WQ4K "q4k_block quant_matrix"
  | WQ6K "q6k_block quant_matrix"

fun map_quant_error :: "quant_error \<Rightarrow> model_error" where
  "map_quant_error NonFiniteInput = NonFinite"
| "map_quant_error NonFiniteScale = NonFinite"
| "map_quant_error NonFiniteOutput = NonFinite"
| "map_quant_error LengthMismatch = Shape"
| "map_quant_error InvalidBlockLength = Shape"

definition fm_validate_shape :: "f32_matrix \<Rightarrow> unit mres" where
  "fm_validate_shape m =
    (if fm_rows m = 0 \<or> fm_cols m = 0 then Err Shape
     else rbind (checked_len (fm_rows m) (fm_cols m)) (\<lambda>n. if n \<noteq> length (fm_data m) then Err Shape else Ok ()))"

definition fm_validate :: "f32_matrix \<Rightarrow> unit mres" where
  "fm_validate m = rbind (fm_validate_shape m) (\<lambda>_. ensure_finite_slice (fm_data m))"

definition fm_new :: "nat \<Rightarrow> nat \<Rightarrow> f32 list \<Rightarrow> f32_matrix mres" where
  "fm_new rows cols data =
    (let m = \<lparr>fm_rows = rows, fm_cols = cols, fm_data = data\<rparr> in rbind (fm_validate m) (\<lambda>_. Ok m))"

text \<open>\<open>data.get(row * cols .. row * cols + cols)\<close> with checked arithmetic.\<close>

definition fm_row_slice :: "f32_matrix \<Rightarrow> nat \<Rightarrow> f32 list mres" where
  "fm_row_slice m row =
    rbind (ok_or Shape (checked_mul_usize row (fm_cols m))) (\<lambda>start.
    rbind (ok_or Shape (checked_add_usize start (fm_cols m))) (\<lambda>finish.
    ok_or Shape (get_range (fm_data m) start finish)))"

definition fm_row :: "f32_matrix \<Rightarrow> nat \<Rightarrow> f32 list mres" where
  "fm_row m row = rbind (fm_validate m) (\<lambda>_. if fm_rows m \<le> row then Err Shape else fm_row_slice m row)"

definition fm_gemv_validated :: "f32_matrix \<Rightarrow> f32 list \<Rightarrow> f32 list \<Rightarrow> f32 list mres" where
  "fm_gemv_validated m x out =
    rbind (fm_validate_shape m) (\<lambda>_.
    if length x \<noteq> fm_cols m \<or> length out \<noteq> fm_rows m then Err Shape
    else rbind (ensure_finite_slice x) (\<lambda>_.
    gemv_rows (fm_rows m) out (\<lambda>r. let start = r * fm_cols m; finish = start + fm_cols m in
      rbind (slice_at (fm_data m) start finish) (\<lambda>row. dot_f32_ref row x))))"

definition fm_gemv :: "f32_matrix \<Rightarrow> f32 list \<Rightarrow> f32 list \<Rightarrow> f32 list mres" where
  "fm_gemv m x out = rbind (fm_validate m) (\<lambda>_. fm_gemv_validated m x out)"

definition validate_quant_matrix_shape_with_block :: "nat \<Rightarrow> nat \<Rightarrow> nat \<Rightarrow> nat \<Rightarrow> nat \<Rightarrow> unit mres" where
  "validate_quant_matrix_shape_with_block rows cols bpr n_blocks block_size =
    (if rows = 0 \<or> cols = 0 \<or> bpr = 0 \<or> cols mod block_size \<noteq> 0 \<or> bpr \<noteq> cols div block_size then Err Shape
     else rbind (checked_len rows bpr) (\<lambda>n. if n \<noteq> n_blocks then Err Shape else Ok ()))"

definition validate_quant_matrix_shape :: "nat \<Rightarrow> nat \<Rightarrow> nat \<Rightarrow> nat \<Rightarrow> unit mres" where
  "validate_quant_matrix_shape rows cols bpr n_blocks =
    validate_quant_matrix_shape_with_block rows cols bpr n_blocks BLOCK"

fun rows :: "weight_matrix \<Rightarrow> nat" where
  "rows (WF32 m) = fm_rows m" | "rows (WQ8_0 m) = qm_rows m" | "rows (WQ4_0 m) = qm_rows m"
| "rows (WQ4K m) = qm_rows m" | "rows (WQ6K m) = qm_rows m"

fun cols :: "weight_matrix \<Rightarrow> nat" where
  "cols (WF32 m) = fm_cols m" | "cols (WQ8_0 m) = qm_cols m" | "cols (WQ4_0 m) = qm_cols m"
| "cols (WQ4K m) = qm_cols m" | "cols (WQ6K m) = qm_cols m"

fun wm_validate_shape :: "weight_matrix \<Rightarrow> unit mres" where
  "wm_validate_shape (WF32 m) = fm_validate_shape m"
| "wm_validate_shape (WQ8_0 m) = validate_quant_matrix_shape (qm_rows m) (qm_cols m) (blocks_per_row m) (length (qm_blocks m))"
| "wm_validate_shape (WQ4_0 m) = validate_quant_matrix_shape (qm_rows m) (qm_cols m) (blocks_per_row m) (length (qm_blocks m))"
| "wm_validate_shape (WQ4K m) = validate_quant_matrix_shape_with_block (qm_rows m) (qm_cols m) (blocks_per_row m) (length (qm_blocks m)) Q4K_BLOCK"
| "wm_validate_shape (WQ6K m) = validate_quant_matrix_shape_with_block (qm_rows m) (qm_cols m) (blocks_per_row m) (length (qm_blocks m)) Q6K_BLOCK"

definition finite_scales :: "('b \<Rightarrow> bool) \<Rightarrow> 'b list \<Rightarrow> unit mres" where
  "finite_scales ok bs = (if list_ex (\<lambda>b. \<not> ok b) bs then Err NonFinite else Ok ())"

fun wm_scales_finite :: "weight_matrix \<Rightarrow> unit mres" where
  "wm_scales_finite (WF32 m) = ensure_finite_slice (fm_data m)"
| "wm_scales_finite (WQ8_0 m) = finite_scales (\<lambda>b. f32_is_finite (q8_d b)) (qm_blocks m)"
| "wm_scales_finite (WQ4_0 m) = finite_scales (\<lambda>b. f32_is_finite (q4_d b)) (qm_blocks m)"
| "wm_scales_finite (WQ4K m) = finite_scales (\<lambda>b. f32_is_finite (k4_d b) \<and> f32_is_finite (k4_dmin b)) (qm_blocks m)"
| "wm_scales_finite (WQ6K m) = finite_scales (\<lambda>b. f32_is_finite (k6_d b)) (qm_blocks m)"

definition wm_validate :: "weight_matrix \<Rightarrow> unit mres" where
  "wm_validate w = rbind (wm_validate_shape w) (\<lambda>_. wm_scales_finite w)"

text \<open>The row loop that all quantised products share.\<close>

definition gemv_blocks :: "('b list \<Rightarrow> 'a list \<Rightarrow> (quant_error, f32) res) \<Rightarrow> 'b quant_matrix \<Rightarrow> 'a list \<Rightarrow> f32 list \<Rightarrow> f32 list mres" where
  "gemv_blocks dot m qx out =
    gemv_rows (qm_rows m) out (\<lambda>r. let start = r * blocks_per_row m; finish = start + blocks_per_row m in
      rbind (slice_at (qm_blocks m) start finish) (\<lambda>bs. map_err map_quant_error (dot bs qx)))"

definition quant_q8a :: "f32 list \<Rightarrow> q8a_block list mres" where
  "quant_q8a x = map_err map_quant_error (quantize_q8a_into x)"

definition quant_q8k :: "f32 list \<Rightarrow> q8k_block list mres" where
  "quant_q8k x = map_err map_quant_error (quantize_q8k_into x)"

text \<open>The checks at the head of every product.\<close>

definition gemv_checks :: "weight_matrix \<Rightarrow> f32 list \<Rightarrow> f32 list \<Rightarrow> unit mres" where
  "gemv_checks w x out =
    rbind (wm_validate_shape w) (\<lambda>_.
    if length x \<noteq> cols w \<or> length out \<noteq> rows w then Err Shape else ensure_finite_slice x)"

definition wm_gemv_validated :: "weight_matrix \<Rightarrow> f32 list \<Rightarrow> f32 list \<Rightarrow> f32 list mres" where
  "wm_gemv_validated w x out =
    rbind (gemv_checks w x out) (\<lambda>_.
    case w of
      WF32 m \<Rightarrow> fm_gemv_validated m x out
    | WQ8_0 m \<Rightarrow> rbind (quant_q8a x) (\<lambda>qx. gemv_blocks dot_q8_0_q8a m qx out)
    | WQ4_0 m \<Rightarrow> rbind (quant_q8a x) (\<lambda>qx. gemv_blocks dot_q4_0_q8a m qx out)
    | WQ4K m \<Rightarrow> rbind (quant_q8a x) (\<lambda>qx. gemv_blocks dot_q4_k_q8a m qx out)
    | WQ6K m \<Rightarrow> rbind (quant_q8k x) (\<lambda>qx. gemv_blocks dot_q6_k_q8k m qx out))"

definition wm_gemv :: "weight_matrix \<Rightarrow> f32 list \<Rightarrow> f32 list \<Rightarrow> f32 list mres" where
  "wm_gemv w x out = rbind (wm_validate w) (\<lambda>_. wm_gemv_validated w x out)"

fun needs_q8a :: "weight_matrix \<Rightarrow> bool" where
  "needs_q8a (WQ8_0 m) = True" | "needs_q8a (WQ4_0 m) = True" | "needs_q8a (WQ4K m) = True"
| "needs_q8a (WF32 m) = False" | "needs_q8a (WQ6K m) = False"

text \<open>The product with a quantised input that the caller may already have. The result has the
  new content of the scratch vector.\<close>

definition with_q8a :: "nat \<Rightarrow> q8a_block list option \<Rightarrow> (q8a_block list \<Rightarrow> f32 list mres) \<Rightarrow> f32 list mres" where
  "with_q8a n qx f = rbind (ok_or Shape qx) (\<lambda>qx. if length qx \<noteq> n then Err Shape else f qx)"

definition gemv_with_optional_q8a_and_q8k_scratch ::
  "weight_matrix \<Rightarrow> f32 list \<Rightarrow> q8a_block list option \<Rightarrow> q8k_block list \<Rightarrow> f32 list \<Rightarrow> (f32 list \<times> q8k_block list) mres" where
  "gemv_with_optional_q8a_and_q8k_scratch w x qx q8k_scratch out =
    rbind (gemv_checks w x out) (\<lambda>_.
    case w of
      WF32 m \<Rightarrow> rbind (fm_gemv_validated m x out) (\<lambda>out. Ok (out, q8k_scratch))
    | WQ8_0 m \<Rightarrow> rbind (with_q8a (blocks_per_row m) qx (\<lambda>qx. gemv_blocks dot_q8_0_q8a m qx out)) (\<lambda>out. Ok (out, q8k_scratch))
    | WQ4_0 m \<Rightarrow> rbind (with_q8a (blocks_per_row m) qx (\<lambda>qx. gemv_blocks dot_q4_0_q8a m qx out)) (\<lambda>out. Ok (out, q8k_scratch))
    | WQ4K m \<Rightarrow> rbind (with_q8a (blocks_per_row m * (Q4K_BLOCK div BLOCK)) qx (\<lambda>qx. gemv_blocks dot_q4_k_q8a m qx out)) (\<lambda>out. Ok (out, q8k_scratch))
    | WQ6K m \<Rightarrow> rbind (quant_q8k x) (\<lambda>q8k_scratch. rbind (gemv_blocks dot_q6_k_q8k m q8k_scratch out) (\<lambda>out. Ok (out, q8k_scratch))))"

definition gemv_with_quant_scratch ::
  "weight_matrix \<Rightarrow> f32 list \<Rightarrow> q8a_block list \<Rightarrow> q8k_block list \<Rightarrow> f32 list \<Rightarrow>
    (f32 list \<times> q8a_block list \<times> q8k_block list) mres" where
  "gemv_with_quant_scratch w x q8a_scratch q8k_scratch out =
    rbind (gemv_checks w x out) (\<lambda>_.
    case w of
      WF32 m \<Rightarrow> rbind (fm_gemv_validated m x out) (\<lambda>out. Ok (out, q8a_scratch, q8k_scratch))
    | WQ8_0 m \<Rightarrow> rbind (quant_q8a x) (\<lambda>q8a. rbind (gemv_blocks dot_q8_0_q8a m q8a out) (\<lambda>out. Ok (out, q8a, q8k_scratch)))
    | WQ4_0 m \<Rightarrow> rbind (quant_q8a x) (\<lambda>q8a. rbind (gemv_blocks dot_q4_0_q8a m q8a out) (\<lambda>out. Ok (out, q8a, q8k_scratch)))
    | WQ4K m \<Rightarrow> rbind (quant_q8a x) (\<lambda>q8a. rbind (gemv_blocks dot_q4_k_q8a m q8a out) (\<lambda>out. Ok (out, q8a, q8k_scratch)))
    | WQ6K m \<Rightarrow> rbind (quant_q8k x) (\<lambda>q8k. rbind (gemv_blocks dot_q6_k_q8k m q8k out) (\<lambda>out. Ok (out, q8a_scratch, q8k))))"

text \<open>\<open>out[dst] = value(block, i); dst += 1\<close> for every element of every block of a row.\<close>

definition write_blocks :: "nat \<Rightarrow> ('b \<Rightarrow> nat \<Rightarrow> f32 mres) \<Rightarrow> 'b quant_matrix \<Rightarrow> nat \<Rightarrow> f32 list \<Rightarrow> f32 list mres" where
  "write_blocks n value m row out =
    (let start = row * blocks_per_row m in
     rbind (slice_at (qm_blocks m) start (start + blocks_per_row m)) (\<lambda>bs.
     rbind (rfold (\<lambda>b (out, dst). rfold (\<lambda>i (out, dst).
         rbind (rbind (value b i) finite_value) (\<lambda>v.
         if dst < length out then Ok (out[dst := v], Suc dst) else Panic)) [0..<n] (out, dst)) bs (out, 0)) (\<lambda>(out, _).
     Ok out)))"

definition q8_0_value :: "q8_0_block \<Rightarrow> nat \<Rightarrow> f32 mres" where
  "q8_0_value b i = rbind (index_at (q8_q b) i) (\<lambda>q. Ok (f32_mul (q8_d b) (f32_of_int (sint q))))"

definition q4_0_value :: "q4_0_block \<Rightarrow> nat \<Rightarrow> f32 mres" where
  "q4_0_value b i =
    rbind (if i < BLOCK div 2 then rbind (index_at (q4_qs b) i) (\<lambda>v. Ok (v AND 0x0f))
           else rbind (index_at (q4_qs b) (i - BLOCK div 2)) (\<lambda>v. Ok (drop_bit 4 v))) (\<lambda>nibble.
    Ok (f32_mul (q4_d b) (f32_of_int (uint nibble - 8))))"

definition write_row_validated :: "weight_matrix \<Rightarrow> nat \<Rightarrow> f32 list \<Rightarrow> f32 list mres" where
  "write_row_validated w row out =
    rbind (wm_validate_shape w) (\<lambda>_.
    if rows w \<le> row \<or> length out \<noteq> cols w then Err Shape
    else case w of
      WF32 m \<Rightarrow> rbind (fm_validate_shape m) (\<lambda>_. rbind (fm_row_slice m row) (\<lambda>r.
        if length r = length out then Ok r else Panic))
    | WQ8_0 m \<Rightarrow> write_blocks BLOCK q8_0_value m row out
    | WQ4_0 m \<Rightarrow> write_blocks BLOCK q4_0_value m row out
    | WQ4K m \<Rightarrow> write_blocks Q4K_BLOCK (\<lambda>b i. map_err map_quant_error (q4_k_value b i)) m row out
    | WQ6K m \<Rightarrow> write_blocks Q6K_BLOCK (\<lambda>b i. map_err map_quant_error (q6_k_value b i)) m row out)"

definition row_to_vec :: "weight_matrix \<Rightarrow> nat \<Rightarrow> f32 list mres" where
  "row_to_vec w row = rbind (wm_validate w) (\<lambda>_.
    if rows w \<le> row then Err Shape else write_row_validated w row (replicate (cols w) 0))"

section \<open>Vectors\<close>

text \<open>\<open>*dst += value\<close> with the check after each element.\<close>

definition add_finite_each :: "f32 list \<Rightarrow> f32 list \<Rightarrow> f32 list mres" where
  "add_finite_each x ys =
    (if length x \<noteq> length ys then Err Shape
     else rbind (ensure_finite_slice x) (\<lambda>_. rbind (ensure_finite_slice ys) (\<lambda>_.
     traverse (\<lambda>(a, b). finite_value (f32_add a b)) (zip x ys))))"

definition residual_add :: "f32 list \<Rightarrow> f32 list \<Rightarrow> f32 list mres" where
  "residual_add x residual = add_finite_each x residual"

definition add_optional_bias :: "f32 list \<Rightarrow> f32 list option \<Rightarrow> f32 list mres" where
  "add_optional_bias x bias = (case bias of None \<Rightarrow> Ok x | Some bias \<Rightarrow> add_finite_each x bias)"

definition rmsnorm :: "f32 list \<Rightarrow> f32 list \<Rightarrow> f32 \<Rightarrow> f32 list \<Rightarrow> f32 list mres" where
  "rmsnorm x weight epsilon out =
    (if length x \<noteq> length weight \<or> length x \<noteq> length out \<or> x = [] then Err Shape
     else if list_ex (\<lambda>v. \<not> f32_is_finite v) (x @ weight) \<or> \<not> f32_is_finite epsilon then Err NonFinite
     else
       let ss = sum_squares_f32_ref x;
           m = f32_div ss (f32_of_int (int (length x)));
           r = f32_div (f32_of_int 1) (f32_sqrt (f32_add m epsilon))
       in if \<not> f32_is_finite r then Err NonFinite
          else fill (\<lambda>i. finite_value (f32_mul (f32_mul (x ! i) r) (weight ! i))) (length x) out)"

definition swiglu :: "f32 list \<Rightarrow> f32 list \<Rightarrow> f32 list \<Rightarrow> f32 list mres" where
  "swiglu gate up out =
    (if length gate \<noteq> length up \<or> length gate \<noteq> length out then Err Shape
     else if list_ex (\<lambda>v. \<not> f32_is_finite v) (gate @ up) then Err NonFinite
     else fill (\<lambda>i. finite_value (f32_mul (silu_f32 (gate ! i)) (up ! i))) (length gate) out)"

section \<open>Rotary tables\<close>

record rope_tables =
  rt_positions :: nat
  half_head_dim :: nat
  rt_pairing :: rope_pairing
  rt_cos :: "f32 list"
  rt_sin :: "f32 list"

definition rope_identity :: "nat \<Rightarrow> nat \<Rightarrow> rope_tables mres" where
  "rope_identity positions dh =
    (if positions = 0 \<or> dh = 0 \<or> dh mod 2 \<noteq> 0 then Err Shape
     else rbind (checked_len positions (dh div 2)) (\<lambda>table_len.
     Ok \<lparr>rt_positions = positions, half_head_dim = dh div 2, rt_pairing = Adjacent,
         rt_cos = replicate table_len (f32_of_int 1), rt_sin = replicate table_len 0\<rparr>))"

definition rope_values :: "rope_tables \<Rightarrow> nat \<Rightarrow> nat \<Rightarrow> (f32 \<times> f32) mres" where
  "rope_values rope pos j =
    (if rt_positions rope \<le> pos \<or> half_head_dim rope \<le> j then Err Shape
     else rbind (ok_or Shape (checked_mul_usize (rt_positions rope) (half_head_dim rope))) (\<lambda>expected_len.
     if length (rt_cos rope) \<noteq> expected_len \<or> length (rt_sin rope) \<noteq> expected_len then Err Shape
     else
       let idx = pos * half_head_dim rope + j in
       rbind (index_at (rt_cos rope) idx) (\<lambda>c. rbind (index_at (rt_sin rope) idx) (\<lambda>s.
       if \<not> f32_is_finite c \<or> \<not> f32_is_finite s then Err NonFinite else Ok (c, s)))))"

definition rope_entry :: "nat \<Rightarrow> f64 \<Rightarrow> nat \<times> nat \<Rightarrow> (f32 \<times> f32) mres" where
  "rope_entry rope_dim ln_base = (\<lambda>(pos, j).
    let exponent = f64_div (f64_neg (f64_of_int (int (2 * j)))) (f64_of_int (int rope_dim));
        omega = exp_f64 (f64_mul exponent ln_base);
        phi = f64_mul (f64_of_int (int pos)) omega
    in rbind (cos_f64 phi) (\<lambda>c. rbind (sin_f64 phi) (\<lambda>s.
       let c = f32_of_f64 c; s = f32_of_f64 s in
       if \<not> f32_is_finite c \<or> \<not> f32_is_finite s then Err NonFinite else Ok (c, s))))"

definition rope_llama :: "llama_config \<Rightarrow> nat \<Rightarrow> rope_tables mres" where
  "rope_llama config positions =
    rbind (config_validate config) (\<lambda>_. rbind (head_dim config) (\<lambda>dh.
    let rope_dim = rope_dimension_count config in
    if positions = 0 \<or> rope_dim = 0 \<or> rope_dim mod 2 \<noteq> 0 \<or> dh < rope_dim then Err Shape
    else
      let half = rope_dim div 2 in
      rbind (checked_len positions half) (\<lambda>_.
      let ln_base = ln_f64 (f64_of_f32 (rope_freq_base config)) in
      rbind (traverse (rope_entry rope_dim ln_base) (List.product [0..<positions] [0..<half])) (\<lambda>entries.
      Ok \<lparr>rt_positions = positions, half_head_dim = half, rt_pairing = rope_pairing config,
          rt_cos = map fst entries, rt_sin = map snd entries\<rparr>))))"

text \<open>One rotation of the pair \<open>(first, second)\<close>.\<close>

definition rope_pair :: "rope_tables \<Rightarrow> nat \<Rightarrow> nat \<Rightarrow> nat \<Rightarrow> f32 list \<Rightarrow> f32 list mres" where
  "rope_pair rope pos base j x =
    (let (first, second) = (case rt_pairing rope of
           Adjacent \<Rightarrow> (base + 2 * j, base + 2 * j + 1)
         | SplitHalf \<Rightarrow> (base + j, base + j + half_head_dim rope))
     in rbind (index_at x first) (\<lambda>x0. rbind (index_at x second) (\<lambda>x1.
        rbind (rope_values rope pos j) (\<lambda>(c, s).
        let a = f32_sub (f32_mul x0 c) (f32_mul x1 s); b = f32_add (f32_mul x0 s) (f32_mul x1 c) in
        if \<not> f32_is_finite a \<or> \<not> f32_is_finite b then Err NonFinite
        else Ok (x[first := a, second := b])))))"

definition apply_rope :: "f32 list \<Rightarrow> nat \<Rightarrow> nat \<Rightarrow> nat \<Rightarrow> rope_tables \<Rightarrow> f32 list mres" where
  "apply_rope x heads dh pos rope =
    rbind (checked_len heads dh) (\<lambda>expected_len. rbind (checked_len (half_head_dim rope) 2) (\<lambda>rope_width.
    if heads = 0 \<or> dh = 0 \<or> length x \<noteq> expected_len \<or> half_head_dim rope = 0 \<or> dh < rope_width then Err Shape
    else rbind (ensure_finite_slice x) (\<lambda>_.
    rfold (\<lambda>head x. rfold (\<lambda>j x. rope_pair rope pos (head * dh) j x) [0..<half_head_dim rope] x) [0..<heads] x)))"

section \<open>Attention of one head\<close>

definition default_attention_scale :: "nat \<Rightarrow> f32" where
  "default_attention_scale dh = f32_div (f32_of_int 1) (f32_sqrt (f32_of_int (int dh)))"

definition attention_scores_one_head_scaled :: "f32 list \<Rightarrow> f32 list \<Rightarrow> nat \<Rightarrow> f32 \<Rightarrow> f32 list \<Rightarrow> f32 list mres" where
  "attention_scores_one_head_scaled q keys dh scale out =
    rbind (checked_len (length out) dh) (\<lambda>expected_keys.
    if dh = 0 \<or> out = [] \<or> length q \<noteq> dh \<or> length keys \<noteq> expected_keys then Err Shape
    else if \<not> f32_is_finite scale \<or> f32_le scale 0 then Err Shape
    else if list_ex (\<lambda>v. \<not> f32_is_finite v) (q @ keys) then Err NonFinite
    else
      let ks = chunks_exact dh keys in
      fill (\<lambda>j. rbind (index_at ks j) (\<lambda>key. rbind (dot_f32_ref q key) (\<lambda>d. finite_value (f32_mul d scale))))
        (length ks) out)"

definition attention_scores_one_head :: "f32 list \<Rightarrow> f32 list \<Rightarrow> nat \<Rightarrow> f32 list \<Rightarrow> f32 list mres" where
  "attention_scores_one_head q keys dh out =
    attention_scores_one_head_scaled q keys dh (default_attention_scale dh) out"

definition softmax_max_step :: "f32 \<Rightarrow> f32 \<Rightarrow> f32 mres" where
  "softmax_max_step v mx = (if \<not> f32_is_finite v then Err NonFinite else Ok (if f32_lt mx v then v else mx))"

definition softmax_in_place :: "f32 list \<Rightarrow> f32 list mres" where
  "softmax_in_place x =
    (if x = [] then Err Shape
     else rbind (rfold softmax_max_step x 0xff800000) (\<lambda>mx.
       let es = map (\<lambda>v. exp_f32 (f32_max (f32_sub v mx) (f32_of_int (- 88)))) x;
           z = sum_f32_ref es
       in if \<not> f32_is_finite z \<or> f32_eq z 0 then Err NonFinite
          else traverse (\<lambda>v. finite_value (f32_div v z)) es))"

definition attention_weighted_value :: "f32 list \<Rightarrow> f32 list \<Rightarrow> nat \<Rightarrow> f32 list \<Rightarrow> f32 list mres" where
  "attention_weighted_value p values dh out =
    rbind (checked_len (length p) dh) (\<lambda>expected_values.
    if dh = 0 \<or> p = [] \<or> length out \<noteq> dh \<or> length values \<noteq> expected_values then Err Shape
    else if list_ex (\<lambda>v. \<not> f32_is_finite v) (p @ values) then Err NonFinite
    else if length p = 1 then (if length values = length out then Ok values else Panic)
    else rfold (\<lambda>(j, value) out. rbind (index_at p j) (\<lambda>pj.
        fill (\<lambda>d. rbind (index_at out d) (\<lambda>o_d. rbind (index_at value d) (\<lambda>v.
          finite_value (f32_add o_d (f32_mul pj v))))) dh out))
      (enumerate 0 (chunks_exact dh values)) (map (\<lambda>_. 0) out))"

end
