(* ===== verification/Tensor_Facts.thy ===== *)
theory Tensor_Facts
  imports Tensor
begin

text \<open>
  Facts about the tensor kernels: a filled slice is the list of its values, so that the old
  content of a slice does not matter; the parallel product over rows has the outcomes of the
  sequential one; and every kernel ends, without a panic, in finite vectors of the right length
  or in an error value.
\<close>

named_theorems fresh \<open>the old content of a filled slice does not matter\<close>

section \<open>Filling a slice\<close>

lemma rfold_Nil_eq [simp]: "rfold f [] = Ok"
  by (intro ext) simp

lemma fill_Suc:
  "fill f (Suc n) out =
    rbind (fill f n out) (\<lambda>out. rbind (f n) (\<lambda>v. if n < length out then Ok (out[n := v]) else Panic))"
  unfolding fill_def upt_Suc_append [OF le0] rfold_append by (rule rbind_cong) simp_all

lemma fill_prefix:
  "n \<le> length out \<Longrightarrow> fill f n out = rbind (traverse f [0..<n]) (\<lambda>vs. Ok (vs @ drop n out))"
proof (induction n)
  case 0
  show ?case by (simp add: fill_def)
next
  case (Suc n)
  then have IH: "fill f n out = rbind (traverse f [0..<n]) (\<lambda>vs. Ok (vs @ drop n out))" by simp
  have put: "(vs @ drop n out)[n := v] = vs @ v # drop (Suc n) out" if "length vs = n" for vs v
    using that Suc.prems by (simp add: list_update_append flip: Cons_nth_drop_Suc)
  show ?case unfolding fill_Suc IH rbind_assoc upt_Suc_append [OF le0] traverse_append
  proof (rule rbind_cong [OF refl], goal_cases)
    case (1 vs)
    then have "length vs = n" by (simp add: traverse_length)
    then show ?case using put Suc.prems by (cases "f n") auto
  qed
qed

lemma fill_traverse: "length out = n \<Longrightarrow> fill f n out = traverse f [0..<n]"
  by (simp add: fill_prefix)

lemma traverse_cong [fundef_cong]:
  "xs = ys \<Longrightarrow> (\<And>x. x \<in> set ys \<Longrightarrow> f x = g x) \<Longrightarrow> traverse f xs = traverse g ys"
  by (induction ys arbitrary: xs) auto

lemma traverse_map: "traverse f (map g xs) = traverse (\<lambda>x. f (g x)) xs"
  by (induction xs) simp_all

lemma sequential_traverse: "length out = n \<Longrightarrow> gemv_rows_sequential n out f = traverse (checked_row f) [0..<n]"
  by (simp add: gemv_rows_sequential_def fill_traverse)

lemma gemv_rows_fresh [fresh]:
  "gemv_rows n out f = (if length out \<noteq> n then Err Shape else traverse (checked_row f) [0..<n])"
  by (simp add: gemv_rows_def sequential_traverse)

section \<open>Products in parallel\<close>

text \<open>The value of a product is the same for every schedule and every number of threads; where
  rows fail, some failing row is reported.\<close>

lemma chunks_Nil [simp]: "chunks n [] = []" by (subst chunks.simps) simp

lemma chunks_step: "n \<noteq> 0 \<Longrightarrow> xs \<noteq> [] \<Longrightarrow> chunks n xs = take n xs # chunks n (drop n xs)"
  by (subst chunks.simps) simp

lemma concat_chunks: "n \<noteq> 0 \<Longrightarrow> concat (chunks n xs) = xs"
  by (induction n xs rule: chunks.induct) (auto simp: chunks.simps)

lemma traverse_outcomes: "traverse (\<lambda>r. r) rs = Ok ys \<longleftrightarrow> rs = map Ok ys"
  by (induction rs arbitrary: ys) auto

lemma some_failure: "(\<exists>ys. rs = map Ok ys) \<or> (\<exists>r \<in> set rs. \<forall>x. r \<noteq> Ok x)"
proof (induction rs)
  case (Cons r rs)
  then show ?case by (cases r) (auto simp: Cons_eq_map_conv)
qed simp

lemma failed_not_Ok [simp]: "Ok ys \<noteq> rbind r (\<lambda>_. Panic)"
  by (cases r) simp_all

text \<open>A parallel loop returns the values when all tasks have one, and otherwise a failure of a task.\<close>

lemma for_each_outcome:
  assumes "all_tasks_succeed run" "some_task_fails run" "q \<in> run rs"
  obtains (success) ys where "rs = map Ok ys" "q = Ok ys" "run rs = {Ok ys}"
  | (failure) r where "r \<in> set rs" "\<forall>x. r \<noteq> Ok x" "q = rbind r (\<lambda>_. Panic)" "\<And>ys. rs \<noteq> map Ok ys"
proof (cases "\<exists>ys. rs = map Ok ys")
  case True
  then show ?thesis using assms(1,3) success by (auto simp: all_tasks_succeed_def)
next
  case False
  then have "\<exists>r \<in> set rs. \<forall>x. r \<noteq> Ok x" using some_failure [of rs] by blast
  then have "run rs \<subseteq> {rbind r (\<lambda>_. Panic) | r. r \<in> set rs \<and> (\<forall>x. r \<noteq> Ok x)}"
    using assms(2) unfolding some_task_fails_def by blast
  then show ?thesis using assms(3) failure False by blast
qed

lemma for_each_ne: "all_tasks_succeed run \<Longrightarrow> some_task_fails run \<Longrightarrow> run rs \<noteq> {}"
  using some_failure [of rs] by (auto simp: all_tasks_succeed_def some_task_fails_def)

lemma traverse_Err: "traverse f xs = Err e \<Longrightarrow> \<exists>x \<in> set xs. f x = Err e"
proof (induction xs)
  case (Cons x xs)
  then show ?case by (cases "f x") (auto simp: res_simps)
qed simp

lemma traverse_concat:
  "rbind (traverse (\<lambda>xs. traverse f xs) xss) (\<lambda>yss. Ok (concat yss)) = traverse f (concat xss)"
proof (induction xss)
  case (Cons xs xss)
  show ?case unfolding traverse.simps concat.simps traverse_append rbind_assoc Cons [symmetric]
    by (simp add: rbind_assoc)
qed simp

text \<open>The chunk that starts at \<open>k\<close> works on the rows from \<open>k\<close> on.\<close>

lemma chunk_indices:
  assumes "n \<noteq> 0"
  shows "concat (map (\<lambda>(i, c). map (\<lambda>d. i * n + d) [0..<length c]) (enumerate k (chunks n xs))) =
    [k * n..<k * n + length xs]"
  using assms
proof (induction n xs arbitrary: k rule: chunks.induct)
  case (1 n xs)
  show ?case
  proof (cases "xs = []")
    case False
    have IH: "concat (map (\<lambda>(i, c). map (\<lambda>d. i * n + d) [0..<length c]) (enumerate (Suc k) (chunks n (drop n xs)))) =
      [Suc k * n..<Suc k * n + (length xs - n)]"
      using 1 False by simp
    have here: "map (\<lambda>d. k * n + d) [0..<m] = [k * n..<k * n + m]" for m
      by (simp add: map_add_upt add.commute)
    show ?thesis unfolding chunks_step [OF 1(2) False] enumerate_simps list.map concat.simps prod.case IH here
      using upt_add_eq_append [of "k * n" "k * n + n" "length xs - n"]
      by (cases "length xs \<le> n") (simp_all add: min_def add.assoc add.commute)
  qed simp
qed


lemma parallel_chunks:
  assumes "length out = n" "all_tasks_succeed run" "some_task_fails run" "m \<noteq> 0"
    and q: "q \<in> run (map (\<lambda>(i, c). fill (\<lambda>d. checked_row f (i * m + d)) (length c) c) (enumerate 0 (chunks m out)))"
  shows "(rbind q (\<lambda>cs. Ok (concat cs)) = Ok v \<longleftrightarrow> traverse (checked_row f) [0..<n] = Ok v) \<and>
    (rbind q (\<lambda>cs. Ok (concat cs)) = Err e \<longrightarrow> (\<exists>r < n. checked_row f r = Err e))"
proof -
  define rows_of where "rows_of = map (\<lambda>(i, c). map (\<lambda>d. i * m + d) [0..<length c]) (enumerate 0 (chunks m out))"
  define tasks where "tasks = map (traverse (checked_row f)) rows_of"
  have rows: "concat rows_of = [0..<n]" unfolding rows_of_def chunk_indices [OF assms(4)] by (simp add: assms(1))
  have eq: "map (\<lambda>(i, c). fill (\<lambda>d. checked_row f (i * m + d)) (length c) c) (enumerate 0 (chunks m out)) = tasks"
    unfolding tasks_def rows_of_def map_map by (rule map_cong) (auto simp: fill_traverse traverse_map)
  have all: "rbind (traverse (\<lambda>r. r) tasks) (\<lambda>cs. Ok (concat cs)) = traverse (checked_row f) [0..<n]"
    unfolding tasks_def traverse_map traverse_concat rows ..
  show ?thesis
  proof (rule for_each_outcome [OF assms(2,3) q [unfolded eq]], goal_cases)
    case (1 ys)
    then have "traverse (checked_row f) [0..<n] = Ok (concat ys)" using all traverse_outcomes [of tasks ys] by simp
    then show ?case using 1(2) by simp
  next
    case failure: (2 r)
    then have "\<nexists>ys. traverse (\<lambda>r. r) tasks = Ok ys" by (simp add: traverse_outcomes)
    then have none: "traverse (checked_row f) [0..<n] \<noteq> Ok v" using all by (cases "traverse (\<lambda>r. r) tasks") auto
    have err: "\<exists>k < n. checked_row f k = Err e" if "r = Err e"
    proof -
      obtain ks where ks: "ks \<in> set rows_of" "r = traverse (checked_row f) ks" using failure(1) by (auto simp: tasks_def)
      have "traverse (checked_row f) ks = Err e" using ks(2) that by simp
      then obtain k where "k \<in> set ks" "checked_row f k = Err e" by (blast dest: traverse_Err)
      moreover from this have "k \<in> set (concat rows_of)" using ks(1) by auto
      ultimately show ?thesis unfolding rows by auto
    qed
    have "rbind q (\<lambda>cs. Ok (concat cs)) \<noteq> Ok v" "rbind q (\<lambda>cs. Ok (concat cs)) = Err e \<Longrightarrow> r = Err e"
      unfolding failure(3) by (cases r; simp)+
    then show ?case using none err by blast
  qed
qed

lemma parallel_outcome:
  assumes "length out = n" "all_tasks_succeed run" "some_task_fails run" "r \<in> gemv_rows_parallel run pool t n out f"
  shows "if pool \<or> t \<le> 1 \<or> n < 2
    then (\<forall>v. r = Ok v \<longleftrightarrow> gemv_rows_sequential n out f = Ok v) \<and> (\<forall>e. r = Err e \<longrightarrow> (\<exists>i < n. checked_row f i = Err e))
    else r = Err ThreadPanicked"
proof -
  define threads where "threads = max 1 (min t (max n 1))"
  define m where "m = (n + threads - 1) div threads"
  have single: "threads = 1 \<or> n < 2 \<longleftrightarrow> t \<le> 1 \<or> n < 2" by (auto simp: threads_def)
  note seq = sequential_traverse [OF assms(1), of f]
  show ?thesis
  proof (cases "t \<le> 1 \<or> n < 2")
    case True
    then have "r = gemv_rows_sequential n out f"
      using assms(4) single unfolding gemv_rows_parallel_def threads_def [symmetric] Let_def by simp
    then show ?thesis using True unfolding seq by (fastforce dest: traverse_Err)
  next
    case False
    then have par: "r \<in> (if \<not> pool then {Err ThreadPanicked} else (\<lambda>q. rbind q (\<lambda>cs. Ok (concat cs))) ` run
        (map (\<lambda>(i, c). fill (\<lambda>d. checked_row f (i * m + d)) (length c) c) (enumerate 0 (chunks m out))))"
      using assms(4) single unfolding gemv_rows_parallel_def threads_def [symmetric] m_def [symmetric] Let_def by simp
    have "threads \<le> n + threads - 1" "0 < threads" using False by (simp_all add: threads_def)
    then have m: "m \<noteq> 0" unfolding m_def by (simp add: div_eq_0_iff not_less)
    show ?thesis
    proof (cases pool)
      case True
      then obtain q where "q \<in> run (map (\<lambda>(i, c). fill (\<lambda>d. checked_row f (i * m + d)) (length c) c) (enumerate 0 (chunks m out)))"
        "r = rbind q (\<lambda>cs. Ok (concat cs))" using par by auto
      then show ?thesis using True parallel_chunks [OF assms(1-3) m] unfolding seq by simp
    next
      case pool: False
      then show ?thesis using False par by simp
    qed
  qed
qed

text \<open>C21: the parallel product over the rows does not depend on the number of threads. For every library
  \<open>rayon\<close> whose \<open>try_for_each\<close> behaves as documented and every requested number of threads there is an
  outcome. If the thread pool can be had, or none is needed, every outcome is a vector exactly when
  the sequential product returns one, the same one, and every error is the one of some row. If a
  pool is needed and cannot be built, the outcome is \<open>ThreadPanicked\<close>.\<close>

theorem gemv_threads_invariant:
  assumes "length out = n" "all_tasks_succeed try_for_each" "some_task_fails try_for_each"
  shows "gemv_rows_parallel try_for_each pool t n out f \<noteq> {} \<and>
    (\<forall>r \<in> gemv_rows_parallel try_for_each pool t n out f.
      if pool \<or> t \<le> 1 \<or> n < 2
      then (\<forall>v. r = Ok v \<longleftrightarrow> gemv_rows_sequential n out f = Ok v) \<and> (\<forall>e. r = Err e \<longrightarrow> (\<exists>i < n. checked_row f i = Err e))
      else r = Err ThreadPanicked)"
proof -
  have "gemv_rows_parallel try_for_each pool t n out f \<noteq> {}"
    using for_each_ne [OF assms(2,3)] by (auto simp: gemv_rows_parallel_def Let_def)
  then show ?thesis using parallel_outcome [OF assms] by blast
qed

text \<open>A loop that reports the first failure in the order of the tasks, as one thread would.\<close>

definition in_order :: "('e, 'a) for_each" where "in_order rs = {traverse (\<lambda>r. r) rs}"

lemma in_order_documented:
  "all_tasks_succeed (in_order :: ('e, 'a) for_each)" "some_task_fails (in_order :: ('e, 'a) for_each)"
proof -
  show "all_tasks_succeed (in_order :: ('e, 'a) for_each)" by (simp add: all_tasks_succeed_def in_order_def traverse_outcomes)
  have fails: "(\<exists>ys. rs = map Ok ys) \<or> (\<exists>r \<in> set rs. (\<forall>x. r \<noteq> Ok x) \<and> traverse (\<lambda>r. r) rs = rbind r (\<lambda>_. Panic))" for rs :: "('e, 'a) res list"
  proof (induction rs)
    case (Cons r rs)
    then show ?case by (cases r) (auto simp: res_simps Cons_eq_map_conv rbind_assoc)
  qed simp
  show "some_task_fails (in_order :: ('e, 'a) for_each)"
    unfolding some_task_fails_def
  proof (intro allI impI)
    fix rs :: "('e, 'a) res list" assume "\<exists>r \<in> set rs. \<forall>x. r \<noteq> Ok x"
    then have "\<nexists>ys. rs = map Ok ys" by auto
    then obtain r where "r \<in> set rs" "\<forall>x. r \<noteq> Ok x" "traverse (\<lambda>r. r) rs = rbind r (\<lambda>_. Panic)" using fails by blast
    then show "in_order rs \<noteq> {} \<and> in_order rs \<subseteq> {rbind r (\<lambda>_. Panic) | r. r \<in> set rs \<and> (\<forall>x. r \<noteq> Ok x)}"
      unfolding in_order_def by blast
  qed
qed

lemma only_member: "S \<noteq> {} \<Longrightarrow> \<forall>r \<in> S. r = x \<Longrightarrow> S = {x}"
  by auto

theorem gemv_threads_invariant_witness:
  "gemv_rows_parallel in_order True 2 3 [0, 0, 0] (\<lambda>r. Ok (f32_of_int (int r))) = {Ok [0, 0x3f800000, 0x40000000]}"
proof -
  have "gemv_rows_sequential 3 [0, 0, 0] (\<lambda>r. Ok (f32_of_int (int r))) = Ok [0, 0x3f800000, 0x40000000]" by code_simp
  moreover note inst = gemv_threads_invariant [OF _ in_order_documented, of "[0, 0, 0]" 3 True 2 "\<lambda>r. Ok (f32_of_int (int r))"]
  ultimately have "\<forall>r \<in> gemv_rows_parallel in_order True 2 3 [0, 0, 0] (\<lambda>r. Ok (f32_of_int (int r))). r = Ok [0, 0x3f800000, 0x40000000]"
    by simp
  moreover have "gemv_rows_parallel in_order True 2 3 [0, 0, 0] (\<lambda>r. Ok (f32_of_int (int r))) \<noteq> {}"
    by (rule inst [THEN conjunct1]) simp
  ultimately show ?thesis by (intro only_member)
qed

section \<open>Vectors of finite numbers\<close>

definition fvec :: "nat \<Rightarrow> f32 list \<Rightarrow> bool" where
  "fvec n v \<longleftrightarrow> length v = n \<and> list_all f32_is_finite v"

named_theorems tensor_yields \<open>kernels end in a well-formed value or an error\<close>
named_theorems tensor_length \<open>lengths of the vectors that kernels return\<close>

lemma yields_bind_eq:
  "yields Q m \<Longrightarrow> (\<And>x. m = Ok x \<Longrightarrow> Q x \<Longrightarrow> yields P (f x)) \<Longrightarrow> yields P (rbind m f)"
  by (cases m) auto

lemma yields_conj: "yields P r \<Longrightarrow> yields Q r \<Longrightarrow> yields (\<lambda>x. P x \<and> Q x) r"
  by (cases r) auto

lemma yields_any: "yields P r \<Longrightarrow> yields (\<lambda>_. True) r"
  by (cases r) auto

lemma yields_ok_or: "yields (\<lambda>x. m = Some x) (ok_or e m)"
  by (cases m) simp_all

lemma yields_map_err [simp]: "yields P (map_err g r) = yields P r"
  by (cases r) auto

lemma finite_value_yields [tensor_yields]: "yields f32_is_finite (finite_value v)"
  by (simp add: finite_value_def)

lemma ensure_finite_slice_Ok: "ensure_finite_slice v = Ok u \<longleftrightarrow> list_all f32_is_finite v"
  by (auto simp: ensure_finite_slice_def list_ex_iff list_all_iff)

lemma ensure_finite_slice_yields [tensor_yields]: "yields (\<lambda>_. list_all f32_is_finite v) (ensure_finite_slice v)"
  by (auto simp: ensure_finite_slice_def list_ex_iff list_all_iff)

lemma checked_len_Ok: "checked_len a b = Ok c \<longleftrightarrow> c = a * b \<and> a * b \<le> usize_max"
  by (simp add: checked_len_def)

lemma checked_len_yields [tensor_yields]: "yields (\<lambda>c. c = a * b \<and> a * b \<le> usize_max) (checked_len a b)"
  by (simp add: checked_len_def checked_mul_usize_def)

lemma not_any_infinite [simp]: "list_ex (\<lambda>v. \<not> P v) xs \<longleftrightarrow> \<not> list_all P xs"
  by (auto simp: list_ex_iff list_all_iff)

lemma traverse_values:
  assumes "\<And>i. i < n \<Longrightarrow> yields (\<lambda>_. True) (f i)"
  shows "yields (fvec n) (traverse (\<lambda>i. rbind (f i) finite_value) [0..<n])"
proof (rule yields_mono [OF yields_traverse [where P = f32_is_finite]])
  fix i assume "i \<in> set [0..<n]"
  then show "yields f32_is_finite (rbind (f i) finite_value)"
    using assms by (intro yields_bind [where Q = "\<lambda>_. True"] finite_value_yields) simp
qed (auto simp: fvec_def list_all_iff)

lemma gemv_rows_yields:
  assumes "\<And>i. i < n \<Longrightarrow> yields (\<lambda>_. True) (f i)"
  shows "yields (fvec n) (gemv_rows n out f)"
  unfolding gemv_rows_fresh checked_row_def using traverse_values [OF assms] by simp

lemma gemv_rows_length: "gemv_rows n out f = Ok v \<Longrightarrow> length v = n \<and> length out = n"
  unfolding gemv_rows_fresh by (auto dest: traverse_length split: if_splits)

section \<open>Weight matrices\<close>

text \<open>The array lengths inside the blocks, which the types of the code carry.\<close>

fun wm_ok :: "weight_matrix \<Rightarrow> bool" where
  "wm_ok (WF32 m) = True"
| "wm_ok (WQ8_0 m) = list_all q8_0_ok (qm_blocks m)"
| "wm_ok (WQ4_0 m) = list_all q4_0_ok (qm_blocks m)"
| "wm_ok (WQ4K m) = list_all q4k_ok (qm_blocks m)"
| "wm_ok (WQ6K m) = list_all q6k_ok (qm_blocks m)"

lemma fm_shape_Ok: "fm_validate_shape m = Ok u \<longleftrightarrow> 0 < fm_rows m \<and> 0 < fm_cols m \<and>
    length (fm_data m) = fm_rows m * fm_cols m \<and> length (fm_data m) \<le> usize_max"
  by (auto simp: fm_validate_shape_def checked_len_Ok)

lemma qm_shape_Ok: "validate_quant_matrix_shape_with_block r c bpr n b = Ok u \<longleftrightarrow>
    0 < r \<and> 0 < c \<and> 0 < bpr \<and> c mod b = 0 \<and> bpr = c div b \<and> n = r * bpr \<and> n \<le> usize_max"
  by (auto simp: validate_quant_matrix_shape_with_block_def checked_len_Ok)

lemma shape_yields [tensor_yields]:
  "yields (\<lambda>_. True) (wm_validate_shape w)" "yields (\<lambda>_. True) (fm_validate_shape m)"
proof -
  have quant: "yields (\<lambda>_. True) (validate_quant_matrix_shape_with_block r c bpr n b)" for r c bpr n b
    unfolding validate_quant_matrix_shape_with_block_def
    by (auto intro!: yields_bind [OF checked_len_yields])
  show float: "yields (\<lambda>_. True) (fm_validate_shape m)" for m
    unfolding fm_validate_shape_def by (auto intro!: yields_bind [OF checked_len_yields])
  show "yields (\<lambda>_. True) (wm_validate_shape w)"
    by (cases w) (simp_all add: quant float validate_quant_matrix_shape_def)
qed

lemma row_bounds: "i < r \<Longrightarrow> i * c + c \<le> r * (c :: nat)"
  by (metis Suc_leI mult_Suc mult_le_mono1 add.commute)

lemma slice_at_Ok: "a \<le> b \<Longrightarrow> b \<le> length xs \<Longrightarrow> slice_at xs a b = Ok (take (b - a) (drop a xs))"
  by (simp add: slice_at_def)

lemma row_slice:
  assumes "length xs = r * c" "i < r"
  shows "slice_at xs (i * c) (i * c + c) = Ok (take c (drop (i * c) xs))" "length (take c (drop (i * c) xs)) = c"
  using row_bounds [OF assms(2), of c] assms(1) by (simp_all add: slice_at_def)

lemma list_all_part: "list_all P xs \<Longrightarrow> list_all P (take n (drop k xs))"
  by (auto simp: list_all_iff dest: in_set_takeD in_set_dropD)

lemma fm_gemv_validated_yields: "yields (fvec (fm_rows m)) (fm_gemv_validated m x out)"
proof -
  have "yields (\<lambda>_. True) (rbind (slice_at (fm_data m) (r * fm_cols m) (r * fm_cols m + fm_cols m)) (\<lambda>row. dot_f32_ref row x))"
    if that: "fm_validate_shape m = Ok ()" "r < fm_rows m" "length x = fm_cols m" for r
  proof -
    have "length (fm_data m) = fm_rows m * fm_cols m" using that by (simp add: fm_shape_Ok)
    note row = row_slice [OF this that(2)]
    show ?thesis unfolding row(1) rbind.simps dot_f32_ref_def using row(2) that(3) by simp
  qed
  then show ?thesis unfolding fm_gemv_validated_def Let_def
    by (auto intro!: yields_bind_eq [OF shape_yields(2)] yields_bind [OF ensure_finite_slice_yields] gemv_rows_yields)
qed

lemma gemv_blocks_yields:
  assumes "validate_quant_matrix_shape_with_block (qm_rows m) (qm_cols m) (blocks_per_row m) (length (qm_blocks m)) b = Ok ()"
    and "list_all ok (qm_blocks m)" and "\<And>bs. list_all ok bs \<Longrightarrow> yields f32_is_finite (dot bs qx)"
  shows "yields (fvec (qm_rows m)) (gemv_blocks dot m qx out)"
  unfolding gemv_blocks_def Let_def
proof (rule gemv_rows_yields)
  fix r assume r: "r < qm_rows m"
  have "length (qm_blocks m) = qm_rows m * blocks_per_row m" using assms(1) by (simp add: qm_shape_Ok)
  note row = row_slice [OF this r]
  show "yields (\<lambda>_. True) (rbind (slice_at (qm_blocks m) (r * blocks_per_row m) (r * blocks_per_row m + blocks_per_row m))
      (\<lambda>bs. map_err map_quant_error (dot bs qx)))"
    unfolding row(1) rbind.simps yields_map_err by (rule yields_any [OF assms(3) [OF list_all_part [OF assms(2)]]])
qed


lemma gemv_checks_Ok: "gemv_checks w x out = Ok u \<longleftrightarrow>
    wm_validate_shape w = Ok () \<and> length x = cols w \<and> length out = rows w \<and> list_all f32_is_finite x"
  by (auto simp: gemv_checks_def ensure_finite_slice_Ok)

lemma gemv_checks_yields: "yields (\<lambda>_. True) (gemv_checks w x out)"
  unfolding gemv_checks_def by (auto intro!: yields_bind [OF shape_yields(1)] yields_any [OF ensure_finite_slice_yields])

lemma quant_yields: "yields (list_all q8a_ok) (quant_q8a x)" "yields (list_all q8k_ok) (quant_q8k x)"
  by (simp_all add: quant_q8a_def quant_q8k_def quantize_q8a_yields quantize_q8k_yields)

lemma wm_gemv_validated_yields [tensor_yields]:
  assumes "wm_ok w"
  shows "yields (fvec (rows w)) (wm_gemv_validated w x out)"
  unfolding wm_gemv_validated_def
proof (rule yields_bind_eq [OF gemv_checks_yields])
  fix u assume "gemv_checks w x out = Ok u"
  then have shape: "wm_validate_shape w = Ok ()" by (simp add: gemv_checks_Ok)
  show "yields (fvec (rows w)) (case w of
      WF32 m \<Rightarrow> fm_gemv_validated m x out
    | WQ8_0 m \<Rightarrow> rbind (quant_q8a x) (\<lambda>qx. gemv_blocks dot_q8_0_q8a m qx out)
    | WQ4_0 m \<Rightarrow> rbind (quant_q8a x) (\<lambda>qx. gemv_blocks dot_q4_0_q8a m qx out)
    | WQ4K m \<Rightarrow> rbind (quant_q8a x) (\<lambda>qx. gemv_blocks dot_q4_k_q8a m qx out)
    | WQ6K m \<Rightarrow> rbind (quant_q8k x) (\<lambda>qx. gemv_blocks dot_q6_k_q8k m qx out))"
    using assms shape
    by (cases w) (auto simp: validate_quant_matrix_shape_def fm_gemv_validated_yields
        intro!: yields_bind [OF quant_yields(1)] yields_bind [OF quant_yields(2)] gemv_blocks_yields dot_kernels_yield)
qed

lemma fm_gemv_length: "fm_gemv_validated m x out = Ok v \<Longrightarrow> length v = fm_rows m"
  by (auto simp: fm_gemv_validated_def Let_def ensure_finite_slice_Ok dest: gemv_rows_length split: if_splits)

lemma gemv_blocks_length: "gemv_blocks dot m qx out = Ok v \<Longrightarrow> length v = qm_rows m"
  by (auto simp: gemv_blocks_def Let_def dest: gemv_rows_length)

lemma wm_gemv_length: "wm_gemv_validated w x out = Ok v \<Longrightarrow> length v = rows w"
  by (cases w) (auto simp: wm_gemv_validated_def dest: fm_gemv_length gemv_blocks_length)

lemma gemv_fresh:
  assumes "length out = length out'"
  shows "wm_gemv_validated w x out = wm_gemv_validated w x out'"
  unfolding wm_gemv_validated_def gemv_checks_def fm_gemv_validated_def gemv_blocks_def gemv_rows_fresh assms ..

text \<open>A product that is given the quantised input, or that quantises into a scratch vector, has the
  result of the plain product.\<close>

lemma quant_q8a_length: "quant_q8a x = Ok q \<Longrightarrow> length q = length x div 32"
  by (auto simp: quant_q8a_def quantize_q8a_into_def BLOCK_def chunks_exact_props(1) dest!: traverse_length split: if_splits)

lemma rel_res_same [simp]: "rel_res (=) m m"
  by (simp add: res.rel_eq)

lemma rel_res_bind:
  "rel_res R m m' \<Longrightarrow> (\<And>x y. m = Ok x \<Longrightarrow> m' = Ok y \<Longrightarrow> R x y \<Longrightarrow> rel_res S (f x) (f' y)) \<Longrightarrow> rel_res S (rbind m f) (rbind m' f')"
  by (cases m; cases m') auto

lemma rel_res_bind_same:
  "(\<And>x. m = Ok x \<Longrightarrow> rel_res S (f x) (f' x)) \<Longrightarrow> rel_res S (rbind m f) (rbind m f')"
  by (cases m) auto

lemma gemv_shared:
  assumes "needs_q8a w \<Longrightarrow> \<exists>q. qx = Some q \<and> quant_q8a x = Ok q"
  shows "rel_res (\<lambda>(v, _) v'. v = v') (gemv_with_optional_q8a_and_q8k_scratch w x qx q8k out) (wm_gemv_validated w x out)"
  unfolding gemv_with_optional_q8a_and_q8k_scratch_def wm_gemv_validated_def
proof (rule rel_res_bind_same, goal_cases)
  case 1
  then have shape: "wm_validate_shape w = Ok ()" "length x = cols w" by (simp_all add: gemv_checks_Ok)
  have pair: "rel_res (\<lambda>(v, _) v'. v = v') (rbind m (\<lambda>v. Ok (v, s))) m" for m :: "f32 list mres" and s :: "q8k_block list"
    by (cases m) auto
  have shared: "with_q8a n qx f = rbind (quant_q8a x) f"
    if "needs_q8a w" "n = cols w div 32" for n and f :: "q8a_block list \<Rightarrow> f32 list mres"
    using assms [OF that(1)] that(2) shape(2) quant_q8a_length by (auto simp: with_q8a_def)
  have blocks: "256 dvd b \<Longrightarrow> b div 256 * 8 = b div (32 :: nat)" for b by (elim dvdE) simp
  show ?case
    using shape shared
    by (cases w) (auto simp: pair validate_quant_matrix_shape_def qm_shape_Ok BLOCK_def Q4K_BLOCK_def blocks intro!: rel_res_bind_same)
qed

lemma gemv_scratch:
  "rel_res (\<lambda>(v, _) v'. v = v') (gemv_with_quant_scratch w x q8a q8k out) (wm_gemv_validated w x out)"
  unfolding gemv_with_quant_scratch_def wm_gemv_validated_def
proof (rule rel_res_bind_same, goal_cases)
  case 1
  have pair: "rel_res (\<lambda>(v, _) v'. v = v') (rbind m (\<lambda>v. Ok (v, s))) m" for m :: "f32 list mres" and s :: "q8a_block list \<times> q8k_block list"
    by (cases m) auto
  show ?case by (cases w) (auto simp: pair intro!: rel_res_bind_same)
qed


section \<open>Rows\<close>

lemma fm_row_slice_Ok: "fm_row_slice m row = Ok r \<Longrightarrow> length r = fm_cols m \<and> set r \<subseteq> set (fm_data m)"
  by (auto simp: fm_row_slice_def dest!: in_set_takeD in_set_dropD)

lemma fm_row_slice_yields: "yields (\<lambda>r. length r = fm_cols m \<and> set r \<subseteq> set (fm_data m)) (fm_row_slice m row)"
proof -
  have "yields (\<lambda>_. True) (fm_row_slice m row)"
    unfolding fm_row_slice_def by (intro yields_bind [OF yields_ok_or] yields_mono [OF yields_ok_or] TrueI)
  then show ?thesis using fm_row_slice_Ok [of m row] by (cases "fm_row_slice m row") auto
qed

text \<open>The elements of the blocks in order are the row.\<close>

definition block_values :: "nat \<Rightarrow> ('b \<Rightarrow> nat \<Rightarrow> f32 mres) \<Rightarrow> 'b list \<Rightarrow> f32 list mres" where
  "block_values n val bs = traverse (\<lambda>(b, i). rbind (val b i) finite_value) (List.product bs [0..<n])"

definition put_next :: "('a \<Rightarrow> f32 mres) \<Rightarrow> 'a \<Rightarrow> f32 list \<times> nat \<Rightarrow> (f32 list \<times> nat) mres" where
  "put_next g a = (\<lambda>(out, dst). rbind (g a) (\<lambda>v. if dst < length out then Ok (out[dst := v], Suc dst) else Panic))"

lemma put_next_fold:
  "length pre = k \<Longrightarrow> length as \<le> length out \<Longrightarrow>
    rfold (put_next g) as (pre @ out, k) = rbind (traverse g as) (\<lambda>vs. Ok (pre @ vs @ drop (length as) out, k + length as))"
proof (induction as arbitrary: pre out k)
  case (Cons a as)
  then obtain d out' where out: "out = d # out'" by (cases out) auto
  have step: "put_next g a (pre @ out, k) = rbind (g a) (\<lambda>v. Ok ((pre @ [v]) @ out', Suc k))"
    using Cons.prems by (simp add: put_next_def out list_update_append)
  have tail: "rfold (put_next g) as ((pre @ [v]) @ out', Suc k) =
      rbind (traverse g as) (\<lambda>vs. Ok (pre @ v # vs @ drop (length as) out', Suc k + length as))" for v
    using Cons.IH [of "pre @ [v]" "Suc k" out'] Cons.prems by (simp add: out)
  show ?case unfolding rfold.simps step traverse.simps rbind_assoc rbind.simps tail by (simp add: out)
qed simp


lemma rfold_product:
  "rfold (\<lambda>b s. rfold (\<lambda>i s. g (b, i) s) is s) bs s = rfold g (List.product bs is) s"
proof (induction bs arbitrary: s)
  case (Cons b bs)
  show ?case by (simp add: rfold_append rfold_map Cons cong: rbind_cong)
qed simp

lemma write_blocks_fresh:
  assumes "length (qm_blocks m) = r * blocks_per_row m" "row < r" "length out = blocks_per_row m * n"
  shows "write_blocks n val m row out =
    block_values n val (take (blocks_per_row m) (drop (row * blocks_per_row m) (qm_blocks m)))"
proof -
  note part = row_slice [OF assms(1,2)]
  let ?bs = "take (blocks_per_row m) (drop (row * blocks_per_row m) (qm_blocks m))"
  let ?g = "\<lambda>(b, i). rbind (val b i) finite_value"
  have "rfold (\<lambda>b (out, dst). rfold (\<lambda>i (out, dst).
         rbind (rbind (val b i) finite_value) (\<lambda>v.
         if dst < length out then Ok (out[dst := v], Suc dst) else Panic)) [0..<n] (out, dst)) ?bs (out, 0) =
      rfold (put_next ?g) (List.product ?bs [0..<n]) (out, 0)"
    unfolding rfold_product [symmetric] by (simp add: put_next_def case_prod_beta')
  also have "\<dots> = rbind (block_values n val ?bs) (\<lambda>vs. Ok (vs, length vs))"
    using put_next_fold [of "[]" 0 "List.product ?bs [0..<n]" out ?g] assms(3) part(2)
    by (cases "block_values n val ?bs") (auto simp: block_values_def dest: traverse_length)
  finally show ?thesis unfolding write_blocks_def Let_def part(1) rbind.simps by (simp add: rbind_assoc)
qed

lemma block_values_yields:
  assumes "list_all ok bs" "\<And>b i. ok b \<Longrightarrow> i < n \<Longrightarrow> yields (\<lambda>_. True) (val b i)"
  shows "yields (fvec (length bs * n)) (block_values n val bs)"
  unfolding block_values_def
proof (rule yields_mono [OF yields_traverse [where P = f32_is_finite]])
  fix p assume "p \<in> set (List.product bs [0..<n])"
  then show "yields f32_is_finite (case p of (b, i) \<Rightarrow> rbind (val b i) finite_value)"
    using assms by (auto simp: list_all_iff intro!: yields_bind [where Q = "\<lambda>_. True"] finite_value_yields)
qed (auto simp: fvec_def list_all_iff)

lemma q8_0_value_yields: "q8_0_ok b \<Longrightarrow> i < BLOCK \<Longrightarrow> yields (\<lambda>_. True) (q8_0_value b i)"
  by (simp add: q8_0_value_def q8_0_ok_def BLOCK_def index_at_def)

lemma q4_0_value_yields: "q4_0_ok b \<Longrightarrow> i < BLOCK \<Longrightarrow> yields (\<lambda>_. True) (q4_0_value b i)"
  by (auto simp: q4_0_value_def q4_0_ok_def BLOCK_def index_at_def)

lemma row_fresh:
  assumes "length out = length out'"
  shows "write_row_validated w row out = write_row_validated w row out'"
proof -
  have blocks: "write_blocks n val m row out = write_blocks n val m row out'"
    if "validate_quant_matrix_shape_with_block (qm_rows m) (qm_cols m) (blocks_per_row m) (length (qm_blocks m)) n = Ok ()"
      "row < qm_rows m" "length out' = qm_cols m" for n val and m :: "'c quant_matrix"
    using that assms write_blocks_fresh [of m "qm_rows m" row _ n val]
    by (simp add: qm_shape_Ok) (metis mod_eq_0_iff_dvd dvd_div_mult_self)
  show ?thesis unfolding write_row_validated_def
    by (cases w) (auto simp: assms blocks validate_quant_matrix_shape_def BLOCK_def Q4K_BLOCK_def Q6K_BLOCK_def intro!: rbind_cong)
qed


lemma row_length: "write_row_validated w row out = Ok r \<Longrightarrow> length r = length out \<and> length out = cols w \<and> row < rows w"
proof -
  assume ok: "write_row_validated w row out = Ok r"
  have blocks: "write_blocks n val m row out = Ok r \<Longrightarrow> length r = length out"
    if "validate_quant_matrix_shape_with_block (qm_rows m) (qm_cols m) (blocks_per_row m) (length (qm_blocks m)) n = Ok ()"
      "row < qm_rows m" "length out = qm_cols m" for n val and m :: "'c quant_matrix"
  proof -
    have len: "length out = blocks_per_row m * n" using that by (simp add: qm_shape_Ok) (metis mod_eq_0_iff_dvd dvd_div_mult_self)
    have bs: "length (qm_blocks m) = qm_rows m * blocks_per_row m" using that by (simp add: qm_shape_Ok)
    assume "write_blocks n val m row out = Ok r"
    then show ?thesis unfolding write_blocks_fresh [OF bs that(2) len] block_values_def
      using row_slice(2) [OF bs that(2)] len by (auto dest!: traverse_length)
  qed
  show ?thesis using ok unfolding write_row_validated_def
    by (cases w) (auto simp: validate_quant_matrix_shape_def BLOCK_def Q4K_BLOCK_def Q6K_BLOCK_def blocks split: if_splits)
qed

lemma write_row_yields:
  assumes "wm_ok w"
  shows "yields (\<lambda>r. length r = cols w) (write_row_validated w row out)"
proof -
  have blocks: "yields (\<lambda>_. True) (write_blocks n val m row out)"
    if "validate_quant_matrix_shape_with_block (qm_rows m) (qm_cols m) (blocks_per_row m) (length (qm_blocks m)) n = Ok ()"
      "row < qm_rows m" "length out = qm_cols m" "list_all ok (qm_blocks m)"
      "\<And>b i. ok b \<Longrightarrow> i < n \<Longrightarrow> yields (\<lambda>_. True) (val b i)" for n val ok and m :: "'c quant_matrix"
  proof -
    have len: "length out = blocks_per_row m * n" using that by (simp add: qm_shape_Ok) (metis mod_eq_0_iff_dvd dvd_div_mult_self)
    have bs: "length (qm_blocks m) = qm_rows m * blocks_per_row m" using that by (simp add: qm_shape_Ok)
    show ?thesis unfolding write_blocks_fresh [OF bs that(2) len]
      using block_values_yields [OF list_all_part [OF that(4)] that(5)] by (rule yields_any)
  qed
  have "yields (\<lambda>_. True) (write_row_validated w row out)"
    unfolding write_row_validated_def
  proof (rule yields_bind_eq [OF shape_yields(1)], goal_cases)
    case (1 u)
    then show ?case using assms
      by (cases w) (auto simp: validate_quant_matrix_shape_def fm_row_slice_Ok
          intro!: blocks q8_0_value_yields q4_0_value_yields q4_k_value_yields q6_k_value_yields
            yields_bind_eq [OF shape_yields(2)] yields_bind [OF fm_row_slice_yields]
          simp: BLOCK_def Q4K_BLOCK_def Q6K_BLOCK_def)
  qed
  then show ?thesis using row_length [of w row out] by (cases "write_row_validated w row out") auto
qed

section \<open>Vector kernels\<close>

lemma rmsnorm_fresh: "length out = length out' \<Longrightarrow> rmsnorm x w e out = rmsnorm x w e out'"
  by (simp add: rmsnorm_def fill_traverse Let_def)

lemma swiglu_fresh: "length out = length out' \<Longrightarrow> swiglu g u out = swiglu g u out'"
  by (simp add: swiglu_def fill_traverse)

lemma kernel_lengths:
  "rmsnorm x w e out = Ok v \<Longrightarrow> length v = length x \<and> length out = length x"
  "swiglu g u out = Ok v \<Longrightarrow> length v = length g \<and> length out = length g"
  "add_finite_each x y = Ok v \<Longrightarrow> length v = length x"
  "residual_add x y = Ok v \<Longrightarrow> length v = length x"
  "add_optional_bias x b = Ok v \<Longrightarrow> length v = length x"
  by (auto simp: rmsnorm_def swiglu_def residual_add_def add_optional_bias_def add_finite_each_def Let_def fill_traverse
      dest!: traverse_length split: if_splits option.splits)

lemma rmsnorm_yields [tensor_yields]: "yields (fvec (length x)) (rmsnorm x w e out)"
  using traverse_values [of "length x" "\<lambda>i. Ok (f32_mul (f32_mul (x ! i) r) (w ! i))" for r]
  by (auto simp: rmsnorm_def Let_def fill_traverse)

lemma swiglu_yields [tensor_yields]: "yields (fvec (length g)) (swiglu g u out)"
  using traverse_values [of "length g" "\<lambda>i. Ok (f32_mul (silu_f32 (g ! i)) (u ! i))"]
  by (auto simp: swiglu_def fill_traverse)

lemma add_finite_each_yields: "yields (fvec (length x)) (add_finite_each x y)"
proof -
  have "yields (\<lambda>ys. length ys = length (zip x y) \<and> (\<forall>v \<in> set ys. f32_is_finite v))
      (traverse (\<lambda>(a, b). finite_value (f32_add a b)) (zip x y))"
    by (rule yields_traverse) (auto intro: finite_value_yields)
  then have "length x = length y \<Longrightarrow> yields (fvec (length x)) (traverse (\<lambda>(a, b). finite_value (f32_add a b)) (zip x y))"
    by (rule yields_mono) (auto simp: fvec_def list_all_iff)
  then show ?thesis unfolding add_finite_each_def
    by (auto intro!: yields_bind [OF ensure_finite_slice_yields])
qed

lemma residual_add_yields [tensor_yields]: "yields (fvec (length x)) (residual_add x y)"
  by (simp add: residual_add_def add_finite_each_yields)

lemma add_optional_bias_yields [tensor_yields]: "fvec n x \<Longrightarrow> yields (fvec n) (add_optional_bias x b)"
  using add_finite_each_yields [of x] by (auto simp: add_optional_bias_def fvec_def split: option.split)

section \<open>Rotary embedding\<close>

lemma flat_index: "i < r \<Longrightarrow> j < c \<Longrightarrow> i * c + j < r * (c :: nat)"
  using row_bounds [of i r c] by simp

lemma rope_values_yields: "yields (\<lambda>_. True) (rope_values rope pos j)"
  unfolding rope_values_def Let_def
  by (auto simp: index_at_def flat_index not_le intro!: yields_bind [OF yields_ok_or])

lemma rope_pair_yields:
  assumes x: "fvec (heads * dh) x" and "head < heads" "j < half_head_dim rope" "half_head_dim rope * 2 \<le> dh"
  shows "yields (fvec (heads * dh)) (rope_pair rope pos (head * dh) j x)"
proof -
  have "head * dh + dh \<le> heads * dh" using assms(2) by (rule row_bounds)
  then have "head * dh + (2 * j + 1) < heads * dh" "head * dh + (j + half_head_dim rope) < heads * dh"
    using assms(3,4) by linarith+
  then have bounds: "head * dh + 2 * j < length x" "head * dh + 2 * j + 1 < length x" "head * dh + j < length x"
    "head * dh + j + half_head_dim rope < length x"
    using x by (simp_all add: fvec_def)
  have update: "fvec (heads * dh) (x[a := u, b := v])" if "f32_is_finite u" "f32_is_finite v" for a b u v
    using x that by (auto simp: fvec_def list_all_iff dest!: set_update_subset_insert [THEN subsetD])
  have "yields (fvec (heads * dh)) (rbind (index_at x a) (\<lambda>x0. rbind (index_at x b) (\<lambda>x1.
        rbind (rope_values rope pos j) (\<lambda>(c, s).
        let p = f32_sub (f32_mul x0 c) (f32_mul x1 s); q = f32_add (f32_mul x0 s) (f32_mul x1 c) in
        if \<not> f32_is_finite p \<or> \<not> f32_is_finite q then Err NonFinite
        else Ok (x[a := p, b := q])))))" if "a < length x" "b < length x" for a b
    using that by (auto simp: index_at_def Let_def update intro!: yields_bind [OF rope_values_yields])
  then show ?thesis unfolding rope_pair_def using bounds by (cases "rt_pairing rope") simp_all
qed

lemma apply_rope_yields [tensor_yields]: "yields (fvec (length x)) (apply_rope x heads dh pos rope)"
  unfolding apply_rope_def
proof (rule yields_bind_eq [OF checked_len_yields], rule yields_bind_eq [OF checked_len_yields], goal_cases)
  case (1 n w)
  have "yields (fvec (heads * dh)) (rfold (\<lambda>head x. rfold (\<lambda>j x. rope_pair rope pos (head * dh) j x) [0..<half_head_dim rope] x) [0..<heads] x)"
    if "half_head_dim rope * 2 \<le> dh" "fvec (heads * dh) x"
    by (intro yields_rfold that(2), simp only: set_upt atLeastLessThan_iff, intro yields_rfold rope_pair_yields that(1)) auto
  then show ?case using 1
    by (auto simp: fvec_def not_less intro!: yields_bind_eq [OF ensure_finite_slice_yields])
qed

lemma rope_pair_length: "rope_pair rope pos base j x = Ok y \<Longrightarrow> length y = length x"
  by (auto simp: rope_pair_def Let_def split: prod.splits if_splits rope_pairing.splits)

lemma apply_rope_length: "apply_rope x heads dh pos rope = Ok y \<Longrightarrow> length y = length x"
proof -
  assume "apply_rope x heads dh pos rope = Ok y"
  then have "rfold (\<lambda>head x. rfold (\<lambda>j x. rope_pair rope pos (head * dh) j x) [0..<half_head_dim rope] x) [0..<heads] x = Ok y"
    by (auto simp: apply_rope_def split: if_splits)
  then show ?thesis
    by (rule rfold_invariant [where P = "\<lambda>y. length y = length x"])
      (auto dest: rope_pair_length elim!: rfold_invariant [where P = "\<lambda>y. length y = length x"])
qed


section \<open>Attention\<close>

lemma chunks_exact_flat:
  assumes "length xs = n * d" "0 < d"
  shows "length (chunks_exact d xs) = n" "c \<in> set (chunks_exact d xs) \<Longrightarrow> length c = d"
  using chunks_exact_props(1,2) [of d xs] assms by auto

text \<open>Past its checks the scoring loop is a traversal of the keys.\<close>

lemma scores_traverse:
  assumes "length ks = length out * dh" "0 < dh"
  shows "fill (\<lambda>j. rbind (index_at (chunks_exact dh ks) j) (\<lambda>key. rbind (dot_f32_ref q key) (\<lambda>d. finite_value (f32_mul d scale))))
      (length (chunks_exact dh ks)) out =
    traverse (\<lambda>j. rbind (rbind (index_at (chunks_exact dh ks) j) (\<lambda>key. rbind (dot_f32_ref q key) (\<lambda>d. Ok (f32_mul d scale)))) finite_value) [0..<length out]"
  unfolding chunks_exact_flat(1) [OF assms] rbind_assoc rbind.simps by (rule fill_traverse) simp

lemma scores_fresh:
  assumes "length out = length out'"
  shows "attention_scores_one_head_scaled q ks dh scale out = attention_scores_one_head_scaled q ks dh scale out'"
proof -
  have out: "(out = []) = (out' = [])" using assms by auto
  show ?thesis unfolding attention_scores_one_head_scaled_def Let_def out
  proof (rule rbind_cong, goal_cases)
    case (2 n)
    then show ?case using assms
      by (cases "dh = 0 \<or> out' = [] \<or> length q \<noteq> dh \<or> length ks \<noteq> n") (simp_all add: checked_len_Ok scores_traverse)
  qed (simp add: assms)
qed

lemma scores_yields [tensor_yields]: "yields (fvec (length out)) (attention_scores_one_head_scaled q ks dh scale out)"
  unfolding attention_scores_one_head_scaled_def Let_def
proof (rule yields_bind_eq [OF checked_len_yields], goal_cases)
  case (1 n)
  show ?case
  proof (cases "dh = 0 \<or> out = [] \<or> length q \<noteq> dh \<or> length ks \<noteq> n")
    case False
    then have ks: "length ks = length out * dh" "0 < dh" "length q = dh" using 1 by simp_all
    have "yields (fvec (length out)) (traverse (\<lambda>j. rbind (rbind (index_at (chunks_exact dh ks) j) (\<lambda>key. rbind (dot_f32_ref q key) (\<lambda>d. Ok (f32_mul d scale)))) finite_value) [0..<length out])"
    proof (rule traverse_values)
      fix i assume "i < length out"
      then have "i < length (chunks_exact dh ks)" "length (chunks_exact dh ks ! i) = dh"
        using chunks_exact_flat [OF ks(1,2)] nth_mem by auto
      then show "yields (\<lambda>_. True) (rbind (index_at (chunks_exact dh ks) i) (\<lambda>key. rbind (dot_f32_ref q key) (\<lambda>d. Ok (f32_mul d scale))))"
        using ks(3) by (simp add: index_at_def dot_f32_ref_def)
    qed
    then show ?thesis using False unfolding scores_traverse [OF ks(1,2)] by simp
  qed simp
qed

lemma softmax_yields [tensor_yields]: "yields (fvec (length x)) (softmax_in_place x)"
proof -
  have mx: "yields (\<lambda>_. True) (rfold softmax_max_step x m)" for m
    by (rule yields_rfold) (simp_all add: softmax_max_step_def)
  have out: "yields (fvec (length es)) (traverse (\<lambda>v. finite_value (f32_div v z)) es)" for es z
    by (rule yields_mono [OF yields_traverse [where P = f32_is_finite]])
      (auto simp: fvec_def list_all_iff intro: finite_value_yields)
  show ?thesis unfolding softmax_in_place_def Let_def
    using out [of "map f x" for f] by (auto intro!: yields_bind [OF mx])
qed

lemma weighted_fresh:
  assumes "length out = length out'"
  shows "attention_weighted_value p vs dh out = attention_weighted_value p vs dh out'"
proof -
  have "map (\<lambda>_. 0 :: f32) out = map (\<lambda>_. 0) out'" using assms by (simp add: map_replicate_const)
  then show ?thesis unfolding attention_weighted_value_def assms by (rule arg_cong)
qed

text \<open>Adding one weighted value vector.\<close>

lemma weighted_step:
  assumes "j < length p" "length row = dh" "fvec dh out"
  shows "yields (fvec dh) (rbind (index_at p j) (\<lambda>pj. fill (\<lambda>d. rbind (index_at out d) (\<lambda>o_d. rbind (index_at row d) (\<lambda>v.
    finite_value (f32_add o_d (f32_mul pj v))))) dh out))"
proof -
  have "yields (fvec dh) (traverse (\<lambda>d. rbind (rbind (index_at out d) (\<lambda>o_d. rbind (index_at row d) (\<lambda>v.
        Ok (f32_add o_d (f32_mul (p ! j) v))))) finite_value) [0..<dh])"
    by (rule traverse_values) (use assms in \<open>simp add: index_at_def fvec_def\<close>)
  then show ?thesis using assms by (simp add: index_at_def [of p] fvec_def fill_traverse rbind_assoc)
qed

lemma weighted_yields [tensor_yields]: "yields (fvec dh) (attention_weighted_value p vs dh out)"
  unfolding attention_weighted_value_def
proof (rule yields_bind_eq [OF checked_len_yields], goal_cases)
  case (1 n)
  let ?step = "\<lambda>(j, row) out. rbind (index_at p j) (\<lambda>pj. fill (\<lambda>d. rbind (index_at out d) (\<lambda>o_d. rbind (index_at row d) (\<lambda>v.
          finite_value (f32_add o_d (f32_mul pj v))))) dh out)"
  have "yields (fvec dh) (rfold ?step (enumerate 0 (chunks_exact dh vs)) (map (\<lambda>_. 0) out))"
    if len: "length vs = length p * dh" "0 < dh" "length out = dh"
  proof (rule yields_rfold)
    fix jv s assume mem: "jv \<in> set (enumerate 0 (chunks_exact dh vs))" and s: "fvec dh s"
    obtain j row where jv: "jv = (j, row)" by (cases jv)
    with mem have "j < length p" "length row = dh"
      using chunks_exact_flat [OF len(1,2)] by (auto simp: in_set_enumerate_eq)
    then show "yields (fvec dh) (?step jv s)" unfolding jv prod.case by (rule weighted_step [OF _ _ s])
  qed (use len in \<open>simp add: fvec_def list_all_iff\<close>)
  then show ?case using 1 by (auto simp: fvec_def)
qed

lemma attention_lengths:
  "attention_scores_one_head_scaled q ks dh scale out = Ok s \<Longrightarrow> length s = length out"
  "softmax_in_place x = Ok p \<Longrightarrow> length p = length x"
  "attention_weighted_value p vs dh out = Ok v \<Longrightarrow> length v = dh"
  using scores_yields [of out q ks dh scale] softmax_yields [of x] weighted_yields [of dh p vs out]
  by (auto simp: fvec_def)

end
