(* ===== verification/Kv_Cache.thy ===== *)
theory Kv_Cache
  imports Tensor_Facts
begin

text \<open>
  The key and value cache of the language model, \<open>KvCache\<close> in \<open>src/crates/det-model/src/lib.rs\<close>:
  one flat vector for the keys and one for the values, indexed by layer, head and position. What
  the model relies on is stated as a locale: reading after writing, and the frame of a write. The
  cache is its instance, with the index arithmetic of the code.
\<close>

section \<open>The cache\<close>

record kv_cache =
  kv_config :: llama_config
  kv_head_dim :: nat
  kv_k :: "f32 list"
  kv_v :: "f32 list"

definition kv_new :: "llama_config \<Rightarrow> kv_cache mres" where
  "kv_new config = rbind (config_validate config) (\<lambda>_. rbind (head_dim config) (\<lambda>dh.
    rbind (ok_or Shape
      (Option.bind (Option.bind (checked_mul_usize (block_count config) (head_count_kv config))
        (\<lambda>x. checked_mul_usize x (context_length config))) (\<lambda>x. checked_mul_usize x dh))) (\<lambda>n.
    Ok \<lparr>kv_config = config, kv_head_dim = dh, kv_k = replicate n 0, kv_v = replicate n 0\<rparr>)))"

definition kv_offset :: "kv_cache \<Rightarrow> nat \<Rightarrow> nat \<Rightarrow> nat \<Rightarrow> nat mres" where
  "kv_offset c layer kv_head pos =
    (if block_count (kv_config c) \<le> layer \<or> head_count_kv (kv_config c) \<le> kv_head \<or> context_length (kv_config c) \<le> pos
     then Err Shape
     else ok_or Shape
      (Option.bind (Option.bind (Option.bind (Option.bind
        (checked_mul_usize layer (head_count_kv (kv_config c)))
        (\<lambda>x. checked_add_usize x kv_head))
        (\<lambda>x. checked_mul_usize x (context_length (kv_config c))))
        (\<lambda>x. checked_add_usize x pos))
        (\<lambda>x. checked_mul_usize x (kv_head_dim c))))"

text \<open>\<open>out.get_mut(a..b)?.copy_from_slice(src.get(c..d)?)\<close>.\<close>

definition copy_range :: "f32 list \<Rightarrow> nat \<Rightarrow> nat \<Rightarrow> f32 list \<Rightarrow> nat \<Rightarrow> nat \<Rightarrow> f32 list mres" where
  "copy_range out a b src c d =
    rbind (ok_or Shape (get_range out a b)) (\<lambda>old. rbind (ok_or Shape (get_range src c d)) (\<lambda>new.
    if length old = length new then Ok (put_slice a new out) else Panic))"

definition kv_store_head :: "nat \<Rightarrow> nat \<Rightarrow> f32 list \<Rightarrow> f32 list \<Rightarrow> nat \<Rightarrow> kv_cache \<Rightarrow> kv_cache mres" where
  "kv_store_head layer pos k_layer v_layer kv_head c =
    rbind (ok_or Shape (checked_mul_usize kv_head (kv_head_dim c))) (\<lambda>src.
    rbind (ok_or Shape (checked_add_usize src (kv_head_dim c))) (\<lambda>src_end.
    rbind (kv_offset c layer kv_head pos) (\<lambda>dst.
    rbind (ok_or Shape (checked_add_usize dst (kv_head_dim c))) (\<lambda>dst_end.
    rbind (copy_range (kv_k c) dst dst_end k_layer src src_end) (\<lambda>k.
    rbind (copy_range (kv_v c) dst dst_end v_layer src src_end) (\<lambda>v.
    Ok (c\<lparr>kv_k := k, kv_v := v\<rparr>)))))))"

definition kv_store :: "kv_cache \<Rightarrow> nat \<Rightarrow> nat \<Rightarrow> f32 list \<Rightarrow> f32 list \<Rightarrow> kv_cache mres" where
  "kv_store c layer pos k_layer v_layer =
    rbind (checked_len (head_count_kv (kv_config c)) (kv_head_dim c)) (\<lambda>expected.
    if length k_layer \<noteq> expected \<or> length v_layer \<noteq> expected then Err Shape
    else rbind (ensure_finite_slice k_layer) (\<lambda>_. rbind (ensure_finite_slice v_layer) (\<lambda>_.
    rfold (kv_store_head layer pos k_layer v_layer) [0..<head_count_kv (kv_config c)] c)))"

definition kv_entry :: "f32 list \<Rightarrow> kv_cache \<Rightarrow> nat \<Rightarrow> nat \<Rightarrow> nat \<Rightarrow> f32 list mres" where
  "kv_entry vs c layer kv_head pos =
    rbind (kv_offset c layer kv_head pos) (\<lambda>offset.
    rbind (ok_or Shape (checked_add_usize offset (kv_head_dim c))) (\<lambda>finish.
    ok_or Shape (get_range vs offset finish)))"

definition kv_key :: "kv_cache \<Rightarrow> nat \<Rightarrow> nat \<Rightarrow> nat \<Rightarrow> f32 list mres" where
  "kv_key c = kv_entry (kv_k c) c"

definition kv_value :: "kv_cache \<Rightarrow> nat \<Rightarrow> nat \<Rightarrow> nat \<Rightarrow> f32 list mres" where
  "kv_value c = kv_entry (kv_v c) c"

definition kv_prefix :: "kv_cache \<Rightarrow> f32 list \<Rightarrow> nat \<Rightarrow> nat \<Rightarrow> nat \<Rightarrow> f32 list mres" where
  "kv_prefix c vs layer kv_head len =
    (if len = 0 \<or> context_length (kv_config c) < len then Err Shape
     else rbind (kv_offset c layer kv_head 0) (\<lambda>start.
          rbind (ok_or Shape (checked_mul_usize len (kv_head_dim c))) (\<lambda>elems.
          rbind (ok_or Shape (checked_add_usize start elems)) (\<lambda>finish.
          ok_or Shape (get_range vs start finish)))))"

definition key_prefix :: "kv_cache \<Rightarrow> nat \<Rightarrow> nat \<Rightarrow> nat \<Rightarrow> f32 list mres" where
  "key_prefix c = kv_prefix c (kv_k c)"

definition value_prefix :: "kv_cache \<Rightarrow> nat \<Rightarrow> nat \<Rightarrow> nat \<Rightarrow> f32 list mres" where
  "value_prefix c = kv_prefix c (kv_v c)"

section \<open>Cells of a flat vector\<close>

definition flat_cell :: "nat \<Rightarrow> 'a list \<Rightarrow> nat \<Rightarrow> 'a list" where
  "flat_cell d xs i = take d (drop (i * d) xs)"

lemma flat_cell_length: "i * d + d \<le> length xs \<Longrightarrow> length (flat_cell d xs i) = d"
  by (simp add: flat_cell_def)

lemma flat_cell_nth: "i * d + d \<le> length xs \<Longrightarrow> k < d \<Longrightarrow> flat_cell d xs i ! k = xs ! (i * d + k)"
  by (simp add: flat_cell_def)

lemma put_slice_nth:
  "a + length src \<le> length out \<Longrightarrow> k < length out \<Longrightarrow>
    put_slice a src out ! k = (if a \<le> k \<and> k < a + length src then src ! (k - a) else out ! k)"
  by (auto simp: put_slice_def nth_append)

lemma flat_cell_put:
  assumes "length src = d" "i * d + d \<le> length xs" "j * d + d \<le> length xs"
  shows "flat_cell d (put_slice (i * d) src xs) j = (if j = i then src else flat_cell d xs j)"
proof (rule nth_equalityI)
  show "length (flat_cell d (put_slice (i * d) src xs) j) = length (if j = i then src else flat_cell d xs j)"
    using assms by (simp add: flat_cell_length)
next
  fix k assume "k < length (flat_cell d (put_slice (i * d) src xs) j)"
  then have k: "k < d" using assms by (simp add: flat_cell_length)
  have other: "\<not> (i * d \<le> j * d + k \<and> j * d + k < i * d + d)" if "j \<noteq> i"
  proof -
    have "j * d + d \<le> i * d \<or> i * d + d \<le> j * d"
      using that row_bounds [of j i d] row_bounds [of i j d] by (cases "j < i") auto
    then show ?thesis using k by linarith
  qed
  show "flat_cell d (put_slice (i * d) src xs) j ! k = (if j = i then src else flat_cell d xs j) ! k"
    using assms k other by (auto simp: flat_cell_nth put_slice_nth)
qed

lemma flat_prefix: "take (n * d) (drop (i * d) xs) = concat (map (\<lambda>p. flat_cell d xs (i + p)) [0..<n])"
proof (induction n)
  case (Suc n)
  have "take (Suc n * d) (drop (i * d) xs) = take (n * d) (drop (i * d) xs) @ take d (drop (n * d) (drop (i * d) xs))"
    unfolding mult_Suc add.commute [of d] by (rule take_add)
  also have "take d (drop (n * d) (drop (i * d) xs)) = flat_cell d xs (i + n)"
    by (simp add: flat_cell_def add.commute distrib_right)
  finally show ?case by (simp add: Suc)
qed simp


section \<open>The index of an entry\<close>

text \<open>The cell of an entry, and the vector in it.\<close>

definition kv_index :: "kv_cache \<Rightarrow> nat \<Rightarrow> nat \<Rightarrow> nat \<Rightarrow> nat" where
  "kv_index c layer kv_head pos =
    (layer * head_count_kv (kv_config c) + kv_head) * context_length (kv_config c) + pos"

definition kv_in :: "kv_cache \<Rightarrow> nat \<Rightarrow> nat \<Rightarrow> nat \<Rightarrow> bool" where
  "kv_in c layer kv_head pos \<longleftrightarrow> layer < block_count (kv_config c) \<and>
    kv_head < head_count_kv (kv_config c) \<and> pos < context_length (kv_config c)"

text \<open>The type invariant: both vectors have one cell for each layer, head and position.\<close>

definition kv_cells :: "llama_config \<Rightarrow> nat" where
  "kv_cells config = block_count config * head_count_kv config * context_length config"

definition kv_ok :: "kv_cache \<Rightarrow> bool" where
  "kv_ok c \<longleftrightarrow> 0 < kv_head_dim c \<and> 0 < head_count_kv (kv_config c) \<and> length (kv_k c) = kv_cells (kv_config c) * kv_head_dim c \<and>
    length (kv_v c) = length (kv_k c) \<and> length (kv_k c) \<le> usize_max"

lemma kv_index_less: "kv_in c l h p \<Longrightarrow> kv_index c l h p < kv_cells (kv_config c)"
  unfolding kv_in_def kv_index_def kv_cells_def by (simp add: flat_index)

lemma flat_index_inj:
  assumes "i * n + j = i' * n + j'" "j < n" "j' < (n :: nat)"
  shows "i = i' \<and> j = j'"
proof -
  have "(i * n + j) div n = i" "(i' * n + j') div n = i'" using assms(2,3) by simp_all
  then have "i = i'" using assms(1) by metis
  then show ?thesis using assms(1) by simp
qed

lemma kv_index_inj:
  assumes "kv_in c l h p" "kv_in c l' h' p'" "kv_index c l h p = kv_index c l' h' p'"
  shows "l = l' \<and> h = h' \<and> p = p'"
  using assms flat_index_inj unfolding kv_in_def kv_index_def by metis

lemma kv_fits:
  assumes "kv_ok c" "kv_in c l h p"
  shows "kv_index c l h p * kv_head_dim c + kv_head_dim c \<le> length (kv_k c)"
  using row_bounds [OF kv_index_less [OF assms(2)], of "kv_head_dim c"] assms(1) by (simp add: kv_ok_def)

lemma kv_offset_Ok:
  assumes "kv_ok c" "kv_in c l h p"
  shows "kv_offset c l h p = Ok (kv_index c l h p * kv_head_dim c)"
proof -
  let ?K = "head_count_kv (kv_config c)" and ?C = "context_length (kv_config c)" and ?d = "kv_head_dim c"
  have d: "0 < ?d" and top: "length (kv_k c) \<le> usize_max" using assms(1) by (simp_all add: kv_ok_def)
  have "kv_index c l h p * ?d \<le> usize_max" using kv_fits [OF assms] top by linarith
  moreover have "kv_index c l h p \<le> kv_index c l h p * ?d" using d by simp
  ultimately have i: "kv_index c l h p \<le> usize_max" and id: "kv_index c l h p * ?d \<le> usize_max" by linarith+
  have C: "0 < ?C" using assms(2) by (auto simp: kv_in_def)
  have "l * ?K + h \<le> (l * ?K + h) * ?C" using C by simp
  also have "\<dots> \<le> kv_index c l h p" by (simp add: kv_index_def)
  finally have lh: "l * ?K + h \<le> usize_max" using i by linarith
  have lhc: "(l * ?K + h) * ?C \<le> usize_max" using i by (simp add: kv_index_def)
  have "l * ?K \<le> usize_max" using lh by linarith
  then show ?thesis using assms(2) lh lhc i id
    by (simp add: kv_offset_def kv_in_def kv_index_def checked_mul_usize_def checked_add_usize_def not_le)
qed

lemma kv_entry_Ok:
  assumes "kv_ok c" "kv_in c l h p" "length vs = length (kv_k c)"
  shows "kv_entry vs c l h p = Ok (flat_cell (kv_head_dim c) vs (kv_index c l h p))"
  using kv_fits [OF assms(1,2)] assms(1,3)
  by (simp add: kv_entry_def kv_offset_Ok [OF assms(1,2)] checked_add_usize_def kv_ok_def get_range_def flat_cell_def)

lemma kv_new_ok:
  assumes "kv_new config = Ok c"
  shows "kv_ok c \<and> kv_config c = config \<and> config_validate config = Ok () \<and> head_dim config = Ok (kv_head_dim c)"
proof -
  have "config_validate config = Ok () \<Longrightarrow> head_dim config = Ok d \<Longrightarrow> 0 < d \<and> 0 < head_count_kv config" for d
    by (auto simp: config_validate_def head_dim_def split: if_splits)
  then show ?thesis using assms
    by (auto simp: kv_new_def kv_ok_def kv_cells_def split: bind_splits)
qed


section \<open>Storing\<close>

text \<open>\<open>c'\<close> is \<open>c\<close> with the entries of the first \<open>n\<close> heads of a layer and position replaced.\<close>

definition kv_stored :: "nat \<Rightarrow> nat \<Rightarrow> nat \<Rightarrow> f32 list \<Rightarrow> f32 list \<Rightarrow> kv_cache \<Rightarrow> kv_cache \<Rightarrow> bool" where
  "kv_stored n l p ks vs c c' \<longleftrightarrow> kv_config c' = kv_config c \<and> kv_head_dim c' = kv_head_dim c \<and> kv_ok c' \<and>
    (\<forall>l' h' p'. kv_in c l' h' p' \<longrightarrow>
      flat_cell (kv_head_dim c) (kv_k c') (kv_index c l' h' p') =
        (if l' = l \<and> p' = p \<and> h' < n then flat_cell (kv_head_dim c) ks h' else flat_cell (kv_head_dim c) (kv_k c) (kv_index c l' h' p')) \<and>
      flat_cell (kv_head_dim c) (kv_v c') (kv_index c l' h' p') =
        (if l' = l \<and> p' = p \<and> h' < n then flat_cell (kv_head_dim c) vs h' else flat_cell (kv_head_dim c) (kv_v c) (kv_index c l' h' p')))"

lemma copy_range_cell:
  assumes "i * d + d \<le> length out" "j * d + d \<le> length src"
  shows "copy_range out (i * d) (i * d + d) src (j * d) (j * d + d) = Ok (put_slice (i * d) (flat_cell d src j) out)"
  using assms by (simp add: copy_range_def get_range_def flat_cell_def)

lemma kv_store_head_step:
  assumes "kv_stored n l p ks vs c c'" "kv_in c l n p"
    and len: "length ks = head_count_kv (kv_config c) * kv_head_dim c" "length vs = length ks" "length ks \<le> usize_max"
  shows "\<exists>c''. kv_store_head l p ks vs n c' = Ok c'' \<and> kv_stored (Suc n) l p ks vs c c''"
proof -
  let ?d = "kv_head_dim c" and ?i = "kv_index c l n p"
  have cfg: "kv_config c' = kv_config c" "kv_head_dim c' = ?d" "kv_ok c'" using assms(1) by (simp_all add: kv_stored_def)
  have idx: "kv_index c' = kv_index c" "kv_in c' = kv_in c" by (intro ext, simp add: cfg kv_index_def kv_in_def)+
  have fit: "kv_index c l' h' p' * ?d + ?d \<le> length (kv_k c')" "kv_index c l' h' p' * ?d + ?d \<le> length (kv_v c')"
    if "kv_in c l' h' p'" for l' h' p'
    using kv_fits [of c' l' h' p'] that cfg by (simp_all add: idx kv_ok_def)
  have src: "n * ?d + ?d \<le> length ks" using assms(2) len(1) by (simp add: kv_in_def row_bounds)
  have top: "?i * ?d + ?d \<le> usize_max" using fit(1) [OF assms(2)] cfg(3) by (simp add: kv_ok_def)
  define c'' where "c'' = c'\<lparr>kv_k := put_slice (?i * ?d) (flat_cell ?d ks n) (kv_k c'),
      kv_v := put_slice (?i * ?d) (flat_cell ?d vs n) (kv_v c')\<rparr>"
  have ok: "kv_store_head l p ks vs n c' = Ok c''"
    using src top len fit [OF assms(2)] kv_offset_Ok [of c' l n p] assms(2)
    by (simp add: kv_store_head_def cfg idx checked_mul_usize_def checked_add_usize_def copy_range_cell c''_def)
  have lens: "length (flat_cell ?d ks n) = ?d" "length (flat_cell ?d vs n) = ?d"
    using src len(2) by (simp_all add: flat_cell_length)
  have "kv_ok c''" using cfg fit [OF assms(2)] lens by (simp add: kv_ok_def c''_def)
  moreover have "flat_cell ?d (kv_k c'') (kv_index c l' h' p') =
        (if l' = l \<and> p' = p \<and> h' < Suc n then flat_cell ?d ks h' else flat_cell ?d (kv_k c) (kv_index c l' h' p')) \<and>
      flat_cell ?d (kv_v c'') (kv_index c l' h' p') =
        (if l' = l \<and> p' = p \<and> h' < Suc n then flat_cell ?d vs h' else flat_cell ?d (kv_v c) (kv_index c l' h' p'))"
    if "kv_in c l' h' p'" for l' h' p'
  proof -
    have "(kv_index c l' h' p' = ?i) = (l' = l \<and> h' = n \<and> p' = p)"
      using kv_index_inj [OF that assms(2)] by auto
    then show ?thesis
      using assms(1) that flat_cell_put [OF lens(1) fit(1) [OF assms(2)] fit(1) [OF that]]
        flat_cell_put [OF lens(2) fit(2) [OF assms(2)] fit(2) [OF that]]
      by (auto simp: kv_stored_def c''_def less_Suc_eq)
  qed
  ultimately show ?thesis using ok cfg by (auto simp: kv_stored_def c''_def)
qed

lemma kv_store_heads:
  assumes "kv_ok c" "l < block_count (kv_config c)" "p < context_length (kv_config c)"
    and len: "length ks = head_count_kv (kv_config c) * kv_head_dim c" "length vs = length ks" "length ks \<le> usize_max"
  shows "n \<le> head_count_kv (kv_config c) \<Longrightarrow>
    \<exists>c'. rfold (kv_store_head l p ks vs) [0..<n] c = Ok c' \<and> kv_stored n l p ks vs c c'"
proof (induction n)
  case 0
  then show ?case using assms(1) by (simp add: kv_stored_def)
next
  case (Suc n)
  then obtain c' where c': "rfold (kv_store_head l p ks vs) [0..<n] c = Ok c'" "kv_stored n l p ks vs c c'" by auto
  have "kv_in c l n p" using Suc.prems assms(2,3) by (simp add: kv_in_def)
  with kv_store_head_step [OF c'(2) _ len] c'(1) show ?case by (simp add: rfold_append)
qed

lemma kv_store_total:
  assumes "kv_ok c" "l < block_count (kv_config c)" "p < context_length (kv_config c)"
    "fvec (head_count_kv (kv_config c) * kv_head_dim c) ks" "fvec (head_count_kv (kv_config c) * kv_head_dim c) vs"
    "length ks \<le> usize_max"
  shows "\<exists>c'. kv_store c l p ks vs = Ok c' \<and> kv_stored (head_count_kv (kv_config c)) l p ks vs c c'"
  using kv_store_heads [OF assms(1-3), of ks vs "head_count_kv (kv_config c)"] assms(4-6)
  by (auto simp: kv_store_def checked_len_def checked_mul_usize_def ensure_finite_slice_def fvec_def)

lemma kv_store_cases:
  assumes "kv_ok c" "l < block_count (kv_config c)" "p < context_length (kv_config c)"
  shows "yields (\<lambda>c'. kv_stored (head_count_kv (kv_config c)) l p ks vs c c') (kv_store c l p ks vs)"
proof (cases "length ks = head_count_kv (kv_config c) * kv_head_dim c \<and> length vs = length ks \<and>
    length ks \<le> usize_max \<and> list_all f32_is_finite ks \<and> list_all f32_is_finite vs")
  case True
  then show ?thesis using kv_store_total [OF assms, of ks vs] by (auto simp: fvec_def)
next
  case False
  then show ?thesis
    by (auto simp: kv_store_def checked_len_def checked_mul_usize_def ensure_finite_slice_def)
qed

lemma kv_prefix_Ok:
  assumes "kv_ok c" "kv_in c l h 0" "0 < n" "n \<le> context_length (kv_config c)" "length xs = length (kv_k c)"
  shows "kv_prefix c xs l h n = Ok (concat (map (\<lambda>p. flat_cell (kv_head_dim c) xs (kv_index c l h p)) [0..<n]))"
    "length (concat (map (\<lambda>p. flat_cell (kv_head_dim c) xs (kv_index c l h p)) [0..<n])) = n * kv_head_dim c"
proof -
  let ?d = "kv_head_dim c"
  define i where "i = kv_index c l h 0"
  have idx: "kv_index c l h = (\<lambda>p. i + p)" by (intro ext) (simp add: kv_index_def i_def)
  have "kv_in c l h (n - 1)" using assms(2-4) by (simp add: kv_in_def)
  from kv_fits [OF assms(1) this] have fits: "i * ?d + n * ?d \<le> length xs"
    using assms(3,5) unfolding idx by (cases n) (simp_all add: algebra_simps)
  have eq: "take (n * ?d) (drop (i * ?d) xs) = concat (map (\<lambda>p. flat_cell ?d xs (kv_index c l h p)) [0..<n])"
    unfolding idx by (rule flat_prefix)
  have "length xs \<le> usize_max" using assms(1,5) by (simp add: kv_ok_def)
  then have "i * ?d + n * ?d \<le> usize_max" using fits by linarith
  then show "kv_prefix c xs l h n = Ok (concat (map (\<lambda>p. flat_cell ?d xs (kv_index c l h p)) [0..<n]))"
    using assms(3,4) fits kv_offset_Ok [OF assms(1,2)]
    by (simp add: kv_prefix_def checked_mul_usize_def checked_add_usize_def get_range_def i_def flip: eq)
  show "length (concat (map (\<lambda>p. flat_cell ?d xs (kv_index c l h p)) [0..<n])) = n * ?d"
    unfolding eq [symmetric] using fits by simp
qed

section \<open>The contract of the cache\<close>

text \<open>A store that is written by layer and position and read by layer, head and position. Reading
  after writing yields the written part, other entries keep their content.\<close>

locale position_store =
  fixes store :: "'s \<Rightarrow> nat \<Rightarrow> nat \<Rightarrow> 'v \<Rightarrow> ('e, 's) res"
    and entry :: "'s \<Rightarrow> nat \<Rightarrow> nat \<Rightarrow> nat \<Rightarrow> 'x"
    and part :: "'d \<Rightarrow> nat \<Rightarrow> 'v \<Rightarrow> 'x"
    and inside :: "'d \<Rightarrow> nat \<Rightarrow> nat \<Rightarrow> nat \<Rightarrow> bool"
    and dims :: "'s \<Rightarrow> 'd"
    and valid :: "'s \<Rightarrow> bool"
  assumes store_valid: "valid s \<Longrightarrow> store s l p v = Ok s' \<Longrightarrow> valid s' \<and> dims s' = dims s"
    and entry_store: "valid s \<Longrightarrow> store s l p v = Ok s' \<Longrightarrow> inside (dims s) l' h p' \<Longrightarrow>
      entry s' l' h p' = (if l' = l \<and> p' = p then part (dims s) h v else entry s l' h p')"
begin

lemma writes_valid:
  "valid s \<Longrightarrow> rfold (\<lambda>((l, p), v) s. store s l p v) ws s = Ok s' \<Longrightarrow> valid s' \<and> dims s' = dims s"
proof (induction ws arbitrary: s)
  case (Cons w ws)
  obtain l p v where w: "w = ((l, p), v)" by (metis surj_pair)
  obtain t where t: "store s l p v = Ok t" "rfold (\<lambda>((l, p), v) s. store s l p v) ws t = Ok s'"
    using Cons.prems(2) by (auto simp: w)
  then show ?case using store_valid [OF Cons.prems(1) t(1)] Cons.IH [of t] by simp
qed simp

lemma entry_after_writes:
  assumes "valid s" "rfold (\<lambda>((l, p), v) s. store s l p v) ws s = Ok s'" "inside (dims s) l h p"
  shows "entry s' l h p = (case map_of (rev ws) (l, p) of Some v \<Rightarrow> part (dims s) h v | None \<Rightarrow> entry s l h p)"
  using assms
proof (induction ws arbitrary: s)
  case (Cons w ws)
  obtain k q v where w: "w = ((k, q), v)" by (metis surj_pair)
  obtain t where t: "store s k q v = Ok t" "rfold (\<lambda>((l, p), v) s. store s l p v) ws t = Ok s'"
    using Cons.prems(2) by (auto simp: w)
  note shape = store_valid [OF Cons.prems(1) t(1)]
  have "entry s' l h p = (case map_of (rev ws) (l, p) of Some v \<Rightarrow> part (dims s) h v | None \<Rightarrow> entry t l h p)"
    using Cons.IH [OF _ t(2)] shape Cons.prems(3) by (auto split: option.split)
  moreover have "entry t l h p = (if l = k \<and> p = q then part (dims s) h v else entry s l h p)"
    by (rule entry_store [OF Cons.prems(1) t(1) Cons.prems(3)])
  ultimately show ?case by (auto simp: w map_add_def split: option.split)
qed simp

end

text \<open>The cache meets the contract; an entry is a pair of a key and a value vector.\<close>

definition kv_pair :: "kv_cache \<Rightarrow> nat \<Rightarrow> nat \<Rightarrow> nat \<Rightarrow> f32 list \<times> f32 list" where
  "kv_pair c l h p =
    (flat_cell (kv_head_dim c) (kv_k c) (kv_index c l h p), flat_cell (kv_head_dim c) (kv_v c) (kv_index c l h p))"

definition kv_part :: "llama_config \<times> nat \<Rightarrow> nat \<Rightarrow> f32 list \<times> f32 list \<Rightarrow> f32 list \<times> f32 list" where
  "kv_part = (\<lambda>(config, dh) h (ks, vs). (flat_cell dh ks h, flat_cell dh vs h))"

definition kv_inside :: "llama_config \<times> nat \<Rightarrow> nat \<Rightarrow> nat \<Rightarrow> nat \<Rightarrow> bool" where
  "kv_inside = (\<lambda>(config, dh) l h p. l < block_count config \<and> h < head_count_kv config \<and> p < context_length config)"

definition kv_dims :: "kv_cache \<Rightarrow> llama_config \<times> nat" where
  "kv_dims c = (kv_config c, kv_head_dim c)"

lemma kv_store_outside:
  "kv_store c l p ks vs = Ok c' \<Longrightarrow> kv_ok c \<Longrightarrow>
    l < block_count (kv_config c) \<and> p < context_length (kv_config c)"
  by (rule ccontr) (cases "head_count_kv (kv_config c)";
    auto simp: kv_store_def kv_store_head_def kv_offset_def kv_ok_def upt_rec [of 0] not_less split: if_splits)


lemma kv_store_Ok:
  assumes "kv_ok c" "kv_store c l p ks vs = Ok c'"
  shows "kv_stored (head_count_kv (kv_config c)) l p ks vs c c'"
  using kv_store_cases [OF assms(1), of l p ks vs] kv_store_outside [OF assms(2,1)] assms(2) by simp

interpretation kv: position_store "\<lambda>c l p (ks, vs). kv_store c l p ks vs" kv_pair kv_part kv_inside kv_dims kv_ok
proof
  fix c l p v c'
  assume c: "kv_ok c" and st: "(case v of (ks, vs) \<Rightarrow> kv_store c l p ks vs) = Ok c'"
  obtain ks vs where v: "v = (ks, vs)" by (cases v)
  have stored: "kv_stored (head_count_kv (kv_config c)) l p ks vs c c'"
    using st by (intro kv_store_Ok c) (simp add: v)
  then show "kv_ok c' \<and> kv_dims c' = kv_dims c" by (simp add: kv_stored_def kv_dims_def)
  fix l' h p' assume ins: "kv_inside (kv_dims c) l' h p'"
  then have i: "kv_in c l' h p'" "h < head_count_kv (kv_config c)" by (simp_all add: kv_inside_def kv_dims_def kv_in_def)
  have "kv_index c' = kv_index c" "kv_head_dim c' = kv_head_dim c"
    using stored by (simp_all add: kv_stored_def kv_index_def fun_eq_iff)
  then show "kv_pair c' l' h p' = (if l' = l \<and> p' = p then kv_part (kv_dims c) h v else kv_pair c l' h p')"
    using stored i by (simp add: kv_stored_def kv_pair_def kv_part_def kv_dims_def v)
qed

text \<open>A fresh cache holds zeros.\<close>

lemma kv_new_pair:
  assumes "kv_new config = Ok c" "kv_in c l h p"
  shows "kv_pair c l h p = (replicate (kv_head_dim c) 0, replicate (kv_head_dim c) 0)"
proof -
  have zeros: "\<exists>n. kv_k c = replicate n 0 \<and> kv_v c = replicate n 0" using assms(1) by (auto simp: kv_new_def)
  have "kv_index c l h p * kv_head_dim c + kv_head_dim c \<le> length (kv_k c)"
    using kv_fits assms kv_new_ok by blast
  then show ?thesis using zeros by (auto simp: kv_pair_def flat_cell_def)
qed

text \<open>C10: the cache implements a finite map from layers and positions: after any sequence of
  stores in a fresh cache, the key window and the value window of a head consist, position by
  position, of the parts of the vectors stored last, and of zeros where nothing was stored.\<close>

theorem kv_windows_are_history:
  assumes "kv_new config = Ok c0" "head_dim config = Ok dh"
    and "rfold (\<lambda>((l, p), (ks, vs)) c. kv_store c l p ks vs) ws c0 = Ok c"
    and "l < block_count config" "h < head_count_kv config" "0 < n" "n \<le> context_length config"
  shows "key_prefix c l h n = Ok (concat (map (\<lambda>p. case map_of (rev ws) (l, p) of
      None \<Rightarrow> replicate dh 0 | Some (ks, vs) \<Rightarrow> flat_cell dh ks h) [0..<n])) \<and>
    value_prefix c l h n = Ok (concat (map (\<lambda>p. case map_of (rev ws) (l, p) of
      None \<Rightarrow> replicate dh 0 | Some (ks, vs) \<Rightarrow> flat_cell dh vs h) [0..<n]))"
proof -
  note fresh = kv_new_ok [OF assms(1)]
  have d: "kv_dims c0 = (config, dh)" using fresh assms(2) by (simp add: kv_dims_def)
  have run: "rfold (\<lambda>((l, p), v) c. case v of (ks, vs) \<Rightarrow> kv_store c l p ks vs) ws c0 = Ok c"
    using assms(3) by (simp add: case_prod_beta')
  have c: "kv_ok c" "kv_config c = config" "kv_head_dim c = dh"
    using kv.writes_valid [OF _ run] fresh d by (simp_all add: kv_dims_def)
  have pair: "kv_pair c l h p = (case map_of (rev ws) (l, p) of None \<Rightarrow> (replicate dh 0, replicate dh 0)
      | Some (ks, vs) \<Rightarrow> (flat_cell dh ks h, flat_cell dh vs h))" if "p < n" for p
  proof -
    have "kv_inside (kv_dims c0) l h p" "kv_in c0 l h p" using assms that fresh by (simp_all add: kv_inside_def d kv_in_def)
    then show ?thesis using kv.entry_after_writes [OF _ run, of l h p] kv_new_pair [OF assms(1), of l h p] fresh d
      by (auto simp: kv_part_def kv_dims_def split: option.split)
  qed
  have i: "kv_in c l h 0" using assms c by (simp add: kv_in_def)
  have v: "length (kv_v c) = length (kv_k c)" using c(1) by (simp add: kv_ok_def)
  have "key_prefix c l h n = Ok (concat (map (\<lambda>p. fst (kv_pair c l h p)) [0..<n]))"
    "value_prefix c l h n = Ok (concat (map (\<lambda>p. snd (kv_pair c l h p)) [0..<n]))"
    using kv_prefix_Ok(1) [OF c(1) i assms(6)] assms(7) v by (simp_all add: key_prefix_def value_prefix_def kv_pair_def c)
  moreover have "map (\<lambda>p. fst (kv_pair c l h p)) [0..<n] =
      map (\<lambda>p. case map_of (rev ws) (l, p) of None \<Rightarrow> replicate dh 0 | Some (ks, vs) \<Rightarrow> flat_cell dh ks h) [0..<n]"
    "map (\<lambda>p. snd (kv_pair c l h p)) [0..<n] =
      map (\<lambda>p. case map_of (rev ws) (l, p) of None \<Rightarrow> replicate dh 0 | Some (ks, vs) \<Rightarrow> flat_cell dh vs h) [0..<n]"
    by (rule map_cong; simp add: pair split: option.split)+
  ultimately show ?thesis by simp
qed

definition tiny_config :: llama_config where
  "tiny_config = \<lparr>block_count = 1, embedding_length = 2, feed_forward_length = 1, head_count = 1, head_count_kv = 1,
    rms_epsilon = 0x3f800000, attention_scale = 0x3f800000, rope_freq_base = 0x3f800000, rope_dimension_count = 2,
    rope_pairing = Adjacent, context_length = 2\<rparr>"

lemma tiny_config_valid: "config_validate tiny_config = Ok ()" "head_dim tiny_config = Ok 2"
proof -
  have "f32_is_finite 0x3f800000" "\<not> f32_le 0x3f800000 0" by code_simp+
  then show "config_validate tiny_config = Ok ()" "head_dim tiny_config = Ok 2"
    by (simp_all add: config_validate_def head_dim_def tiny_config_def)
qed

theorem kv_windows_are_history_witness:
  "\<exists>c. rfold (\<lambda>((l, p), (ks, vs)) c. kv_store c l p ks vs)
      [((0, 0), ([1, 2], [3, 4])), ((0, 1), ([5, 6], [7, 8]))]
      \<lparr>kv_config = tiny_config, kv_head_dim = 2, kv_k = [0, 0, 0, 0], kv_v = [0, 0, 0, 0]\<rparr> = Ok c \<and>
    key_prefix c 0 0 2 = Ok [1, 2, 5, 6] \<and> value_prefix c 0 0 2 = Ok [3, 4, 7, 8]"
proof -
  let ?ws = "[((0 :: nat, 0 :: nat), ([1, 2], [3, 4])), ((0, 1), ([5, 6], [7, 8]))] :: ((nat \<times> nat) \<times> (f32 list \<times> f32 list)) list"
  let ?c0 = "\<lparr>kv_config = tiny_config, kv_head_dim = 2, kv_k = [0, 0, 0, 0], kv_v = [0, 0, 0, 0]\<rparr>"
  have new: "kv_new tiny_config = Ok ?c0"
    unfolding kv_new_def tiny_config_valid rbind.simps
    by (simp add: tiny_config_def checked_mul_usize_def usize_max_def) (simp add: numeral_eq_Suc)
  have "list_all f32_is_finite [1, 2, 3, 4, 5, 6, 7, 8]" by code_simp
  then have fin: "fvec 2 [1, 2]" "fvec 2 [3, 4]" "fvec 2 [5, 6]" "fvec 2 [7, 8]" by (simp_all add: fvec_def)
  have ok: "kv_ok ?c0" using kv_new_ok [OF new] by simp
  obtain c1 where c1: "kv_store ?c0 0 0 [1, 2] [3, 4] = Ok c1" "kv_stored 1 0 0 [1, 2] [3, 4] ?c0 c1"
    using kv_store_total [OF ok, of 0 0 "[1, 2]" "[3, 4]"] fin by (auto simp: tiny_config_def usize_max_def)
  then obtain c where "kv_store c1 0 1 [5, 6] [7, 8] = Ok c"
    using kv_store_total [of c1 0 1 "[5, 6]" "[7, 8]"] fin by (auto simp: kv_stored_def tiny_config_def usize_max_def)
  with c1(1) have c: "rfold (\<lambda>((l, p), (ks, vs)) c. kv_store c l p ks vs) ?ws ?c0 = Ok c" by simp
  show ?thesis using kv_windows_are_history [OF new tiny_config_valid(2) c, of 0 0 2] c
    by (intro exI [of _ c]) (simp add: tiny_config_def flat_cell_def upt_rec)
qed

end
