(* ===== verification/Llama.thy ===== *)
theory Llama
  imports Kv_Cache Sha256
begin

text \<open>
  The language model of \<open>src/crates/det-model/src/lib.rs\<close>: the weights and their validation, the
  workspace of buffers, attention over all heads, one forward step and the logits of a token
  sequence. A step works on the buffers of a workspace and on the key and value cache; both are
  threaded through as values. The theory \<open>Forward\<close> has the same step with fresh vectors and without
  buffers or shared quantised inputs, \<open>forward_ref\<close>, which the step with a workspace refines.
\<close>

section \<open>Weights\<close>

record layer_weights =
  attention_norm :: "f32 list"
  wq :: weight_matrix
  attn_q_bias :: "f32 list option"
  wk :: weight_matrix
  attn_k_bias :: "f32 list option"
  wv :: weight_matrix
  attn_v_bias :: "f32 list option"
  wo :: weight_matrix
  ffn_norm :: "f32 list"
  w_gate :: weight_matrix
  w_up :: weight_matrix
  w_down :: weight_matrix

record llama =
  ll_config :: llama_config
  token_embedding :: weight_matrix
  ll_layers :: "layer_weights list"
  output_norm :: "f32 list"
  ll_output :: weight_matrix

text \<open>\<open>opt.as_ref().is_some_and(|bias| bias.len() != n)\<close>.\<close>

definition bias_mismatch :: "f32 list option \<Rightarrow> nat \<Rightarrow> bool" where
  "bias_mismatch bias n = (case bias of None \<Rightarrow> False | Some b \<Rightarrow> length b \<noteq> n)"

definition layer_layout :: "llama_config \<Rightarrow> nat \<Rightarrow> layer_weights \<Rightarrow> unit mres" where
  "layer_layout config dh layer =
    (let d = embedding_length config; d_ff = feed_forward_length config;
         q_len = head_count config * dh; kv_len = head_count_kv config * dh in
     if length (attention_norm layer) \<noteq> d \<or> length (ffn_norm layer) \<noteq> d \<or>
        rows (wq layer) \<noteq> q_len \<or> cols (wq layer) \<noteq> d \<or> bias_mismatch (attn_q_bias layer) q_len \<or>
        rows (wk layer) \<noteq> kv_len \<or> cols (wk layer) \<noteq> d \<or> bias_mismatch (attn_k_bias layer) kv_len \<or>
        rows (wv layer) \<noteq> kv_len \<or> cols (wv layer) \<noteq> d \<or> bias_mismatch (attn_v_bias layer) kv_len \<or>
        rows (wo layer) \<noteq> d \<or> cols (wo layer) \<noteq> q_len \<or>
        rows (w_gate layer) \<noteq> d_ff \<or> cols (w_gate layer) \<noteq> d \<or>
        rows (w_up layer) \<noteq> d_ff \<or> cols (w_up layer) \<noteq> d \<or>
        rows (w_down layer) \<noteq> d \<or> cols (w_down layer) \<noteq> d_ff
     then Err Shape
     else
       rbind (wm_validate_shape (wq layer)) (\<lambda>_. rbind (wm_validate_shape (wk layer)) (\<lambda>_.
       rbind (wm_validate_shape (wv layer)) (\<lambda>_. rbind (wm_validate_shape (wo layer)) (\<lambda>_.
       rbind (wm_validate_shape (w_gate layer)) (\<lambda>_. rbind (wm_validate_shape (w_up layer)) (\<lambda>_.
       wm_validate_shape (w_down layer))))))))"

definition validate_layout :: "llama \<Rightarrow> unit mres" where
  "validate_layout m =
    rbind (config_validate (ll_config m)) (\<lambda>_. rbind (head_dim (ll_config m)) (\<lambda>dh.
    let d = embedding_length (ll_config m) in
    if length (ll_layers m) \<noteq> block_count (ll_config m) \<or> cols (token_embedding m) \<noteq> d \<or>
       rows (ll_output m) \<noteq> rows (token_embedding m) \<or> cols (ll_output m) \<noteq> d \<or> length (output_norm m) \<noteq> d
    then Err Shape
    else
      rbind (wm_validate_shape (token_embedding m)) (\<lambda>_. rbind (wm_validate_shape (ll_output m)) (\<lambda>_.
      rfold (\<lambda>layer _. layer_layout (ll_config m) dh layer) (ll_layers m) ()))))"

definition bias_finite :: "f32 list option \<Rightarrow> unit mres" where
  "bias_finite bias = (case bias of None \<Rightarrow> Ok () | Some b \<Rightarrow> ensure_finite_slice b)"

definition layer_validate :: "layer_weights \<Rightarrow> unit mres" where
  "layer_validate layer =
    rbind (ensure_finite_slice (attention_norm layer)) (\<lambda>_. rbind (ensure_finite_slice (ffn_norm layer)) (\<lambda>_.
    rbind (bias_finite (attn_q_bias layer)) (\<lambda>_. rbind (bias_finite (attn_k_bias layer)) (\<lambda>_.
    rbind (bias_finite (attn_v_bias layer)) (\<lambda>_.
    rbind (wm_validate (wq layer)) (\<lambda>_. rbind (wm_validate (wk layer)) (\<lambda>_. rbind (wm_validate (wv layer)) (\<lambda>_.
    rbind (wm_validate (wo layer)) (\<lambda>_. rbind (wm_validate (w_gate layer)) (\<lambda>_. rbind (wm_validate (w_up layer)) (\<lambda>_.
    wm_validate (w_down layer))))))))))))"

definition llama_validate :: "llama \<Rightarrow> unit mres" where
  "llama_validate m =
    rbind (validate_layout m) (\<lambda>_. rbind (wm_validate (token_embedding m)) (\<lambda>_. rbind (wm_validate (ll_output m)) (\<lambda>_.
    rbind (ensure_finite_slice (output_norm m)) (\<lambda>_.
    rfold (\<lambda>layer _. layer_validate layer) (ll_layers m) ()))))"

section \<open>Workspace\<close>

record workspace =
  ws_config :: llama_config
  ws_max_context :: nat
  ws_head_dim :: nat
  ws_x :: "f32 list"
  ws_h :: "f32 list"
  ws_q :: "f32 list"
  ws_k :: "f32 list"
  ws_v :: "f32 list"
  ws_attn :: "f32 list"
  ws_scores :: "f32 list"
  ws_probs :: "f32 list"
  ws_tmp_d :: "f32 list"
  ws_gate :: "f32 list"
  ws_up :: "f32 list"
  ws_ff :: "f32 list"
  ws_q8a :: "q8a_block list"
  ws_q8k :: "q8k_block list"

definition workspace_new :: "llama_config \<Rightarrow> nat \<Rightarrow> nat \<Rightarrow> workspace mres" where
  "workspace_new config output_vocab max_context =
    rbind (config_validate config) (\<lambda>_.
    if output_vocab = 0 \<or> max_context = 0 \<or> context_length config < max_context then Err Shape
    else
      let d = embedding_length config; d_ff = feed_forward_length config in
      rbind (head_dim config) (\<lambda>dh.
      rbind (checked_len (head_count config) dh) (\<lambda>q_len.
      rbind (checked_len (head_count_kv config) dh) (\<lambda>kv_len.
      rbind (checked_len (head_count config) max_context) (\<lambda>attn_scratch_len.
      Ok \<lparr>ws_config = config, ws_max_context = max_context, ws_head_dim = dh,
          ws_x = replicate d 0, ws_h = replicate d 0, ws_q = replicate q_len 0, ws_k = replicate kv_len 0,
          ws_v = replicate kv_len 0, ws_attn = replicate q_len 0, ws_scores = replicate attn_scratch_len 0,
          ws_probs = replicate attn_scratch_len 0, ws_tmp_d = replicate d 0, ws_gate = replicate d_ff 0,
          ws_up = replicate d_ff 0, ws_ff = replicate d_ff 0, ws_q8a = [], ws_q8k = []\<rparr>)))))"

definition workspace_validate_for :: "workspace \<Rightarrow> llama_config \<Rightarrow> nat \<Rightarrow> nat \<Rightarrow> unit mres" where
  "workspace_validate_for ws config output_vocab pos =
    (let d = embedding_length config; d_ff = feed_forward_length config in
     rbind (head_dim config) (\<lambda>dh.
     rbind (checked_len (head_count config) dh) (\<lambda>q_len.
     rbind (checked_len (head_count_kv config) dh) (\<lambda>kv_len.
     rbind (checked_len (head_count config) (ws_max_context ws)) (\<lambda>attn_scratch_len.
     if \<not> config_eq (ws_config ws) config \<or> ws_head_dim ws \<noteq> dh \<or> output_vocab = 0 \<or> ws_max_context ws \<le> pos \<or>
        length (ws_x ws) \<noteq> d \<or> length (ws_h ws) \<noteq> d \<or> length (ws_q ws) \<noteq> q_len \<or> length (ws_k ws) \<noteq> kv_len \<or>
        length (ws_v ws) \<noteq> kv_len \<or> length (ws_attn ws) \<noteq> q_len \<or> length (ws_scores ws) \<noteq> attn_scratch_len \<or>
        length (ws_probs ws) \<noteq> attn_scratch_len \<or> length (ws_tmp_d ws) \<noteq> d \<or> length (ws_gate ws) \<noteq> d_ff \<or>
        length (ws_up ws) \<noteq> d_ff \<or> length (ws_ff ws) \<noteq> d_ff
     then Err Shape else Ok ())))))"

definition forward_workspace :: "llama \<Rightarrow> nat \<Rightarrow> workspace mres" where
  "forward_workspace m max_context =
    rbind (llama_validate m) (\<lambda>_. workspace_new (ll_config m) (rows (ll_output m)) max_context)"

section \<open>Attention over all heads\<close>

text \<open>\<open>xs[a..b]\<close> written back.\<close>

definition set_at :: "nat \<Rightarrow> 'a list \<Rightarrow> 'a list \<Rightarrow> 'a list" where
  "set_at a part xs = take a xs @ part @ drop (a + length part) xs"

text \<open>One head: the output vector and the scratch slices it leaves.\<close>

definition attention_one_head ::
  "llama_config \<Rightarrow> nat \<Rightarrow> nat \<Rightarrow> kv_cache \<Rightarrow> nat \<Rightarrow> f32 list \<Rightarrow> f32 list \<Rightarrow> f32 list \<Rightarrow> f32 list \<Rightarrow>
    (f32 list \<times> f32 list \<times> f32 list) mres" where
  "attention_one_head config layer_idx pos cache head qh out_head score_scratch prob_scratch =
    rbind (head_dim config) (\<lambda>dh.
    let score_len = pos + 1 in
    if length score_scratch < score_len \<or> length prob_scratch < score_len then Err Shape
    else if head_count_kv config = 0 \<or> head_count config div head_count_kv config = 0 then Panic
    else
      let kv_head = head div (head_count config div head_count_kv config) in
      rbind (key_prefix cache layer_idx kv_head score_len) (\<lambda>key_window.
      rbind (value_prefix cache layer_idx kv_head score_len) (\<lambda>value_window.
      if score_len = 1 then
        (if length value_window = length out_head then Ok (value_window, score_scratch, prob_scratch) else Panic)
      else
        rbind (attention_scores_one_head_scaled qh key_window dh (attention_scale config) (take score_len score_scratch)) (\<lambda>scores.
        let score_scratch = scores @ drop score_len score_scratch in
        rbind (softmax_in_place (take score_len score_scratch)) (\<lambda>probs.
        let prob_scratch = probs @ drop score_len prob_scratch in
        rbind (attention_weighted_value (take score_len prob_scratch) value_window dh out_head) (\<lambda>out_head.
        Ok (out_head, score_scratch, prob_scratch)))))))"

text \<open>One turn of the loop over the heads, with the slices of the buffers.\<close>

definition attention_head_step ::
  "llama_config \<Rightarrow> nat \<Rightarrow> nat \<Rightarrow> kv_cache \<Rightarrow> f32 list \<Rightarrow> nat \<Rightarrow> nat \<Rightarrow> nat \<Rightarrow> f32 list \<times> f32 list \<times> f32 list \<Rightarrow>
    (f32 list \<times> f32 list \<times> f32 list) mres" where
  "attention_head_step config layer_idx pos cache q dh max_context head = (\<lambda>(attn, scores, probs).
    rbind (slice_at q (head * dh) ((head + 1) * dh)) (\<lambda>qh.
    rbind (slice_at attn (head * dh) ((head + 1) * dh)) (\<lambda>out_head.
    rbind (slice_at scores (head * max_context) ((head + 1) * max_context)) (\<lambda>score_scratch.
    rbind (slice_at probs (head * max_context) ((head + 1) * max_context)) (\<lambda>prob_scratch.
    rbind (attention_one_head config layer_idx pos cache head qh out_head score_scratch prob_scratch) (\<lambda>(o_h, s_h, p_h).
    Ok (set_at (head * dh) o_h attn, set_at (head * max_context) s_h scores, set_at (head * max_context) p_h probs)))))))"

definition attention_all_heads_sequential ::
  "llama_config \<Rightarrow> nat \<Rightarrow> nat \<Rightarrow> kv_cache \<Rightarrow> f32 list \<Rightarrow> f32 list \<Rightarrow> f32 list \<Rightarrow> f32 list \<Rightarrow> nat \<Rightarrow>
    (f32 list \<times> f32 list \<times> f32 list) mres" where
  "attention_all_heads_sequential config layer_idx pos cache q attn scores probs max_context =
    rbind (head_dim config) (\<lambda>dh.
    rfold (attention_head_step config layer_idx pos cache q dh max_context) [0..<head_count config] (attn, scores, probs))"

text \<open>The parallel version zips the chunks of the three buffers, one task for each head, on the parameter for
  \<open>rayon\<close>'s loop.\<close>

definition attention_all_heads_parallel ::
  "(model_error, f32 list \<times> f32 list \<times> f32 list) for_each \<Rightarrow> bool \<Rightarrow> llama_config \<Rightarrow> nat \<Rightarrow> nat \<Rightarrow> kv_cache \<Rightarrow> f32 list \<Rightarrow> f32 list \<Rightarrow> f32 list \<Rightarrow> f32 list \<Rightarrow> nat \<Rightarrow>
    (f32 list \<times> f32 list \<times> f32 list) mres set" where
  "attention_all_heads_parallel try_for_each pool config layer_idx pos cache q attn scores probs max_context =
    (case head_dim config of
       Ok dh \<Rightarrow>
         if \<not> pool then {Err ThreadPanicked}
         else (\<lambda>r. rbind r (\<lambda>hs. Ok (concat (map fst hs), concat (map (fst \<circ> snd) hs), concat (map (snd \<circ> snd) hs)))) `
           try_for_each (map (\<lambda>(head, (out_head, score_scratch), prob_scratch).
               rbind (slice_at q (head * dh) ((head + 1) * dh)) (\<lambda>qh.
               attention_one_head config layer_idx pos cache head qh out_head score_scratch prob_scratch))
             (enumerate 0 (zip (zip (chunks dh attn) (chunks max_context scores)) (chunks max_context probs))))
     | r \<Rightarrow> {rbind r (\<lambda>_. Panic)})"

definition attention_all_heads ::
  "llama_config \<Rightarrow> nat \<Rightarrow> nat \<Rightarrow> kv_cache \<Rightarrow> f32 list \<Rightarrow> f32 list \<Rightarrow> f32 list \<Rightarrow> f32 list \<Rightarrow> nat \<Rightarrow>
    (f32 list \<times> f32 list \<times> f32 list) mres" where
  "attention_all_heads config layer_idx pos cache q attn scores probs max_context =
    rbind (head_dim config) (\<lambda>dh.
    rbind (checked_len (head_count config) dh) (\<lambda>q_len.
    rbind (checked_len (head_count config) max_context) (\<lambda>scratch_len.
    if max_context \<le> pos \<or> length q \<noteq> q_len \<or> length attn \<noteq> q_len \<or> length scores \<noteq> scratch_len \<or> length probs \<noteq> scratch_len
    then Err Shape
    else attention_all_heads_sequential config layer_idx pos cache q attn scores probs max_context)))"


section \<open>One forward step\<close>

text \<open>The quantised input is computed when one of the products can use it.\<close>

definition shared_q8a :: "weight_matrix list \<Rightarrow> f32 list \<Rightarrow> q8a_block list \<Rightarrow> (q8a_block list option \<times> q8a_block list) mres" where
  "shared_q8a ws h scratch =
    (if list_ex needs_q8a ws then rbind (quant_q8a h) (\<lambda>q. Ok (Some q, q)) else Ok (None, scratch))"

text \<open>The attention half of a layer.\<close>

definition attention_block ::
  "llama_config \<Rightarrow> nat \<Rightarrow> nat \<Rightarrow> rope_tables \<Rightarrow> nat \<Rightarrow> layer_weights \<Rightarrow> workspace \<times> kv_cache \<Rightarrow> (workspace \<times> kv_cache) mres" where
  "attention_block config dh pos rope layer_idx layer = (\<lambda>(ws, cache).
    rbind (rmsnorm (ws_x ws) (attention_norm layer) (rms_epsilon config) (ws_h ws)) (\<lambda>h. let ws = ws\<lparr>ws_h := h\<rparr> in
    rbind (shared_q8a [wq layer, wk layer, wv layer] (ws_h ws) (ws_q8a ws)) (\<lambda>(h_q8a, q8a). let ws = ws\<lparr>ws_q8a := q8a\<rparr> in
    rbind (gemv_with_optional_q8a_and_q8k_scratch (wq layer) (ws_h ws) h_q8a (ws_q8k ws) (ws_q ws)) (\<lambda>(q, q8k).
      let ws = ws\<lparr>ws_q := q, ws_q8k := q8k\<rparr> in
    rbind (add_optional_bias (ws_q ws) (attn_q_bias layer)) (\<lambda>q. let ws = ws\<lparr>ws_q := q\<rparr> in
    rbind (gemv_with_optional_q8a_and_q8k_scratch (wk layer) (ws_h ws) h_q8a (ws_q8k ws) (ws_k ws)) (\<lambda>(k, q8k).
      let ws = ws\<lparr>ws_k := k, ws_q8k := q8k\<rparr> in
    rbind (add_optional_bias (ws_k ws) (attn_k_bias layer)) (\<lambda>k. let ws = ws\<lparr>ws_k := k\<rparr> in
    rbind (gemv_with_optional_q8a_and_q8k_scratch (wv layer) (ws_h ws) h_q8a (ws_q8k ws) (ws_v ws)) (\<lambda>(v, q8k).
      let ws = ws\<lparr>ws_v := v, ws_q8k := q8k\<rparr> in
    rbind (add_optional_bias (ws_v ws) (attn_v_bias layer)) (\<lambda>v. let ws = ws\<lparr>ws_v := v\<rparr> in
    rbind (apply_rope (ws_q ws) (head_count config) dh pos rope) (\<lambda>q. let ws = ws\<lparr>ws_q := q\<rparr> in
    rbind (apply_rope (ws_k ws) (head_count_kv config) dh pos rope) (\<lambda>k. let ws = ws\<lparr>ws_k := k\<rparr> in
    rbind (kv_store cache layer_idx pos (ws_k ws) (ws_v ws)) (\<lambda>cache.
    rbind (attention_all_heads config layer_idx pos cache (ws_q ws) (ws_attn ws) (ws_scores ws) (ws_probs ws) (ws_max_context ws))
      (\<lambda>(attn, scores, probs). let ws = ws\<lparr>ws_attn := attn, ws_scores := scores, ws_probs := probs\<rparr> in
    rbind (gemv_with_quant_scratch (wo layer) (ws_attn ws) (ws_q8a ws) (ws_q8k ws) (ws_tmp_d ws)) (\<lambda>(tmp, q8a, q8k).
      let ws = ws\<lparr>ws_tmp_d := tmp, ws_q8a := q8a, ws_q8k := q8k\<rparr> in
    rbind (residual_add (ws_x ws) (ws_tmp_d ws)) (\<lambda>x.
    Ok (ws\<lparr>ws_x := x\<rparr>, cache))))))))))))))))"

text \<open>The feed-forward half.\<close>

definition feed_forward_block :: "llama_config \<Rightarrow> layer_weights \<Rightarrow> workspace \<Rightarrow> workspace mres" where
  "feed_forward_block config layer ws =
    rbind (rmsnorm (ws_x ws) (ffn_norm layer) (rms_epsilon config) (ws_h ws)) (\<lambda>h. let ws = ws\<lparr>ws_h := h\<rparr> in
    rbind (shared_q8a [w_gate layer, w_up layer] (ws_h ws) (ws_q8a ws)) (\<lambda>(h_q8a, q8a). let ws = ws\<lparr>ws_q8a := q8a\<rparr> in
    rbind (gemv_with_optional_q8a_and_q8k_scratch (w_gate layer) (ws_h ws) h_q8a (ws_q8k ws) (ws_gate ws)) (\<lambda>(gate, q8k).
      let ws = ws\<lparr>ws_gate := gate, ws_q8k := q8k\<rparr> in
    rbind (gemv_with_optional_q8a_and_q8k_scratch (w_up layer) (ws_h ws) h_q8a (ws_q8k ws) (ws_up ws)) (\<lambda>(up, q8k).
      let ws = ws\<lparr>ws_up := up, ws_q8k := q8k\<rparr> in
    rbind (swiglu (ws_gate ws) (ws_up ws) (ws_ff ws)) (\<lambda>ff. let ws = ws\<lparr>ws_ff := ff\<rparr> in
    rbind (gemv_with_quant_scratch (w_down layer) (ws_ff ws) (ws_q8a ws) (ws_q8k ws) (ws_tmp_d ws)) (\<lambda>(tmp, q8a, q8k).
      let ws = ws\<lparr>ws_tmp_d := tmp, ws_q8a := q8a, ws_q8k := q8k\<rparr> in
    rbind (residual_add (ws_x ws) (ws_tmp_d ws)) (\<lambda>x.
    Ok (ws\<lparr>ws_x := x\<rparr>))))))))"

definition layer_step ::
  "llama_config \<Rightarrow> nat \<Rightarrow> nat \<Rightarrow> rope_tables \<Rightarrow> nat \<times> layer_weights \<Rightarrow> workspace \<times> kv_cache \<Rightarrow> (workspace \<times> kv_cache) mres" where
  "layer_step config dh pos rope = (\<lambda>(layer_idx, layer) s.
    rbind (attention_block config dh pos rope layer_idx layer s) (\<lambda>(ws, cache).
    rbind (feed_forward_block config layer ws) (\<lambda>ws. Ok (ws, cache))))"

text \<open>The checks at the head of a step; \<open>half_head_dim * 2\<close> is a plain multiplication.\<close>

definition forward_checks :: "llama \<Rightarrow> nat \<Rightarrow> nat \<Rightarrow> rope_tables \<Rightarrow> kv_cache \<Rightarrow> nat \<Rightarrow> nat mres" where
  "forward_checks m token pos rope cache logits_len =
    rbind (validate_layout m) (\<lambda>_.
    if context_length (ll_config m) \<le> pos \<or> logits_len \<noteq> rows (ll_output m) \<or> rows (token_embedding m) \<le> token \<or>
       \<not> config_eq (kv_config cache) (ll_config m) then Err Shape
    else if rt_positions rope \<le> pos then Err Shape
    else if usize_max < half_head_dim rope * 2 then Panic
    else if half_head_dim rope * 2 \<noteq> rope_dimension_count (ll_config m) \<or> rt_pairing rope \<noteq> rope_pairing (ll_config m) then Err Shape
    else head_dim (ll_config m))"

definition forward_one_with_workspace ::
  "llama \<Rightarrow> nat \<Rightarrow> nat \<Rightarrow> rope_tables \<Rightarrow> kv_cache \<Rightarrow> f32 list \<Rightarrow> workspace \<Rightarrow> (kv_cache \<times> f32 list \<times> workspace) mres" where
  "forward_one_with_workspace m token pos rope cache logits ws =
    rbind (forward_checks m token pos rope cache (length logits)) (\<lambda>dh.
    rbind (workspace_validate_for ws (ll_config m) (rows (ll_output m)) pos) (\<lambda>_.
    rbind (write_row_validated (token_embedding m) token (ws_x ws)) (\<lambda>x. let ws = ws\<lparr>ws_x := x\<rparr> in
    rbind (rfold (layer_step (ll_config m) dh pos rope) (enumerate 0 (ll_layers m)) (ws, cache)) (\<lambda>(ws, cache).
    rbind (rmsnorm (ws_x ws) (output_norm m) (rms_epsilon (ll_config m)) (ws_h ws)) (\<lambda>h. let ws = ws\<lparr>ws_h := h\<rparr> in
    rbind (gemv_with_quant_scratch (ll_output m) (ws_h ws) (ws_q8a ws) (ws_q8k ws) logits) (\<lambda>(logits, q8a, q8k).
    Ok (cache, logits, ws\<lparr>ws_q8a := q8a, ws_q8k := q8k\<rparr>)))))))"

definition forward_one :: "llama \<Rightarrow> nat \<Rightarrow> nat \<Rightarrow> rope_tables \<Rightarrow> kv_cache \<Rightarrow> f32 list \<Rightarrow> (kv_cache \<times> f32 list) mres" where
  "forward_one m token pos rope cache logits =
    (if context_length (ll_config m) \<le> pos then Err Shape
     else rbind (ok_or Shape (checked_add_usize pos 1)) (\<lambda>max_context.
       rbind (forward_workspace m max_context) (\<lambda>ws.
       rbind (forward_one_with_workspace m token pos rope cache logits ws) (\<lambda>(cache, logits, _).
       Ok (cache, logits)))))"

section \<open>Logits of a token sequence\<close>

definition validate_logits_request :: "llama \<Rightarrow> nat list \<Rightarrow> nat \<Rightarrow> unit mres" where
  "validate_logits_request m tokens chunk_size =
    (if tokens = [] \<or> chunk_size = 0 \<or> context_length (ll_config m) < length tokens then Err Shape
     else if list_ex (\<lambda>token. rows (token_embedding m) \<le> token) tokens then Err Shape
     else Ok ())"

text \<open>The visitor is a function on its own state; the state of the loop is the position, the cache,
  the logits, the workspace and the state of the visitor.\<close>

definition visit_token ::
  "llama \<Rightarrow> rope_tables \<Rightarrow> (f32 list \<Rightarrow> 's \<Rightarrow> 's) \<Rightarrow> nat \<Rightarrow> nat \<times> kv_cache \<times> f32 list \<times> workspace \<times> 's \<Rightarrow>
    (nat \<times> kv_cache \<times> f32 list \<times> workspace \<times> 's) mres" where
  "visit_token m rope visit token = (\<lambda>(pos, cache, logits, ws, acc).
    rbind (forward_one_with_workspace m token pos rope cache logits ws) (\<lambda>(cache, logits, ws).
    Ok (pos + 1, cache, logits, ws, visit logits acc)))"

definition visit_logits_for_tokens_chunked :: "llama \<Rightarrow> nat list \<Rightarrow> nat \<Rightarrow> (f32 list \<Rightarrow> 's \<Rightarrow> 's) \<Rightarrow> 's \<Rightarrow> 's mres" where
  "visit_logits_for_tokens_chunked m tokens chunk_size visit acc =
    rbind (validate_logits_request m tokens chunk_size) (\<lambda>_.
    rbind (rope_llama (ll_config m) (length tokens)) (\<lambda>rope.
    rbind (kv_new (ll_config m)) (\<lambda>cache.
    rbind (forward_workspace m (length tokens)) (\<lambda>ws.
    rbind (rfold (\<lambda>chunk s. rfold (visit_token m rope visit) chunk s) (chunks chunk_size tokens)
        (0, cache, replicate (rows (ll_output m)) 0, ws, acc)) (\<lambda>(_, _, _, _, acc).
    Ok acc)))))"

text \<open>\<open>logit.to_bits().to_le_bytes()\<close>.\<close>

definition logit_bytes :: "f32 \<Rightarrow> u8 list" where
  "logit_bytes v = le_bytes 4 (unat v)"

definition logits_bytes_for_tokens_chunked :: "llama \<Rightarrow> nat list \<Rightarrow> nat \<Rightarrow> u8 list mres" where
  "logits_bytes_for_tokens_chunked m tokens chunk_size =
    rbind (validate_logits_request m tokens chunk_size) (\<lambda>_.
    rbind (logits_byte_len (length tokens) (rows (ll_output m))) (\<lambda>_.
    visit_logits_for_tokens_chunked m tokens chunk_size
      (\<lambda>logits bytes. fold (\<lambda>logit bytes. bytes @ logit_bytes logit) logits bytes) []))"

text \<open>The hasher may panic in principle; its updates are threaded as outcomes.\<close>

definition logits_hash_for_tokens_chunked :: "llama \<Rightarrow> nat list \<Rightarrow> nat \<Rightarrow> u8 list mres" where
  "logits_hash_for_tokens_chunked m tokens chunk_size =
    rbind (visit_logits_for_tokens_chunked m tokens chunk_size
      (\<lambda>logits hash. fold (\<lambda>logit hash. rbind hash (\<lambda>h. sha_update h (logit_bytes logit))) logits hash) (Ok sha_new))
      (\<lambda>hash. rbind hash sha_finalize)"

definition logits_hash_for_tokens :: "llama \<Rightarrow> nat list \<Rightarrow> u8 list mres" where
  "logits_hash_for_tokens m tokens = logits_hash_for_tokens_chunked m tokens 1"

end
