(* ===== verification/Forward.thy ===== *)
theory Forward
  imports Llama
begin

text \<open>
  What a forward step computes. \<open>forward_ref\<close> is the step on fresh vectors: no workspace, no slices
  of shared buffers, and every product quantises its own input. The step with a workspace agrees
  with it on every model and every input, so the content of the buffers never matters; from it
  follow that a step never panics and that its logits are finite, and that the logits of a token
  sequence do not depend on how it is cut into chunks.
\<close>

section \<open>The reference step\<close>

definition zeros :: "nat \<Rightarrow> f32 list" where "zeros n = replicate n 0"

lemma length_zeros [simp]: "length (zeros n) = n"
  by (simp add: zeros_def)

definition product_ref :: "weight_matrix \<Rightarrow> f32 list \<Rightarrow> f32 list mres" where
  "product_ref w x = wm_gemv_validated w x (zeros (rows w))"

definition head_ref :: "llama_config \<Rightarrow> nat \<Rightarrow> nat \<Rightarrow> kv_cache \<Rightarrow> nat \<Rightarrow> f32 list \<Rightarrow> nat \<Rightarrow> f32 list mres" where
  "head_ref config layer_idx pos cache dh q head =
    (let kv_head = head div (head_count config div head_count_kv config) in
     rbind (key_prefix cache layer_idx kv_head (pos + 1)) (\<lambda>ks.
     rbind (value_prefix cache layer_idx kv_head (pos + 1)) (\<lambda>vs.
     if pos = 0 then (if length vs = dh then Ok vs else Panic)
     else
       rbind (attention_scores_one_head_scaled (flat_cell dh q head) ks dh (attention_scale config) (zeros (pos + 1))) (\<lambda>scores.
       rbind (softmax_in_place scores) (\<lambda>probs.
       attention_weighted_value probs vs dh (zeros dh))))))"

definition attention_ref :: "llama_config \<Rightarrow> nat \<Rightarrow> nat \<Rightarrow> kv_cache \<Rightarrow> nat \<Rightarrow> f32 list \<Rightarrow> f32 list mres" where
  "attention_ref config layer_idx pos cache dh q =
    rbind (traverse (head_ref config layer_idx pos cache dh q) [0..<head_count config]) (\<lambda>hs. Ok (concat hs))"

definition attention_block_ref ::
  "llama_config \<Rightarrow> nat \<Rightarrow> nat \<Rightarrow> rope_tables \<Rightarrow> nat \<Rightarrow> layer_weights \<Rightarrow> f32 list \<times> kv_cache \<Rightarrow> (f32 list \<times> kv_cache) mres" where
  "attention_block_ref config dh pos rope layer_idx layer = (\<lambda>(x, cache).
    rbind (rmsnorm x (attention_norm layer) (rms_epsilon config) (zeros (length x))) (\<lambda>h.
    rbind (product_ref (wq layer) h) (\<lambda>q. rbind (add_optional_bias q (attn_q_bias layer)) (\<lambda>q.
    rbind (product_ref (wk layer) h) (\<lambda>k. rbind (add_optional_bias k (attn_k_bias layer)) (\<lambda>k.
    rbind (product_ref (wv layer) h) (\<lambda>v. rbind (add_optional_bias v (attn_v_bias layer)) (\<lambda>v.
    rbind (apply_rope q (head_count config) dh pos rope) (\<lambda>q.
    rbind (apply_rope k (head_count_kv config) dh pos rope) (\<lambda>k.
    rbind (kv_store cache layer_idx pos k v) (\<lambda>cache.
    rbind (attention_ref config layer_idx pos cache dh q) (\<lambda>attn.
    rbind (product_ref (wo layer) attn) (\<lambda>tmp.
    rbind (residual_add x tmp) (\<lambda>x. Ok (x, cache)))))))))))))))"

definition feed_forward_ref :: "llama_config \<Rightarrow> layer_weights \<Rightarrow> f32 list \<Rightarrow> f32 list mres" where
  "feed_forward_ref config layer x =
    rbind (rmsnorm x (ffn_norm layer) (rms_epsilon config) (zeros (length x))) (\<lambda>h.
    rbind (product_ref (w_gate layer) h) (\<lambda>gate. rbind (product_ref (w_up layer) h) (\<lambda>up.
    rbind (swiglu gate up (zeros (length gate))) (\<lambda>ff. rbind (product_ref (w_down layer) ff) (\<lambda>tmp.
    residual_add x tmp)))))"

definition layer_ref ::
  "llama_config \<Rightarrow> nat \<Rightarrow> nat \<Rightarrow> rope_tables \<Rightarrow> nat \<times> layer_weights \<Rightarrow> f32 list \<times> kv_cache \<Rightarrow> (f32 list \<times> kv_cache) mres" where
  "layer_ref config dh pos rope = (\<lambda>(layer_idx, layer) s.
    rbind (attention_block_ref config dh pos rope layer_idx layer s) (\<lambda>(x, cache).
    rbind (feed_forward_ref config layer x) (\<lambda>x. Ok (x, cache))))"

definition forward_ref :: "llama \<Rightarrow> nat \<Rightarrow> nat \<Rightarrow> nat \<Rightarrow> rope_tables \<Rightarrow> kv_cache \<Rightarrow> (kv_cache \<times> f32 list) mres" where
  "forward_ref m dh token pos rope cache =
    rbind (write_row_validated (token_embedding m) token (zeros (cols (token_embedding m)))) (\<lambda>x.
    rbind (rfold (layer_ref (ll_config m) dh pos rope) (enumerate 0 (ll_layers m)) (x, cache)) (\<lambda>(x, cache).
    rbind (rmsnorm x (output_norm m) (rms_epsilon (ll_config m)) (zeros (length x))) (\<lambda>h.
    rbind (product_ref (ll_output m) h) (\<lambda>logits. Ok (cache, logits)))))"

section \<open>Attention on slices of the buffers\<close>

lemma attention_one_head_ref:
  assumes "head_dim config = Ok dh" "head_count_kv config \<noteq> 0" "head_count_kv config \<le> head_count config"
    and len: "length out = dh" "pos < length ss" "pos < length ps"
  shows "rel_res (\<lambda>(v, ss', ps') v'. v = v' \<and> length v = dh \<and> length ss' = length ss \<and> length ps' = length ps)
    (attention_one_head config layer_idx pos cache head (flat_cell dh q head) out ss ps)
    (head_ref config layer_idx pos cache dh q head)"
proof -
  have group: "head_count config div head_count_kv config \<noteq> 0" using assms(2,3) by (simp add: div_eq_0_iff)
  have scratch: "\<not> (length ss < pos + 1 \<or> length ps < pos + 1)" using len by simp
  have fresh: "attention_scores_one_head_scaled qh ks dh scale (take (pos + 1) ss) =
      attention_scores_one_head_scaled qh ks dh scale (zeros (pos + 1))" for qh ks scale
    by (rule scores_fresh) (use len in simp)
  have out: "attention_weighted_value p vs dh out = attention_weighted_value p vs dh (zeros dh)" for p vs
    by (rule weighted_fresh) (use len in simp)
  show ?thesis
    unfolding attention_one_head_def head_ref_def assms(1) rbind.simps Let_def fresh out if_not_P [OF scratch]
    using assms(2) group
  proof (simp, intro rel_res_bind_same, goal_cases)
    case (1 ks vs)
    have "rel_res (\<lambda>(v, ss', ps') v'. v = v' \<and> length v = dh \<and> length ss' = length ss \<and> length ps' = length ps)
      (rbind (attention_weighted_value probs vs dh (zeros dh)) (\<lambda>v. Ok (v, scores @ drop (Suc pos) ss, probs @ drop (Suc pos) ps)))
      (attention_weighted_value probs vs dh (zeros dh))"
      if "length scores = Suc pos" "length probs = Suc pos" for scores probs
      using that len attention_lengths(3) [of probs vs dh "zeros dh"]
      by (cases "attention_weighted_value probs vs dh (zeros dh)") auto
    then show ?case using len
      by (auto intro!: rel_res_bind_same dest!: attention_lengths(1,2))
  qed
qed

lemma concat_uniform: "\<forall>h \<in> set hs. length h = d \<Longrightarrow> length (concat hs) = length hs * d"
  by (induction hs) auto

text \<open>One turn of the loop replaces the slice of one head.\<close>

lemma set_at_length: "a + length part \<le> length xs \<Longrightarrow> length (set_at a part xs) = length xs"
  by (simp add: set_at_def)

lemma head_slice:
  assumes "length xs = n * k" "head < n"
  shows "slice_at xs (head * k) ((head + 1) * k) = Ok (flat_cell k xs head)" "length (flat_cell k xs head) = k"
    "head * k + k \<le> length xs"
  using row_bounds [OF assms(2), of k] assms(1) by (simp_all add: slice_at_def flat_cell_def add.commute)

lemma attention_loop:
  assumes config: "head_dim config = Ok dh" "head_count_kv config \<noteq> 0" "head_count_kv config \<le> head_count config"
    and len: "length q = head_count config * dh" "length attn = head_count config * dh"
      "length ss = head_count config * mc" "length ps = head_count config * mc" and pos: "pos < mc"
  shows "n \<le> head_count config \<Longrightarrow>
    rel_res (\<lambda>(a, s, p) hs. a = concat hs @ drop (n * dh) attn \<and> (\<forall>h \<in> set hs. length h = dh) \<and> length hs = n \<and>
        length s = length ss \<and> length p = length ps)
      (rfold (attention_head_step config layer_idx pos cache q dh mc) [0..<n] (attn, ss, ps))
      (traverse (head_ref config layer_idx pos cache dh q) [0..<n])"
proof (induction n)
  case (Suc n)
  then have n: "n < head_count config" by simp
  have "rel_res (\<lambda>(a, s, p) hs. a = concat hs @ drop (n * dh) attn \<and> (\<forall>h \<in> set hs. length h = dh) \<and> length hs = n \<and>
        length s = length ss \<and> length p = length ps)
      (rfold (attention_head_step config layer_idx pos cache q dh mc) [0..<n] (attn, ss, ps))
      (traverse (head_ref config layer_idx pos cache dh q) [0..<n])"
    using Suc by simp
  then show ?case unfolding upt_Suc_append [OF le0] rfold_append traverse_append
  proof (rule rel_res_bind, goal_cases)
    case (1 t hs)
    obtain a s p where t: "t = (a, s, p)" by (cases t)
    have hs: "a = concat hs @ drop (n * dh) attn" "\<forall>h \<in> set hs. length h = dh" "length hs = n"
      "length s = head_count config * mc" "length p = head_count config * mc"
      using 1(3) len by (simp_all add: t)
    have pre: "length (concat hs) = n * dh" using concat_uniform [OF hs(2)] hs(3) by simp
    have a: "length a = head_count config * dh" using pre hs(1) len(2) row_bounds [OF n, of dh] by simp
    note sl = head_slice(1) [OF len(1) n] head_slice(1) [OF a n] head_slice(1) [OF hs(4) n] head_slice(1) [OF hs(5) n]
    have "rel_res (\<lambda>(v, ss', ps') v'. v = v' \<and> length v = dh \<and> length ss' = length (flat_cell mc s n) \<and> length ps' = length (flat_cell mc p n))
      (attention_one_head config layer_idx pos cache n (flat_cell dh q n) (flat_cell dh a n) (flat_cell mc s n) (flat_cell mc p n))
      (head_ref config layer_idx pos cache dh q n)"
      by (rule attention_one_head_ref [OF config]) (use head_slice [OF a n] head_slice [OF hs(4) n] head_slice [OF hs(5) n] pos in simp_all)
    then have "rel_res (\<lambda>(a, s, p) hs. a = concat hs @ drop (Suc n * dh) attn \<and> (\<forall>h \<in> set hs. length h = dh) \<and> length hs = Suc n \<and>
        length s = length ss \<and> length p = length ps)
      (attention_head_step config layer_idx pos cache q dh mc n (a, s, p))
      (rbind (head_ref config layer_idx pos cache dh q n) (\<lambda>v. Ok (hs @ [v])))"
      unfolding attention_head_step_def prod.case sl rbind.simps
      by (rule rel_res_bind)
        (use hs pre len head_slice(2,3) [OF hs(4) n] head_slice(2,3) [OF hs(5) n] in
          \<open>auto simp: set_at_def add.commute\<close>)
    then show ?case unfolding t
      by (cases "head_ref config layer_idx pos cache dh q n") (simp_all add: rbind_assoc)
  qed
qed simp

lemma attention_all_heads_ref:
  assumes config: "head_dim config = Ok dh" "head_count_kv config \<noteq> 0" "head_count_kv config \<le> head_count config"
    and len: "length q = head_count config * dh" "length attn = head_count config * dh"
      "length ss = head_count config * mc" "length ps = head_count config * mc" and pos: "pos < mc"
    and fits: "head_count config * dh \<le> usize_max" "head_count config * mc \<le> usize_max"
  shows "rel_res (\<lambda>(a, s, p) a'. a = a' \<and> length a = length attn \<and> length s = length ss \<and> length p = length ps)
      (attention_all_heads config layer_idx pos cache q attn ss ps mc)
      (attention_ref config layer_idx pos cache dh q)"
proof -
  have "attention_all_heads config layer_idx pos cache q attn ss ps mc =
      rfold (attention_head_step config layer_idx pos cache q dh mc) [0..<head_count config] (attn, ss, ps)"
    using assms by (simp add: attention_all_heads_def attention_all_heads_sequential_def checked_len_def checked_mul_usize_def)
  then show ?thesis
    using attention_loop [OF config len pos order.refl, of layer_idx cache] len
    unfolding attention_ref_def
    by (cases "traverse (head_ref config layer_idx pos cache dh q) [0..<head_count config]";
        cases "rfold (attention_head_step config layer_idx pos cache q dh mc) [0..<head_count config] (attn, ss, ps)")
      (auto dest!: concat_uniform simp del: length_concat)
qed


section \<open>Layers\<close>

text \<open>The buffers of a workspace have their lengths, and the residual stream is \<open>x\<close>.\<close>

definition buffers_ok :: "llama_config \<Rightarrow> nat \<Rightarrow> nat \<Rightarrow> workspace \<Rightarrow> bool" where
  "buffers_ok config dh mc ws \<longleftrightarrow> ws_max_context ws = mc \<and> config_eq (ws_config ws) config \<and> ws_head_dim ws = dh \<and>
    length (ws_x ws) = embedding_length config \<and> length (ws_h ws) = embedding_length config \<and>
    length (ws_q ws) = head_count config * dh \<and> length (ws_k ws) = head_count_kv config * dh \<and>
    length (ws_v ws) = head_count_kv config * dh \<and> length (ws_attn ws) = head_count config * dh \<and>
    length (ws_scores ws) = head_count config * mc \<and> length (ws_probs ws) = head_count config * mc \<and>
    length (ws_tmp_d ws) = embedding_length config \<and> length (ws_gate ws) = feed_forward_length config \<and>
    length (ws_up ws) = feed_forward_length config \<and> length (ws_ff ws) = feed_forward_length config"

lemma workspace_validate_for_Ok:
  assumes "head_dim config = Ok dh"
  shows "workspace_validate_for ws config vocab pos = Ok u \<longleftrightarrow> buffers_ok config dh (ws_max_context ws) ws \<and> vocab \<noteq> 0 \<and>
    pos < ws_max_context ws \<and> head_count config * dh \<le> usize_max \<and> head_count_kv config * dh \<le> usize_max \<and>
    head_count config * ws_max_context ws \<le> usize_max"
  by (auto simp: workspace_validate_for_def assms checked_len_Ok buffers_ok_def Let_def)

text \<open>What the layout check establishes for a layer.\<close>

definition layer_ok :: "llama_config \<Rightarrow> nat \<Rightarrow> layer_weights \<Rightarrow> bool" where
  "layer_ok config dh layer \<longleftrightarrow> layer_layout config dh layer = Ok ()"

lemma layer_ok_facts:
  assumes "layer_ok config dh layer"
  shows "rows (wq layer) = head_count config * dh" "cols (wq layer) = embedding_length config"
    "rows (wk layer) = head_count_kv config * dh" "cols (wk layer) = embedding_length config"
    "rows (wv layer) = head_count_kv config * dh" "cols (wv layer) = embedding_length config"
    "rows (wo layer) = embedding_length config" "rows (w_gate layer) = feed_forward_length config"
    "cols (w_gate layer) = embedding_length config" "rows (w_up layer) = feed_forward_length config"
    "cols (w_up layer) = embedding_length config" "rows (w_down layer) = embedding_length config"
    "wm_validate_shape (wq layer) = Ok ()" "wm_validate_shape (wk layer) = Ok ()" "wm_validate_shape (wv layer) = Ok ()"
    "wm_validate_shape (w_gate layer) = Ok ()" "wm_validate_shape (w_up layer) = Ok ()"
  using assms by (auto simp: layer_ok_def layer_layout_def Let_def split: if_splits)

lemma needs_q8a_cols: "needs_q8a w \<Longrightarrow> wm_validate_shape w = Ok () \<Longrightarrow> 0 < cols w \<and> cols w mod 32 = 0"
  by (cases w) (auto simp: validate_quant_matrix_shape_def qm_shape_Ok BLOCK_def Q4K_BLOCK_def
      intro: dvd_trans [of 32 256])

lemma quant_q8a_total:
  "x \<noteq> [] \<Longrightarrow> length x mod 32 = 0 \<Longrightarrow> list_all f32_is_finite x \<Longrightarrow> \<exists>q. quant_q8a x = Ok q"
  using traverse_chunks [of 32 x, OF _ _ q8a_block_result]
  by (auto simp: quant_q8a_def quantize_q8a_into_def BLOCK_def list_all_iff)

text \<open>The shared quantised input exists whenever a product asks for it.\<close>

lemma shared_q8a_total:
  assumes "list_all (\<lambda>w. wm_validate_shape w = Ok () \<and> cols w = length h) ws" "list_all f32_is_finite h"
  shows "\<exists>qx q. shared_q8a ws h scratch = Ok (qx, q) \<and> (\<forall>w \<in> set ws. needs_q8a w \<longrightarrow> (\<exists>q. qx = Some q \<and> quant_q8a h = Ok q))"
proof (cases "list_ex needs_q8a ws")
  case True
  then obtain w where w: "w \<in> set ws" "needs_q8a w" by (auto simp: list_ex_iff)
  then have "0 < length h \<and> length h mod 32 = 0" using needs_q8a_cols [of w] assms(1) by (auto simp: list_all_iff)
  then obtain q where "quant_q8a h = Ok q" using quant_q8a_total assms(2) by fastforce
  then show ?thesis using True by (simp add: shared_q8a_def)
next
  case False
  then show ?thesis by (auto simp: shared_q8a_def list_ex_iff)
qed

text \<open>Steps on buffers against steps on fresh vectors.\<close>

lemma same_step: "(\<And>v. m = Ok v \<Longrightarrow> P v) \<Longrightarrow> rel_res (\<lambda>v v'. v = v' \<and> P v) m m"
  by (cases m) auto

lemma rmsnorm_step:
  assumes "length out = length x"
  shows "rel_res (\<lambda>h h'. h = h' \<and> fvec (length x) h) (rmsnorm x w e out) (rmsnorm x w e (zeros (length x)))"
proof -
  have "rmsnorm x w e out = rmsnorm x w e (zeros (length x))" by (rule rmsnorm_fresh) (simp add: assms)
  then show ?thesis using rmsnorm_yields [of x w e "zeros (length x)"] by (auto intro!: same_step)
qed

lemma swiglu_step:
  assumes "length out = n"
  shows "rel_res (\<lambda>h h'. h = h' \<and> length h = length g) (swiglu g u out) (swiglu g u (zeros n))"
proof -
  have "swiglu g u out = swiglu g u (zeros n)" by (rule swiglu_fresh) (simp add: assms)
  then show ?thesis by (auto intro!: same_step dest: kernel_lengths(2))
qed

lemma in_place_steps:
  "rel_res (\<lambda>v v'. v = v' \<and> length v = length x) (add_optional_bias x b) (add_optional_bias x b)"
  "rel_res (\<lambda>v v'. v = v' \<and> length v = length x) (apply_rope x heads dh pos rope) (apply_rope x heads dh pos rope)"
  "rel_res (\<lambda>v v'. v = v' \<and> length v = length x) (residual_add x y) (residual_add x y)"
  by (rule same_step, erule kernel_lengths apply_rope_length)+

lemma product_length: "product_ref w x = Ok v \<Longrightarrow> length v = rows w"
  by (simp add: product_ref_def wm_gemv_length)

lemma shared_step:
  assumes "needs_q8a w \<Longrightarrow> \<exists>q. qx = Some q \<and> quant_q8a x = Ok q" "length out = rows w"
  shows "rel_res (\<lambda>(v, _) v'. v = v' \<and> length v = rows w) (gemv_with_optional_q8a_and_q8k_scratch w x qx q8k out) (product_ref w x)"
proof -
  have "wm_gemv_validated w x out = product_ref w x" unfolding product_ref_def by (rule gemv_fresh) (simp add: assms(2))
  with gemv_shared [where w = w and x = x and qx = qx and ?q8k = q8k and out = out, OF assms(1)] show ?thesis
    by (cases "gemv_with_optional_q8a_and_q8k_scratch w x qx q8k out"; cases "product_ref w x")
      (auto dest: product_length)
qed

lemma scratch_step:
  assumes "length out = rows w"
  shows "rel_res (\<lambda>(v, _) v'. v = v' \<and> length v = rows w) (gemv_with_quant_scratch w x q8a q8k out) (product_ref w x)"
proof -
  have "wm_gemv_validated w x out = product_ref w x" unfolding product_ref_def by (rule gemv_fresh) (simp add: assms)
  with gemv_scratch [of w x q8a q8k out] show ?thesis
    by (cases "gemv_with_quant_scratch w x q8a q8k out"; cases "product_ref w x") (auto dest: product_length)
qed


text \<open>What the checks on the configuration establish.\<close>

definition config_ok :: "llama_config \<Rightarrow> nat \<Rightarrow> bool" where
  "config_ok config dh \<longleftrightarrow> head_dim config = Ok dh \<and> 0 < dh \<and> head_count_kv config \<noteq> 0 \<and>
    head_count_kv config \<le> head_count config \<and> head_count config * dh = embedding_length config \<and>
    head_count config * dh \<le> usize_max"

lemma attention_block_refines:
  assumes config: "config_ok config dh" and layer: "layer_ok config dh layer" and ws: "buffers_ok config dh mc ws"
    and mc: "pos < mc" "head_count config * mc \<le> usize_max"
  shows "rel_res (\<lambda>(ws', c') (x', c''). buffers_ok config dh mc ws' \<and> ws_x ws' = x' \<and> c' = c'')
    (attention_block config dh pos rope i layer (ws, cache)) (attention_block_ref config dh pos rope i layer (ws_x ws, cache))"
  unfolding attention_block_def attention_block_ref_def prod.case
proof (rule rel_res_bind [OF rmsnorm_step], goal_cases)
  case 1
  then show ?case using ws by (simp add: buffers_ok_def)
next
  case (2 h h')
  note lf = layer_ok_facts [OF layer]
  have h: "h' = h" "length h = embedding_length config" "list_all f32_is_finite h"
    using 2(3) ws by (auto simp: buffers_ok_def fvec_def)
  obtain qx q0 where qx: "shared_q8a [wq layer, wk layer, wv layer] h (ws_q8a ws) = Ok (qx, q0)"
    "\<forall>w \<in> set [wq layer, wk layer, wv layer]. needs_q8a w \<longrightarrow> (\<exists>q. qx = Some q \<and> quant_q8a h = Ok q)"
    using shared_q8a_total [of h "[wq layer, wk layer, wv layer]" "ws_q8a ws"] h lf by auto
  show ?case
    using ws unfolding buffers_ok_def h(1)
    apply (simp add: Let_def qx(1))
    apply (rule rel_res_bind [OF shared_step], use qx(2) in simp, simp add: lf, clarsimp,
        rule rel_res_bind [OF in_place_steps(1)], clarsimp)+
    apply (rule rel_res_bind [OF in_place_steps(2)], clarsimp)+
    apply (rule rel_res_bind_same)
    apply (rule rel_res_bind [OF attention_all_heads_ref])
      using config mc apply (simp_all add: config_ok_def lf)
    apply (clarsimp, rule rel_res_bind [OF scratch_step], simp add: lf)
    by (clarsimp, rule rel_res_bind [OF in_place_steps(3)]) (clarsimp simp: lf h(2))
qed

lemma feed_forward_refines:
  assumes layer: "layer_ok config dh layer" and ws: "buffers_ok config dh mc ws"
  shows "rel_res (\<lambda>ws' x'. buffers_ok config dh mc ws' \<and> ws_x ws' = x')
    (feed_forward_block config layer ws) (feed_forward_ref config layer (ws_x ws))"
  unfolding feed_forward_block_def feed_forward_ref_def
proof (rule rel_res_bind [OF rmsnorm_step], goal_cases)
  case 1
  then show ?case using ws by (simp add: buffers_ok_def)
next
  case (2 h h')
  note lf = layer_ok_facts [OF layer]
  have h: "h' = h" "length h = embedding_length config" "list_all f32_is_finite h"
    using 2(3) ws by (auto simp: buffers_ok_def fvec_def)
  obtain qx q0 where qx: "shared_q8a [w_gate layer, w_up layer] h (ws_q8a ws) = Ok (qx, q0)"
    "\<forall>w \<in> set [w_gate layer, w_up layer]. needs_q8a w \<longrightarrow> (\<exists>q. qx = Some q \<and> quant_q8a h = Ok q)"
    using shared_q8a_total [of h "[w_gate layer, w_up layer]" "ws_q8a ws"] h lf by auto
  show ?case
    using ws unfolding buffers_ok_def h(1)
    apply (simp add: Let_def qx(1))
    apply (rule rel_res_bind [OF shared_step], use qx(2) in simp, simp add: lf, clarsimp)+
    apply (rule rel_res_bind [OF swiglu_step], simp add: lf)
    apply (clarsimp, rule rel_res_bind [OF scratch_step], simp add: lf)
    by (clarsimp, rule rel_res_bind [where f' = Ok, OF in_place_steps(3), unfolded rbind_Ok_right]) (clarsimp simp: lf h(2))
qed


lemma layer_refines:
  assumes "config_ok config dh" "layer_ok config dh layer" "buffers_ok config dh mc ws" "pos < mc" "head_count config * mc \<le> usize_max"
  shows "rel_res (\<lambda>(ws', c') (x', c''). buffers_ok config dh mc ws' \<and> ws_x ws' = x' \<and> c' = c'')
    (layer_step config dh pos rope (i, layer) (ws, cache)) (layer_ref config dh pos rope (i, layer) (ws_x ws, cache))"
  unfolding layer_step_def layer_ref_def prod.case
proof (rule rel_res_bind [OF attention_block_refines [OF assms]], clarsimp, goal_cases)
  case (1 ws' c')
  show ?case by (rule rel_res_bind [OF feed_forward_refines [OF assms(2) 1(3)]]) simp
qed

lemma layers_refine:
  assumes "config_ok config dh" "pos < mc" "head_count config * mc \<le> usize_max"
  shows "list_all (layer_ok config dh) layers \<Longrightarrow> buffers_ok config dh mc ws \<Longrightarrow>
    rel_res (\<lambda>(ws', c') (x', c''). buffers_ok config dh mc ws' \<and> ws_x ws' = x' \<and> c' = c'')
      (rfold (layer_step config dh pos rope) (enumerate i layers) (ws, cache))
      (rfold (layer_ref config dh pos rope) (enumerate i layers) (ws_x ws, cache))"
proof (induction layers arbitrary: i ws cache)
  case (Cons layer layers)
  then have layer: "layer_ok config dh layer" by simp
  show ?case unfolding enumerate_simps rfold.simps
    by (rule rel_res_bind [OF layer_refines [OF assms(1) layer Cons.prems(2) assms(2,3)]]) (use Cons in auto)
qed simp

section \<open>The whole step\<close>

lemma validate_layout_facts:
  assumes "validate_layout m = Ok ()"
  shows "\<exists>dh. head_dim (ll_config m) = Ok dh \<and> config_validate (ll_config m) = Ok () \<and> 0 < dh \<and>
    length (ll_layers m) = block_count (ll_config m) \<and> list_all (layer_ok (ll_config m) dh) (ll_layers m) \<and>
    cols (token_embedding m) = embedding_length (ll_config m) \<and> rows (ll_output m) = rows (token_embedding m) \<and>
    head_count_kv (ll_config m) \<noteq> 0 \<and> head_count_kv (ll_config m) \<le> head_count (ll_config m) \<and>
    head_count (ll_config m) * dh = embedding_length (ll_config m)"
proof -
  have layers: "rfold (\<lambda>layer _. layer_layout c dh layer) ls () = Ok () \<longleftrightarrow> list_all (layer_ok c dh) ls" for c dh ls
    by (induction ls) (auto simp: layer_ok_def)
  have config: "config_validate c = Ok () \<Longrightarrow> head_dim c = Ok dh \<Longrightarrow> 0 < dh \<and> head_count_kv c \<noteq> 0 \<and>
      head_count_kv c \<le> head_count c \<and> head_count c * dh = embedding_length c" for c dh
    by (auto simp: config_validate_def head_dim_def dvd_imp_le split: if_splits)
  show ?thesis using assms config by (auto simp: validate_layout_def Let_def layers split: if_splits)
qed

lemma forward_checks_Ok:
  assumes "forward_checks m token pos rope cache n = Ok dh"
  shows "validate_layout m = Ok ()" "head_dim (ll_config m) = Ok dh" "pos < context_length (ll_config m)"
    "n = rows (ll_output m)" "token < rows (token_embedding m)" "config_eq (kv_config cache) (ll_config m)"
    "half_head_dim rope * 2 = rope_dimension_count (ll_config m)"
  using assms by (auto simp: forward_checks_def split: if_splits)

text \<open>The step, workspace included.\<close>

lemma forward_refines:
  "rel_res (\<lambda>(c, l, ws') (c', l'). c = c' \<and> l = l' \<and> length l = length logits \<and> ws_max_context ws' = ws_max_context ws \<and>
      (\<forall>dh. head_dim (ll_config m) = Ok dh \<longrightarrow> buffers_ok (ll_config m) dh (ws_max_context ws) ws'))
    (forward_one_with_workspace m token pos rope cache logits ws)
    (rbind (forward_checks m token pos rope cache (length logits)) (\<lambda>dh.
     rbind (workspace_validate_for ws (ll_config m) (rows (ll_output m)) pos) (\<lambda>_.
     forward_ref m dh token pos rope cache)))"
  unfolding forward_one_with_workspace_def
proof (intro rel_res_bind_same, goal_cases)
  case (1 dh u)
  note checks = forward_checks_Ok [OF 1(1)]
  have ws: "buffers_ok (ll_config m) dh (ws_max_context ws) ws" "pos < ws_max_context ws"
    "head_count (ll_config m) * dh \<le> usize_max" "head_count (ll_config m) * ws_max_context ws \<le> usize_max"
    using 1(2) by (simp_all add: workspace_validate_for_Ok [OF checks(2)])
  have layout: "config_ok (ll_config m) dh" "list_all (layer_ok (ll_config m) dh) (ll_layers m)"
    "cols (token_embedding m) = embedding_length (ll_config m)"
    using validate_layout_facts [OF checks(1)] checks(2) ws(3) by (auto simp: config_ok_def)
  have row: "write_row_validated (token_embedding m) token (ws_x ws) =
      write_row_validated (token_embedding m) token (zeros (cols (token_embedding m)))"
    by (rule row_fresh) (use ws(1) layout(3) in \<open>simp add: buffers_ok_def\<close>)
  show ?case unfolding forward_ref_def row Let_def
  proof (rule rel_res_bind_same, goal_cases)
    case (1 x)
    then have x: "length x = embedding_length (ll_config m)" using row_length layout(3) by fastforce
    then have "buffers_ok (ll_config m) dh (ws_max_context ws) (ws\<lparr>ws_x := x\<rparr>)" using ws(1) by (simp add: buffers_ok_def)
    note loop = layers_refine [OF layout(1) ws(2,4) layout(2) this, of rope 0 cache]
    have fin: "length logits = rows (ll_output m)" by (rule checks(4))
    show ?case
      using checks(2) unfolding buffers_ok_def
      apply (rule_tac rel_res_bind [OF loop [simplified]])
      apply (clarsimp, rule rel_res_bind [OF rmsnorm_step], simp add: buffers_ok_def)
      apply (clarsimp, rule rel_res_bind [OF scratch_step], simp add: fin)
      by (clarsimp simp: fin buffers_ok_def fvec_def)
  qed
qed


text \<open>C8: one step with a workspace and shared quantised inputs computes what the reference step
  computes, on every model, token, position and cache and in every outcome; the old content of
  the buffers and of the logits has no influence.\<close>

theorem step_equals_reference:
  "rbind (forward_one_with_workspace m token pos rope cache logits ws) (\<lambda>(c, l, _). Ok (c, l)) =
    rbind (forward_checks m token pos rope cache (length logits)) (\<lambda>dh.
    rbind (workspace_validate_for ws (ll_config m) (rows (ll_output m)) pos) (\<lambda>_.
    forward_ref m dh token pos rope cache))"
proof -
  have eq: "rel_res (\<lambda>(c, l, ws') (c', l'). c = c' \<and> l = l' \<and> P c l ws') r r' \<Longrightarrow> rbind r (\<lambda>(c, l, _). Ok (c, l)) = r'"
    for P and r :: "(kv_cache \<times> f32 list \<times> workspace) mres" and r'
    by (cases r; cases r') auto
  show ?thesis by (rule eq [OF forward_refines])
qed

section \<open>No step panics\<close>

text \<open>The array lengths inside all weight blocks, which the types of the code carry.\<close>

definition layer_wf :: "layer_weights \<Rightarrow> bool" where
  "layer_wf layer \<longleftrightarrow> wm_ok (wq layer) \<and> wm_ok (wk layer) \<and> wm_ok (wv layer) \<and> wm_ok (wo layer) \<and>
    wm_ok (w_gate layer) \<and> wm_ok (w_up layer) \<and> wm_ok (w_down layer)"

definition llama_wf :: "llama \<Rightarrow> bool" where
  "llama_wf m \<longleftrightarrow> wm_ok (token_embedding m) \<and> wm_ok (ll_output m) \<and> list_all layer_wf (ll_layers m)"

text \<open>A cache of the model's shape.\<close>

definition cache_ok :: "llama_config \<Rightarrow> nat \<Rightarrow> kv_cache \<Rightarrow> bool" where
  "cache_ok config dh c \<longleftrightarrow> kv_ok c \<and> config_eq (kv_config c) config \<and> kv_head_dim c = dh"

lemma product_yields: "wm_ok w \<Longrightarrow> yields (fvec (rows w)) (product_ref w x)"
  unfolding product_ref_def by (rule wm_gemv_validated_yields)

lemma kv_head_less:
  assumes "head < hc" "hc mod kvc = 0" "kvc \<noteq> (0 :: nat)"
  shows "head div (hc div kvc) < kvc"
proof -
  have "hc = kvc * (hc div kvc)" using assms(2) by auto
  then show ?thesis using assms(1) by (simp add: less_mult_imp_div_less mult.commute)
qed

lemma windows:
  assumes "cache_ok config dh c" "l < block_count config" "h < head_count_kv config" "pos < context_length config"
  shows "\<exists>ks vs. key_prefix c l h (pos + 1) = Ok ks \<and> value_prefix c l h (pos + 1) = Ok vs \<and>
    length ks = (pos + 1) * dh \<and> length vs = (pos + 1) * dh"
proof -
  have c: "kv_ok c" "kv_in c l h 0" "pos + 1 \<le> context_length (kv_config c)" "kv_head_dim c = dh"
    using assms by (auto simp: cache_ok_def kv_in_def config_eq_def)
  have "length (kv_v c) = length (kv_k c)" using c(1) by (simp add: kv_ok_def)
  then show ?thesis unfolding key_prefix_def value_prefix_def
    using kv_prefix_Ok [OF c(1,2) _ c(3), of "kv_k c"] kv_prefix_Ok [OF c(1,2) _ c(3), of "kv_v c"] c(4) by simp
qed

lemma attention_ref_yields:
  assumes "cache_ok config dh c" "l < block_count config" "pos < context_length config"
    "head_count config mod head_count_kv config = 0" "head_count_kv config \<noteq> 0"
  shows "yields (\<lambda>_. True) (attention_ref config l pos c dh q)"
proof -
  have "yields (\<lambda>_. True) (head_ref config l pos c dh q head)" if head: "head < head_count config" for head
  proof -
    obtain ks vs where w: "key_prefix c l (head div (head_count config div head_count_kv config)) (pos + 1) = Ok ks"
      "value_prefix c l (head div (head_count config div head_count_kv config)) (pos + 1) = Ok vs"
      "length vs = (pos + 1) * dh"
      using windows [OF assms(1,2) kv_head_less [OF head assms(4,5)] assms(3)] by blast
    show ?thesis unfolding head_ref_def Let_def w(1,2) rbind.simps
      using w(3) by (auto intro!: yields_bind [OF scores_yields] yields_bind [OF softmax_yields] yields_any [OF weighted_yields])
  qed
  then show ?thesis unfolding attention_ref_def
    by (intro yields_bind [OF yields_any [OF yields_traverse [where P = "\<lambda>_. True"]]]) auto
qed

lemma cache_store_yields:
  assumes "cache_ok config dh c" "l < block_count config" "pos < context_length config"
  shows "yields (cache_ok config dh) (kv_store c l pos k v)"
  by (rule yields_mono [OF kv_store_cases])
    (use assms in \<open>auto simp: cache_ok_def kv_stored_def config_eq_def\<close>)

lemma layer_ref_yields:
  assumes "cache_ok config dh c" "l < block_count config" "pos < context_length config"
    "head_count config mod head_count_kv config = 0" "head_count_kv config \<noteq> 0" "layer_wf layer"
  shows "yields (\<lambda>(x, c). cache_ok config dh c) (layer_ref config dh pos rope (l, layer) (x, c))"
proof -
  have wf: "wm_ok (wq layer)" "wm_ok (wk layer)" "wm_ok (wv layer)" "wm_ok (wo layer)" "wm_ok (w_gate layer)"
    "wm_ok (w_up layer)" "wm_ok (w_down layer)" using assms(6) by (simp_all add: layer_wf_def)
  note steps = yields_bind [OF rmsnorm_yields] yields_bind [OF product_yields] yields_bind [OF add_optional_bias_yields]
    yields_bind [OF apply_rope_yields] yields_bind [OF residual_add_yields] yields_bind [OF swiglu_yields]
    yields_bind [OF cache_store_yields [OF assms(1-3)]]
  have ff: "yields (\<lambda>_. True) (feed_forward_ref config layer x)" for x
    unfolding feed_forward_ref_def by (intro steps yields_any [OF residual_add_yields] wf)
  have attn: "yields (\<lambda>(x, c). cache_ok config dh c) (attention_block_ref config dh pos rope l layer (x, c))"
    unfolding attention_block_ref_def prod.case
    by (intro steps wf | assumption | rule yields_bind [OF attention_ref_yields] assms | simp)+
  show ?thesis unfolding layer_ref_def prod.case
    by (rule yields_bind [OF attn]) (auto intro!: yields_bind [OF ff])
qed


lemma layout_yields: "yields (\<lambda>_. True) (validate_layout m)"
proof -
  have layer: "yields (\<lambda>_. True) (layer_layout c dh l)" for c dh l
    unfolding layer_layout_def Let_def by (simp, intro impI yields_bind [OF shape_yields(1)] shape_yields(1))
  have "yields (\<lambda>_. True) (rfold (\<lambda>l _. layer_layout c dh l) ls u)" for c dh ls u
    by (rule yields_rfold) (simp_all add: layer)
  moreover have "yields (\<lambda>_. True) (head_dim c)" for c by (simp add: head_dim_def)
  moreover have "yields (\<lambda>_. True) (config_validate c)" for c
    unfolding config_validate_def by (simp, intro impI yields_bind [where Q = "\<lambda>_. True"]) (simp_all add: head_dim_def)
  ultimately show ?thesis unfolding validate_layout_def Let_def
    by (intro yields_bind [where Q = "\<lambda>_. True"]) (auto intro!: yields_bind [OF shape_yields(1)])
qed

text \<open>The overflow at the head of a step: all earlier checks pass, and the tables are so wide that
  \<open>half_head_dim * 2\<close> is no \<open>usize\<close>. The fields of \<open>RopeTables\<close> are public, so a caller can pass such
  tables; those that \<open>RopeTables::llama\<close> builds have twice their half width in a \<open>usize\<close> already.\<close>

definition rope_overflows :: "llama \<Rightarrow> nat \<Rightarrow> nat \<Rightarrow> rope_tables \<Rightarrow> kv_cache \<Rightarrow> nat \<Rightarrow> bool" where
  "rope_overflows m token pos rope cache logits_len \<longleftrightarrow>
    validate_layout m = Ok () \<and> pos < context_length (ll_config m) \<and> logits_len = rows (ll_output m) \<and>
    token < rows (token_embedding m) \<and> config_eq (kv_config cache) (ll_config m) \<and> pos < rt_positions rope \<and>
    usize_max < half_head_dim rope * 2"

lemma forward_checks_overflow: "rope_overflows m token pos rope cache n \<Longrightarrow> forward_checks m token pos rope cache n = Panic"
  by (simp add: forward_checks_def rope_overflows_def)

lemma forward_checks_yields: "\<not> rope_overflows m token pos rope cache n \<Longrightarrow> yields (\<lambda>_. True) (forward_checks m token pos rope cache n)"
  unfolding forward_checks_def
  by (rule yields_bind_eq [OF layout_yields]) (auto simp: rope_overflows_def head_dim_def)

lemma workspace_checks_yield: "yields (\<lambda>_. True) (workspace_validate_for ws config vocab pos)"
  unfolding workspace_validate_for_def Let_def
  by (intro yields_bind [where Q = "\<lambda>_. True"] yields_any [OF checked_len_yields]) (simp_all add: head_dim_def)

lemma forward_ref_yields:
  assumes checks: "forward_checks m token pos rope cache n = Ok dh" and wf: "llama_wf m" and cache: "cache_ok (ll_config m) dh cache"
  shows "yields (\<lambda>(c, l). cache_ok (ll_config m) dh c \<and> fvec (rows (ll_output m)) l) (forward_ref m dh token pos rope cache)"
proof -
  note pre = forward_checks_Ok [OF checks]
  have layout: "length (ll_layers m) = block_count (ll_config m)" "head_count_kv (ll_config m) \<noteq> 0"
    "head_count (ll_config m) mod head_count_kv (ll_config m) = 0"
    using validate_layout_facts [OF pre(1)] by (auto simp: config_validate_def split: if_splits)
  have wf': "wm_ok (token_embedding m)" "wm_ok (ll_output m)" using wf by (simp_all add: llama_wf_def)
  have layers: "yields (\<lambda>(x, c). cache_ok (ll_config m) dh c) (rfold (layer_ref (ll_config m) dh pos rope) (enumerate 0 (ll_layers m)) (x, cache))" for x
  proof (rule yields_rfold)
    fix il and s :: "f32 list \<times> kv_cache"
    assume mem: "il \<in> set (enumerate 0 (ll_layers m))" and s: "case s of (x, c) \<Rightarrow> cache_ok (ll_config m) dh c"
    obtain i layer x c where eq: "il = (i, layer)" "s = (x, c)" by (metis surj_pair)
    have i: "i < block_count (ll_config m)" "layer \<in> set (ll_layers m)"
      using mem layout(1) by (auto simp: eq in_set_enumerate_eq)
    show "yields (\<lambda>(x, c). cache_ok (ll_config m) dh c) (layer_ref (ll_config m) dh pos rope il s)"
      unfolding eq
      by (rule layer_ref_yields) (use s i layout pre(3) wf in \<open>auto simp: eq llama_wf_def list_all_iff\<close>)
  qed (simp add: cache)
  show ?thesis unfolding forward_ref_def
    by (rule yields_bind [OF write_row_yields [OF wf'(1)]], rule yields_bind [OF layers])
      (auto intro!: yields_bind [OF rmsnorm_yields] yields_bind [OF product_yields [OF wf'(2)]])
qed

text \<open>C9: a forward step panics in one case only. On a model whose blocks have the array lengths of
  their types, on any token, position, rotary tables and workspace and on any cache that was created
  for a configuration and written by the cache operations, a step ends in an error value or returns
  one finite logit for each entry of the vocabulary and a cache that is well formed again, unless a
  caller supplied tables whose half width times two is no \<open>usize\<close> and the step gets as far as the
  plain multiplication with it: then, and only then, it panics.\<close>

theorem forward_step_safe:
  assumes "llama_wf m" "kv_ok cache" "head_dim (kv_config cache) = Ok (kv_head_dim cache)"
  shows "if rope_overflows m token pos rope cache (length logits)
    then forward_one_with_workspace m token pos rope cache logits ws = Panic
    else yields (\<lambda>(c, l, _). kv_ok c \<and> kv_head_dim c = kv_head_dim cache \<and> length l = rows (ll_output m) \<and> list_all f32_is_finite l)
      (forward_one_with_workspace m token pos rope cache logits ws)"
proof (cases "rope_overflows m token pos rope cache (length logits)")
  case True
  then show ?thesis by (simp add: forward_one_with_workspace_def forward_checks_overflow)
next
  case False
  have ref: "yields (\<lambda>(c, l). kv_ok c \<and> kv_head_dim c = kv_head_dim cache \<and> length l = rows (ll_output m) \<and> list_all f32_is_finite l)
    (rbind (forward_checks m token pos rope cache (length logits)) (\<lambda>dh.
     rbind (workspace_validate_for ws (ll_config m) (rows (ll_output m)) pos) (\<lambda>_.
     forward_ref m dh token pos rope cache)))"
  proof (rule yields_bind_eq [OF forward_checks_yields [OF False]], rule yields_bind [OF workspace_checks_yield])
    fix dh assume checks: "forward_checks m token pos rope cache (length logits) = Ok dh"
    note pre = forward_checks_Ok [OF checks]
    have "head_dim (kv_config cache) = head_dim (ll_config m)" using pre(6) by (simp add: head_dim_def config_eq_def)
    then have dh: "cache_ok (ll_config m) dh cache" "dh = kv_head_dim cache" using assms(2,3) pre(2,6) by (simp_all add: cache_ok_def)
    show "yields (\<lambda>(c, l). kv_ok c \<and> kv_head_dim c = kv_head_dim cache \<and> length l = rows (ll_output m) \<and> list_all f32_is_finite l)
        (forward_ref m dh token pos rope cache)"
      by (rule yields_mono [OF forward_ref_yields [OF checks assms(1) dh(1)]]) (auto simp: cache_ok_def fvec_def dh(2))
  qed
  have transfer: "rel_res (\<lambda>(c, l, ws') (c', l'). c = c' \<and> l = l' \<and> P c l ws') r r' \<Longrightarrow> yields (\<lambda>(c, l). Q c l) r' \<Longrightarrow>
      yields (\<lambda>(c, l, _). Q c l) r" for P Q and r :: "(kv_cache \<times> f32 list \<times> workspace) mres" and r'
    by (cases r; cases r') auto
  show ?thesis using transfer [OF forward_refines ref] False by simp
qed

text \<open>A model with one layer of floating-point weights.\<close>

definition tiny_matrix :: "nat \<Rightarrow> nat \<Rightarrow> weight_matrix" where
  "tiny_matrix r c = WF32 \<lparr>fm_rows = r, fm_cols = c, fm_data = replicate (r * c) 0x3f800000\<rparr>"

definition tiny_llama :: llama where
  "tiny_llama = \<lparr>ll_config = tiny_config, token_embedding = tiny_matrix 3 2,
    ll_layers = [\<lparr>attention_norm = [0x3f800000, 0x3f800000], wq = tiny_matrix 2 2, attn_q_bias = None, wk = tiny_matrix 2 2,
      attn_k_bias = None, wv = tiny_matrix 2 2, attn_v_bias = None, wo = tiny_matrix 2 2, ffn_norm = [0x3f800000, 0x3f800000],
      w_gate = tiny_matrix 1 2, w_up = tiny_matrix 1 2, w_down = tiny_matrix 2 1\<rparr>],
    output_norm = [0x3f800000, 0x3f800000], ll_output = tiny_matrix 3 2\<rparr>"

lemma tiny_llama_wf: "llama_wf tiny_llama"
  by (simp add: llama_wf_def layer_wf_def tiny_llama_def tiny_matrix_def)

theorem forward_step_safe_witness:
  "\<forall>ws. yields (\<lambda>(c, l, _). length l = 3 \<and> list_all f32_is_finite l)
    (forward_one_with_workspace tiny_llama 0 0 \<lparr>rt_positions = 1, half_head_dim = 1, rt_pairing = Adjacent, rt_cos = [0x3f800000], rt_sin = [0]\<rparr>
      \<lparr>kv_config = tiny_config, kv_head_dim = 2, kv_k = [0, 0, 0, 0], kv_v = [0, 0, 0, 0]\<rparr> [0, 0, 0] ws)"
proof
  fix ws
  let ?c = "\<lparr>kv_config = tiny_config, kv_head_dim = 2, kv_k = [0, 0, 0, 0], kv_v = [0, 0, 0, 0]\<rparr> :: kv_cache"
  have "kv_ok ?c" by (simp add: kv_ok_def kv_cells_def tiny_config_def usize_max_def)
  then show "yields (\<lambda>(c, l, _). length l = 3 \<and> list_all f32_is_finite l)
    (forward_one_with_workspace tiny_llama 0 0 \<lparr>rt_positions = 1, half_head_dim = 1, rt_pairing = Adjacent, rt_cos = [0x3f800000], rt_sin = [0]\<rparr>
      ?c [0, 0, 0] ws)"
    using forward_step_safe [of tiny_llama ?c 0 0
        "\<lparr>rt_positions = 1, half_head_dim = 1, rt_pairing = Adjacent, rt_cos = [0x3f800000], rt_sin = [0]\<rparr>" "[0, 0, 0]" ws]
    by (auto simp: tiny_llama_wf tiny_config_valid usize_max_def rope_overflows_def elim!: yields_mono)
      (simp add: tiny_llama_def tiny_matrix_def)
qed

section \<open>Token sequences\<close>

text \<open>The run of the reference step over a token sequence.\<close>

definition visit_ref ::
  "llama \<Rightarrow> rope_tables \<Rightarrow> nat \<Rightarrow> (f32 list \<Rightarrow> 's \<Rightarrow> 's) \<Rightarrow> nat \<Rightarrow> nat \<times> kv_cache \<times> 's \<Rightarrow> (nat \<times> kv_cache \<times> 's) mres" where
  "visit_ref m rope dh visit token = (\<lambda>(pos, cache, acc).
    rbind (forward_ref m dh token pos rope cache) (\<lambda>(cache, logits). Ok (pos + 1, cache, visit logits acc)))"

lemma rfold_chunks:
  assumes "n \<noteq> 0"
  shows "rfold (\<lambda>chunk s. rfold f chunk s) (chunks n xs) s = rfold f xs s"
proof -
  have "rfold (\<lambda>chunk s. rfold f chunk s) cs s = rfold f (concat cs) s" for cs
    by (induction cs arbitrary: s) (simp_all add: rfold_append cong: rbind_cong)
  then show ?thesis by (simp add: concat_chunks [OF assms])
qed


lemma finite_eq_refl: "f32_is_finite x \<Longrightarrow> f32_eq x x"
  using f32_cmp_has(2) [of x _ x] by (auto simp: f32_has_finite)

lemma config_eq_refl: "config_validate c = Ok () \<Longrightarrow> config_eq c c"
  by (auto simp: config_validate_def config_eq_def finite_eq_refl split: if_splits)

text \<open>What a run needs of its tables and weights; all of it is established before the loop.\<close>

definition run_ok :: "llama \<Rightarrow> nat \<Rightarrow> nat \<Rightarrow> rope_tables \<Rightarrow> bool" where
  "run_ok m dh mc rope \<longleftrightarrow> llama_wf m \<and> validate_layout m = Ok () \<and> head_dim (ll_config m) = Ok dh \<and> rows (ll_output m) \<noteq> 0 \<and>
    mc \<le> context_length (ll_config m) \<and> mc \<le> rt_positions rope \<and> rt_pairing rope = rope_pairing (ll_config m) \<and>
    half_head_dim rope * 2 = rope_dimension_count (ll_config m) \<and> half_head_dim rope * 2 \<le> usize_max \<and>
    head_count (ll_config m) * dh \<le> usize_max \<and> head_count_kv (ll_config m) * dh \<le> usize_max \<and>
    head_count (ll_config m) * mc \<le> usize_max"

lemma run_checks:
  assumes "run_ok m dh mc rope" "pos < mc" "token < rows (token_embedding m)" "cache_ok (ll_config m) dh cache"
    "buffers_ok (ll_config m) dh mc ws"
  shows "forward_checks m token pos rope cache (rows (ll_output m)) = Ok dh"
    "workspace_validate_for ws (ll_config m) (rows (ll_output m)) pos = Ok ()"
proof -
  show "forward_checks m token pos rope cache (rows (ll_output m)) = Ok dh"
    using assms by (simp add: forward_checks_def run_ok_def cache_ok_def)
  have "head_dim (ll_config m) = Ok dh" "ws_max_context ws = mc" using assms by (simp_all add: run_ok_def buffers_ok_def)
  then show "workspace_validate_for ws (ll_config m) (rows (ll_output m)) pos = Ok ()"
    using assms by (simp add: workspace_validate_for_Ok run_ok_def)
qed

lemma visit_run:
  assumes run: "run_ok m dh mc rope"
  shows "list_all (\<lambda>t. t < rows (token_embedding m)) tokens \<Longrightarrow> pos + length tokens \<le> mc \<Longrightarrow>
    cache_ok (ll_config m) dh cache \<Longrightarrow> buffers_ok (ll_config m) dh mc ws \<Longrightarrow> length logits = rows (ll_output m) \<Longrightarrow>
    rel_res (\<lambda>(p, c, _, _, a) (p', c', a'). p = p' \<and> c = c' \<and> a = a')
      (rfold (visit_token m rope visit) tokens (pos, cache, logits, ws, acc))
      (rfold (visit_ref m rope dh visit) tokens (pos, cache, acc))"
proof (induction tokens arbitrary: pos cache ws logits acc)
  case (Cons t ts)
  have t: "t < rows (token_embedding m)" "pos < mc" using Cons.prems by simp_all
  have checks: "forward_checks m t pos rope cache (length logits) = Ok dh"
    "workspace_validate_for ws (ll_config m) (rows (ll_output m)) pos = Ok ()"
    using run_checks [OF run t(2,1) Cons.prems(3,4)] Cons.prems(5) by simp_all
  have mc: "ws_max_context ws = mc" and dh: "head_dim (ll_config m) = Ok dh" and wf: "llama_wf m"
    using Cons.prems(4) run by (simp_all add: buffers_ok_def run_ok_def)
  have step: "rel_res (\<lambda>(c, l, ws') (c', l'). c = c' \<and> l = l' \<and> length l = length logits \<and> ws_max_context ws' = ws_max_context ws \<and>
      (\<forall>dh. head_dim (ll_config m) = Ok dh \<longrightarrow> buffers_ok (ll_config m) dh (ws_max_context ws) ws'))
    (forward_one_with_workspace m t pos rope cache logits ws) (forward_ref m dh t pos rope cache)"
    using forward_refines [of logits ws m t pos rope cache] by (simp add: checks)
  show ?case unfolding rfold.simps visit_token_def visit_ref_def prod.case rbind_assoc
  proof (rule rel_res_bind [OF step], clarsimp simp: mc dh, goal_cases)
    case (1 ws' c l)
    have "cache_ok (ll_config m) dh c"
      using forward_ref_yields [OF checks(1) wf Cons.prems(3)] 1 by simp
    then show ?case
      using Cons.IH [of "Suc pos" c ws' l "visit l acc"] Cons.prems 1 by (simp add: visit_token_def visit_ref_def)
  qed
qed simp


text \<open>What the functions that prepare a run establish.\<close>

lemma rope_llama_facts:
  assumes "rope_llama config n = Ok rope"
  shows "rt_positions rope = n" "half_head_dim rope * 2 = rope_dimension_count config" "rt_pairing rope = rope_pairing config"
    "0 < n" "\<exists>dh. head_dim config = Ok dh \<and> rope_dimension_count config \<le> dh"
  using assms by (auto simp: rope_llama_def Let_def split: if_splits)

lemma workspace_new_ok:
  assumes "workspace_new config vocab mc = Ok ws" "head_dim config = Ok dh"
  shows "buffers_ok config dh mc ws" "vocab \<noteq> 0" "mc \<le> context_length config" "head_count config * dh \<le> usize_max"
    "head_count_kv config * dh \<le> usize_max" "head_count config * mc \<le> usize_max" "config_validate config = Ok ()"
  using assms config_eq_refl [of config]
  by (auto simp: workspace_new_def Let_def checked_len_Ok buffers_ok_def split: if_splits)

lemma run_prepared:
  assumes "rope_llama (ll_config m) n = Ok rope" "forward_workspace m n = Ok ws" "llama_wf m" "head_dim (ll_config m) = Ok dh"
  shows "run_ok m dh n rope" "buffers_ok (ll_config m) dh n ws"
proof -
  have new: "workspace_new (ll_config m) (rows (ll_output m)) n = Ok ws" and layout: "validate_layout m = Ok ()"
    using assms(2) by (auto simp: forward_workspace_def llama_validate_def)
  note ws = workspace_new_ok [OF new assms(4)] and rope = rope_llama_facts [OF assms(1)]
  show "buffers_ok (ll_config m) dh n ws" by (rule ws(1))
  have "head_count (ll_config m) \<noteq> 0" using ws(7) by (auto simp: config_validate_def split: if_splits)
  then have "dh \<le> head_count (ll_config m) * dh" by simp
  moreover have "rope_dimension_count (ll_config m) \<le> dh" using rope(5) assms(4) by auto
  ultimately have "rope_dimension_count (ll_config m) \<le> usize_max" using ws(4) by linarith
  then show "run_ok m dh n rope" unfolding run_ok_def using ws rope assms(3,4) layout by simp
qed

lemma kv_new_cache_ok: "kv_new config = Ok c \<Longrightarrow> head_dim config = Ok dh \<Longrightarrow> cache_ok config dh c"
  using kv_new_ok [of config c] config_eq_refl [of config] by (auto simp: cache_ok_def)

text \<open>C20: the logits of a token sequence are those of the reference step run token by token from an
  empty cache, whatever the size of the chunks in which the tokens are taken.\<close>

theorem visited_logits:
  assumes "llama_wf m" "chunk_size \<noteq> 0"
  shows "visit_logits_for_tokens_chunked m tokens chunk_size visit acc =
    rbind (validate_logits_request m tokens 1) (\<lambda>_.
    rbind (rope_llama (ll_config m) (length tokens)) (\<lambda>rope.
    rbind (kv_new (ll_config m)) (\<lambda>cache.
    rbind (forward_workspace m (length tokens)) (\<lambda>_.
    rbind (head_dim (ll_config m)) (\<lambda>dh.
    rbind (rfold (visit_ref m rope dh visit) tokens (0, cache, acc)) (\<lambda>(_, _, acc). Ok acc))))))"
  unfolding visit_logits_for_tokens_chunked_def rfold_chunks [OF assms(2)]
proof (rule rbind_cong, goal_cases)
  case 1
  show ?case using assms(2) by (simp add: validate_logits_request_def)
next
  case (2 u)
  then have tokens: "list_all (\<lambda>t. t < rows (token_embedding m)) tokens"
    by (auto simp: validate_logits_request_def list_all_iff list_ex_iff split: if_splits)
  show ?case
  proof (intro rbind_cong refl, goal_cases)
    case (1 rope cache ws)
    then obtain dh where dh: "head_dim (ll_config m) = Ok dh" using rope_llama_facts(5) by blast
    note run = run_prepared [OF 1(1,3) assms(1) dh]
    have eq: "rel_res (\<lambda>(p, c, _, _, a) (p', c', a'). p = p' \<and> c = c' \<and> a = a') r r' \<Longrightarrow>
        rbind r (\<lambda>(_, _, _, _, a). Ok a) = rbind r' (\<lambda>(_, _, a). Ok a)"
      for r :: "(nat \<times> kv_cache \<times> f32 list \<times> workspace \<times> 'a) mres" and r'
      by (cases r; cases r') auto
    show ?case unfolding dh rbind.simps
      by (rule eq [OF visit_run [OF run(1) tokens _ kv_new_cache_ok [OF 1(2) dh] run(2)]]) simp_all
  qed
qed


theorem visited_logits_witness:
  "visit_logits_for_tokens_chunked tiny_llama [0, 2] 2 (\<lambda>l n. n + length l) 0 =
    visit_logits_for_tokens_chunked tiny_llama [0, 2] 1 (\<lambda>l n. n + length l) (0 :: nat)"
  using visited_logits [OF tiny_llama_wf, of 2 "[0, 2]" "\<lambda>l n. n + length l" 0]
    visited_logits [OF tiny_llama_wf, of 1 "[0, 2]" "\<lambda>l n. n + length l" 0] by simp

end
