(* ===== verification/Model_Load.thy ===== *)
theory Model_Load
  imports Forward Token_Vocab
begin

text \<open>
  Reading the model from a GGUF file, \<open>LlamaConfig::from_gguf\<close>, \<open>F32Llama::from_gguf\<close> and the
  tensor readers of \<open>src/crates/det-model/src/lib.rs\<close>. Keys and tensor names are the UTF-8 bytes
  of the strings in the code. The loader never panics, and a loaded model passes its own validation
  and has blocks of the right lengths, so that the theorems on forward steps apply to it.
\<close>

section \<open>Metadata\<close>

definition map_metadata_error :: "gguf_error \<Rightarrow> model_error" where
  "map_metadata_error e = (case e of MetadataNotFound \<Rightarrow> MissingMetadata | _ \<Rightarrow> GgufFailure)"

definition required_u32 :: "gguf \<Rightarrow> str \<Rightarrow> u32 mres" where
  "required_u32 g key = map_err map_metadata_error (metadata_u32 g key)"

definition required_f32 :: "gguf \<Rightarrow> str \<Rightarrow> f32 mres" where
  "required_f32 g key = map_err map_metadata_error (metadata_f32 g key)"

text \<open>\<open>Err(MetadataNotFound) => Ok(None)\<close>, shared by the optional lookups.\<close>

definition optional :: "(gguf_error, 'a) res \<Rightarrow> 'a option mres" where
  "optional r = (case r of Err MetadataNotFound \<Rightarrow> Ok None | r \<Rightarrow> rbind (map_err map_metadata_error r) (\<lambda>v. Ok (Some v)))"

definition optional_u32 :: "gguf \<Rightarrow> str \<Rightarrow> u32 option mres" where
  "optional_u32 g key = optional (metadata_u32 g key)"

definition optional_f32 :: "gguf \<Rightarrow> str \<Rightarrow> f32 option mres" where
  "optional_f32 g key = optional (metadata_f32 g key)"

definition optional_str :: "gguf \<Rightarrow> str \<Rightarrow> str option mres" where
  "optional_str g key = optional (metadata_str g key)"

definition optional_bool :: "gguf \<Rightarrow> str \<Rightarrow> bool option mres" where
  "optional_bool g key =
    (case metadata_at g key of
       Ok (MBool v) \<Rightarrow> Ok (Some v)
     | Ok _ \<Rightarrow> Err GgufFailure
     | Err MetadataNotFound \<Rightarrow> Ok None
     | Err e \<Rightarrow> Err (map_metadata_error e)
     | Panic \<Rightarrow> Panic | Diverge \<Rightarrow> Diverge)"

definition reject_true_optional_bool :: "gguf \<Rightarrow> str \<Rightarrow> unit mres" where
  "reject_true_optional_bool g key = rbind (optional_bool g key) (\<lambda>v.
    if v = Some True then Err UnsupportedModelFeature else Ok ())"

definition reject_false_optional_bool :: "gguf \<Rightarrow> str \<Rightarrow> unit mres" where
  "reject_false_optional_bool g key = rbind (optional_bool g key) (\<lambda>v.
    if v = Some False then Err UnsupportedModelFeature else Ok ())"

definition reject_nonzero_optional_u32 :: "gguf \<Rightarrow> str \<Rightarrow> unit mres" where
  "reject_nonzero_optional_u32 g key = rbind (optional_u32 g key) (\<lambda>v.
    if (case v of None \<Rightarrow> 0 | Some v \<Rightarrow> v) \<noteq> 0 then Err UnsupportedModelFeature else Ok ())"

definition check_zero_f64 :: "f64 \<Rightarrow> unit mres" where
  "check_zero_f64 v =
    (if \<not> f64_is_finite v then Err Shape else if \<not> f64_eq v 0 then Err UnsupportedModelFeature else Ok ())"

definition reject_nonzero_optional_f32 :: "gguf \<Rightarrow> str \<Rightarrow> unit mres" where
  "reject_nonzero_optional_f32 g key =
    (case metadata_at g key of
       Ok (MF32 v) \<Rightarrow> check_zero_f64 (f64_of_f32 v)
     | Ok (MF64 v) \<Rightarrow> check_zero_f64 v
     | Ok _ \<Rightarrow> Err GgufFailure
     | Err MetadataNotFound \<Rightarrow> Ok ()
     | Err e \<Rightarrow> Err (map_metadata_error e)
     | Panic \<Rightarrow> Panic | Diverge \<Rightarrow> Diverge)"

section \<open>Configuration\<close>

definition length_matches :: "gguf \<Rightarrow> str \<Rightarrow> nat \<Rightarrow> model_error \<Rightarrow> unit mres" where
  "length_matches g key n e = rbind (optional_u32 g key) (\<lambda>v.
    case v of None \<Rightarrow> Ok () | Some v \<Rightarrow> if unat v \<noteq> n then Err e else Ok ())"

text \<open>The features that the forward step does not implement are refused.\<close>

definition reject_unsupported :: "gguf \<Rightarrow> (string \<Rightarrow> str) \<Rightarrow> unit mres" where
  "reject_unsupported g key =
    rbind (reject_false_optional_bool g (key ''attention.causal'')) (\<lambda>_.
    rbind (optional_str g (key ''rope.scaling.type'')) (\<lambda>scaling.
    if (case scaling of None \<Rightarrow> False | Some s \<Rightarrow> s \<noteq> ascii ''none'') then Err UnsupportedRopeScaling
    else
      rbind (reject_true_optional_bool g (key ''use_parallel_residual'')) (\<lambda>_.
      rbind (reject_nonzero_optional_u32 g (key ''attention.sliding_window'')) (\<lambda>_.
      rfold (\<lambda>k _. reject_nonzero_optional_f32 g (key k))
        [''attention.max_alibi_bias'', ''attention.clamp_kqv'', ''attention.value_scale'', ''attn_logit_softcapping'',
         ''final_logit_softcapping'', ''logit_scale'', ''embedding_scale'', ''residual_scale''] ()))))"

definition config_from_gguf :: "gguf \<Rightarrow> llama_config mres" where
  "config_from_gguf g =
    rbind (map_err map_metadata_error (metadata_str g (ascii ''general.architecture''))) (\<lambda>arch.
    if arch \<noteq> ascii ''llama'' \<and> arch \<noteq> ascii ''qwen2'' then Err UnsupportedArchitecture
    else
      let pairing = (if arch = ascii ''llama'' then Adjacent else SplitHalf);
          key = (\<lambda>suffix. arch @ ascii ''.'' @ ascii suffix)
      in
      rbind (required_u32 g (key ''attention.head_count'')) (\<lambda>hc. let hc = unat hc in
      rbind (optional_u32 g (key ''attention.head_count_kv'')) (\<lambda>kv.
      let kvc = unat (case kv of None \<Rightarrow> word_of_nat hc | Some v \<Rightarrow> v) in
      rbind (required_u32 g (key ''embedding_length'')) (\<lambda>emb. let emb = unat emb in
      if hc = 0 \<or> emb mod hc \<noteq> 0 then Err Shape
      else
        rbind (length_matches g (key ''embedding_length_out'') emb UnsupportedModelFeature) (\<lambda>_.
        rbind (reject_unsupported g key) (\<lambda>_.
        let dh = emb div hc in
        rbind (length_matches g (key ''attention.key_length'') dh UnsupportedAttentionHeadLength) (\<lambda>_.
        rbind (length_matches g (key ''attention.value_length'') dh UnsupportedAttentionHeadLength) (\<lambda>_.
        rbind (optional_f32 g (key ''attention.scale'')) (\<lambda>scale.
        rbind (required_u32 g (key ''block_count'')) (\<lambda>blocks.
        rbind (required_u32 g (key ''feed_forward_length'')) (\<lambda>ff.
        rbind (required_f32 g (key ''attention.layer_norm_rms_epsilon'')) (\<lambda>eps.
        rbind (optional_f32 g (key ''rope.freq_base'')) (\<lambda>base.
        rbind (optional_u32 g (key ''rope.dimension_count'')) (\<lambda>rdim.
        rbind (required_u32 g (key ''context_length'')) (\<lambda>ctx.
        let config = \<lparr>block_count = unat blocks, embedding_length = emb, feed_forward_length = unat ff, head_count = hc,
              head_count_kv = kvc, rms_epsilon = eps,
              attention_scale = (case scale of None \<Rightarrow> default_attention_scale dh | Some s \<Rightarrow> s),
              rope_freq_base = (case base of None \<Rightarrow> f32_of_int 10000 | Some b \<Rightarrow> b),
              rope_dimension_count = unat (case rdim of None \<Rightarrow> word_of_nat dh | Some v \<Rightarrow> v),
              rope_pairing = pairing, context_length = unat ctx\<rparr>
        in rbind (config_validate config) (\<lambda>_. Ok config))))))))))))))))"

text \<open>The size of the vocabulary; the first key that is present decides.\<close>

fun first_u32 :: "gguf \<Rightarrow> str list \<Rightarrow> u32 option mres" where
  "first_u32 g [] = Ok None"
| "first_u32 g (key # keys) = (case metadata_u32 g key of
      Ok v \<Rightarrow> Ok (Some v) | Err MetadataNotFound \<Rightarrow> first_u32 g keys | Err e \<Rightarrow> Err (map_metadata_error e)
    | Panic \<Rightarrow> Panic | Diverge \<Rightarrow> Diverge)"

definition gguf_tensor :: "gguf \<Rightarrow> str \<Rightarrow> tensor_info mres" where
  "gguf_tensor g name = map_err (\<lambda>_. GgufFailure) (tensor g name)"

definition gguf_tensor_data :: "gguf \<Rightarrow> u8 list \<Rightarrow> str \<Rightarrow> u8 list mres" where
  "gguf_tensor_data g bytes name = map_err (\<lambda>_. GgufFailure) (tensor_data g bytes name)"

definition vocab_size :: "gguf \<Rightarrow> nat mres" where
  "vocab_size g =
    rbind (map_err map_metadata_error (metadata_str g (ascii ''general.architecture''))) (\<lambda>arch.
    rbind (first_u32 g [arch @ ascii ''.vocab_size'', ascii ''llama.vocab_size'']) (\<lambda>v.
    case v of Some v \<Rightarrow> Ok (unat v)
    | None \<Rightarrow> (case metadata_at g (ascii ''tokenizer.ggml.tokens'') of
        Ok (ArrayString tokens) \<Rightarrow> Ok (length tokens)
      | Ok _ \<Rightarrow> Err GgufFailure
      | Err MetadataNotFound \<Rightarrow>
          rbind (gguf_tensor g (ascii ''token_embd.weight'')) (\<lambda>t.
          if length (t_dimensions t) = 2 then Ok (unat (t_dimensions t ! 1)) else Err MissingMetadata)
      | Err e \<Rightarrow> Err (map_metadata_error e)
      | Panic \<Rightarrow> Panic | Diverge \<Rightarrow> Diverge)))"

section \<open>Tensor views\<close>

record tensor_view =
  tv_info :: tensor_info
  tv_data :: "u8 list"

definition view_from_gguf :: "gguf \<Rightarrow> u8 list \<Rightarrow> str \<Rightarrow> tensor_view mres" where
  "view_from_gguf g bytes name =
    rbind (gguf_tensor g name) (\<lambda>info.
    if t_ty info \<noteq> GF32 then Err model_error.UnsupportedTensorType
    else rbind (gguf_tensor_data g bytes name) (\<lambda>data. Ok \<lparr>tv_info = info, tv_data = data\<rparr>))"

text \<open>\<open>usize::try_from(info.element_count()?)\<close>; \<open>usize\<close> has 64 bits.\<close>

definition tensor_len :: "tensor_info \<Rightarrow> nat mres" where
  "tensor_len info = rbind (map_err (\<lambda>_. Shape) (element_count info)) (\<lambda>n. Ok (unat n))"

definition view_len :: "tensor_view \<Rightarrow> nat mres" where
  "view_len v = tensor_len (tv_info v)"

definition view_is_empty :: "tensor_view \<Rightarrow> bool" where
  "view_is_empty v = (case element_count (tv_info v) of Ok n \<Rightarrow> n = 0 | _ \<Rightarrow> True)"

definition f32_from_le :: "u8 list \<Rightarrow> f32" where
  "f32_from_le bs = word_of_nat (from_le bs)"

definition view_get :: "tensor_view \<Rightarrow> nat \<Rightarrow> f32 mres" where
  "view_get v index =
    rbind (view_len v) (\<lambda>n.
    if n \<le> index then Err Shape
    else if usize_max < index * 4 + 4 then Panic
    else rbind (ok_or Shape (get_range (tv_data v) (index * 4) (index * 4 + 4))) (\<lambda>b. finite_value (f32_from_le b)))"

definition read_f32_chunks :: "u8 list \<Rightarrow> f32 list mres" where
  "read_f32_chunks data = traverse (\<lambda>chunk. finite_value (f32_from_le chunk)) (chunks_exact 4 data)"

definition view_read_all :: "tensor_view \<Rightarrow> f32 list mres" where
  "view_read_all v = rbind (view_len v) (\<lambda>_. read_f32_chunks (tv_data v))"

definition f32_gemv_from_view :: "tensor_view \<Rightarrow> nat \<Rightarrow> nat \<Rightarrow> f32 list \<Rightarrow> f32 list \<Rightarrow> f32 list mres" where
  "f32_gemv_from_view v r c x out =
    (if length x \<noteq> c \<or> length out \<noteq> r then Err Shape
     else rbind (view_len v) (\<lambda>n. rbind (checked_len r c) (\<lambda>expected.
       if n \<noteq> expected then Err Shape
       else rbind (ensure_finite_slice x) (\<lambda>_. rbind (view_read_all v) (\<lambda>weights.
         gemv_rows r out (\<lambda>i. rbind (slice_at weights (i * c) ((i + 1) * c)) (\<lambda>row. dot_f32_ref row x)))))))"


section \<open>Tensor readers\<close>

definition u16_from_le :: "u8 list \<Rightarrow> u16" where
  "u16_from_le bs = word_of_nat (from_le bs)"

definition f16_value :: "u8 list \<Rightarrow> f32 mres" where
  "f16_value chunk =
    (let bits = u16_from_le chunk in
     if \<not> f16_is_finite bits then Err NonFinite
     else case f16_to_f32 bits of Some v \<Rightarrow> Ok v | None \<Rightarrow> Diverge)"

definition read_dense_tensor_as_f32 :: "gguf \<Rightarrow> u8 list \<Rightarrow> str \<Rightarrow> f32 list mres" where
  "read_dense_tensor_as_f32 g bytes name =
    rbind (gguf_tensor g name) (\<lambda>info.
    rbind (gguf_tensor_data g bytes name) (\<lambda>data.
    rbind (tensor_len info) (\<lambda>n.
    if t_ty info = GF32 then
      rbind (checked_byte_len n 4) (\<lambda>expected. if length data \<noteq> expected then Err Shape else read_f32_chunks data)
    else if t_ty info = GF16 then
      rbind (checked_byte_len n 2) (\<lambda>expected. if length data \<noteq> expected then Err Shape
        else traverse f16_value (chunks_exact 2 data))
    else Err model_error.UnsupportedTensorType)))"

definition read_f32_vector :: "gguf \<Rightarrow> u8 list \<Rightarrow> str \<Rightarrow> nat \<Rightarrow> f32 list mres" where
  "read_f32_vector g bytes name n =
    rbind (gguf_tensor g name) (\<lambda>info.
    if t_dimensions info \<noteq> [word_of_nat n] then Err Shape else read_dense_tensor_as_f32 g bytes name)"

definition read_optional_f32_vector :: "gguf \<Rightarrow> u8 list \<Rightarrow> str \<Rightarrow> nat \<Rightarrow> f32 list option mres" where
  "read_optional_f32_vector g bytes name n =
    (case tensor g name of
       Ok _ \<Rightarrow> rbind (read_f32_vector g bytes name n) (\<lambda>v. Ok (Some v))
     | Err TensorNotFound \<Rightarrow> Ok None
     | Err _ \<Rightarrow> Err GgufFailure
     | Panic \<Rightarrow> Panic | Diverge \<Rightarrow> Diverge)"

definition read_f32_matrix :: "gguf \<Rightarrow> u8 list \<Rightarrow> str \<Rightarrow> nat \<Rightarrow> nat \<Rightarrow> f32_matrix mres" where
  "read_f32_matrix g bytes name r c =
    rbind (gguf_tensor g name) (\<lambda>info.
    if t_dimensions info \<noteq> [word_of_nat c, word_of_nat r] then Err Shape
    else rbind (read_dense_tensor_as_f32 g bytes name) (fm_new r c))"

text \<open>The four block readers differ in the block size, its coding and the reading of one block.\<close>

definition read_blocks ::
  "nat \<Rightarrow> nat \<Rightarrow> (u8 list \<Rightarrow> 'b mres) \<Rightarrow> gguf \<Rightarrow> u8 list \<Rightarrow> str \<Rightarrow> nat \<Rightarrow> nat \<Rightarrow> 'b quant_matrix mres" where
  "read_blocks block coding read g bytes name r c =
    (if c mod block \<noteq> 0 then Err Shape
     else
       rbind (gguf_tensor_data g bytes name) (\<lambda>data.
       rbind (checked_len r (c div block)) (\<lambda>expected_blocks.
       rbind (checked_byte_len expected_blocks coding) (\<lambda>expected_len.
       if length data \<noteq> expected_len then Err Shape
       else rbind (traverse read (chunks_exact coding data)) (\<lambda>blocks.
         Ok \<lparr>qm_rows = r, qm_cols = c, blocks_per_row = c div block, qm_blocks = blocks\<rparr>)))))"

definition q8_0_chunk :: "u8 list \<Rightarrow> q8_0_block mres" where
  "q8_0_chunk chunk = map_err (\<lambda>_. NonFinite) (q8_0_block_from_gguf (u16_from_le (slice chunk 0 2)) (slice chunk 2 34))"

definition q4_0_chunk :: "u8 list \<Rightarrow> q4_0_block mres" where
  "q4_0_chunk chunk = map_err (\<lambda>_. NonFinite) (q4_0_block_from_gguf (u16_from_le (slice chunk 0 2)) (slice chunk 2 18))"

definition q4_k_chunk :: "u8 list \<Rightarrow> q4k_block mres" where
  "q4_k_chunk chunk = map_err map_quant_error
    (q4_k_block_from_gguf (u16_from_le (slice chunk 0 2)) (u16_from_le (slice chunk 2 4)) (slice chunk 4 16) (slice chunk 16 144))"

definition q6_k_chunk :: "u8 list \<Rightarrow> q6k_block mres" where
  "q6_k_chunk chunk = map_err map_quant_error
    (q6_k_block_from_gguf (u16_from_le (slice chunk 208 210)) (slice chunk 0 128) (slice chunk 128 192) (slice chunk 192 208))"

definition read_q8_matrix :: "gguf \<Rightarrow> u8 list \<Rightarrow> str \<Rightarrow> nat \<Rightarrow> nat \<Rightarrow> q8_0_block quant_matrix mres" where
  "read_q8_matrix = read_blocks BLOCK 34 q8_0_chunk"

definition read_q4_matrix :: "gguf \<Rightarrow> u8 list \<Rightarrow> str \<Rightarrow> nat \<Rightarrow> nat \<Rightarrow> q4_0_block quant_matrix mres" where
  "read_q4_matrix = read_blocks BLOCK 18 q4_0_chunk"

definition read_q4k_matrix :: "gguf \<Rightarrow> u8 list \<Rightarrow> str \<Rightarrow> nat \<Rightarrow> nat \<Rightarrow> q4k_block quant_matrix mres" where
  "read_q4k_matrix = read_blocks Q4K_BLOCK 144 q4_k_chunk"

definition read_q6k_matrix :: "gguf \<Rightarrow> u8 list \<Rightarrow> str \<Rightarrow> nat \<Rightarrow> nat \<Rightarrow> q6k_block quant_matrix mres" where
  "read_q6k_matrix = read_blocks Q6K_BLOCK 210 q6_k_chunk"

definition read_weight_matrix :: "gguf \<Rightarrow> u8 list \<Rightarrow> str \<Rightarrow> nat \<Rightarrow> nat \<Rightarrow> weight_matrix mres" where
  "read_weight_matrix g bytes name r c =
    rbind (gguf_tensor g name) (\<lambda>info.
    if t_dimensions info \<noteq> [word_of_nat c, word_of_nat r] then Err Shape
    else case t_ty info of
      GF32 \<Rightarrow> rbind (read_f32_matrix g bytes name r c) (\<lambda>m. Ok (WF32 m))
    | GF16 \<Rightarrow> rbind (read_f32_matrix g bytes name r c) (\<lambda>m. Ok (WF32 m))
    | Q8_0 \<Rightarrow> rbind (read_q8_matrix g bytes name r c) (\<lambda>m. Ok (WQ8_0 m))
    | Q4_0 \<Rightarrow> rbind (read_q4_matrix g bytes name r c) (\<lambda>m. Ok (WQ4_0 m))
    | Q4K \<Rightarrow> rbind (read_q4k_matrix g bytes name r c) (\<lambda>m. Ok (WQ4K m))
    | Q6K \<Rightarrow> rbind (read_q6k_matrix g bytes name r c) (\<lambda>m. Ok (WQ6K m))
    | _ \<Rightarrow> Err model_error.UnsupportedTensorType)"

section \<open>The model\<close>

text \<open>The decimal digits of a layer number, as \<open>format!\<close> writes them.\<close>

fun decimal :: "nat \<Rightarrow> str" where
  "decimal n = (if n < 10 then [word_of_nat (48 + n)] else decimal (n div 10) @ [word_of_nat (48 + n mod 10)])"

declare decimal.simps [simp del]

definition block_name :: "nat \<Rightarrow> string \<Rightarrow> str" where
  "block_name layer suffix = ascii ''blk.'' @ decimal layer @ ascii suffix"

definition read_layer :: "gguf \<Rightarrow> u8 list \<Rightarrow> llama_config \<Rightarrow> nat \<Rightarrow> nat \<Rightarrow> layer_weights mres" where
  "read_layer g bytes config dh layer =
    (let d = embedding_length config; d_ff = feed_forward_length config;
         q_len = head_count config * dh; kv_len = head_count_kv config * dh;
         name = block_name layer in
     rbind (read_f32_vector g bytes (name ''.attn_norm.weight'') d) (\<lambda>an.
     rbind (read_weight_matrix g bytes (name ''.attn_q.weight'') q_len d) (\<lambda>q.
     rbind (read_optional_f32_vector g bytes (name ''.attn_q.bias'') q_len) (\<lambda>qb.
     rbind (read_weight_matrix g bytes (name ''.attn_k.weight'') kv_len d) (\<lambda>k.
     rbind (read_optional_f32_vector g bytes (name ''.attn_k.bias'') kv_len) (\<lambda>kb.
     rbind (read_weight_matrix g bytes (name ''.attn_v.weight'') kv_len d) (\<lambda>v.
     rbind (read_optional_f32_vector g bytes (name ''.attn_v.bias'') kv_len) (\<lambda>vb.
     rbind (read_weight_matrix g bytes (name ''.attn_output.weight'') d q_len) (\<lambda>out.
     rbind (read_f32_vector g bytes (name ''.ffn_norm.weight'') d) (\<lambda>ffn.
     rbind (read_weight_matrix g bytes (name ''.ffn_gate.weight'') d_ff d) (\<lambda>gate.
     rbind (read_weight_matrix g bytes (name ''.ffn_up.weight'') d_ff d) (\<lambda>up.
     rbind (read_weight_matrix g bytes (name ''.ffn_down.weight'') d d_ff) (\<lambda>down.
     Ok \<lparr>attention_norm = an, wq = q, attn_q_bias = qb, wk = k, attn_k_bias = kb, wv = v, attn_v_bias = vb,
         wo = out, ffn_norm = ffn, w_gate = gate, w_up = up, w_down = down\<rparr>)))))))))))))"

definition llama_from_gguf :: "gguf \<Rightarrow> u8 list \<Rightarrow> llama mres" where
  "llama_from_gguf g bytes =
    rbind (config_from_gguf g) (\<lambda>config.
    rbind (config_validate config) (\<lambda>_.
    let d = embedding_length config in
    rbind (head_dim config) (\<lambda>dh.
    rbind (vocab_size g) (\<lambda>vocab.
    rbind (read_weight_matrix g bytes (ascii ''token_embd.weight'') vocab d) (\<lambda>embd.
    rbind (traverse (read_layer g bytes config dh) [0..<block_count config]) (\<lambda>layers.
    rbind (read_f32_vector g bytes (ascii ''output_norm.weight'') d) (\<lambda>norm.
    rbind (case tensor g (ascii ''output.weight'') of
        Ok _ \<Rightarrow> read_weight_matrix g bytes (ascii ''output.weight'') (rows embd) d
      | Err TensorNotFound \<Rightarrow> Ok embd
      | Err _ \<Rightarrow> Err GgufFailure
      | Panic \<Rightarrow> Panic | Diverge \<Rightarrow> Diverge) (\<lambda>output.
    let m = \<lparr>ll_config = config, token_embedding = embd, ll_layers = layers, output_norm = norm, ll_output = output\<rparr> in
    rbind (llama_validate m) (\<lambda>_. Ok m)))))))))"


section \<open>Loading ends in a valid model or an error\<close>

named_theorems load_yields \<open>steps of the loader end in a value or an error\<close>

lemma metadata_yields [load_yields]:
  "yields (\<lambda>_. True) (metadata_at g key)" "yields (\<lambda>_. True) (metadata_str g key)"
  "yields (\<lambda>_. True) (metadata_u32 g key)" "yields (\<lambda>_. True) (metadata_f32 g key)"
  by (cases "g_metadata g key"; simp add: metadata_at_def metadata_str_def metadata_u32_def metadata_f32_def split: metadata_value.split)+

lemma tensor_lookup_yields [load_yields]: "yields (\<lambda>_. True) (tensor g name)"
  by (simp add: tensor_def split: list.split)

lemma count_yields: "yields (\<lambda>_. True) (count_elements ds n)"
  by (induction ds arbitrary: n) (auto intro: yields_bind [OF yields_ok_or])

lemma element_count_yields [load_yields]: "yields (\<lambda>_. True) (element_count t)"
  by (simp add: element_count_def count_yields)

lemma encoded_len_yields: "yields (\<lambda>_. True) (encoded_len t)"
proof -
  have "block_size ty \<noteq> Some 0" for ty by (cases ty) simp_all
  then show ?thesis unfolding encoded_len_def
    by (intro yields_bind [OF element_count_yields] yields_bind [OF yields_ok_or]) (auto intro: yields_any [OF yields_ok_or])
qed

lemma tensor_data_yields [load_yields]: "yields (\<lambda>_. True) (tensor_data g bytes name)"
proof -
  have "yields (\<lambda>_. True) (usize_from_u64 v)" for v by (simp add: usize_from_u64_Ok)
  then have "yields (\<lambda>_. True) (checked_range d n t)" for d n t
    unfolding checked_range_def
    by (intro yields_bind [OF encoded_len_yields] yields_bind [OF yields_ok_or] yields_bind [where Q = "\<lambda>_. True"]) simp_all
  then show ?thesis unfolding tensor_data_def tensor_data_range_def
    by (intro yields_bind [OF tensor_lookup_yields] yields_bind [where Q = "\<lambda>_. True"]) (auto intro: yields_any [OF yields_ok_or])
qed

lemma lookup_yields [load_yields]: "yields (\<lambda>_. True) (gguf_tensor g name)" "yields (\<lambda>_. True) (gguf_tensor_data g bytes name)"
  "yields (\<lambda>_. True) (tensor_len info)"
  by (simp_all add: gguf_tensor_def gguf_tensor_data_def tensor_len_def load_yields yields_bind [where Q = "\<lambda>_. True"])

lemma optional_lookup: "yields (\<lambda>_. True) r \<Longrightarrow> yields (\<lambda>_. True) (optional r)"
  by (cases r) (auto simp: optional_def split: gguf_error.split)

lemma optional_yields [load_yields]:
  "yields (\<lambda>_. True) (optional_u32 g key)" "yields (\<lambda>_. True) (optional_f32 g key)" "yields (\<lambda>_. True) (optional_str g key)"
  "yields (\<lambda>_. True) (required_u32 g key)" "yields (\<lambda>_. True) (required_f32 g key)" "yields (\<lambda>_. True) (optional_bool g key)"
proof -
  show "yields (\<lambda>_. True) (optional_bool g key)" using metadata_yields(1) [of g key]
    by (cases "metadata_at g key") (auto simp: optional_bool_def split: gguf_error.split metadata_value.split)
qed (simp_all add: optional_u32_def optional_f32_def optional_str_def required_u32_def required_f32_def optional_lookup load_yields)

lemma bind_any: "yields (\<lambda>_. True) m \<Longrightarrow> (\<And>x. yields P (f x)) \<Longrightarrow> yields P (rbind m f)"
  by (rule yields_bind)

lemma reject_yields [load_yields]:
  "yields (\<lambda>_. True) (reject_true_optional_bool g key)" "yields (\<lambda>_. True) (reject_false_optional_bool g key)"
  "yields (\<lambda>_. True) (reject_nonzero_optional_u32 g key)" "yields (\<lambda>_. True) (reject_nonzero_optional_f32 g key)"
  "yields (\<lambda>_. True) (length_matches g key n e)"
proof -
  show "yields (\<lambda>_. True) (reject_nonzero_optional_f32 g key)" using metadata_yields(1) [of g key]
    by (cases "metadata_at g key")
      (auto simp: reject_nonzero_optional_f32_def check_zero_f64_def split: gguf_error.split metadata_value.split)
qed (auto simp: reject_true_optional_bool_def reject_false_optional_bool_def reject_nonzero_optional_u32_def length_matches_def
    intro!: bind_any load_yields split: option.split)

lemma config_validate_yields [load_yields]: "yields (\<lambda>_. True) (config_validate c)" "yields (\<lambda>_. True) (head_dim c)"
proof -
  show head: "yields (\<lambda>_. True) (head_dim c)" for c by (simp add: head_dim_def)
  show "yields (\<lambda>_. True) (config_validate c)"
    unfolding config_validate_def by (simp, intro impI bind_any head) simp
qed

lemma config_from_gguf_yields [load_yields]: "yields (\<lambda>_. True) (config_from_gguf g)"
proof -
  have "yields (\<lambda>_. True) (reject_unsupported g key)" for key
    unfolding reject_unsupported_def
    by (intro bind_any load_yields) (auto intro!: bind_any load_yields yields_rfold)
  then show ?thesis unfolding config_from_gguf_def Let_def
    by (intro bind_any load_yields, simp only: yields_map_err load_yields)
      (auto intro!: bind_any load_yields)
qed

lemma first_u32_yields: "yields (\<lambda>_. True) (first_u32 g keys)"
proof (induction keys)
  case (Cons k keys)
  then show ?case using metadata_yields(3) [of g k] by (cases "metadata_u32 g k") (auto split: gguf_error.split)
qed simp

lemma vocab_size_yields [load_yields]: "yields (\<lambda>_. True) (vocab_size g)"
proof -
  have "yields (\<lambda>_. True) (case metadata_at g key of
        Ok (ArrayString tokens) \<Rightarrow> Ok (length tokens)
      | Ok _ \<Rightarrow> Err GgufFailure
      | Err MetadataNotFound \<Rightarrow>
          rbind (gguf_tensor g (ascii ''token_embd.weight'')) (\<lambda>t.
          if length (t_dimensions t) = 2 then Ok (unat (t_dimensions t ! 1)) else Err MissingMetadata)
      | Err e \<Rightarrow> Err (map_metadata_error e)
      | Panic \<Rightarrow> Panic | Diverge \<Rightarrow> Diverge)" for key
    using metadata_yields(1) [of g key]
    by (cases "metadata_at g key") (auto intro!: bind_any load_yields split: gguf_error.split metadata_value.split)
  then show ?thesis unfolding vocab_size_def
    by (intro bind_any load_yields first_u32_yields, simp only: yields_map_err load_yields) (simp split: option.split)
qed


lemma traverse_any: "(\<And>x. x \<in> set xs \<Longrightarrow> yields (\<lambda>_. True) (f x)) \<Longrightarrow> yields (\<lambda>_. True) (traverse f xs)"
  by (rule yields_any [OF yields_traverse [where P = "\<lambda>_. True"]])

lemma f16_value_yields: "yields (\<lambda>_. True) (f16_value chunk)"
  using f16_to_f32_value [of "u16_from_le chunk"] by (auto simp: f16_value_def Let_def)

lemma dense_yields [load_yields]: "yields (\<lambda>_. True) (read_dense_tensor_as_f32 g bytes name)"
  unfolding read_dense_tensor_as_f32_def read_f32_chunks_def checked_byte_len_def
  by (intro bind_any load_yields)
    (auto intro!: bind_any traverse_any f16_value_yields yields_any [OF finite_value_yields] yields_any [OF yields_ok_or])

lemma vector_yields [load_yields]: "yields (\<lambda>_. True) (read_f32_vector g bytes name n)"
  "yields (\<lambda>_. True) (read_optional_f32_vector g bytes name n)"
proof -
  show v: "yields (\<lambda>_. True) (read_f32_vector g bytes name n)" unfolding read_f32_vector_def
    by (intro bind_any load_yields) (simp add: load_yields)
  show "yields (\<lambda>_. True) (read_optional_f32_vector g bytes name n)"
    unfolding read_optional_f32_vector_def using tensor_lookup_yields [of g name]
    by (cases "tensor g name") (auto intro!: bind_any v split: gguf_error.split)
qed

lemma f32_matrix_yields: "yields (\<lambda>_. True) (read_f32_matrix g bytes name r c)"
  unfolding read_f32_matrix_def fm_new_def fm_validate_def Let_def
  by (intro bind_any load_yields) (auto intro!: bind_any load_yields shape_yields yields_any [OF ensure_finite_slice_yields])

lemma blocks_yields:
  assumes "\<And>chunk. length chunk = coding \<Longrightarrow> yields ok (read chunk)" "0 < coding"
  shows "yields (\<lambda>m. list_all ok (qm_blocks m)) (read_blocks block coding read g bytes name r c)"
proof -
  have "yields (list_all ok) (traverse read (chunks_exact coding data))" if "length data = n * coding" for data n
    by (rule yields_mono [OF yields_traverse [where P = ok]])
      (use chunks_exact_flat(2) [OF that assms(2)] assms(1) in \<open>auto simp: list_all_iff\<close>)
  then show ?thesis unfolding read_blocks_def checked_byte_len_def
    by (auto intro!: bind_any load_yields yields_bind [OF checked_len_yields] yields_bind [OF yields_ok_or] yields_bind [where Q = "list_all ok"])
qed

lemma f16_scale_yields: "yields (\<lambda>_. True) (f16_scale bits)"
  using f16_to_f32_value [of bits] by (auto simp: f16_scale_def)

lemma chunk_yields:
  "length chunk = 34 \<Longrightarrow> yields q8_0_ok (q8_0_chunk chunk)" "length chunk = 18 \<Longrightarrow> yields q4_0_ok (q4_0_chunk chunk)"
  "length chunk = 144 \<Longrightarrow> yields q4k_ok (q4_k_chunk chunk)" "length chunk = 210 \<Longrightarrow> yields q6k_ok (q6_k_chunk chunk)"
  unfolding q8_0_chunk_def q4_0_chunk_def q4_k_chunk_def q6_k_chunk_def q8_0_block_from_gguf_def q4_0_block_from_gguf_def
    q4_k_block_from_gguf_def q6_k_block_from_gguf_def yields_map_err
  by (intro bind_any f16_scale_yields; simp add: q8_0_ok_def q4_0_ok_def q4k_ok_def q6k_ok_def length_slice)+

lemma weight_matrix_yields: "yields wm_ok (read_weight_matrix g bytes name r c)"
  unfolding read_weight_matrix_def read_q8_matrix_def read_q4_matrix_def read_q4k_matrix_def read_q6k_matrix_def
  by (intro bind_any load_yields)
    (auto intro!: yields_bind [OF f32_matrix_yields] yields_bind [OF blocks_yields [OF chunk_yields(1)]]
      yields_bind [OF blocks_yields [OF chunk_yields(2)]] yields_bind [OF blocks_yields [OF chunk_yields(3)]]
      yields_bind [OF blocks_yields [OF chunk_yields(4)]] split: ggml_type.split)

lemma layer_yields: "yields layer_wf (read_layer g bytes config dh layer)"
  unfolding read_layer_def Let_def
  by (intro bind_any load_yields yields_bind [OF weight_matrix_yields]) (simp add: layer_wf_def)

lemma wm_validate_yields: "yields (\<lambda>_. True) (wm_validate w)"
  unfolding wm_validate_def
  by (rule bind_any [OF shape_yields(1)], cases w)
    (simp_all add: finite_scales_def yields_any [OF ensure_finite_slice_yields])

lemma llama_validate_yields: "yields (\<lambda>_. True) (llama_validate m)"
proof -
  have bias: "yields (\<lambda>_. True) (bias_finite b)" for b
    by (auto simp: bias_finite_def intro: yields_any [OF ensure_finite_slice_yields] split: option.split)
  have "yields (\<lambda>_. True) (layer_validate l)" for l
    unfolding layer_validate_def by (intro bind_any bias wm_validate_yields yields_any [OF ensure_finite_slice_yields])
  then show ?thesis unfolding llama_validate_def
    by (intro bind_any layout_yields wm_validate_yields yields_any [OF ensure_finite_slice_yields] yields_rfold) simp_all
qed

text \<open>C19: loading a model never panics, whatever the file holds: it ends in an error value or in a
  model that passes its own validation and whose blocks have the array lengths of their types.\<close>

theorem loaded_model_valid:
  "yields (\<lambda>m. llama_validate m = Ok () \<and> llama_wf m) (llama_from_gguf g bytes)"
proof -
  have out: "yields wm_ok (case tensor g name of
        Ok _ \<Rightarrow> read_weight_matrix g bytes name r d
      | Err TensorNotFound \<Rightarrow> Ok embd
      | Err _ \<Rightarrow> Err GgufFailure
      | Panic \<Rightarrow> Panic | Diverge \<Rightarrow> Diverge)" if "wm_ok embd" for name r d embd
    using tensor_lookup_yields [of g name] weight_matrix_yields that by (cases "tensor g name") (auto split: gguf_error.split)
  have layers: "yields (list_all layer_wf) (traverse (read_layer g bytes config dh) ls)" for config dh ls
    by (rule yields_mono [OF yields_traverse [where P = layer_wf]]) (simp_all add: layer_yields list_all_iff)
  show ?thesis unfolding llama_from_gguf_def Let_def
    by (intro bind_any load_yields yields_bind [OF weight_matrix_yields] yields_bind [OF layers] yields_bind [OF out]
        yields_bind_eq [OF llama_validate_yields]) (simp_all add: llama_wf_def)
qed

end
