(* ===== verification/Codec_Window.thy ===== *)
theory Codec_Window
  imports Model_Load Token_Stream Tokenizer Dtlz_File
begin

text \<open>
  The state from which the command line codec predicts symbols, \<open>WindowedModelState\<close> in
  \<open>src/crates/det-cli/src/main.rs\<close>: the model over a window of the tokens so far. When the window
  is full it slides to the last \<open>overlap\<close> tokens and the model is run again from an empty cache.
  Encoder and decoder ask the state for the interval of a symbol and for the symbol of a value. The
  state always is the one of a fresh run over the tokens of the window.
\<close>

section \<open>Errors\<close>

text \<open>One constructor for each error message of the codec; the numbers and errors that a message
  prints are its arguments.\<close>

datatype codec_error =
    ContextZero | ContextTooLong nat nat | OverlapTooLong nat nat | PositionMismatch | WindowViolated
  | RopeError model_error | CacheError model_error | WorkspaceError model_error | ForwardError model_error
  | UniformError cdf_error | SymbolRangeError cdf_error | DistributionError cdf_error | LookupFailed u64
  | EncodeError range_error | DecodeError range_error | AdvanceError range_error | DecoderError range_error
  | OutsideVocabulary nat | DetokenizeError token_error | TokenTooLarge nat | EmptySymbol nat
  | TokenizeError token_error | HeaderError file_error | TruncatedPayload | ModelMismatch | NonCanonical
  | GgufError gguf_error | TokensWrongType | TokensMissing gguf_error | TokenizerError token_error
  | ModelError model_error | VocabMismatch nat nat | SymbolCountOverflow | VocabTooLarge nat

type_synonym 'a cres = "(codec_error, 'a) res"

definition validate_window :: "nat \<Rightarrow> nat \<Rightarrow> nat \<Rightarrow> unit cres" where
  "validate_window n_ctx overlap model_ctx =
    (if n_ctx = 0 then Err ContextZero
     else if model_ctx < n_ctx then Err (ContextTooLong n_ctx model_ctx)
     else if n_ctx \<le> overlap then Err (OverlapTooLong overlap n_ctx)
     else Ok ())"

definition next_window_start :: "nat \<Rightarrow> nat \<Rightarrow> nat \<Rightarrow> nat \<Rightarrow> nat" where
  "next_window_start pos window_start n_ctx overlap =
    (if n_ctx \<le> pos - window_start then pos - overlap else window_start)"

section \<open>The state\<close>

record window_state =
  wn_model :: llama
  wn_n_ctx :: nat
  wn_window_start :: nat
  wn_context_len :: nat
  wn_rope :: rope_tables
  wn_cache :: kv_cache
  wn_workspace :: workspace
  wn_logits :: "f32 list"
  wn_uniform :: cdf
  wn_scratch :: cdf_scratch
  wn_escapes :: bool

definition window_new :: "llama \<Rightarrow> nat \<Rightarrow> bool \<Rightarrow> window_state cres" where
  "window_new model n_ctx escapes =
    rbind (map_err RopeError (rope_llama (ll_config model) n_ctx)) (\<lambda>rope.
    rbind (map_err CacheError (kv_new (ll_config model))) (\<lambda>cache.
    rbind (map_err WorkspaceError (forward_workspace model n_ctx)) (\<lambda>ws.
    rbind (map_err UniformError (if escapes then uniform_cdf_with_byte_escapes (rows (ll_output model))
                                 else uniform_cdf (rows (ll_output model)))) (\<lambda>uniform.
    Ok \<lparr>wn_model = model, wn_n_ctx = n_ctx, wn_window_start = 0, wn_context_len = 0, wn_rope = rope, wn_cache = cache,
        wn_workspace = ws, wn_logits = replicate (rows (ll_output model)) 0, wn_uniform = uniform,
        wn_scratch = scratch_default, wn_escapes = escapes\<rparr>))))"

definition window_advance :: "nat \<Rightarrow> window_state \<Rightarrow> window_state cres" where
  "window_advance token st =
    (if wn_n_ctx st \<le> wn_context_len st then Err WindowViolated
     else
       rbind (map_err ForwardError (forward_one_with_workspace (wn_model st) token (wn_context_len st) (wn_rope st)
           (wn_cache st) (wn_logits st) (wn_workspace st))) (\<lambda>(cache, logits, ws).
       Ok (st\<lparr>wn_cache := cache, wn_logits := logits, wn_workspace := ws, wn_context_len := wn_context_len st + 1\<rparr>)))"

definition window_replay :: "nat \<Rightarrow> nat list \<Rightarrow> window_state \<Rightarrow> window_state cres" where
  "window_replay window_start context st =
    rbind (map_err CacheError (kv_new (ll_config (wn_model st)))) (\<lambda>cache.
    rfold window_advance context
      (st\<lparr>wn_cache := cache, wn_logits := replicate (length (wn_logits st)) 0, wn_window_start := window_start,
          wn_context_len := 0\<rparr>))"

definition window_sync :: "nat \<Rightarrow> nat list \<Rightarrow> nat \<Rightarrow> window_state \<Rightarrow> window_state cres" where
  "window_sync pos tokens overlap st =
    (if pos \<noteq> length tokens then Err PositionMismatch
     else
       let next_start = next_window_start pos (wn_window_start st) (wn_n_ctx st) overlap in
       if next_start \<noteq> wn_window_start st
       then rbind (slice_at tokens next_start pos) (\<lambda>context. window_replay next_start context st)
       else Ok st)"

text \<open>The interval of a symbol; the scratch buffers of the frequency tables are part of the state.\<close>

definition window_symbol_range :: "nat \<Rightarrow> window_state \<Rightarrow> (symbol_range \<times> window_state) cres" where
  "window_symbol_range symbol st =
    (if wn_context_len st = 0 then
       rbind (map_err SymbolRangeError (uniform_symbol_range symbol (length (c_freq (wn_uniform st))))) (\<lambda>r. Ok (r, st))
     else
       case (if wn_escapes st then logits_to_symbol_range_with_byte_escapes (wn_logits st) symbol (wn_scratch st)
             else logits_to_symbol_range_with_scratch (wn_logits st) symbol (wn_scratch st)) of (r, scratch) \<Rightarrow>
       rbind (map_err SymbolRangeError r) (\<lambda>r. Ok (r, st\<lparr>wn_scratch := scratch\<rparr>)))"

definition cdf_decode_symbol :: "range_decoder \<Rightarrow> cdf \<Rightarrow> (nat \<times> range_decoder) cres" where
  "cdf_decode_symbol dec cdf =
    (case rd_decode_freq dec (c_total cdf) of (r, dec) \<Rightarrow>
     rbind (map_err DecodeError r) (\<lambda>v.
     rbind (ok_or (LookupFailed v) (symbol_for_validated cdf v)) (\<lambda>token.
     rbind (index_at (c_cum cdf) token) (\<lambda>cum.
     rbind (index_at (c_freq cdf) token) (\<lambda>freq.
     case rd_advance dec cum (ucast freq) (c_total cdf) of (r, dec) \<Rightarrow>
     rbind (map_err AdvanceError r) (\<lambda>_. Ok (token, dec)))))))"

definition window_decode_symbol :: "range_decoder \<Rightarrow> window_state \<Rightarrow> (nat \<times> range_decoder \<times> window_state) cres" where
  "window_decode_symbol dec st =
    (if wn_context_len st = 0 then
       rbind (cdf_decode_symbol dec (wn_uniform st)) (\<lambda>(symbol, dec). Ok (symbol, dec, st))
     else
       case (if wn_escapes st then logits_to_decoder_distribution_with_byte_escapes (wn_logits st) (wn_scratch st)
             else logits_to_decoder_distribution_with_scratch (wn_logits st) (wn_scratch st)) of (r, scratch) \<Rightarrow>
       rbind (map_err DistributionError r) (\<lambda>dist.
       case rd_decode_freq dec (dd_total dist) of (r, dec) \<Rightarrow>
       rbind (map_err DecodeError r) (\<lambda>v.
       rbind (ok_or (LookupFailed v) (dd_symbol_range dist v)) (\<lambda>(symbol, range).
       case rd_advance dec (sr_cum range) (ucast (sr_freq range)) (sr_total range) of (r, dec) \<Rightarrow>
       rbind (map_err AdvanceError r) (\<lambda>_.
       Ok (symbol, dec, st\<lparr>wn_scratch := scratch\<rparr>))))))"


section \<open>The uniform table\<close>

definition uniform_table :: "nat \<Rightarrow> cdf" where
  "uniform_table n = cdf_of (replicate n 1)"

lemma uniform_cdf_table:
  assumes "uniform_cdf n = Ok c"
  shows "c = uniform_table n \<and> cdf_ok c \<and> n \<le> MAX_SYMBOLS"
proof -
  have n: "0 < n" "n \<le> MAX_SYMBOLS" using assms by (auto simp: uniform_cdf_def split: if_splits)
  have "cums t (replicate k 1) = map word_of_nat [t..<t + k]" for t k
    by (induction k arbitrary: t) (simp_all add: upt_rec)
  then have c: "c = uniform_table n"
    using assms by (auto simp: uniform_cdf_def uniform_table_def cdf_of_def map_replicate_const Let_def split: if_splits)
  have "table_weights (replicate n 1)" using n by (simp add: table_weights_def MAX_SYMBOLS_def)
  then show ?thesis using c n by (simp add: cdf_ok_def cdf_validate_iff uniform_table_def) (simp add: cdf_of_def)
qed

lemma uniform_table_entry:
  assumes "uniform_symbol_range symbol (length (c_freq (uniform_table n))) = Ok r"
  shows "cdf_ival (uniform_table n) symbol = Some (sr_cum r, ucast (sr_freq r)) \<and> sr_total r = c_total (uniform_table n)"
  using assms by (auto simp: uniform_symbol_range_def uniform_table_def cdf_ival_of Let_def split: if_splits)
    (simp_all add: cdf_of_def)

text \<open>What \<open>window_new\<close> establishes and no operation changes.\<close>

definition window_ok :: "window_state \<Rightarrow> bool" where
  "window_ok s \<longleftrightarrow> cdf_ok (wn_uniform s) \<and> (\<exists>n. wn_uniform s = uniform_table n)"

lemma window_new_window_ok: "window_new model n_ctx escapes = Ok s \<Longrightarrow> window_ok s"
  using uniform_cdf_table by (fastforce simp: window_new_def window_ok_def uniform_cdf_with_byte_escapes_def split: if_splits)

section \<open>Decoding a symbol\<close>

text \<open>The decoder looks a value up in a table that has the encoder's interval.\<close>

lemma cdf_decode_follows:
  assumes t: "cdf_ok c" "cdf_ival c symbol = Some (cum, freq)"
    and e: "re_ok e" "re_encode e cum freq (c_total c) = Ok e'" and d: "synced e d B" "carries e' B"
  shows "\<exists>d'. cdf_decode_symbol d c = Ok (symbol, d') \<and> synced e' d' B"
proof -
  obtain v d1 d2 where v: "rd_decode_freq d (c_total c) = (Ok v, d1)" "cum \<le> v" "unat v < unat cum + unat freq"
    and adv: "rd_advance d1 cum freq (c_total c) = (Ok (), d2)" and sy: "synced e' d2 B"
    using rc.decode_step [OF e(1) d(1) e(2) d(2)] by blast
  have "symbol_for_validated c v = Some symbol" by (rule ct.look_unique [OF t v(2,3)])
  then show ?thesis using v adv sy cdf_ok_entry [OF t] by (simp add: cdf_decode_symbol_def index_at_def)
qed

text \<open>What the decoder's table for the logits is, when the encoder has an interval.\<close>

lemma symbol_range_Ok:
  assumes "fst (logits_to_symbol_range_impl logits symbol tail s) = Ok r" "tail \<le> MAX_SYMBOLS"
  shows "\<exists>d. fst (logits_to_decoder_distribution_impl logits tail s') = Ok d \<and> dd_ok d \<and>
    dd_ival d symbol = Some (sr_cum r, ucast (sr_freq r)) \<and> sr_total r = dd_total d \<and>
    (\<forall>v < dd_total d. dd_look d v = Some symbol \<longrightarrow> dd_symbol_range d v = Some (symbol, r))"
proof -
  have l: "logits \<noteq> []" "length logits + tail \<le> MAX_SYMBOLS" "symbol < length logits + tail"
    using assms by (auto simp: logits_to_symbol_range_impl_def saturating_add_usize_def MAX_SYMBOLS_def usize_max_def
        split: if_splits)
  obtain ws where ws: "weights logits = Ok ws" "wsum ws + tail < 2 ^ 31" "r = range_of (ws @ replicate tail 1) symbol"
    using assms(1) unfolding symbol_range_weights [OF l] by (auto split: if_splits)
  note w = weights_Ok [OF ws(1)]
  have d: "fst (logits_to_decoder_distribution_impl logits tail s') = Ok (distribution_of ws tail)"
    using ws by (simp add: distribution_weights [OF l(1,2)])
  have max: "length ws \<le> MAX_SYMBOLS" using w l by simp
  then have ok: "dd_ok (distribution_of ws tail)" unfolding dd_ok_def using ws w by blast
  have "dd_symbol_range (distribution_of ws tail) v = Some (symbol, r)"
    if "v < dd_total (distribution_of ws tail)" "dd_look (distribution_of ws tail) v = Some symbol" for v
    using that dd_symbol_range_locate(1) [OF max ws(2), of v]
    by (auto simp: distribution_of_def dd_look_def Let_def ws(3))
  moreover have "dd_ival (distribution_of ws tail) symbol = Some (sr_cum r, ucast (sr_freq r))"
    "sr_total r = dd_total (distribution_of ws tail)"
    using l w by (simp_all add: dd_ival_def dd_weights_def distribution_of_def ws(3) range_of_def)
  ultimately show ?thesis using d ok by blast
qed

text \<open>Two states that differ at most in the scratch buffers predict alike.\<close>

definition alike :: "window_state \<Rightarrow> window_state \<Rightarrow> bool" where
  "alike s t \<longleftrightarrow> window_ok s \<and> (\<exists>scratch. t = s\<lparr>wn_scratch := scratch\<rparr>)"

lemma window_decode_follows:
  assumes al: "alike s t" and r: "window_symbol_range symbol s = Ok (r, s')"
    and e: "re_ok e" "re_encode e (sr_cum r) (ucast (sr_freq r)) (sr_total r) = Ok e'"
    and d: "synced e d B" "carries e' B"
  shows "\<exists>d' t'. window_decode_symbol d t = Ok (symbol, d', t') \<and> synced e' d' B \<and> alike s' t'"
proof -
  obtain scratch where t: "t = s\<lparr>wn_scratch := scratch\<rparr>" and ok: "window_ok s" using al by (auto simp: alike_def)
  show ?thesis
  proof (cases "wn_context_len s = 0")
    case True
    obtain n where n: "wn_uniform s = uniform_table n" "cdf_ok (uniform_table n)" using ok by (auto simp: window_ok_def)
    have ur: "uniform_symbol_range symbol (length (c_freq (uniform_table n))) = Ok r" and s': "s' = s"
      using r True by (simp_all add: window_symbol_range_def n)
    note u = uniform_table_entry [OF ur]
    obtain d' where "cdf_decode_symbol d (uniform_table n) = Ok (symbol, d')" "synced e' d' B"
      using cdf_decode_follows [OF n(2) _ e(1) _ d, of symbol] u e(2) by auto
    then show ?thesis using True al by (simp add: window_decode_symbol_def t n s')
  next
    case False
    define tail where "tail = (if wn_escapes s then BYTE_ESCAPE_SYMBOLS else 0)"
    have enc: "(if wn_escapes s then logits_to_symbol_range_with_byte_escapes (wn_logits s) symbol x
        else logits_to_symbol_range_with_scratch (wn_logits s) symbol x) =
        logits_to_symbol_range_impl (wn_logits s) symbol tail x" for x
      by (simp add: tail_def logits_to_symbol_range_with_byte_escapes_def logits_to_symbol_range_with_scratch_def)
    have dec: "(if wn_escapes s then logits_to_decoder_distribution_with_byte_escapes (wn_logits s) x
        else logits_to_decoder_distribution_with_scratch (wn_logits s) x) =
        logits_to_decoder_distribution_impl (wn_logits s) tail x" for x
      by (simp add: tail_def logits_to_decoder_distribution_with_byte_escapes_def
          logits_to_decoder_distribution_with_scratch_def)
    have "tail \<le> MAX_SYMBOLS" by (simp add: tail_def MAX_SYMBOLS_def BYTE_ESCAPE_SYMBOLS_def)
    moreover obtain sc where "fst (logits_to_symbol_range_impl (wn_logits s) symbol tail (wn_scratch s)) = Ok r"
      and s': "s' = s\<lparr>wn_scratch := sc\<rparr>"
      using r False by (auto simp: window_symbol_range_def enc split: prod.splits)
    ultimately obtain dist where dist: "fst (logits_to_decoder_distribution_impl (wn_logits s) tail scratch) = Ok dist"
      and ok': "dd_ok dist" and iv: "dd_ival dist symbol = Some (sr_cum r, ucast (sr_freq r))"
      and tot: "sr_total r = dd_total dist"
      and look: "\<And>v. v < dd_total dist \<Longrightarrow> dd_look dist v = Some symbol \<Longrightarrow> dd_symbol_range dist v = Some (symbol, r)"
      using symbol_range_Ok by blast
    obtain sc' where dist': "logits_to_decoder_distribution_impl (wn_logits s) tail scratch = (Ok dist, sc')"
      using dist by (cases "logits_to_decoder_distribution_impl (wn_logits s) tail scratch") simp
    obtain v d1 d2 where v: "rd_decode_freq d (sr_total r) = (Ok v, d1)" "sr_cum r \<le> v"
        "unat v < unat (sr_cum r) + unat (ucast (sr_freq r) :: u64)"
      and adv: "rd_advance d1 (sr_cum r) (ucast (sr_freq r)) (sr_total r) = (Ok (), d2)" and sy: "synced e' d2 B"
      using rc.decode_step [OF e(1) d(1) e(2) d(2)] by blast
    have "dd_symbol_range dist v = Some (symbol, r)"
      using look dt.look_unique [OF ok' iv v(2,3)] dt.look_below [OF ok' iv v(2,3)] by blast
    then have "window_decode_symbol d t = Ok (symbol, d2, t\<lparr>wn_scratch := sc'\<rparr>)"
      using False v adv dist' unfolding dec [symmetric]
      by (cases "wn_escapes s") (simp_all add: window_decode_symbol_def t tot [symmetric])
    then show ?thesis using sy ok by (auto simp: alike_def s' window_ok_def t)
  qed
qed

text \<open>The other operations do not look at the scratch buffers.\<close>

lemma advance_scratch: "window_advance token (s\<lparr>wn_scratch := x\<rparr>) =
    rbind (window_advance token s) (\<lambda>s'. Ok (s'\<lparr>wn_scratch := x\<rparr>))"
  by (cases s) (simp add: window_advance_def rbind_assoc split_def)

lemma advances_scratch: "rfold window_advance ctx (s\<lparr>wn_scratch := x\<rparr>) =
    rbind (rfold window_advance ctx s) (\<lambda>s'. Ok (s'\<lparr>wn_scratch := x\<rparr>))"
proof (induction ctx arbitrary: s)
  case (Cons token ctx)
  then show ?case by (cases "window_advance token s") (simp_all add: advance_scratch)
qed simp

lemma replay_scratch: "window_replay k ctx (s\<lparr>wn_scratch := x\<rparr>) =
    rbind (window_replay k ctx s) (\<lambda>s'. Ok (s'\<lparr>wn_scratch := x\<rparr>))"
  by (cases s) (simp add: window_replay_def rbind_assoc advances_scratch [symmetric])

lemma sync_scratch: "window_sync pos tokens overlap (s\<lparr>wn_scratch := x\<rparr>) =
    rbind (window_sync pos tokens overlap s) (\<lambda>s'. Ok (s'\<lparr>wn_scratch := x\<rparr>))"
  by (simp add: window_sync_def Let_def rbind_assoc replay_scratch)

text \<open>Model, sizes and uniform table stay.\<close>

definition same_setup :: "window_state \<Rightarrow> window_state \<Rightarrow> bool" where
  "same_setup s t \<longleftrightarrow> wn_model t = wn_model s \<and> wn_n_ctx t = wn_n_ctx s \<and> wn_rope t = wn_rope s \<and>
    wn_uniform t = wn_uniform s \<and> wn_escapes t = wn_escapes s"

lemma same_setup_refl [simp]: "same_setup s s" by (simp add: same_setup_def)

lemma same_setup_trans: "same_setup s t \<Longrightarrow> same_setup t u \<Longrightarrow> same_setup s u" by (simp add: same_setup_def)

lemma advance_setup: "window_advance token s = Ok s' \<Longrightarrow> same_setup s s' \<and> wn_window_start s' = wn_window_start s"
  by (auto simp: window_advance_def same_setup_def split: if_splits)

lemma advances_setup: "rfold window_advance ctx s = Ok s' \<Longrightarrow> same_setup s s' \<and> wn_window_start s' = wn_window_start s"
proof (induction ctx arbitrary: s)
  case (Cons token ctx)
  then obtain t where "window_advance token s = Ok t" "rfold window_advance ctx t = Ok s'" by auto
  then show ?case using Cons.IH advance_setup same_setup_trans by metis
qed simp

lemma replay_setup: "window_replay k ctx s = Ok s' \<Longrightarrow> same_setup s s' \<and> wn_window_start s' = k"
  by (auto simp: window_replay_def same_setup_def dest!: advances_setup)

lemma sync_setup: "window_sync pos tokens overlap s = Ok s' \<Longrightarrow> same_setup s s'"
  by (auto simp: window_sync_def Let_def dest!: replay_setup split: if_splits)

lemma setup_ok: "same_setup s t \<Longrightarrow> window_ok s \<Longrightarrow> window_ok t"
  by (simp add: same_setup_def window_ok_def)

section \<open>The interface of the predictor\<close>

text \<open>
  What the two loops of the codec rely on. Encoder and decoder each own a state; as long as the
  states are alike, an operation that succeeds for the encoder succeeds for the decoder, leaves
  alike states, and the decoder reads the symbol that the encoder wrote.
\<close>

locale predictor =
  fixes alike :: "'s \<Rightarrow> 's \<Rightarrow> bool"
    and sync :: "nat list \<Rightarrow> 's \<Rightarrow> 's cres"
    and range_for :: "nat \<Rightarrow> 's \<Rightarrow> (symbol_range \<times> 's) cres"
    and decode :: "range_decoder \<Rightarrow> 's \<Rightarrow> (nat \<times> range_decoder \<times> 's) cres"
    and advance :: "nat \<Rightarrow> 's \<Rightarrow> 's cres"
  assumes sync_alike: "alike s t \<Longrightarrow> sync ctx s = Ok s' \<Longrightarrow> \<exists>t'. sync ctx t = Ok t' \<and> alike s' t'"
    and advance_alike: "alike s t \<Longrightarrow> advance x s = Ok s' \<Longrightarrow> \<exists>t'. advance x t = Ok t' \<and> alike s' t'"
    and decode_alike: "alike s t \<Longrightarrow> range_for x s = Ok (r, s') \<Longrightarrow> re_ok e \<Longrightarrow>
      re_encode e (sr_cum r) (ucast (sr_freq r)) (sr_total r) = Ok e' \<Longrightarrow> synced e d B \<Longrightarrow> carries e' B \<Longrightarrow>
      \<exists>d' t'. decode d t = Ok (x, d', t') \<and> synced e' d' B \<and> alike s' t'"
begin

text \<open>The encoder's loop; symbols that \<open>skip\<close> selects are not shown to the model.\<close>

definition enc_round :: "(nat \<Rightarrow> bool) \<Rightarrow> nat \<Rightarrow> nat \<Rightarrow> range_encoder \<times> 's \<times> nat list \<Rightarrow> (range_encoder \<times> 's \<times> nat list) cres" where
  "enc_round skip n x = (\<lambda>(e, s, ctx).
    rbind (sync ctx s) (\<lambda>s. rbind (range_for x s) (\<lambda>(r, s).
    rbind (map_err EncodeError (re_encode e (sr_cum r) (ucast (sr_freq r)) (sr_total r))) (\<lambda>e.
    if skip x then Ok (e, s, ctx)
    else if n \<le> x then Err (OutsideVocabulary x)
    else rbind (advance x s) (\<lambda>s. Ok (e, s, ctx @ [x]))))))"

text \<open>The decoder answers a list of symbols.\<close>

fun answers :: "(nat \<Rightarrow> bool) \<Rightarrow> nat list \<Rightarrow> range_decoder \<Rightarrow> 's \<Rightarrow> nat list \<Rightarrow> bool" where
  "answers skip [] d t ctx = True"
| "answers skip (x # xs) d t ctx = (\<exists>t1 d' t2. sync ctx t = Ok t1 \<and> decode d t1 = Ok (x, d', t2) \<and>
    (if skip x then answers skip xs d' t2 ctx
     else \<exists>t3. advance x t2 = Ok t3 \<and> answers skip xs d' t3 (ctx @ [x])))"

lemma enc_round_Ok:
  assumes "enc_round skip n x (e, s, ctx) = Ok (e', s', ctx')"
  obtains s1 r s2 where "sync ctx s = Ok s1" "range_for x s1 = Ok (r, s2)"
    "re_encode e (sr_cum r) (ucast (sr_freq r)) (sr_total r) = Ok e'"
    "if skip x then s' = s2 \<and> ctx' = ctx else advance x s2 = Ok s' \<and> ctx' = ctx @ [x]"
  using assms by (auto simp: enc_round_def split: if_splits prod.splits)

text \<open>The finished stream is carried by every earlier state of the encoder.\<close>

lemma enc_rounds_back:
  "rfold (enc_round skip n) xs (e, s, ctx) = Ok (e', s', ctx') \<Longrightarrow> re_ok e \<Longrightarrow>
    re_ok e' \<and> (carries e' B \<longrightarrow> carries e B)"
proof (induction xs arbitrary: e s ctx)
  case (Cons x xs)
  then obtain e1 s1 ctx1 where one: "enc_round skip n x (e, s, ctx) = Ok (e1, s1, ctx1)"
    and rest: "rfold (enc_round skip n) xs (e1, s1, ctx1) = Ok (e', s', ctx')" by auto
  obtain r :: symbol_range where r: "re_encode e (sr_cum r) (ucast (sr_freq r)) (sr_total r) = Ok e1"
    by (rule enc_round_Ok [OF one]) (rule that)
  from Cons.IH [OF rest rc.encode_ok' [OF Cons.prems(2) r]] rc.encode_back [OF Cons.prems(2) r] show ?case by blast
qed simp

lemma rounds_back:
  "rfold (enc_round skip n) xs (e, s, ctx) = Ok (e', s'', ctx') \<Longrightarrow> alike s t \<Longrightarrow> re_ok e \<Longrightarrow> synced e d B \<Longrightarrow>
    carries e' B \<Longrightarrow> answers skip xs d t ctx"
proof (induction xs arbitrary: e s ctx d t)
  case (Cons x xs)
  then obtain e1 s' ctx1 where one: "enc_round skip n x (e, s, ctx) = Ok (e1, s', ctx1)"
    and rest: "rfold (enc_round skip n) xs (e1, s', ctx1) = Ok (e', s'', ctx')" by auto
  obtain s1 r s2 where s1: "sync ctx s = Ok s1" and r: "range_for x s1 = Ok (r, s2)"
    and e1: "re_encode e (sr_cum r) (ucast (sr_freq r)) (sr_total r) = Ok e1"
    and s': "if skip x then s' = s2 \<and> ctx1 = ctx else advance x s2 = Ok s' \<and> ctx1 = ctx @ [x]"
    by (rule enc_round_Ok [OF one])
  have ok1: "re_ok e1" by (rule rc.encode_ok' [OF Cons.prems(3) e1])
  have c1: "carries e1 B" using enc_rounds_back [OF rest ok1] Cons.prems(5) by blast
  obtain t1 where t1: "sync ctx t = Ok t1" "alike s1 t1" using sync_alike [OF Cons.prems(2) s1] by blast
  obtain d' t2 where t2: "decode d t1 = Ok (x, d', t2)" "synced e1 d' B" "alike s2 t2"
    using decode_alike [OF t1(2) r Cons.prems(3) e1 Cons.prems(4) c1] by blast
  note IH = Cons.IH [OF rest _ ok1 t2(2) Cons.prems(5)]
  show ?case
  proof (cases "skip x")
    case True
    then show ?thesis using t1 t2 s' IH by auto
  next
    case False
    then obtain t3 where "advance x t2 = Ok t3" "alike s' t3" using advance_alike [OF t2(3)] s' by auto
    then show ?thesis using False t1 t2 s' IH by auto
  qed
qed simp

end

interpretation wp: predictor alike "\<lambda>ctx. window_sync (length ctx) ctx overlap" window_symbol_range window_decode_symbol
  window_advance for overlap
proof unfold_locales
  fix s t ctx s' assume "alike s t" and s': "window_sync (length ctx) ctx overlap s = Ok s'"
  then obtain x where t: "t = s\<lparr>wn_scratch := x\<rparr>" and ok: "window_ok s" by (auto simp: alike_def)
  show "\<exists>t'. window_sync (length ctx) ctx overlap t = Ok t' \<and> alike s' t'"
    using s' setup_ok [OF sync_setup [OF s'] ok] by (auto simp: t sync_scratch alike_def)
next
  fix s t x s' assume "alike s t" and s': "window_advance x s = Ok s'"
  then obtain sc where t: "t = s\<lparr>wn_scratch := sc\<rparr>" and ok: "window_ok s" by (auto simp: alike_def)
  have "window_ok s'" using advance_setup [OF s'] setup_ok ok by blast
  then show "\<exists>t'. window_advance x t = Ok t' \<and> alike s' t'"
    using s' by (auto simp: t advance_scratch alike_def)
next
  show "\<exists>d' t'. window_decode_symbol d t = Ok (x, d', t') \<and> synced e' d' B \<and> alike s' t'"
    if "alike s t" "window_symbol_range x s = Ok (r, s')" "re_ok e"
      "re_encode e (sr_cum r) (ucast (sr_freq r)) (sr_total r) = Ok e'" "synced e d B" "carries e' B"
    for s t x r s' e e' d B using window_decode_follows that by blast
qed

end
