(* ===== verification/Codec.thy ===== *)
theory Codec
  imports Codec_Window Sha256
begin

text \<open>
  The command line codec, \<open>compress\<close> and \<open>decompress\<close> in \<open>src/crates/det-cli/src/main.rs\<close>, as
  functions on file contents: loading the model, the two loops over the symbols, and the file with
  its header. What the loops need of the predicting state is the locale \<open>predictor\<close>.
\<close>

section \<open>The loops\<close>

definition encode_step :: "nat \<Rightarrow> bool \<Rightarrow> nat \<Rightarrow> nat \<Rightarrow> range_encoder \<times> window_state \<times> nat list \<Rightarrow>
    (range_encoder \<times> window_state \<times> nat list) cres" where
  "encode_step vocab_len escapes overlap symbol = (\<lambda>(enc, st, context_tokens).
    rbind (window_sync (length context_tokens) context_tokens overlap st) (\<lambda>st.
    rbind (window_symbol_range symbol st) (\<lambda>(range, st).
    rbind (map_err EncodeError (re_encode enc (sr_cum range) (ucast (sr_freq range)) (sr_total range))) (\<lambda>enc.
    if escapes \<and> \<not> codec_symbol_is_token symbol vocab_len then Ok (enc, st, context_tokens)
    else if vocab_len \<le> symbol then Err (OutsideVocabulary symbol)
    else rbind (window_advance symbol st) (\<lambda>st. Ok (enc, st, context_tokens @ [symbol]))))))"

definition encode_symbols_with_model :: "llama \<Rightarrow> nat list \<Rightarrow> nat \<Rightarrow> nat \<Rightarrow> bool \<Rightarrow> u8 list cres" where
  "encode_symbols_with_model model symbols n_ctx overlap escapes =
    rbind (validate_window n_ctx overlap (context_length (ll_config model))) (\<lambda>_.
    rbind (window_new model n_ctx escapes) (\<lambda>st.
    rbind (rfold (encode_step (rows (ll_output model)) escapes overlap) symbols (re_new, st, [])) (\<lambda>(enc, _, _).
    Ok (re_finish enc))))"

text \<open>The state of the decoding loop: decoder, predictor, context, symbols and bytes so far.\<close>

type_synonym decode_state = "range_decoder \<times> window_state \<times> nat list \<times> nat list \<times> u8 list"

definition symbol_piece :: "tokenizer \<Rightarrow> nat \<Rightarrow> bool \<Rightarrow> nat \<Rightarrow> u8 list cres" where
  "symbol_piece tokenizer vocab_len escapes symbol =
    (if escapes then map_err DetokenizeError (decode_codec_symbol tokenizer symbol vocab_len)
     else if 2 ^ 32 \<le> symbol then Err (TokenTooLarge symbol)
     else map_err DetokenizeError (detokenize_bytes tokenizer [word_of_nat symbol]))"

definition decode_step :: "tokenizer \<Rightarrow> nat \<Rightarrow> bool \<Rightarrow> nat \<Rightarrow> decode_state \<Rightarrow> decode_state cres" where
  "decode_step tokenizer vocab_len escapes overlap = (\<lambda>(dec, st, context_tokens, symbols, bytes).
    rbind (window_sync (length context_tokens) context_tokens overlap st) (\<lambda>st.
    rbind (window_decode_symbol dec st) (\<lambda>(symbol, dec, st).
    rbind (symbol_piece tokenizer vocab_len escapes symbol) (\<lambda>piece.
    if piece = [] then Err (EmptySymbol symbol)
    else if escapes \<and> \<not> codec_symbol_is_token symbol vocab_len
    then Ok (dec, st, context_tokens, symbols @ [symbol], bytes @ piece)
    else rbind (window_advance symbol st) (\<lambda>st.
      Ok (dec, st, context_tokens @ [symbol], symbols @ [symbol], bytes @ piece))))))"

lemma decode_step_grows:
  "decode_step tk vocab escapes overlap (dec, st, ctx, syms, bytes) = Ok (dec', st', ctx', syms', bytes') \<Longrightarrow>
    length bytes < length bytes'"
  by (auto simp: decode_step_def split: if_splits prod.splits)

function decode_loop :: "tokenizer \<Rightarrow> nat \<Rightarrow> bool \<Rightarrow> nat \<Rightarrow> nat \<Rightarrow> decode_state \<Rightarrow> decode_state cres" where
  "decode_loop tk vocab_len escapes overlap byte_len (dec, st, ctx, symbols, bytes) =
    (if length bytes < byte_len
     then rbind (decode_step tk vocab_len escapes overlap (dec, st, ctx, symbols, bytes))
            (decode_loop tk vocab_len escapes overlap byte_len)
     else Ok (dec, st, ctx, symbols, bytes))"
  by pat_completeness auto
termination
  by (relation "measure (\<lambda>(tk, vocab_len, escapes, overlap, byte_len, dec, st, ctx, symbols, bytes). byte_len - length bytes)")
    (auto dest: decode_step_grows)

declare decode_loop.simps [simp del]

record decoded_bytes =
  db_bytes :: "u8 list"
  db_symbols :: "nat list"

definition decode_bytes_with_model ::
  "llama \<Rightarrow> tokenizer \<Rightarrow> u8 list \<Rightarrow> nat \<Rightarrow> nat \<Rightarrow> nat \<Rightarrow> bool \<Rightarrow> decoded_bytes cres" where
  "decode_bytes_with_model model tokenizer payload byte_len n_ctx overlap escapes =
    rbind (validate_window n_ctx overlap (context_length (ll_config model))) (\<lambda>_.
    rbind (map_err DecoderError (rd_new payload)) (\<lambda>dec.
    rbind (window_new model n_ctx escapes) (\<lambda>st.
    rbind (decode_loop tokenizer (rows (ll_output model)) escapes overlap byte_len (dec, st, [], [], [])) (\<lambda>(_, _, _, symbols, bytes).
    Ok \<lparr>db_bytes = bytes, db_symbols = symbols\<rparr>))))"

section \<open>Loading the model\<close>

record loaded_model =
  lm_sha256 :: "u8 list"
  lm_model :: llama
  lm_tokenizer :: tokenizer

definition gguf_token_vocab_len :: "gguf \<Rightarrow> nat cres" where
  "gguf_token_vocab_len g =
    (case metadata_at g (ascii ''tokenizer.ggml.tokens'') of
       Ok (ArrayString tokens) \<Rightarrow> Ok (length tokens)
     | Ok _ \<Rightarrow> Err TokensWrongType
     | Err e \<Rightarrow> Err (TokensMissing e)
     | Panic \<Rightarrow> Panic | Diverge \<Rightarrow> Diverge)"

definition validate_vocab_lengths :: "nat \<Rightarrow> nat \<Rightarrow> unit cres" where
  "validate_vocab_lengths tokenizer_vocab_len model_vocab_len =
    (if tokenizer_vocab_len \<noteq> model_vocab_len then Err (VocabMismatch tokenizer_vocab_len model_vocab_len) else Ok ())"

definition validate_tokenizer_model_vocab_len :: "nat \<Rightarrow> llama \<Rightarrow> unit cres" where
  "validate_tokenizer_model_vocab_len n model = validate_vocab_lengths n (rows (ll_output model))"

definition validate_codec_vocab_len :: "nat \<Rightarrow> unit cres" where
  "validate_codec_vocab_len vocab_len =
    rbind (ok_or SymbolCountOverflow (checked_add_usize vocab_len BYTE_ESCAPE_SYMBOLS)) (\<lambda>symbol_count.
    if MAX_SYMBOLS < symbol_count then Err (VocabTooLarge vocab_len) else Ok ())"

text \<open>\<open>LoadedModel::load\<close> on the content of the file.\<close>

definition load_model :: "u8 list \<Rightarrow> loaded_model cres" where
  "load_model bytes =
    rbind (sha_update sha_new bytes) (\<lambda>hasher. rbind (sha_finalize hasher) (\<lambda>digest.
    rbind (map_err GgufError (parse bytes)) (\<lambda>g.
    rbind (gguf_token_vocab_len g) (\<lambda>tokenizer_vocab_len.
    rbind (map_err TokenizerError (from_gguf g)) (\<lambda>tokenizer.
    rbind (map_err ModelError (llama_from_gguf g bytes)) (\<lambda>model.
    rbind (validate_tokenizer_model_vocab_len tokenizer_vocab_len model) (\<lambda>_.
    rbind (validate_codec_vocab_len (rows (ll_output model))) (\<lambda>_.
    Ok \<lparr>lm_sha256 = digest, lm_model = model, lm_tokenizer = tokenizer\<rparr>))))))))"

section \<open>The two commands\<close>

definition compress :: "u8 list \<Rightarrow> u8 list \<Rightarrow> nat option \<Rightarrow> u8 list cres" where
  "compress model_file input n_ctx =
    rbind (load_model model_file) (\<lambda>loaded.
    rbind (map_err TokenizeError (codec_symbols (lm_tokenizer loaded) input (rows (ll_output (lm_model loaded))))) (\<lambda>symbols.
    let n_ctx = (case n_ctx of Some n \<Rightarrow> n | None \<Rightarrow> context_length (ll_config (lm_model loaded)));
        overlap = n_ctx div 4 in
    rbind (validate_window n_ctx overlap (context_length (ll_config (lm_model loaded)))) (\<lambda>_.
    rbind (encode_symbols_with_model (lm_model loaded) symbols n_ctx overlap True) (\<lambda>payload.
    let header = \<lparr>h_flags = FLAG_BYTE_ESCAPES, h_model_sha256 = lm_sha256 loaded, h_n_ctx = word_of_nat n_ctx,
                  h_overlap = word_of_nat overlap, h_orig_len = word_of_nat (length input)\<rparr> in
    rbind (map_err HeaderError (header_encode_checked header)) (\<lambda>out.
    Ok (out @ payload))))))"

definition decompress :: "u8 list \<Rightarrow> u8 list \<Rightarrow> u8 list cres" where
  "decompress model_file encoded =
    rbind (map_err HeaderError (header_decode encoded)) (\<lambda>header.
    rbind (ok_or TruncatedPayload (get_range encoded HEADER_LEN (length encoded))) (\<lambda>payload.
    rbind (load_model model_file) (\<lambda>loaded.
    if lm_sha256 loaded \<noteq> h_model_sha256 header then Err ModelMismatch
    else
      let n_ctx = unat (h_n_ctx header); overlap = unat (h_overlap header) in
      rbind (validate_window n_ctx overlap (context_length (ll_config (lm_model loaded)))) (\<lambda>_.
      let escapes = (h_flags header AND FLAG_BYTE_ESCAPES \<noteq> 0); restored_len = unat (h_orig_len header) in
      rbind (decode_bytes_with_model (lm_model loaded) (lm_tokenizer loaded) payload restored_len n_ctx overlap escapes) (\<lambda>decoded.
      rbind (encode_symbols_with_model (lm_model loaded) (db_symbols decoded) n_ctx overlap escapes) (\<lambda>canonical_payload.
      if canonical_payload \<noteq> payload then Err NonCanonical
      else slice_at (db_bytes decoded) 0 restored_len))))))"

section \<open>The decoder follows the encoder\<close>

abbreviation byte_symbol :: "bool \<Rightarrow> nat \<Rightarrow> nat \<Rightarrow> bool" where
  "byte_symbol escapes vocab_len symbol \<equiv> escapes \<and> \<not> codec_symbol_is_token symbol vocab_len"

lemma encode_step_round:
  "encode_step vocab_len escapes overlap = wp.enc_round overlap (byte_symbol escapes vocab_len) vocab_len"
  by (intro ext) (auto simp: encode_step_def wp.enc_round_def)

lemma decode_step_answered:
  assumes "window_sync (length ctx) ctx overlap t = Ok t1" "window_decode_symbol d t1 = Ok (x, d', t2)"
    and "symbol_piece tk n escapes x = Ok p" "p \<noteq> []"
  shows "decode_step tk n escapes overlap (d, t, ctx, syms, bytes) =
    (if byte_symbol escapes n x then Ok (d', t2, ctx, syms @ [x], bytes @ p)
     else rbind (window_advance x t2) (\<lambda>t3. Ok (d', t3, ctx @ [x], syms @ [x], bytes @ p)))"
  using assms by (simp add: decode_step_def)

lemma decode_loop_answers:
  assumes "list_all2 (\<lambda>x p. symbol_piece tk n escapes x = Ok p \<and> p \<noteq> []) xs parts"
    and "wp.answers overlap (byte_symbol escapes n) xs d t ctx"
  shows "\<exists>d' t' ctx'. decode_loop tk n escapes overlap (length bytes + length (concat parts)) (d, t, ctx, syms, bytes) =
    Ok (d', t', ctx', syms @ xs, bytes @ concat parts)"
  using assms
proof (induction xs parts arbitrary: d t ctx syms bytes rule: list_all2_induct)
  case Nil
  then show ?case by (simp add: decode_loop.simps)
next
  case (Cons x xs p parts)
  obtain t1 d' t2 where t1: "window_sync (length ctx) ctx overlap t = Ok t1" "window_decode_symbol d t1 = Ok (x, d', t2)"
    and rest: "if byte_symbol escapes n x then wp.answers overlap (byte_symbol escapes n) xs d' t2 ctx
     else \<exists>t3. window_advance x t2 = Ok t3 \<and> wp.answers overlap (byte_symbol escapes n) xs d' t3 (ctx @ [x])"
    using Cons.prems by (simp only: wp.answers.simps) blast
  obtain t3 ctx' where step: "decode_step tk n escapes overlap (d, t, ctx, syms, bytes) =
      Ok (d', t3, ctx', syms @ [x], bytes @ p)" and "wp.answers overlap (byte_symbol escapes n) xs d' t3 ctx'"
    using rest decode_step_answered [OF t1, of tk n escapes p syms bytes] Cons.hyps by (auto split: if_splits)
  from Cons.IH [OF this(2), where syms = "syms @ [x]" and bytes = "bytes @ p"] step Cons.hyps show ?case
    by (subst decode_loop.simps) (simp add: add.assoc)
qed

text \<open>What was encoded with a model, a decoder with the same model answers.\<close>

lemma encoded_answers:
  assumes enc: "encode_symbols_with_model model xs n_ctx overlap escapes = Ok payload"
  obtains s d where "validate_window n_ctx overlap (context_length (ll_config model)) = Ok ()"
    "window_new model n_ctx escapes = Ok s" "rd_new payload = Ok d"
    "wp.answers overlap (byte_symbol escapes (rows (ll_output model))) xs d s []"
proof -
  let ?n = "rows (ll_output model)"
  obtain s e s' ctx' where val: "validate_window n_ctx overlap (context_length (ll_config model)) = Ok ()"
    and s: "window_new model n_ctx escapes = Ok s"
    and run: "rfold (wp.enc_round overlap (byte_symbol escapes ?n) ?n) xs (re_new, s, []) = Ok (e, s', ctx')"
    and payload: "payload = re_finish e"
    using enc by (auto simp: encode_symbols_with_model_def encode_step_round)
  have al: "alike s s" using window_new_window_ok [OF s] by (auto simp: alike_def intro!: exI [of _ "wn_scratch s"])
  have carried: "re_ok e \<and> (carries e payload \<longrightarrow> carries re_new payload)"
    by (rule wp.enc_rounds_back [OF run rc.start_ok])
  then have fin: "carries e payload" using rc.finish_carried carried payload by blast
  obtain d where d: "rd_new payload = Ok d" "synced re_new d payload" using rc.open_in_step carried fin by blast
  have "wp.answers overlap (byte_symbol escapes ?n) xs d s []"
    by (rule wp.rounds_back [OF run al rc.start_ok d(2) fin])
  then show ?thesis by (rule that [OF val s d(1)])
qed

text \<open>Encoding and decoding with one model, for any symbols that the tokenizer turns into pieces.\<close>

lemma decode_encoded:
  assumes enc: "encode_symbols_with_model model xs n_ctx overlap escapes = Ok payload"
    and pieces: "list_all2 (\<lambda>x p. symbol_piece tk (rows (ll_output model)) escapes x = Ok p \<and> p \<noteq> []) xs parts"
  shows "decode_bytes_with_model model tk payload (length (concat parts)) n_ctx overlap escapes =
    Ok \<lparr>db_bytes = concat parts, db_symbols = xs\<rparr>"
proof -
  obtain s d where "validate_window n_ctx overlap (context_length (ll_config model)) = Ok ()"
    "window_new model n_ctx escapes = Ok s" "rd_new payload = Ok d"
    "wp.answers overlap (byte_symbol escapes (rows (ll_output model))) xs d s []"
    by (rule encoded_answers [OF enc])
  with decode_loop_answers [OF pieces this(4), of "[]" "[]"] show ?thesis by (auto simp: decode_bytes_with_model_def)
qed

section \<open>The loaded model\<close>

lemma hash_of_file: "rbind (sha_update sha_new bytes) sha_finalize = (Ok (sha256_spec bytes) :: u8 list cres)"
  using sha_update_chunks [of "[bytes]"] by simp

lemma config_context_small: "config_from_gguf g = Ok c \<Longrightarrow> context_length c < 2 ^ 32"
proof -
  have small: "unat (w :: u32) < 4294967296" for w using unsigned_less [of w] by simp
  assume "config_from_gguf g = Ok c"
  then show ?thesis by (auto simp: config_from_gguf_def Let_def small split: if_splits)
qed

lemma llama_context_small: "llama_from_gguf g bytes = Ok m \<Longrightarrow> context_length (ll_config m) < 2 ^ 32"
  by (rule config_context_small) (auto simp: llama_from_gguf_def Let_def)

lemma token_vocab_len: "gguf_token_vocab_len g = Ok n \<longleftrightarrow> (\<exists>tokens. gguf_tokens g = Ok tokens \<and> length tokens = n)"
  by (auto simp: gguf_token_vocab_len_def gguf_tokens_def split: res.splits metadata_value.splits gguf_error.splits)

lemma load_model_Ok:
  assumes "load_model bytes = Ok l"
  shows "lm_sha256 l = sha256_spec bytes" "tk_valid (lm_tokenizer l) (rows (ll_output (lm_model l)))"
    "context_length (ll_config (lm_model l)) < 2 ^ 32"
proof -
  obtain h g n tk m where hash: "(sha_update sha_new bytes :: sha256 cres) = Ok h" "sha_finalize h = (Ok (lm_sha256 l) :: u8 list cres)"
    and n: "gguf_token_vocab_len g = Ok n" and tk: "from_gguf g = Ok tk" and m: "llama_from_gguf g bytes = Ok m"
    and v: "validate_tokenizer_model_vocab_len n m = Ok ()"
    and l: "lm_model l = m" "lm_tokenizer l = tk"
    using assms by (auto simp: load_model_def)
  show "lm_sha256 l = sha256_spec bytes" using hash_of_file [of bytes] hash by auto
  show "context_length (ll_config (lm_model l)) < 2 ^ 32" using llama_context_small [OF m] l by simp
  have "rows (ll_output m) = n"
    using v by (auto simp: validate_tokenizer_model_vocab_len_def validate_vocab_lengths_def split: if_splits)
  then show "tk_valid (lm_tokenizer l) (rows (ll_output (lm_model l)))"
    using n tk l by (metis token_vocab_len from_gguf_valid)
qed

section \<open>Decompressing what was compressed\<close>

lemma decompress_restores:
  assumes "compress model_file input n_ctx = Ok out" and "length input \<le> usize_max"
  shows "decompress model_file out = Ok input"
proof -
  obtain l syms where l: "load_model model_file = Ok l"
    and syms: "codec_symbols (lm_tokenizer l) input (rows (ll_output (lm_model l))) = Ok syms"
    using assms(1) by (auto simp: compress_def)
  let ?m = "lm_model l" and ?n = "rows (ll_output (lm_model l))"
  define w where "w = (case n_ctx of Some n \<Rightarrow> n | None \<Rightarrow> context_length (ll_config ?m))"
  define h where "h = \<lparr>h_flags = FLAG_BYTE_ESCAPES, h_model_sha256 = lm_sha256 l, h_n_ctx = word_of_nat w,
    h_overlap = word_of_nat (w div 4), h_orig_len = word_of_nat (length input)\<rparr>"
  obtain payload where val: "validate_window w (w div 4) (context_length (ll_config ?m)) = Ok ()"
    and enc: "encode_symbols_with_model ?m syms w (w div 4) True = Ok payload"
    and out: "out = header_encode h @ payload" and hv: "header_validate h = Ok ()"
    using assms(1) by (auto simp: compress_def l syms w_def [symmetric] h_def [symmetric] Let_def header_encode_checked_def
        simp del: header_validate_Ok_iff)
  have w: "w < 2 ^ 32" "w div 4 < 2 ^ 32"
    using val load_model_Ok(3) [OF l] by (auto simp: validate_window_def split: if_splits)
  have fields: "unat (h_n_ctx h) = w" "unat (h_overlap h) = w div 4" "unat (h_orig_len h) = length input"
    "h_flags h AND FLAG_BYTE_ESCAPES \<noteq> 0" "h_model_sha256 h = lm_sha256 l"
    using w assms(2) by (simp_all add: h_def unsigned_of_nat take_bit_nat_eq_self usize_max_def FLAG_BYTE_ESCAPES_def)
  have wf: "header_wf h" using load_model_Ok(1) [OF l] by (simp add: header_wf_def h_def)
  have dec: "header_decode out = Ok h"
    using header_decode_written [OF wf hv] by (simp add: out header_encode_layout wf)
  have "length (header_encode h) = HEADER_LEN" by (rule header_encode_length [OF wf])
  then have pay: "get_range out HEADER_LEN (length out) = Some payload"
    by (simp add: out get_range_def slice_def)
  obtain parts where parts: "traverse (\<lambda>s. decode_codec_symbol (lm_tokenizer l) s ?n) syms = Ok parts"
      "concat parts = input" "[] \<notin> set parts"
    using codec_symbols_back [OF load_model_Ok(2) [OF l], of input] syms by auto
  then have "list_all2 (\<lambda>x p. decode_codec_symbol (lm_tokenizer l) x ?n = Ok p) syms parts" by (simp add: traverse_Ok_iff)
  then have "list_all2 (\<lambda>x p. symbol_piece (lm_tokenizer l) ?n True x = Ok p \<and> p \<noteq> []) syms parts"
    using parts(3) by (auto simp: list_all2_conv_all_nth symbol_piece_def dest: nth_mem)
  from decode_encoded [OF enc this] have "decode_bytes_with_model ?m (lm_tokenizer l) payload (length input) w (w div 4) True =
      Ok \<lparr>db_bytes = input, db_symbols = syms\<rparr>" by (simp add: parts(2))
  then show ?thesis
    using fields by (simp add: decompress_def dec pay l val enc Let_def slice_at_def)
qed

end
