(* ===== verification/Codec_Run.thy ===== *)
theory Codec_Run
  imports Codec_Window
begin

text \<open>
  The states the codec's loops can reach, as a step relation over the operations of the predictor,
  and the invariant of all of them: cache and logits are those of a run of the reference step over
  the tokens of the window, from an empty cache.
\<close>

section \<open>Reachable states\<close>

text \<open>\<open>window_reach m n overlap escapes ctx ready s\<close>: the state \<open>s\<close> for the context \<open>ctx\<close>; \<open>ready\<close>
  says that the window was synchronised after the last token.\<close>

inductive window_reach :: "llama \<Rightarrow> nat \<Rightarrow> nat \<Rightarrow> bool \<Rightarrow> nat list \<Rightarrow> bool \<Rightarrow> window_state \<Rightarrow> bool"
  for m n overlap escapes where
  start: "window_new m n escapes = Ok s \<Longrightarrow> window_reach m n overlap escapes [] False s"
| sync: "window_reach m n overlap escapes ctx ready s \<Longrightarrow> window_sync (length ctx) ctx overlap s = Ok s' \<Longrightarrow>
    window_reach m n overlap escapes ctx True s'"
| encode: "window_reach m n overlap escapes ctx True s \<Longrightarrow> window_symbol_range symbol s = Ok (r, s') \<Longrightarrow>
    window_reach m n overlap escapes ctx True s'"
| decode: "window_reach m n overlap escapes ctx True s \<Longrightarrow> window_decode_symbol dec s = Ok (symbol, dec', s') \<Longrightarrow>
    window_reach m n overlap escapes ctx True s'"
| advance: "window_reach m n overlap escapes ctx True s \<Longrightarrow> window_advance token s = Ok s' \<Longrightarrow>
    window_reach m n overlap escapes (ctx @ [token]) False s'"

lemma predictions_frame:
  "window_symbol_range symbol s = Ok (r, s') \<Longrightarrow> \<exists>scratch. s' = s\<lparr>wn_scratch := scratch\<rparr>"
  "window_decode_symbol dec s = Ok (x, dec', s') \<Longrightarrow> \<exists>scratch. s' = s\<lparr>wn_scratch := scratch\<rparr>"
  by (auto simp: window_symbol_range_def window_decode_symbol_def case_prod_unfold split: if_splits
      intro: exI [of _ "wn_scratch s"])

text \<open>The reference run over the tokens of a window.\<close>

definition fresh_run :: "llama \<Rightarrow> nat \<Rightarrow> nat list \<Rightarrow> (nat \<times> kv_cache \<times> f32 list) mres" where
  "fresh_run m n tokens =
    rbind (rope_llama (ll_config m) n) (\<lambda>rope. rbind (kv_new (ll_config m)) (\<lambda>cache. rbind (head_dim (ll_config m)) (\<lambda>dh.
    rfold (visit_ref m rope dh (\<lambda>logits _. logits)) tokens (0, cache, zeros (rows (ll_output m))))))"

definition window_inv :: "llama \<Rightarrow> nat \<Rightarrow> nat \<Rightarrow> nat list \<Rightarrow> window_state \<Rightarrow> bool" where
  "window_inv m n dh ctx s \<longleftrightarrow> wn_model s = m \<and> wn_n_ctx s = n \<and> rope_llama (ll_config m) n = Ok (wn_rope s) \<and>
    run_ok m dh n (wn_rope s) \<and> wn_window_start s + wn_context_len s = length ctx \<and> wn_context_len s \<le> n \<and>
    fresh_run m n (drop (wn_window_start s) ctx) = Ok (wn_context_len s, wn_cache s, wn_logits s) \<and>
    buffers_ok (ll_config m) dh n (wn_workspace s) \<and> cache_ok (ll_config m) dh (wn_cache s) \<and>
    length (wn_logits s) = rows (ll_output m)"

lemma fresh_run_snoc: "fresh_run m n (ts @ [t]) = rbind (fresh_run m n ts) (\<lambda>s.
    rbind (rope_llama (ll_config m) n) (\<lambda>rope. rbind (head_dim (ll_config m)) (\<lambda>dh.
    visit_ref m rope dh (\<lambda>logits _. logits) t s)))"
  by (cases "rope_llama (ll_config m) n"; cases "kv_new (ll_config m)"; cases "head_dim (ll_config m)")
    (auto simp: fresh_run_def rfold_append intro!: rbind_cong)

lemma rel_res_Ok: "rel_res P (Ok x) r \<Longrightarrow> \<exists>y. r = Ok y \<and> P x y"
  by (cases r) auto

section \<open>Every operation keeps the invariant\<close>

lemma new_inv:
  assumes "llama_wf m" "window_new m n escapes = Ok s"
  shows "\<exists>dh. window_inv m n dh [] s"
proof -
  obtain rope cache ws where r: "rope_llama (ll_config m) n = Ok rope" and c: "kv_new (ll_config m) = Ok cache"
    and ws: "forward_workspace m n = Ok ws"
    and s: "wn_model s = m" "wn_n_ctx s = n" "wn_rope s = rope" "wn_cache s = cache" "wn_workspace s = ws"
      "wn_window_start s = 0" "wn_context_len s = 0" "wn_logits s = zeros (rows (ll_output m))"
    using assms(2) by (auto simp: window_new_def zeros_def)
  obtain dh where dh: "head_dim (ll_config m) = Ok dh" using rope_llama_facts(5) [OF r] by blast
  note run = run_prepared [OF r ws assms(1) dh]
  show ?thesis using run kv_new_cache_ok [OF c dh]
    by (intro exI [of _ dh]) (simp add: window_inv_def s r fresh_run_def c dh)
qed

lemma advance_inv:
  assumes inv: "window_inv m n dh ctx s" and s': "window_advance token s = Ok s'"
  shows "window_inv m n dh (ctx @ [token]) s'"
proof -
  have run: "run_ok m dh n (wn_rope s)" and dh: "head_dim (ll_config m) = Ok dh" and wf: "llama_wf m"
    and s: "wn_model s = m" "wn_n_ctx s = n" "rope_llama (ll_config m) n = Ok (wn_rope s)"
    and buf: "buffers_ok (ll_config m) dh n (wn_workspace s)" and cache: "cache_ok (ll_config m) dh (wn_cache s)"
    and log: "length (wn_logits s) = rows (ll_output m)"
    using inv by (auto simp: window_inv_def run_ok_def)
  obtain c l ws where room: "wn_context_len s < n"
    and f: "forward_one_with_workspace m token (wn_context_len s) (wn_rope s) (wn_cache s) (wn_logits s) (wn_workspace s) = Ok (c, l, ws)"
    and s'_eq: "s' = s\<lparr>wn_cache := c, wn_logits := l, wn_workspace := ws, wn_context_len := wn_context_len s + 1\<rparr>"
    using s' by (auto simp: window_advance_def s split: if_splits)
  have mc: "ws_max_context (wn_workspace s) = n" using buf by (simp add: buffers_ok_def)
  from rel_res_Ok [OF forward_refines [of "wn_logits s" "wn_workspace s" m token "wn_context_len s" "wn_rope s" "wn_cache s", unfolded f]]
  obtain dh' where dh': "forward_checks m token (wn_context_len s) (wn_rope s) (wn_cache s) (length (wn_logits s)) = Ok dh'"
    and ref: "forward_ref m dh' token (wn_context_len s) (wn_rope s) (wn_cache s) = Ok (c, l)"
    and l: "length l = length (wn_logits s)" and buf': "buffers_ok (ll_config m) dh n ws"
    by (auto simp: dh mc)
  have [simp]: "dh' = dh" using forward_checks_Ok(2) [OF dh'] dh by simp
  note checks = dh' [simplified]
  have "cache_ok (ll_config m) dh c" using forward_ref_yields [OF checks wf cache] ref by simp
  moreover have "wn_window_start s \<le> length ctx" using inv by (simp add: window_inv_def)
  ultimately show ?thesis
    using inv room buf' l ref by (auto simp: window_inv_def s'_eq fresh_run_snoc s dh visit_ref_def)
qed

lemma advances_inv:
  "window_inv m n dh ctx s \<Longrightarrow> rfold window_advance ts s = Ok s' \<Longrightarrow> window_inv m n dh (ctx @ ts) s'"
proof (induction ts arbitrary: s ctx)
  case (Cons t ts)
  then obtain s1 where "window_advance t s = Ok s1" "rfold window_advance ts s1 = Ok s'" by auto
  then show ?case using Cons.IH [of "ctx @ [t]" s1] advance_inv [OF Cons.prems(1)] by simp
qed simp

lemma replay_inv:
  assumes inv: "window_inv m n dh ctx s" and k: "k \<le> length ctx" and s': "window_replay k (drop k ctx) s = Ok s'"
  shows "window_inv m n dh ctx s'"
proof -
  obtain c where c: "kv_new (ll_config m) = Ok c" and run: "rfold window_advance (drop k ctx)
      (s\<lparr>wn_cache := c, wn_logits := zeros (length (wn_logits s)), wn_window_start := k, wn_context_len := 0\<rparr>) = Ok s'"
    using s' inv by (auto simp: window_replay_def window_inv_def zeros_def)
  have "head_dim (ll_config m) = Ok dh" using inv by (simp add: window_inv_def run_ok_def)
  then have "window_inv m n dh (take k ctx)
      (s\<lparr>wn_cache := c, wn_logits := zeros (length (wn_logits s)), wn_window_start := k, wn_context_len := 0\<rparr>)"
    using inv k c kv_new_cache_ok [OF c] by (simp add: window_inv_def fresh_run_def)
  from advances_inv [OF this run] show ?thesis by simp
qed

lemma next_start:
  assumes "start \<le> pos" "overlap < n"
  defines "k \<equiv> next_window_start pos start n overlap"
  shows "k \<le> pos" "pos - k < n" "k \<noteq> start \<Longrightarrow> pos - k = overlap"
  using assms(1,2) by (auto simp: k_def next_window_start_def)

lemma sync_inv:
  assumes inv: "window_inv m n dh ctx s" and ov: "overlap < n" and s': "window_sync (length ctx) ctx overlap s = Ok s'"
  shows "window_inv m n dh ctx s' \<and> wn_context_len s' < n \<and>
    (s' = s \<or> wn_context_len s' = overlap)"
proof -
  define k where "k = next_window_start (length ctx) (wn_window_start s) n overlap"
  have s: "wn_n_ctx s = n" "wn_window_start s \<le> length ctx" "wn_context_len s = length ctx - wn_window_start s"
    using inv by (auto simp: window_inv_def)
  note k = next_start [OF s(2) ov, folded k_def]
  show ?thesis
  proof (cases "k = wn_window_start s")
    case True
    then have "s' = s" using s' s by (simp add: window_sync_def k_def [symmetric])
    then show ?thesis using inv k(2) s True by simp
  next
    case False
    then have r: "window_replay k (drop k ctx) s = Ok s'"
      using s' s k(1) by (auto simp: window_sync_def k_def [symmetric] slice_at_def slice_def)
    have inv': "window_inv m n dh ctx s'" by (rule replay_inv [OF inv k(1) r])
    have "wn_window_start s' = k" using replay_setup [OF r] by simp
    then have "wn_context_len s' = length ctx - k" using inv' by (auto simp: window_inv_def)
    then show ?thesis using inv' k False by simp
  qed
qed

lemma reach_inv:
  assumes "window_reach m n overlap escapes ctx ready s" "llama_wf m" "overlap < n"
  shows "\<exists>dh. window_inv m n dh ctx s \<and> (wn_window_start s = 0 \<or> overlap \<le> wn_context_len s) \<and>
    (ready \<longrightarrow> wn_context_len s < n)"
  using assms
proof (induction rule: window_reach.induct)
  case (start s)
  then show ?case using new_inv [of m n escapes s] by (auto simp: window_new_def)
next
  case (sync ctx ready s s')
  then obtain dh where "window_inv m n dh ctx s" "wn_window_start s = 0 \<or> overlap \<le> wn_context_len s" by blast
  with sync_inv [OF this(1) sync.prems(2) sync.hyps(2)] show ?case by auto
next
  case (encode ctx s symbol r s')
  then show ?case using predictions_frame(1) [OF encode.hyps(2)] by (auto simp: window_inv_def)
next
  case (decode ctx s dec symbol dec' s')
  then show ?case using predictions_frame(2) [OF decode.hyps(2)] by (auto simp: window_inv_def)
next
  case (advance ctx s token s')
  then obtain dh where inv: "window_inv m n dh ctx s" "wn_window_start s = 0 \<or> overlap \<le> wn_context_len s" by blast
  have "wn_window_start s' = wn_window_start s" "wn_context_len s' = wn_context_len s + 1"
    using advance.hyps(2) by (auto simp: window_advance_def split: if_splits)
  then show ?case using advance_inv [OF inv(1) advance.hyps(2)] inv(2) by auto
qed

end
