(* ===== verification/Ascii.thy ===== *)
theory Ascii
  imports Token_Vocab
begin

text \<open>
  The strings of the code as byte lists: \<open>ascii\<close> is injective and respects concatenation, so that
  lookups of string keys are decided on the characters.
\<close>

lemma length_ascii [simp]: "length (ascii s) = length s"
  by (simp add: ascii_def)

lemma ascii_eq_iff [simp]: "ascii s = ascii t \<longleftrightarrow> s = t"
proof -
  have "c = d" if "(of_char c :: u8) = of_char d" for c d :: char
  proof -
    have small: "of_char c < (256 :: nat)" for c :: char using nat_of_char_less_256 .
    have "unat (of_char c :: u8) = of_char c" for c :: char
    proof -
      have "unat (of_char c :: u8) = unat (word_of_nat (of_char c) :: u8)" by (simp only: of_nat_of_char)
      also have "\<dots> = of_char c" using small [of c] by (simp add: unsigned_of_nat take_bit_nat_eq_self del: of_nat_of_char)
      finally show ?thesis .
    qed
    then have "(of_char c :: nat) = of_char d" using that by metis
    then show ?thesis by simp
  qed
  then have "inj (of_char :: char \<Rightarrow> u8)" by (rule injI)
  then show ?thesis by (simp add: ascii_def inj_map_eq_map)
qed

lemma map_of_ascii: "map_of (map (\<lambda>(k, v). (ascii k, v)) xs) (ascii k) = map_of xs k"
  by (induction xs) auto

lemma ascii_append [simp]: "ascii s @ ascii t = ascii (s @ t)"
  by (simp add: ascii_def)

end
