(* ===== verification/Small_Model.thy ===== *)
theory Small_Model
  imports Model_Load Ascii
begin

text \<open>
  A complete model file with one layer, one token and zero weights, and the proof that it is parsed
  and loaded: the concrete input of the properties that start from a model file.
\<close>

section \<open>The file\<close>

definition small_entries :: "(string \<times> metadata_value) list" where
  "small_entries = [
    (''general.architecture'', MString (ascii ''llama'')),
    (''llama.attention.head_count'', MU32 1), (''llama.embedding_length'', MU32 2), (''llama.block_count'', MU32 1),
    (''llama.feed_forward_length'', MU32 1), (''llama.context_length'', MU32 4),
    (''llama.attention.layer_norm_rms_epsilon'', MF32 0x3f800000), (''llama.rope.freq_base'', MF32 0x3f800000),
    (''tokenizer.ggml.model'', MString (ascii ''gpt2'')), (''tokenizer.ggml.tokens'', ArrayString [ascii ''a''])]"

definition small_meta :: "(str \<times> metadata_value) list" where
  "small_meta = map (\<lambda>(k, v). (ascii k, v)) small_entries"

text \<open>Every tensor has its own 32 bytes.\<close>

definition small_info :: "nat \<Rightarrow> string \<times> u64 list \<Rightarrow> tensor_info" where
  "small_info i = (\<lambda>(name, dims). \<lparr>t_name = ascii name, t_dimensions = dims, t_ty = GF32, t_offset = word_of_nat (32 * i)\<rparr>)"

definition small_shapes :: "(string \<times> u64 list) list" where
  "small_shapes = [(''token_embd.weight'', [2, 1]), (''output_norm.weight'', [2]), (''blk.0.attn_norm.weight'', [2]),
    (''blk.0.attn_q.weight'', [2, 2]), (''blk.0.attn_k.weight'', [2, 2]), (''blk.0.attn_v.weight'', [2, 2]),
    (''blk.0.attn_output.weight'', [2, 2]), (''blk.0.ffn_norm.weight'', [2]), (''blk.0.ffn_gate.weight'', [2, 1]),
    (''blk.0.ffn_up.weight'', [2, 1]), (''blk.0.ffn_down.weight'', [1, 2])]"

definition small_tensors :: "tensor_info list" where
  "small_tensors = map (\<lambda>(i, s). small_info i s) (enumerate 0 small_shapes)"

definition small_header :: "u8 list" where "small_header = put_header 3 small_meta small_tensors"

definition small_start :: nat where "small_start = 32 * ((length small_header + 31) div 32)"

definition small_bytes :: "u8 list" where
  "small_bytes = small_header @ replicate (small_start - length small_header + 352) 0"

definition small_gguf :: gguf where
  "small_gguf = \<lparr>g_version = 3, g_metadata = map_of small_meta, g_tensors = small_tensors, g_data_offset = small_start,
    g_file_len = small_start + 352\<rparr>"

lemma small_start: "length small_header \<le> small_start" "small_start \<le> length small_header + 31"
  unfolding small_start_def by linarith+

lemma small_bytes_length: "length small_bytes = small_start + 352"
  using small_start by (simp add: small_bytes_def)

lemma small_meta_ok: "list_all (\<lambda>(k, v). utf8_valid k \<and> length k \<le> 64) small_meta" "distinct (map fst small_meta)"
  by code_simp+

lemma small_strings_ok: "utf8_valid (ascii ''llama'')" "utf8_valid (ascii ''gpt2'')" "utf8_valid (ascii ''a'')"
  by code_simp+

lemma small_tensors_ok: "list_all (\<lambda>t. utf8_valid (t_name t) \<and> length (t_name t) \<le> 64) small_tensors" "distinct (map t_name small_tensors)"
  by code_simp+

lemma small_header_length: "length small_header \<le> 2000"
  by (simp add: small_header_def put_header_def put_tensor_def put_string_def gguf_magic_def small_meta_def small_entries_def put_array_def
      small_tensors_def small_shapes_def small_info_def enumerate_eq_zip upt_rec)

lemma small_layout: "layout_ok small_start (small_start + 352) small_tensors"
  by (simp add: layout_ok_def small_tensors_def small_shapes_def small_info_def Gguf.range_of_def tensor_bytes_def Gguf.disjoint_def
      encoded_len_def element_count_def)

lemma small_parse: "parse small_bytes = Ok small_gguf"
proof -
  have "parse small_bytes = Ok \<lparr>g_version = 3, g_metadata = map_of small_meta, g_tensors = small_tensors,
      g_data_offset = small_start, g_file_len = length small_bytes\<rparr>"
  proof (rule parse_put_header [where rest = "replicate (small_start - length small_header + 352) 0"])
    show "list_all (\<lambda>(k, v). string_ok k \<and> value_ok v) small_meta"
      using small_meta_ok small_strings_ok by (simp add: small_meta_def small_entries_def string_ok_def usize_max_def)
    show "list_all tensor_ok small_tensors"
      using small_tensors_ok
      by (simp add: small_tensors_def small_shapes_def small_info_def tensor_ok_def string_ok_def usize_max_def type_from_u32_def)
    show "length small_meta \<le> usize_max" "length small_tensors \<le> usize_max"
      by (simp_all add: small_meta_def small_entries_def small_tensors_def small_shapes_def usize_max_def)
    show "small_bytes = put_header 3 small_meta small_tensors @ replicate (small_start - length small_header + 352) 0"
      by (simp add: small_bytes_def small_header_def)
    show "length small_bytes + 31 \<le> usize_max"
      using small_bytes_length small_start small_header_length by (simp add: usize_max_def)
    show "small_start \<le> length small_bytes" "layout_ok small_start (length small_bytes) small_tensors"
      using small_layout by (simp_all add: small_bytes_length)
    show "small_start = 32 * ((length (put_header 3 small_meta small_tensors) + 31) div 32)"
      unfolding small_start_def small_header_def ..
  qed (use small_meta_ok small_tensors_ok in simp_all)
  then show ?thesis by (simp add: small_gguf_def small_bytes_length)
qed

section \<open>The model in the file\<close>

lemma small_data:
  assumes "t \<in> set small_tensors" "tensor small_gguf name = Ok t"
  shows "tensor_data small_gguf small_bytes name = Ok (replicate (tensor_bytes t) 0)"
proof -
  have lay: "(\<exists>len. encoded_len t = Ok len) \<and> small_start + unat (t_offset t) + tensor_bytes t \<le> small_start + 352"
    using small_layout assms(1) by (auto simp: layout_ok_def list_all_iff Gguf.range_of_def)
  then have "checked_range small_start (small_start + 352) t = Ok (Gguf.range_of small_start t)"
    using small_start small_header_length by (subst checked_range_Ok_iff) (auto simp: usize_max_def Gguf.range_of_def)
  moreover have "get_range small_bytes (small_start + unat (t_offset t)) (small_start + unat (t_offset t) + tensor_bytes t) =
      Some (replicate (tensor_bytes t) 0)"
    using lay small_start by (simp add: get_range_def slice_def small_bytes_def min_def) linarith
  ultimately show ?thesis
    using assms(2) by (simp add: tensor_data_def tensor_data_range_def small_gguf_def Gguf.range_of_def)
qed

lemma small_tensor: "tensor small_gguf name =
    (case filter (\<lambda>t. t_name t = name) small_tensors of [] \<Rightarrow> Err TensorNotFound | [t] \<Rightarrow> Ok t | _ \<Rightarrow> Err DuplicateTensorName)"
  by (simp add: tensor_def small_gguf_def)

lemma small_names: "distinct (map (\<lambda>s. ascii (fst s)) small_shapes)" by code_simp

lemma small_found:
  assumes "i < 11"
  shows "tensor small_gguf (ascii (fst (small_shapes ! i))) = Ok (small_info i (small_shapes ! i))"
    "small_info i (small_shapes ! i) \<in> set small_tensors"
proof -
  have len: "length small_shapes = 11" by (simp add: small_shapes_def)
  show mem: "small_info i (small_shapes ! i) \<in> set small_tensors"
    using assms len by (auto simp: small_tensors_def in_set_enumerate_eq intro!: rev_image_eqI [of "(i, small_shapes ! i)"])
  have "filter (\<lambda>t. t_name t = t_name (small_info i (small_shapes ! i))) small_tensors = [small_info i (small_shapes ! i)]"
    by (rule filter_name [OF small_tensors_ok(2) mem])
  then show "tensor small_gguf (ascii (fst (small_shapes ! i))) = Ok (small_info i (small_shapes ! i))"
    by (simp add: small_tensor small_info_def case_prod_unfold)
qed

lemma block_names: "block_name 0 ''.attn_norm.weight'' = ascii ''blk.0.attn_norm.weight''"
  "block_name 0 ''.attn_q.weight'' = ascii ''blk.0.attn_q.weight''" "block_name 0 ''.attn_k.weight'' = ascii ''blk.0.attn_k.weight''"
  "block_name 0 ''.attn_v.weight'' = ascii ''blk.0.attn_v.weight''" "block_name 0 ''.attn_output.weight'' = ascii ''blk.0.attn_output.weight''"
  "block_name 0 ''.ffn_norm.weight'' = ascii ''blk.0.ffn_norm.weight''" "block_name 0 ''.ffn_gate.weight'' = ascii ''blk.0.ffn_gate.weight''"
  "block_name 0 ''.ffn_up.weight'' = ascii ''blk.0.ffn_up.weight''" "block_name 0 ''.ffn_down.weight'' = ascii ''blk.0.ffn_down.weight''"
  by code_simp+

lemma small_missing: "tensor small_gguf (ascii ''output.weight'') = Err TensorNotFound"
  "tensor small_gguf (block_name 0 ''.attn_q.bias'') = Err TensorNotFound" "tensor small_gguf (block_name 0 ''.attn_k.bias'') = Err TensorNotFound"
  "tensor small_gguf (block_name 0 ''.attn_v.bias'') = Err TensorNotFound"
  unfolding small_tensor by code_simp+

text \<open>Lookups in the metadata.\<close>

lemma small_metadata: "metadata_at small_gguf (ascii key) = ok_or MetadataNotFound (map_of small_entries key)"
  by (simp add: metadata_at_def small_gguf_def small_meta_def map_of_ascii)

definition small_config :: llama_config where
  "small_config = \<lparr>block_count = 1, embedding_length = 2, feed_forward_length = 1, head_count = 1, head_count_kv = 1,
    rms_epsilon = 0x3f800000, attention_scale = default_attention_scale 2, rope_freq_base = 0x3f800000, rope_dimension_count = 2,
    rope_pairing = Adjacent, context_length = 4\<rparr>"

lemma small_config_valid: "config_validate small_config = Ok ()" "head_dim small_config = Ok 2"
proof -
  have "f32_is_finite 0x3f800000" "\<not> f32_le 0x3f800000 0" "f32_is_finite (default_attention_scale 2)"
    "\<not> f32_le (default_attention_scale 2) 0" by code_simp+
  then show "config_validate small_config = Ok ()" "head_dim small_config = Ok 2"
    by (simp_all add: config_validate_def head_dim_def small_config_def)
qed

lemma small_config: "config_from_gguf small_gguf = Ok small_config"
  using small_config_valid
  by (simp add: config_from_gguf_def reject_unsupported_def required_u32_def required_f32_def optional_u32_def optional_f32_def
    optional_str_def optional_bool_def reject_true_optional_bool_def reject_false_optional_bool_def length_matches_def
    reject_nonzero_optional_u32_def reject_nonzero_optional_f32_def metadata_str_def metadata_u32_def metadata_f32_def
    small_metadata small_entries_def optional_def Let_def small_config_def)

text \<open>Every tensor holds zeros.\<close>

lemma zero_chunks: "read_f32_chunks (replicate 8 0) = Ok [0, 0]" "read_f32_chunks (replicate 16 0) = Ok [0, 0, 0, 0]"
  by code_simp+

lemma small_dense:
  assumes "small_shapes ! i = (name, dims)" "i < 11"
  shows "dims \<in> {[2], [2, 1], [1, 2]} \<Longrightarrow> read_dense_tensor_as_f32 small_gguf small_bytes (ascii name) = Ok [0, 0]"
    "dims = [2, 2] \<Longrightarrow> read_dense_tensor_as_f32 small_gguf small_bytes (ascii name) = Ok [0, 0, 0, 0]"
    "tensor small_gguf (ascii name) = Ok (small_info i (name, dims))"
proof -
  show f: "tensor small_gguf (ascii name) = Ok (small_info i (name, dims))" using small_found(1) [OF assms(2)] assms(1) by simp
  have mem: "small_info i (name, dims) \<in> set small_tensors" using small_found(2) [OF assms(2)] assms(1) by simp
  note data = small_data [OF mem f]
  show "read_dense_tensor_as_f32 small_gguf small_bytes (ascii name) = Ok [0, 0]" if "dims \<in> {[2], [2, 1], [1, 2]}"
    using that data f
    by (auto simp: read_dense_tensor_as_f32_def gguf_tensor_def gguf_tensor_data_def small_info_def tensor_len_def element_count_def
        tensor_bytes_def checked_byte_len_def checked_mul_usize_def usize_max_def zero_chunks)
  show "read_dense_tensor_as_f32 small_gguf small_bytes (ascii name) = Ok [0, 0, 0, 0]" if "dims = [2, 2]"
    using that data f
    by (auto simp: read_dense_tensor_as_f32_def gguf_tensor_def gguf_tensor_data_def small_info_def tensor_len_def element_count_def
        tensor_bytes_def checked_byte_len_def checked_mul_usize_def usize_max_def zero_chunks)
qed

definition zero_matrix :: "nat \<Rightarrow> nat \<Rightarrow> weight_matrix" where
  "zero_matrix r c = WF32 \<lparr>fm_rows = r, fm_cols = c, fm_data = replicate (r * c) 0\<rparr>"

lemma zero_bits_finite: "f32_is_finite 0" by code_simp

lemma zeros_finite: "list_all f32_is_finite (replicate n 0)"
  using zero_bits_finite by (simp add: list_all_iff)

lemma zero_new:
  assumes "0 < r" "0 < c" "r * c \<le> usize_max"
  shows "fm_new r c (replicate (r * c) 0) = Ok \<lparr>fm_rows = r, fm_cols = c, fm_data = replicate (r * c) 0\<rparr>"
    "wm_validate_shape (zero_matrix r c) = Ok ()" "wm_validate (zero_matrix r c) = Ok ()"
  using assms zeros_finite [of "r * c"]
  by (simp_all add: fm_new_def fm_validate_def fm_validate_shape_def checked_len_def checked_mul_usize_def zero_matrix_def wm_validate_def
      ensure_finite_slice_def)

lemma zero_matrix_size [simp]: "rows (zero_matrix r c) = r" "cols (zero_matrix r c) = c"
  by (simp_all add: zero_matrix_def)

lemma small_vector:
  assumes "small_shapes ! i = (name, [2])" "i < 11"
  shows "read_f32_vector small_gguf small_bytes (ascii name) 2 = Ok [0, 0]"
  using small_dense [OF assms] by (simp add: read_f32_vector_def gguf_tensor_def small_info_def)

lemma small_matrix:
  assumes "small_shapes ! i = (name, [word_of_nat c, word_of_nat r])" "i < 11" "(r, c) \<in> {(1, 2), (2, 1), (2, 2)}"
  shows "read_weight_matrix small_gguf small_bytes (ascii name) r c = Ok (zero_matrix r c)"
proof -
  have "read_dense_tensor_as_f32 small_gguf small_bytes (ascii name) = Ok (replicate (r * c) 0)"
    using assms(3) small_dense(1,2) [OF assms(1,2)] by (auto simp: eval_nat_numeral)
  moreover have "0 < r" "0 < c" "r * c \<le> usize_max" using assms(3) by (auto simp: usize_max_def)
  ultimately show ?thesis using small_dense(3) [OF assms(1,2)]
    by (simp add: read_weight_matrix_def read_f32_matrix_def gguf_tensor_def small_info_def zero_new zero_matrix_def)
qed

definition small_llama :: llama where
  "small_llama = \<lparr>ll_config = small_config, token_embedding = zero_matrix 1 2,
    ll_layers = [\<lparr>attention_norm = [0, 0], wq = zero_matrix 2 2, attn_q_bias = None, wk = zero_matrix 2 2,
      attn_k_bias = None, wv = zero_matrix 2 2, attn_v_bias = None, wo = zero_matrix 2 2, ffn_norm = [0, 0],
      w_gate = zero_matrix 1 2, w_up = zero_matrix 1 2, w_down = zero_matrix 2 1\<rparr>],
    output_norm = [0, 0], ll_output = zero_matrix 1 2\<rparr>"

lemma small_llama_valid: "llama_validate small_llama = Ok ()"
  by (simp add: llama_validate_def validate_layout_def small_llama_def small_config_valid Let_def layer_layout_def layer_validate_def
      bias_mismatch_def bias_finite_def ensure_finite_slice_def zero_bits_finite, simp add: small_config_def, simp add: zero_new usize_max_def)

lemma small_layer: "read_layer small_gguf small_bytes small_config 2 0 = Ok (hd (ll_layers small_llama))"
proof -
  note vec = small_vector [of 2] small_vector [of 7]
  note mat = small_matrix [of 3 _ 2 2] small_matrix [of 4 _ 2 2] small_matrix [of 5 _ 2 2] small_matrix [of 6 _ 2 2]
    small_matrix [of 8 _ 2 1] small_matrix [of 9 _ 2 1] small_matrix [of 10 _ 1 2]
  show ?thesis using vec mat
    by (simp add: read_layer_def small_config_def block_names small_shapes_def small_llama_def read_optional_f32_vector_def small_missing)
qed

lemma small_vocab: "vocab_size small_gguf = Ok 1"
  by (simp add: vocab_size_def metadata_str_def metadata_u32_def small_metadata small_entries_def)

lemma small_model: "llama_from_gguf small_gguf small_bytes = Ok small_llama"
proof -
  have "read_weight_matrix small_gguf small_bytes (ascii ''token_embd.weight'') 1 2 = Ok (zero_matrix 1 2)"
    using small_matrix [of 0 _ 2 1] by (simp add: small_shapes_def)
  moreover have "read_f32_vector small_gguf small_bytes (ascii ''output_norm.weight'') 2 = Ok [0, 0]"
    using small_vector [of 1] by (simp add: small_shapes_def)
  moreover have "[0..<block_count small_config] = [0]" "embedding_length small_config = 2" by (simp_all add: small_config_def)
  ultimately show ?thesis
    unfolding llama_from_gguf_def small_config rbind.simps small_config_valid small_vocab
    using small_layer small_llama_valid small_missing(1) by (simp add: small_llama_def)
qed

end
