(* ===== verification/Codec_Round_Trip.thy ===== *)
theory Codec_Round_Trip
  imports Codec Codec_Run Small_Model
begin

text \<open>
  The round trip of the two commands and what \<open>decompress\<close> accepts, with their application to the
  small model file: its model is run for one token, and the window slides once.
\<close>

section \<open>One step of the model\<close>

text \<open>The checked arithmetic on small numbers, for the evaluation.\<close>

definition above_usize :: "nat \<Rightarrow> bool" where "above_usize n \<longleftrightarrow> usize_max < n"

lemma above_usize_code [code]: "above_usize n = (if n \<le> 99 then False else usize_max < n)"
  by (simp add: above_usize_def usize_max_def)

lemma checked_usize_code [code]:
  "checked_add_usize a b = (if above_usize (a + b) then None else Some (a + b))"
  "checked_mul_usize a b = (if above_usize (a * b) then None else Some (a * b))"
  by (simp_all add: above_usize_def checked_mul_usize_def checked_add_usize_def not_le)

definition small_rope :: rope_tables where
  "small_rope = \<lparr>rt_positions = 1, half_head_dim = 1, rt_pairing = Adjacent, rt_cos = [0x3f800000], rt_sin = [0]\<rparr>"

definition small_cache :: kv_cache where
  "small_cache = \<lparr>kv_config = small_config, kv_head_dim = 2, kv_k = replicate 8 0, kv_v = replicate 8 0\<rparr>"

lemma small_kernels:
  "rmsnorm [0, 0] [0, 0] 0x3f800000 [0, 0] = Ok [0, 0]" "residual_add [0, 0] [0, 0] = Ok [0, 0]"
  "product_ref (zero_matrix 2 2) [0, 0] = Ok [0, 0]" "product_ref (zero_matrix 1 2) [0, 0] = Ok [0]"
  "product_ref (zero_matrix 2 1) [0] = Ok [0, 0]" "write_row_validated (zero_matrix 1 2) 0 [0, 0] = Ok [0, 0]"
  "rope_pair small_rope 0 0 0 [0, 0] = Ok [0, 0]"
  by code_simp+

lemma small_gate: "swiglu [0] [0] [0] = Ok [0]"
proof -
  have "f32_mul 0 0 = 0" "silu_f32 0 = 0" by code_simp+
  then show ?thesis using zero_finite by (simp add: swiglu_def fill_def finite_value_def)
qed

lemma small_cache_kernels:
  "kv_new small_config = Ok small_cache" "kv_store small_cache 0 0 [0, 0] [0, 0] = Ok small_cache"
  "attention_ref small_config 0 0 small_cache 2 [0, 0] = Ok [0, 0]"
  by code_simp+

lemma small_rotation: "apply_rope [0, 0] 1 2 0 small_rope = Ok [0, 0]"
  using small_kernels(7) zero_finite
  by (simp add: apply_rope_def checked_len_def checked_mul_usize_def usize_max_def ensure_finite_slice_def)
    (simp add: small_rope_def)

lemma small_forward: "forward_ref small_llama 2 0 0 small_rope small_cache = Ok (small_cache, [0])"
proof -
  have z: "zeros 2 = [0, 0]" "zeros 1 = [0]" "zeros (Suc 0) = [0]" "zeros (Suc (Suc 0)) = [0, 0]" by (simp_all add: zeros_def eval_nat_numeral)
  have c: "head_count small_config = 1" "head_count_kv small_config = 1" "rms_epsilon small_config = 0x3f800000"
    by (simp_all add: small_config_def)
  have "layer_ref small_config 2 0 small_rope (0, hd (ll_layers small_llama)) ([0, 0], small_cache) = Ok ([0, 0], small_cache)"
    using small_kernels small_gate small_cache_kernels(2,3) small_rotation
    by (simp add: layer_ref_def attention_block_ref_def feed_forward_ref_def small_llama_def z c add_optional_bias_def)
  then show ?thesis
    using small_kernels by (simp add: forward_ref_def small_llama_def z c)
qed

lemma small_rope: "rope_llama small_config 1 = Ok small_rope"
proof -
  have "f64_div (f64_neg (f64_of_int (int (2 * 0)))) (f64_of_int (int 2)) = 0x8000000000000000"
    "ln_f64 (f64_of_f32 0x3f800000) = 0" "f64_mul 0x8000000000000000 0 = 0x8000000000000000"
    "exp_f64 0x8000000000000000 = 0x3FF0000000000000" "f64_mul (f64_of_int (int 0)) 0x3FF0000000000000 = 0"
    "cos_f64 0 = (Ok 0x3FF0000000000000 :: f64 mres)" "sin_f64 0 = (Ok 0 :: f64 mres)"
    "f32_of_f64 0x3FF0000000000000 = 0x3f800000" "f32_of_f64 0 = 0" "f32_is_finite 0x3f800000" "f32_is_finite 0"
    by code_simp+
  then have "rope_entry 2 (ln_f64 (f64_of_f32 0x3f800000)) (0, 0) = Ok (0x3f800000, 0)"
    by (simp only: rope_entry_def prod.case Let_def rbind.simps simp_thms if_False)
  then show ?thesis
    unfolding rope_llama_def small_config_valid rbind.simps
    by (simp add: small_config_def checked_len_def checked_mul_usize_def usize_max_def Let_def small_rope_def)
qed


section \<open>The tokenizer in the file\<close>

definition small_bpe :: byte_bpe where
  "small_bpe = \<lparr>bb_byte_to_token = [97 \<mapsto> 0], bb_token_to_bytes = [0 \<mapsto> [97]], bb_merge_ranks = Map.empty\<rparr>"

lemma small_tokens: "gguf_tokens small_gguf = Ok [ascii ''a'']"
  by (simp add: gguf_tokens_def small_metadata small_entries_def)

lemma small_tokenizer: "from_gguf small_gguf = Ok (ByteBpe small_bpe)"
  by (simp add: from_gguf_def small_tokens optional_gguf_emit_mask_def optional_gguf_merges_def optional_gguf_model_def small_metadata
      small_entries_def bb_from_tokens_merges_and_emit_mask_def bb_vocab_step_def token_index_def token_is_emittable_def tiny_pieces
      small_bpe_def Let_def)

lemma small_symbols: "codec_symbols (ByteBpe small_bpe) [97, 98] 1 = Ok [0, 99]"
  by code_simp

lemma small_load: "load_model small_bytes = Ok \<lparr>lm_sha256 = sha256_spec small_bytes, lm_model = small_llama, lm_tokenizer = ByteBpe small_bpe\<rparr>"
proof -
  have vocab: "gguf_token_vocab_len small_gguf = Ok 1" by (simp add: gguf_token_vocab_len_def small_metadata small_entries_def)
  have "rows (ll_output small_llama) = 1" by (simp add: small_llama_def)
  then have ok: "validate_tokenizer_model_vocab_len 1 small_llama = Ok ()" "validate_codec_vocab_len (rows (ll_output small_llama)) = Ok ()"
    by (simp_all add: validate_tokenizer_model_vocab_len_def validate_vocab_lengths_def validate_codec_vocab_len_def checked_add_usize_def
        usize_max_def BYTE_ESCAPE_SYMBOLS_def MAX_SYMBOLS_def del: One_nat_def)
  obtain h where "(sha_update sha_new small_bytes :: sha256 cres) = Ok h" "(sha_finalize h :: u8 list cres) = Ok (sha256_spec small_bytes)"
    using hash_of_file [of small_bytes] by auto
  then show ?thesis using ok vocab by (simp add: load_model_def small_parse small_tokenizer small_model)
qed

section \<open>Coding a token and an escaped byte\<close>

lemma small_wf: "llama_wf small_llama"
  by (simp add: llama_wf_def layer_wf_def small_llama_def zero_matrix_def)

lemma small_workspace: "\<exists>ws. forward_workspace small_llama 1 = Ok ws"
  using small_llama_valid small_config_valid
  by (simp add: forward_workspace_def workspace_new_def small_llama_def checked_len_def checked_mul_usize_def Let_def)
    (simp add: small_config_def usize_max_def)

lemma small_advance:
  assumes "forward_workspace small_llama 1 = Ok ws"
  shows "\<exists>ws'. forward_one_with_workspace small_llama 0 0 small_rope small_cache [0] ws = Ok (small_cache, [0], ws')"
proof -
  have c: "ll_config small_llama = small_config" "rows (ll_output small_llama) = 1" "rows (token_embedding small_llama) = 1"
    by (simp_all add: small_llama_def)
  have r: "rope_llama (ll_config small_llama) 1 = Ok small_rope" and dh: "head_dim (ll_config small_llama) = Ok 2"
    using small_rope small_config_valid by (simp_all add: c)
  have cache: "cache_ok (ll_config small_llama) 2 small_cache"
    using kv_new_cache_ok [OF small_cache_kernels(1) small_config_valid(2)] by (simp add: c)
  note run = run_prepared [OF r assms small_wf dh]
  have "forward_checks small_llama 0 0 small_rope small_cache 1 = Ok 2" "workspace_validate_for ws small_config 1 0 = Ok ()"
    using run_checks [OF run(1) _ _ cache run(2), of 0 0] by (simp_all add: c)
  then have ref: "rbind (forward_checks small_llama 0 0 small_rope small_cache (length [0 :: f32])) (\<lambda>dh.
      rbind (workspace_validate_for ws (ll_config small_llama) (rows (ll_output small_llama)) 0) (\<lambda>_.
      forward_ref small_llama dh 0 0 small_rope small_cache)) = Ok (small_cache, [0])"
    using small_forward by (simp add: c)
  show ?thesis
    using forward_refines [of "[0]" ws small_llama 0 0 small_rope small_cache, unfolded ref]
    by (cases "forward_one_with_workspace small_llama 0 0 small_rope small_cache [0] ws") auto
qed

lemma uniform_interval: "valid_interval (word_of_nat k) 1 257" if "k < 257"
proof -
  have "unat (word_of_nat k :: u64) = k" using that by (intro unat_small_u64) simp
  then show ?thesis using that by (simp add: valid_interval_def)
qed

lemma small_uniform: "uniform_cdf_with_byte_escapes 1 = Ok (uniform_table 257)" "length (c_freq (uniform_table 257)) = 257"
  "k < 257 \<Longrightarrow> uniform_symbol_range k 257 = Ok \<lparr>sr_cum = word_of_nat k, sr_freq = 1, sr_total = 257\<rparr>"
proof -
  have "\<exists>c. uniform_cdf 257 = Ok c" by (simp add: uniform_cdf_def MAX_SYMBOLS_def cdf_total_limit_def Let_def)
  then have "uniform_cdf 257 = Ok (uniform_table 257)" using uniform_cdf_table by blast
  then show "uniform_cdf_with_byte_escapes 1 = Ok (uniform_table 257)"
    by (simp add: uniform_cdf_with_byte_escapes_def checked_add_usize_def usize_max_def BYTE_ESCAPE_SYMBOLS_def)
  show "length (c_freq (uniform_table 257)) = 257" by (simp add: uniform_table_def cdf_of_def)
  show "k < 257 \<Longrightarrow> uniform_symbol_range k 257 = Ok \<lparr>sr_cum = word_of_nat k, sr_freq = 1, sr_total = 257\<rparr>"
    by (simp add: uniform_symbol_range_def MAX_SYMBOLS_def cdf_total_limit_def)
qed

definition small_state :: "workspace \<Rightarrow> window_state" where
  "small_state ws = \<lparr>wn_model = small_llama, wn_n_ctx = 1, wn_window_start = 0, wn_context_len = 0, wn_rope = small_rope,
    wn_cache = small_cache, wn_workspace = ws, wn_logits = [0], wn_uniform = uniform_table 257, wn_scratch = scratch_default, wn_escapes = True\<rparr>"

lemma small_llama_facts: "ll_config small_llama = small_config" "rows (ll_output small_llama) = 1" "context_length small_config = 4"
  by (simp_all add: small_llama_def small_config_def)

lemma small_window:
  obtains ws ws' where "window_new small_llama 1 True = Ok (small_state ws)"
    "window_sync 0 [] 0 (small_state ws) = Ok (small_state ws)"
    "window_advance 0 (small_state ws) = Ok ((small_state ws)\<lparr>wn_workspace := ws', wn_context_len := 1\<rparr>)"
proof -
  obtain ws where ws: "forward_workspace small_llama 1 = Ok ws" using small_workspace by blast
  obtain ws' where adv: "forward_one_with_workspace small_llama 0 0 small_rope small_cache [0] ws = Ok (small_cache, [0], ws')"
    using small_advance [OF ws] by blast
  have "window_new small_llama 1 True = Ok (small_state ws)"
    using ws small_rope small_cache_kernels(1) small_uniform(1)
    by (simp add: window_new_def small_llama_facts small_state_def del: One_nat_def) simp
  moreover have "window_sync 0 [] 0 (small_state ws) = Ok (small_state ws)"
    by (simp add: window_sync_def next_window_start_def small_state_def)
  moreover have "window_advance 0 (small_state ws) = Ok ((small_state ws)\<lparr>wn_workspace := ws', wn_context_len := 1\<rparr>)"
    using adv by (simp add: window_advance_def small_state_def)
  ultimately show ?thesis by (rule that)
qed

lemma small_encode: "\<exists>payload. encode_symbols_with_model small_llama [0, 99] 1 0 True = Ok payload"
proof -
  obtain ws ws' where s: "window_new small_llama 1 True = Ok (small_state ws)" "window_sync 0 [] 0 (small_state ws) = Ok (small_state ws)"
    "window_advance 0 (small_state ws) = Ok ((small_state ws)\<lparr>wn_workspace := ws', wn_context_len := 1\<rparr>)" by (rule small_window)
  have enc: "\<exists>e'. re_encode e (word_of_nat k) 1 257 = Ok e' \<and> re_ok e'" if "re_ok e" "k < 257" for e k
    by (rule rc.encode_ok [OF that(1) uniform_interval [OF that(2)]])
  obtain e1 where e1: "re_encode re_new 0 1 257 = Ok e1" "re_ok e1" using enc [OF rc.start_ok, of 0] by auto
  obtain e2 where e2: "re_encode e1 99 1 257 = Ok e2" using enc [OF e1(2), of 99] by auto
  have "encode_step 1 True 0 0 (re_new, small_state ws, []) = Ok (e1, (small_state ws)\<lparr>wn_workspace := ws', wn_context_len := 1\<rparr>, [0])"
    using s(2,3) e1(1) small_uniform(2) small_uniform(3) [of 0]
    by (simp add: encode_step_def window_symbol_range_def codec_symbol_is_token_def) (simp add: small_state_def)
  moreover have "\<exists>s2. encode_step 1 True 0 99 (e1, (small_state ws)\<lparr>wn_workspace := ws', wn_context_len := 1\<rparr>, [0]) = Ok (e2, s2, [0])"
    using e2 small_uniform(2) small_uniform(3) [of 99] small_cache_kernels(1)
    by (simp add: encode_step_def window_sync_def next_window_start_def window_replay_def slice_at_def slice_def window_symbol_range_def
        codec_symbol_is_token_def small_state_def small_llama_facts)
  ultimately show ?thesis
    using s(1) by (auto simp: encode_symbols_with_model_def validate_window_def small_llama_facts simp del: One_nat_def)
qed

lemma small_compress: "\<exists>out. compress small_bytes [97, 98] (Some 1) = Ok out"
proof -
  obtain payload where "encode_symbols_with_model small_llama [0, 99] 1 0 True = Ok payload" using small_encode by blast
  then show ?thesis
    using small_symbols
    by (simp add: compress_def small_load small_llama_facts validate_window_def header_encode_checked_def SUPPORTED_FLAGS_def FLAG_BYTE_ESCAPES_def Let_def
        del: One_nat_def)
qed

section \<open>Properties\<close>

text \<open>C1: What \<open>compress\<close> writes, \<open>decompress\<close> restores. With the same model file,
  decompressing the output of a successful compression returns the input, for every input (of a
  length that fits a machine word), every model and every accepted window length: header, model
  check, tokens, byte escapes, sliding window, frequency tables and range coder fit together, and
  the canonical re-encoding that \<open>decompress\<close> makes equals the payload.\<close>

theorem compress_decompress:
  assumes "compress model_file input n_ctx = Ok out" and "length input \<le> usize_max"
  shows "decompress model_file out = Ok input"
  by (rule decompress_restores [OF assms])

theorem compress_decompress_witness:
  "\<exists>out. compress small_bytes [97, 98] (Some 1) = Ok out \<and> decompress small_bytes out = Ok [97, 98]"
  using small_compress compress_decompress [of small_bytes "[97, 98]" "Some 1"] by (auto simp: usize_max_def)

text \<open>C2: The codec's predictions depend on the window alone. In every state that the encoder or
  the decoder can reach, whatever was coded before and however often the window has moved, cache
  and logits are those of the reference step run from an empty cache over the tokens since
  \<open>window_start\<close>; these are at most \<open>n_ctx\<close>, at least the overlap once the window has moved, and
  after a synchronisation there is room for one more, so that the error of a violated window
  invariant never occurs.\<close>

theorem window_is_fresh_run:
  assumes "window_reach m n overlap escapes ctx ready s" "llama_wf m" "overlap < n"
  shows "fresh_run m n (drop (wn_window_start s) ctx) = Ok (wn_context_len s, wn_cache s, wn_logits s) \<and>
    wn_window_start s + wn_context_len s = length ctx \<and> wn_context_len s \<le> n \<and>
    (wn_window_start s = 0 \<or> overlap \<le> wn_context_len s) \<and>
    (ready \<longrightarrow> (\<forall>token. window_advance token s \<noteq> Err WindowViolated))"
proof -
  obtain dh where inv: "window_inv m n dh ctx s" "wn_window_start s = 0 \<or> overlap \<le> wn_context_len s"
    and room: "ready \<longrightarrow> wn_context_len s < n" using reach_inv [OF assms] by blast
  have "window_advance token s \<noteq> Err WindowViolated" if "wn_context_len s < n" for token
    using that inv(1) by (auto simp: window_advance_def window_inv_def res_simps)
  then show ?thesis using inv room by (simp add: window_inv_def)
qed

theorem window_is_fresh_run_witness:
  "\<exists>s. window_reach small_llama 1 0 True [0] False s \<and> fresh_run small_llama 1 [0] = Ok (1, wn_cache s, wn_logits s)"
proof -
  obtain ws ws' where s: "window_new small_llama 1 True = Ok (small_state ws)" "window_sync 0 [] 0 (small_state ws) = Ok (small_state ws)"
    "window_advance 0 (small_state ws) = Ok ((small_state ws)\<lparr>wn_workspace := ws', wn_context_len := 1\<rparr>)" by (rule small_window)
  have "window_reach small_llama 1 0 True [] True (small_state ws)"
    by (rule window_reach.sync [OF window_reach.start [OF s(1)]]) (simp add: s(2))
  from window_reach.advance [OF this s(3)]
  have reach: "window_reach small_llama 1 0 True [0] False ((small_state ws)\<lparr>wn_workspace := ws', wn_context_len := 1\<rparr>)" by simp
  then show ?thesis using window_is_fresh_run [OF reach small_wf] by (auto simp: small_state_def)
qed

section \<open>What the decoder accepts\<close>

lemma decode_step_piece:
  assumes "decode_step tk n escapes overlap (dec, st, ctx, syms, bytes) = Ok (dec', st', ctx', syms', bytes')"
  shows "\<exists>x p. syms' = syms @ [x] \<and> bytes' = bytes @ p \<and> symbol_piece tk n escapes x = Ok p \<and> p \<noteq> []"
  using assms by (auto simp: decode_step_def split: if_splits prod.splits)

lemma decode_loop_pieces:
  assumes "decode_loop tk n escapes overlap byte_len (dec, st, ctx, syms, bytes) = Ok (dec', st', ctx', syms', bytes')"
  shows "\<exists>xs parts. syms' = syms @ xs \<and> bytes' = bytes @ concat parts \<and> byte_len \<le> length bytes' \<and>
    list_all2 (\<lambda>x p. symbol_piece tk n escapes x = Ok p \<and> p \<noteq> []) xs parts \<and> length xs \<le> byte_len - length bytes"
  using assms
proof (induction "byte_len - length bytes" arbitrary: dec st ctx syms bytes rule: less_induct)
  case less
  show ?case
  proof (cases "length bytes < byte_len")
    case False
    then show ?thesis using less.prems by (auto simp: decode_loop.simps)
  next
    case True
    then obtain d1 s1 c1 y1 b1 where one: "decode_step tk n escapes overlap (dec, st, ctx, syms, bytes) = Ok (d1, s1, c1, y1, b1)"
      and rest: "decode_loop tk n escapes overlap byte_len (d1, s1, c1, y1, b1) = Ok (dec', st', ctx', syms', bytes')"
      using less.prems by (subst (asm) decode_loop.simps) auto
    obtain x p where x: "y1 = syms @ [x]" "b1 = bytes @ p" "symbol_piece tk n escapes x = Ok p" "p \<noteq> []"
      using decode_step_piece [OF one] by blast
    have "1 \<le> length p" using x(4) by (cases p) auto
    then have shorter: "byte_len - length b1 < byte_len - length bytes" unfolding x(2) length_append using True by linarith
    from less.hyps [OF this rest] obtain xs parts where "syms' = y1 @ xs" "bytes' = b1 @ concat parts" "byte_len \<le> length bytes'"
      "list_all2 (\<lambda>x p. symbol_piece tk n escapes x = Ok p \<and> p \<noteq> []) xs parts" "length xs \<le> byte_len - length b1" by blast
    then show ?thesis using x shorter
      by (intro exI [of _ "x # xs"] exI [of _ "p # parts"]) auto
  qed
qed

text \<open>C4: What \<open>decompress\<close> accepts is canonical and bound to the model. When it returns bytes, the
  file starts with a valid header, the header's digest is the SHA-256 of the model file, the result
  has exactly the announced length, and the rest of the file is, byte for byte, what the encoder
  writes for the decoded symbols; each of these stands for at least one byte, so there are at most
  as many as bytes.\<close>

theorem decompress_accepts:
  assumes "decompress model_file encoded = Ok out"
  shows "\<exists>header l symbols parts. header_decode encoded = Ok header \<and> h_model_sha256 header = sha256_spec model_file \<and>
    load_model model_file = Ok l \<and> length out = unat (h_orig_len header) \<and>
    encode_symbols_with_model (lm_model l) symbols (unat (h_n_ctx header)) (unat (h_overlap header)) (h_flags header AND FLAG_BYTE_ESCAPES \<noteq> 0) =
      Ok (drop HEADER_LEN encoded) \<and>
    list_all2 (\<lambda>x p. symbol_piece (lm_tokenizer l) (rows (ll_output (lm_model l))) (h_flags header AND FLAG_BYTE_ESCAPES \<noteq> 0) x = Ok p \<and> p \<noteq> [])
      symbols parts \<and>
    out = take (length out) (concat parts) \<and> length symbols \<le> length out"
proof -
  obtain header l where h: "header_decode encoded = Ok header" and l: "load_model model_file = Ok l"
    and sha: "lm_sha256 l = h_model_sha256 header"
    using assms by (auto simp: decompress_def split: if_splits)
  let ?n = "unat (h_n_ctx header)" and ?o = "unat (h_overlap header)" and ?len = "unat (h_orig_len header)"
    and ?esc = "h_flags header AND FLAG_BYTE_ESCAPES \<noteq> 0" and ?m = "lm_model l" and ?tk = "lm_tokenizer l"
  obtain decoded payload where pay: "get_range encoded HEADER_LEN (length encoded) = Some payload"
    and dec: "decode_bytes_with_model ?m ?tk payload ?len ?n ?o ?esc = Ok decoded"
    and enc: "encode_symbols_with_model ?m (db_symbols decoded) ?n ?o ?esc = Ok payload"
    and out: "slice_at (db_bytes decoded) 0 ?len = (Ok out :: u8 list cres)"
    using assms by (auto simp: decompress_def h l sha Let_def split: if_splits)
  obtain d s d' s' c' where "decode_loop ?tk (rows (ll_output ?m)) ?esc ?o ?len (d, s, [], [], []) = Ok (d', s', c', db_symbols decoded, db_bytes decoded)"
    using dec by (auto simp: decode_bytes_with_model_def)
  from decode_loop_pieces [OF this] obtain parts where parts: "db_bytes decoded = concat parts" "?len \<le> length (db_bytes decoded)"
    "list_all2 (\<lambda>x p. symbol_piece ?tk (rows (ll_output ?m)) ?esc x = Ok p \<and> p \<noteq> []) (db_symbols decoded) parts"
    "length (db_symbols decoded) \<le> ?len" by auto
  have "payload = drop HEADER_LEN encoded" using pay by (auto simp: get_range_def slice_def split: if_splits)
  moreover have "out = take ?len (concat parts)" "length out = ?len"
    using out parts(1,2) by (auto simp: slice_at_def slice_def split: if_splits)
  moreover have "h_model_sha256 header = sha256_spec model_file" using load_model_Ok(1) [OF l] sha by simp
  ultimately show ?thesis using h l enc parts(3,4)
    by (intro exI [of _ header] exI [of _ l] exI [of _ "db_symbols decoded"] exI [of _ parts]) simp
qed

theorem decompress_accepts_witness:
  "\<exists>encoded header. decompress small_bytes encoded = Ok [97, 98] \<and> header_decode encoded = Ok header \<and> unat (h_orig_len header) = 2"
proof -
  obtain encoded where "decompress small_bytes encoded = Ok [97, 98]"
    using small_compress decompress_restores [of small_bytes "[97, 98]" "Some 1"] by (auto simp: usize_max_def)
  then show ?thesis using decompress_accepts [of small_bytes encoded "[97, 98]"] by auto
qed

end
