(* ===== verification/Bench_Checkpoint.thy ===== *)
theory Bench_Checkpoint
  imports Range_Coder
begin

text \<open>
  The checkpoint file of the file benchmark, \<open>BenchFileEncodeCheckpoint\<close> in
  \<open>src/xtask/src/main.rs\<close>: the record that an interrupted encoding leaves behind, its byte format
  with a cursor that reads it back, and the check that a checkpoint belongs to the current run.
  The main result is that writer and reader are inverse to each other in both directions.
\<close>

section \<open>The code\<close>

definition BENCH_FILE_CHECKPOINT_MAGIC :: "u8 list" where
  "BENCH_FILE_CHECKPOINT_MAGIC = [0x44, 0x54, 0x4C, 0x5A, 0x42, 0x43, 0x4B, 0x31]"

record bench_checkpoint =
  bc_model_sha256 :: "u8 list"
  bc_input_sha256 :: "u8 list"
  bc_n_ctx :: nat
  bc_overlap :: nat
  bc_orig_len :: nat
  bc_symbols_len :: nat
  bc_symbols_done :: nat
  bc_elapsed_ns :: u64
  bc_encoder :: range_encoder_snapshot

text \<open>One constructor for each error message, with the numbers it prints.\<close>

datatype checkpoint_error =
    InvalidMagic | LengthOverflow | Truncated | PayloadOverflow | TruncatedCheckpointPayload | TrailingBytes
  | ModelHashMismatch | InputHashMismatch | ContextMismatch nat nat | OverlapMismatch nat nat
  | OrigLenMismatch nat nat | SymbolsLenMismatch nat nat | TooManyDone nat nat

type_synonym 'a kres = "(checkpoint_error, 'a) res"

definition checkpoint_validate :: "bench_checkpoint \<Rightarrow> u8 list \<Rightarrow> u8 list \<Rightarrow> nat \<Rightarrow> nat \<Rightarrow> nat \<Rightarrow> nat \<Rightarrow> unit kres" where
  "checkpoint_validate c model_sha256 input_sha256 n_ctx overlap orig_len symbols_len =
    (if bc_model_sha256 c \<noteq> model_sha256 then Err ModelHashMismatch
     else if bc_input_sha256 c \<noteq> input_sha256 then Err InputHashMismatch
     else if bc_n_ctx c \<noteq> n_ctx then Err (ContextMismatch (bc_n_ctx c) n_ctx)
     else if bc_overlap c \<noteq> overlap then Err (OverlapMismatch (bc_overlap c) overlap)
     else if bc_orig_len c \<noteq> orig_len then Err (OrigLenMismatch (bc_orig_len c) orig_len)
     else if bc_symbols_len c \<noteq> symbols_len then Err (SymbolsLenMismatch (bc_symbols_len c) symbols_len)
     else if bc_symbols_len c < bc_symbols_done c then Err (TooManyDone (bc_symbols_done c) (bc_symbols_len c))
     else Ok ())"

text \<open>Reading at a cursor; the result has the new cursor. \<open>usize\<close> has 64 bits, so
  \<open>usize::try_from\<close> of a \<open>u64\<close> always succeeds.\<close>

definition read_bytes_at :: "u8 list \<Rightarrow> nat \<Rightarrow> nat \<Rightarrow> (u8 list \<times> nat) kres" where
  "read_bytes_at bytes cursor n =
    rbind (ok_or LengthOverflow (checked_add_usize cursor n)) (\<lambda>finish.
    rbind (ok_or Truncated (get_range bytes cursor finish)) (\<lambda>s. Ok (s, finish)))"

definition read_array_32 :: "u8 list \<Rightarrow> nat \<Rightarrow> (u8 list \<times> nat) kres" where
  "read_array_32 bytes cursor = read_bytes_at bytes cursor 32"

definition read_u64_le :: "u8 list \<Rightarrow> nat \<Rightarrow> (u64 \<times> nat) kres" where
  "read_u64_le bytes cursor =
    rbind (read_bytes_at bytes cursor 8) (\<lambda>(raw, cursor). Ok (word_of_nat (from_le raw), cursor))"

definition read_usize_le :: "u8 list \<Rightarrow> nat \<Rightarrow> (nat \<times> nat) kres" where
  "read_usize_le bytes cursor = rbind (read_u64_le bytes cursor) (\<lambda>(v, cursor). Ok (unat v, cursor))"

definition parse_bench_file_checkpoint :: "u8 list \<Rightarrow> bench_checkpoint kres" where
  "parse_bench_file_checkpoint bytes =
    (if get_range bytes 0 (length BENCH_FILE_CHECKPOINT_MAGIC) \<noteq> Some BENCH_FILE_CHECKPOINT_MAGIC then Err InvalidMagic
     else
       rbind (read_array_32 bytes (length BENCH_FILE_CHECKPOINT_MAGIC)) (\<lambda>(model_sha256, cursor).
       rbind (read_array_32 bytes cursor) (\<lambda>(input_sha256, cursor).
       rbind (read_usize_le bytes cursor) (\<lambda>(n_ctx, cursor).
       rbind (read_usize_le bytes cursor) (\<lambda>(overlap, cursor).
       rbind (read_usize_le bytes cursor) (\<lambda>(orig_len, cursor).
       rbind (read_usize_le bytes cursor) (\<lambda>(symbols_len, cursor).
       rbind (read_usize_le bytes cursor) (\<lambda>(symbols_done, cursor).
       rbind (read_u64_le bytes cursor) (\<lambda>(elapsed_ns, cursor).
       rbind (read_u64_le bytes cursor) (\<lambda>(low, cursor).
       rbind (read_u64_le bytes cursor) (\<lambda>(rng, cursor).
       rbind (read_usize_le bytes cursor) (\<lambda>(payload_len, cursor).
       rbind (ok_or PayloadOverflow (checked_add_usize cursor payload_len)) (\<lambda>finish.
       rbind (ok_or TruncatedCheckpointPayload (get_range bytes cursor finish)) (\<lambda>payload.
       if finish \<noteq> length bytes then Err TrailingBytes
       else Ok \<lparr>bc_model_sha256 = model_sha256, bc_input_sha256 = input_sha256, bc_n_ctx = n_ctx, bc_overlap = overlap,
           bc_orig_len = orig_len, bc_symbols_len = symbols_len, bc_symbols_done = symbols_done, bc_elapsed_ns = elapsed_ns,
           bc_encoder = \<lparr>rs_low = low, rs_range = rng, rs_out = payload\<rparr>\<rparr>))))))))))))))"

definition push_u64 :: "u8 list \<Rightarrow> u64 \<Rightarrow> u8 list" where
  "push_u64 out v = out @ le_bytes 8 (unat v)"

text \<open>\<open>u64::try_from(value)\<close> of a \<open>usize\<close> always succeeds.\<close>

definition push_usize_as_u64 :: "u8 list \<Rightarrow> nat \<Rightarrow> u8 list" where
  "push_usize_as_u64 out v = push_u64 out (word_of_nat v)"

definition encode_bench_file_checkpoint :: "bench_checkpoint \<Rightarrow> u8 list" where
  "encode_bench_file_checkpoint c =
    (let out = BENCH_FILE_CHECKPOINT_MAGIC @ bc_model_sha256 c @ bc_input_sha256 c;
         out = push_usize_as_u64 out (bc_n_ctx c);
         out = push_usize_as_u64 out (bc_overlap c);
         out = push_usize_as_u64 out (bc_orig_len c);
         out = push_usize_as_u64 out (bc_symbols_len c);
         out = push_usize_as_u64 out (bc_symbols_done c);
         out = push_u64 out (bc_elapsed_ns c);
         out = push_u64 out (rs_low (bc_encoder c));
         out = push_u64 out (rs_range (bc_encoder c));
         out = push_usize_as_u64 out (length (rs_out (bc_encoder c)))
     in out @ rs_out (bc_encoder c))"

section \<open>Reading and writing\<close>

text \<open>The ranges that the types of the code give: arrays of 32 bytes and \<open>usize\<close> numbers.\<close>

definition checkpoint_wf :: "bench_checkpoint \<Rightarrow> bool" where
  "checkpoint_wf c \<longleftrightarrow> length (bc_model_sha256 c) = 32 \<and> length (bc_input_sha256 c) = 32 \<and>
    list_all (\<lambda>n. n \<le> usize_max) [bc_n_ctx c, bc_overlap c, bc_orig_len c, bc_symbols_len c, bc_symbols_done c,
      length (rs_out (bc_encoder c))]"

lemma read_bytes_Ok:
  "read_bytes_at bytes cursor n = Ok (s, finish) \<longleftrightarrow>
    finish = cursor + n \<and> finish \<le> length bytes \<and> finish \<le> usize_max \<and> s = take n (drop cursor bytes)"
  by (auto simp: read_bytes_at_def)

text \<open>Every reader appends what it consumed to the part that was read.\<close>

lemma read_bytes_taken:
  "read_bytes_at bytes cursor n = Ok (s, finish) \<Longrightarrow> take finish bytes = take cursor bytes @ s \<and> length s = n \<and> finish = cursor + n"
  by (auto simp: read_bytes_Ok take_add)

lemma read_u64_taken:
  "read_u64_le bytes cursor = Ok (v, finish) \<Longrightarrow> take finish bytes = push_u64 (take cursor bytes) v \<and> finish = cursor + 8"
proof -
  assume "read_u64_le bytes cursor = Ok (v, finish)"
  then obtain raw where raw: "read_bytes_at bytes cursor 8 = Ok (raw, finish)" "v = word_of_nat (from_le raw)"
    by (auto simp: read_u64_le_def)
  note r = read_bytes_taken [OF raw(1)]
  have "from_le raw < 2 ^ 64" using from_le_less [of raw] r by simp
  then have "le_bytes 8 (unat v) = raw"
    using le_bytes_from_le [of raw] r by (simp add: raw(2) unsigned_of_nat take_bit_nat_eq_self del: le_bytes.simps)
  then show ?thesis using r by (metis push_u64_def)
qed

lemma read_usize_taken:
  "read_usize_le bytes cursor = Ok (n, finish) \<Longrightarrow>
    take finish bytes = push_usize_as_u64 (take cursor bytes) n \<and> finish = cursor + 8 \<and> n \<le> usize_max"
proof -
  assume "read_usize_le bytes cursor = Ok (n, finish)"
  then obtain v where v: "read_u64_le bytes cursor = Ok (v, finish)" "n = unat v" by (auto simp: read_usize_le_def)
  have "unat v < 2 ^ 64" using unsigned_less [of v] by simp
  then have "unat v \<le> usize_max" by (simp add: usize_max_def)
  then show ?thesis using read_u64_taken [OF v(1)] v(2) by (auto simp: push_usize_as_u64_def)
qed

text \<open>\<open>opens B x\<close>: the bytes \<open>B\<close> start with \<open>x\<close>.\<close>

definition opens :: "u8 list \<Rightarrow> u8 list \<Rightarrow> bool" where
  "opens B x \<longleftrightarrow> take (length x) B = x"

lemma opens_append [simp]: "opens (x @ y) x" by (simp add: opens_def)

lemma opens_front: "opens B (x @ y) \<Longrightarrow> opens B x"
  by (metis append_eq_conv_conj append_take_drop_id append_assoc opens_def)

lemma opens_push: "opens B (push_u64 x v) \<Longrightarrow> opens B x" "opens B (push_usize_as_u64 x n) \<Longrightarrow> opens B x"
  by (simp_all only: push_usize_as_u64_def push_u64_def) (rule opens_front, assumption)+

lemma opens_read:
  assumes "opens B (x @ y)" "length B \<le> usize_max"
  shows "read_bytes_at B (length x) (length y) = Ok (y, length (x @ y))"
proof -
  obtain z where B: "B = (x @ y) @ z" using assms(1) by (metis append_take_drop_id opens_def)
  show ?thesis using assms(2) by (simp add: read_bytes_Ok B)
qed

lemma opens_read_u64:
  assumes "opens B (push_u64 x v)" "length B \<le> usize_max"
  shows "read_u64_le B (length x) = Ok (v, length (push_u64 x v))"
  using opens_read [of B x "le_bytes 8 (unat v)"] assms
  by (simp add: read_u64_le_def push_u64_def word_from_le_bytes del: le_bytes.simps)

lemma opens_read_usize:
  assumes "opens B (push_usize_as_u64 x n)" "length B \<le> usize_max" "n \<le> usize_max"
  shows "read_usize_le B (length x) = Ok (n, length (push_usize_as_u64 x n))"
  using opens_read_u64 [of B x "word_of_nat n"] assms
  by (simp add: read_usize_le_def push_usize_as_u64_def unsigned_of_nat take_bit_nat_eq_self usize_max_def)

lemma parse_written:
  assumes wf: "checkpoint_wf c" and len: "length (encode_bench_file_checkpoint c) \<le> usize_max"
  shows "parse_bench_file_checkpoint (encode_bench_file_checkpoint c) = Ok c"
proof -
  let ?e = "bc_encoder c" and ?B = "encode_bench_file_checkpoint c"
  define o0 where "o0 = BENCH_FILE_CHECKPOINT_MAGIC @ bc_model_sha256 c @ bc_input_sha256 c"
  define o1 where "o1 = push_usize_as_u64 o0 (bc_n_ctx c)"
  define o2 where "o2 = push_usize_as_u64 o1 (bc_overlap c)"
  define o3 where "o3 = push_usize_as_u64 o2 (bc_orig_len c)"
  define o4 where "o4 = push_usize_as_u64 o3 (bc_symbols_len c)"
  define o5 where "o5 = push_usize_as_u64 o4 (bc_symbols_done c)"
  define o6 where "o6 = push_u64 o5 (bc_elapsed_ns c)"
  define o7 where "o7 = push_u64 o6 (rs_low ?e)"
  define o8 where "o8 = push_u64 o7 (rs_range ?e)"
  define o9 where "o9 = push_usize_as_u64 o8 (length (rs_out ?e))"
  note os = o9_def o8_def o7_def o6_def o5_def o4_def o3_def o2_def o1_def
  have B: "?B = o9 @ rs_out ?e" unfolding encode_bench_file_checkpoint_def Let_def os o0_def ..
  have o9: "opens ?B o9" by (simp add: B)
  have o8: "opens ?B o8" using o9 opens_push(2) unfolding o9_def by blast
  have o7: "opens ?B o7" using o8 opens_push(1) unfolding o8_def by blast
  have o6: "opens ?B o6" using o7 opens_push(1) unfolding o7_def by blast
  have o5: "opens ?B o5" using o6 opens_push(1) unfolding o6_def by blast
  have o4: "opens ?B o4" using o5 opens_push(2) unfolding o5_def by blast
  have o3: "opens ?B o3" using o4 opens_push(2) unfolding o4_def by blast
  have o2: "opens ?B o2" using o3 opens_push(2) unfolding o3_def by blast
  have o1: "opens ?B o1" using o2 opens_push(2) unfolding o2_def by blast
  have o0: "opens ?B o0" using o1 opens_push(2) unfolding o1_def by blast
  have hashes: "length (bc_model_sha256 c) = 32" "length (bc_input_sha256 c) = 32" and magic: "length BENCH_FILE_CHECKPOINT_MAGIC = 8"
    using wf by (simp_all add: checkpoint_wf_def BENCH_FILE_CHECKPOINT_MAGIC_def)
  have two: "opens ?B (BENCH_FILE_CHECKPOINT_MAGIC @ bc_model_sha256 c)" using o0 opens_front unfolding o0_def by (metis append_assoc)
  have mag: "get_range ?B 0 8 = Some BENCH_FILE_CHECKPOINT_MAGIC"
    using opens_front [OF two] len magic by (auto simp: opens_def) (metis length_take min.absorb_iff2 nle_le)
  have arrays: "read_array_32 ?B 8 = Ok (bc_model_sha256 c, 40)" "read_array_32 ?B 40 = Ok (bc_input_sha256 c, length o0)"
    using opens_read [OF two len] opens_read [of ?B "BENCH_FILE_CHECKPOINT_MAGIC @ bc_model_sha256 c" "bc_input_sha256 c"] o0 len
    by (simp_all add: read_array_32_def hashes magic o0_def)
  have fields: "n \<in> {bc_n_ctx c, bc_overlap c, bc_orig_len c, bc_symbols_len c, bc_symbols_done c, length (rs_out ?e)} \<Longrightarrow> n \<le> usize_max" for n
    using wf by (auto simp: checkpoint_wf_def)
  note reads = opens_read_usize [OF o1 [unfolded o1_def] len, folded o1_def] opens_read_usize [OF o2 [unfolded o2_def] len, folded o2_def]
    opens_read_usize [OF o3 [unfolded o3_def] len, folded o3_def] opens_read_usize [OF o4 [unfolded o4_def] len, folded o4_def]
    opens_read_usize [OF o5 [unfolded o5_def] len, folded o5_def] opens_read_u64 [OF o6 [unfolded o6_def] len, folded o6_def]
    opens_read_u64 [OF o7 [unfolded o7_def] len, folded o7_def] opens_read_u64 [OF o8 [unfolded o8_def] len, folded o8_def]
    opens_read_usize [OF o9 [unfolded o9_def] len, folded o9_def]
  have "get_range ?B (length o9) (length o9 + length (rs_out ?e)) = Some (rs_out ?e)" "length ?B = length o9 + length (rs_out ?e)"
    "length o9 + length (rs_out ?e) \<le> usize_max"
    using len by (simp_all add: B)
  then show ?thesis
    by (simp add: parse_bench_file_checkpoint_def magic mag arrays reads fields)
qed

lemma parsed_bytes:
  assumes "parse_bench_file_checkpoint bytes = Ok c"
  shows "checkpoint_wf c \<and> bytes = encode_bench_file_checkpoint c"
proof -
  have magic: "length BENCH_FILE_CHECKPOINT_MAGIC = 8" by (simp add: BENCH_FILE_CHECKPOINT_MAGIC_def)
  let ?e = "bc_encoder c"
  obtain c1 c2 c3 c4 c5 c6 c7 c8 c9 c10 c11 where r: "get_range bytes 0 8 = Some BENCH_FILE_CHECKPOINT_MAGIC"
    "read_array_32 bytes 8 = Ok (bc_model_sha256 c, c1)" "read_array_32 bytes c1 = Ok (bc_input_sha256 c, c2)"
    "read_usize_le bytes c2 = Ok (bc_n_ctx c, c3)" "read_usize_le bytes c3 = Ok (bc_overlap c, c4)"
    "read_usize_le bytes c4 = Ok (bc_orig_len c, c5)" "read_usize_le bytes c5 = Ok (bc_symbols_len c, c6)"
    "read_usize_le bytes c6 = Ok (bc_symbols_done c, c7)" "read_u64_le bytes c7 = Ok (bc_elapsed_ns c, c8)"
    "read_u64_le bytes c8 = Ok (rs_low ?e, c9)" "read_u64_le bytes c9 = Ok (rs_range ?e, c10)"
    "read_usize_le bytes c10 = Ok (length (rs_out ?e), c11)" "rs_out ?e = drop c11 bytes" "c11 + length (rs_out ?e) = length bytes"
    using assms
    by (auto simp: parse_bench_file_checkpoint_def magic simp del: get_range_Some_iff split: if_splits)
      (auto simp: get_range_def split: if_splits)
  note a = r(2,3) [unfolded read_array_32_def, THEN read_bytes_taken]
  note u = r(4-8,12) [THEN read_usize_taken] and w = r(9-11) [THEN read_u64_taken]
  have "take 8 bytes = BENCH_FILE_CHECKPOINT_MAGIC" using r(1) by simp
  then have "take c11 bytes @ rs_out ?e = encode_bench_file_checkpoint c"
    using a [THEN conjunct1] u [THEN conjunct1] w [THEN conjunct1] by (simp add: encode_bench_file_checkpoint_def Let_def)
  moreover have "bytes = take c11 bytes @ rs_out ?e" by (simp add: r(13))
  ultimately show ?thesis using a u by (simp add: checkpoint_wf_def)
qed

text \<open>C25: Checkpoint files have exactly one coding. A byte string that fits in memory is read as the
  checkpoint \<open>c\<close> if and only if it is what the writer produces for \<open>c\<close>, and \<open>c\<close> has arrays of 32
  bytes and fields in the range of \<open>usize\<close>: no checkpoint is lost or changed by a restart, and
  no truncated, extended or foreign file is accepted.\<close>

theorem checkpoint_codec:
  assumes "length bytes \<le> usize_max"
  shows "parse_bench_file_checkpoint bytes = Ok c \<longleftrightarrow> checkpoint_wf c \<and> bytes = encode_bench_file_checkpoint c"
  using parsed_bytes [of bytes c] parse_written [of c] assms by blast

definition sample_checkpoint :: bench_checkpoint where
  "sample_checkpoint = \<lparr>bc_model_sha256 = replicate 32 1, bc_input_sha256 = replicate 32 2, bc_n_ctx = 8, bc_overlap = 2,
    bc_orig_len = 5, bc_symbols_len = 4, bc_symbols_done = 2, bc_elapsed_ns = 7, bc_encoder = re_snapshot re_new\<rparr>"

theorem checkpoint_codec_witness:
  "parse_bench_file_checkpoint (encode_bench_file_checkpoint sample_checkpoint) = Ok sample_checkpoint"
  using checkpoint_codec [of "encode_bench_file_checkpoint sample_checkpoint" sample_checkpoint]
  by (simp add: checkpoint_wf_def sample_checkpoint_def re_snapshot_def re_new_def encode_bench_file_checkpoint_def
      push_usize_as_u64_def push_u64_def BENCH_FILE_CHECKPOINT_MAGIC_def usize_max_def del: le_bytes.simps)

end
