(* ===== verification/Bench_Codec.thy ===== *)
theory Bench_Codec
  imports Codec Bench_Checkpoint
begin

text \<open>
  The codec of the file benchmark in \<open>src/xtask/src/main.rs\<close>. It has its own copy of the command
  line's windowed model state, always with byte escapes, and its own copies of \<open>advance\<close>, \<open>replay\<close>,
  \<open>sync\<close>, \<open>next_window_start\<close> and \<open>validate_window\<close>: all of them are written out here from that copy,
  under names that start with \<open>bench\<close>, and \<open>Bench_Run\<close> proves that they are the functions of
  \<open>Codec_Window\<close>. Only the record of the state is shared; its escape flag, which the struct of the
  benchmark does not have, is set by the constructor and read by none of the operations here. On top
  are the encoder and decoder over a symbol list with progress reports, and the encoder that keeps a
  checkpoint file, so that an interrupted run can be resumed. What the outside world contributes, the
  outcome of writing a file and the clock, is a record of functions of the number of symbols done.
\<close>

section \<open>The windowed model state\<close>

definition bench_new :: "llama \<Rightarrow> nat \<Rightarrow> window_state cres" where
  "bench_new model n_ctx =
    rbind (map_err RopeError (rope_llama (ll_config model) n_ctx)) (\<lambda>rope.
    rbind (map_err CacheError (kv_new (ll_config model))) (\<lambda>cache.
    rbind (map_err WorkspaceError (forward_workspace model n_ctx)) (\<lambda>ws.
    rbind (map_err UniformError (uniform_cdf_with_byte_escapes (rows (ll_output model)))) (\<lambda>uniform.
    Ok \<lparr>wn_model = model, wn_n_ctx = n_ctx, wn_window_start = 0, wn_context_len = 0, wn_rope = rope, wn_cache = cache,
        wn_workspace = ws, wn_logits = replicate (rows (ll_output model)) 0, wn_uniform = uniform,
        wn_scratch = scratch_default, wn_escapes = True\<rparr>))))"

definition bench_advance :: "nat \<Rightarrow> window_state \<Rightarrow> window_state cres" where
  "bench_advance token st =
    (if wn_n_ctx st \<le> wn_context_len st then Err WindowViolated
     else
       rbind (map_err ForwardError (forward_one_with_workspace (wn_model st) token (wn_context_len st) (wn_rope st)
           (wn_cache st) (wn_logits st) (wn_workspace st))) (\<lambda>(cache, logits, ws).
       Ok (st\<lparr>wn_cache := cache, wn_logits := logits, wn_workspace := ws, wn_context_len := wn_context_len st + 1\<rparr>)))"

definition bench_replay :: "nat \<Rightarrow> nat list \<Rightarrow> window_state \<Rightarrow> window_state cres" where
  "bench_replay window_start ctx st =
    rbind (map_err CacheError (kv_new (ll_config (wn_model st)))) (\<lambda>cache.
    rfold bench_advance ctx
      (st\<lparr>wn_cache := cache, wn_logits := replicate (length (wn_logits st)) 0, wn_window_start := window_start,
          wn_context_len := 0\<rparr>))"

definition bench_next_window_start :: "nat \<Rightarrow> nat \<Rightarrow> nat \<Rightarrow> nat \<Rightarrow> nat" where
  "bench_next_window_start pos window_start n_ctx overlap =
    (if n_ctx \<le> pos - window_start then pos - overlap else window_start)"

definition bench_sync :: "nat \<Rightarrow> nat list \<Rightarrow> nat \<Rightarrow> window_state \<Rightarrow> window_state cres" where
  "bench_sync pos tokens overlap st =
    (if pos \<noteq> length tokens then Err PositionMismatch
     else
       let next_start = bench_next_window_start pos (wn_window_start st) (wn_n_ctx st) overlap in
       if next_start \<noteq> wn_window_start st
       then rbind (slice_at tokens next_start pos) (\<lambda>ctx. bench_replay next_start ctx st)
       else Ok st)"

definition bench_validate_window :: "nat \<Rightarrow> nat \<Rightarrow> nat \<Rightarrow> unit cres" where
  "bench_validate_window n_ctx overlap model_ctx =
    (if n_ctx = 0 then Err ContextZero
     else if model_ctx < n_ctx then Err (ContextTooLong n_ctx model_ctx)
     else if n_ctx \<le> overlap then Err (OverlapTooLong overlap n_ctx)
     else Ok ())"

definition bench_symbol_range :: "nat \<Rightarrow> window_state \<Rightarrow> (symbol_range \<times> window_state) cres" where
  "bench_symbol_range symbol st =
    (if wn_context_len st = 0 then
       rbind (map_err SymbolRangeError (uniform_symbol_range symbol (length (c_freq (wn_uniform st))))) (\<lambda>r. Ok (r, st))
     else
       case logits_to_symbol_range_with_byte_escapes (wn_logits st) symbol (wn_scratch st) of (r, scratch) \<Rightarrow>
       rbind (map_err SymbolRangeError r) (\<lambda>r. Ok (r, st\<lparr>wn_scratch := scratch\<rparr>)))"

definition bench_decode_symbol :: "range_decoder \<Rightarrow> window_state \<Rightarrow> (nat \<times> range_decoder \<times> window_state) cres" where
  "bench_decode_symbol dec st =
    (if wn_context_len st = 0 then
       (let cdf = wn_uniform st in
        case rd_decode_freq dec (c_total cdf) of (r, dec) \<Rightarrow>
        rbind (map_err DecodeError r) (\<lambda>v.
        rbind (ok_or (LookupFailed v) (symbol_for_validated cdf v)) (\<lambda>symbol.
        rbind (index_at (c_cum cdf) symbol) (\<lambda>cum.
        rbind (index_at (c_freq cdf) symbol) (\<lambda>freq.
        case rd_advance dec cum (ucast freq) (c_total cdf) of (r, dec) \<Rightarrow>
        rbind (map_err AdvanceError r) (\<lambda>_. Ok (symbol, dec, st)))))))
     else
       case logits_to_decoder_distribution_with_byte_escapes (wn_logits st) (wn_scratch st) of (r, scratch) \<Rightarrow>
       rbind (map_err DistributionError r) (\<lambda>dist.
       case rd_decode_freq dec (dd_total dist) of (r, dec) \<Rightarrow>
       rbind (map_err DecodeError r) (\<lambda>v.
       rbind (ok_or (LookupFailed v) (dd_symbol_range dist v)) (\<lambda>(symbol, range).
       case rd_advance dec (sr_cum range) (ucast (sr_freq range)) (sr_total range) of (r, dec) \<Rightarrow>
       rbind (map_err AdvanceError r) (\<lambda>_. Ok (symbol, dec, st\<lparr>wn_scratch := scratch\<rparr>))))))"

text \<open>The window start after a prefix of the tokens.\<close>

definition window_start_for_encoded_prefix :: "nat \<Rightarrow> nat \<Rightarrow> nat \<Rightarrow> nat" where
  "window_start_for_encoded_prefix encoded_tokens n_ctx overlap =
    fold (\<lambda>pos window_start. bench_next_window_start pos window_start n_ctx overlap) [0..<encoded_tokens] 0"

section \<open>Progress\<close>

datatype bench_error = CodecFailed codec_error | CheckpointError checkpoint_error | RangeStateError range_error
  | FileFailed | SummaryFailed | EveryMissing | EscapeInTokens nat | BenchDetokenize token_error

type_synonym 'a bres = "(bench_error, 'a) res"

text \<open>\<open>BenchFileProgress\<close>; of the summary path only its presence matters.\<close>

record bench_progress =
  bp_every :: "nat option"
  bp_summary :: bool

definition no_progress :: bench_progress where
  "no_progress = \<lparr>bp_every = None, bp_summary = False\<rparr>"

text \<open>The report after \<open>finished\<close> of \<open>symbol_count\<close> symbols; \<open>written\<close> says whether a summary file could be written.\<close>

definition report_bench_file_progress :: "nat \<Rightarrow> nat \<Rightarrow> bench_progress \<Rightarrow> bool \<Rightarrow> unit bres" where
  "report_bench_file_progress finished symbol_count progress written =
    rbind (case bp_every progress of
        Some every \<Rightarrow> if finished = symbol_count then Ok True else if every = 0 then Panic else Ok (finished mod every = 0)
      | None \<Rightarrow> Ok (finished = symbol_count \<and> bp_summary progress)) (\<lambda>should_report.
    if should_report \<and> bp_summary progress \<and> \<not> written then Err SummaryFailed else Ok ())"

section \<open>Encoding and decoding symbol lists\<close>

definition bench_encode_step :: "nat \<Rightarrow> nat \<Rightarrow> nat \<Rightarrow> range_encoder \<times> window_state \<times> nat list \<Rightarrow>
    (range_encoder \<times> window_state \<times> nat list) cres" where
  "bench_encode_step vocab_len overlap symbol = (\<lambda>(enc, st, context_tokens).
    rbind (bench_sync (length context_tokens) context_tokens overlap st) (\<lambda>st.
    rbind (bench_symbol_range symbol st) (\<lambda>(range, st).
    rbind (map_err EncodeError (re_encode enc (sr_cum range) (ucast (sr_freq range)) (sr_total range))) (\<lambda>enc.
    if codec_symbol_is_token symbol vocab_len
    then rbind (bench_advance symbol st) (\<lambda>st. Ok (enc, st, context_tokens @ [symbol]))
    else Ok (enc, st, context_tokens)))))"

definition encode_symbols_with_model_progress ::
  "llama \<Rightarrow> nat list \<Rightarrow> nat \<Rightarrow> nat \<Rightarrow> bench_progress \<Rightarrow> (nat \<Rightarrow> bool) \<Rightarrow> u8 list bres" where
  "encode_symbols_with_model_progress model symbols n_ctx overlap progress written =
    rbind (map_err CodecFailed (bench_validate_window n_ctx overlap (context_length (ll_config model)))) (\<lambda>_.
    rbind (map_err CodecFailed (bench_new model n_ctx)) (\<lambda>st.
    rbind (rfold (\<lambda>(pos, symbol) s.
        rbind (map_err CodecFailed (bench_encode_step (rows (ll_output model)) overlap symbol s)) (\<lambda>s.
        rbind (report_bench_file_progress (pos + 1) (length symbols) progress (written (pos + 1))) (\<lambda>_. Ok s)))
      (enumerate 0 symbols) (re_new, st, [])) (\<lambda>(enc, _, _).
    Ok (re_finish enc))))"

definition bench_decode_step :: "nat \<Rightarrow> nat \<Rightarrow> range_decoder \<times> window_state \<times> nat list \<times> nat list \<Rightarrow>
    (range_decoder \<times> window_state \<times> nat list \<times> nat list) cres" where
  "bench_decode_step vocab_len overlap = (\<lambda>(dec, st, symbols, context_tokens).
    rbind (bench_sync (length context_tokens) context_tokens overlap st) (\<lambda>st.
    rbind (bench_decode_symbol dec st) (\<lambda>(symbol, dec, st).
    if codec_symbol_is_token symbol vocab_len
    then rbind (bench_advance symbol st) (\<lambda>st. Ok (dec, st, symbols @ [symbol], context_tokens @ [symbol]))
    else Ok (dec, st, symbols @ [symbol], context_tokens))))"

definition decode_symbols_with_model_progress ::
  "llama \<Rightarrow> u8 list \<Rightarrow> nat \<Rightarrow> nat \<Rightarrow> nat \<Rightarrow> bench_progress \<Rightarrow> (nat \<Rightarrow> bool) \<Rightarrow> nat list bres" where
  "decode_symbols_with_model_progress model payload symbol_len n_ctx overlap progress written =
    rbind (map_err CodecFailed (bench_validate_window n_ctx overlap (context_length (ll_config model)))) (\<lambda>_.
    rbind (map_err (CodecFailed \<circ> DecoderError) (rd_new payload)) (\<lambda>dec.
    rbind (map_err CodecFailed (bench_new model n_ctx)) (\<lambda>st.
    rbind (rfold (\<lambda>pos s.
        rbind (map_err CodecFailed (bench_decode_step (rows (ll_output model)) overlap s)) (\<lambda>s.
        rbind (report_bench_file_progress (pos + 1) symbol_len progress (written (pos + 1))) (\<lambda>_. Ok s)))
      [0..<symbol_len] (dec, st, [], [])) (\<lambda>(_, _, symbols, _).
    Ok symbols))))"

definition encode_tokens_with_model :: "llama \<Rightarrow> nat list \<Rightarrow> nat \<Rightarrow> nat \<Rightarrow> u8 list bres" where
  "encode_tokens_with_model model tokens n_ctx overlap =
    encode_symbols_with_model_progress model tokens n_ctx overlap no_progress (\<lambda>_. True)"

definition decode_tokens_with_model :: "llama \<Rightarrow> u8 list \<Rightarrow> nat \<Rightarrow> nat \<Rightarrow> nat \<Rightarrow> nat list bres" where
  "decode_tokens_with_model model payload token_len n_ctx overlap =
    rbind (decode_symbols_with_model_progress model payload token_len n_ctx overlap no_progress (\<lambda>_. True)) (\<lambda>symbols.
    case find (\<lambda>symbol. \<not> codec_symbol_is_token symbol (rows (ll_output model))) symbols of
      Some symbol \<Rightarrow> Err (EscapeInTokens symbol)
    | None \<Rightarrow> Ok symbols)"

definition detokenize_codec_symbols :: "tokenizer \<Rightarrow> nat list \<Rightarrow> nat \<Rightarrow> (token_error, u8 list) res" where
  "detokenize_codec_symbols tokenizer symbols vocab_len =
    rfold (\<lambda>symbol out. rbind (decode_codec_symbol tokenizer symbol vocab_len) (\<lambda>piece. Ok (out @ piece))) symbols []"

definition codec_round_trip ::
  "llama \<Rightarrow> tokenizer \<Rightarrow> nat list \<Rightarrow> nat \<Rightarrow> nat \<Rightarrow> bench_progress \<Rightarrow> (nat \<Rightarrow> bool) \<Rightarrow> (u8 list \<times> u8 list) bres" where
  "codec_round_trip model tokenizer symbols n_ctx overlap progress written =
    rbind (encode_symbols_with_model_progress model symbols n_ctx overlap progress written) (\<lambda>payload.
    rbind (decode_symbols_with_model_progress model payload (length symbols) n_ctx overlap progress written) (\<lambda>decoded.
    rbind (map_err BenchDetokenize (detokenize_codec_symbols tokenizer decoded (rows (ll_output model)))) (\<lambda>restored.
    Ok (payload, restored))))"

section \<open>Encoding with a checkpoint file\<close>

text \<open>The arguments of a run.\<close>

record bench_job =
  bj_model :: llama
  bj_symbols :: "nat list"
  bj_n_ctx :: nat
  bj_overlap :: nat
  bj_progress :: bench_progress
  bj_checkpoint_every :: nat
  bj_model_sha256 :: "u8 list"
  bj_input_sha256 :: "u8 list"
  bj_orig_len :: nat

text \<open>What the outside world contributes to a run: whether the checkpoint file can be read, whether
  the summary and the checkpoint can be written after a number of symbols, and the seconds since
  the start as \<open>as_secs_f64\<close> gives them.\<close>

record bench_world =
  bw_readable :: bool
  bw_summary :: "nat \<Rightarrow> bool"
  bw_checkpoint :: "nat \<Rightarrow> bool"
  bw_elapsed :: "nat \<Rightarrow> f64"

text \<open>\<open>x.round()\<close>: to the nearest integer, ties away from zero.\<close>

definition f64_round :: "f64 \<Rightarrow> f64" where
  "f64_round x = (case dec64 x of
      Fin s m e \<Rightarrow> if 0 \<le> e then x else word_of_int (fp_round 52 11 s ((m + 2 ^ (nat (- e) - 1)) div 2 ^ nat (- e)) 0)
    | _ \<Rightarrow> x)"

definition seconds_to_nanoseconds :: "f64 \<Rightarrow> u64" where
  "seconds_to_nanoseconds seconds =
    (if \<not> f64_is_finite seconds \<or> f64_le seconds 0 then 0
     else let nanos = f64_mul seconds (f64_of_int 1000000000) in
       if f64_le (f64_of_int (2 ^ 64 - 1)) nanos then - 1 else word_of_int (f64_to_int 0 (2 ^ 64 - 1) (f64_round nanos)))"

text \<open>Where a run starts: the encoder, the number of symbols done, and the time already spent.\<close>

definition checkpoint_start :: "bench_job \<Rightarrow> bench_world \<Rightarrow> u8 list option \<Rightarrow> (range_encoder \<times> nat \<times> f64) bres" where
  "checkpoint_start job world file =
    (if \<not> bw_readable world then Err FileFailed
     else case file of
       None \<Rightarrow> Ok (re_new, 0, 0)
     | Some bytes \<Rightarrow>
         rbind (map_err CheckpointError (parse_bench_file_checkpoint bytes)) (\<lambda>c.
         rbind (map_err CheckpointError (checkpoint_validate c (bj_model_sha256 job) (bj_input_sha256 job) (bj_n_ctx job)
             (bj_overlap job) (bj_orig_len job) (length (bj_symbols job)))) (\<lambda>_.
         rbind (map_err RangeStateError (re_from_snapshot (bc_encoder c))) (\<lambda>enc.
         Ok (enc, bc_symbols_done c, f64_div (f64_of_int (uint (bc_elapsed_ns c))) (f64_of_int 1000000000))))))"

text \<open>The state before the loop: the context of the symbols done, replayed into a new model state.\<close>

definition checkpoint_resume_state :: "bench_job \<Rightarrow> nat \<Rightarrow> (window_state \<times> nat list) bres" where
  "checkpoint_resume_state job start_pos =
    rbind (slice_at (bj_symbols job) 0 start_pos) (\<lambda>prefix.
    let context_tokens = filter (\<lambda>symbol. codec_symbol_is_token symbol (rows (ll_output (bj_model job)))) prefix in
    rbind (map_err CodecFailed (bench_new (bj_model job) (bj_n_ctx job))) (\<lambda>st.
    let replay_start = window_start_for_encoded_prefix (length context_tokens) (bj_n_ctx job) (bj_overlap job) in
    rbind (slice_at context_tokens replay_start (length context_tokens)) (\<lambda>window.
    rbind (map_err CodecFailed (bench_replay replay_start window st)) (\<lambda>st.
    Ok (st, context_tokens)))))"

definition checkpoint_for :: "bench_job \<Rightarrow> nat \<Rightarrow> f64 \<Rightarrow> range_encoder \<Rightarrow> bench_checkpoint" where
  "checkpoint_for job finished elapsed_s enc =
    \<lparr>bc_model_sha256 = bj_model_sha256 job, bc_input_sha256 = bj_input_sha256 job, bc_n_ctx = bj_n_ctx job,
     bc_overlap = bj_overlap job, bc_orig_len = bj_orig_len job, bc_symbols_len = length (bj_symbols job),
     bc_symbols_done = finished, bc_elapsed_ns = seconds_to_nanoseconds elapsed_s, bc_encoder = re_snapshot enc\<rparr>"

text \<open>One turn of the loop; the file changes at its end, if it does. It is written under another
  name and renamed, so a write that fails leaves the old one.\<close>

definition checkpoint_step :: "bench_job \<Rightarrow> bench_world \<Rightarrow> f64 \<Rightarrow> nat \<times> nat \<Rightarrow>
    (range_encoder \<times> window_state \<times> nat list) \<times> u8 list option \<Rightarrow>
    ((range_encoder \<times> window_state \<times> nat list) \<times> u8 list option) bres" where
  "checkpoint_step job world elapsed_offset = (\<lambda>(pos, symbol) (s, file).
    rbind (map_err CodecFailed (bench_encode_step (rows (ll_output (bj_model job))) (bj_overlap job) symbol s)) (\<lambda>s.
    let finished = pos + 1; elapsed_s = f64_add elapsed_offset (bw_elapsed world finished) in
    rbind (report_bench_file_progress finished (length (bj_symbols job)) (bj_progress job) (bw_summary world finished)) (\<lambda>_.
    rbind (if finished = length (bj_symbols job) then Ok True
           else if bj_checkpoint_every job = 0 then Panic else Ok (finished mod bj_checkpoint_every job = 0)) (\<lambda>write.
    if \<not> write then Ok (s, file)
    else if \<not> bw_checkpoint world finished then Err FileFailed
    else Ok (s, Some (encode_bench_file_checkpoint (checkpoint_for job finished elapsed_s (fst s))))))))"

text \<open>A run has a result and leaves a file, also when it fails.\<close>

fun checkpoint_loop :: "bench_job \<Rightarrow> bench_world \<Rightarrow> f64 \<Rightarrow> (nat \<times> nat) list \<Rightarrow>
    (range_encoder \<times> window_state \<times> nat list) \<Rightarrow> u8 list option \<Rightarrow> u8 list bres \<times> u8 list option" where
  "checkpoint_loop job world off [] s file = (Ok (re_finish (fst s)), file)"
| "checkpoint_loop job world off (x # xs) s file =
    (case checkpoint_step job world off x (s, file) of
       Ok (s, file) \<Rightarrow> checkpoint_loop job world off xs s file
     | r \<Rightarrow> (rbind r (\<lambda>_. Panic), file))"

definition encode_symbols_with_model_checkpoint :: "bench_job \<Rightarrow> bench_world \<Rightarrow> u8 list option \<Rightarrow> u8 list bres \<times> u8 list option" where
  "encode_symbols_with_model_checkpoint job world file =
    (case rbind (map_err CodecFailed (bench_validate_window (bj_n_ctx job) (bj_overlap job) (context_length (ll_config (bj_model job))))) (\<lambda>_.
          rbind (checkpoint_start job world file) (\<lambda>(enc, start_pos, off).
          rbind (checkpoint_resume_state job start_pos) (\<lambda>(st, context_tokens).
          Ok (enc, start_pos, off, st, context_tokens)))) of
       Ok (enc, start_pos, off, st, context_tokens) \<Rightarrow>
         checkpoint_loop job world off (drop start_pos (enumerate 0 (bj_symbols job))) (enc, st, context_tokens) file
     | r \<Rightarrow> (rbind r (\<lambda>_. Panic), file))"

definition encode_symbols_for_bench_file ::
  "bench_job \<Rightarrow> bench_world \<Rightarrow> bool \<Rightarrow> nat option \<Rightarrow> u8 list option \<Rightarrow> u8 list bres \<times> u8 list option" where
  "encode_symbols_for_bench_file job world with_checkpoint checkpoint_every file =
    (if \<not> with_checkpoint
     then (encode_symbols_with_model_progress (bj_model job) (bj_symbols job) (bj_n_ctx job) (bj_overlap job)
             (bj_progress job) (bw_summary world), file)
     else case checkpoint_every of
       None \<Rightarrow> (Err EveryMissing, file)
     | Some every \<Rightarrow> encode_symbols_with_model_checkpoint (job\<lparr>bj_checkpoint_every := every\<rparr>) world file)"

end
