(* ===== verification/Bench_Run.thy ===== *)
theory Bench_Run
  imports Bench_Codec Codec_Round_Trip
begin

text \<open>
  Properties of the benchmark's codec: its copies of the functions on the model state are those of
  the command line, its encoder agrees with the command line's under every kind of progress report,
  and its round trip returns what it encoded. Runs with a checkpoint file follow in \<open>Bench_Resume\<close>.
\<close>

section \<open>The benchmark's codec is the command line's\<close>

lemma bench_new_window: "bench_new model n = window_new model n True"
  by (simp add: bench_new_def window_new_def)

lemma bench_advance_window [simp]: "bench_advance = window_advance"
  by (intro ext) (simp add: bench_advance_def window_advance_def)

lemma bench_replay_window [simp]: "bench_replay = window_replay"
  by (intro ext) (simp add: bench_replay_def window_replay_def)

lemma bench_next_window [simp]: "bench_next_window_start = next_window_start"
  by (intro ext) (simp add: bench_next_window_start_def next_window_start_def)

lemma bench_sync_window [simp]: "bench_sync = window_sync"
  by (intro ext) (simp add: bench_sync_def window_sync_def Let_def)

lemma bench_validate [simp]: "bench_validate_window = validate_window"
  by (intro ext) (simp add: bench_validate_window_def validate_window_def)

lemmas bench_copies = bench_advance_window bench_replay_window bench_next_window bench_sync_window bench_validate

lemma bench_symbol_range_window: "wn_escapes s \<Longrightarrow> bench_symbol_range x s = window_symbol_range x s"
  by (simp add: bench_symbol_range_def window_symbol_range_def)

lemma bench_decode_symbol_window: "wn_escapes s \<Longrightarrow> bench_decode_symbol d s = window_decode_symbol d s"
  by (simp add: bench_decode_symbol_def window_decode_symbol_def cdf_decode_symbol_def Let_def rbind_assoc case_prod_unfold)

lemma new_escapes: "window_new model n e = Ok s \<Longrightarrow> wn_escapes s = e"
  by (auto simp: window_new_def)

lemma sync_escapes: "window_sync p ctx overlap s = Ok s' \<Longrightarrow> wn_escapes s' = wn_escapes s"
  using sync_setup by (simp add: same_setup_def)

lemma bench_step_window:
  "wn_escapes s \<Longrightarrow> bench_encode_step n overlap x (e, s, ctx) = encode_step n True overlap x (e, s, ctx)"
  unfolding bench_encode_step_def bench_copies encode_step_def prod.case
  by (intro rbind_cong refl)
    (auto simp: bench_symbol_range_window sync_escapes codec_symbol_is_token_def intro!: rbind_cong)

lemma encode_step_escapes: "encode_step n True overlap x (e, s, ctx) = Ok (e', s', ctx') \<Longrightarrow> wn_escapes s' = wn_escapes s"
proof -
  assume "encode_step n True overlap x (e, s, ctx) = Ok (e', s', ctx')"
  then obtain s1 r s2 where "window_sync (length ctx) ctx overlap s = Ok s1" "window_symbol_range x s1 = Ok (r, s2)"
    "s' = s2 \<or> window_advance x s2 = Ok s'"
    by (auto simp: encode_step_def split: if_splits)
  then show ?thesis using sync_escapes predictions_frame(1) advance_setup by (fastforce simp: same_setup_def)
qed

lemma bench_steps_window:
  "wn_escapes s \<Longrightarrow> rfold (bench_encode_step n overlap) xs (e, s, ctx) = rfold (encode_step n True overlap) xs (e, s, ctx)"
proof (induction xs arbitrary: e s ctx)
  case (Cons x xs)
  show ?case unfolding rfold.simps bench_step_window [OF Cons.prems]
    by (rule rbind_cong [OF refl]) (auto simp: Cons.prems dest!: encode_step_escapes intro!: Cons.IH)
qed simp

text \<open>Without a failing report the loop with reports is the plain one.\<close>

definition quiet :: "bench_progress \<Rightarrow> (nat \<Rightarrow> bool) \<Rightarrow> bool" where
  "quiet progress written \<longleftrightarrow> bp_every progress \<noteq> Some 0 \<and> (\<forall>k. bp_summary progress \<longrightarrow> written k)"

lemma quiet_report: "quiet progress written \<Longrightarrow> report_bench_file_progress k n progress (written k) = Ok ()"
  by (auto simp: quiet_def report_bench_file_progress_def split: option.split)

lemma quiet_no_progress [simp]: "quiet no_progress written"
  by (simp add: quiet_def no_progress_def)

lemma rfold_quiet:
  assumes "quiet progress written"
  shows "rfold (\<lambda>(pos, x) s. rbind (map_err g (f x s)) (\<lambda>s. rbind (report_bench_file_progress (pos + 1) k progress (written (pos + 1))) (\<lambda>_. Ok s)))
      (enumerate i xs) s = map_err g (rfold f xs s)"
proof (induction xs arbitrary: i s)
  case (Cons x xs)
  then show ?case by (cases "f x s") (simp_all add: quiet_report [OF assms])
qed simp

lemma map_err_bind: "map_err g (rbind m f) = rbind (map_err g m) (\<lambda>x. map_err g (f x))"
  by (cases m) simp_all

lemma encode_quiet:
  assumes "quiet progress written"
  shows "encode_symbols_with_model_progress model xs n overlap progress written =
    map_err CodecFailed (rbind (validate_window n overlap (context_length (ll_config model))) (\<lambda>_.
      rbind (bench_new model n) (\<lambda>s. rbind (rfold (bench_encode_step (rows (ll_output model)) overlap) xs (re_new, s, []))
        (\<lambda>(enc, _, _). Ok (re_finish enc)))))"
  unfolding encode_symbols_with_model_progress_def rfold_quiet [OF assms]
  by (simp add: map_err_bind case_prod_unfold)

lemma encode_window:
  "encode_symbols_with_model_progress model symbols n_ctx overlap no_progress written =
    map_err CodecFailed (encode_symbols_with_model model symbols n_ctx overlap True)"
proof -
  have "rbind (bench_new model n_ctx) (\<lambda>s. rbind (rfold (bench_encode_step k overlap) symbols (re_new, s, [])) f) =
      rbind (window_new model n_ctx True) (\<lambda>s. rbind (rfold (encode_step k True overlap) symbols (re_new, s, [])) f)"
    for k and f :: "_ \<Rightarrow> u8 list cres"
    unfolding bench_new_window by (rule rbind_cong [OF refl]) (simp add: bench_steps_window new_escapes)
  then show ?thesis by (simp add: encode_quiet encode_symbols_with_model_def)
qed

text \<open>With reports, the loop ends as without them or at the first report that does not succeed.\<close>

lemma rfold_reports:
  "(let r = rfold (\<lambda>(pos, x) s. rbind (map_err g (f x s)) (\<lambda>s. rbind (report (pos + 1)) (\<lambda>_. Ok s))) (enumerate i xs) s
    in r = map_err g (rfold f xs s) \<or> (\<exists>k \<in> {i<..i + length xs}. report k \<noteq> Ok () \<and> r = rbind (report k) (\<lambda>_. Panic)))"
proof (induction xs arbitrary: i s)
  case (Cons x xs)
  show ?case
  proof (cases "\<exists>s'. f x s = Ok s' \<and> report (i + 1) = Ok ()")
    case True
    then obtain s' where s': "f x s = Ok s'" "report (Suc i) = Ok ()" by auto
    with Cons.IH [of "Suc i" s'] show ?thesis by (auto simp: Let_def)
  next
    case False
    then show ?thesis by (cases "f x s"; cases "report (i + 1)") (auto simp: Let_def intro!: bexI [of _ "Suc i"])
  qed
qed (simp add: Let_def)

lemma report_failed:
  assumes "report_bench_file_progress k n progress (written k) \<noteq> Ok ()"
  shows "bp_summary progress \<and> \<not> written k \<and> report_bench_file_progress k n progress (written k) = Err SummaryFailed \<or>
    bp_every progress = Some 0 \<and> report_bench_file_progress k n progress (written k) = Panic"
  using assms by (auto simp: report_bench_file_progress_def split: option.splits if_splits)

text \<open>The result of the benchmark's encoder that is not the command line's, if there is one.\<close>

definition report_failure :: "nat \<Rightarrow> bench_progress \<Rightarrow> (nat \<Rightarrow> bool) \<Rightarrow> u8 list bres \<Rightarrow> bool" where
  "report_failure n progress written r \<longleftrightarrow>
    bp_summary progress \<and> (\<exists>k \<le> n. 0 < k \<and> \<not> written k) \<and> r = Err SummaryFailed \<or> bp_every progress = Some 0 \<and> r = Panic"

lemma encode_reports:
  "encode_symbols_with_model_progress model symbols n_ctx overlap progress written =
      encode_symbols_with_model_progress model symbols n_ctx overlap no_progress written \<or>
    report_failure (length symbols) progress written (encode_symbols_with_model_progress model symbols n_ctx overlap progress written)"
proof -
  let ?r = "encode_symbols_with_model_progress model symbols n_ctx overlap progress written"
    and ?q = "encode_symbols_with_model_progress model symbols n_ctx overlap no_progress written"
  let ?rep = "\<lambda>k. report_bench_file_progress k (length symbols) progress (written k)"
  let ?loop = "\<lambda>s. rfold (\<lambda>(pos, x) s. rbind (map_err CodecFailed (bench_encode_step (rows (ll_output model)) overlap x s))
      (\<lambda>s. rbind (?rep (pos + 1)) (\<lambda>_. Ok s))) (enumerate 0 symbols) s"
  let ?plain = "\<lambda>s. map_err CodecFailed (rfold (bench_encode_step (rows (ll_output model)) overlap) symbols s)"
  show ?thesis
  proof (cases "\<exists>st. bench_validate_window n_ctx overlap (context_length (ll_config model)) = Ok () \<and> bench_new model n_ctx = Ok st")
    case True
    then obtain st where st: "bench_validate_window n_ctx overlap (context_length (ll_config model)) = Ok ()" "bench_new model n_ctx = Ok st"
      by blast
    have r0: "?q = rbind (?plain (re_new, st, [])) (\<lambda>(enc, _, _). Ok (re_finish enc))"
      unfolding encode_quiet [OF quiet_no_progress] using st by (simp add: map_err_bind case_prod_unfold)
    have r: "?r = rbind (?loop (re_new, st, [])) (\<lambda>(enc, _, _). Ok (re_finish enc))"
      using st by (simp add: encode_symbols_with_model_progress_def)
    from rfold_reports [of CodecFailed "bench_encode_step (rows (ll_output model)) overlap" ?rep 0 symbols "(re_new, st, [])"]
    consider "?loop (re_new, st, []) = ?plain (re_new, st, [])"
      | k where "0 < k" "k \<le> length symbols" "?rep k \<noteq> Ok ()" "?loop (re_new, st, []) = rbind (?rep k) (\<lambda>_. Panic)"
      by (auto simp: Let_def)
    then show ?thesis
    proof cases
      case 1
      then show ?thesis unfolding r r0 by simp
    next
      case (2 k)
      then have "report_failure (length symbols) progress written ?r"
        using report_failed [where written = written, OF 2(3)] unfolding r report_failure_def by auto
      then show ?thesis by blast
    qed
  next
    case False
    then show ?thesis
      unfolding encode_quiet [OF quiet_no_progress] encode_symbols_with_model_progress_def
      by (cases "bench_validate_window n_ctx overlap (context_length (ll_config model))"; cases "bench_new model n_ctx")
        (simp_all add: map_err_bind)
  qed
qed

text \<open>C26: The benchmark measures the real codec. Its encoder has its own copy of the windowed model
  state, of the functions on it and of the loop; for every model, symbol list and window and for
  every progress setting it ends as the encoder of the command line does with byte escapes, in
  the same payload or the same error, except when a report does not succeed: then it ends with the
  error of a summary that could not be written after some number of symbols, or, if progress is to be
  reported every 0 symbols, in the panic of a remainder by zero. Without progress reports, and with
  reports whose files can all be written, there is no such exception.\<close>

theorem bench_agrees:
  "(encode_symbols_with_model_progress model symbols n_ctx overlap progress written =
      map_err CodecFailed (encode_symbols_with_model model symbols n_ctx overlap True) \<or>
    report_failure (length symbols) progress written (encode_symbols_with_model_progress model symbols n_ctx overlap progress written)) \<and>
   (quiet progress written \<longrightarrow>
    encode_symbols_with_model_progress model symbols n_ctx overlap progress written =
      map_err CodecFailed (encode_symbols_with_model model symbols n_ctx overlap True))"
  using encode_reports [of model symbols n_ctx overlap progress written] encode_quiet [of progress written]
    encode_quiet [OF quiet_no_progress, of model symbols n_ctx overlap written]
    encode_window [of model symbols n_ctx overlap written] by simp

theorem bench_agrees_witness:
  "encode_symbols_with_model_progress small_llama [0, 99] 1 0 \<lparr>bp_every = Some 1, bp_summary = True\<rparr> (\<lambda>_. True) =
    map_err CodecFailed (encode_symbols_with_model small_llama [0, 99] 1 0 True)"
  using bench_agrees [of small_llama "[0, 99]" 1 0 "\<lparr>bp_every = Some 1, bp_summary = True\<rparr>" "\<lambda>_. True"]
  by (simp add: quiet_def)

section \<open>What is encoded is decoded\<close>

lemma bench_decode_answers:
  assumes "quiet progress written"
  shows "wp.answers overlap (byte_symbol True n) xs d t ctx \<Longrightarrow> wn_escapes t \<Longrightarrow>
    \<exists>s. rfold (\<lambda>pos s. rbind (map_err CodecFailed (bench_decode_step n overlap s)) (\<lambda>s.
        rbind (report_bench_file_progress (pos + 1) k progress (written (pos + 1))) (\<lambda>_. Ok s)))
      [i..<i + length xs] (d, t, syms, ctx) = Ok s \<and> fst (snd (snd s)) = syms @ xs"
proof (induction xs arbitrary: d t ctx syms i)
  case (Cons x xs)
  obtain t1 d' t2 where t: "window_sync (length ctx) ctx overlap t = Ok t1" "window_decode_symbol d t1 = Ok (x, d', t2)"
    and rest: "if byte_symbol True n x then wp.answers overlap (byte_symbol True n) xs d' t2 ctx
     else \<exists>t3. window_advance x t2 = Ok t3 \<and> wp.answers overlap (byte_symbol True n) xs d' t3 (ctx @ [x])"
    using Cons.prems(1) by (simp only: wp.answers.simps) blast
  have esc: "wn_escapes t1" "wn_escapes t2"
    using sync_escapes [OF t(1)] Cons.prems(2) predictions_frame(2) [OF t(2)] by auto
  obtain t3 ctx' where step: "bench_decode_step n overlap (d, t, syms, ctx) = Ok (d', t3, syms @ [x], ctx')"
    and ans: "wp.answers overlap (byte_symbol True n) xs d' t3 ctx'" and esc3: "wn_escapes t3"
  proof (cases "codec_symbol_is_token x n")
    case True
    then obtain t3 where t3: "window_advance x t2 = Ok t3" "wp.answers overlap (byte_symbol True n) xs d' t3 (ctx @ [x])"
      using rest by auto
    then have "wn_escapes t3" using advance_setup [OF t3(1)] esc by (simp add: same_setup_def)
    then show ?thesis using that True t t3 esc by (simp add: bench_decode_step_def bench_decode_symbol_window)
  next
    case False
    then show ?thesis using that rest t esc by (simp add: bench_decode_step_def bench_decode_symbol_window)
  qed
  have upt: "[i..<i + length (x # xs)] = i # [Suc i..<Suc i + length xs]" by (simp add: upt_rec)
  from Cons.IH [OF ans esc3, of "Suc i" "syms @ [x]"] show ?case
    unfolding upt by (simp add: step quiet_report [OF assms, of "Suc i", simplified])
qed simp

lemma bench_decodes:
  assumes "quiet progress written" "encode_symbols_with_model model xs n_ctx overlap True = Ok payload"
  shows "decode_symbols_with_model_progress model payload (length xs) n_ctx overlap progress written = Ok xs"
proof -
  obtain s d where "validate_window n_ctx overlap (context_length (ll_config model)) = Ok ()"
    "window_new model n_ctx True = Ok s" "rd_new payload = Ok d"
    "wp.answers overlap (byte_symbol True (rows (ll_output model))) xs d s []"
    by (rule encoded_answers [OF assms(2)])
  then show ?thesis
    using bench_decode_answers [OF assms(1), of overlap "rows (ll_output model)" xs d s "[]" "length xs" 0 "[]"] new_escapes
    by (auto simp: decode_symbols_with_model_progress_def bench_new_window)
qed

text \<open>C27: The benchmark's round trip gives back what the symbols stand for. When encoding succeeds and
  the tokenizer has a piece for each symbol, decoding as many symbols as were encoded returns them
  all, and the restored bytes are the pieces in order, whether or not progress is reported.\<close>

theorem bench_round_trip:
  assumes "quiet progress written" "encode_symbols_with_model_progress model symbols n_ctx overlap progress written = Ok payload"
    and "detokenize_codec_symbols tokenizer symbols (rows (ll_output model)) = Ok bytes"
  shows "codec_round_trip model tokenizer symbols n_ctx overlap progress written = Ok (payload, bytes)"
proof -
  have "encode_symbols_with_model_progress model symbols n_ctx overlap progress written =
      encode_symbols_with_model_progress model symbols n_ctx overlap no_progress written"
    by (simp add: encode_quiet [OF assms(1)] encode_quiet [OF quiet_no_progress])
  then have "map_err CodecFailed (encode_symbols_with_model model symbols n_ctx overlap True) = Ok payload"
    using assms(2) by (simp only: encode_window)
  then have "encode_symbols_with_model model symbols n_ctx overlap True = Ok payload" by simp
  then show ?thesis using assms by (simp add: codec_round_trip_def bench_decodes)
qed

theorem bench_round_trip_witness:
  "\<exists>payload. codec_round_trip small_llama (ByteBpe small_bpe) [0, 99] 1 0 no_progress (\<lambda>_. True) = Ok (payload, [97, 98])"
proof -
  have "detokenize_codec_symbols (ByteBpe small_bpe) [0, 99] (rows (ll_output small_llama)) = Ok [97, 98]"
    unfolding small_llama_facts by code_simp
  moreover obtain payload where "encode_symbols_with_model small_llama [0, 99] 1 0 True = Ok payload" using small_encode by blast
  then have "encode_symbols_with_model_progress small_llama [0, 99] 1 0 no_progress (\<lambda>_. True) = Ok payload"
    by (simp only: encode_window map_err.simps)
  ultimately show ?thesis using bench_round_trip [OF quiet_no_progress] by blast
qed

end
