(* ===== verification/Bench_Resume.thy ===== *)
theory Bench_Resume
  imports Bench_Run
begin

text \<open>
  Resuming an interrupted encoding. Two model states that differ at most in the work buffers are
  twins: every operation gives the same outcome on both and leaves twins. The state that a resumed
  run builds by replaying the window of the checkpoint becomes a twin of the uninterrupted one with
  the next synchronisation, so the rest of the encoding is the same.
\<close>

section \<open>Twins\<close>

definition fits :: "window_state \<Rightarrow> bool" where
  "fits s \<longleftrightarrow> (\<exists>dh. head_dim (ll_config (wn_model s)) = Ok dh \<and>
      buffers_ok (ll_config (wn_model s)) dh (wn_n_ctx s) (wn_workspace s)) \<and>
    length (wn_logits s) = rows (ll_output (wn_model s))"

definition twin :: "window_state \<Rightarrow> window_state \<Rightarrow> bool" where
  "twin s t \<longleftrightarrow> fits s \<and> fits t \<and> same_setup s t \<and> wn_window_start t = wn_window_start s \<and>
    wn_context_len t = wn_context_len s \<and> wn_cache t = wn_cache s \<and> wn_logits t = wn_logits s"

lemma twin_refl: "fits s \<Longrightarrow> twin s s" by (simp add: twin_def)

lemma twin_trans: "twin s t \<Longrightarrow> twin t u \<Longrightarrow> twin s u"
  unfolding twin_def using same_setup_trans by auto

lemma fits_scratch [simp]: "fits (s\<lparr>wn_scratch := sc\<rparr>) = fits s" by (simp add: fits_def)

lemma rel_res_join: "rel_res P r x \<Longrightarrow> rel_res Q r' x \<Longrightarrow> (\<And>a b z. P a z \<Longrightarrow> Q b z \<Longrightarrow> R a b) \<Longrightarrow> rel_res R r r'"
  by (cases r; cases r'; cases x) auto

lemma rel_res_map_err: "rel_res R r r' \<Longrightarrow> rel_res R (map_err g r) (map_err g r')"
  by (cases r; cases r') auto

lemma rel_res_mono: "rel_res R r r' \<Longrightarrow> (\<And>a b. R a b \<Longrightarrow> S a b) \<Longrightarrow> rel_res S r r'"
  by (cases r; cases r') auto

lemma forward_twin:
  assumes "head_dim (ll_config m) = Ok dh" "buffers_ok (ll_config m) dh mc w" "buffers_ok (ll_config m) dh mc w'"
  shows "rel_res (\<lambda>(c, l, u) (c', l', u'). c = c' \<and> l = l' \<and> length l = length logits \<and> buffers_ok (ll_config m) dh mc u \<and>
      buffers_ok (ll_config m) dh mc u')
    (forward_one_with_workspace m token pos rope cache logits w) (forward_one_with_workspace m token pos rope cache logits w')"
proof -
  have mc: "ws_max_context w = mc" "ws_max_context w' = mc" using assms(2,3) by (simp_all add: buffers_ok_def)
  have same: "workspace_validate_for w' (ll_config m) v pos = workspace_validate_for w (ll_config m) v pos" for v
    using assms by (simp add: workspace_validate_for_def buffers_ok_def)
  show ?thesis
    by (rule rel_res_join [OF forward_refines [of logits w m token pos rope cache]
          forward_refines [of logits w' m token pos rope cache, unfolded same]]) (auto simp: mc assms(1))
qed

lemma advance_twin: "twin s t \<Longrightarrow> rel_res twin (window_advance x s) (window_advance x t)"
proof -
  assume tw: "twin s t"
  then obtain dh where dh: "head_dim (ll_config (wn_model s)) = Ok dh" "buffers_ok (ll_config (wn_model s)) dh (wn_n_ctx s) (wn_workspace s)"
      "buffers_ok (ll_config (wn_model s)) dh (wn_n_ctx s) (wn_workspace t)" and l: "length (wn_logits s) = rows (ll_output (wn_model s))"
    by (auto simp: twin_def fits_def same_setup_def)
  have same: "wn_model t = wn_model s" "wn_n_ctx t = wn_n_ctx s" "wn_rope t = wn_rope s" "wn_context_len t = wn_context_len s"
    "wn_cache t = wn_cache s" "wn_logits t = wn_logits s" using tw by (simp_all add: twin_def same_setup_def)
  show ?thesis
  proof (cases "wn_n_ctx s \<le> wn_context_len s")
    case False
    then show ?thesis unfolding window_advance_def same
      by simp (rule rel_res_bind [OF rel_res_map_err [OF forward_twin [OF dh]]],
        use tw in \<open>auto simp: twin_def same_setup_def fits_def dh l\<close>)
  qed (simp add: window_advance_def same)
qed

lemma advances_twin: "twin s t \<Longrightarrow> rel_res twin (rfold window_advance xs s) (rfold window_advance xs t)"
proof (induction xs arbitrary: s t)
  case (Cons x xs)
  show ?case unfolding rfold.simps by (rule rel_res_bind [OF advance_twin [OF Cons.prems]]) (rule Cons.IH)
qed simp

lemma replay_twin:
  assumes "same_setup s t" "fits s" "fits t"
  shows "rel_res twin (window_replay k xs s) (window_replay k xs t)"
proof -
  have same: "wn_model t = wn_model s" "length (wn_logits t) = length (wn_logits s)"
    using assms by (simp_all add: same_setup_def fits_def)
  show ?thesis unfolding window_replay_def same
    by (rule rel_res_bind_same, rule advances_twin) (use assms in \<open>simp add: twin_def same_setup_def fits_def\<close>)
qed

lemma sync_twin: "twin s t \<Longrightarrow> rel_res twin (window_sync p ctx overlap s) (window_sync p ctx overlap t)"
proof -
  assume tw: "twin s t"
  then have f: "fits s" "fits t" "same_setup s t" "wn_window_start t = wn_window_start s" "wn_n_ctx t = wn_n_ctx s"
    by (simp_all add: twin_def same_setup_def)
  show ?thesis
    unfolding window_sync_def f(4,5) Let_def by (auto intro!: rel_res_bind_same replay_twin simp: f tw)
qed

lemma sync_again:
  assumes "window_sync (length ctx) ctx overlap s = Ok s'" "overlap < wn_n_ctx s"
  shows "window_sync (length ctx) ctx overlap s' = Ok s'"
proof -
  let ?k = "next_window_start (length ctx) (wn_window_start s) (wn_n_ctx s) overlap"
  have "wn_n_ctx s' = wn_n_ctx s" using sync_setup [OF assms(1)] by (simp add: same_setup_def)
  moreover have "wn_window_start s' = ?k"
    using assms(1) by (auto simp: window_sync_def Let_def dest!: replay_setup split: if_splits)
  moreover have "next_window_start (length ctx) ?k (wn_n_ctx s) overlap = ?k"
    using assms(2) by (auto simp: next_window_start_def)
  ultimately show ?thesis by (simp add: window_sync_def)
qed

lemma range_scratch: "fst (logits_to_symbol_range_impl l x tail sc) = fst (logits_to_symbol_range_impl l x tail sc')"
proof (cases "l \<noteq> [] \<and> length l + tail \<le> MAX_SYMBOLS \<and> x < length l + tail")
  case True
  then show ?thesis by (simp add: symbol_range_weights)
next
  case False
  then show ?thesis
    by (auto simp: logits_to_symbol_range_impl_def saturating_add_usize_def MAX_SYMBOLS_def usize_max_def)
qed

lemma range_twin: "twin s t \<Longrightarrow>
  rel_res (\<lambda>(r, s') (r', t'). r = r' \<and> twin s' t' \<and> twin s s') (bench_symbol_range x s) (bench_symbol_range x t)"
proof -
  assume tw: "twin s t"
  then have same: "wn_context_len t = wn_context_len s" "wn_logits t = wn_logits s" "wn_uniform t = wn_uniform s" "twin s s"
    by (auto simp: twin_def same_setup_def)
  have upd: "twin (s\<lparr>wn_scratch := a\<rparr>) (t\<lparr>wn_scratch := b\<rparr>)" "twin s (s\<lparr>wn_scratch := a\<rparr>)" for a b
    using tw by (simp_all add: twin_def same_setup_def)
  obtain r a b where "logits_to_symbol_range_with_byte_escapes (wn_logits s) x (wn_scratch s) = (r, a)"
    "logits_to_symbol_range_with_byte_escapes (wn_logits s) x (wn_scratch t) = (r, b)"
    using range_scratch [of "wn_logits s" x BYTE_ESCAPE_SYMBOLS "wn_scratch s" "wn_scratch t"]
    unfolding logits_to_symbol_range_with_byte_escapes_def by (metis prod.collapse)
  then show ?thesis
    by (auto simp: bench_symbol_range_def same tw upd intro!: rel_res_bind_same)
qed

section \<open>The encoder on twins\<close>

lemma step_synced:
  assumes "rel_res twin (window_sync (length ctx) ctx overlap s) (window_sync (length ctx) ctx overlap t)"
  shows "rel_res (\<lambda>(e, s, c) (e', t, c'). e = e' \<and> c = c' \<and> twin s t)
    (bench_encode_step n overlap x (e, s, ctx)) (bench_encode_step n overlap x (e, t, ctx))"
  unfolding bench_encode_step_def bench_copies prod.case
proof (rule rel_res_bind [OF assms], rule rel_res_bind [OF range_twin], assumption, clarsimp, goal_cases)
  case (1 s1 t1 r s2 t2)
  show ?case by (rule rel_res_bind_same) (auto intro!: rel_res_bind [OF advance_twin] simp: 1)
qed

lemma steps_synced:
  "rel_res twin (window_sync (length ctx) ctx overlap s) (window_sync (length ctx) ctx overlap t) \<Longrightarrow>
    rel_res (\<lambda>(e, _) (e', _). e = e') (rfold (bench_encode_step n overlap) xs (e, s, ctx))
      (rfold (bench_encode_step n overlap) xs (e, t, ctx))"
proof (induction xs arbitrary: e s t ctx)
  case (Cons x xs)
  show ?case unfolding rfold.simps
    by (rule rel_res_bind [OF step_synced [OF Cons.prems]]) (auto intro!: Cons.IH sync_twin)
qed simp

lemma step_keeps:
  assumes "bench_encode_step n overlap x (e, s, ctx) = Ok (e', s', ctx')"
  obtains s1 r s2 where "window_sync (length ctx) ctx overlap s = Ok s1" "bench_symbol_range x s1 = Ok (r, s2)"
    "re_encode e (sr_cum r) (ucast (sr_freq r)) (sr_total r) = Ok e'"
    "if codec_symbol_is_token x n then window_advance x s2 = Ok s' \<and> ctx' = ctx @ [x] else s' = s2 \<and> ctx' = ctx"
  using assms by (auto simp: bench_encode_step_def split: if_splits)

section \<open>The state after a prefix\<close>

lemma prefix_start_Suc: "window_start_for_encoded_prefix (Suc k) n overlap =
    next_window_start k (window_start_for_encoded_prefix k n overlap) n overlap"
  by (simp add: window_start_for_encoded_prefix_def)

lemma prefix_start_le: "window_start_for_encoded_prefix k n overlap \<le> k"
  by (induction k) (auto simp: prefix_start_Suc next_window_start_def window_start_for_encoded_prefix_def [of 0])

lemma bench_new_fresh: "bench_new model n = Ok s \<Longrightarrow> fits s \<and> wn_n_ctx s = n \<and> window_replay 0 [] s = Ok s"
proof -
  assume "bench_new model n = Ok s"
  then obtain rope c ws u where r: "rope_llama (ll_config model) n = Ok rope" "kv_new (ll_config model) = Ok c"
    "workspace_new (ll_config model) (rows (ll_output model)) n = Ok ws"
    and s: "s = \<lparr>wn_model = model, wn_n_ctx = n, wn_window_start = 0, wn_context_len = 0, wn_rope = rope, wn_cache = c,
      wn_workspace = ws, wn_logits = replicate (rows (ll_output model)) 0, wn_uniform = u, wn_scratch = scratch_default, wn_escapes = True\<rparr>"
    by (auto simp: bench_new_def forward_workspace_def)
  obtain dh where "head_dim (ll_config model) = Ok dh" using rope_llama_facts(5) [OF r(1)] by blast
  then show ?thesis using workspace_new_ok(1) [OF r(3)] r(2) by (simp add: s fits_def window_replay_def)
qed

text \<open>After a prefix, the state is the one of a replay of the prefix's window into a new state, or
  that of the synchronisation that follows.\<close>

definition replayed :: "window_state \<Rightarrow> nat \<Rightarrow> nat list \<Rightarrow> window_state \<Rightarrow> bool" where
  "replayed st0 overlap ctx t \<longleftrightarrow> (let k = window_start_for_encoded_prefix (length ctx) (wn_n_ctx st0) overlap in
    \<exists>s. window_replay k (drop k ctx) st0 = Ok s \<and> fits s \<and>
      (twin s t \<or> (\<exists>s1. window_sync (length ctx) ctx overlap s = Ok s1 \<and> twin s1 t)))"

lemma replayed_synced:
  assumes "window_replay k (drop k ctx) st0 = Ok s" "overlap < wn_n_ctx st0"
    and "twin s t \<or> (\<exists>s1. window_sync (length ctx) ctx overlap s = Ok s1 \<and> twin s1 t)"
  shows "rel_res twin (window_sync (length ctx) ctx overlap s) (window_sync (length ctx) ctx overlap t)"
  using assms(3)
proof (elim disjE exE conjE)
  fix s1 assume s1: "window_sync (length ctx) ctx overlap s = Ok s1" and tw: "twin s1 t"
  have "overlap < wn_n_ctx s" using replay_setup [OF assms(1)] assms(2) by (simp add: same_setup_def)
  from sync_again [OF s1 this] sync_twin [OF tw, of "length ctx" ctx overlap] show ?thesis by (simp add: s1)
qed (rule sync_twin)

lemma replayed_step:
  assumes "replayed st0 overlap ctx t" "fits st0" "overlap < wn_n_ctx st0"
    and step: "bench_encode_step n overlap x (e, t, ctx) = Ok (e', t', ctx')"
  shows "replayed st0 overlap ctx' t'"
proof -
  define k where "k = window_start_for_encoded_prefix (length ctx) (wn_n_ctx st0) overlap"
  obtain s where s: "window_replay k (drop k ctx) st0 = Ok s"
    and alt: "twin s t \<or> (\<exists>s1. window_sync (length ctx) ctx overlap s = Ok s1 \<and> twin s1 t)" and fs: "fits s"
    using assms(1) by (auto simp: replayed_def k_def Let_def)
  obtain t1 r t2 where t1: "window_sync (length ctx) ctx overlap t = Ok t1" and t2: "bench_symbol_range x t1 = Ok (r, t2)"
    and t': "if codec_symbol_is_token x n then window_advance x t2 = Ok t' \<and> ctx' = ctx @ [x] else t' = t2 \<and> ctx' = ctx"
    by (rule step_keeps [OF step])
  obtain s1 where s1: "window_sync (length ctx) ctx overlap s = Ok s1" "twin s1 t1"
    using replayed_synced [OF s assms(3) alt] t1 by (cases "window_sync (length ctx) ctx overlap s") auto
  have "fits t1" using s1(2) by (simp add: twin_def)
  then have "twin t1 t2" using range_twin [OF twin_refl, of t1 x] t2 by simp
  with s1(2) have s2: "twin s1 t2" by (rule twin_trans)
  show ?thesis
  proof (cases "codec_symbol_is_token x n")
    case False
    then show ?thesis using t' s s1(1) s2 fs by (auto simp: replayed_def k_def Let_def)
  next
    case True
    then have t': "window_advance x t2 = Ok t'" "ctx' = ctx @ [x]" using t' by simp_all
    define k' where "k' = next_window_start (length ctx) k (wn_n_ctx st0) overlap"
    have k': "window_start_for_encoded_prefix (length ctx') (wn_n_ctx st0) overlap = k'" "k' \<le> length ctx"
      using prefix_start_le [of "length ctx" "wn_n_ctx st0" overlap] by (auto simp: t'(2) prefix_start_Suc k_def k'_def next_window_start_def)
    have "wn_window_start s = k" "wn_n_ctx s = wn_n_ctx st0" "same_setup st0 s"
      using replay_setup [OF s] by (simp_all add: same_setup_def)
    then have "s1 = (if k' = k then s else s1) \<and> (k' \<noteq> k \<longrightarrow> window_replay k' (drop k' ctx) s = Ok s1)"
      using s1(1) k'(2) by (auto simp: window_sync_def k'_def [symmetric] slice_at_def slice_def split: if_splits)
    then obtain s1' where s1': "window_replay k' (drop k' ctx) st0 = Ok s1'" "twin s1' s1"
      using replay_twin [OF \<open>same_setup st0 s\<close> assms(2) fs, of k' "drop k' ctx"] s fs twin_refl
      by (cases "k' = k"; cases "window_replay k' (drop k' ctx) st0") auto
    obtain s3 where s3: "window_advance x s1' = Ok s3" "twin s3 t'"
      using advance_twin [OF twin_trans [OF s1'(2) s2], of x] t'(1) by (cases "window_advance x s1'") auto
    have "window_replay k' (drop k' ctx') st0 = Ok s3"
      using s1'(1) s3(1) k'(2) by (auto simp: window_replay_def t'(2) rfold_append)
    then show ?thesis using s3(2) k'(1) by (auto simp: replayed_def twin_def)
  qed
qed

lemma replayed_prefix:
  assumes "bench_new model n_ctx = Ok st0" "overlap < n_ctx"
  shows "rfold (bench_encode_step n overlap) xs (re_new, st0, []) = Ok (e, t, ctx) \<Longrightarrow>
    replayed st0 overlap ctx t \<and> re_ok e \<and> ctx = filter (\<lambda>x. codec_symbol_is_token x n) xs"
proof (induction xs arbitrary: e t ctx rule: rev_induct)
  case Nil
  then show ?case using bench_new_fresh [OF assms(1)] twin_refl re_new_ok
    by (auto simp: replayed_def window_start_for_encoded_prefix_def)
next
  case (snoc x xs)
  then obtain e1 t1 ctx1 where one: "rfold (bench_encode_step n overlap) xs (re_new, st0, []) = Ok (e1, t1, ctx1)"
    and step: "bench_encode_step n overlap x (e1, t1, ctx1) = Ok (e, t, ctx)" by (auto simp: rfold_append)
  note IH = snoc.IH [OF one] and new = bench_new_fresh [OF assms(1)]
  have "re_ok e" using rc.encode_ok' IH step_keeps [OF step] by metis
  moreover have "ctx = ctx1 @ (if codec_symbol_is_token x n then [x] else [])" by (rule step_keeps [OF step]) (auto split: if_splits)
  ultimately show ?case using replayed_step [OF _ _ _ step] IH new assms(2) by auto
qed

section \<open>Interrupted runs\<close>

text \<open>The files that runs of a job can leave behind, each run with its own fate; a file fits in memory.\<close>

inductive bench_runs :: "bench_job \<Rightarrow> u8 list option \<Rightarrow> bool" for job where
  no_file: "bench_runs job None"
| run: "bench_runs job file \<Longrightarrow> encode_symbols_with_model_checkpoint job world file = (r, file') \<Longrightarrow>
    (case file' of None \<Rightarrow> True | Some bytes \<Rightarrow> length bytes \<le> usize_max) \<Longrightarrow> bench_runs job file'"

text \<open>The ranges that the types of the arguments give.\<close>

definition job_ok :: "bench_job \<Rightarrow> bool" where
  "job_ok job \<longleftrightarrow> length (bj_model_sha256 job) = 32 \<and> length (bj_input_sha256 job) = 32 \<and>
    list_all (\<lambda>n. n \<le> usize_max) [bj_n_ctx job, bj_overlap job, bj_orig_len job, length (bj_symbols job)]"

text \<open>A run in which no file access fails, with the positive intervals that the command line asks for.\<close>

definition undisturbed :: "bench_job \<Rightarrow> bench_world \<Rightarrow> bool" where
  "undisturbed job world \<longleftrightarrow> bw_readable world \<and> (\<forall>k. bw_checkpoint world k) \<and> quiet (bj_progress job) (bw_summary world) \<and>
    bj_checkpoint_every job \<noteq> 0"

abbreviation bench_steps :: "bench_job \<Rightarrow> nat list \<Rightarrow> window_state \<Rightarrow> (range_encoder \<times> window_state \<times> nat list) cres" where
  "bench_steps job xs st0 \<equiv> rfold (bench_encode_step (rows (ll_output (bj_model job))) (bj_overlap job)) xs (re_new, st0, [])"

definition saved :: "bench_job \<Rightarrow> u8 list option \<Rightarrow> bool" where
  "saved job file \<longleftrightarrow> (\<forall>bytes. file = Some bytes \<longrightarrow> (\<exists>k elapsed_s st0 e t ctx.
    bytes = encode_bench_file_checkpoint (checkpoint_for job k elapsed_s e) \<and> k \<le> length (bj_symbols job) \<and>
    bench_new (bj_model job) (bj_n_ctx job) = Ok st0 \<and> bench_steps job (take k (bj_symbols job)) st0 = Ok (e, t, ctx)))"

text \<open>One turn of the loop: the file stays or is the checkpoint of the new prefix, and without a
  disturbance the turn is the encoder's.\<close>

lemma checkpoint_step_cases:
  assumes "checkpoint_step job world off (pos, x) (s, file) = Ok (s', file')"
  shows "bench_encode_step (rows (ll_output (bj_model job))) (bj_overlap job) x s = Ok s' \<and>
    (file' = file \<or> (\<exists>elapsed_s. file' = Some (encode_bench_file_checkpoint (checkpoint_for job (pos + 1) elapsed_s (fst s')))))"
  using assms by (auto simp: checkpoint_step_def Let_def split: if_splits)

lemma checkpoint_step_undisturbed:
  assumes "undisturbed job world"
  shows "\<exists>f. checkpoint_step job world off (pos, x) (s, file) =
    rbind (map_err CodecFailed (bench_encode_step (rows (ll_output (bj_model job))) (bj_overlap job) x s)) (\<lambda>s'. Ok (s', f s'))"
proof -
  have q: "report_bench_file_progress k n (bj_progress job) (bw_summary world k) = Ok ()" for k n
    using assms quiet_report by (simp add: undisturbed_def)
  show ?thesis using assms
    by (cases "pos + 1 = length (bj_symbols job) \<or> (pos + 1) mod bj_checkpoint_every job = 0")
      (auto simp: checkpoint_step_def Let_def undisturbed_def q [of "Suc pos", simplified])
qed

lemma loop_saved:
  assumes new: "bench_new (bj_model job) (bj_n_ctx job) = Ok st0"
  shows "bench_steps job ps st0 = Ok (e, t, ctx) \<Longrightarrow> bj_symbols job = ps @ xs \<Longrightarrow>
    rel_res twin (window_sync (length ctx) ctx (bj_overlap job) s) (window_sync (length ctx) ctx (bj_overlap job) t) \<Longrightarrow>
    saved job fl \<Longrightarrow> checkpoint_loop job world off (enumerate (length ps) xs) (e, s, ctx) fl = (r, fl') \<Longrightarrow>
    saved job fl' \<and> (\<forall>p. r = Ok p \<longrightarrow> rbind (bench_steps job (bj_symbols job) st0) (\<lambda>(enc, _, _). Ok (re_finish enc)) = Ok p) \<and>
    (undisturbed job world \<longrightarrow> r = map_err CodecFailed (rbind (bench_steps job (bj_symbols job) st0) (\<lambda>(enc, _, _). Ok (re_finish enc))))"
proof (induction xs arbitrary: ps e s t ctx fl)
  case Nil
  then show ?case by auto
next
  case (Cons x xs)
  let ?B = "bench_encode_step (rows (ll_output (bj_model job))) (bj_overlap job)"
  have all: "bench_steps job (bj_symbols job) st0 = rbind (?B x (e, t, ctx)) (rfold ?B xs)"
    using Cons.prems(1,2) by (simp add: rfold_append)
  note tw = step_synced [OF Cons.prems(3), of "rows (ll_output (bj_model job))" x e]
  show ?case
  proof (cases "checkpoint_step job world off (length ps, x) ((e, s, ctx), fl)")
    case (Ok s1)
    obtain e1 u c1 f1 where s1: "s1 = ((e1, u, c1), f1)" by (metis surj_pair)
    note st = checkpoint_step_cases [OF Ok [unfolded s1]]
    obtain t1 where t1: "?B x (e, t, ctx) = Ok (e1, t1, c1)" "twin u t1"
      using tw st by (cases "?B x (e, t, ctx)") auto
    have ps1: "bench_steps job (ps @ [x]) st0 = Ok (e1, t1, c1)" using Cons.prems(1) t1 by (simp add: rfold_append)
    moreover have "take (Suc (length ps)) (bj_symbols job) = ps @ [x]" using Cons.prems(2) by simp
    ultimately have pre: "bench_steps job (take (length ps + 1) (bj_symbols job)) st0 = Ok (e1, t1, c1)" by simp
    have len: "length ps + 1 \<le> length (bj_symbols job)" using Cons.prems(2) by simp
    have "saved job f1"
      using st
    proof (elim conjE disjE exE)
      fix el assume "f1 = Some (encode_bench_file_checkpoint (checkpoint_for job (length ps + 1) el (fst (e1, u, c1))))"
      then show ?thesis unfolding saved_def using pre len new
        by (intro allI impI exI [of _ "length ps + 1"] exI [of _ el] exI [of _ st0] exI [of _ e1] exI [of _ t1] exI [of _ c1]) simp
    qed (use Cons.prems(4) in simp)
    from Cons.IH [OF ps1 _ sync_twin [OF t1(2)] this] show ?thesis
      using Cons.prems(2,5) Ok s1 by simp
  next
    case (Err er)
    then show ?thesis using Cons.prems(4,5) tw all checkpoint_step_undisturbed [of job world off "length ps" x "(e, s, ctx)" fl]
      by (cases "?B x (e, s, ctx)"; cases "?B x (e, t, ctx)") auto
  next
    case Panic
    then show ?thesis using Cons.prems(4,5) tw all checkpoint_step_undisturbed [of job world off "length ps" x "(e, s, ctx)" fl]
      by (cases "?B x (e, s, ctx)"; cases "?B x (e, t, ctx)") auto
  next
    case Diverge
    then show ?thesis using Cons.prems(4,5) tw all checkpoint_step_undisturbed [of job world off "length ps" x "(e, s, ctx)" fl]
      by (cases "?B x (e, s, ctx)"; cases "?B x (e, t, ctx)") auto
  qed
qed

lemma validate_own: "k \<le> length (bj_symbols job) \<Longrightarrow> checkpoint_validate (checkpoint_for job k el e) (bj_model_sha256 job)
    (bj_input_sha256 job) (bj_n_ctx job) (bj_overlap job) (bj_orig_len job) (length (bj_symbols job)) = Ok ()"
  by (simp add: checkpoint_validate_def checkpoint_for_def)

lemma checkpoint_parses:
  assumes "job_ok job" "k \<le> length (bj_symbols job)"
    and "length (encode_bench_file_checkpoint (checkpoint_for job k el e)) \<le> usize_max"
  shows "parse_bench_file_checkpoint (encode_bench_file_checkpoint (checkpoint_for job k el e)) = Ok (checkpoint_for job k el e)"
proof (rule parse_written [OF _ assms(3)])
  have "length (re_out e) \<le> usize_max"
    using assms(3) by (simp add: encode_bench_file_checkpoint_def Let_def checkpoint_for_def re_snapshot_def)
  then show "checkpoint_wf (checkpoint_for job k el e)"
    using assms(1,2) by (auto simp: checkpoint_wf_def checkpoint_for_def job_ok_def re_snapshot_def)
qed

text \<open>Where a run starts is a prefix of the uninterrupted one.\<close>

lemma resumed:
  assumes "bench_new (bj_model job) (bj_n_ctx job) = Ok st0" "bj_overlap job < bj_n_ctx job" "k \<le> length (bj_symbols job)"
    and "bench_steps job (take k (bj_symbols job)) st0 = Ok (e, t, ctx)"
  obtains s where "checkpoint_resume_state job k = Ok (s, ctx)"
    "rel_res twin (window_sync (length ctx) ctx (bj_overlap job) s) (window_sync (length ctx) ctx (bj_overlap job) t)" "re_ok e"
proof -
  have n: "wn_n_ctx st0 = bj_n_ctx job" using bench_new_fresh [OF assms(1)] by simp
  note pre = replayed_prefix [OF assms(1,2,4)]
  define w where "w = window_start_for_encoded_prefix (length ctx) (bj_n_ctx job) (bj_overlap job)"
  have w: "w \<le> length ctx" unfolding w_def by (rule prefix_start_le)
  obtain s where s: "window_replay w (drop w ctx) st0 = Ok s"
    "twin s t \<or> (\<exists>s1. window_sync (length ctx) ctx (bj_overlap job) s = Ok s1 \<and> twin s1 t)"
    using pre by (auto simp: replayed_def Let_def n w_def)
  have ctx: "filter (\<lambda>x. codec_symbol_is_token x (rows (ll_output (bj_model job)))) (take k (bj_symbols job)) = ctx" using pre by simp
  have "checkpoint_resume_state job k = Ok (s, ctx)"
    using assms(3) w s(1) by (simp add: checkpoint_resume_state_def slice_at_def slice_def ctx assms(1) Let_def w_def [symmetric])
  moreover have "bj_overlap job < wn_n_ctx st0" using assms(2) n by simp
  from replayed_synced [OF s(1) this s(2)] have
    "rel_res twin (window_sync (length ctx) ctx (bj_overlap job) s) (window_sync (length ctx) ctx (bj_overlap job) t)" .
  ultimately show ?thesis using pre that by blast
qed

lemma drop_enumerate_list: "drop k (enumerate i xs) = enumerate (i + k) (drop k xs)"
  by (induction xs arbitrary: i k) (auto simp: drop_Cons split: nat.split)

lemma run_saved:
  assumes job: "job_ok job" and sv: "saved job fl" and mem: "case fl of None \<Rightarrow> True | Some bytes \<Rightarrow> length bytes \<le> usize_max"
    and run: "encode_symbols_with_model_checkpoint job world fl = (r, fl')"
  defines "whole \<equiv> encode_symbols_with_model_progress (bj_model job) (bj_symbols job) (bj_n_ctx job) (bj_overlap job) no_progress (\<lambda>_. True)"
  shows "saved job fl' \<and> (\<forall>p. r = Ok p \<longrightarrow> whole = Ok p) \<and> (undisturbed job world \<longrightarrow> r = whole)"
proof (cases "validate_window (bj_n_ctx job) (bj_overlap job) (context_length (ll_config (bj_model job))) = Ok ()")
  case val: True
  then have ov: "bj_overlap job < bj_n_ctx job" by (auto simp: validate_window_def split: if_splits)
  note whole = whole_def [unfolded encode_quiet [OF quiet_no_progress] val rbind.simps]
  show ?thesis
  proof (cases "bw_readable world")
    case False
    then show ?thesis using run val sv by (auto simp: encode_symbols_with_model_checkpoint_def checkpoint_start_def undisturbed_def)
  next
    case readable: True
    show ?thesis
    proof (cases "\<exists>st0. bench_new (bj_model job) (bj_n_ctx job) = Ok st0")
      case True
      then obtain st0 where Ok: "bench_new (bj_model job) (bj_n_ctx job) = Ok st0" ..
      obtain k off e t ctx where start: "checkpoint_start job world fl = Ok (e, k, off)" and k: "k \<le> length (bj_symbols job)"
        and pre: "bench_steps job (take k (bj_symbols job)) st0 = Ok (e, t, ctx)"
      proof (cases fl)
        case None
        then show ?thesis using that [of re_new 0 0 st0 "[]"] readable by (simp add: checkpoint_start_def)
      next
        case (Some bytes)
        then obtain k el e t ctx where b: "bytes = encode_bench_file_checkpoint (checkpoint_for job k el e)" "k \<le> length (bj_symbols job)"
          "bench_steps job (take k (bj_symbols job)) st0 = Ok (e, t, ctx)" using sv Ok by (auto simp: saved_def)
        have "re_ok e" by (rule resumed [OF Ok ov b(2,3)])
        then show ?thesis using that [of e k _ t ctx] b(2,3) readable mem
          by (simp add: checkpoint_start_def Some b(1) checkpoint_parses [OF job b(2)] validate_own)
            (simp add: checkpoint_for_def re_snapshot_inverse)
      qed
      obtain s where s: "checkpoint_resume_state job k = Ok (s, ctx)"
        "rel_res twin (window_sync (length ctx) ctx (bj_overlap job) s) (window_sync (length ctx) ctx (bj_overlap job) t)"
        by (rule resumed [OF Ok ov k pre])
      have "checkpoint_loop job world off (enumerate (length (take k (bj_symbols job))) (drop k (bj_symbols job))) (e, s, ctx) fl = (r, fl')"
        using run k by (simp add: encode_symbols_with_model_checkpoint_def val start s(1) drop_enumerate_list)
      from loop_saved [OF Ok pre _ s(2) sv this] show ?thesis
        by (auto simp: whole Ok)
    next
      case False
      then have "fl = None" using sv by (cases fl) (auto simp: saved_def)
      then show ?thesis using run False val readable
        by (cases "bench_new (bj_model job) (bj_n_ctx job)")
          (auto simp: encode_symbols_with_model_checkpoint_def checkpoint_start_def checkpoint_resume_state_def slice_at_def
            whole saved_def)
    qed
  qed
next
  case False
  then show ?thesis using run sv
    by (cases "validate_window (bj_n_ctx job) (bj_overlap job) (context_length (ll_config (bj_model job)))")
      (auto simp: encode_symbols_with_model_checkpoint_def whole_def encode_quiet)
qed

lemma runs_saved: "bench_runs job fl \<Longrightarrow> job_ok job \<Longrightarrow> saved job fl \<and> (case fl of None \<Rightarrow> True | Some bytes \<Rightarrow> length bytes \<le> usize_max)"
proof (induction rule: bench_runs.induct)
  case no_file
  then show ?case by (simp add: saved_def)
next
  case (run fl world r fl')
  then show ?case using run_saved [of job fl world r fl'] by blast
qed

text \<open>C11: Interrupted encodings lose nothing. Start without a checkpoint file and let any number of runs
  of the same job follow, each failing or being stopped by a failing file access anywhere, with any
  clock. If the next run returns a payload, it is the payload of an uninterrupted encoding; and if
  nothing disturbs that run, it ends exactly as the uninterrupted encoding does.\<close>

theorem checkpoint_resume:
  assumes "job_ok job" "bench_runs job fl" "encode_symbols_with_model_checkpoint job world fl = (r, fl')"
  shows "(\<forall>payload. r = Ok payload \<longrightarrow> encode_symbols_with_model_progress (bj_model job) (bj_symbols job) (bj_n_ctx job)
      (bj_overlap job) no_progress (\<lambda>_. True) = Ok payload) \<and>
    (undisturbed job world \<longrightarrow> r = encode_symbols_with_model_progress (bj_model job) (bj_symbols job) (bj_n_ctx job)
      (bj_overlap job) no_progress (\<lambda>_. True))"
  using run_saved [OF assms(1) _ _ assms(3)] runs_saved [OF assms(2,1)] by blast

definition small_job :: bench_job where
  "small_job = \<lparr>bj_model = small_llama, bj_symbols = [0, 99], bj_n_ctx = 1, bj_overlap = 0, bj_progress = no_progress,
    bj_checkpoint_every = 1, bj_model_sha256 = replicate 32 0, bj_input_sha256 = replicate 32 0, bj_orig_len = 2\<rparr>"

text \<open>A job that encodes two symbols: it ends as the command line codec, in a payload.\<close>

theorem checkpoint_resume_witness:
  "\<exists>payload fl. encode_symbols_with_model_checkpoint small_job
      \<lparr>bw_readable = True, bw_summary = (\<lambda>_. True), bw_checkpoint = (\<lambda>_. True), bw_elapsed = (\<lambda>_. 0)\<rparr> None = (Ok payload, fl)"
proof -
  let ?w = "\<lparr>bw_readable = True, bw_summary = (\<lambda>_. True), bw_checkpoint = (\<lambda>_. True), bw_elapsed = (\<lambda>_. 0)\<rparr> :: bench_world"
  obtain r fl where run: "encode_symbols_with_model_checkpoint small_job ?w None = (r, fl)" by fastforce
  have job: "job_ok small_job" by (simp add: job_ok_def small_job_def usize_max_def)
  have calm: "undisturbed small_job ?w" by (simp add: undisturbed_def small_job_def)
  have args: "bj_model small_job = small_llama" "bj_symbols small_job = [0, 99]" "bj_n_ctx small_job = 1" "bj_overlap small_job = 0"
    by (simp_all add: small_job_def)
  have "r = encode_symbols_with_model_progress small_llama [0, 99] 1 0 no_progress (\<lambda>_. True)"
    using checkpoint_resume [OF job bench_runs.no_file run, THEN conjunct2, THEN mp, OF calm] unfolding args .
  moreover obtain payload where "encode_symbols_with_model small_llama [0, 99] 1 0 True = Ok payload" using small_encode by blast
  ultimately have "r = Ok payload" by (simp only: encode_window map_err.simps)
  then show ?thesis using run by blast
qed

end
