(* ===== verification/Model_Writer.thy ===== *)
theory Model_Writer
  imports Ascii Bench_Checkpoint
begin

text \<open>
  The writer of test models in \<open>src/xtask/src/main.rs\<close>: tensors are appended to a growing data
  section, and \<open>encode_gguf\<close> lays out a version-3 file with twelve metadata entries. The main result
  is that every file built this way is read back by the GGUF parser with the tensors in the order in
  which they were pushed, at the offsets where they were pushed.
\<close>

section \<open>Writing fields\<close>

definition push_u32 :: "u8 list \<Rightarrow> u32 \<Rightarrow> u8 list" where
  "push_u32 out v = out @ le_bytes 4 (unat v)"

definition push_string :: "u8 list \<Rightarrow> str \<Rightarrow> u8 list" where
  "push_string out s = push_u64 out (word_of_nat (length s)) @ s"

definition push_meta_string :: "u8 list \<Rightarrow> string \<Rightarrow> string \<Rightarrow> u8 list" where
  "push_meta_string out key v = push_string (push_u32 (push_string out (ascii key)) 8) (ascii v)"

definition push_meta_u32 :: "u8 list \<Rightarrow> string \<Rightarrow> u32 \<Rightarrow> u8 list" where
  "push_meta_u32 out key v = push_u32 (push_u32 (push_string out (ascii key)) 4) v"

definition push_meta_f32 :: "u8 list \<Rightarrow> string \<Rightarrow> f32 \<Rightarrow> u8 list" where
  "push_meta_f32 out key v = push_u32 (push_string out (ascii key)) 6 @ le_bytes 4 (unat v)"

text \<open>\<open>format!("<0x{b:02X}>")\<close>.\<close>

definition hex_digit :: "nat \<Rightarrow> u8" where
  "hex_digit d = word_of_nat (if d < 10 then 48 + d else 55 + d)"

definition byte_token :: "nat \<Rightarrow> str" where
  "byte_token b = ascii ''<0x'' @ [hex_digit (b div 16), hex_digit (b mod 16)] @ ascii ''>''"

definition push_meta_token_array :: "u8 list \<Rightarrow> u8 list" where
  "push_meta_token_array out =
    (let out = push_u64 (push_u32 (push_u32 (push_string out (ascii ''tokenizer.ggml.tokens'')) 9) 8) 256
     in fold (\<lambda>b out. push_string out (byte_token b)) [0..<256] out)"

section \<open>Tensors\<close>

record tensor_spec =
  ts_name :: str
  ts_dims :: "u64 list"
  ts_ty :: u32
  ts_offset :: u64

text \<open>The two vectors that the functions for tensors extend.\<close>

type_synonym builder = "tensor_spec list \<times> u8 list"

definition add_tensor :: "str \<Rightarrow> u64 list \<Rightarrow> u32 \<Rightarrow> u8 list \<Rightarrow> builder \<Rightarrow> builder" where
  "add_tensor name dims ty content = (\<lambda>(tensors, data).
    (tensors @ [\<lparr>ts_name = name, ts_dims = dims, ts_ty = ty, ts_offset = word_of_nat (length data)\<rparr>], data @ content))"

definition push_tensor :: "str \<Rightarrow> nat \<Rightarrow> nat \<Rightarrow> f32 \<Rightarrow> builder \<Rightarrow> builder" where
  "push_tensor name rows cols scale = add_tensor name [word_of_nat cols, word_of_nat rows] 0
    (concat (map (\<lambda>i. le_bytes 4 (unat (f32_mul (f32_sub (f32_of_int (int (i mod 13))) (f32_of_int 6)) scale))) [0..<rows * cols]))"

definition push_vector :: "str \<Rightarrow> nat \<Rightarrow> f32 \<Rightarrow> builder \<Rightarrow> builder" where
  "push_vector name n v = add_tensor name [word_of_nat n] 0 (concat (replicate n (le_bytes 4 (unat v))))"

definition push_q8_tensor :: "str \<Rightarrow> nat \<Rightarrow> nat \<Rightarrow> u16 \<Rightarrow> i8 \<Rightarrow> builder \<Rightarrow> builder" where
  "push_q8_tensor name rows cols scale_f16 q = add_tensor name [word_of_nat cols, word_of_nat rows] 8
    (concat (replicate (rows * (cols div 32)) (le_bytes 2 (unat scale_f16) @ replicate 32 q)))"

definition push_q4_tensor :: "str \<Rightarrow> nat \<Rightarrow> nat \<Rightarrow> u16 \<Rightarrow> u8 \<Rightarrow> builder \<Rightarrow> builder" where
  "push_q4_tensor name rows cols scale_f16 packed = add_tensor name [word_of_nat cols, word_of_nat rows] 2
    (concat (replicate (rows * (cols div 32)) (le_bytes 2 (unat scale_f16) @ replicate 16 packed)))"

section \<open>The file\<close>

record model_spec =
  sp_vocab_size :: nat
  sp_embedding_length :: u32
  sp_feed_forward_length :: u32
  sp_head_count :: u32
  sp_head_count_kv :: u32
  sp_context_length :: u32

text \<open>\<open>while out.len() % 32 != 0 { out.push(0); }\<close>.\<close>

function pad_to_32 :: "u8 list \<Rightarrow> u8 list" where
  "pad_to_32 out = (if length out mod 32 \<noteq> 0 then pad_to_32 (out @ [0]) else out)"
  by auto
termination
proof (relation "measure (\<lambda>out. (32 - length out mod 32) mod 32)", simp)
  fix out :: "u8 list" assume r: "length out mod 32 \<noteq> 0"
  have "(32 - Suc n mod 32) mod 32 < (32 - n mod 32) mod 32" if "n mod 32 \<noteq> 0" for n :: nat
  proof -
    have "n mod 32 < 32" by simp
    then show ?thesis using that by (cases "n mod 32 = 31") (simp_all add: mod_Suc)
  qed
  from this [OF r] show "(out @ [0], out) \<in> measure (\<lambda>out. (32 - length out mod 32) mod 32)" by simp
qed

declare pad_to_32.simps [simp del]

definition push_spec :: "u8 list \<Rightarrow> tensor_spec \<Rightarrow> u8 list" where
  "push_spec out t =
    push_u64 (push_u32 (fold (\<lambda>dim out. push_u64 out dim) (ts_dims t)
      (push_u32 (push_string out (ts_name t)) (word_of_nat (length (ts_dims t))))) (ts_ty t)) (ts_offset t)"

definition encode_gguf :: "tensor_spec list \<Rightarrow> u8 list \<Rightarrow> model_spec \<Rightarrow> (gguf_error, u8 list) res" where
  "encode_gguf tensors data spec =
    rbind (div_or_panic (sp_embedding_length spec) (sp_head_count spec)) (\<lambda>rope_dim.
    let out = gguf_magic;
        out = push_u32 out 3;
        out = push_u64 out (word_of_nat (length tensors));
        out = push_u64 out 12;
        out = push_meta_string out ''general.architecture'' ''llama'';
        out = push_meta_u32 out ''llama.block_count'' 1;
        out = push_meta_u32 out ''llama.embedding_length'' (sp_embedding_length spec);
        out = push_meta_u32 out ''llama.feed_forward_length'' (sp_feed_forward_length spec);
        out = push_meta_u32 out ''llama.attention.head_count'' (sp_head_count spec);
        out = push_meta_u32 out ''llama.attention.head_count_kv'' (sp_head_count_kv spec);
        out = push_meta_f32 out ''llama.attention.layer_norm_rms_epsilon'' (f32_lit 1 100000);
        out = push_meta_f32 out ''llama.rope.freq_base'' (f32_of_int 10000);
        out = push_meta_u32 out ''llama.rope.dimension_count'' rope_dim;
        out = push_meta_u32 out ''llama.context_length'' (sp_context_length spec);
        out = push_meta_u32 out ''llama.vocab_size'' (word_of_nat (sp_vocab_size spec));
        out = push_meta_token_array out;
        out = fold (\<lambda>t out. push_spec out t) tensors out
    in Ok (pad_to_32 out @ data))"

section \<open>The two models of the test suite\<close>

definition tiny_f32_tensors :: builder where
  "tiny_f32_tensors =
    fold (\<lambda>f. f) [push_tensor (ascii ''token_embd.weight'') 256 4 (f32_lit 1 1000),
      push_vector (ascii ''blk.0.attn_norm.weight'') 4 (f32_of_int 1),
      push_tensor (ascii ''blk.0.attn_q.weight'') 4 4 (f32_lit 2 1000),
      push_tensor (ascii ''blk.0.attn_k.weight'') 2 4 (f32_lit (- 15) 10000),
      push_tensor (ascii ''blk.0.attn_v.weight'') 2 4 (f32_lit 25 10000),
      push_tensor (ascii ''blk.0.attn_output.weight'') 4 4 (f32_lit (- 2) 1000),
      push_vector (ascii ''blk.0.ffn_norm.weight'') 4 (f32_of_int 1),
      push_tensor (ascii ''blk.0.ffn_gate.weight'') 6 4 (f32_lit 3 1000),
      push_tensor (ascii ''blk.0.ffn_up.weight'') 6 4 (f32_lit (- 25) 10000),
      push_tensor (ascii ''blk.0.ffn_down.weight'') 4 6 (f32_lit 18 10000),
      push_vector (ascii ''output_norm.weight'') 4 (f32_of_int 1),
      push_tensor (ascii ''output.weight'') 256 4 (f32_lit 22 10000)] ([], [])"

definition tiny_f32_spec :: model_spec where
  "tiny_f32_spec = \<lparr>sp_vocab_size = 256, sp_embedding_length = 4, sp_feed_forward_length = 6, sp_head_count = 2, sp_head_count_kv = 1,
     sp_context_length = 16\<rparr>"

definition tiny_f32_gguf :: "(gguf_error, u8 list) res" where
  "tiny_f32_gguf = (case tiny_f32_tensors of (tensors, data) \<Rightarrow> encode_gguf tensors data
    tiny_f32_spec)"

definition tiny_qmix_tensors :: builder where
  "tiny_qmix_tensors =
    fold (\<lambda>f. f) [push_q8_tensor (ascii ''token_embd.weight'') 256 32 0x3c00 2,
      push_vector (ascii ''blk.0.attn_norm.weight'') 32 (f32_of_int 1),
      push_q8_tensor (ascii ''blk.0.attn_q.weight'') 32 32 0x3c00 1,
      push_q4_tensor (ascii ''blk.0.attn_k.weight'') 16 32 0x3c00 0x99,
      push_q8_tensor (ascii ''blk.0.attn_v.weight'') 16 32 0x3c00 (- 1),
      push_q4_tensor (ascii ''blk.0.attn_output.weight'') 32 32 0x3c00 0x99,
      push_vector (ascii ''blk.0.ffn_norm.weight'') 32 (f32_of_int 1),
      push_q8_tensor (ascii ''blk.0.ffn_gate.weight'') 32 32 0x3c00 2,
      push_q4_tensor (ascii ''blk.0.ffn_up.weight'') 32 32 0x3c00 0x99,
      push_q8_tensor (ascii ''blk.0.ffn_down.weight'') 32 32 0x3c00 (- 2),
      push_vector (ascii ''output_norm.weight'') 32 (f32_of_int 1)] ([], [])"

definition tiny_qmix_spec :: model_spec where
  "tiny_qmix_spec = \<lparr>sp_vocab_size = 256, sp_embedding_length = 32, sp_feed_forward_length = 32, sp_head_count = 2, sp_head_count_kv = 1,
     sp_context_length = 16\<rparr>"

definition tiny_qmix_gguf :: "(gguf_error, u8 list) res" where
  "tiny_qmix_gguf = (case tiny_qmix_tensors of (tensors, data) \<Rightarrow> encode_gguf tensors data
    tiny_qmix_spec)"

section \<open>The file has the layout of the parser's specification\<close>

definition written_meta :: "model_spec \<Rightarrow> (str \<times> metadata_value) list" where
  "written_meta spec = map (\<lambda>(k, v). (ascii k, v)) [
    (''general.architecture'', MString (ascii ''llama'')), (''llama.block_count'', MU32 1),
    (''llama.embedding_length'', MU32 (sp_embedding_length spec)), (''llama.feed_forward_length'', MU32 (sp_feed_forward_length spec)),
    (''llama.attention.head_count'', MU32 (sp_head_count spec)), (''llama.attention.head_count_kv'', MU32 (sp_head_count_kv spec)),
    (''llama.attention.layer_norm_rms_epsilon'', MF32 (f32_lit 1 100000)), (''llama.rope.freq_base'', MF32 (f32_of_int 10000)),
    (''llama.rope.dimension_count'', MU32 (sp_embedding_length spec div sp_head_count spec)),
    (''llama.context_length'', MU32 (sp_context_length spec)), (''llama.vocab_size'', MU32 (word_of_nat (sp_vocab_size spec))),
    (''tokenizer.ggml.tokens'', ArrayString (map byte_token [0..<256]))]"

definition spec_info :: "tensor_spec \<Rightarrow> tensor_info" where
  "spec_info t = \<lparr>t_name = ts_name t, t_dimensions = ts_dims t, t_ty = type_from_u32 (ts_ty t), t_offset = ts_offset t\<rparr>"

lemma push_string_put: "length s \<le> usize_max \<Longrightarrow> push_string out s = out @ put_string s"
  by (simp add: push_string_def push_u64_def put_string_def unat_usize del: le_bytes.simps)

lemma fold_push_u64: "fold (\<lambda>d out. push_u64 out d) ds out = out @ concat (map (\<lambda>w. le_bytes 8 (unat w)) ds)"
  by (induction ds arbitrary: out) (simp_all add: push_u64_def del: le_bytes.simps)

lemma fold_append: "fold (\<lambda>x out. out @ f x) xs out = out @ concat (map f xs)"
  by (induction xs arbitrary: out) simp_all

lemma push_spec_put:
  assumes "string_ok (ts_name t)" "length (ts_dims t) < 2 ^ 32"
  shows "push_spec out t = out @ put_tensor (spec_info t)"
proof -
  have n: "unat (word_of_nat (length (ts_dims t)) :: u32) = length (ts_dims t)"
    using assms by (simp add: unsigned_of_nat take_bit_nat_eq_self)
  have l: "length (ts_name t) \<le> usize_max" using assms by (simp add: string_ok_def)
  show ?thesis unfolding push_spec_def fold_push_u64 push_string_put [OF l] push_u64_def push_u32_def put_tensor_def n
    by (simp add: fold_append spec_info_def type_raw_inverse del: le_bytes.simps)
qed

lemma fold_push_spec:
  "list_all (\<lambda>t. string_ok (ts_name t) \<and> length (ts_dims t) < 2 ^ 32) ts \<Longrightarrow>
    fold (\<lambda>t out. push_spec out t) ts out = out @ concat (map (put_tensor \<circ> spec_info) ts)"
  by (induction ts arbitrary: out) (simp_all add: push_spec_put)

lemma fold_push_tokens: "fold (\<lambda>b out. push_string out (byte_token b)) bs out = out @ concat (map (put_string \<circ> byte_token) bs)"
proof -
  have "length (byte_token b) \<le> usize_max" for b by (simp add: byte_token_def usize_max_def)
  then show ?thesis by (induction bs arbitrary: out) (simp_all add: push_string_put)
qed

lemma round_up_32:
  assumes "n mod 32 \<noteq> (0 :: nat)"
  shows "(Suc n + 31) div 32 = (n + 31) div 32"
proof -
  define q r where qr: "q = n div 32" "r = n mod 32"
  have n: "n = 32 * q + r" "r < 32" "0 < r" using assms by (simp_all add: qr)
  have "(Suc n + 31) div 32 = q + 1" "(n + 31) div 32 = q + 1"
    by (rule div_nat_eqI; use n in simp)+
  then show ?thesis by simp
qed

lemma pad_to_32_zeros: "\<exists>k. pad_to_32 out = out @ replicate k 0 \<and> length (pad_to_32 out) = 32 * ((length out + 31) div 32)"
proof (induction out rule: pad_to_32.induct)
  case (1 out)
  show ?case
  proof (cases "length out mod 32 = 0")
    case True
    then obtain q where "length out = 32 * q" by auto
    then have "32 * ((length out + 31) div 32) = length out" by simp
    moreover have "pad_to_32 out = out" using True by (subst pad_to_32.simps) simp
    ultimately show ?thesis by (intro exI [of _ 0]) simp
  next
    case False
    then obtain k where k: "pad_to_32 (out @ [0]) = (out @ [0]) @ replicate k 0"
      "length (pad_to_32 (out @ [0])) = 32 * ((length (out @ [0]) + 31) div 32)" using 1 by blast
    have "pad_to_32 out = pad_to_32 (out @ [0])" using False by (subst pad_to_32.simps) simp
    moreover have "(length (out @ [0 :: u8]) + 31) div 32 = (length out + 31) div 32" using round_up_32 [OF False] by simp
    ultimately show ?thesis using k by (intro exI [of _ "Suc k"]) simp
  qed
qed

text \<open>The header of the file in the terms of the parser's specification.\<close>

definition written_header :: "tensor_spec list \<Rightarrow> model_spec \<Rightarrow> u8 list" where
  "written_header ts spec = put_header 3 (written_meta spec) (map spec_info ts)"

lemma push_meta_put:
  "length k < 2 ^ 32 \<Longrightarrow> length v < 2 ^ 32 \<Longrightarrow>
    push_meta_string out k v = out @ put_string (ascii k) @ put_value (MString (ascii v))"
  "length k < 2 ^ 32 \<Longrightarrow> push_meta_u32 out k w = out @ put_string (ascii k) @ put_value (MU32 w)"
  "length k < 2 ^ 32 \<Longrightarrow> push_meta_f32 out k w = out @ put_string (ascii k) @ put_value (MF32 w)"
  by (simp_all add: push_meta_string_def push_meta_u32_def push_meta_f32_def push_string_put usize_max_def push_u32_def
      del: le_bytes.simps)

lemma push_tokens_put:
  "push_meta_token_array out =
    out @ put_string (ascii ''tokenizer.ggml.tokens'') @ put_value (ArrayString (map byte_token [0..<256]))"
  unfolding push_meta_token_array_def Let_def fold_push_tokens
  by (simp add: push_string_put usize_max_def push_u32_def push_u64_def put_array_def del: le_bytes.simps upt_rec_numeral)

lemma length_written_meta: "length (written_meta spec) = 12"
  by (simp add: written_meta_def del: upt_rec_numeral)

lemma encode_gguf_layout:
  assumes "list_all (\<lambda>t. string_ok (ts_name t) \<and> length (ts_dims t) < 2 ^ 32) ts" "length ts \<le> usize_max"
    and "sp_head_count spec \<noteq> 0"
  shows "encode_gguf ts data spec = Ok (pad_to_32 (written_header ts spec) @ data)"
proof -
  have n: "unat (word_of_nat (length ts) :: u64) = length ts" using assms(2) by (simp add: unat_usize)
  show ?thesis unfolding encode_gguf_def Let_def fold_push_spec [OF assms(1)] push_tokens_put
    using assms(3)
    by (simp add: div_or_panic_def push_meta_put push_u32_def push_u64_def n written_header_def put_header_def length_written_meta
        comp_def del: le_bytes.simps put_value.simps upt_rec_numeral)
      (simp add: written_meta_def del: le_bytes.simps put_value.simps upt_rec_numeral)
qed

section \<open>Every built file is read back\<close>

text \<open>One call of a pushing function: name, dimensions, raw element type and the bytes it appends.\<close>

type_synonym push = "str \<times> u64 list \<times> u32 \<times> u8 list"

definition add_push :: "push \<Rightarrow> builder \<Rightarrow> builder" where
  "add_push = (\<lambda>(name, dims, ty, content). add_tensor name dims ty content)"

definition builder_of :: "push list \<Rightarrow> builder" where
  "builder_of ps = fold add_push ps ([], [])"

text \<open>A push whose description the parser accepts: its coded size is the number of bytes appended.\<close>

definition push_ok :: "push \<Rightarrow> bool" where
  "push_ok = (\<lambda>(name, dims, ty, content). string_ok name \<and> length dims < 2 ^ 32 \<and>
    encoded_len \<lparr>t_name = name, t_dimensions = dims, t_ty = type_from_u32 ty, t_offset = 0\<rparr> = Ok (word_of_nat (length content)) \<and>
    length content < 2 ^ 64)"

text \<open>What the parser should find for a push: its description, and its bytes at the offset.\<close>

definition stored :: "nat \<Rightarrow> u8 list \<Rightarrow> push \<Rightarrow> tensor_info \<Rightarrow> bool" where
  "stored d bytes = (\<lambda>(name, dims, ty, content) t. t_name t = name \<and> t_dimensions t = dims \<and> t_ty t = type_from_u32 ty \<and>
    take (length content) (drop (d + unat (t_offset t)) bytes) = content \<and>
    d + unat (t_offset t) + length content \<le> length bytes)"

lemma builder_of_snoc: "builder_of (ps @ [(name, dims, ty, content)]) = add_tensor name dims ty content (builder_of ps)"
  by (simp add: builder_of_def add_push_def)

lemma stored_front: "stored d bytes p t \<Longrightarrow> stored d (bytes @ bytes2) p t"
  by (auto simp: stored_def split: prod.splits)

lemma stored_behind: "stored d bytes p t \<Longrightarrow> stored (length front + d) (front @ bytes) p t"
  by (auto simp: stored_def add.assoc split: prod.splits)

lemma push_ok_range:
  assumes "push_ok p" "stored d bytes p t"
  shows "\<exists>len. encoded_len t = Ok len" "snd (range_of e t) = e + unat (t_offset t) + length (snd (snd (snd p)))" "tensor_ok t"
proof -
  obtain name dims ty content where p: "p = (name, dims, ty, content)" by (cases p) auto
  have "t_dimensions t = dims" "t_ty t = type_from_u32 ty" using assms(2) by (simp_all add: p stored_def)
  then have "encoded_len t = encoded_len \<lparr>t_name = name, t_dimensions = dims, t_ty = type_from_u32 ty, t_offset = 0\<rparr>"
    unfolding encoded_len_def element_count_def by simp
  then have e: "encoded_len t = Ok (word_of_nat (length content))"
    using assms(1) by (simp only: p push_ok_def prod.case)
  then show "\<exists>len. encoded_len t = Ok len" by blast
  show "snd (range_of e t) = e + unat (t_offset t) + length (snd (snd (snd p)))"
    using encoded_len_bytes(1) [OF e] assms
    by (simp add: range_of_def p push_ok_def unsigned_of_nat take_bit_nat_eq_self)
  show "tensor_ok t" using assms by (simp add: tensor_ok_def p push_ok_def stored_def type_raw_inverse)
qed

lemma built_tensors:
  "list_all push_ok ps \<Longrightarrow> builder_of ps = (ts, data) \<Longrightarrow> length data \<le> usize_max \<Longrightarrow>
    list_all2 (stored 0 data) ps (map spec_info ts) \<and> layout_ok 0 (length data) (map spec_info ts)"
proof (induction ps arbitrary: ts data rule: rev_induct)
  case Nil
  then show ?case by (simp add: builder_of_def layout_ok_def)
next
  case (snoc p ps)
  obtain name dims ty content where p: "p = (name, dims, ty, content)" by (cases p) auto
  obtain ts0 data0 where b: "builder_of ps = (ts0, data0)" by fastforce
  define t where "t = \<lparr>ts_name = name, ts_dims = dims, ts_ty = ty, ts_offset = word_of_nat (length data0)\<rparr>"
  have eqs: "ts = ts0 @ [t]" "data = data0 @ content"
    using snoc.prems(2) by (simp_all add: p builder_of_snoc b add_tensor_def t_def)
  have off: "unat (t_offset (spec_info t)) = length data0"
    using snoc.prems(3) by (simp add: eqs t_def spec_info_def unat_usize)
  have IH: "list_all2 (stored 0 data0) ps (map spec_info ts0)" "layout_ok 0 (length data0) (map spec_info ts0)"
    using snoc.IH [OF _ b] snoc.prems by (simp_all add: eqs)
  have ok: "push_ok p" using snoc.prems(1) by simp
  have st: "stored 0 data p (spec_info t)"
    using off by (simp add: stored_def p eqs) (simp add: spec_info_def t_def)
  note r = push_ok_range(1,3) [OF ok st] push_ok_range(2) [OF ok st, of 0]
  have all: "list_all2 (stored 0 data) (ps @ [p]) (map spec_info ts)"
    using list_all2_mono [OF IH(1) stored_front] st by (simp add: eqs list_all2_appendI)
  have "layout_ok 0 (length data) (map spec_info ts)"
    using IH(2) r off
    by (auto simp: layout_ok_def eqs sorted_wrt_append list_all_iff disjoint_def range_of_def p)
  then show ?case using all by blast
qed

lemma layout_shift: "layout_ok 0 n ts \<Longrightarrow> layout_ok d (d + n) ts"
  by (auto simp: layout_ok_def range_of_def disjoint_def list_all_iff elim!: sorted_wrt_mono_rel [rotated])

lemma string_ok_ascii:
  assumes "list_all (\<lambda>c. (of_char c :: u8) < 128) s" "length s < 100"
  shows "string_ok (ascii s)"
proof -
  have "utf8_valid (ascii s)" using assms(1) by (induction s) (simp_all add: ascii_def)
  then show ?thesis using assms(2) by (simp add: string_ok_def usize_max_def)
qed

lemma written_meta_ok:
  "list_all (\<lambda>(k, v). string_ok k \<and> value_ok v) (written_meta spec)" "distinct (map fst (written_meta spec))"
proof -
  note a = string_ok_ascii
  have h: "hex_digit d < 128" if "d < 16" for d
  proof -
    have "(if d < 10 then 48 + d else 55 + d) < 128" using that by simp
    then show ?thesis unfolding hex_digit_def by (simp add: word_less_nat_alt unsigned_of_nat take_bit_nat_eq_self del: of_nat_add)
  qed
  have "string_ok (byte_token b)" if "b < 256" for b
    using that h [of "b div 16"] h [of "b mod 16"] by (simp add: byte_token_def string_ok_def ascii_def usize_max_def)
  then have "list_all string_ok (map byte_token [0..<256])" by (simp add: list_all_iff del: upt_rec_numeral)
  then show "list_all (\<lambda>(k, v). string_ok k \<and> value_ok v) (written_meta spec)"
    by (simp add: written_meta_def a usize_max_def del: upt_rec_numeral)
  show "distinct (map fst (written_meta spec))" by (simp add: written_meta_def del: upt_rec_numeral)
qed

lemma written_ok:
  assumes "list_all push_ok ps" "distinct (map fst ps)" "builder_of ps = (ts, data)" "length data \<le> usize_max"
  shows "list_all (\<lambda>t. string_ok (ts_name t) \<and> length (ts_dims t) < 2 ^ 32) ts" "list_all tensor_ok (map spec_info ts)"
    "map t_name (map spec_info ts) = map fst ps" "length ts = length ps"
proof -
  note built = built_tensors [OF assms(1,3,4)]
  then show len: "length ts = length ps" by (auto dest: list_all2_lengthD)
  have at: "push_ok (ps ! i)" "stored 0 data (ps ! i) (spec_info (ts ! i))" if "i < length ts" for i
    using that built assms(1) len by (auto simp: list_all_length dest: list_all2_nthD)
  have spec: "string_ok (ts_name t) \<and> length (ts_dims t) < 2 ^ 32 \<and> ts_name t = fst p"
    if "push_ok p" "stored 0 data p (spec_info t)" for p t
    using that by (auto simp: push_ok_def stored_def spec_info_def split: prod.splits)
  show "list_all (\<lambda>t. string_ok (ts_name t) \<and> length (ts_dims t) < 2 ^ 32) ts"
    unfolding list_all_length using spec [OF at(1) at(2)] by blast
  show "list_all tensor_ok (map spec_info ts)" unfolding list_all_length
    using push_ok_range(3) [OF at(1) at(2)] by simp
  show "map t_name (map spec_info ts) = map fst ps"
    by (rule nth_equalityI) (use at spec len in \<open>simp_all add: spec_info_def\<close>)
qed

text \<open>C16: A model file written by any sequence of pushes with distinct names and accepted shapes is
  parsed without error as a version-3 file with the twelve metadata entries and the tensors in push
  order, and every tensor's bytes stand at the offset that the parser reports, behind a data section
  that starts at a multiple of 32.\<close>

theorem written_model_parses:
  assumes "list_all push_ok ps" "distinct (map fst ps)" "builder_of ps = (ts, data)" "sp_head_count spec \<noteq> 0"
    and "length ps \<le> usize_max" "length (written_header ts spec) + length data + 62 \<le> usize_max"
  shows "\<exists>bytes d. encode_gguf ts data spec = Ok bytes \<and> d mod 32 = 0 \<and>
    parse bytes = Ok \<lparr>g_version = 3, g_metadata = map_of (written_meta spec), g_tensors = map spec_info ts,
      g_data_offset = d, g_file_len = length bytes\<rparr> \<and>
    list_all2 (stored d bytes) ps (map spec_info ts)"
proof -
  let ?h = "written_header ts spec"
  obtain k where pad: "pad_to_32 ?h = ?h @ replicate k 0" "length (pad_to_32 ?h) = 32 * ((length ?h + 31) div 32)"
    using pad_to_32_zeros by blast
  define bytes d where "bytes = pad_to_32 ?h @ data" and d: "d = length (pad_to_32 ?h)"
  have n: "length data \<le> usize_max" using assms(6) by simp
  note ok = written_ok [OF assms(1-3) n]
  note built = built_tensors [OF assms(1,3) n]
  have enc: "encode_gguf ts data spec = Ok bytes"
    using encode_gguf_layout [OF ok(1) _ assms(4)] ok(4) assms(5) by (simp add: bytes_def)
  have "d \<le> length ?h + 31" unfolding d pad(2) by simp
  then have len: "length bytes + 31 \<le> usize_max" using assms(6) by (simp add: bytes_def d)
  have "parse bytes = Ok \<lparr>g_version = 3, g_metadata = map_of (written_meta spec), g_tensors = map spec_info ts,
      g_data_offset = d, g_file_len = length bytes\<rparr>"
  proof (rule parse_put_header [where rest = "replicate k 0 @ data"])
    show "bytes = put_header 3 (written_meta spec) (map spec_info ts) @ replicate k 0 @ data"
      using pad(1) by (simp add: bytes_def written_header_def)
    show "d = 32 * ((length (put_header 3 (written_meta spec) (map spec_info ts)) + 31) div 32)"
      using pad(2) by (simp add: d written_header_def)
    show "layout_ok d (length bytes) (map spec_info ts)" using built by (simp add: bytes_def d layout_shift)
    show "length (written_meta spec) \<le> usize_max" by (simp add: length_written_meta usize_max_def)
    show "distinct (map t_name (map spec_info ts))" using ok(3) assms(2) by simp
    show "length (map spec_info ts) \<le> usize_max" using ok(4) assms(5) by simp
    show "d \<le> length bytes" by (simp add: bytes_def d)
  qed (use ok written_meta_ok len in simp_all)
  moreover have "list_all2 (stored d bytes) ps (map spec_info ts)"
  proof (rule list_all2_mono [OF conjunct1 [OF built]])
    show "stored d bytes p t" if "stored 0 data p t" for p t
      using stored_behind [OF that, of "pad_to_32 ?h"] by (simp add: bytes_def d)
  qed
  moreover have "d mod 32 = 0" by (simp add: d pad(2))
  ultimately show ?thesis using enc by (intro exI [of _ bytes] exI [of _ d] conjI)
qed

section \<open>The pushing functions satisfy the contract\<close>

lemma count_elements_total:
  "0 \<notin> set ds \<Longrightarrow> unat n * prod_list (map unat ds) < 2 ^ 64 \<Longrightarrow> \<exists>m. count_elements ds n = Ok m"
proof (induction ds arbitrary: n)
  case (Cons d ds)
  have "0 < prod_list (map unat ds)" using Cons.prems(1) by (intro prod_pos) simp
  then have "unat n * unat d \<le> unat n * unat d * prod_list (map unat ds)" by simp
  also have less: "\<dots> < 2 ^ 64" using Cons.prems(2) by (simp add: mult.assoc)
  finally have c: "checked_mul n d = Some (n * d)" by simp
  then have "unat (n * d) = unat n * unat d" by (rule checked_mul_unat)
  then show ?case using Cons.IH [of "n * d"] Cons.prems(1) less c by (auto simp del: checked_mul_Some)
qed simp

lemma push_ok_I:
  assumes "string_ok name" "dims \<noteq> []" "length dims < 2 ^ 32" "0 \<notin> set dims"
    and "type_size (type_from_u32 ty) = Some bytes_per" "block_size (type_from_u32 ty) = Some per_block" "per_block \<noteq> 0"
    and "prod_list (map unat dims) = unat per_block * n" "length content = n * unat bytes_per"
    and "unat per_block * n < 2 ^ 64" "n * unat bytes_per < 2 ^ 64"
  shows "push_ok (name, dims, ty, content)"
proof -
  obtain m where m: "count_elements dims 1 = Ok m" using count_elements_total [of dims 1] assms by auto
  have um: "unat m = unat per_block * n" using count_elements_Ok [OF m] assms(8) by simp
  have b: "0 < unat per_block" using assms(7) by (simp add: unat_gt_0)
  have "unat (m mod per_block) = 0" by (simp add: unat_mod um)
  then have "m mod per_block = 0" by (simp only: unat_eq_0)
  moreover have q: "unat (m div per_block) = n" using b by (simp add: unat_div um)
  moreover have c: "checked_mul (m div per_block) bytes_per = Some (m div per_block * bytes_per)" using q assms(11) by simp
  moreover have "m div per_block * bytes_per = word_of_nat (length content)"
  proof -
    have "word_of_nat (unat (m div per_block * bytes_per)) = m div per_block * bytes_per" by simp
    then show ?thesis using checked_mul_unat [OF c] q assms(9) by (simp only:)
  qed
  ultimately show ?thesis
    unfolding push_ok_def prod.case encoded_len_def element_count_def
    using assms m by (simp del: checked_mul_Some)
qed

text \<open>The four pushing functions as pushes.\<close>

definition matrix_push :: "str \<Rightarrow> nat \<Rightarrow> nat \<Rightarrow> u32 \<Rightarrow> u8 list \<Rightarrow> push" where
  "matrix_push name n_rows n_cols ty content = (name, [word_of_nat n_cols, word_of_nat n_rows], ty, content)"

lemma length_concat_const: "(\<And>x. x \<in> set xs \<Longrightarrow> length (f x) = k) \<Longrightarrow> length (concat (map f xs)) = length xs * k"
  by (induction xs) simp_all

lemma type_codes [simp]: "type_from_u32 0 = GF32" "type_from_u32 2 = Q4_0" "type_from_u32 8 = Q8_0"
  by (simp_all add: type_from_u32_def)

lemma matrix_push_ok:
  assumes "string_ok name" "0 < n_rows" "0 < n_cols" "n_rows < 2 ^ 24" "n_cols < 2 ^ 24"
    and "type_size (type_from_u32 ty) = Some bytes_per" "block_size (type_from_u32 ty) = Some per_block" "per_block \<noteq> 0"
    and "unat per_block dvd n_cols" "unat bytes_per < 2 ^ 8"
    and "length content = n_rows * (n_cols div unat per_block) * unat bytes_per"
  shows "push_ok (matrix_push name n_rows n_cols ty content)"
proof -
  have u: "unat (word_of_nat n_rows :: u64) = n_rows" "unat (word_of_nat n_cols :: u64) = n_cols"
    using assms by (simp_all add: unsigned_of_nat take_bit_nat_eq_self)
  have "n_rows * n_cols < 2 ^ 24 * 2 ^ 24" using assms(2-5) by (intro mult_strict_mono) simp_all
  then have p: "n_rows * n_cols < 2 ^ 48" by simp
  have s: "unat per_block * (n_rows * (n_cols div unat per_block)) = n_cols * n_rows"
    using assms(9) by (metis dvd_mult_div_cancel mult.commute mult.left_commute)
  have "n_rows * (n_cols div unat per_block) \<le> n_rows * n_cols" by (simp add: div_le_dividend)
  then have "n_rows * (n_cols div unat per_block) < 2 ^ 48" using p by (rule le_less_trans)
  then have "n_rows * (n_cols div unat per_block) * unat bytes_per < 2 ^ 48 * 2 ^ 8"
    using assms(10) by (intro mult_strict_mono') simp_all
  then have b: "n_rows * (n_cols div unat per_block) * unat bytes_per < 2 ^ 64" by simp
  have z: "0 \<notin> set [word_of_nat n_cols :: u64, word_of_nat n_rows]"
    using u assms(2,3) by (auto simp flip: unat_eq_0)
  define n where n: "n = n_rows * (n_cols div unat per_block)"
  show ?thesis unfolding matrix_push_def
    by (rule push_ok_I [where n = n and bytes_per = bytes_per and per_block = per_block])
      (use assms(1,6-8,11) b p u s z in \<open>simp_all add: mult.commute flip: n\<close>)
qed

definition f32_push :: "str \<Rightarrow> nat \<Rightarrow> nat \<Rightarrow> f32 \<Rightarrow> push" where
  "f32_push name n_rows n_cols scale = matrix_push name n_rows n_cols 0
    (concat (map (\<lambda>i. le_bytes 4 (unat (f32_mul (f32_sub (f32_of_int (int (i mod 13))) (f32_of_int 6)) scale))) [0..<n_rows * n_cols]))"

definition vector_push :: "str \<Rightarrow> nat \<Rightarrow> f32 \<Rightarrow> push" where
  "vector_push name n v = (name, [word_of_nat n], 0, concat (replicate n (le_bytes 4 (unat v))))"

definition q8_push :: "str \<Rightarrow> nat \<Rightarrow> nat \<Rightarrow> u16 \<Rightarrow> i8 \<Rightarrow> push" where
  "q8_push name n_rows n_cols scale q = matrix_push name n_rows n_cols 8
    (concat (replicate (n_rows * (n_cols div 32)) (le_bytes 2 (unat scale) @ replicate 32 q)))"

definition q4_push :: "str \<Rightarrow> nat \<Rightarrow> nat \<Rightarrow> u16 \<Rightarrow> u8 \<Rightarrow> push" where
  "q4_push name n_rows n_cols scale packed = matrix_push name n_rows n_cols 2
    (concat (replicate (n_rows * (n_cols div 32)) (le_bytes 2 (unat scale) @ replicate 16 packed)))"

lemma pushes:
  "push_tensor name r c scale = add_push (f32_push name r c scale)"
  "push_vector name r v = add_push (vector_push name r v)"
  "push_q8_tensor name r c h q = add_push (q8_push name r c h q)"
  "push_q4_tensor name r c h b = add_push (q4_push name r c h b)"
  by (simp_all add: push_tensor_def push_vector_def push_q8_tensor_def push_q4_tensor_def add_push_def matrix_push_def
      f32_push_def vector_push_def q8_push_def q4_push_def del: le_bytes.simps)

lemma length_concat_replicate: "length (concat (replicate n xs)) = n * length xs"
  by (induction n) simp_all

lemma f32_push_ok:
  "string_ok name \<Longrightarrow> 0 < r \<Longrightarrow> 0 < c \<Longrightarrow> r < 2 ^ 24 \<Longrightarrow> c < 2 ^ 24 \<Longrightarrow> push_ok (f32_push name r c scale)"
  unfolding f32_push_def
  by (rule matrix_push_ok [where bytes_per = 4 and per_block = 1]) (simp_all add: length_concat_const [where k = 4] del: le_bytes.simps upt_rec_numeral)

lemma vector_push_ok: "string_ok name \<Longrightarrow> 0 < n \<Longrightarrow> n < 2 ^ 24 \<Longrightarrow> push_ok (vector_push name n v)"
  unfolding vector_push_def
  by (rule push_ok_I [where n = n and bytes_per = 4 and per_block = 1])
    (simp_all add: length_concat_replicate unsigned_of_nat take_bit_nat_eq_self word_of_nat_eq_0_iff nat_dvd_not_less
      del: le_bytes.simps)

lemma q8_push_ok:
  "string_ok name \<Longrightarrow> 0 < r \<Longrightarrow> 0 < c \<Longrightarrow> r < 2 ^ 24 \<Longrightarrow> c < 2 ^ 24 \<Longrightarrow> 32 dvd c \<Longrightarrow> push_ok (q8_push name r c h q)"
  unfolding q8_push_def by (rule matrix_push_ok [where bytes_per = 34 and per_block = 32]) (simp_all add: length_concat_replicate del: le_bytes.simps)

lemma q4_push_ok:
  "string_ok name \<Longrightarrow> 0 < r \<Longrightarrow> 0 < c \<Longrightarrow> r < 2 ^ 24 \<Longrightarrow> c < 2 ^ 24 \<Longrightarrow> 32 dvd c \<Longrightarrow> push_ok (q4_push name r c h b)"
  unfolding q4_push_def by (rule matrix_push_ok [where bytes_per = 18 and per_block = 32]) (simp_all add: length_concat_replicate del: le_bytes.simps)

lemma length_builder:
  "builder_of ps = (ts, data) \<Longrightarrow> length ts = length ps \<and> length data = sum_list (map (\<lambda>p. length (snd (snd (snd p)))) ps)"
proof (induction ps arbitrary: ts data rule: rev_induct)
  case (snoc p ps)
  then show ?case by (cases "builder_of ps"; cases p) (auto simp: builder_of_snoc add_tensor_def)
qed (simp add: builder_of_def)

lemma push_sizes:
  "length (snd (snd (snd (f32_push name r c scale)))) = r * c * 4" "length (snd (snd (snd (vector_push name n v)))) = n * 4"
  "length (snd (snd (snd (q8_push name r c h q)))) = r * (c div 32) * 34"
  "length (snd (snd (snd (q4_push name r c h b)))) = r * (c div 32) * 18"
  by (simp_all add: f32_push_def vector_push_def q8_push_def q4_push_def matrix_push_def length_concat_replicate
      length_concat_const [where k = 4] del: le_bytes.simps)

lemma push_names [simp]:
  "fst (f32_push name r c scale) = name" "fst (vector_push name n v) = name"
  "fst (q8_push name r c h q) = name" "fst (q4_push name r c h b) = name"
  by (simp_all add: f32_push_def vector_push_def q8_push_def q4_push_def matrix_push_def)

lemma header_size:
  assumes "list_all push_ok ps" "builder_of ps = (ts, data)" "distinct (map fst ps)" "length data \<le> usize_max"
    and "list_all (\<lambda>p. length (fst p) \<le> 100 \<and> length (fst (snd p)) \<le> 2) ps"
  shows "length (written_header ts spec) \<le> 10000 + 200 * length ps"
proof -
  note built = conjunct1 [OF built_tensors [OF assms(1,2,4)]]
  have t: "length (put_tensor (spec_info t)) \<le> 200"
    if "stored 0 data p (spec_info t)" "length (fst p) \<le> 100 \<and> length (fst (snd p)) \<le> 2" for p t
  proof -
    have "length (concat (map (\<lambda>w. le_bytes 8 (unat w)) (t_dimensions (spec_info t)))) = length (t_dimensions (spec_info t)) * 8"
      by (rule length_concat_const) simp
    then show ?thesis using that
      by (auto simp: put_tensor_def put_string_def stored_def simp del: le_bytes.simps split: prod.splits)
  qed
  have "length (concat (map put_tensor us)) \<le> 200 * length us" if "list_all (\<lambda>u. length (put_tensor u) \<le> 200) us" for us
    using that by (induction us) auto
  moreover have "list_all (\<lambda>u. length (put_tensor u) \<le> 200) (map spec_info ts)"
    unfolding list_all_length
  proof (intro allI impI)
    fix i assume i: "i < length (map spec_info ts)"
    then have "stored 0 data (ps ! i) (spec_info (ts ! i))" using list_all2_nthD2 [OF built] by simp
    moreover have "length (fst (ps ! i)) \<le> 100 \<and> length (fst (snd (ps ! i))) \<le> 2"
      using assms(5) i length_builder [OF assms(2)] by (simp add: list_all_length)
    ultimately show "length (put_tensor (map spec_info ts ! i)) \<le> 200" using t i by simp
  qed
  ultimately have ts: "length (concat (map put_tensor (map spec_info ts))) \<le> 200 * length ps"
    using length_builder [OF assms(2)] by fastforce
  have "length (concat (map (put_string \<circ> byte_token) [0..<256])) = length [0 :: nat..<256] * 14"
    by (rule length_concat_const) (simp add: put_string_def byte_token_def)
  then have tokens: "length (concat (map (put_string \<circ> byte_token) [0..<256])) = 3584" by (simp del: upt_rec_numeral)
  have "length (concat (map (\<lambda>(k, v). put_string k @ put_value v) (written_meta spec))) \<le> 9000"
    using tokens by (simp add: written_meta_def put_string_def put_array_def del: upt_rec_numeral le_bytes.simps)
  then show ?thesis using ts by (simp add: written_header_def put_header_def gguf_magic_def del: le_bytes.simps)
qed

text \<open>The two models of the test suite are such sequences of pushes.\<close>

definition tiny_f32_pushes :: "push list" where
  "tiny_f32_pushes = [f32_push (ascii ''token_embd.weight'') 256 4 (f32_lit 1 1000),
    vector_push (ascii ''blk.0.attn_norm.weight'') 4 (f32_of_int 1),
    f32_push (ascii ''blk.0.attn_q.weight'') 4 4 (f32_lit 2 1000),
    f32_push (ascii ''blk.0.attn_k.weight'') 2 4 (f32_lit (- 15) 10000),
    f32_push (ascii ''blk.0.attn_v.weight'') 2 4 (f32_lit 25 10000),
    f32_push (ascii ''blk.0.attn_output.weight'') 4 4 (f32_lit (- 2) 1000),
    vector_push (ascii ''blk.0.ffn_norm.weight'') 4 (f32_of_int 1),
    f32_push (ascii ''blk.0.ffn_gate.weight'') 6 4 (f32_lit 3 1000),
    f32_push (ascii ''blk.0.ffn_up.weight'') 6 4 (f32_lit (- 25) 10000),
    f32_push (ascii ''blk.0.ffn_down.weight'') 4 6 (f32_lit 18 10000),
    vector_push (ascii ''output_norm.weight'') 4 (f32_of_int 1),
    f32_push (ascii ''output.weight'') 256 4 (f32_lit 22 10000)]"

definition tiny_qmix_pushes :: "push list" where
  "tiny_qmix_pushes = [q8_push (ascii ''token_embd.weight'') 256 32 0x3c00 2,
    vector_push (ascii ''blk.0.attn_norm.weight'') 32 (f32_of_int 1),
    q8_push (ascii ''blk.0.attn_q.weight'') 32 32 0x3c00 1,
    q4_push (ascii ''blk.0.attn_k.weight'') 16 32 0x3c00 0x99,
    q8_push (ascii ''blk.0.attn_v.weight'') 16 32 0x3c00 (- 1),
    q4_push (ascii ''blk.0.attn_output.weight'') 32 32 0x3c00 0x99,
    vector_push (ascii ''blk.0.ffn_norm.weight'') 32 (f32_of_int 1),
    q8_push (ascii ''blk.0.ffn_gate.weight'') 32 32 0x3c00 2,
    q4_push (ascii ''blk.0.ffn_up.weight'') 32 32 0x3c00 0x99,
    q8_push (ascii ''blk.0.ffn_down.weight'') 32 32 0x3c00 (- 2),
    vector_push (ascii ''output_norm.weight'') 32 (f32_of_int 1)]"

lemma tiny_builders: "tiny_f32_tensors = builder_of tiny_f32_pushes" "tiny_qmix_tensors = builder_of tiny_qmix_pushes"
  by (simp_all add: tiny_f32_tensors_def tiny_f32_pushes_def tiny_qmix_tensors_def tiny_qmix_pushes_def builder_of_def pushes)

lemma tiny_pushes_ok: "list_all push_ok tiny_f32_pushes" "list_all push_ok tiny_qmix_pushes"
  by (simp_all add: tiny_f32_pushes_def tiny_qmix_pushes_def f32_push_ok vector_push_ok q8_push_ok q4_push_ok string_ok_ascii)

lemma tiny_pushes_names: "distinct (map fst tiny_f32_pushes)" "distinct (map fst tiny_qmix_pushes)"
  by (simp_all add: tiny_f32_pushes_def tiny_qmix_pushes_def)

lemma push_fits:
  assumes "builder_of ps = (ts, data)" "list_all push_ok ps" "distinct (map fst ps)"
    and "list_all (\<lambda>p. length (fst p) \<le> 100 \<and> length (fst (snd p)) \<le> 2 \<and> length (snd (snd (snd p))) \<le> 1000000) ps"
    and "length ps \<le> 100"
  shows "length (written_header ts spec) + length data + 62 \<le> usize_max"
proof -
  have "sum_list (map (\<lambda>p. length (snd (snd (snd p)))) ps) \<le> 1000000 * length ps"
    using assms(4) by (induction ps) auto
  then have d: "length data \<le> 100000000" using length_builder [OF assms(1)] assms(5) by simp
  then have "length (written_header ts spec) \<le> 10000 + 200 * length ps"
    using assms by (intro header_size [OF assms(2,1,3)]) (auto simp: usize_max_def list_all_iff)
  then show ?thesis using d assms(5) by (simp add: usize_max_def)
qed

theorem written_model_parses_witness:
  "(\<exists>bytes d ts. tiny_f32_gguf = Ok bytes \<and>
    parse bytes = Ok \<lparr>g_version = 3, g_metadata = map_of (written_meta tiny_f32_spec), g_tensors = ts,
      g_data_offset = d, g_file_len = length bytes\<rparr> \<and> list_all2 (stored d bytes) tiny_f32_pushes ts) \<and>
   (\<exists>bytes d ts. tiny_qmix_gguf = Ok bytes \<and>
    parse bytes = Ok \<lparr>g_version = 3, g_metadata = map_of (written_meta tiny_qmix_spec), g_tensors = ts,
      g_data_offset = d, g_file_len = length bytes\<rparr> \<and> list_all2 (stored d bytes) tiny_qmix_pushes ts)"
proof (intro conjI)
  obtain ts data where b: "builder_of tiny_f32_pushes = (ts, data)" by fastforce
  have fit: "length (written_header ts tiny_f32_spec) + length data + 62 \<le> usize_max"
    by (rule push_fits [OF b tiny_pushes_ok(1) tiny_pushes_names(1)])
      (simp_all add: tiny_f32_pushes_def push_sizes, simp_all add: f32_push_def vector_push_def matrix_push_def)
  have "tiny_f32_gguf = encode_gguf ts data tiny_f32_spec" by (simp add: tiny_f32_gguf_def tiny_builders b)
  with written_model_parses [OF tiny_pushes_ok(1) tiny_pushes_names(1) b _ _ fit]
  show "\<exists>bytes d ts. tiny_f32_gguf = Ok bytes \<and>
    parse bytes = Ok \<lparr>g_version = 3, g_metadata = map_of (written_meta tiny_f32_spec), g_tensors = ts,
      g_data_offset = d, g_file_len = length bytes\<rparr> \<and> list_all2 (stored d bytes) tiny_f32_pushes ts"
    by (simp add: tiny_f32_spec_def tiny_f32_pushes_def usize_max_def) blast
next
  obtain ts data where b: "builder_of tiny_qmix_pushes = (ts, data)" by fastforce
  have fit: "length (written_header ts tiny_qmix_spec) + length data + 62 \<le> usize_max"
    by (rule push_fits [OF b tiny_pushes_ok(2) tiny_pushes_names(2)])
      (simp_all add: tiny_qmix_pushes_def push_sizes, simp_all add: q8_push_def q4_push_def vector_push_def matrix_push_def)
  have "tiny_qmix_gguf = encode_gguf ts data tiny_qmix_spec" by (simp add: tiny_qmix_gguf_def tiny_builders b)
  with written_model_parses [OF tiny_pushes_ok(2) tiny_pushes_names(2) b _ _ fit]
  show "\<exists>bytes d ts. tiny_qmix_gguf = Ok bytes \<and>
    parse bytes = Ok \<lparr>g_version = 3, g_metadata = map_of (written_meta tiny_qmix_spec), g_tensors = ts,
      g_data_offset = d, g_file_len = length bytes\<rparr> \<and> list_all2 (stored d bytes) tiny_qmix_pushes ts"
    by (simp add: tiny_qmix_spec_def tiny_qmix_pushes_def usize_max_def) blast
qed

end
