(* ===== verification/Logits_Compare.thy ===== *)
theory Logits_Compare
  imports Codec_Round_Trip "HOL-Library.Product_Lexorder"
begin

text \<open>
  The comparison of logits in \<open>src/xtask/src/main.rs\<close>: dumps of raw \<open>f32\<close> logits, the log-probability
  dumps of llama.cpp, and the metrics between two sequences of values. A file is its content; a report
  is the values that the code prints. Error messages are a datatype with the numbers they mention.
  Arithmetic on \<open>f64\<close> is the bit-level model of \<open>Float_Model\<close>.
\<close>

datatype compare_error =
    EmptyDump | DumpLength nat | NonFiniteValue nat
  | ValueCountMismatch nat nat | NoValues | ZeroNorm | RowSizeZero | NotDivisible nat nat
  | CosineBelow | RowCosineBelow nat | RowCountMismatch nat nat | WorstRowsNeedRowSize
  | DumpTooShort | MissingDumpMagic | TruncatedField nat | FieldNotPositive | FieldNegative | SmallContext
  | SizeOverflow | TruncatedTokens | InvalidRowLayout | NoEvaluatedRows | LayoutLength nat nat
  | TokenOutsideVocab nat nat nat | NonFiniteField nat | NegativeScale nat
  | EmptyLogitsRow | NonFiniteLogit | InvalidDenominator | LogitsRowOutOfRange | LogitsFailure model_error
  | MetadataType | BosMetadata gguf_error | DumpGguf gguf_error | DumpModel model_error | VocabMismatch nat nat
  | MaxAbsExceeded | MaxRmsExceeded | MaxTargetExceeded

section \<open>Double precision\<close>

definition f64_abs_value :: "f64 \<Rightarrow> f64" where "f64_abs_value x = x AND 0x7fffffffffffffff"
definition f64_max :: "f64 \<Rightarrow> f64 \<Rightarrow> f64" where
  "f64_max x y = (if f64_is_nan x then y else if f64_is_nan y then x else if f64_lt x y then y else x)"
definition f64_root :: "f64 \<Rightarrow> f64" where "f64_root x = word_of_int (fp_sqrt 52 11 (dec64 x))"

text \<open>\<open>total_cmp\<close> compares these integers.\<close>

definition total_key :: "f64 \<Rightarrow> int" where
  "total_key x = sint (if sint x < 0 then x XOR 0x7fffffffffffffff else x)"

section \<open>Raw dumps\<close>

definition parse_logits_dump :: "u8 list \<Rightarrow> (compare_error, f32 list) res" where
  "parse_logits_dump bytes =
    (if bytes = [] then Err EmptyDump
     else if length bytes mod 4 \<noteq> 0 then Err (DumpLength (length bytes))
     else traverse (\<lambda>(idx, chunk).
       let v = word_of_nat (from_le chunk) in if \<not> f32_is_finite v then Err (NonFiniteValue idx) else Ok v)
       (enumerate 0 (chunks_exact 4 bytes)))"

section \<open>Metrics\<close>

record logits_metrics =
  lm_values :: nat
  lm_cosine :: f64
  lm_max_abs_diff :: f64
  lm_rms_diff :: f64

record metric_sums =
  ms_dot :: f64
  ms_actual_norm :: f64
  ms_reference_norm :: f64
  ms_max_abs_diff :: f64
  ms_sum_sq_diff :: f64

definition abs_diff :: "f32 \<Rightarrow> f32 \<Rightarrow> f64" where
  "abs_diff a r = f64_abs_value (f64_sub (f64_of_f32 a) (f64_of_f32 r))"

definition metric_step :: "f32 \<times> f32 \<Rightarrow> metric_sums \<Rightarrow> metric_sums" where
  "metric_step = (\<lambda>(a, r) s.
    let diff = abs_diff a r; a = f64_of_f32 a; r = f64_of_f32 r in
    \<lparr>ms_dot = f64_add (ms_dot s) (f64_mul a r), ms_actual_norm = f64_add (ms_actual_norm s) (f64_mul a a),
     ms_reference_norm = f64_add (ms_reference_norm s) (f64_mul r r), ms_max_abs_diff = f64_max (ms_max_abs_diff s) diff,
     ms_sum_sq_diff = f64_add (ms_sum_sq_diff s) (f64_mul diff diff)\<rparr>)"

definition compare_logits_values :: "f32 list \<Rightarrow> f32 list \<Rightarrow> (compare_error, logits_metrics) res" where
  "compare_logits_values actual reference =
    (if length actual \<noteq> length reference then Err (ValueCountMismatch (length actual) (length reference))
     else if actual = [] then Err NoValues
     else
       let s = fold metric_step (zip actual reference)
         \<lparr>ms_dot = 0, ms_actual_norm = 0, ms_reference_norm = 0, ms_max_abs_diff = 0, ms_sum_sq_diff = 0\<rparr> in
       if f64_eq (ms_actual_norm s) 0 \<or> f64_eq (ms_reference_norm s) 0 then Err ZeroNorm
       else Ok \<lparr>lm_values = length actual,
         lm_cosine = f64_div (ms_dot s) (f64_mul (f64_root (ms_actual_norm s)) (f64_root (ms_reference_norm s))),
         lm_max_abs_diff = ms_max_abs_diff s,
         lm_rms_diff = f64_root (f64_div (ms_sum_sq_diff s) (f64_of_int (int (length actual))))\<rparr>)"

record row_metrics =
  rm_rows :: nat
  rm_row_size :: nat
  rm_min_row :: nat
  rm_min_cosine :: f64

definition paired_rows :: "nat \<Rightarrow> f32 list \<Rightarrow> f32 list \<Rightarrow> (nat \<times> f32 list \<times> f32 list) list" where
  "paired_rows row_size actual reference =
    enumerate 0 (zip (chunks_exact row_size actual) (chunks_exact row_size reference))"

definition compare_logits_rows :: "f32 list \<Rightarrow> f32 list \<Rightarrow> nat \<Rightarrow> (compare_error, row_metrics) res" where
  "compare_logits_rows actual reference row_size =
    (if row_size = 0 then Err RowSizeZero
     else if length actual \<noteq> length reference then Err (ValueCountMismatch (length actual) (length reference))
     else if actual = [] \<or> length actual mod row_size \<noteq> 0 then Err (NotDivisible (length actual) row_size)
     else rbind (rfold (\<lambda>(row_idx, actual_row, reference_row) (min_row, min_cosine).
         rbind (compare_logits_values actual_row reference_row) (\<lambda>row.
         Ok (if f64_lt (lm_cosine row) min_cosine then (row_idx, lm_cosine row) else (min_row, min_cosine))))
       (paired_rows row_size actual reference) (0, 0x7ff0000000000000)) (\<lambda>(min_row, min_cosine).
     Ok \<lparr>rm_rows = length actual div row_size, rm_row_size = row_size, rm_min_row = min_row, rm_min_cosine = min_cosine\<rparr>))"

record worst_row =
  wr_row :: nat
  wr_metrics :: logits_metrics

definition worst_order :: "worst_row \<Rightarrow> int \<times> int \<times> nat" where
  "worst_order r = (total_key (lm_cosine (wr_metrics r)), - total_key (lm_max_abs_diff (wr_metrics r)), wr_row r)"

definition worst_logits_rows :: "f32 list \<Rightarrow> f32 list \<Rightarrow> nat \<Rightarrow> nat \<Rightarrow> (compare_error, worst_row list) res" where
  "worst_logits_rows actual reference row_size limit =
    (if limit = 0 then Ok []
     else if length actual \<noteq> length reference then Err (ValueCountMismatch (length actual) (length reference))
     else if actual \<noteq> [] \<and> row_size = 0 then Panic
     else if actual = [] \<or> length actual mod row_size \<noteq> 0 then Err (NotDivisible (length actual) row_size)
     else rbind (traverse (\<lambda>(row, actual_row, reference_row). rbind (compare_logits_values actual_row reference_row) (\<lambda>metrics.
         Ok \<lparr>wr_row = row, wr_metrics = metrics\<rparr>)) (paired_rows row_size actual reference)) (\<lambda>rs.
     let rs = sort_key worst_order rs in Ok (take (min limit (length rs)) rs)))"

record top_diff =
  td_rank :: nat
  td_index :: nat
  td_row :: "nat option"
  td_col :: "nat option"
  td_actual :: f32
  td_reference :: f32
  td_abs_diff :: f64

definition top_order :: "top_diff \<Rightarrow> int \<times> nat" where
  "top_order d = (- total_key (td_abs_diff d), td_index d)"

definition diff_at :: "nat option \<Rightarrow> nat \<times> f32 \<times> f32 \<Rightarrow> top_diff" where
  "diff_at row_size = (\<lambda>(index, actual, reference).
    \<lparr>td_rank = 0, td_index = index, td_row = map_option (\<lambda>n. index div n) row_size,
     td_col = map_option (\<lambda>n. index mod n) row_size, td_actual = actual, td_reference = reference,
     td_abs_diff = abs_diff actual reference\<rparr>)"

text \<open>Push, sort, truncate, for every value.\<close>

definition top_push :: "nat \<Rightarrow> top_diff \<Rightarrow> top_diff list \<Rightarrow> top_diff list" where
  "top_push limit d tops = take limit (sort_key top_order (tops @ [d]))"

definition rank_diffs :: "top_diff list \<Rightarrow> top_diff list" where
  "rank_diffs tops = map (\<lambda>(idx, d). d\<lparr>td_rank := idx + 1\<rparr>) (enumerate 0 tops)"

definition top_logits_diffs :: "f32 list \<Rightarrow> f32 list \<Rightarrow> nat option \<Rightarrow> nat \<Rightarrow> (compare_error, top_diff list) res" where
  "top_logits_diffs actual reference row_size limit =
    (if limit = 0 then Ok []
     else if length actual \<noteq> length reference then Err (ValueCountMismatch (length actual) (length reference))
     else if actual = [] then Err NoValues
     else if (case row_size of None \<Rightarrow> False | Some n \<Rightarrow> n = 0 \<or> length actual mod n \<noteq> 0)
       then Err (NotDivisible (length actual) (the row_size))
     else Ok (rank_diffs (fold (top_push limit) (map (diff_at row_size) (enumerate 0 (zip actual reference))) [])))"

definition validate_expected_rows :: "row_metrics \<Rightarrow> nat option \<Rightarrow> (compare_error, unit) res" where
  "validate_expected_rows row_metrics expected_rows =
    (case expected_rows of Some n \<Rightarrow> if rm_rows row_metrics \<noteq> n then Err (RowCountMismatch (rm_rows row_metrics) n) else Ok ()
     | None \<Rightarrow> Ok ())"

record compare_opts =
  co_min_cosine :: "f64 option"
  co_row_size :: "nat option"
  co_rows :: "nat option"
  co_worst_rows :: nat
  co_top_diffs :: nat

record compare_report =
  cr_metrics :: logits_metrics
  cr_rows :: "row_metrics option"
  cr_worst :: "worst_row list"
  cr_top :: "top_diff list"

definition below :: "f64 option \<Rightarrow> f64 \<Rightarrow> bool" where
  "below threshold v = (case threshold of None \<Rightarrow> False | Some t \<Rightarrow> f64_lt v t)"

definition compare_logits :: "compare_opts \<Rightarrow> u8 list \<Rightarrow> u8 list \<Rightarrow> (compare_error, compare_report) res" where
  "compare_logits opts actual_bytes reference_bytes =
    rbind (parse_logits_dump actual_bytes) (\<lambda>actual.
    rbind (parse_logits_dump reference_bytes) (\<lambda>reference.
    rbind (compare_logits_values actual reference) (\<lambda>metrics.
    rbind (case co_row_size opts of Some row_size \<Rightarrow> rbind (compare_logits_rows actual reference row_size) (\<lambda>r. Ok (Some r))
      | None \<Rightarrow> Ok None) (\<lambda>row_metrics.
    rbind (if below (co_min_cosine opts) (lm_cosine metrics) then Err CosineBelow else Ok ()) (\<lambda>_.
    rbind (case row_metrics of None \<Rightarrow> Ok ()
      | Some r \<Rightarrow> if below (co_min_cosine opts) (rm_min_cosine r) then Err (RowCosineBelow (rm_min_row r)) else Ok ()) (\<lambda>_.
    rbind (case row_metrics of
        Some r \<Rightarrow> rbind (validate_expected_rows r (co_rows opts)) (\<lambda>_.
          if 0 < co_worst_rows opts then worst_logits_rows actual reference (rm_row_size r) (co_worst_rows opts) else Ok [])
      | None \<Rightarrow> if 0 < co_worst_rows opts then Err WorstRowsNeedRowSize else Ok []) (\<lambda>worst.
    rbind (if 0 < co_top_diffs opts then top_logits_diffs actual reference (co_row_size opts) (co_top_diffs opts) else Ok []) (\<lambda>tops.
    Ok \<lparr>cr_metrics = metrics, cr_rows = row_metrics, cr_worst = worst, cr_top = tops\<rparr>))))))))"

section \<open>Log-probability dumps of llama.cpp\<close>

record log_prob_row =
  lp_chunk :: nat
  lp_position :: nat
  lp_target_token :: nat
  lp_log_probs :: "f32 list"

record log_prob_dump =
  ld_n_ctx :: nat
  ld_n_vocab :: nat
  ld_n_chunks :: nat
  ld_tokens :: "nat list"
  ld_rows :: "log_prob_row list"

text \<open>\<open>bytes.get(offset..offset + n)\<close> read as a little-endian number.\<close>

definition read_le_at :: "u8 list \<Rightarrow> nat \<Rightarrow> nat \<Rightarrow> (compare_error, nat) res" where
  "read_le_at bytes offset n =
    (if offset + n \<le> length bytes then Ok (from_le (take n (drop offset bytes))) else Err (TruncatedField offset))"

definition read_u16_le :: "u8 list \<Rightarrow> nat \<Rightarrow> (compare_error, u16) res" where
  "read_u16_le bytes offset = rbind (read_le_at bytes offset 2) (\<lambda>v. Ok (word_of_nat v))"
definition read_u32_le :: "u8 list \<Rightarrow> nat \<Rightarrow> (compare_error, u32) res" where
  "read_u32_le bytes offset = rbind (read_le_at bytes offset 4) (\<lambda>v. Ok (word_of_nat v))"
definition read_i32_le :: "u8 list \<Rightarrow> nat \<Rightarrow> (compare_error, i32) res" where
  "read_i32_le bytes offset = rbind (read_le_at bytes offset 4) (\<lambda>v. Ok (word_of_nat v))"
definition read_i32_le_positive :: "u8 list \<Rightarrow> nat \<Rightarrow> (compare_error, i32) res" where
  "read_i32_le_positive bytes offset = rbind (read_i32_le bytes offset) (\<lambda>v. if sint v \<le> 0 then Err FieldNotPositive else Ok v)"
definition read_i32_le_non_negative :: "u8 list \<Rightarrow> nat \<Rightarrow> (compare_error, i32) res" where
  "read_i32_le_non_negative bytes offset = rbind (read_i32_le bytes offset) (\<lambda>v. if sint v < 0 then Err FieldNegative else Ok v)"
definition read_f32_le :: "u8 list \<Rightarrow> nat \<Rightarrow> (compare_error, f32) res" where
  "read_f32_le bytes offset = rbind (read_le_at bytes offset 4) (\<lambda>v.
    if \<not> f32_is_finite (word_of_nat v) then Err (NonFiniteField offset) else Ok (word_of_nat v))"

definition dump_magic :: "u8 list" where
  "dump_magic = [0x5f, 0x6c, 0x6f, 0x67, 0x69, 0x74, 0x73, 0x5f]"

record dump_layout =
  dl_n_ctx :: nat
  dl_n_vocab :: nat
  dl_n_chunks :: nat
  dl_rows_start :: nat
  dl_first :: nat
  dl_rows_per_chunk :: nat
  dl_row_bytes :: nat

definition dump_header :: "u8 list \<Rightarrow> (compare_error, dump_layout) res" where
  "dump_header bytes =
    (if length bytes < 20 then Err DumpTooShort
     else if take 8 bytes \<noteq> dump_magic then Err MissingDumpMagic
     else
       rbind (read_u32_le bytes 8) (\<lambda>n_ctx. let n_ctx = unat n_ctx in
       rbind (read_i32_le_positive bytes 12) (\<lambda>n_vocab. let n_vocab = nat (sint n_vocab) in
       rbind (read_i32_le_positive bytes 16) (\<lambda>n_chunks. let n_chunks = nat (sint n_chunks) in
       if n_ctx < 2 then Err SmallContext
       else
         rbind (ok_or SizeOverflow (checked_mul_usize n_ctx n_chunks)) (\<lambda>token_count.
         rbind (ok_or SizeOverflow (checked_mul_usize token_count 4)) (\<lambda>token_bytes.
         rbind (ok_or SizeOverflow (checked_add_usize 20 token_bytes)) (\<lambda>rows_start.
         if length bytes < rows_start then Err TruncatedTokens
         else
           let first = n_ctx div 2 in
           rbind (if n_ctx < 1 + first then Err InvalidRowLayout else Ok (n_ctx - (1 + first))) (\<lambda>rows_per_chunk.
           if rows_per_chunk = 0 then Err NoEvaluatedRows
           else
             rbind (ok_or SizeOverflow (checked_mul_usize 2 ((n_vocab + 1) div 2))) (\<lambda>v.
             rbind (ok_or SizeOverflow (checked_add_usize v 4)) (\<lambda>nv_u16.
             rbind (ok_or SizeOverflow (checked_mul_usize nv_u16 2)) (\<lambda>row_bytes.
             rbind (ok_or SizeOverflow (checked_mul_usize rows_per_chunk n_chunks)) (\<lambda>row_count.
             rbind (ok_or SizeOverflow (checked_mul_usize row_count row_bytes)) (\<lambda>row_data.
             rbind (ok_or SizeOverflow (checked_add_usize rows_start row_data)) (\<lambda>expected_len.
             if length bytes \<noteq> expected_len then Err (LayoutLength (length bytes) expected_len)
             else Ok \<lparr>dl_n_ctx = n_ctx, dl_n_vocab = n_vocab, dl_n_chunks = n_chunks, dl_rows_start = rows_start,
               dl_first = first, dl_rows_per_chunk = rows_per_chunk, dl_row_bytes = row_bytes\<rparr>))))))))))))))"

definition dump_token :: "u8 list \<Rightarrow> nat \<Rightarrow> nat \<Rightarrow> (compare_error, nat) res" where
  "dump_token bytes n_vocab idx =
    rbind (read_i32_le_non_negative bytes (20 + idx * 4)) (\<lambda>token. let token = nat (sint token) in
    if n_vocab \<le> token then Err (TokenOutsideVocab token idx n_vocab) else Ok token)"

definition dump_row :: "u8 list \<Rightarrow> dump_layout \<Rightarrow> nat list \<Rightarrow> nat \<Rightarrow> nat \<Rightarrow> nat \<times> log_prob_row list \<Rightarrow>
    (compare_error, nat \<times> log_prob_row list) res" where
  "dump_row bytes l tokens chunk row_idx = (\<lambda>(offset, rs).
    let position = dl_first l + row_idx in
    rbind (index_at tokens (chunk * dl_n_ctx l + position + 1)) (\<lambda>target_token.
    rbind (read_f32_le bytes offset) (\<lambda>scale.
    rbind (read_f32_le bytes (offset + 4)) (\<lambda>min_log_prob.
    if f32_lt scale 0 then Err (NegativeScale (length rs))
    else
      rbind (traverse (\<lambda>vocab_idx. rbind (read_u16_le bytes (offset + 8 + vocab_idx * 2)) (\<lambda>q.
        Ok (f32_add min_log_prob (f32_mul scale (f32_of_int (int (unat q))))))) [0..<dl_n_vocab l]) (\<lambda>log_probs.
      Ok (offset + dl_row_bytes l,
        rs @ [\<lparr>lp_chunk = chunk, lp_position = position, lp_target_token = target_token, lp_log_probs = log_probs\<rparr>]))))))"

definition parse_llamacpp_logprob_dump :: "u8 list \<Rightarrow> (compare_error, log_prob_dump) res" where
  "parse_llamacpp_logprob_dump bytes =
    rbind (dump_header bytes) (\<lambda>l.
    rbind (traverse (dump_token bytes (dl_n_vocab l)) [0..<dl_n_ctx l * dl_n_chunks l]) (\<lambda>tokens.
    rbind (rfold (\<lambda>chunk s. rfold (dump_row bytes l tokens chunk) [0..<dl_rows_per_chunk l] s)
      [0..<dl_n_chunks l] (dl_rows_start l, [])) (\<lambda>(_, rs).
    Ok \<lparr>ld_n_ctx = dl_n_ctx l, ld_n_vocab = dl_n_vocab l, ld_n_chunks = dl_n_chunks l, ld_tokens = tokens, ld_rows = rs\<rparr>)))"

section \<open>Comparison with the model\<close>

record bos_policy =
  add_bos :: bool
  bos_token :: nat

definition optional_metadata_bool :: "gguf \<Rightarrow> str \<Rightarrow> (compare_error, bool option) res" where
  "optional_metadata_bool g key =
    (case metadata_at g key of
       Ok (MBool v) \<Rightarrow> Ok (Some v)
     | Ok _ \<Rightarrow> Err MetadataType
     | Err MetadataNotFound \<Rightarrow> Ok None
     | Err e \<Rightarrow> Err (BosMetadata e)
     | Panic \<Rightarrow> Panic | Diverge \<Rightarrow> Diverge)"

definition llama_cpp_bos_policy :: "gguf \<Rightarrow> (compare_error, bos_policy) res" where
  "llama_cpp_bos_policy g =
    (let tokenizer_model = (case metadata_str g (ascii ''tokenizer.ggml.model'') of Ok s \<Rightarrow> s | _ \<Rightarrow> []) in
     rbind (optional_metadata_bool g (ascii ''tokenizer.ggml.add_bos_token'')) (\<lambda>flag.
     let add = (case flag of Some v \<Rightarrow> v | None \<Rightarrow> tokenizer_model = ascii ''llama'') in
     case metadata_u32 g (ascii ''tokenizer.ggml.bos_token_id'') of
       Ok v \<Rightarrow> Ok \<lparr>add_bos = add, bos_token = unat v\<rparr>
     | Err MetadataNotFound \<Rightarrow> Ok \<lparr>add_bos = add, bos_token = 1\<rparr>
     | Err e \<Rightarrow> Err (BosMetadata e)
     | Panic \<Rightarrow> Panic | Diverge \<Rightarrow> Diverge))"

definition logits_to_log_probs :: "f32 list \<Rightarrow> (compare_error, f32 list) res" where
  "logits_to_log_probs logits =
    (if logits = [] then Err EmptyLogitsRow
     else rbind (rfold (\<lambda>logit m. if \<not> f32_is_finite logit then Err NonFiniteLogit else Ok (f64_max m (f64_of_f32 logit)))
         logits 0xfff0000000000000) (\<lambda>max_logit.
       let sum_exp = fold (\<lambda>logit s. f64_add s (exp_f64 (f64_sub (f64_of_f32 logit) max_logit))) logits 0 in
       if f64_eq sum_exp 0 \<or> \<not> f64_is_finite sum_exp then Err InvalidDenominator
       else let log_sum_exp = ln_f64 sum_exp in
         Ok (map (\<lambda>logit. f32_of_f64 (f64_sub (f64_sub (f64_of_f32 logit) max_logit) log_sum_exp)) logits)))"

record log_prob_sums =
  ls_values :: nat
  ls_max_abs_diff :: f64
  ls_max_target_abs_diff :: f64
  ls_sum_sq_diff :: f64

record log_prob_metrics =
  pm_rows :: nat
  pm_values :: nat
  pm_max_abs_diff :: f64
  pm_rms_diff :: f64
  pm_max_target_abs_diff :: f64

definition compare_row :: "nat \<Rightarrow> f32 list \<Rightarrow> log_prob_row \<Rightarrow> log_prob_sums \<Rightarrow> (compare_error, log_prob_sums) res" where
  "compare_row n_vocab logits row s =
    rbind (ok_or SizeOverflow (checked_mul_usize (lp_position row) n_vocab)) (\<lambda>row_start.
    rbind (ok_or SizeOverflow (checked_add_usize row_start n_vocab)) (\<lambda>row_end.
    rbind (if row_end \<le> length logits then Ok (slice logits row_start row_end) else Err LogitsRowOutOfRange) (\<lambda>logits_row.
    rbind (logits_to_log_probs logits_row) (\<lambda>actual.
    rbind (index_at actual (lp_target_token row)) (\<lambda>a.
    rbind (index_at (lp_log_probs row) (lp_target_token row)) (\<lambda>r.
    let s = s\<lparr>ls_max_target_abs_diff := f64_max (ls_max_target_abs_diff s) (abs_diff a r)\<rparr> in
    Ok (fold (\<lambda>(a, r) s. let diff = abs_diff a r in
      s\<lparr>ls_max_abs_diff := f64_max (ls_max_abs_diff s) diff, ls_sum_sq_diff := f64_add (ls_sum_sq_diff s) (f64_mul diff diff),
        ls_values := ls_values s + 1\<rparr>) (zip actual (lp_log_probs row)) s)))))))"

definition compare_chunk :: "llama \<Rightarrow> log_prob_dump \<Rightarrow> bos_policy \<Rightarrow> nat \<Rightarrow> log_prob_sums \<Rightarrow> (compare_error, log_prob_sums) res" where
  "compare_chunk m reference policy chunk s =
    (let token_start = chunk * ld_n_ctx reference in
     rbind (slice_at (ld_tokens reference) token_start (token_start + ld_n_ctx reference)) (\<lambda>chunk_tokens.
     rbind (if add_bos policy then if chunk_tokens = [] then Panic else Ok (chunk_tokens[0 := bos_token policy]) else Ok chunk_tokens)
       (\<lambda>chunk_tokens.
     rbind (map_err LogitsFailure (logits_bytes_for_tokens_chunked m chunk_tokens (ld_n_ctx reference))) (\<lambda>bytes.
     rbind (parse_logits_dump bytes) (\<lambda>logits.
     rfold (compare_row (ld_n_vocab reference) logits) (filter (\<lambda>row. lp_chunk row = chunk) (ld_rows reference)) s)))))"

definition compare_llamacpp_logprob_values :: "llama \<Rightarrow> log_prob_dump \<Rightarrow> bos_policy \<Rightarrow> (compare_error, log_prob_metrics) res" where
  "compare_llamacpp_logprob_values m reference policy =
    rbind (rfold (compare_chunk m reference policy) [0..<ld_n_chunks reference]
      \<lparr>ls_values = 0, ls_max_abs_diff = 0, ls_max_target_abs_diff = 0, ls_sum_sq_diff = 0\<rparr>) (\<lambda>s.
    if ls_values s = 0 then Err NoValues
    else Ok \<lparr>pm_rows = length (ld_rows reference), pm_values = ls_values s, pm_max_abs_diff = ls_max_abs_diff s,
      pm_rms_diff = f64_root (f64_div (ls_sum_sq_diff s) (f64_of_int (int (ls_values s)))),
      pm_max_target_abs_diff = ls_max_target_abs_diff s\<rparr>)"

record log_prob_opts =
  lo_max_abs_diff :: "f64 option"
  lo_max_rms_diff :: "f64 option"
  lo_max_target_abs_diff :: "f64 option"

definition above :: "f64 option \<Rightarrow> f64 \<Rightarrow> bool" where
  "above threshold v = (case threshold of None \<Rightarrow> False | Some t \<Rightarrow> f64_lt t v)"

definition compare_llamacpp_logprobs :: "log_prob_opts \<Rightarrow> u8 list \<Rightarrow> u8 list \<Rightarrow> (compare_error, log_prob_metrics) res" where
  "compare_llamacpp_logprobs opts model_bytes reference_bytes =
    rbind (map_err DumpGguf (parse model_bytes)) (\<lambda>g.
    rbind (map_err DumpModel (llama_from_gguf g model_bytes)) (\<lambda>m.
    rbind (parse_llamacpp_logprob_dump reference_bytes) (\<lambda>reference.
    if ld_n_vocab reference \<noteq> rows (ll_output m) then Err (VocabMismatch (ld_n_vocab reference) (rows (ll_output m)))
    else
      rbind (llama_cpp_bos_policy g) (\<lambda>policy.
      rbind (compare_llamacpp_logprob_values m reference policy) (\<lambda>metrics.
      if above (lo_max_abs_diff opts) (pm_max_abs_diff metrics) then Err MaxAbsExceeded
      else if above (lo_max_rms_diff opts) (pm_rms_diff metrics) then Err MaxRmsExceeded
      else if above (lo_max_target_abs_diff opts) (pm_max_target_abs_diff metrics) then Err MaxTargetExceeded
      else Ok metrics)))))"

section \<open>Raw dumps hold exactly the finite values\<close>

lemma chunks_exact_Cons4: "chunks_exact 4 (a # b # c # d # bs) = [a, b, c, d] # chunks_exact 4 bs"
  by (subst chunks_exact.simps) (simp add: numeral_eq_Suc)

lemma logit_bytes_four: "\<exists>a b c d. logit_bytes v = [a, b, c, d]"
proof -
  have "length (logit_bytes v) = Suc (Suc (Suc (Suc 0)))" by (simp add: logit_bytes_def)
  then show ?thesis by (auto simp: length_Suc_conv)
qed

lemma word_logit_bytes: "word_of_nat (from_le (logit_bytes v)) = v"
  unfolding logit_bytes_def by (rule word_from_le_bytes) simp

lemma logit_bytes_word: "length c = 4 \<Longrightarrow> logit_bytes (word_of_nat (from_le c)) = c"
  using from_le_less [of c] le_bytes_from_le [of c] by (simp add: logit_bytes_def unsigned_of_nat take_bit_nat_eq_self del: le_bytes.simps)

lemma chunks_of_logits: "chunks_exact 4 (concat (map logit_bytes vs)) = map logit_bytes vs"
proof (induction vs)
  case Nil
  then show ?case by (simp add: chunks_exact.simps)
next
  case (Cons v vs)
  obtain a b c d where "logit_bytes v = [a, b, c, d]" using logit_bytes_four by blast
  then show ?case using Cons by (simp add: chunks_exact_Cons4)
qed

lemma concat_chunks_exact: "length bs = 4 * k \<Longrightarrow> concat (chunks_exact 4 bs) = bs"
proof (induction k arbitrary: bs)
  case (Suc k)
  then have "length bs = Suc (Suc (Suc (Suc (4 * k))))" by simp
  then obtain a b c d cs where "bs = a # b # c # d # cs" "length cs = 4 * k" by (auto simp: length_Suc_conv)
  then show ?case using Suc.IH by (simp add: chunks_exact_Cons4)
qed (simp add: chunks_exact.simps)

lemma traverse_indexed:
  "traverse (\<lambda>(idx, c). let v = word_of_nat (from_le c) in if \<not> f32_is_finite v then Err (NonFiniteValue idx) else Ok v) (enumerate k cs) = Ok vs \<longleftrightarrow>
    vs = map (\<lambda>c. word_of_nat (from_le c)) cs \<and> list_all f32_is_finite vs"
proof (induction cs arbitrary: k vs)
  case (Cons c cs)
  show ?case using Cons.IH [of "Suc k"] by (cases vs) (auto simp: Let_def)
qed auto

lemma parse_dump_iff:
  "parse_logits_dump bytes = Ok vs \<longleftrightarrow> vs \<noteq> [] \<and> list_all f32_is_finite vs \<and> bytes = concat (map logit_bytes vs)"
proof
  assume ok: "parse_logits_dump bytes = Ok vs"
  then have ne: "bytes \<noteq> []" and m: "length bytes mod 4 = 0"
    and vs: "vs = map (\<lambda>c. word_of_nat (from_le c)) (chunks_exact 4 bytes)" "list_all f32_is_finite vs"
    by (auto simp: parse_logits_dump_def traverse_indexed split: if_splits)
  obtain k where k: "length bytes = 4 * k" using m by auto
  have "map logit_bytes vs = chunks_exact 4 bytes"
    using chunks_exact_props(2) [of 4 bytes] m by (simp add: vs(1) logit_bytes_word map_idI)
  then have "bytes = concat (map logit_bytes vs)" using concat_chunks_exact [OF k] by simp
  then show "vs \<noteq> [] \<and> list_all f32_is_finite vs \<and> bytes = concat (map logit_bytes vs)" using ne vs(2) by auto
next
  assume r: "vs \<noteq> [] \<and> list_all f32_is_finite vs \<and> bytes = concat (map logit_bytes vs)"
  have "length (concat (map logit_bytes us)) = 4 * length us" for us
    by (induction us) (simp_all add: logit_bytes_def del: le_bytes.simps)
  moreover have "logit_bytes v \<noteq> []" for v using logit_bytes_four [of v] by auto
  ultimately have "length bytes mod 4 = 0" "bytes \<noteq> []" using r by (auto simp: neq_Nil_conv)
  moreover have "map (\<lambda>c. word_of_nat (from_le c)) (map logit_bytes vs) = vs" by (simp add: word_logit_bytes comp_def)
  ultimately show "parse_logits_dump bytes = Ok vs"
    using r by (simp add: parse_logits_dump_def traverse_indexed chunks_of_logits)
qed

section \<open>The running selection keeps the largest differences\<close>

fun sorted_after :: "('a \<Rightarrow> 'k::linorder) \<Rightarrow> 'a \<Rightarrow> 'a list \<Rightarrow> 'a list" where
  "sorted_after f d [] = [d]"
| "sorted_after f d (y # ys) = (if f y \<le> f d then y # sorted_after f d ys else d # y # ys)"

lemma insort_sorted_after: "insort_key f x (sorted_after f d ys) = sorted_after f d (insort_key f x ys)"
  by (induction ys) (auto dest: order_trans less_le_trans)

lemma sort_snoc: "sort_key f (xs @ [d]) = sorted_after f d (sort_key f xs)"
  by (induction xs) (simp_all add: insort_sorted_after)

lemma take_sorted_after: "take k (sorted_after f d (take k ys)) = take k (sorted_after f d ys)"
  by (induction ys arbitrary: k) (auto simp: take_Cons split: nat.splits)

lemma top_push_step: "top_push k d (take k (sort_key top_order ds)) = take k (sort_key top_order (ds @ [d]))"
proof -
  have "sorted (map top_order (take k (sort_key top_order ds)))" by (simp add: take_map [symmetric] sorted_wrt_take)
  then have "sort_key top_order (take k (sort_key top_order ds)) = take k (sort_key top_order ds)" by (rule sort_key_id_if_sorted)
  then show ?thesis by (simp add: top_push_def sort_snoc take_sorted_after)
qed

lemma top_push_fold: "fold (top_push k) es (take k (sort_key top_order ds)) = take k (sort_key top_order (ds @ es))"
proof (induction es arbitrary: ds)
  case (Cons e es)
  show ?case using Cons.IH [of "ds @ [e]"] by (simp add: top_push_step)
qed simp

lemma top_diffs_sorted:
  assumes "length actual = length reference" "actual \<noteq> []" "limit \<noteq> 0"
    and "\<forall>n. row_size = Some n \<longrightarrow> n \<noteq> 0 \<and> length actual mod n = 0"
  shows "top_logits_diffs actual reference row_size limit =
    Ok (rank_diffs (take limit (sort_key top_order (map (diff_at row_size) (enumerate 0 (zip actual reference))))))"
  using assms top_push_fold [of limit _ "[]"] by (auto simp: top_logits_diffs_def split: option.splits)

section \<open>The dump that the model writes is read back\<close>

definition dump_of :: "nat \<Rightarrow> u8 list \<Rightarrow> bool" where
  "dump_of n bytes \<longleftrightarrow> (\<exists>vs. bytes = concat (map logit_bytes vs) \<and> length vs = n \<and> list_all f32_is_finite vs)"

lemma append_logits: "fold (\<lambda>logit bytes. bytes @ logit_bytes logit) ls bytes = bytes @ concat (map logit_bytes ls)"
  by (induction ls arbitrary: bytes) simp_all

lemma dump_of_append: "dump_of n bytes \<Longrightarrow> fvec k ls \<Longrightarrow> dump_of (k + n) (bytes @ concat (map logit_bytes ls))"
  unfolding dump_of_def fvec_def
proof (elim exE conjE)
  fix vs assume "bytes = concat (map logit_bytes vs)" "length vs = n" "list_all f32_is_finite vs" "length ls = k" "list_all f32_is_finite ls"
  then show "\<exists>us. bytes @ concat (map logit_bytes ls) = concat (map logit_bytes us) \<and> length us = k + n \<and> list_all f32_is_finite us"
    by (intro exI [of _ "vs @ ls"]) simp
qed

lemma visited_dump:
  assumes run: "run_ok m dh mc rope" and buffers: "buffers_ok (ll_config m) dh mc ws"
  shows "list_all (\<lambda>t. t < rows (token_embedding m)) tokens \<Longrightarrow> pos + length tokens \<le> mc \<Longrightarrow>
    cache_ok (ll_config m) dh cache \<Longrightarrow> dump_of (pos * rows (ll_output m)) bytes \<Longrightarrow>
    yields (\<lambda>(_, _, bytes). dump_of ((pos + length tokens) * rows (ll_output m)) bytes)
      (rfold (visit_ref m rope dh (\<lambda>logits bytes. fold (\<lambda>logit bytes. bytes @ logit_bytes logit) logits bytes)) tokens (pos, cache, bytes))"
proof (induction tokens arbitrary: pos cache bytes)
  case (Cons t ts)
  have t: "t < rows (token_embedding m)" "pos < mc" using Cons.prems by simp_all
  note checks = run_checks(1) [OF run t(2,1) Cons.prems(3) buffers]
  have wf: "llama_wf m" using run by (simp add: run_ok_def)
  show ?case unfolding rfold.simps visit_ref_def prod.case rbind_assoc
  proof (rule yields_bind [OF forward_ref_yields [OF checks wf Cons.prems(3)]], clarsimp, goal_cases)
    case (1 c l)
    have "dump_of (rows (ll_output m) + pos * rows (ll_output m)) (bytes @ concat (map logit_bytes l))"
      using Cons.prems(4) 1(2) by (rule dump_of_append)
    then show ?case
      using Cons.IH [of "Suc pos" c "bytes @ concat (map logit_bytes l)"] Cons.prems 1
      by (simp add: append_logits visit_ref_def)
  qed
qed simp

lemma written_dump:
  assumes wf: "llama_wf m" and ok: "logits_bytes_for_tokens_chunked m tokens chunk_size = Ok bytes"
  shows "dump_of (length tokens * rows (ll_output m)) bytes \<and> tokens \<noteq> [] \<and> rows (ll_output m) \<noteq> 0"
proof -
  let ?v = "\<lambda>logits bytes. fold (\<lambda>logit bytes. bytes @ logit_bytes logit) logits bytes"
  obtain rope cache ws s where req: "validate_logits_request m tokens chunk_size = Ok ()"
    and pre: "rope_llama (ll_config m) (length tokens) = Ok rope" "kv_new (ll_config m) = Ok cache"
      "forward_workspace m (length tokens) = Ok ws"
    and loop: "rfold (\<lambda>chunk s. rfold (visit_token m rope ?v) chunk s) (chunks chunk_size tokens)
        (0, cache, replicate (rows (ll_output m)) 0, ws, []) = Ok s" and bytes: "bytes = snd (snd (snd (snd s)))"
    using ok by (auto simp: logits_bytes_for_tokens_chunked_def visit_logits_for_tokens_chunked_def)
  have tokens: "list_all (\<lambda>t. t < rows (token_embedding m)) tokens" and cs: "chunk_size \<noteq> 0" "tokens \<noteq> []"
    using req by (auto simp: validate_logits_request_def list_all_iff list_ex_iff split: if_splits)
  obtain dh where dh: "head_dim (ll_config m) = Ok dh" using rope_llama_facts(5) [OF pre(1)] by blast
  note run = run_prepared [OF pre(1,3) wf dh]
  have cache: "cache_ok (ll_config m) dh cache" by (rule kv_new_cache_ok [OF pre(2) dh])
  have "dump_of 0 []" by (simp add: dump_of_def)
  then have ref: "yields (\<lambda>(_, _, bytes). dump_of (length tokens * rows (ll_output m)) bytes)
      (rfold (visit_ref m rope dh ?v) tokens (0, cache, []))"
    using visited_dump [OF run tokens _ cache, of 0 "[]"] by simp
  have "rel_res (\<lambda>(p, c, _, _, a) (p', c', a'). p = p' \<and> c = c' \<and> a = a') (Ok s) (rfold (visit_ref m rope dh ?v) tokens (0, cache, []))"
    using visit_run [OF run(1) tokens _ cache run(2), of 0 "replicate (rows (ll_output m)) 0" ?v "[]"] loop
    by (simp add: rfold_chunks [OF cs(1)])
  then have "dump_of (length tokens * rows (ll_output m)) bytes"
    using ref by (cases "rfold (visit_ref m rope dh ?v) tokens (0, cache, [])") (auto simp: bytes)
  then show ?thesis using cs run(1) by (simp add: run_ok_def)
qed

text \<open>C36: The comparison reads every dump that the model writes: for a well-formed model, the bytes of
  the logits of any token sequence are parsed without error, to one finite value per vocabulary entry
  and token, and writing these values gives the bytes again.\<close>

theorem model_dump_reads_back:
  assumes "llama_wf m" "logits_bytes_for_tokens_chunked m tokens chunk_size = Ok bytes"
  shows "\<exists>vs. parse_logits_dump bytes = Ok vs \<and> length vs = length tokens * rows (ll_output m) \<and>
    list_all f32_is_finite vs \<and> concat (map logit_bytes vs) = bytes"
proof -
  obtain vs where vs: "bytes = concat (map logit_bytes vs)" "length vs = length tokens * rows (ll_output m)" "list_all f32_is_finite vs"
    and ne: "tokens \<noteq> []" "rows (ll_output m) \<noteq> 0" using written_dump [OF assms] by (auto simp: dump_of_def)
  have "vs \<noteq> []" using vs(2) ne by auto
  then have "parse_logits_dump bytes = Ok vs" using vs by (simp only: parse_dump_iff simp_thms)
  then show ?thesis using vs by blast
qed

lemma small_dump: "logits_bytes_for_tokens_chunked small_llama [0] 1 = Ok [0, 0, 0, 0]"
proof -
  obtain ws where ws: "forward_workspace small_llama 1 = Ok ws" using small_workspace by blast
  obtain ws' where step: "forward_one_with_workspace small_llama 0 0 small_rope small_cache [0] ws = Ok (small_cache, [0], ws')"
    using small_advance [OF ws] by blast
  have e: "rows (token_embedding small_llama) = 1" by (simp add: small_llama_def)
  have "validate_logits_request small_llama [0] 1 = Ok ()" "logits_byte_len (length [0 :: nat]) (rows (ll_output small_llama)) = Ok 4"
    using small_llama_facts e
    by (simp_all add: validate_logits_request_def logits_byte_len_def checked_len_def checked_byte_len_def checked_mul_usize_def usize_max_def)
  moreover have "logit_bytes 0 = [0, 0, 0, 0]" by code_simp
  moreover have "chunks 1 [0 :: nat] = [[0]]" by code_simp
  moreover have "replicate (rows (ll_output small_llama)) (0 :: f32) = [0]" using small_llama_facts by simp
  ultimately show ?thesis
    using ws step small_rope small_cache_kernels(1) small_llama_facts(1)
    by (simp add: logits_bytes_for_tokens_chunked_def visit_logits_for_tokens_chunked_def visit_token_def)
qed

theorem model_dump_reads_back_witness:
  "\<exists>vs. parse_logits_dump [0, 0, 0, 0] = Ok vs \<and> length vs = 1 \<and> list_all f32_is_finite vs \<and> concat (map logit_bytes vs) = [0, 0, 0, 0]"
  using model_dump_reads_back [OF small_wf small_dump] by (simp add: small_llama_facts)

text \<open>C37: The list of largest differences, kept by sorting and truncating after every value, is the front of
  the sorted list of all differences: the largest differences in decreasing order, equal ones in order
  of their positions.\<close>

theorem top_diffs_are_largest:
  assumes "length actual = length reference" "actual \<noteq> []" "limit \<noteq> 0"
    and "\<forall>n. row_size = Some n \<longrightarrow> n \<noteq> 0 \<and> length actual mod n = 0"
  shows "top_logits_diffs actual reference row_size limit =
    Ok (rank_diffs (take limit (sort_key top_order (map (diff_at row_size) (enumerate 0 (zip actual reference))))))"
  using assms by (rule top_diffs_sorted)

theorem top_diffs_are_largest_witness:
  "top_logits_diffs [0, 0x3f800000] [0, 0] (Some 2) 1 =
    Ok (rank_diffs (take 1 (sort_key top_order (map (diff_at (Some 2)) (enumerate 0 (zip [0, 0x3f800000] [0, 0]))))))"
  by (rule top_diffs_are_largest) simp_all

section \<open>Every parsed log-probability dump is complete\<close>

lemma yields_rfold_upt:
  "P 0 s \<Longrightarrow> (\<And>i s. i < n \<Longrightarrow> P i s \<Longrightarrow> yields (P (Suc i)) (f i s)) \<Longrightarrow> yields (P n) (rfold f [0..<n] s)"
proof (induction n)
  case (Suc n)
  have s: "[0..<Suc n] = [0..<n] @ [n]" by simp
  have one: "rfold f [n] x = f n x" for x by (cases "f n x") simp_all
  show ?case unfolding s rfold_append
  proof (rule yields_bind)
    show "yields (P n) (rfold f [0..<n] s)" using Suc by simp
    show "yields (P (Suc n)) (rfold f [n] x)" if "P n x" for x unfolding one using Suc.prems(2) that by simp
  qed
qed simp

text \<open>A row of the dump, at its place in the list.\<close>

definition row_at :: "dump_layout \<Rightarrow> nat list \<Rightarrow> nat \<Rightarrow> log_prob_row \<Rightarrow> bool" where
  "row_at l tokens i row \<longleftrightarrow> lp_chunk row = i div dl_rows_per_chunk l \<and>
    lp_position row = dl_first l + i mod dl_rows_per_chunk l \<and>
    lp_target_token row = tokens ! (lp_chunk row * dl_n_ctx l + lp_position row + 1) \<and>
    length (lp_log_probs row) = dl_n_vocab l"

lemma dump_header_layout:
  "yields (\<lambda>l. 0 < dl_n_chunks l \<and> 0 < dl_n_vocab l \<and> dl_first l = dl_n_ctx l div 2 \<and> 0 < dl_rows_per_chunk l \<and>
    dl_first l + dl_rows_per_chunk l + 1 = dl_n_ctx l \<and> dl_rows_start l = 20 + 4 * (dl_n_ctx l * dl_n_chunks l) \<and>
    dl_row_bytes l = 2 * (2 * ((dl_n_vocab l + 1) div 2) + 4) \<and>
    length bytes = dl_rows_start l + dl_rows_per_chunk l * dl_n_chunks l * dl_row_bytes l) (dump_header bytes)"
proof -
  consider "length bytes < 20 \<or> take 8 bytes \<noteq> dump_magic"
    | (err) e where "read_u32_le bytes 8 = Err e \<or> (\<exists>c. read_u32_le bytes 8 = Ok c) \<and> (read_i32_le_positive bytes 12 = Err e \<or>
        (\<exists>v. read_i32_le_positive bytes 12 = Ok v) \<and> read_i32_le_positive bytes 16 = Err e)" "\<not> length bytes < 20" "take 8 bytes = dump_magic"
    | (fields) c v k where "read_u32_le bytes 8 = Ok c" "read_i32_le_positive bytes 12 = Ok v" "read_i32_le_positive bytes 16 = Ok k"
        "0 < nat (sint v)" "0 < nat (sint k)" "\<not> length bytes < 20" "take 8 bytes = dump_magic"
  proof (cases "length bytes < 20 \<or> take 8 bytes \<noteq> dump_magic")
    case False
    have "yields (\<lambda>_. True) (read_u32_le bytes 8)" by (simp add: read_u32_le_def read_le_at_def)
    moreover have "yields (\<lambda>v. 0 < nat (sint v)) (read_i32_le_positive bytes i)" for i
      by (auto simp: read_i32_le_positive_def read_i32_le_def read_le_at_def)
    ultimately have "(\<exists>c. read_u32_le bytes 8 = Ok c) \<or> (\<exists>e. read_u32_le bytes 8 = Err e)"
      "(\<exists>v. read_i32_le_positive bytes i = Ok v \<and> 0 < nat (sint v)) \<or> (\<exists>e. read_i32_le_positive bytes i = Err e)" for i
      using yieldsE by blast+
    then show thesis using that(2,3) False by blast
  qed (use that(1) in blast)
  then show ?thesis
  proof cases
    case fields
    define n n_vocab n_chunks where "n = unat c" "n_vocab = nat (sint v)" "n_chunks = nat (sint k)"
    then show ?thesis using fields(4,5)
      unfolding dump_header_def fields(1-3) rbind.simps Let_def
      by (simp add: fields(6,7) checked_mul_usize_def checked_add_usize_def)
  qed (auto simp: dump_header_def Let_def)
qed

lemma dump_token_yields: "yields (\<lambda>t. t < n_vocab) (dump_token bytes n_vocab idx)"
  by (auto simp: dump_token_def read_i32_le_non_negative_def read_i32_le_def read_le_at_def Let_def)

lemma read_field_yields: "yields (\<lambda>_. True) (read_f32_le bytes offset)" "yields (\<lambda>_. True) (read_u16_le bytes offset)"
  by (auto simp: read_f32_le_def read_u16_le_def read_le_at_def)

lemma dump_row_yields:
  assumes "chunk * dl_n_ctx l + (dl_first l + row_idx) + 1 < length tokens"
  shows "yields (\<lambda>(_, rs'). \<exists>row. rs' = rs @ [row] \<and> lp_chunk row = chunk \<and> lp_position row = dl_first l + row_idx \<and>
      lp_target_token row = tokens ! (chunk * dl_n_ctx l + (dl_first l + row_idx) + 1) \<and> length (lp_log_probs row) = dl_n_vocab l)
    (dump_row bytes l tokens chunk row_idx (offset, rs))"
proof -
  have probs: "yields (\<lambda>ps. length ps = dl_n_vocab l) (traverse (\<lambda>vocab_idx. rbind (read_u16_le bytes (offset + 8 + vocab_idx * 2)) (\<lambda>q.
      Ok (f32_add min_log_prob (f32_mul scale (f32_of_int (int (unat q))))))) [0..<dl_n_vocab l])" for min_log_prob scale
    by (rule yields_mono [OF yields_traverse [where P = "\<lambda>_. True"]])
      (auto intro: yields_bind [OF read_field_yields(2)])
  show ?thesis unfolding dump_row_def prod.case Let_def
    by (intro yields_bind [OF yields_index [OF assms, where P = "\<lambda>t. t = tokens ! (chunk * dl_n_ctx l + (dl_first l + row_idx) + 1)"]]
        yields_bind [OF read_field_yields(1)])
      (auto intro!: yields_bind [OF probs [simplified]])
qed

lemma chunk_rows_yield:
  assumes lay: "dl_first l + dl_rows_per_chunk l + 1 = dl_n_ctx l" "length tokens = dl_n_ctx l * n_chunks" and c: "chunk < n_chunks"
    and start: "length rs = chunk * dl_rows_per_chunk l" "\<forall>i < length rs. row_at l tokens i (rs ! i)"
  shows "yields (\<lambda>(_, rs). length rs = Suc chunk * dl_rows_per_chunk l \<and> (\<forall>i < length rs. row_at l tokens i (rs ! i)))
    (rfold (dump_row bytes l tokens chunk) [0..<dl_rows_per_chunk l] (offset, rs))"
proof -
  let ?P = "\<lambda>n (_ :: nat, rs). length rs = chunk * dl_rows_per_chunk l + n \<and> (\<forall>i < length rs. row_at l tokens i (rs ! i))"
  have "yields (?P (dl_rows_per_chunk l)) (rfold (dump_row bytes l tokens chunk) [0..<dl_rows_per_chunk l] (offset, rs))"
  proof (rule yields_rfold_upt [where P = ?P])
    show "?P 0 (offset, rs)" using start by simp
    fix i s assume i: "i < dl_rows_per_chunk l" and P: "?P i s"
    obtain off us where s: "s = (off, us)" by fastforce
    have "Suc chunk * dl_n_ctx l \<le> n_chunks * dl_n_ctx l" using c by (intro mult_right_mono) simp_all
    then have bound: "chunk * dl_n_ctx l + (dl_first l + i) + 1 < length tokens" using lay i by (simp add: mult.commute)
    have at: "row_at l tokens (length us) row" if "lp_chunk row = chunk" "lp_position row = dl_first l + i"
      "lp_target_token row = tokens ! (chunk * dl_n_ctx l + (dl_first l + i) + 1)" "length (lp_log_probs row) = dl_n_vocab l" for row
      using that P i by (simp add: row_at_def s)
    show "yields (?P (Suc i)) (dump_row bytes l tokens chunk i s)" unfolding s
      by (rule yields_mono [OF dump_row_yields [OF bound]]) (use P at in \<open>auto simp: s nth_append less_Suc_eq\<close>)
  qed
  then show ?thesis by (simp add: add.commute)
qed

text \<open>Parsing a log-probability dump ends in an error value or in a complete dump, never in a panic:
  every token is inside the vocabulary, every chunk has its rows in order, and every row has one value
  per vocabulary entry and the target token that follows its position in the chunk.\<close>

lemma log_prob_dump_complete:
  "yields (\<lambda>d. 2 \<le> ld_n_ctx d \<and> length (ld_tokens d) = ld_n_ctx d * ld_n_chunks d \<and> list_all (\<lambda>t. t < ld_n_vocab d) (ld_tokens d) \<and>
    (let per_chunk = ld_n_ctx d - 1 - ld_n_ctx d div 2 in
     length (ld_rows d) = ld_n_chunks d * per_chunk \<and>
     (\<forall>i < length (ld_rows d). let row = ld_rows d ! i in
       lp_chunk row = i div per_chunk \<and> lp_position row = ld_n_ctx d div 2 + i mod per_chunk \<and>
       lp_target_token row = ld_tokens d ! (lp_chunk row * ld_n_ctx d + lp_position row + 1) \<and>
       length (lp_log_probs row) = ld_n_vocab d)))
    (parse_llamacpp_logprob_dump bytes)"
  unfolding parse_llamacpp_logprob_dump_def
proof (rule yields_bind [OF dump_header_layout], elim conjE, rule yields_bind [OF yields_traverse [OF dump_token_yields]], elim conjE, goal_cases)
  case (1 l tokens)
  let ?P = "\<lambda>n (_ :: nat, rs). length rs = n * dl_rows_per_chunk l \<and> (\<forall>i < length rs. row_at l tokens i (rs ! i))"
  have per: "dl_n_ctx l - 1 - dl_n_ctx l div 2 = dl_rows_per_chunk l" using 1 by simp
  have rows: "yields (?P (dl_n_chunks l)) (rfold (\<lambda>chunk s. rfold (dump_row bytes l tokens chunk) [0..<dl_rows_per_chunk l] s)
      [0..<dl_n_chunks l] (dl_rows_start l, []))"
  proof (rule yields_rfold_upt [where P = ?P])
    fix i s assume "i < dl_n_chunks l" "?P i s"
    then show "yields (?P (Suc i)) (rfold (dump_row bytes l tokens i) [0..<dl_rows_per_chunk l] s)"
      using 1 chunk_rows_yield [of l tokens "dl_n_chunks l" i "snd s" bytes "fst s"] by (cases s) simp
  qed simp
  show ?case
    by (rule yields_bind [OF rows]) (use 1 per in \<open>auto simp: row_at_def Let_def list_all_iff\<close>)
qed

section \<open>The comparison does not panic\<close>

lemma parse_dump_yields: "yields (\<lambda>vs. vs \<noteq> []) (parse_logits_dump bytes)"
proof -
  have "yields (\<lambda>_. True) (traverse (\<lambda>(idx, c). let v = word_of_nat (from_le c) in
      if \<not> f32_is_finite v then Err (NonFiniteValue idx) else Ok v) xs)" for xs
    by (rule yields_any [OF yields_traverse [where P = "\<lambda>_. True"]]) (auto simp: Let_def split: prod.split)
  then have total: "yields (\<lambda>_. True) (parse_logits_dump bytes)" by (simp add: parse_logits_dump_def)
  have "vs \<noteq> []" if "parse_logits_dump bytes = Ok vs" for vs using that parse_dump_iff by blast
  then show ?thesis using total by (cases "parse_logits_dump bytes") simp_all
qed

lemma compare_values_yields: "yields (\<lambda>_. True) (compare_logits_values actual reference)"
  by (simp add: compare_logits_values_def Let_def)

lemma compare_rows_yields: "yields (\<lambda>r. rm_row_size r = row_size \<and> row_size \<noteq> 0) (compare_logits_rows actual reference row_size)"
proof -
  have "yields (\<lambda>_. True) (rfold (\<lambda>(row_idx, actual_row, reference_row) (min_row, min_cosine).
      rbind (compare_logits_values actual_row reference_row) (\<lambda>row.
      Ok (if f64_lt (lm_cosine row) min_cosine then (row_idx, lm_cosine row) else (min_row, min_cosine)))) xs s)" for xs s
    by (rule yields_rfold) (auto split: prod.split intro!: yields_bind [OF compare_values_yields])
  then show ?thesis unfolding compare_logits_rows_def
    by (auto intro!: yields_bind [where Q = "\<lambda>_. True"])
qed

lemma worst_rows_yields: "row_size \<noteq> 0 \<Longrightarrow> yields (\<lambda>_. True) (worst_logits_rows actual reference row_size limit)"
proof -
  have "yields (\<lambda>_. True) (traverse (\<lambda>(row, actual_row, reference_row). rbind (compare_logits_values actual_row reference_row) (\<lambda>metrics.
      Ok \<lparr>wr_row = row, wr_metrics = metrics\<rparr>)) xs)" for xs
    by (rule yields_any [OF yields_traverse [where P = "\<lambda>_. True"]])
      (auto split: prod.split intro!: yields_bind [OF compare_values_yields])
  then show "row_size \<noteq> 0 \<Longrightarrow> ?thesis" unfolding worst_logits_rows_def Let_def
    by (auto intro!: yields_bind [where Q = "\<lambda>_. True"])
qed

text \<open>Whatever the options and the two files, the comparison of two logits dumps ends in a report or in
  an error value; in particular the division by a row size of 0 is never reached.\<close>

lemma compare_logits_returns: "yields (\<lambda>_. True) (compare_logits opts actual_bytes reference_bytes)"
proof -
  have rows: "yields (\<lambda>r. \<forall>m. r = Some m \<longrightarrow> rm_row_size m \<noteq> 0)
      (case co_row_size opts of Some row_size \<Rightarrow> rbind (compare_logits_rows actual reference row_size) (\<lambda>r. Ok (Some r)) | None \<Rightarrow> Ok None)"
    for actual reference
    by (auto split: option.split intro!: yields_bind [OF compare_rows_yields])
  have tops: "yields (\<lambda>_. True) (top_logits_diffs actual reference row_size limit)" for actual reference row_size limit
    by (simp add: top_logits_diffs_def)
  show ?thesis unfolding compare_logits_def
    by (rule yields_bind [OF parse_dump_yields], rule yields_bind [OF parse_dump_yields], rule yields_bind [OF compare_values_yields],
        rule yields_bind [OF rows], rule yields_bind [where Q = "\<lambda>_. True"], simp, rule yields_bind [where Q = "\<lambda>_. True"],
        simp split: option.split, rule yields_bind [where Q = "\<lambda>_. True"])
      (auto simp: validate_expected_rows_def tops split: option.split intro!: yields_bind [where Q = "\<lambda>_. True"] worst_rows_yields)
qed

end
