(* ===== verification/Attention_Parallel.thy ===== *)
theory Attention_Parallel
  imports Forward
begin

text \<open>
  The parallel loop over the attention heads in \<open>src/crates/det-model/src/lib.rs\<close>: every task works on
  its chunks of the output and of the two scratch buffers, and the head it computes is the one that
  the sequential loop computes, whatever the schedule.
\<close>

lemma chunks_cells:
  assumes "d \<noteq> 0" "length xs = n * d"
  shows "chunks d xs = map (flat_cell d xs) [0..<n]"
  using assms(2)
proof (induction n arbitrary: xs)
  case (Suc n)
  then have "xs \<noteq> []" using assms(1) by auto
  moreover have "chunks d (drop d xs) = map (flat_cell d (drop d xs)) [0..<n]" using Suc by simp
  moreover have "flat_cell d (drop d xs) i = flat_cell d xs (Suc i)" for i by (simp add: flat_cell_def add.commute)
  ultimately show ?case
    unfolding chunks_step [OF assms(1) \<open>xs \<noteq> []\<close>] map_upt_Suc by (simp add: flat_cell_def)
qed simp

lemma enumerate_zip_cells:
  "enumerate 0 (zip (zip (map f [0..<n]) (map g [0..<n])) (map h [0..<n])) = map (\<lambda>i. (i, (f i, g i), h i)) [0..<n]"
  by (rule nth_equalityI) (simp_all add: nth_enumerate_eq)

text \<open>The tasks of the parallel loop.\<close>

definition head_task ::
  "llama_config \<Rightarrow> nat \<Rightarrow> nat \<Rightarrow> kv_cache \<Rightarrow> nat \<Rightarrow> nat \<Rightarrow> f32 list \<Rightarrow> f32 list \<Rightarrow> f32 list \<Rightarrow> f32 list \<Rightarrow> nat \<Rightarrow>
    (f32 list \<times> f32 list \<times> f32 list) mres" where
  "head_task config layer_idx pos cache dh mc q attn ss ps head =
    attention_one_head config layer_idx pos cache head (flat_cell dh q head) (flat_cell dh attn head) (flat_cell mc ss head) (flat_cell mc ps head)"

lemma parallel_tasks:
  assumes "head_dim config = Ok dh" "dh \<noteq> 0" "mc \<noteq> 0"
    and "length q = head_count config * dh" "length attn = head_count config * dh"
      "length ss = head_count config * mc" "length ps = head_count config * mc"
  shows "attention_all_heads_parallel run pool config layer_idx pos cache q attn ss ps mc =
    (if \<not> pool then {Err ThreadPanicked}
     else (\<lambda>r. rbind r (\<lambda>hs. Ok (concat (map fst hs), concat (map (fst \<circ> snd) hs), concat (map (snd \<circ> snd) hs)))) `
       run (map (head_task config layer_idx pos cache dh mc q attn ss ps) [0..<head_count config]))"
proof -
  have "slice_at q (h * dh) ((h + 1) * dh) = (Ok (flat_cell dh q h) :: f32 list mres)" if "h < head_count config" for h
    using head_slice(1) [OF assms(4) that] .
  then have "map (\<lambda>(head, (out_head, score_scratch), prob_scratch).
        rbind (slice_at q (head * dh) ((head + 1) * dh)) (\<lambda>qh.
          attention_one_head config layer_idx pos cache head qh out_head score_scratch prob_scratch))
      (enumerate 0 (zip (zip (chunks dh attn) (chunks mc ss)) (chunks mc ps))) =
    map (head_task config layer_idx pos cache dh mc q attn ss ps) [0..<head_count config]"
    unfolding chunks_cells [OF assms(2,5)] chunks_cells [OF assms(3,6)] chunks_cells [OF assms(3,7)] enumerate_zip_cells map_map
    by (intro map_cong refl) (simp add: head_task_def)
  then show ?thesis by (simp add: attention_all_heads_parallel_def assms(1))
qed

lemma attention_parallel_outcome:
  assumes config: "head_dim config = Ok dh" "head_count_kv config \<noteq> 0" "head_count_kv config \<le> head_count config" and dh: "dh \<noteq> 0"
    and len: "length q = head_count config * dh" "length attn = head_count config * dh"
      "length ss = head_count config * mc" "length ps = head_count config * mc" and pos: "pos < mc"
    and run: "all_tasks_succeed run" "some_task_fails run"
    and r: "r \<in> attention_all_heads_parallel run True config layer_idx pos cache q attn ss ps mc"
  shows "((\<exists>s p. r = Ok (a, s, p)) \<longleftrightarrow> (\<exists>s p. attention_all_heads_sequential config layer_idx pos cache q attn ss ps mc = Ok (a, s, p))) \<and>
    (r = Err e \<longrightarrow> (\<exists>head < head_count config. head_ref config layer_idx pos cache dh q head = Err e))"
proof -
  let ?H = "head_count config" and ?task = "head_task config layer_idx pos cache dh mc q attn ss ps"
    and ?ref = "head_ref config layer_idx pos cache dh q"
  have task: "rel_res (\<lambda>(v, _, _) v'. v = v') (?task h) (?ref h)" if "h < ?H" for h
  proof -
    have "rel_res (\<lambda>(v, ss', ps') v'. v = v' \<and> length v = dh \<and> length ss' = length (flat_cell mc ss h) \<and> length ps' = length (flat_cell mc ps h))
        (?task h) (?ref h)"
      unfolding head_task_def
      by (rule attention_one_head_ref [OF config]) (use head_slice(2) [OF len(2) that] head_slice(2) [OF len(3) that] head_slice(2) [OF len(4) that] pos in simp_all)
    then show ?thesis by (cases "?task h"; cases "?ref h") auto
  qed
  have seq: "(\<exists>s p. attention_all_heads_sequential config layer_idx pos cache q attn ss ps mc = Ok (a, s, p)) \<longleftrightarrow>
      (\<exists>hs. traverse ?ref [0..<?H] = Ok hs \<and> a = concat hs)"
    using attention_loop [OF config len pos order.refl, of layer_idx cache] len(2)
    unfolding attention_all_heads_sequential_def config(1) rbind.simps
    by (cases "traverse ?ref [0..<?H]"; cases "rfold (attention_head_step config layer_idx pos cache q dh mc) [0..<?H] (attn, ss, ps)") auto
  obtain o1 where o1: "o1 \<in> run (map ?task [0..<?H])"
    "r = rbind o1 (\<lambda>hs. Ok (concat (map fst hs), concat (map (fst \<circ> snd) hs), concat (map (snd \<circ> snd) hs)))"
  proof -
    have "mc \<noteq> 0" using pos by simp
    from r [unfolded parallel_tasks [OF config(1) dh this len]] show ?thesis using that by auto
  qed
  show ?thesis
  proof (rule for_each_outcome [OF run o1(1)], goal_cases)
    case (1 hs)
    have n: "length hs = ?H" using arg_cong [OF 1(1), of length] by simp
    have ok: "?task h = Ok (hs ! h)" if "h < ?H" for h using arg_cong [OF 1(1), of "\<lambda>l. l ! h"] that n by simp
    have "?ref h = Ok (fst (hs ! h))" if "h < ?H" for h
      using task [OF that] ok [OF that] by (cases "?ref h"; cases "hs ! h") auto
    then have "traverse ?ref [0..<?H] = Ok (map fst hs)"
      unfolding traverse_Ok_iff by (auto simp: list_all2_conv_all_nth n)
    then show ?case unfolding seq o1(2) 1(2) by auto
  next
    case failure: (2 t)
    then obtain h where h: "h < ?H" "?task h = t" by auto
    have none: "?ref h \<noteq> Ok v" for v using task [OF h(1)] failure(2) h(2) by (cases "?task h") auto
    have "traverse ?ref [0..<?H] \<noteq> Ok hs" for hs
      using none h(1) by (fastforce simp: traverse_Ok_iff list_all2_conv_all_nth)
    moreover have "r \<noteq> Ok w" for w unfolding o1(2) failure(3) by (cases t) simp_all
    moreover have "?ref h = Err e" if "r = Err e"
    proof -
      have "t = Err e" using that unfolding o1(2) failure(3) by (cases t) (use failure(2) in auto)
      then show ?thesis using task [OF h(1)] h(2) by (cases "?ref h") auto
    qed
    ultimately show ?case unfolding seq using h(1) by blast
  qed
qed

text \<open>Attention over all heads does not depend on the threads. For every library \<open>rayon\<close> whose
  \<open>try_for_each\<close> behaves as documented, on buffers of the lengths that the caller checks: with a
  thread pool, the parallel loop over the heads returns an attention vector exactly when the
  sequential loop does, the same one, whatever order the heads are computed in, and an error only if
  a head has it; without one it returns \<open>ThreadPanicked\<close>.\<close>

lemma attention_threads_invariant:
  assumes "head_dim config = Ok dh" "head_count_kv config \<noteq> 0" "head_count_kv config \<le> head_count config" "dh \<noteq> 0"
    and "length q = head_count config * dh" "length attn = head_count config * dh"
      "length scores = head_count config * max_context" "length probs = head_count config * max_context" "pos < max_context"
    and "all_tasks_succeed try_for_each" "some_task_fails try_for_each"
  shows "attention_all_heads_parallel try_for_each pool config layer_idx pos cache q attn scores probs max_context \<noteq> {} \<and>
    (\<forall>r \<in> attention_all_heads_parallel try_for_each pool config layer_idx pos cache q attn scores probs max_context.
      if pool
      then (\<forall>a. (\<exists>s p. r = Ok (a, s, p)) \<longleftrightarrow>
          (\<exists>s p. attention_all_heads_sequential config layer_idx pos cache q attn scores probs max_context = Ok (a, s, p))) \<and>
        (\<forall>e. r = Err e \<longrightarrow> (\<exists>head < head_count config. head_ref config layer_idx pos cache dh q head = Err e))
      else r = Err ThreadPanicked)"
proof -
  have eq: "attention_all_heads_parallel try_for_each pool config layer_idx pos cache q attn scores probs max_context =
    (if \<not> pool then {Err ThreadPanicked}
     else (\<lambda>r. rbind r (\<lambda>hs. Ok (concat (map fst hs), concat (map (fst \<circ> snd) hs), concat (map (snd \<circ> snd) hs)))) `
       try_for_each (map (head_task config layer_idx pos cache dh max_context q attn scores probs) [0..<head_count config]))"
    by (rule parallel_tasks) (use assms in simp_all)
  show ?thesis
  proof (cases pool)
    case True
    have "attention_all_heads_parallel try_for_each True config layer_idx pos cache q attn scores probs max_context \<noteq> {}"
      using True for_each_ne [OF assms(10,11)] eq by simp
    then show ?thesis
      using attention_parallel_outcome [OF assms(1-9) assms(10,11)] by (simp only: True if_True simp_thms) blast
  next
    case False
    then show ?thesis unfolding eq by simp
  qed
qed

text \<open>Two heads of width one.\<close>

definition two_heads :: llama_config where "two_heads = tiny_config\<lparr>head_count := 2\<rparr>"

lemma attention_two_heads:
  "\<forall>r \<in> attention_all_heads_parallel in_order True two_heads 0 0 \<lparr>kv_config = two_heads, kv_head_dim = 1, kv_k = [0, 0], kv_v = [1, 2]\<rparr>
      [0, 0] [7, 7] [7, 7, 7, 7] [7, 7, 7, 7] 2. \<exists>s p. r = Ok ([1, 1], s, p)"
proof -
  let ?c = "\<lparr>kv_config = two_heads, kv_head_dim = 1, kv_k = [0, 0], kv_v = [1, 2]\<rparr> :: kv_cache"
  have "attention_all_heads_sequential two_heads 0 0 ?c [0, 0] [7, 7] [7, 7, 7, 7] [7, 7, 7, 7] 2 = Ok ([1, 1], [7, 7, 7, 7], [7, 7, 7, 7])"
    by (simp add: attention_all_heads_sequential_def two_heads_def tiny_config_def head_dim_def attention_head_step_def
        attention_one_head_def slice_at_def set_at_def upt_rec key_prefix_def value_prefix_def kv_prefix_def kv_offset_def
        checked_mul_usize_def checked_add_usize_def usize_max_def get_range_def slice_def)
  moreover have "head_dim two_heads = Ok 1" "head_count_kv two_heads = 1" "head_count two_heads = 2" by code_simp+
  ultimately show ?thesis
    using attention_threads_invariant [OF _ _ _ _ _ _ _ _ _ in_order_documented,
        of two_heads 1 "[0, 0]" "[7, 7]" "[7, 7, 7, 7]" 2 "[7, 7, 7, 7]" 0 True 0 ?c]
    by (simp del: One_nat_def)
qed

end
