(* ===== verification/Cli_Args.thy ===== *)
theory Cli_Args
  imports Codec
begin

text \<open>
  The arguments of the command line tool, \<open>src/crates/det-cli/src/main.rs\<close>: numbers, token lists,
  hexadecimal output, and the options of every command. A string is the list of its bytes.
  The options are folded over the arguments one after the other, with the later value of a
  repeated option winning, as the loops of the code do.
\<close>

section \<open>Strings\<close>

text \<open>\<open>char::is_whitespace\<close> on one encoded character, and \<open>str::trim\<close>.\<close>

definition whitespace :: "u8 list \<Rightarrow> bool" where
  "whitespace c =
    (let n = utf8_code c in
     9 \<le> n \<and> n \<le> 13 \<or> n \<in> {0x20, 0x85, 0xA0, 0x1680, 0x2028, 0x2029, 0x202F, 0x205F, 0x3000} \<or> 0x2000 \<le> n \<and> n \<le> 0x200A)"

definition trim :: "str \<Rightarrow> str" where
  "trim s = concat (rev (dropWhile whitespace (rev (dropWhile whitespace (utf8_chars s)))))"

text \<open>\<open>s.split(b)\<close>: the parts between the separators, one more than there are separators.\<close>

fun split_on :: "u8 \<Rightarrow> str \<Rightarrow> str list" where
  "split_on b [] = [[]]"
| "split_on b (c # s) =
    (if c = b then [] # split_on b s
     else case split_on b s of [] \<Rightarrow> [[c]] | part # parts \<Rightarrow> (c # part) # parts)"

text \<open>\<open>parse::<usize>\<close>: an optional plus sign and at least one digit, with every step checked.\<close>

definition digit_value :: "u8 \<Rightarrow> nat option" where
  "digit_value b = (if 48 \<le> b \<and> b \<le> 57 then Some (unat b - 48) else None)"

fun parse_digits :: "str \<Rightarrow> nat \<Rightarrow> nat option" where
  "parse_digits [] acc = Some acc"
| "parse_digits (b # s) acc =
    (case digit_value b of
       None \<Rightarrow> None
     | Some d \<Rightarrow>
         (case checked_mul_usize acc 10 of
            None \<Rightarrow> None
          | Some acc \<Rightarrow> (case checked_add_usize acc d of None \<Rightarrow> None | Some acc \<Rightarrow> parse_digits s acc)))"

definition parse_usize :: "str \<Rightarrow> nat option" where
  "parse_usize s =
    (let digits = (case s of b # s' \<Rightarrow> if b = 43 then s' else s | [] \<Rightarrow> []) in
     if digits = [] then None else parse_digits digits 0)"

section \<open>Errors\<close>

datatype cli_error =
    CodecError codec_error | ReadError str | WriteError str | ThreadError model_error
  | MissingValue string | InvalidNumber string str | ZeroNumber string | UnknownArgument str | UsageError
  | ContextInHeader | ExactlyOne | EmptyTokenList | InvalidTokenId str
  | OutputTensor gguf_error | EmbeddingTensor gguf_error | NotTwoDimensional str | VocabDimensionTooLarge str
  | TokenizingFailed token_error | LogitsFailed model_error
  | CanaryMismatch "u8 list" "u8 list" | KernelFailed quant_error | RmsNormFailed model_error
  | CanaryTableFailed cdf_error | NonFiniteDot | FixtureFailed model_error

type_synonym 'a cli = "(cli_error, 'a) res"

section \<open>Token lists and hexadecimal text\<close>

definition parse_tokens :: "str \<Rightarrow> nat list cli" where
  "parse_tokens s =
    (if trim s = [] then Err EmptyTokenList
     else traverse (\<lambda>part. ok_or (InvalidTokenId part) (parse_usize (trim part))) (split_on 44 s))"

definition join_tokens :: "u32 list \<Rightarrow> str" where
  "join_tokens tokens =
    fold (\<lambda>(idx, token) out. (if idx \<noteq> 0 then out @ [44] else out) @ decimal (unat token)) (enumerate 0 tokens) []"

text \<open>\<open>hex\<close>: high digit, then low digit, from the table of digits.\<close>

definition HEX :: str where "HEX = ascii ''0123456789abcdef''"

definition hex :: "u8 list \<Rightarrow> str" where
  "hex bytes = fold (\<lambda>b out. out @ [HEX ! unat (drop_bit 4 b), HEX ! unat (b AND 0x0F)]) bytes []"

section \<open>Options\<close>

text \<open>The value behind an option at index \<open>i\<close>, where the code does not insist on one.\<close>

definition arg :: "str list \<Rightarrow> nat \<Rightarrow> str option" where "arg args i = get_at args i"

definition required :: "string \<Rightarrow> str list \<Rightarrow> nat \<Rightarrow> str cli" where
  "required name args i = ok_or (MissingValue name) (arg args i)"

definition number :: "string \<Rightarrow> str list \<Rightarrow> nat \<Rightarrow> nat cli" where
  "number name args i =
    rbind (required name args i) (\<lambda>raw. ok_or (InvalidNumber name raw) (parse_usize raw))"

definition positive_number :: "string \<Rightarrow> str list \<Rightarrow> nat \<Rightarrow> nat cli" where
  "positive_number name args i =
    rbind (number name args i) (\<lambda>n. if n = 0 then Err (ZeroNumber name) else Ok n)"

abbreviation is_option :: "str \<Rightarrow> string list \<Rightarrow> bool" where
  "is_option a names \<equiv> a \<in> ascii ` set names"

record io_model_opts =
  io_model :: "str option"
  io_input :: "str option"
  io_output :: "str option"
  io_n_ctx :: "nat option"
  io_threads :: "nat option"

text \<open>One round of the option loop: the option at \<open>i\<close> changes the options and the loop goes on
  behind its value, present or not.\<close>

definition io_option :: "str list \<Rightarrow> nat \<Rightarrow> io_model_opts \<Rightarrow> io_model_opts cli" where
  "io_option args i s =
    (let a = args ! i; i = i + 1 in
     if is_option a [''-m'', ''--model''] then Ok (s\<lparr>io_model := arg args i\<rparr>)
     else if is_option a [''-i'', ''--input''] then Ok (s\<lparr>io_input := arg args i\<rparr>)
     else if is_option a [''-o'', ''--output''] then Ok (s\<lparr>io_output := arg args i\<rparr>)
     else if is_option a [''--n-ctx''] then
       rbind (number ''--n-ctx'' args i) (\<lambda>n. Ok (s\<lparr>io_n_ctx := Some n\<rparr>))
     else if is_option a [''--threads''] then
       rbind (positive_number ''--threads'' args i) (\<lambda>n. Ok (s\<lparr>io_threads := Some n\<rparr>))
     else Err (UnknownArgument a))"

text \<open>The loops of \<open>io_model_opts\<close>: every option takes one value, so \<open>i\<close> advances by two.\<close>

function option_loop :: "(nat \<Rightarrow> 's \<Rightarrow> 's cli) \<Rightarrow> nat \<Rightarrow> nat \<Rightarrow> 's \<Rightarrow> 's cli" where
  "option_loop step n i s = (if i < n then rbind (step i s) (\<lambda>s. option_loop step n (i + 2) s) else Ok s)"
  by auto
termination by (relation "measure (\<lambda>(_, n, i, _). n - i)") auto

declare option_loop.simps [simp del]

definition io_start :: io_model_opts where
  "io_start = \<lparr>io_model = None, io_input = None, io_output = None, io_n_ctx = None, io_threads = None\<rparr>"

text \<open>The parsed options: model, input, output, window length, threads.\<close>

definition parse_io_opts :: "str list \<Rightarrow> (str \<times> str \<times> str \<times> nat option \<times> nat option) cli" where
  "parse_io_opts args =
    rbind (option_loop (io_option args) (length args) 0 io_start) (\<lambda>s.
    rbind (ok_or UsageError (io_model s)) (\<lambda>model.
    rbind (ok_or UsageError (io_input s)) (\<lambda>input.
    rbind (ok_or UsageError (io_output s)) (\<lambda>output.
    Ok (model, input, output, io_n_ctx s, io_threads s)))))"

record tokenize_opts =
  to_model :: "str option"
  to_prompt :: "str option"
  to_input :: "str option"

definition tokenize_option :: "str list \<Rightarrow> nat \<Rightarrow> tokenize_opts \<Rightarrow> tokenize_opts cli" where
  "tokenize_option args i s =
    (let a = args ! i; i = i + 1 in
     if is_option a [''-m'', ''--model''] then Ok (s\<lparr>to_model := arg args i\<rparr>)
     else if is_option a [''-p'', ''--prompt''] then rbind (required ''--prompt'' args i) (\<lambda>p. Ok (s\<lparr>to_prompt := Some p\<rparr>))
     else if is_option a [''-i'', ''--input''] then rbind (required ''--input'' args i) (\<lambda>p. Ok (s\<lparr>to_input := Some p\<rparr>))
     else Err (UnknownArgument a))"

record logits_opts =
  lo_model :: "str option"
  lo_tokens :: "str option"
  lo_prompt :: "str option"
  lo_hash :: bool
  lo_dump :: "str option"
  lo_threads :: "nat option"
  lo_chunk_size :: nat

text \<open>\<open>--hash\<close> has no value: the options of \<open>logits\<close> return the next index.\<close>

definition logits_option :: "str list \<Rightarrow> nat \<Rightarrow> logits_opts \<Rightarrow> (nat \<times> logits_opts) cli" where
  "logits_option args i s =
    (let a = args ! i; j = i + 1 in
     if is_option a [''-m'', ''--model''] then Ok (j + 1, s\<lparr>lo_model := arg args j\<rparr>)
     else if is_option a [''--tokens''] then Ok (j + 1, s\<lparr>lo_tokens := arg args j\<rparr>)
     else if is_option a [''--hash''] then Ok (i + 1, s\<lparr>lo_hash := True\<rparr>)
     else if is_option a [''--dump''] then rbind (required ''--dump'' args j) (\<lambda>p. Ok (j + 1, s\<lparr>lo_dump := Some p\<rparr>))
     else if is_option a [''-p'', ''--prompt''] then Ok (j + 1, s\<lparr>lo_prompt := arg args j\<rparr>)
     else if is_option a [''--threads''] then
       rbind (positive_number ''--threads'' args j) (\<lambda>n. Ok (j + 1, s\<lparr>lo_threads := Some n\<rparr>))
     else if is_option a [''--chunk-size''] then
       rbind (positive_number ''--chunk-size'' args j) (\<lambda>n. Ok (j + 1, s\<lparr>lo_chunk_size := n\<rparr>))
     else Err (UnknownArgument a))"

lemma logits_option_later: "logits_option args i s = Ok (j, s') \<Longrightarrow> i < j"
  by (auto simp: logits_option_def Let_def split: if_splits)

function logits_option_loop :: "str list \<Rightarrow> nat \<Rightarrow> logits_opts \<Rightarrow> logits_opts cli" where
  "logits_option_loop args i s =
    (if i < length args then rbind (logits_option args i s) (\<lambda>(j, s). logits_option_loop args j s) else Ok s)"
  by auto
termination
  by (relation "measure (\<lambda>(args, i, _). length args - i)") (auto dest: logits_option_later)

declare logits_option_loop.simps [simp del]

section \<open>Facts\<close>

text \<open>A list of identifiers that was printed is read back.\<close>

lemma unat_digit: "d < 10 \<Longrightarrow> unat (word_of_nat (48 + d) :: u8) = 48 + d"
  by (simp add: unsigned_of_nat take_bit_nat_eq_self del: of_nat_add)

lemma digit_value_digit: "d < 10 \<Longrightarrow> digit_value (word_of_nat (48 + d)) = Some d"
  by (simp add: digit_value_def word_le_nat_alt unat_digit del: of_nat_add)

lemma parse_digits_append: "parse_digits (s @ t) acc = (case parse_digits s acc of None \<Rightarrow> None | Some acc \<Rightarrow> parse_digits t acc)"
  by (induction s arbitrary: acc) (auto simp: checked_mul_usize_def checked_add_usize_def split: option.splits)

lemma parse_decimal: "n \<le> usize_max \<Longrightarrow> parse_digits (decimal n) 0 = Some n"
proof (induction n rule: decimal.induct)
  case (1 n)
  show ?case
  proof (cases "n < 10")
    case True
    then show ?thesis
      by (subst decimal.simps) (simp add: digit_value_digit checked_mul_usize_def checked_add_usize_def usize_max_def del: of_nat_add)
  next
    case False
    have "n div 10 \<le> usize_max" "n div 10 * 10 \<le> usize_max" using 1(2) by auto
    with 1(1) [OF False] False 1(2) show ?thesis
      by (subst decimal.simps)
        (simp add: parse_digits_append digit_value_digit checked_mul_usize_def checked_add_usize_def del: of_nat_add)
  qed
qed

lemma decimal_chars: "decimal n \<noteq> [] \<and> (\<forall>b \<in> set (decimal n). 48 \<le> b \<and> b \<le> 57)"
proof (induction n rule: decimal.induct)
  case (1 n)
  have d: "48 \<le> (word_of_nat (48 + d) :: u8) \<and> (word_of_nat (48 + d) :: u8) \<le> 57" if "d < 10" for d
    using that by (simp add: word_le_nat_alt unat_digit del: of_nat_add)
  show ?case
  proof (cases "n < 10")
    case True
    then show ?thesis using d [OF True] by (subst (1 2) decimal.simps) (simp del: of_nat_add)
  next
    case False
    then show ?thesis using 1 d [of "n mod 10"] by (subst (1 2) decimal.simps) (simp del: of_nat_add)
  qed
qed

lemma parse_usize_decimal: "n \<le> usize_max \<Longrightarrow> parse_usize (decimal n) = Some n"
  using decimal_chars [of n] parse_decimal [of n] by (cases "decimal n") (auto simp: parse_usize_def)

text \<open>Text of single-byte characters that are no spaces is its own trimmed text.\<close>

lemma utf8_chars_ascii: "(\<And>b. b \<in> set s \<Longrightarrow> b < 128) \<Longrightarrow> utf8_chars s = map (\<lambda>b. [b]) s"
proof (induction s)
  case Nil
  then show ?case by (simp add: utf8_chars.simps utf8_len_def)
next
  case (Cons b s)
  then have "utf8_len (b # s) = Some 1" by (auto simp: utf8_len_def utf8_need_def)
  then show ?case using Cons by (subst utf8_chars.simps) simp
qed

lemma trim_plain:
  assumes "\<And>b. b \<in> set s \<Longrightarrow> 33 \<le> b \<and> b < 128"
  shows "trim s = s"
proof -
  have plain: "\<not> whitespace [b]" if "b \<in> set s" for b
  proof -
    have "33 \<le> unat b" "unat b < 128" using assms [OF that] by (simp_all add: word_le_nat_alt word_less_nat_alt)
    then show ?thesis by (simp add: whitespace_def utf8_code_def)
  qed
  have keep: "dropWhile whitespace (map (\<lambda>b. [b]) t) = map (\<lambda>b. [b]) t" if "set t \<subseteq> set s" for t
    using that plain by (cases t) auto
  show ?thesis
    using assms keep [of s] keep [of "rev s"] by (simp add: trim_def utf8_chars_ascii rev_map [symmetric])
qed

lemma split_on_separator: "b \<notin> set s \<Longrightarrow> split_on b (s @ b # t) = s # split_on b t"
  by (induction s) auto

lemma split_on_plain: "b \<notin> set s \<Longrightarrow> split_on b s = [s]"
  by (induction s) auto

lemma digit_plain:
  assumes "b \<in> set (decimal n)"
  shows "33 \<le> b \<and> b < 128 \<and> b \<noteq> 44"
proof -
  have "48 \<le> b" "b \<le> 57" using assms decimal_chars [of n] by blast+
  then show ?thesis by (auto simp: word_le_nat_alt word_less_nat_alt)
qed

lemma join_fold:
  "0 < i \<Longrightarrow> fold (\<lambda>(idx, token) out. (if idx \<noteq> 0 then out @ [44] else out) @ decimal (unat token)) (enumerate i tokens) out =
    out @ concat (map (\<lambda>token. 44 # decimal (unat (token :: u32))) tokens)"
  by (induction tokens arbitrary: i out) auto

lemma join_tokens_Cons:
  "join_tokens (t # tokens) = decimal (unat t) @ concat (map (\<lambda>token. 44 # decimal (unat token)) tokens)"
  using join_fold [of 1] by (simp add: join_tokens_def)

lemma split_joined: "split_on 44 (join_tokens (t # tokens)) = map (decimal \<circ> unat) (t # tokens)"
proof (induction tokens arbitrary: t)
  case Nil
  have "44 \<notin> set (decimal (unat t))" using digit_plain by blast
  then show ?case by (simp add: join_tokens_Cons split_on_plain)
next
  case (Cons u tokens)
  have "44 \<notin> set (decimal (unat t))" using digit_plain by blast
  then show ?case using Cons.IH [of u] by (simp add: join_tokens_Cons split_on_separator)
qed

lemma parse_joined:
  assumes "tokens \<noteq> []"
  shows "parse_tokens (join_tokens tokens) = Ok (map unat tokens)"
proof -
  obtain t us where tokens: "tokens = t # us" using assms by (cases tokens) auto
  have plain: "33 \<le> b \<and> b < 128" if "b \<in> set (join_tokens tokens)" for b
    using that digit_plain by (fastforce simp: tokens join_tokens_Cons split: if_splits)
  have trimmed: "trim (join_tokens tokens) = join_tokens tokens" by (rule trim_plain) (rule plain)
  have nonempty: "join_tokens tokens \<noteq> []" using decimal_chars by (simp add: tokens join_tokens_Cons)
  have part: "ok_or (InvalidTokenId p) (parse_usize (trim p)) = Ok (unat v)" if "p = decimal (unat (v :: u32))" for p v
  proof -
    have "unat v < 2 ^ 32" using unsigned_less [of v] by simp
    then have "parse_usize (decimal (unat v)) = Some (unat v)" by (intro parse_usize_decimal) (simp add: usize_max_def)
    moreover have "trim p = p" unfolding that by (rule trim_plain) (use digit_plain in blast)
    ultimately show ?thesis by (simp add: that)
  qed
  have "traverse (\<lambda>p. ok_or (InvalidTokenId p) (parse_usize (trim p))) (map (decimal \<circ> unat) ts) = Ok (map unat (ts :: u32 list))" for ts
    by (induction ts) (simp_all add: part)
  then show ?thesis
    by (simp only: parse_tokens_def trimmed nonempty if_False) (simp only: tokens split_joined)
qed

end
