(* ===== verification/Runtime_Canary.thy ===== *)
theory Runtime_Canary
  imports Cli_Args Quant_Simd Canary
begin

text \<open>
  The pseudo-random blocks and the fixture model of \<open>src/crates/det-cli/src/main.rs\<close> with the three
  digests the tool computes over them: the runtime canary that every command runs first, the digest of
  many kernel results, and the digest of the logits of a fixed model. The instruction set that the build
  selects is an argument; the digests do not depend on it.
\<close>

section \<open>Pseudo-random blocks\<close>

text \<open>\<open>x.wrapping_mul(a).wrapping_add(c)\<close>.\<close>

definition lcg :: "u32 \<Rightarrow> u32 \<Rightarrow> u32 \<Rightarrow> u32" where "lcg a c x = x * a + c"

text \<open>A loop that fills an array while it threads the state of the generator.\<close>

primrec draws :: "nat \<Rightarrow> (u32 \<Rightarrow> 'a \<times> u32) \<Rightarrow> u32 \<Rightarrow> 'a list \<times> u32" where
  "draws 0 f x = ([], x)"
| "draws (Suc n) f x = (let (v, x) = f x; (vs, x) = draws n f x in (v # vs, x))"

text \<open>\<open>(v as i16 - c) as i8\<close> for a small remainder \<open>v\<close>.\<close>

definition centred :: "u32 \<Rightarrow> nat \<Rightarrow> i8" where "centred v c = word_of_int (uint v - int c)"

text \<open>\<open>f32::from_bits(base + (seed & 0xff))\<close>; the bases leave room for the sum.\<close>

definition scale_bits :: "u32 \<Rightarrow> u32 \<Rightarrow> f32" where "scale_bits base seed = base + (seed AND 0xFF)"

definition fixture_q8_block :: "u32 \<Rightarrow> q8_0_block" where
  "fixture_q8_block seed =
    \<lparr>q8_d = scale_bits 0x3c000000 seed,
     q8_q = fst (draws BLOCK (\<lambda>x. let x = lcg 1103515245 12345 x in (centred (drop_bit 16 x mod 255) 127, x)) seed)\<rparr>"

definition fixture_q8a_block :: "u32 \<Rightarrow> q8a_block" where
  "fixture_q8a_block seed =
    \<lparr>qa_d = scale_bits 0x3d000000 seed,
     qa_q = fst (draws BLOCK (\<lambda>x. let x = lcg 22695477 1 x in (centred (drop_bit 17 x mod 255) 127, x)) seed)\<rparr>"

definition fixture_q4_block :: "u32 \<Rightarrow> q4_0_block" where
  "fixture_q4_block seed =
    \<lparr>q4_d = scale_bits 0x3c800000 seed,
     q4_qs = fst (draws 16 (\<lambda>x.
       let x = lcg 747796405 2891336453 x;
           lo = ucast (drop_bit 8 x AND 0x0F) :: u8;
           hi = ucast (drop_bit 20 x AND 0x0F) :: u8
       in (lo OR push_bit 4 hi, x)) seed)\<rparr>"

text \<open>The scales of a Q4_K block: the first four pairs are stored as they are, the high bits of the
  last four go into the upper bits of the bytes of the first.\<close>

definition q4k_first :: "nat \<Rightarrow> u8 list \<times> u32 \<Rightarrow> u8 list \<times> u32" where
  "q4k_first i = (\<lambda>(scales, x).
    let x = lcg 1664525 1013904223 x; scale = ucast (drop_bit 10 x AND 0x3F) :: u8;
        x = lcg 22695477 1 x; min = ucast (drop_bit 11 x AND 0x3F) :: u8
    in (scales[i := scale AND 0x3F, i + 4 := min AND 0x3F], x))"

definition q4k_second :: "nat \<Rightarrow> u8 list \<times> u32 \<Rightarrow> u8 list \<times> u32" where
  "q4k_second i = (\<lambda>(scales, x).
    let x = lcg 747796405 2891336453 x; scale = ucast (drop_bit 8 x AND 0x3F) :: u8;
        x = lcg 1103515245 12345 x; min = ucast (drop_bit 12 x AND 0x3F) :: u8;
        scales = scales[i + 4 := (scale AND 0x0F) OR push_bit 4 (min AND 0x0F)];
        scales = scales[i - 4 := scales ! (i - 4) OR push_bit 6 (drop_bit 4 scale)];
        scales = scales[i := scales ! i OR push_bit 6 (drop_bit 4 min)]
    in (scales, x))"

definition fixture_q4k_block :: "u32 \<Rightarrow> q4k_block" where
  "fixture_q4k_block seed =
    (let (scales, x) = fold q4k_first [0..<4] (replicate 12 0, seed);
         (scales, x) = fold q4k_second [4..<8] (scales, x);
         qs = fst (draws 128 (\<lambda>x.
           let x = lcg 1103515245 12345 x; lo = ucast (drop_bit 16 x AND 0x0F) :: u8;
               x = lcg 747796405 2891336453 x; hi = ucast (drop_bit 20 x AND 0x0F) :: u8
           in (lo OR push_bit 4 hi, x)) x)
     in \<lparr>k4_d = scale_bits 0x3b000000 seed, k4_dmin = scale_bits 0x3a800000 (drop_bit 8 seed),
         k4_scales = scales, k4_qs = qs\<rparr>)"

definition fixture_q6_block :: "u32 \<Rightarrow> q6k_block" where
  "fixture_q6_block seed =
    (let (ql, x) = draws 128 (\<lambda>x. let x = lcg 1664525 1013904223 x in (ucast (drop_bit 13 x), x)) seed;
         (qh, x) = draws 64 (\<lambda>x. let x = lcg 22695477 1 x in (ucast (drop_bit 11 x), x)) x;
         (scales, x) = draws 16 (\<lambda>x. let x = lcg 747796405 2891336453 x in (centred (drop_bit 16 x mod 127) 63, x)) x
     in \<lparr>k6_d = scale_bits 0x3b800000 seed, k6_ql = ql, k6_qh = qh, k6_scales = scales\<rparr>)"

definition q8a_blocks_for_q4k :: "u32 \<Rightarrow> q8a_block list" where
  "q8a_blocks_for_q4k seed =
    map (\<lambda>i. fixture_q8a_block (seed + word_of_nat i * 0x85ebca6b)) [0..<Q4K_BLOCK div BLOCK]"

definition q6_input :: "u32 \<Rightarrow> f32 list" where
  "q6_input seed =
    map (\<lambda>i. let x = lcg 747796405 2891336453 (seed + word_of_nat i * 0x9e3779b9)
         in f32_div (f32_of_int (uint (drop_bit 9 x) mod 4093 - 2046)) (f32_of_int 257)) [0..<Q6K_BLOCK]"

definition q8k_block_for_q6 :: "u32 \<Rightarrow> (quant_error, q8k_block) res" where
  "q8k_block_for_q6 seed = quantize_q8k_block (q6_input seed)"

section \<open>The runtime canary\<close>

definition RUNTIME_CANARY_EXPECTED :: "u8 list" where
  "RUNTIME_CANARY_EXPECTED =
   [0x05, 0x5d, 0x04, 0xe3, 0x36, 0xf7, 0x48, 0x12, 0x9f, 0x5d, 0x80, 0x25, 0x0f, 0xe9, 0x45, 0xeb,
    0xa6, 0xc8, 0x28, 0x93, 0xc2, 0x89, 0xce, 0x28, 0x4d, 0xc0, 0x9e, 0xcb, 0xc8, 0x03, 0x50, 0x95]"

definition kernel :: "(quant_error, 'a) res \<Rightarrow> 'a cli" where "kernel r = map_err KernelFailed r"

definition hash_bits :: "f32 list \<Rightarrow> sha256 \<Rightarrow> sha256 cli" where
  "hash_bits vs h = rfold (\<lambda>v h. sha_update h (logit_bytes v)) vs h"

text \<open>The block products of one seed: Q8_0, Q4_0, Q4_K, Q6_K.\<close>

definition dots_8_4 :: "simd_target \<Rightarrow> u32 \<Rightarrow> (f32 \<times> f32) cli" where
  "dots_8_4 target seed =
    (let a = fixture_q8a_block (lcg 1664525 1013904223 seed) in
     rbind (kernel (dot_q8_0_q8a_block target (fixture_q8_block seed) a)) (\<lambda>y8.
     rbind (kernel (dot_q4_0_q8a_block target (fixture_q4_block (seed XOR 0xa5a55a5a)) a)) (\<lambda>y4.
     Ok (y8, y4))))"

definition dot_4k :: "u32 \<Rightarrow> f32 cli" where
  "dot_4k seed = kernel (dot_q4_k_q8a [fixture_q4k_block (seed XOR 0x9e3779b9)] (q8a_blocks_for_q4k seed))"

definition dot_6k :: "u32 \<Rightarrow> f32 cli" where
  "dot_6k seed =
    rbind (kernel (q8k_block_for_q6 seed)) (\<lambda>a6. kernel (dot_q6_k_q8k [fixture_q6_block (seed XOR 0x517cc1b7)] [a6]))"

definition canary_round :: "simd_target \<Rightarrow> u32 \<Rightarrow> sha256 \<Rightarrow> sha256 cli" where
  "canary_round target seed h =
    rbind (dots_8_4 target seed) (\<lambda>(y8, y4).
    rbind (dot_4k seed) (\<lambda>y4k.
    rbind (dot_6k seed) (\<lambda>y6.
    if \<not> f32_is_finite y8 \<or> \<not> f32_is_finite y4 \<or> \<not> f32_is_finite y4k \<or> \<not> f32_is_finite y6 then Err NonFiniteDot
    else hash_bits [y8, y4, y4k, y6] h)))"

definition canary_quant_input :: "f32 list" where
  "canary_quant_input =
    map (\<lambda>i. if i = 0 then 1 else if i = 1 then f32_neg 2
             else f32_mul (f32_of_int (int i mod 11 - 5)) (f32_lit 1 32)) [0..<BLOCK]"

definition canary_rms_x :: "f32 list" where
  "canary_rms_x = [1, f32_lit (- 3) 4, f32_lit 5 4, f32_of_int (- 2), f32_lit 7 2, f32_lit (- 17) 4, f32_lit 1 2, f32_lit (- 1) 8]"

definition canary_rms_w :: "f32 list" where
  "canary_rms_w = [f32_of_int 1, f32_lit (- 1) 2, f32_lit 1 4, f32_lit (- 3) 2, f32_of_int 2, f32_lit (- 5) 2,
    f32_lit 3 4, f32_lit (- 1) 4]"

definition canary_logits :: "f32 list" where
  "canary_logits = [0, f32_of_int (- 1), f32_lit 13 4, f32_lit 13 4, f32_lit (- 177) 2, 1, f32_of_int (- 12),
    f32_lit 1 2, f32_lit (- 1) 4, f32_of_int 2, f32_of_int (- 1000)]"

definition runtime_canary_hash :: "simd_target \<Rightarrow> u8 list cli" where
  "runtime_canary_hash target =
    rbind (rfold (\<lambda>seed. canary_round target (word_of_nat seed)) [0..<16] sha_new) (\<lambda>h.
    rbind (kernel (quantize_q8a_block canary_quant_input)) (\<lambda>q.
    rbind (sha_update h (logit_bytes (qa_d q))) (\<lambda>h.
    rbind (rfold (\<lambda>v h. sha_update h [v]) (qa_q q) h) (\<lambda>h.
    rbind (map_err RmsNormFailed (rmsnorm canary_rms_x canary_rms_w (f32_lit 1 100000) (replicate 8 0))) (\<lambda>rms.
    rbind (hash_bits rms h) (\<lambda>h.
    rbind (map_err CanaryTableFailed (logits_to_cdf canary_logits)) (\<lambda>table.
    rbind (rfold (\<lambda>v h. sha_update h (le_bytes 4 (unat v))) (c_freq table) h) (\<lambda>h.
    rbind (rfold (\<lambda>v h. sha_update h (le_bytes 8 (unat v))) (c_cum table) h) (\<lambda>h.
    rbind (sha_update h (le_bytes 8 (unat (c_total table)))) sha_finalize)))))))))"

definition run_canaries :: "simd_target \<Rightarrow> unit cli" where
  "run_canaries target =
    rbind (map_err (\<lambda>e. CanaryMismatch (ce_expected e) (ce_actual e)) run_canary) (\<lambda>_.
    rbind (runtime_canary_hash target) (\<lambda>actual.
    if actual \<noteq> RUNTIME_CANARY_EXPECTED then Err (CanaryMismatch RUNTIME_CANARY_EXPECTED actual) else Ok ()))"

section \<open>The digest of many kernel results\<close>

definition CASES :: nat where "CASES = 1000000"
definition Q4K_CASES :: nat where "Q4K_CASES = 4096"
definition Q6K_CASES :: nat where "Q6K_CASES = 4096"

definition hash_dots :: "(u32 \<Rightarrow> f32 list cli) \<Rightarrow> nat \<Rightarrow> sha256 \<Rightarrow> sha256 cli" where
  "hash_dots dots n h =
    rfold (\<lambda>seed h. rbind (dots (word_of_nat seed)) (\<lambda>ys.
      if list_ex (\<lambda>y. \<not> f32_is_finite y) ys then Err NonFiniteDot else hash_bits ys h)) [0..<n] h"

definition quant_kernel_hash :: "simd_target \<Rightarrow> u8 list cli" where
  "quant_kernel_hash target =
    rbind (hash_dots (\<lambda>seed. rbind (dots_8_4 target seed) (\<lambda>(y8, y4). Ok [y8, y4])) CASES sha_new) (\<lambda>h.
    rbind (hash_dots (\<lambda>seed. rbind (dot_4k seed) (\<lambda>y. Ok [y])) Q4K_CASES h) (\<lambda>h.
    rbind (hash_dots (\<lambda>seed. rbind (dot_6k seed) (\<lambda>y. Ok [y])) Q6K_CASES h) sha_finalize))"

section \<open>The fixture model\<close>

definition fixture_matrix :: "nat \<Rightarrow> nat \<Rightarrow> f32 \<Rightarrow> weight_matrix cli" where
  "fixture_matrix n_rows n_cols scale =
    rbind (map_err FixtureFailed (fm_new n_rows n_cols
      (map (\<lambda>i. f32_mul (f32_sub (f32_of_int (int (i mod 9))) (f32_of_int 4)) scale) [0..<n_rows * n_cols])))
      (\<lambda>m. Ok (WF32 m))"

definition fixture_config :: llama_config where
  "fixture_config =
    \<lparr>block_count = 1, embedding_length = 4, feed_forward_length = 6, head_count = 2, head_count_kv = 1,
     rms_epsilon = f32_lit 1 100000, attention_scale = f32_div (f32_of_int 1) (f32_sqrt (f32_of_int 2)),
     rope_freq_base = f32_of_int 10000, rope_dimension_count = 2, rope_pairing = Adjacent, context_length = 8\<rparr>"

definition fixture_model :: "llama cli" where
  "fixture_model =
    (let one = replicate 4 (f32_of_int 1); matrix = (\<lambda>r c num den. fixture_matrix r c (f32_lit num den)) in
     rbind (matrix 4 4 1 100) (\<lambda>embedding.
     rbind (matrix 4 4 2 100) (\<lambda>q. rbind (matrix 2 4 (- 15) 1000) (\<lambda>k.
     rbind (matrix 2 4 25 1000) (\<lambda>v. rbind (matrix 4 4 (- 2) 100) (\<lambda>wo.
     rbind (matrix 6 4 3 100) (\<lambda>gate. rbind (matrix 6 4 (- 25) 1000) (\<lambda>up.
     rbind (matrix 4 6 18 1000) (\<lambda>down. rbind (matrix 4 4 22 1000) (\<lambda>out.
     Ok \<lparr>ll_config = fixture_config, token_embedding = embedding,
         ll_layers = [\<lparr>attention_norm = one, wq = q, attn_q_bias = None, wk = k, attn_k_bias = None, wv = v,
           attn_v_bias = None, wo = wo, ffn_norm = one, w_gate = gate, w_up = up, w_down = down\<rparr>],
         output_norm = one, ll_output = out\<rparr>))))))))))"

definition fixture_logits_hash :: "u8 list cli" where
  "fixture_logits_hash =
    rbind fixture_model (\<lambda>model. map_err LogitsFailed (logits_hash_for_tokens model [0, 1, 2, 3, 0, 2]))"

section \<open>The instruction set does not matter\<close>

lemma draws_length: "length (fst (draws n f x)) = n"
  by (induction n arbitrary: x) (simp_all add: case_prod_unfold Let_def)

lemma fixture_blocks_ok:
  "q8_0_ok (fixture_q8_block seed)" "q4_0_ok (fixture_q4_block seed)" "q8a_ok (fixture_q8a_block seed)"
  "q6k_ok (fixture_q6_block seed)"
  by (simp_all add: q8_0_ok_def q4_0_ok_def q8a_ok_def q6k_ok_def fixture_q8_block_def fixture_q4_block_def
      fixture_q8a_block_def fixture_q6_block_def draws_length BLOCK_def case_prod_unfold Let_def)

lemma dots_target: "dots_8_4 target = dots_8_4 Portable"
proof
  fix seed
  have "dot_q8_0_q8a_block t (fixture_q8_block s) (fixture_q8a_block u) = dot_q8_0_q8a_block_scalar (fixture_q8_block s) (fixture_q8a_block u)"
    "dot_q4_0_q8a_block t (fixture_q4_block s') (fixture_q8a_block u) = dot_q4_0_q8a_block_scalar (fixture_q4_block s') (fixture_q8a_block u)"
    for t s s' u
    using target_kernels [OF fixture_blocks_ok(1) [of s] fixture_blocks_ok(2) [of s'] fixture_blocks_ok(3) [of u]] by blast+
  then show "dots_8_4 target seed = dots_8_4 Portable seed" by (simp add: dots_8_4_def)
qed

lemma digests_target:
  "runtime_canary_hash target = runtime_canary_hash Portable" "run_canaries target = run_canaries Portable"
  "quant_kernel_hash target = quant_kernel_hash Portable"
proof -
  have "canary_round target = canary_round Portable" by (intro ext) (simp add: canary_round_def dots_target [of target])
  then show hash: "runtime_canary_hash target = runtime_canary_hash Portable" by (simp add: runtime_canary_hash_def)
  show "run_canaries target = run_canaries Portable" by (simp add: run_canaries_def hash)
  show "quant_kernel_hash target = quant_kernel_hash Portable" by (simp add: quant_kernel_hash_def dots_target [of target])
qed

end
