(* ===== verification/Cli.thy ===== *)
theory Cli
  imports Runtime_Canary Codec_Round_Trip
begin

text \<open>
  The commands of \<open>src/crates/det-cli/src/main.rs\<close> on a world of files: options, files read and
  written, lines printed, and the thread setting. A command that fails has no further effect that
  the model keeps. Files are the contents behind path names; two different names are two different
  files. What \<open>gguf-dump\<close> prints about a file it has parsed is a parameter, because it is made with the
  standard library's formatting of floats.
\<close>

section \<open>The world\<close>

record world =
  w_files :: "str \<rightharpoonup> u8 list"
  w_writable :: "str \<Rightarrow> bool"
  w_threads :: nat
  w_out :: "str list"

definition read_file :: "world \<Rightarrow> str \<Rightarrow> u8 list cli" where
  "read_file w path = ok_or (ReadError path) (w_files w path)"

definition write_file :: "str \<Rightarrow> u8 list \<Rightarrow> world \<Rightarrow> world cli" where
  "write_file path bytes w =
    (if w_writable w path then Ok (w\<lparr>w_files := (w_files w)(path \<mapsto> bytes)\<rparr>) else Err (WriteError path))"

definition println :: "str \<Rightarrow> world \<Rightarrow> world" where "println line w = w\<lparr>w_out := w_out w @ [line]\<rparr>"

text \<open>\<open>det_model::set_thread_count\<close>: the number of threads that later products ask for, 0 for the
  number that the machine has.\<close>

definition set_thread_count :: "nat option \<Rightarrow> world \<Rightarrow> world mres" where
  "set_thread_count threads w =
    (case threads of
       Some n \<Rightarrow> if n = 0 then Err Shape else Ok (w\<lparr>w_threads := n\<rparr>)
     | None \<Rightarrow> Ok (w\<lparr>w_threads := 0\<rparr>))"

definition apply_threads :: "nat option \<Rightarrow> world \<Rightarrow> world cli" where
  "apply_threads threads w = map_err ThreadError (set_thread_count threads w)"

section \<open>Compressing and decompressing files\<close>

definition compress_command :: "str list \<Rightarrow> world \<Rightarrow> world cli" where
  "compress_command args w =
    rbind (parse_io_opts args) (\<lambda>(model, input, output, n_ctx, threads).
    rbind (apply_threads threads w) (\<lambda>w.
    rbind (read_file w input) (\<lambda>bytes.
    rbind (read_file w model) (\<lambda>model_bytes.
    rbind (map_err CodecError (compress model_bytes bytes n_ctx)) (\<lambda>out.
    write_file output out w)))))"

text \<open>The header is decoded before the model file is read, and again as the first step of \<open>decompress\<close>.\<close>

definition decompress_command :: "str list \<Rightarrow> world \<Rightarrow> world cli" where
  "decompress_command args w =
    rbind (parse_io_opts args) (\<lambda>(model, input, output, n_ctx, threads).
    if n_ctx \<noteq> None then Err ContextInHeader
    else
      rbind (apply_threads threads w) (\<lambda>w.
      rbind (read_file w input) (\<lambda>encoded.
      rbind (map_err (CodecError \<circ> HeaderError) (header_decode encoded)) (\<lambda>_.
      rbind (read_file w model) (\<lambda>model_bytes.
      rbind (map_err CodecError (decompress model_bytes encoded)) (\<lambda>restored.
      write_file output restored w))))))"

section \<open>The other commands\<close>

definition sha256_command :: "str list \<Rightarrow> world \<Rightarrow> world cli" where
  "sha256_command args w =
    rbind (ok_or UsageError (get_at args 0)) (\<lambda>path.
    rbind (read_file w path) (\<lambda>bytes.
    rbind (sha_update sha_new bytes) (\<lambda>h. rbind (sha_finalize h) (\<lambda>digest.
    Ok (println (hex digest) w)))))"

definition gguf_dump :: "(gguf \<Rightarrow> str list) \<Rightarrow> str list \<Rightarrow> world \<Rightarrow> world cli" where
  "gguf_dump report args w =
    (if length args \<noteq> 1 then Err UsageError
     else
       rbind (read_file w (args ! 0)) (\<lambda>bytes.
       rbind (map_err (CodecError \<circ> GgufError) (parse bytes)) (\<lambda>g. Ok (fold println (report g) w))))"

definition gguf_model_vocab_len :: "gguf \<Rightarrow> nat cli" where
  "gguf_model_vocab_len g =
    rbind (case tensor g (ascii ''output.weight'') of
        Err TensorNotFound \<Rightarrow> map_err EmbeddingTensor (tensor g (ascii ''token_embd.weight''))
      | r \<Rightarrow> map_err OutputTensor r) (\<lambda>t.
    if length (t_dimensions t) \<noteq> 2 then Err (NotTwoDimensional (t_name t))
    else if usize_max < unat (t_dimensions t ! 1) then Err (VocabDimensionTooLarge (t_name t))
    else Ok (unat (t_dimensions t ! 1)))"

definition tokenize_start :: tokenize_opts where
  "tokenize_start = \<lparr>to_model = None, to_prompt = None, to_input = None\<rparr>"

definition tokenize_command :: "str list \<Rightarrow> world \<Rightarrow> world cli" where
  "tokenize_command args w =
    rbind (option_loop (tokenize_option args) (length args) 0 tokenize_start) (\<lambda>s.
    rbind (ok_or UsageError (to_model s)) (\<lambda>model.
    if (to_prompt s \<noteq> None) = (to_input s \<noteq> None) then Err ExactlyOne
    else
      rbind (read_file w model) (\<lambda>bytes.
      rbind (map_err (CodecError \<circ> GgufError) (parse bytes)) (\<lambda>g.
      rbind (map_err CodecError (gguf_token_vocab_len g)) (\<lambda>tokenizer_vocab_len.
      rbind (map_err (CodecError \<circ> TokenizerError) (from_gguf g)) (\<lambda>tokenizer.
      rbind (gguf_model_vocab_len g) (\<lambda>model_vocab_len.
      rbind (map_err CodecError (validate_vocab_lengths tokenizer_vocab_len model_vocab_len)) (\<lambda>_.
      rbind (case to_prompt s of
          Some prompt \<Rightarrow> Ok prompt
        | None \<Rightarrow> (case to_input s of Some path \<Rightarrow> read_file w path | None \<Rightarrow> Panic)) (\<lambda>input.
      rbind (map_err TokenizingFailed (tokenize_bytes tokenizer input)) (\<lambda>ids.
      Ok (println (join_tokens ids) w)))))))))))"

definition logits_start :: logits_opts where
  "logits_start = \<lparr>lo_model = None, lo_tokens = None, lo_prompt = None, lo_hash = False, lo_dump = None,
    lo_threads = None, lo_chunk_size = 1\<rparr>"

text \<open>The digest of the logits, from the bytes that are dumped or else from the hasher.\<close>

definition logits_digest :: "llama \<Rightarrow> nat list \<Rightarrow> nat \<Rightarrow> bool \<Rightarrow> (u8 list \<times> u8 list option) cli" where
  "logits_digest model ids chunk_size dump =
    rbind (if dump then rbind (map_err LogitsFailed (logits_bytes_for_tokens_chunked model ids chunk_size)) (\<lambda>bytes. Ok (Some bytes))
           else Ok None) (\<lambda>logits_bytes.
    rbind (case logits_bytes of
        Some bytes \<Rightarrow> rbind (sha_update sha_new bytes) sha_finalize
      | None \<Rightarrow> map_err LogitsFailed (logits_hash_for_tokens_chunked model ids chunk_size)) (\<lambda>digest.
    Ok (digest, logits_bytes)))"

text \<open>The command after its options: the token identifiers, the model, the digest.\<close>

definition logits_run :: "logits_opts \<Rightarrow> world \<Rightarrow> world cli" where
  "logits_run s w =
    (if \<not> lo_hash s then Err UsageError
     else
       rbind (ok_or UsageError (lo_model s)) (\<lambda>path.
       if (lo_tokens s \<noteq> None) = (lo_prompt s \<noteq> None) then Err ExactlyOne
       else
         rbind (apply_threads (lo_threads s) w) (\<lambda>w.
         rbind (read_file w path) (\<lambda>bytes.
         rbind (map_err (CodecError \<circ> GgufError) (parse bytes)) (\<lambda>g.
         rbind (case lo_tokens s of
             Some raw \<Rightarrow> rbind (parse_tokens raw) (\<lambda>ids. Ok (None, ids))
           | None \<Rightarrow>
               rbind (map_err CodecError (gguf_token_vocab_len g)) (\<lambda>n.
               rbind (map_err (CodecError \<circ> TokenizerError) (from_gguf g)) (\<lambda>tokenizer.
               rbind (map_err TokenizingFailed (tokenize_bytes tokenizer (case lo_prompt s of Some p \<Rightarrow> p | None \<Rightarrow> []))) (\<lambda>ids.
               Ok (Some n, map unat ids))))) (\<lambda>(tokenizer_vocab_len, ids).
         rbind (map_err (CodecError \<circ> ModelError) (llama_from_gguf g bytes)) (\<lambda>model.
         rbind (case tokenizer_vocab_len of
             Some n \<Rightarrow> map_err CodecError (validate_tokenizer_model_vocab_len n model) | None \<Rightarrow> Ok ()) (\<lambda>_.
         rbind (logits_digest model ids (lo_chunk_size s) (lo_dump s \<noteq> None)) (\<lambda>(digest, dumped).
         rbind (case lo_dump s of
             Some path \<Rightarrow> (case dumped of Some bytes \<Rightarrow> write_file path bytes w | None \<Rightarrow> Panic)
           | None \<Rightarrow> Ok w) (\<lambda>w.
         Ok (println (hex digest) w)))))))))))"

definition logits_command :: "str list \<Rightarrow> world \<Rightarrow> world cli" where
  "logits_command args w = rbind (logits_option_loop args 0 logits_start) (\<lambda>s. logits_run s w)"

text \<open>\<open>real_main\<close>: all commands but \<open>selftest\<close> run the canaries before anything else, an unknown command
  or none too.\<close>

definition real_main :: "simd_target \<Rightarrow> (gguf \<Rightarrow> str list) \<Rightarrow> str list \<Rightarrow> world \<Rightarrow> world cli" where
  "real_main target report all_args w =
    (let command = get_at all_args 0; args = drop 1 all_args; named = (\<lambda>name. command = Some (ascii name)) in
     rbind (if \<not> named ''selftest'' then run_canaries target else Ok ()) (\<lambda>_.
     if named ''selftest'' then rbind (run_canaries target) (\<lambda>_. Ok (println (ascii ''ok'') w))
     else if named ''gguf-dump'' then gguf_dump report args w
     else if named ''sha256'' then sha256_command args w
     else if named ''fixture-logits-hash'' then rbind fixture_logits_hash (\<lambda>h. Ok (println (hex h) w))
     else if named ''quant-kernel-hash'' then rbind (quant_kernel_hash target) (\<lambda>h. Ok (println (hex h) w))
     else if named ''tokenize'' then tokenize_command args w
     else if named ''logits'' then logits_command args w
     else if named ''compress'' then compress_command args w
     else if named ''decompress'' then decompress_command args w
     else Err UsageError))"

section \<open>Options that were parsed\<close>





section \<open>Compressing a file and decompressing the result\<close>







end
